(* ===== verification/Prelude.thy ===== *)
theory Prelude
  imports Main "HOL-Library.Word" "HOL-Library.Multiset"
begin

text \<open>
  Shared base of the development: the result type of fallible code, the combinators that thread
  a state through it, and the generic facts on lists the components share.

  A Rust panic (a failed \<open>assert!\<close>, an \<open>unwrap\<close> of \<open>None\<close>, an index out of bounds) and a
  PostgreSQL \<open>ERROR\<close> raised with \<open>pgrx::error!\<close> both abandon the operation: they are the first
  two constructors of \<open>pg_error\<close>, and a fallible function returns \<open>pg_error + 'a\<close>. A loop that
  is not bounded by its data runs on fuel; \<open>OutOfFuel\<close> is no behaviour of the code, and theorems
  exclude it.
\<close>

section \<open>Results\<close>

datatype pg_error = Panic string | PgError string | OutOfFuel

type_synonym 'a res = "pg_error + 'a"

named_theorems res_simps \<open>reductions of the result combinators\<close>

definition rbind :: "'a res \<Rightarrow> ('a \<Rightarrow> 'b res) \<Rightarrow> 'b res" where
  "rbind m f = (case m of Inl e \<Rightarrow> Inl e | Inr x \<Rightarrow> f x)"

definition rassert :: "bool \<Rightarrow> string \<Rightarrow> unit res" where
  "rassert b msg = (if b then Inr () else Inl (Panic msg))"

definition runwrap :: "'a option \<Rightarrow> string \<Rightarrow> 'a res" where
  "runwrap x msg = (case x of None \<Rightarrow> Inl (Panic msg) | Some y \<Rightarrow> Inr y)"

definition is_ok :: "'a res \<Rightarrow> bool" where
  "is_ok m = (case m of Inl _ \<Rightarrow> False | Inr _ \<Rightarrow> True)"

lemma rbind_simps [simp, res_simps]:
  "rbind (Inl e) f = Inl e" "rbind (Inr x) f = f x"
  by (simp_all add: rbind_def)

lemma rbind_eq_Inr [simp, res_simps]:
  "rbind m f = Inr y \<longleftrightarrow> (\<exists>x. m = Inr x \<and> f x = Inr y)"
  by (cases m) auto

lemma rassert_simps [simp, res_simps]:
  "rassert True msg = Inr ()" "rassert False msg = Inl (Panic msg)"
  by (simp_all add: rassert_def)

lemma rassert_eq_Inr [simp, res_simps]: "rassert b msg = Inr u \<longleftrightarrow> b"
  by (cases b) auto

lemma runwrap_simps [simp, res_simps]:
  "runwrap (Some y) msg = Inr y" "runwrap None msg = Inl (Panic msg)"
  by (simp_all add: runwrap_def)

lemma runwrap_eq_Inr [simp, res_simps]: "runwrap x msg = Inr y \<longleftrightarrow> x = Some y"
  by (cases x) auto

lemma is_ok_simps [simp, res_simps]: "\<not> is_ok (Inl e)" "is_ok (Inr x)"
  by (simp_all add: is_ok_def)

lemma is_ok_iff: "is_ok m \<longleftrightarrow> (\<exists>x. m = Inr x)"
  by (cases m) auto

lemma rbind_cong [fundef_cong]:
  "m = m' \<Longrightarrow> (\<And>x. m' = Inr x \<Longrightarrow> f x = g x) \<Longrightarrow> rbind m f = rbind m' g"
  by (cases m') auto

text \<open>Code without unbounded loops never runs out of fuel; \<open>no_fuel\<close> collects the cases.\<close>

named_theorems no_fuel \<open>results that are not \<open>OutOfFuel\<close>\<close>

lemma rbind_fuel [no_fuel]:
  "m \<noteq> Inl OutOfFuel \<Longrightarrow> (\<And>x. m = Inr x \<Longrightarrow> f x \<noteq> Inl OutOfFuel) \<Longrightarrow> rbind m f \<noteq> Inl OutOfFuel"
  by (cases m) auto

lemma rassert_fuel [no_fuel]: "rassert b msg \<noteq> Inl OutOfFuel"
  by (cases b) auto

lemma runwrap_fuel [no_fuel]: "runwrap x msg \<noteq> Inl OutOfFuel"
  by (cases x) auto

lemma Inr_fuel [no_fuel]: "Inr x \<noteq> Inl OutOfFuel" by simp

lemma Panic_fuel [no_fuel]: "Inl (Panic msg) \<noteq> Inl OutOfFuel" by simp

lemma PgError_fuel [no_fuel]: "Inl (PgError msg) \<noteq> Inl OutOfFuel" by simp

lemma if_fuel [no_fuel]:
  "(b \<Longrightarrow> m \<noteq> Inl OutOfFuel) \<Longrightarrow> (\<not> b \<Longrightarrow> n \<noteq> Inl OutOfFuel) \<Longrightarrow> (if b then m else n) \<noteq> Inl OutOfFuel"
  by simp

lemma prod_fuel [no_fuel]:
  "(\<And>a b. x = (a, b) \<Longrightarrow> f a b \<noteq> Inl OutOfFuel) \<Longrightarrow> (case x of (a, b) \<Rightarrow> f a b) \<noteq> Inl OutOfFuel"
  by (cases x) simp

lemma prod_app_fuel [no_fuel]:
  "(\<And>a b. x = (a, b) \<Longrightarrow> f a b s \<noteq> Inl OutOfFuel) \<Longrightarrow> (case x of (a, b) \<Rightarrow> f a b) s \<noteq> Inl OutOfFuel"
  by (cases x) simp

lemma Let_fuel [no_fuel]: "f x \<noteq> Inl OutOfFuel \<Longrightarrow> Let x f \<noteq> Inl OutOfFuel"
  by simp

lemma option_fuel [no_fuel]:
  "(x = None \<Longrightarrow> m \<noteq> Inl OutOfFuel) \<Longrightarrow> (\<And>y. x = Some y \<Longrightarrow> f y \<noteq> Inl OutOfFuel) \<Longrightarrow>
     (case x of None \<Rightarrow> m | Some y \<Rightarrow> f y) \<noteq> Inl OutOfFuel"
  by (cases x) simp_all

text \<open>A \<open>for\<close> loop whose body may fail: left to right, stopping at the first error.\<close>

fun rfold :: "('a \<Rightarrow> 's \<Rightarrow> 's res) \<Rightarrow> 'a list \<Rightarrow> 's \<Rightarrow> 's res" where
  "rfold f [] s = Inr s"
| "rfold f (x # xs) s = rbind (f x s) (rfold f xs)"

lemma rfold_append: "rfold f (xs @ ys) s = rbind (rfold f xs s) (rfold f ys)"
  by (induction xs arbitrary: s) (auto simp: rbind_def split: sum.splits)

lemma rfold_invariant:
  assumes "rfold f xs s = Inr s'" "I s"
    and "\<And>x s s'. x \<in> set xs \<Longrightarrow> I s \<Longrightarrow> f x s = Inr s' \<Longrightarrow> I s'"
  shows "I s'"
  using assms
proof (induction xs arbitrary: s)
  case (Cons x xs)
  from Cons.prems(1) obtain t where t: "f x s = Inr t" "rfold f xs t = Inr s'" by auto
  from Cons.prems(2,3) t(1) have "I t" by (metis list.set_intros(1))
  then show ?case
    using Cons.IH [OF t(2)] Cons.prems(3) by (metis list.set_intros(2))
qed simp

lemma rfold_fuel [no_fuel]:
  "(\<And>x s. x \<in> set xs \<Longrightarrow> f x s \<noteq> Inl OutOfFuel) \<Longrightarrow> rfold f xs s \<noteq> Inl OutOfFuel"
proof (induction xs arbitrary: s)
  case (Cons x xs)
  then show ?case by (simp add: rbind_fuel)
qed simp

text \<open>Collecting the results of a fallible state-passing map, as \<open>iter().map(..).collect()\<close>.\<close>

fun rmap :: "('a \<Rightarrow> 's \<Rightarrow> ('b \<times> 's) res) \<Rightarrow> 'a list \<Rightarrow> 's \<Rightarrow> ('b list \<times> 's) res" where
  "rmap f [] s = Inr ([], s)"
| "rmap f (x # xs) s =
     rbind (f x s) (\<lambda>(y, s). rbind (rmap f xs s) (\<lambda>(ys, s). Inr (y # ys, s)))"

lemma rmap_length: "rmap f xs s = Inr (ys, s') \<Longrightarrow> length ys = length xs"
  by (induction xs arbitrary: s ys) auto

lemma rmap_fuel [no_fuel]:
  "(\<And>x s. x \<in> set xs \<Longrightarrow> f x s \<noteq> Inl OutOfFuel) \<Longrightarrow> rmap f xs s \<noteq> Inl OutOfFuel"
proof (induction xs arbitrary: s)
  case (Cons x xs)
  then show ?case unfolding rmap.simps by (intro no_fuel) simp_all
qed simp

lemma rmap_invariant:
  assumes "rmap f xs s = Inr (ys, s')" "I s"
    and "\<And>x s y s'. x \<in> set xs \<Longrightarrow> I s \<Longrightarrow> f x s = Inr (y, s') \<Longrightarrow> I s' \<and> Q x y"
  shows "I s' \<and> list_all2 Q xs ys"
  using assms
proof (induction xs arbitrary: s ys)
  case (Cons x xs)
  from Cons.prems(1) obtain y t zs where t: "f x s = Inr (y, t)" "rmap f xs t = Inr (zs, s')" "ys = y # zs" by auto
  from Cons.prems(2,3) t(1) have i: "I t" "Q x y" by (metis list.set_intros(1))+
  have "I s' \<and> list_all2 Q xs zs"
    by (rule Cons.IH [OF t(2) i(1)]) (use Cons.prems(3) in \<open>metis list.set_intros(2)\<close>)
  then show ?case using i(2) t(3) by simp
qed simp

section \<open>Orderings\<close>

text \<open>\<open>std::cmp::Ordering\<close>, the comparison of a linear order, and \<open>then_with\<close>.\<close>

datatype ordering = Less | Equal | Greater

definition cmp_of :: "'a::linorder \<Rightarrow> 'a \<Rightarrow> ordering" where
  "cmp_of x y = (if x < y then Less else if x = y then Equal else Greater)"

fun then_with :: "ordering \<Rightarrow> ordering \<Rightarrow> ordering" where
  "then_with Equal r = r"
| "then_with r _ = r"

lemma cmp_of_iff [simp]:
  "cmp_of x y = Less \<longleftrightarrow> x < y" "cmp_of x y = Equal \<longleftrightarrow> x = y" "cmp_of x y = Greater \<longleftrightarrow> y < x"
  by (auto simp: cmp_of_def)

lemma then_with_iff [simp]:
  "then_with a b = Less \<longleftrightarrow> a = Less \<or> a = Equal \<and> b = Less"
  "then_with a b = Equal \<longleftrightarrow> a = Equal \<and> b = Equal"
  "then_with a b = Greater \<longleftrightarrow> a = Greater \<or> a = Equal \<and> b = Greater"
  by (cases a; simp)+

section \<open>Lists\<close>

text \<open>\<open>slice::partition_point\<close>: the length of the longest prefix that satisfies the predicate.\<close>

definition partition_point :: "('a \<Rightarrow> bool) \<Rightarrow> 'a list \<Rightarrow> nat" where
  "partition_point P xs = length (takeWhile P xs)"

definition insert_at :: "nat \<Rightarrow> 'a \<Rightarrow> 'a list \<Rightarrow> 'a list" where
  "insert_at i x xs = take i xs @ x # drop i xs"

lemma partition_point_le [simp]: "partition_point P xs \<le> length xs"
  by (simp add: partition_point_def length_takeWhile_le)

lemma length_insert_at [simp]: "i \<le> length xs \<Longrightarrow> length (insert_at i x xs) = Suc (length xs)"
  by (simp add: insert_at_def)

lemma nth_insert_at [simp]: "i \<le> length xs \<Longrightarrow> insert_at i x xs ! i = x"
  by (simp add: insert_at_def nth_append)

lemma set_insert_at [simp]: "set (insert_at i x xs) = insert x (set xs)"
proof -
  have "set xs = set (take i xs) \<union> set (drop i xs)"
    by (metis append_take_drop_id set_append)
  then show ?thesis by (auto simp: insert_at_def)
qed

lemma mset_insert_at [simp]: "mset (insert_at i x xs) = add_mset x (mset xs)"
proof -
  have "mset xs = mset (take i xs) + mset (drop i xs)"
    by (metis append_take_drop_id mset_append)
  then show ?thesis by (simp add: insert_at_def)
qed

lemma takeWhile_append_dropWhile_partition:
  "insert_at (partition_point P xs) x xs = takeWhile P xs @ x # dropWhile P xs"
  by (simp add: insert_at_def partition_point_def takeWhile_eq_take [symmetric]
        dropWhile_eq_drop [symmetric])

text \<open>
  \<open>Vec::retain(|n| seen.insert(key n))\<close>: keep the first element of every key that is not yet in
  the set, in order.
\<close>

fun retain_unseen :: "('a \<Rightarrow> 'k) \<Rightarrow> 'k set \<Rightarrow> 'a list \<Rightarrow> 'a list" where
  "retain_unseen key seen [] = []"
| "retain_unseen key seen (x # xs) =
     (if key x \<in> seen then retain_unseen key seen xs
      else x # retain_unseen key (insert (key x) seen) xs)"

lemma retain_unseen_keys: "key ` set (retain_unseen key seen xs) = key ` set xs - seen"
  by (induction xs arbitrary: seen) auto

lemma retain_unseen_subset: "set (retain_unseen key seen xs) \<subseteq> set xs"
  by (induction xs arbitrary: seen) auto

lemma retain_unseen_distinct: "distinct (map key (retain_unseen key seen xs))"
proof (induction xs arbitrary: seen)
  case (Cons x xs)
  have "key x \<notin> key ` set (retain_unseen key (insert (key x) seen) xs)"
    by (simp add: retain_unseen_keys)
  with Cons show ?case by auto
qed simp

lemma retain_unseen_id:
  "distinct (map key xs) \<Longrightarrow> key ` set xs \<inter> seen = {} \<Longrightarrow> retain_unseen key seen xs = xs"
  by (induction xs arbitrary: seen) auto

lemma retain_unseen_length: "length (retain_unseen key seen xs) \<le> length xs"
  by (induction xs arbitrary: seen) (auto intro: le_SucI)

lemma retain_unseen_append:
  "retain_unseen key seen (xs @ ys) =
     retain_unseen key seen xs @ retain_unseen key (seen \<union> key ` set xs) ys"
  by (induction xs arbitrary: seen) (auto simp: insert_absorb)

end
