(* ===== verification/Binary_Heap.thy ===== *)
theory Binary_Heap
  imports Prelude
begin

text \<open>
  The standard library's \<open>BinaryHeap\<close>, which holds the candidates of a graph search and the
  buffer that reorders scan results. A heap is its array; \<open>le\<close> is the element type's \<open>Ord\<close>
  (\<open>Reverse\<close> and reversed \<open>cmp\<close> implementations flip it). Which of several equal maxima a pop
  returns depends on the array, so the sift operations follow the library's code.
\<close>

section \<open>Operations\<close>

definition swap :: "'a list \<Rightarrow> nat \<Rightarrow> nat \<Rightarrow> 'a list" where
  "swap xs i j = xs[j := xs ! i, i := xs ! j]"

fun sift_up :: "('a \<Rightarrow> 'a \<Rightarrow> bool) \<Rightarrow> 'a list \<Rightarrow> nat \<Rightarrow> 'a list" where
  "sift_up le xs pos =
     (if pos = 0 then xs
      else let parent = (pos - 1) div 2
           in if le (xs ! pos) (xs ! parent) then xs
              else sift_up le (swap xs pos parent) parent)"

declare sift_up.simps [simp del]

text \<open>Down to a leaf, always towards the larger child; the result is the array and the leaf.\<close>

function sift_down :: "('a \<Rightarrow> 'a \<Rightarrow> bool) \<Rightarrow> 'a list \<Rightarrow> nat \<Rightarrow> 'a list \<times> nat" where
  "sift_down le xs pos =
     (let child = 2 * pos + 1; len = length xs
      in if child \<le> len - 2 then
           let c = (if le (xs ! child) (xs ! (child + 1)) then child + 1 else child)
           in sift_down le (swap xs pos c) c
         else if child + 1 = len then (swap xs pos child, child)
         else (xs, pos))"
  by pat_completeness auto
termination
  by (relation "measure (\<lambda>(le, xs, pos). length xs - pos)") (auto simp: swap_def Let_def)

declare sift_down.simps [simp del]

definition bh_push :: "('a \<Rightarrow> 'a \<Rightarrow> bool) \<Rightarrow> 'a \<Rightarrow> 'a list \<Rightarrow> 'a list" where
  "bh_push le x xs = sift_up le (xs @ [x]) (length xs)"

definition bh_pop :: "('a \<Rightarrow> 'a \<Rightarrow> bool) \<Rightarrow> 'a list \<Rightarrow> ('a \<times> 'a list) option" where
  "bh_pop le xs =
     (if xs = [] then None
      else let item = last xs; data = butlast xs
           in if data = [] then Some (item, [])
              else (case sift_down le (data[0 := item]) 0 of (ys, pos) \<Rightarrow>
                      Some (hd data, sift_up le ys pos)))"

definition bh_peek :: "'a list \<Rightarrow> 'a option" where
  "bh_peek xs = (case xs of [] \<Rightarrow> None | x # _ \<Rightarrow> Some x)"

section \<open>The elements are kept\<close>

definition parent_of :: "nat \<Rightarrow> nat" where
  "parent_of i = (i - 1) div 2"

lemma parent_of_less: "0 < i \<Longrightarrow> parent_of i < i"
  by (auto simp: parent_of_def)

lemma parent_of_children [simp]: "parent_of (2 * i + 1) = i" "parent_of (2 * i + 2) = i"
  by (simp_all add: parent_of_def)

lemma parent_of_cases: "0 < i \<Longrightarrow> i = 2 * parent_of i + 1 \<or> i = 2 * parent_of i + 2"
  unfolding parent_of_def by presburger

lemma sift_up_unfold:
  "sift_up le xs pos =
     (if pos = 0 \<or> le (xs ! pos) (xs ! parent_of pos) then xs
      else sift_up le (swap xs pos (parent_of pos)) (parent_of pos))"
  by (subst sift_up.simps) (simp add: Let_def parent_of_def)

lemma length_swap [simp]: "length (swap xs i j) = length xs"
  by (simp add: swap_def)

lemma mset_swap_eq [simp]: "i < length xs \<Longrightarrow> j < length xs \<Longrightarrow> mset (swap xs i j) = mset xs"
  by (simp add: swap_def mset_swap)

lemma swap_nth:
  "i < length xs \<Longrightarrow> j < length xs \<Longrightarrow> k < length xs \<Longrightarrow>
     swap xs i j ! k = (if k = i then xs ! j else if k = j then xs ! i else xs ! k)"
  by (auto simp: swap_def nth_list_update)

lemma sift_up_mset: "pos < length xs \<Longrightarrow> mset (sift_up le xs pos) = mset xs"
proof (induction le xs pos rule: sift_up.induct)
  case (1 le xs pos)
  then show ?case by (subst sift_up.simps) (auto simp: Let_def)
qed

lemma sift_down_step:
  assumes "2 * pos + 1 \<le> length xs - 2"
    and c: "c = (if le (xs ! (2 * pos + 1)) (xs ! (2 * pos + 2)) then 2 * pos + 2 else 2 * pos + 1)"
  shows "sift_down le xs pos = sift_down le (swap xs pos c) c" "pos < c" "c < length xs"
    "parent_of c = pos"
proof -
  show "sift_down le xs pos = sift_down le (swap xs pos c) c"
    using assms(1) by (subst sift_down.simps) (simp add: c Let_def)
qed (use assms(1) in \<open>auto simp: c parent_of_def\<close>)

lemma sift_down_leaf:
  "\<not> 2 * pos + 1 \<le> length xs - 2 \<Longrightarrow>
     sift_down le xs pos = (if 2 * pos + 2 = length xs then (swap xs pos (2 * pos + 1), 2 * pos + 1) else (xs, pos))"
  by (subst sift_down.simps) (simp add: Let_def)

lemma sift_down_facts:
  "pos < length xs \<Longrightarrow> sift_down le xs pos = (ys, p) \<Longrightarrow>
     mset ys = mset xs \<and> p < length xs \<and> length ys = length xs"
proof (induction "length xs - pos" arbitrary: xs pos rule: less_induct)
  case less
  show ?case
  proof (cases "2 * pos + 1 \<le> length xs - 2")
    case True
    note st = sift_down_step [OF True HOL.refl, of le]
    let ?c = "if le (xs ! (2 * pos + 1)) (xs ! (2 * pos + 2)) then 2 * pos + 2 else 2 * pos + 1"
    have "sift_down le (swap xs pos ?c) ?c = (ys, p)" using less.prems(2) st(1) by simp
    from less.hyps [OF _ _ this] st(2,3) less.prems(1)
    have "mset ys = mset (swap xs pos ?c) \<and> p < length xs \<and> length ys = length xs" by simp
    then
    show ?thesis using less.prems(1) st(3) by simp
  next
    case False
    then show ?thesis using less.prems by (auto simp: sift_down_leaf [OF False] split: if_splits)
  qed
qed

section \<open>The heap order\<close>

definition heap_inv :: "('a \<Rightarrow> 'a \<Rightarrow> bool) \<Rightarrow> 'a list \<Rightarrow> bool" where
  "heap_inv le xs \<longleftrightarrow> (\<forall>i < length xs. 0 < i \<longrightarrow> le (xs ! i) (xs ! parent_of i))"

text \<open>Heap order except between \<open>pos\<close> and its parent, resp. around \<open>pos\<close>.\<close>

definition up_inv :: "('a \<Rightarrow> 'a \<Rightarrow> bool) \<Rightarrow> 'a list \<Rightarrow> nat \<Rightarrow> bool" where
  "up_inv le xs pos \<longleftrightarrow>
     (\<forall>i < length xs. 0 < i \<longrightarrow> i \<noteq> pos \<longrightarrow> le (xs ! i) (xs ! parent_of i)) \<and>
     (\<forall>i < length xs. 0 < i \<longrightarrow> parent_of i = pos \<longrightarrow> 0 < pos \<longrightarrow> le (xs ! i) (xs ! parent_of pos))"

definition down_inv :: "('a \<Rightarrow> 'a \<Rightarrow> bool) \<Rightarrow> 'a list \<Rightarrow> nat \<Rightarrow> bool" where
  "down_inv le xs pos \<longleftrightarrow>
     (\<forall>i < length xs. 0 < i \<longrightarrow> i \<noteq> pos \<longrightarrow> parent_of i \<noteq> pos \<longrightarrow> le (xs ! i) (xs ! parent_of i)) \<and>
     (\<forall>i < length xs. 0 < i \<longrightarrow> parent_of i = pos \<longrightarrow> 0 < pos \<longrightarrow> le (xs ! i) (xs ! parent_of pos))"

locale total_preorder =
  fixes le :: "'a \<Rightarrow> 'a \<Rightarrow> bool"
  assumes total: "le x y \<or> le y x"
    and trans: "le x y \<Longrightarrow> le y z \<Longrightarrow> le x z"
begin

lemma refl: "le x x"
  using total [of x x] by simp

lemma up_inv_step:
  assumes inv: "up_inv le xs pos" and pos: "0 < pos" "pos < length xs"
    and gt: "\<not> le (xs ! pos) (xs ! parent_of pos)"
  shows "up_inv le (swap xs pos (parent_of pos)) (parent_of pos)"
proof -
  let ?p = "parent_of pos" and ?ys = "swap xs pos (parent_of pos)"
  have p: "?p < length xs" "?p < pos" using pos parent_of_less [OF pos(1)] by auto
  have gt': "le (xs ! ?p) (xs ! pos)" using gt total by blast
  have nth: "k < length xs \<Longrightarrow> ?ys ! k = (if k = pos then xs ! ?p else if k = ?p then xs ! pos else xs ! k)" for k
    using swap_nth [OF pos(2) p(1)] by simp
  have ord: "le (xs ! i) (xs ! parent_of i)" if "i < length xs" "0 < i" "i \<noteq> pos" for i
    using inv that by (simp add: up_inv_def)
  have gp: "le (xs ! i) (xs ! ?p)" if "i < length xs" "0 < i" "parent_of i = pos" for i
    using inv that pos by (simp add: up_inv_def)
  note lt = parent_of_less
  have "le (?ys ! i) (?ys ! parent_of i)" if i: "i < length xs" "0 < i" "i \<noteq> ?p" for i
  proof (cases "i = pos")
    case True
    have "?ys ! pos = xs ! ?p" "?ys ! ?p = xs ! pos"
      using nth [OF pos(2)] nth [OF p(1)] p(2) by simp_all
    then show ?thesis using gt' True by simp
  next
    case False
    have pi: "parent_of i < length xs" using lt [OF i(2)] i(1) by simp
    consider "parent_of i = pos" | "parent_of i = ?p" "parent_of i \<noteq> pos"
      | "parent_of i \<noteq> pos" "parent_of i \<noteq> ?p" by blast
    then show ?thesis
    proof cases
      case 1
      then show ?thesis using gp [OF i(1,2)] False i pos by (simp add: nth)
    next
      case 2
      then have "le (xs ! i) (xs ! ?p)" using ord [OF i(1,2) False] by simp
      then show ?thesis using 2 False i gt' trans p by (simp add: nth)
    next
      case 3
      then show ?thesis using ord [OF i(1,2) False] False i pi by (simp add: nth)
    qed
  qed
  moreover have "le (?ys ! i) (?ys ! parent_of ?p)"
    if i: "i < length xs" "0 < i" "parent_of i = ?p" "0 < ?p" for i
  proof -
    have pp: "parent_of ?p < ?p" using lt [OF i(4)] .
    have top: "le (xs ! ?p) (xs ! parent_of ?p)" using ord [OF p(1) i(4)] p(2) by simp
    have "i \<noteq> ?p" using i(3,4) lt [OF i(4)] by auto
    then have "le (?ys ! i) (xs ! ?p)"
      using ord [OF i(1,2)] i refl by (cases "i = pos") (simp_all add: nth)
    then show ?thesis using trans top pp p by (simp add: nth)
  qed
  ultimately show ?thesis by (simp add: up_inv_def)
qed

lemma sift_up_heap: "up_inv le xs pos \<Longrightarrow> pos < length xs \<Longrightarrow> heap_inv le (sift_up le xs pos)"
proof (induction pos arbitrary: xs rule: less_induct)
  case (less pos)
  show ?case
  proof (cases "pos = 0 \<or> le (xs ! pos) (xs ! parent_of pos)")
    case True
    with less.prems(1) have "heap_inv le xs" by (auto simp: up_inv_def heap_inv_def)
    with True show ?thesis by (simp add: sift_up_unfold [of le xs pos])
  next
    case False
    with less.prems have "up_inv le (swap xs pos (parent_of pos)) (parent_of pos)"
      by (intro up_inv_step) auto
    moreover have "parent_of pos < pos" using False parent_of_less by simp
    ultimately show ?thesis
      using False less.prems less.IH [of "parent_of pos"] by (simp add: sift_up_unfold [of le xs pos])
  qed
qed

lemma down_inv_step:
  assumes inv: "down_inv le xs pos" and c: "pos < c" "c < length xs" "parent_of c = pos"
    and max: "\<And>i. i < length xs \<Longrightarrow> 0 < i \<Longrightarrow> parent_of i = pos \<Longrightarrow> le (xs ! i) (xs ! c)"
  shows "down_inv le (swap xs pos c) c"
proof -
  let ?ys = "swap xs pos c"
  have pos: "pos < length xs" using c by simp
  have nth: "k < length xs \<Longrightarrow> ?ys ! k = (if k = pos then xs ! c else if k = c then xs ! pos else xs ! k)" for k
    using swap_nth [OF pos c(2)] .
  have ord: "le (xs ! i) (xs ! parent_of i)" if "i < length xs" "0 < i" "i \<noteq> pos" "parent_of i \<noteq> pos" for i
    using inv that by (simp add: down_inv_def)
  have gp: "le (xs ! i) (xs ! parent_of pos)" if "i < length xs" "0 < i" "parent_of i = pos" "0 < pos" for i
    using inv that by (simp add: down_inv_def)
  note lt = parent_of_less
  have "le (?ys ! i) (?ys ! parent_of i)"
    if i: "i < length xs" "0 < i" "i \<noteq> c" "parent_of i \<noteq> c" for i
  proof -
    have pi: "parent_of i < length xs" using lt [OF i(2)] i(1) by simp
    consider "i = pos" | "i \<noteq> pos" "parent_of i = pos" | "i \<noteq> pos" "parent_of i \<noteq> pos" by blast
    then show ?thesis
    proof cases
      case 1
      have ne: "parent_of pos \<noteq> pos" using lt [of pos] i(2) 1 by simp
      have "?ys ! i = xs ! c" using nth [OF i(1)] 1 by simp
      moreover have "?ys ! parent_of i = xs ! parent_of pos"
        using nth [OF pi] 1 ne i(4) by simp
      ultimately show ?thesis using gp [OF c(2) _ c(3)] c(1) i(2) 1 by simp
    next
      case 2
      have "?ys ! i = xs ! i" using nth [OF i(1)] 2 i(3) by simp
      moreover have "?ys ! parent_of i = xs ! c" using nth [OF pi] 2 by simp
      ultimately show ?thesis using max [OF i(1,2) 2(2)] by simp
    next
      case 3
      then show ?thesis using ord [OF i(1,2) 3] nth [OF i(1)] nth [OF pi] i(3,4) 3 by simp
    qed
  qed
  moreover have "le (?ys ! i) (?ys ! parent_of c)"
    if i: "i < length xs" "0 < i" "parent_of i = c" "0 < c" for i
  proof -
    have "c < i" using lt [OF i(2)] i(3) by simp
    then have "?ys ! i = xs ! i" using nth [OF i(1)] c(1) by simp
    moreover have "?ys ! parent_of c = xs ! c" using nth [OF pos] c(3) by simp
    moreover have "le (xs ! i) (xs ! c)" using ord [OF i(1,2)] i(3) c(1) \<open>c < i\<close> by simp
    ultimately show ?thesis by simp
  qed
  ultimately show ?thesis by (simp add: down_inv_def)
qed

lemma down_inv_leaf:
  assumes "down_inv le xs pos" "length xs \<le> 2 * pos + 1"
  shows "up_inv le xs pos"
proof -
  have "parent_of i \<noteq> pos" if "i < length xs" "0 < i" for i
    using parent_of_cases [OF that(2)] that(1) assms(2) by auto
  with assms(1) show ?thesis by (simp add: down_inv_def up_inv_def)
qed

lemma sift_down_up_inv:
  "pos < length xs \<Longrightarrow> down_inv le xs pos \<Longrightarrow> sift_down le xs pos = (ys, p) \<Longrightarrow> up_inv le ys p"
proof (induction "length xs - pos" arbitrary: xs pos rule: less_induct)
  case less
  show ?case
  proof (cases "2 * pos + 1 \<le> length xs - 2")
    case True
    let ?c = "if le (xs ! (2 * pos + 1)) (xs ! (2 * pos + 2)) then 2 * pos + 2 else 2 * pos + 1"
    note st = sift_down_step [OF True HOL.refl, of le]
    have "le (xs ! i) (xs ! ?c)" if "0 < i" "parent_of i = pos" for i
      using parent_of_cases [OF that(1)] that(2) total [of "xs ! (2 * pos + 1)" "xs ! (2 * pos + 2)"] refl by auto
    then have inv: "down_inv le (swap xs pos ?c) ?c"
      by (intro down_inv_step [OF less.prems(2) st(2-4)])
    have eq: "sift_down le (swap xs pos ?c) ?c = (ys, p)" using less.prems(3) st(1) by simp
    show ?thesis
      using less.hyps [OF _ _ inv eq] st(2,3) less.prems(1) by simp
  next
    case False
    show ?thesis
    proof (cases "2 * pos + 2 = length xs")
      case True
      let ?c = "2 * pos + 1"
      have inv: "down_inv le (swap xs pos ?c) ?c"
      proof (rule down_inv_step [OF less.prems(2)])
        show "le (xs ! i) (xs ! ?c)" if "i < length xs" "0 < i" "parent_of i = pos" for i
          using parent_of_cases [OF that(2)] that(1,3) True refl by auto
      qed (use True parent_of_children(1) [of pos] in auto)
      have "ys = swap xs pos ?c" "p = ?c" using less.prems(3) sift_down_leaf [OF False, of le] True by auto
      then show ?thesis using down_inv_leaf [OF inv] True by simp
    next
      case nf: False
      then have "ys = xs" "p = pos" using less.prems(3) sift_down_leaf [OF False, of le] by auto
      then show ?thesis using down_inv_leaf [OF less.prems(2)] False nf less.prems(1) by simp
    qed
  qed
qed

lemma heap_root:
  assumes "heap_inv le xs" "i < length xs"
  shows "le (xs ! i) (xs ! 0)"
  using assms(2)
proof (induction i rule: less_induct)
  case (less i)
  show ?case
  proof (cases "i = 0")
    case False
    then have "parent_of i < i" "le (xs ! i) (xs ! parent_of i)"
      using assms(1) less.prems by (simp_all add: parent_of_less heap_inv_def)
    then show ?thesis using less.IH [of "parent_of i"] less.prems trans by (meson less_trans)
  qed (simp add: refl)
qed

lemma heap_inv_Nil [simp]: "heap_inv le []"
  by (simp add: heap_inv_def)

lemma bh_push_heap: "heap_inv le xs \<Longrightarrow> heap_inv le (bh_push le x xs)"
  unfolding bh_push_def
proof (rule sift_up_heap)
  assume inv: "heap_inv le xs"
  have "parent_of i < length xs" if "i \<le> length xs" "0 < i" for i
    using parent_of_less [OF that(2)] that(1) by simp
  then show "up_inv le (xs @ [x]) (length xs)"
    using inv by (fastforce simp: up_inv_def heap_inv_def nth_append dest: parent_of_less)
qed simp

lemma bh_pop_heap:
  assumes inv: "heap_inv le xs" and pop: "bh_pop le xs = Some (x, ys)"
  shows "heap_inv le ys" "mset xs = add_mset x (mset ys)" "\<forall>y \<in> set xs. le y x"
proof -
  have ne: "xs \<noteq> []" using pop by (auto simp: bh_pop_def)
  have max: "le y (hd xs)" if "y \<in> set xs" for y
    using heap_root [OF inv] that ne by (metis hd_conv_nth in_set_conv_nth)
  have "heap_inv le ys \<and> mset xs = add_mset x (mset ys) \<and> x = hd xs"
  proof (cases "butlast xs = []")
    case True
    then have "xs = [last xs]" using ne by (metis append_butlast_last_id append_Nil)
    then show ?thesis using pop ne True by (cases xs) (auto simp: bh_pop_def split: if_splits)
  next
    case False
    let ?ds = "(butlast xs)[0 := last xs]"
    obtain zs p where sd: "sift_down le ?ds 0 = (zs, p)" by force
    have len: "0 < length ?ds" using False by (metis length_greater_0_conv length_list_update)
    note f = sift_down_facts [OF len sd]
    have "down_inv le ?ds 0"
      unfolding down_inv_def
    proof (intro conjI allI impI)
      show "le (?ds ! i) (?ds ! parent_of i)"
        if "i < length ?ds" "0 < i" "i \<noteq> 0" "parent_of i \<noteq> 0" for i
        using inv that parent_of_less [OF that(2)] by (simp add: heap_inv_def nth_butlast)
    qed simp
    then have up: "up_inv le zs p" by (rule sift_down_up_inv [OF len _ sd])
    have res: "x = hd xs" "ys = sift_up le zs p"
      using pop ne False sd by (cases xs; auto simp: bh_pop_def Let_def split: if_splits)+
    have "mset xs = mset (butlast xs) + {#last xs#}"
      using ne by (metis append_butlast_last_id mset_append mset_single_iff_right)
    moreover have "mset (butlast xs) = add_mset (hd xs) (mset (tl (butlast xs)))"
      using False ne by (cases xs) (auto split: if_splits)
    moreover have "mset ?ds = add_mset (last xs) (mset (tl (butlast xs)))"
      using False by (cases "butlast xs") auto
    ultimately show ?thesis
      using res f up sift_up_heap [OF up] sift_up_mset [of p zs le] by simp
  qed
  then show "heap_inv le ys" "mset xs = add_mset x (mset ys)" "\<forall>y \<in> set xs. le y x"
    using max by auto
qed

end

section \<open>The contract of a priority queue\<close>

locale priority_queue =
  fixes le :: "'a \<Rightarrow> 'a \<Rightarrow> bool"
    and push :: "'a \<Rightarrow> 'q \<Rightarrow> 'q"
    and pop :: "'q \<Rightarrow> ('a \<times> 'q) option"
    and elems :: "'q \<Rightarrow> 'a multiset"
    and pq_inv :: "'q \<Rightarrow> bool"
  assumes push_inv: "pq_inv q \<Longrightarrow> pq_inv (push x q)"
    and push_elems: "elems (push x q) = add_mset x (elems q)"
    and pop_None: "pop q = None \<longleftrightarrow> elems q = {#}"
    and pop_inv: "pq_inv q \<Longrightarrow> pop q = Some (x, q') \<Longrightarrow> pq_inv q'"
    and pop_elems: "pq_inv q \<Longrightarrow> pop q = Some (x, q') \<Longrightarrow> elems q = add_mset x (elems q')"
    and pop_max: "pq_inv q \<Longrightarrow> pop q = Some (x, q') \<Longrightarrow> y \<in># elems q \<Longrightarrow> le y x"
begin

lemma pop_size: "pq_inv q \<Longrightarrow> pop q = Some (x, q') \<Longrightarrow> size (elems q) = Suc (size (elems q'))"
  by (simp add: pop_elems)

lemma pop_ex: "pq_inv q \<Longrightarrow> elems q \<noteq> {#} \<Longrightarrow> \<exists>x q'. pop q = Some (x, q')"
  using pop_None [of q] by (cases "pop q") auto

lemma pop_push_max:
  assumes "pq_inv q" "pop (push x q) = Some (y, q')"
  shows "le x y" "y = x \<or> y \<in># elems q" "\<And>z. z \<in># elems q \<Longrightarrow> le z y"
  using assms push_inv [of q x] pop_max [of "push x q" y q'] pop_elems [of "push x q" y q']
  by (auto simp: push_elems) (metis add_mset_remove_trivial_eq insert_noteq_member union_single_eq_member)

lemma push_all: "pq_inv q \<Longrightarrow> pq_inv (fold push xs q) \<and> elems (fold push xs q) = mset xs + elems q"
  by (induction xs arbitrary: q) (auto simp: push_inv push_elems)

end

lemma bh_push_mset [simp]: "mset (bh_push le x xs) = add_mset x (mset xs)"
  by (simp add: bh_push_def sift_up_mset)

lemma bh_pop_None [simp]: "bh_pop le xs = None \<longleftrightarrow> xs = []"
  by (auto simp: bh_pop_def Let_def split: prod.splits)

sublocale total_preorder \<subseteq> heap: priority_queue le "bh_push le" "bh_pop le" mset "heap_inv le"
proof unfold_locales
  show "le y x" if "heap_inv le q" "bh_pop le q = Some (x, q')" "y \<in># mset q" for q x q' y
    using bh_pop_heap(3) [OF that(1,2)] that(3) by simp
qed (auto dest: bh_pop_heap bh_push_heap)

text \<open>The orders of the model are all given by a key into a linear order.\<close>

lemma total_preorder_key: "total_preorder (\<lambda>x y. (f x :: 'k::linorder) \<le> f y)"
  by unfold_locales auto

lemma total_preorder_rev_key: "total_preorder (\<lambda>x y. (f y :: 'k::linorder) \<le> f x)"
  by unfold_locales auto

end
