(* ===== verification/Item_Pointer.thy ===== *)
theory Item_Pointer
  imports Prelude
begin

text \<open>
  \<open>util/mod.rs\<close>: the item pointer (block number, offset number) that names a node of the index or
  a tuple of the heap, its order, its validity, and the distance between two pointers that breaks
  ties between equal vector distances. Block and offset numbers keep PostgreSQL's widths.
\<close>

type_synonym block_number = "32 word"
type_synonym offset_number = "16 word"

datatype item_pointer = ItemPointer (block_number: block_number) (offset: offset_number)

type_synonym index_pointer = item_pointer
type_synonym heap_pointer = item_pointer

text \<open>PostgreSQL's constants for 8 kB blocks.\<close>

definition InvalidBlockNumber :: block_number where "InvalidBlockNumber = 0xFFFFFFFF"
definition InvalidOffsetNumber :: offset_number where "InvalidOffsetNumber = 0"
definition FirstOffsetNumber :: offset_number where "FirstOffsetNumber = 1"
definition MaxOffsetNumber :: nat where "MaxOffsetNumber = 2048"

definition item_pointer_cmp :: "item_pointer \<Rightarrow> item_pointer \<Rightarrow> ordering" where
  "item_pointer_cmp a b =
     then_with (cmp_of (block_number a) (block_number b)) (cmp_of (offset a) (offset b))"

definition new_invalid :: item_pointer where
  "new_invalid = ItemPointer InvalidBlockNumber InvalidOffsetNumber"

definition is_valid :: "item_pointer \<Rightarrow> bool" where
  "is_valid p = (block_number p \<noteq> InvalidBlockNumber \<and> offset p \<noteq> InvalidOffsetNumber)"

definition ip_distance :: "item_pointer \<Rightarrow> item_pointer \<Rightarrow> nat" where
  "ip_distance a b =
     (let block_diff = uint (block_number a) - uint (block_number b);
          offset_diff = uint (offset a) - uint (offset b)
      in nat \<bar>block_diff * int MaxOffsetNumber + offset_diff\<bar>)"

instantiation item_pointer :: linorder
begin

definition less_eq_item_pointer :: "item_pointer \<Rightarrow> item_pointer \<Rightarrow> bool" where
  "a \<le> b \<longleftrightarrow> item_pointer_cmp a b \<noteq> Greater"

definition less_item_pointer :: "item_pointer \<Rightarrow> item_pointer \<Rightarrow> bool" where
  "a < b \<longleftrightarrow> item_pointer_cmp a b = Less"

instance
proof
  fix a b c :: item_pointer
  show "a < b \<longleftrightarrow> a \<le> b \<and> \<not> b \<le> a"
    by (cases a; cases b) (auto simp: less_eq_item_pointer_def less_item_pointer_def item_pointer_cmp_def)
  show "a \<le> a"
    by (simp add: less_eq_item_pointer_def item_pointer_cmp_def)
  show "a \<le> b \<Longrightarrow> b \<le> c \<Longrightarrow> a \<le> c"
    by (cases a; cases b; cases c) (auto simp: less_eq_item_pointer_def item_pointer_cmp_def not_less)
  show "a \<le> b \<Longrightarrow> b \<le> a \<Longrightarrow> a = b"
    by (cases a; cases b) (auto simp: less_eq_item_pointer_def item_pointer_cmp_def)
  show "a \<le> b \<or> b \<le> a"
    by (cases a; cases b) (auto simp: less_eq_item_pointer_def item_pointer_cmp_def)
qed

end

lemma new_invalid_not_valid [simp]: "\<not> is_valid new_invalid"
  by (simp add: is_valid_def new_invalid_def)

lemma is_valid_block: "is_valid p \<Longrightarrow> block_number p \<noteq> InvalidBlockNumber"
  by (simp add: is_valid_def)

lemma ip_distance_self [simp]: "ip_distance a a = 0"
  by (simp add: ip_distance_def)

lemma ip_distance_commute: "ip_distance a b = ip_distance b a"
proof -
  have "\<bar>(i - j) * m + (k - l)\<bar> = \<bar>(j - i) * m + (l - k)\<bar>" for i j k l m :: int
  proof -
    have "(i - j) * m + (k - l) = - ((j - i) * m + (l - k))" by (simp add: algebra_simps)
    then show ?thesis by (metis abs_minus_cancel)
  qed
  then show ?thesis by (simp add: ip_distance_def Let_def)
qed

text \<open>
  On real pointers (offsets below \<open>MaxOffsetNumber\<close>) the distance separates: it is 0 only between
  a pointer and itself.
\<close>

lemma ip_distance_eq_0:
  assumes "uint (offset a) < 2048" "uint (offset b) < 2048"
  shows "ip_distance a b = 0 \<longleftrightarrow> a = b"
proof
  let ?o = "uint (offset a) - uint (offset b)"
  let ?d = "uint (block_number a) - uint (block_number b)"
  assume "ip_distance a b = 0"
  then have z: "?d * 2048 + ?o = 0" by (simp add: ip_distance_def MaxOffsetNumber_def Let_def)
  moreover have r: "\<bar>?o\<bar> < 2048"
    using assms uint_ge_0 [of "offset a"] uint_ge_0 [of "offset b"] by linarith
  moreover have "i = 0" if "i * 2048 + j = 0" "\<bar>j\<bar> < 2048" for i j :: int
    using that by linarith
  ultimately have d: "?d = 0" by blast
  from z have "?o = 0" unfolding d by simp
  with d show "a = b" by (cases a; cases b) (simp add: word_uint_eq_iff)
qed simp

end
