(* ===== verification/Page_Store.thy ===== *)
theory Page_Store
  imports Item_Pointer "HOL-Library.Sublist"
begin

text \<open>
  \<open>util/page.rs\<close>, \<open>util/buffer.rs\<close>, the page functions of \<open>util/ports.rs\<close> and \<open>util/tape.rs\<close>: the
  pages of the index relation and the tape that appends items to them.

  A relation is the list of its pages. A page is either new (allocated and still zero, which an
  aborted WAL record leaves behind) or initialised: its special area and its items. The type of
  items is a parameter, with their size in bytes as an argument of the operations. An exclusively
  locked page is a private copy: \<open>commit\<close> publishes it, dropping it publishes nothing.

  PostgreSQL's \<open>PageGetFreeSpace\<close> and \<open>PageAddItemExtended\<close> are the record \<open>pg_page_ops\<close>, whose
  documented laws are the locale \<open>pg_page\<close>; \<open>pg_page_8k\<close> is the layout of an 8 kB page.
\<close>

section \<open>Page types\<close>

definition BLCKSZ :: nat where "BLCKSZ = 8192"

definition TSV_PAGE_ID :: "16 word" where "TSV_PAGE_ID = 0xAE24"

datatype page_type =
  MetaV1 | Node | PqQuantizerDef | PqQuantizerVector | SbqMeansV1 | SbqNode | MetaV2 | SbqMeans | Meta

fun page_type_as_u8 :: "page_type \<Rightarrow> nat" where
  "page_type_as_u8 MetaV1 = 0"
| "page_type_as_u8 Node = 1"
| "page_type_as_u8 PqQuantizerDef = 2"
| "page_type_as_u8 PqQuantizerVector = 3"
| "page_type_as_u8 SbqMeansV1 = 4"
| "page_type_as_u8 SbqNode = 5"
| "page_type_as_u8 MetaV2 = 6"
| "page_type_as_u8 SbqMeans = 7"
| "page_type_as_u8 Meta = 8"

definition page_type_from_u8 :: "nat \<Rightarrow> page_type res" where
  "page_type_from_u8 value =
     (if value = 0 then Inr MetaV1 else if value = 1 then Inr Node
      else if value = 2 then Inr PqQuantizerDef else if value = 3 then Inr PqQuantizerVector
      else if value = 4 then Inr SbqMeansV1 else if value = 5 then Inr SbqNode
      else if value = 6 then Inr MetaV2 else if value = 7 then Inr SbqMeans
      else if value = 8 then Inr Meta else Inl (Panic ''Unknown PageType number''))"

definition is_chained :: "page_type \<Rightarrow> bool" where
  "is_chained t = (t = SbqMeans \<or> t = Meta)"

record tsv_opaque =
  page_type :: nat
  page_id :: "16 word"

definition tsv_opaque_new :: "page_type \<Rightarrow> tsv_opaque" where
  "tsv_opaque_new t = \<lparr>page_type = page_type_as_u8 t, page_id = TSV_PAGE_ID\<rparr>"

definition tsv_opaque_verify :: "tsv_opaque \<Rightarrow> page_type res" where
  "tsv_opaque_verify q =
     rbind (rassert (page_id q = TSV_PAGE_ID) ''page_id'') (\<lambda>_. page_type_from_u8 (page_type q))"

lemma page_type_from_as [simp]: "page_type_from_u8 (page_type_as_u8 t) = Inr t"
  by (cases t) (simp_all add: page_type_from_u8_def)

lemma page_type_as_u8_inject [simp]: "page_type_as_u8 s = page_type_as_u8 t \<longleftrightarrow> s = t"
  by (metis page_type_from_as sum.inject(2))

lemma tsv_opaque_verify_new [simp]: "tsv_opaque_verify (tsv_opaque_new t) = Inr t"
  by (simp add: tsv_opaque_verify_def tsv_opaque_new_def)

section \<open>Pages\<close>

datatype 'i page = NewPage | InitPage (opaque: tsv_opaque) (page_items: "'i list")

type_synonym 'i relation = "'i page list"

text \<open>
  The free space of a page that holds items of the given sizes, and whether an item of a size can
  be added to it.
\<close>

record pg_page_ops =
  pg_free_space :: "nat list \<Rightarrow> nat"
  pg_add_ok :: "nat list \<Rightarrow> nat \<Rightarrow> bool"

definition maxalign :: "nat \<Rightarrow> nat" where
  "maxalign n = (n + 7) div 8 * 8"

definition pg_page_8k :: pg_page_ops where
  "pg_page_8k =
     \<lparr>pg_free_space = (\<lambda>szs. BLCKSZ - 24 - 8 - (\<Sum>n\<leftarrow>szs. 4 + maxalign n) - 4),
      pg_add_ok = (\<lambda>szs n. (\<Sum>m\<leftarrow>szs. 4 + maxalign m) + 4 + maxalign n \<le> BLCKSZ - 24 - 8)\<rparr>"

text \<open>
  An item fits exactly when its size, aligned, is at most the free space; an empty page has room
  for nearly a block, and adding an item never makes room.
\<close>

locale pg_page =
  fixes ops :: pg_page_ops
  assumes add_ok: "0 < n \<Longrightarrow> pg_add_ok ops szs n \<longleftrightarrow> maxalign n \<le> pg_free_space ops szs"
    and add_count: "pg_add_ok ops szs n \<Longrightarrow> length szs < MaxOffsetNumber"
    and free_empty: "64 \<le> pg_free_space ops []"
    and free_block: "pg_free_space ops szs < BLCKSZ"
    and free_mono: "pg_free_space ops (szs @ [n]) \<le> pg_free_space ops szs"
begin

lemma aligned_fits:
  assumes "0 < n" "n \<le> pg_free_space ops szs - pg_free_space ops szs mod 8"
  shows "pg_add_ok ops szs n"
proof -
  have "maxalign n \<le> f" if le: "n \<le> f - f mod 8" for f
  proof -
    have "n + 7 < (f div 8 + 1) * 8" using le by (simp add: minus_mod_eq_div_mult)
    then have "(n + 7) div 8 \<le> f div 8" using less_mult_imp_div_less by fastforce
    then have "maxalign n \<le> f div 8 * 8" unfolding maxalign_def by (rule mult_le_mono1)
    then show ?thesis using div_times_less_eq_dividend order_trans by blast
  qed
  then show ?thesis using add_ok [OF assms(1)] assms(2) by blast
qed

end

lemma maxalign_pos: "0 < n \<Longrightarrow> 0 < maxalign n"
  unfolding maxalign_def by linarith

interpretation pg8k: pg_page pg_page_8k
proof
  show "pg_add_ok pg_page_8k szs n \<longleftrightarrow> maxalign n \<le> pg_free_space pg_page_8k szs"
    if "0 < n" for szs and n :: nat
    using maxalign_pos [OF that] by (simp add: pg_page_8k_def BLCKSZ_def) linarith
  have "4 * length szs \<le> (\<Sum>m\<leftarrow>szs. 4 + maxalign m)" for szs
    by (induction szs) auto
  then show "length szs < MaxOffsetNumber" if "pg_add_ok pg_page_8k szs n" for szs n
    using that order_trans [of "4 * length szs"]
    by (fastforce simp: pg_page_8k_def BLCKSZ_def MaxOffsetNumber_def)
qed (simp_all add: pg_page_8k_def BLCKSZ_def)

section \<open>Exclusively locked pages\<close>

record 'i writable_page =
  wp_block :: block_number
  wp_page :: "'i page"

definition blocks_left :: "'i relation \<Rightarrow> bool" where
  "blocks_left rel = (length rel < 2 ^ 32 - 1)"

definition reinit :: "page_type \<Rightarrow> 'i writable_page \<Rightarrow> 'i writable_page" where
  "reinit t wp = wp\<lparr>wp_page := InitPage (tsv_opaque_new t) []\<rparr>"

text \<open>
  \<open>WritablePage::new\<close> extends the relation by a new page, and initialises its own copy. PostgreSQL
  refuses to extend a relation beyond its last block number.
\<close>

definition writable_new :: "'i relation \<Rightarrow> page_type \<Rightarrow> ('i writable_page \<times> 'i relation) res" where
  "writable_new rel t =
     (if blocks_left rel then
        Inr (reinit t \<lparr>wp_block = of_nat (length rel), wp_page = NewPage\<rparr>, rel @ [NewPage])
      else Inl (PgError ''cannot extend relation''))"

text \<open>A new page fails the bounds check of \<open>PageValidateSpecialPointer\<close> (its header is zero).\<close>

definition read_from_page :: "'i page \<Rightarrow> page_type res" where
  "read_from_page p =
     (case p of NewPage \<Rightarrow> Inl (Panic ''PageValidateSpecialPointer'') | InitPage q _ \<Rightarrow> tsv_opaque_verify q)"

definition read_buffer :: "'i relation \<Rightarrow> block_number \<Rightarrow> 'i page res" where
  "read_buffer rel b =
     (if unat b < length rel then Inr (rel ! unat b) else Inl (PgError ''could not read block''))"

definition writable_modify :: "'i relation \<Rightarrow> block_number \<Rightarrow> 'i writable_page res" where
  "writable_modify rel b =
     rbind (read_buffer rel b) (\<lambda>p.
     rbind (read_from_page p) (\<lambda>_.
     Inr \<lparr>wp_block = b, wp_page = p\<rparr>))"

definition items_of :: "'i page \<Rightarrow> 'i list" where
  "items_of p = (case p of NewPage \<Rightarrow> [] | InitPage _ is \<Rightarrow> is)"

definition get_free_space :: "pg_page_ops \<Rightarrow> ('i \<Rightarrow> nat) \<Rightarrow> 'i writable_page \<Rightarrow> nat" where
  "get_free_space ops sz wp = pg_free_space ops (map sz (items_of (wp_page wp)))"

definition get_aligned_free_space :: "pg_page_ops \<Rightarrow> ('i \<Rightarrow> nat) \<Rightarrow> 'i writable_page \<Rightarrow> nat" where
  "get_aligned_free_space ops sz wp = (let free_space = get_free_space ops sz wp in free_space - free_space mod 8)"

definition push_item :: "'i \<Rightarrow> 'i page \<Rightarrow> 'i page" where
  "push_item x p = (case p of NewPage \<Rightarrow> NewPage | InitPage q is \<Rightarrow> InitPage q (is @ [x]))"

definition add_item_unchecked ::
  "pg_page_ops \<Rightarrow> ('i \<Rightarrow> nat) \<Rightarrow> 'i \<Rightarrow> 'i writable_page \<Rightarrow> (offset_number \<times> 'i writable_page) res" where
  "add_item_unchecked ops sz data wp =
     rbind (rassert (sz data < BLCKSZ) ''size < BLCKSZ'') (\<lambda>_.
     let szs = map sz (items_of (wp_page wp)) in
     rbind (rassert (pg_add_ok ops szs (sz data)) ''offset_number'') (\<lambda>_.
     Inr (of_nat (length szs + 1), wp\<lparr>wp_page := push_item data (wp_page wp)\<rparr>)))"

definition add_item ::
  "pg_page_ops \<Rightarrow> ('i \<Rightarrow> nat) \<Rightarrow> 'i \<Rightarrow> 'i writable_page \<Rightarrow> (offset_number \<times> 'i writable_page) res" where
  "add_item ops sz data wp =
     rbind (rassert (sz data \<le> get_free_space ops sz wp) ''get_free_space() >= size'') (\<lambda>_.
     add_item_unchecked ops sz data wp)"

definition commit :: "'i relation \<Rightarrow> 'i writable_page \<Rightarrow> 'i relation" where
  "commit rel wp = rel[unat (wp_block wp) := wp_page wp]"

section \<open>Readable pages\<close>

definition is_new :: "'i page \<Rightarrow> bool" where
  "is_new p = (case p of NewPage \<Rightarrow> True | InitPage _ _ \<Rightarrow> False)"

definition readable_type :: "'i page \<Rightarrow> page_type res" where
  "readable_type = read_from_page"

text \<open>
  The item at an offset. The code does not check the offset; an offset without an item is
  undefined behaviour there and an error here, which the theorems exclude.
\<close>

definition get_item_unchecked :: "'i page \<Rightarrow> offset_number \<Rightarrow> 'i res" where
  "get_item_unchecked p off =
     (if 1 \<le> unat off \<and> unat off \<le> length (items_of p) then Inr (items_of p ! (unat off - 1))
      else Inl (Panic ''undefined: no such item''))"

definition item_at :: "'i relation \<Rightarrow> item_pointer \<Rightarrow> 'i option" where
  "item_at rel p =
     (if unat (block_number p) < length rel then
        (case get_item_unchecked (rel ! unat (block_number p)) (offset p) of Inl _ \<Rightarrow> None | Inr x \<Rightarrow> Some x)
      else None)"

section \<open>Growth of a relation\<close>

text \<open>Page by page, a relation grows by items at the end of pages and by pages at its end.\<close>

definition page_grows :: "'i page \<Rightarrow> 'i page \<Rightarrow> bool" where
  "page_grows p p' = (case p of
     NewPage \<Rightarrow> True
   | InitPage q is \<Rightarrow> (case p' of NewPage \<Rightarrow> False | InitPage q' is' \<Rightarrow> q' = q \<and> prefix is is'))"

definition rel_grows :: "'i relation \<Rightarrow> 'i relation \<Rightarrow> bool" where
  "rel_grows rel rel' \<longleftrightarrow>
     length rel \<le> length rel' \<and> (\<forall>b < length rel. page_grows (rel ! b) (rel' ! b))"

lemma page_grows_refl [simp]: "page_grows p p"
  by (simp add: page_grows_def split: page.splits)

lemma page_grows_trans: "page_grows p q \<Longrightarrow> page_grows q r \<Longrightarrow> page_grows p r"
  by (auto simp: page_grows_def split: page.splits intro: prefix_order.trans)

lemma page_grows_push [simp]: "page_grows p (push_item x p)"
  by (simp add: page_grows_def push_item_def split: page.splits)

lemma rel_grows_refl [simp]: "rel_grows rel rel"
  by (simp add: rel_grows_def)

lemma rel_grows_trans: "rel_grows r s \<Longrightarrow> rel_grows s t \<Longrightarrow> rel_grows r t"
  by (auto simp: rel_grows_def intro: page_grows_trans order_less_le_trans)

lemma rel_grows_append [simp]: "rel_grows rel (rel @ ps)"
  by (simp add: rel_grows_def nth_append)

lemma rel_grows_commit:
  assumes "unat (wp_block wp) < length rel" "page_grows (rel ! unat (wp_block wp)) (wp_page wp)"
  shows "rel_grows rel (commit rel wp)"
  using assms by (auto simp: rel_grows_def commit_def nth_list_update)

lemma items_of_grows: "page_grows p p' \<Longrightarrow> prefix (items_of p) (items_of p')"
  by (auto simp: page_grows_def items_of_def split: page.splits)

lemma item_at_grows:
  assumes "rel_grows rel rel'" "item_at rel p = Some x"
  shows "item_at rel' p = Some x"
proof -
  let ?b = "unat (block_number p)" and ?o = "unat (offset p)"
  have b: "?b < length rel" and o: "1 \<le> ?o" "?o \<le> length (items_of (rel ! ?b))"
    and x: "x = items_of (rel ! ?b) ! (?o - 1)"
    using assms(2) by (auto simp: item_at_def get_item_unchecked_def split: if_splits)
  have "page_grows (rel ! ?b) (rel' ! ?b)" "?b < length rel'"
    using assms(1) b by (auto simp: rel_grows_def)
  then obtain zs where "items_of (rel' ! ?b) = items_of (rel ! ?b) @ zs"
    using items_of_grows by (auto simp: prefix_def)
  then show ?thesis
    using o x \<open>?b < length rel'\<close> by (auto simp: item_at_def get_item_unchecked_def nth_append)
qed

text \<open>All initialised pages of an index carry a valid special area.\<close>

definition page_inv :: "'i page \<Rightarrow> bool" where
  "page_inv p = (case p of NewPage \<Rightarrow> True | InitPage q is \<Rightarrow> (\<exists>t. q = tsv_opaque_new t) \<and> length is \<le> MaxOffsetNumber)"

definition rel_inv :: "'i relation \<Rightarrow> bool" where
  "rel_inv rel \<longleftrightarrow> length rel < 2 ^ 32 \<and> (\<forall>p \<in> set rel. page_inv p)"

lemma rel_inv_nth: "rel_inv rel \<Longrightarrow> b < length rel \<Longrightarrow> page_inv (rel ! b)"
  by (simp add: rel_inv_def)

lemma writable_new_Inr:
  "writable_new rel t = Inr (wp, rel') \<longleftrightarrow>
     blocks_left rel \<and> rel' = rel @ [NewPage] \<and>
     wp = \<lparr>wp_block = of_nat (length rel), wp_page = InitPage (tsv_opaque_new t) []\<rparr>"
  by (auto simp: writable_new_def reinit_def)

lemma block_number_bound: "unat (b :: block_number) < 4294967296"
  using unsigned_less [of b] by simp

lemma unat_length_rel: "blocks_left rel \<Longrightarrow> unat (of_nat (length rel) :: block_number) = length rel"
  by (simp add: blocks_left_def unat_of_nat)

lemma writable_modify_Inr:
  "writable_modify rel b = Inr wp \<longleftrightarrow>
     unat b < length rel \<and> (\<exists>t. read_from_page (rel ! unat b) = Inr t) \<and>
     wp = \<lparr>wp_block = b, wp_page = rel ! unat b\<rparr>"
  by (auto simp: writable_modify_def read_buffer_def)

lemma add_item_unchecked_Inr:
  "add_item_unchecked ops sz x wp = Inr (off, wp') \<longleftrightarrow>
     sz x < BLCKSZ \<and> pg_add_ok ops (map sz (items_of (wp_page wp))) (sz x) \<and>
     off = of_nat (length (items_of (wp_page wp)) + 1) \<and> wp' = wp\<lparr>wp_page := push_item x (wp_page wp)\<rparr>"
  by (auto simp: add_item_unchecked_def Let_def)

lemma read_from_page_ne_new: "read_from_page p = Inr t \<Longrightarrow> p \<noteq> NewPage"
  by (auto simp: read_from_page_def)

lemma items_of_push: "p \<noteq> NewPage \<Longrightarrow> items_of (push_item x p) = items_of p @ [x]"
  by (cases p) (simp_all add: items_of_def push_item_def)

lemma item_at_committed:
  assumes "b < length rel" "b < 2 ^ 32" "n < MaxOffsetNumber" "items_of p = is @ [x]" "length is = n"
  shows "item_at (rel[b := p]) (ItemPointer (of_nat b) (of_nat (n + 1))) = Some x"
proof -
  have "unat (of_nat b :: block_number) = b"
    using assms(2) by (simp add: unat_of_nat)
  moreover have "unat (of_nat (n + 1) :: offset_number) = n + 1"
    using assms(3) by (simp add: unat_of_nat MaxOffsetNumber_def del: of_nat_add of_nat_Suc)
  ultimately show ?thesis
    using assms by (simp add: item_at_def get_item_unchecked_def nth_append)
qed

end
