(* ===== verification/Ieee_Float.thy ===== *)
theory Ieee_Float
  imports Prelude
begin

text \<open>
  The \<open>f32\<close> and \<open>f64\<close> of the language, as IEEE 754 bit patterns (\<open>32 word\<close>, \<open>64 word\<close>).

  The order of floats is the order of their magnitudes read as integers, so \<open>==\<close>, \<open><\<close>, \<open><=\<close> and
  \<open>total_cmp\<close> need no decoding. Arithmetic decodes to a significand and an exponent, computes
  exactly on integers, and rounds once, to nearest with ties to even. A NaN result is the quiet
  NaN with an empty payload (the language leaves sign and payload of such a NaN open; no
  definition of the development reads them).
\<close>

type_synonym f32 = "32 word"
type_synonym f64 = "64 word"

section \<open>Formats\<close>

text \<open>\<open>prec\<close> is the number of significand bits, the hidden one included.\<close>

record fmt =
  prec :: nat
  ebits :: nat

definition F32 :: fmt where "F32 = \<lparr>prec = 24, ebits = 8\<rparr>"
definition F64 :: fmt where "F64 = \<lparr>prec = 53, ebits = 11\<rparr>"

lemma fmt_simps [simp]: "prec F32 = 24" "ebits F32 = 8" "prec F64 = 53" "ebits F64 = 11"
  by (simp_all add: F32_def F64_def)

definition emin :: "fmt \<Rightarrow> int" where
  "emin F = 2 - 2 ^ (ebits F - 1) - (int (prec F) - 1)"

definition sign_weight :: "fmt \<Rightarrow> int" where
  "sign_weight F = 2 ^ (prec F - 1 + ebits F)"

definition inf_mag :: "fmt \<Rightarrow> int" where
  "inf_mag F = (2 ^ ebits F - 1) * 2 ^ (prec F - 1)"

definition fl_sign :: "fmt \<Rightarrow> int \<Rightarrow> bool" where
  "fl_sign F x = (sign_weight F \<le> x)"

definition fl_mag :: "fmt \<Rightarrow> int \<Rightarrow> int" where
  "fl_mag F x = x mod sign_weight F"

definition fl_pack :: "fmt \<Rightarrow> bool \<Rightarrow> int \<Rightarrow> int" where
  "fl_pack F s m = (if s then sign_weight F + m else m)"

definition fl_is_nan :: "fmt \<Rightarrow> int \<Rightarrow> bool" where
  "fl_is_nan F x = (inf_mag F < fl_mag F x)"

definition fl_is_inf :: "fmt \<Rightarrow> int \<Rightarrow> bool" where
  "fl_is_inf F x = (fl_mag F x = inf_mag F)"

definition fl_nan :: "fmt \<Rightarrow> int" where
  "fl_nan F = inf_mag F + 2 ^ (prec F - 2)"

section \<open>Order\<close>

text \<open>\<open>fl_key\<close> identifies the two zeros, \<open>total_key\<close> (for \<open>total_cmp\<close>) separates them.\<close>

definition fl_key :: "fmt \<Rightarrow> int \<Rightarrow> int" where
  "fl_key F x = (if fl_sign F x then - fl_mag F x else fl_mag F x)"

definition fl_total_key :: "fmt \<Rightarrow> int \<Rightarrow> int" where
  "fl_total_key F x = (if fl_sign F x then - fl_mag F x - 1 else fl_mag F x)"

definition fl_eq :: "fmt \<Rightarrow> int \<Rightarrow> int \<Rightarrow> bool" where
  "fl_eq F x y = (\<not> fl_is_nan F x \<and> \<not> fl_is_nan F y \<and> fl_key F x = fl_key F y)"

definition fl_lt :: "fmt \<Rightarrow> int \<Rightarrow> int \<Rightarrow> bool" where
  "fl_lt F x y = (\<not> fl_is_nan F x \<and> \<not> fl_is_nan F y \<and> fl_key F x < fl_key F y)"

definition fl_le :: "fmt \<Rightarrow> int \<Rightarrow> int \<Rightarrow> bool" where
  "fl_le F x y = (\<not> fl_is_nan F x \<and> \<not> fl_is_nan F y \<and> fl_key F x \<le> fl_key F y)"

section \<open>Decoding and rounding\<close>

text \<open>The magnitude \<open>m\<close> stands for \<open>fst (fl_decode F m) * 2 powi snd (fl_decode F m)\<close>.\<close>

definition fl_decode :: "fmt \<Rightarrow> int \<Rightarrow> int \<times> int" where
  "fl_decode F m =
     (if m < 2 ^ (prec F - 1) then (m, emin F)
      else (m mod 2 ^ (prec F - 1) + 2 ^ (prec F - 1), emin F + m div 2 ^ (prec F - 1) - 1))"

text \<open>The number of bits of a non-negative integer.\<close>

function blen :: "int \<Rightarrow> int" where
  "blen x = (if x \<le> 0 then 0 else 1 + blen (x div 2))"
  by pat_completeness auto
termination
  by (relation "measure nat") auto

declare blen.simps [simp del]

text \<open>The fraction \<open>n / d * 2 powi (- e)\<close>, as a numerator and a denominator.\<close>

definition scale_ratio :: "int \<Rightarrow> int \<Rightarrow> int \<Rightarrow> int \<times> int" where
  "scale_ratio n d e = (if 0 \<le> e then (n, d * 2 ^ nat e) else (n * 2 ^ nat (- e), d))"

definition round_even :: "int \<Rightarrow> int \<Rightarrow> int" where
  "round_even n d =
     (let q = n div d; r = n mod d
      in if d < 2 * r \<or> (2 * r = d \<and> odd q) then q + 1 else q)"

text \<open>
  The magnitude nearest to \<open>n / d\<close> (\<open>0 \<le> n\<close>, \<open>0 < d\<close>). The exponent is chosen so that the quotient
  has \<open>prec F\<close> bits, or is subnormal; a carry of the rounding moves into the exponent field by
  itself, and what does not fit is infinity.
\<close>

definition fl_round :: "fmt \<Rightarrow> int \<Rightarrow> int \<Rightarrow> int" where
  "fl_round F n d =
     (if n = 0 then 0 else
        let e0 = max (emin F) (blen n - blen d - int (prec F));
            e = (case scale_ratio n d e0 of (a, b) \<Rightarrow>
                   if 2 ^ prec F \<le> a div b then e0 + 1 else e0);
            m = (case scale_ratio n d e of (a, b) \<Rightarrow> round_even a b)
        in min (inf_mag F) ((e - emin F) * 2 ^ (prec F - 1) + m))"

text \<open>\<open>s \<cdot> n \<cdot> 2 powi e\<close>, rounded.\<close>

definition fl_round_scaled :: "fmt \<Rightarrow> bool \<Rightarrow> int \<Rightarrow> int \<Rightarrow> int" where
  "fl_round_scaled F s n e =
     fl_pack F s (if 0 \<le> e then fl_round F (n * 2 ^ nat e) 1 else fl_round F n (2 ^ nat (- e)))"

section \<open>Arithmetic\<close>

definition fl_neg :: "fmt \<Rightarrow> int \<Rightarrow> int" where
  "fl_neg F x = fl_pack F (\<not> fl_sign F x) (fl_mag F x)"

definition fl_add :: "fmt \<Rightarrow> int \<Rightarrow> int \<Rightarrow> int" where
  "fl_add F x y =
     (if fl_is_nan F x \<or> fl_is_nan F y then fl_nan F
      else if fl_is_inf F x then
        (if fl_is_inf F y \<and> fl_sign F x \<noteq> fl_sign F y then fl_nan F else x)
      else if fl_is_inf F y then y
      else (case (fl_decode F (fl_mag F x), fl_decode F (fl_mag F y)) of ((a, i), (b, j)) \<Rightarrow>
        let e = min i j;
            v = (if fl_sign F x then - a else a) * 2 ^ nat (i - e)
              + (if fl_sign F y then - b else b) * 2 ^ nat (j - e)
        in if v = 0 then fl_pack F (fl_sign F x \<and> fl_sign F y) 0
           else fl_round_scaled F (v < 0) \<bar>v\<bar> e))"

definition fl_sub :: "fmt \<Rightarrow> int \<Rightarrow> int \<Rightarrow> int" where
  "fl_sub F x y = fl_add F x (if fl_is_nan F y then y else fl_neg F y)"

definition fl_mul :: "fmt \<Rightarrow> int \<Rightarrow> int \<Rightarrow> int" where
  "fl_mul F x y =
     (let s = (fl_sign F x \<noteq> fl_sign F y)
      in if fl_is_nan F x \<or> fl_is_nan F y then fl_nan F
         else if fl_is_inf F x \<or> fl_is_inf F y then
           (if fl_mag F x = 0 \<or> fl_mag F y = 0 then fl_nan F else fl_pack F s (inf_mag F))
         else (case (fl_decode F (fl_mag F x), fl_decode F (fl_mag F y)) of ((a, i), (b, j)) \<Rightarrow>
           fl_round_scaled F s (a * b) (i + j)))"

definition fl_div :: "fmt \<Rightarrow> int \<Rightarrow> int \<Rightarrow> int" where
  "fl_div F x y =
     (let s = (fl_sign F x \<noteq> fl_sign F y)
      in if fl_is_nan F x \<or> fl_is_nan F y then fl_nan F
         else if fl_is_inf F x then
           (if fl_is_inf F y then fl_nan F else fl_pack F s (inf_mag F))
         else if fl_is_inf F y then fl_pack F s 0
         else if fl_mag F y = 0 then
           (if fl_mag F x = 0 then fl_nan F else fl_pack F s (inf_mag F))
         else (case (fl_decode F (fl_mag F x), fl_decode F (fl_mag F y)) of ((a, i), (b, j)) \<Rightarrow>
           fl_pack F s (if 0 \<le> i - j then fl_round F (a * 2 ^ nat (i - j)) b
                        else fl_round F a (b * 2 ^ nat (j - i)))))"

text \<open>The integer square root, two bits at a time, and the square root rounded through a sticky bit.\<close>

function isqrt :: "int \<Rightarrow> int" where
  "isqrt n = (if n \<le> 0 then 0
     else let r = 2 * isqrt (n div 4) in if (r + 1) * (r + 1) \<le> n then r + 1 else r)"
  by pat_completeness auto
termination
  by (relation "measure nat") auto

declare isqrt.simps [simp del]

definition fl_sqrt :: "fmt \<Rightarrow> int \<Rightarrow> int" where
  "fl_sqrt F x =
     (if fl_is_nan F x then fl_nan F
      else if fl_mag F x = 0 then x
      else if fl_sign F x then fl_nan F
      else if fl_is_inf F x then x
      else (case fl_decode F (fl_mag F x) of (a, i) \<Rightarrow>
        let h = (i - 2 * int (prec F) - 4) div 2;
            n = a * 2 ^ nat (i - 2 * h);
            s = isqrt n
        in fl_round_scaled F False (2 * s + (if s * s = n then 0 else 1)) (h - 1)))"

definition fl_max :: "fmt \<Rightarrow> int \<Rightarrow> int \<Rightarrow> int" where
  "fl_max F x y =
     (if fl_is_nan F x then y else if fl_is_nan F y then x
      else if fl_key F x < fl_key F y then y else x)"

text \<open>\<open>floor\<close> and \<open>ceil\<close>: \<open>up\<close> says in which case the truncated magnitude is incremented.\<close>

definition fl_integral :: "fmt \<Rightarrow> (bool \<Rightarrow> bool) \<Rightarrow> int \<Rightarrow> int" where
  "fl_integral F up x =
     (if fl_is_nan F x then fl_nan F else if fl_is_inf F x then x
      else (case fl_decode F (fl_mag F x) of (a, i) \<Rightarrow>
        if 0 \<le> i then x
        else let d = 2 ^ nat (- i); q = a div d
             in fl_pack F (fl_sign F x)
                  (fl_round F (if up (fl_sign F x) \<and> a mod d \<noteq> 0 then q + 1 else q) 1)))"

definition fl_floor :: "fmt \<Rightarrow> int \<Rightarrow> int" where
  "fl_floor F = fl_integral F (\<lambda>s. s)"

definition fl_ceil :: "fmt \<Rightarrow> int \<Rightarrow> int" where
  "fl_ceil F = fl_integral F Not"

text \<open>\<open>x as usize\<close>: truncation that saturates at both ends, NaN becoming 0.\<close>

definition fl_to_usize :: "fmt \<Rightarrow> int \<Rightarrow> nat" where
  "fl_to_usize F x =
     (if fl_is_nan F x \<or> fl_sign F x then 0
      else if fl_is_inf F x then 2 ^ 64 - 1
      else (case fl_decode F (fl_mag F x) of (a, i) \<Rightarrow>
        nat (min (2 ^ 64 - 1) (if 0 \<le> i then a * 2 ^ nat i else a div 2 ^ nat (- i)))))"

text \<open>\<open>n as f32\<close> and \<open>n as f64\<close> for an unsigned integer, and the widening \<open>x as f64\<close>.\<close>

definition fl_of_nat :: "fmt \<Rightarrow> nat \<Rightarrow> int" where
  "fl_of_nat F n = fl_round F (int n) 1"

definition fl_convert :: "fmt \<Rightarrow> fmt \<Rightarrow> int \<Rightarrow> int" where
  "fl_convert F G x =
     (if fl_is_nan F x then fl_nan G
      else if fl_is_inf F x then fl_pack G (fl_sign F x) (inf_mag G)
      else (case fl_decode F (fl_mag F x) of (a, i) \<Rightarrow> fl_round_scaled G (fl_sign F x) a i))"

section \<open>The operations of f32 and f64\<close>

definition f32_is_nan :: "f32 \<Rightarrow> bool" where "f32_is_nan x = fl_is_nan F32 (uint x)"
definition f32_eq :: "f32 \<Rightarrow> f32 \<Rightarrow> bool" where "f32_eq x y = fl_eq F32 (uint x) (uint y)"
definition f32_lt :: "f32 \<Rightarrow> f32 \<Rightarrow> bool" where "f32_lt x y = fl_lt F32 (uint x) (uint y)"
definition f32_le :: "f32 \<Rightarrow> f32 \<Rightarrow> bool" where "f32_le x y = fl_le F32 (uint x) (uint y)"
definition f32_key :: "f32 \<Rightarrow> int" where "f32_key x = fl_key F32 (uint x)"
definition f32_total_key :: "f32 \<Rightarrow> int" where "f32_total_key x = fl_total_key F32 (uint x)"
definition f32_add :: "f32 \<Rightarrow> f32 \<Rightarrow> f32" where
  "f32_add x y = word_of_int (fl_add F32 (uint x) (uint y))"
definition f32_sub :: "f32 \<Rightarrow> f32 \<Rightarrow> f32" where
  "f32_sub x y = word_of_int (fl_sub F32 (uint x) (uint y))"
definition f32_mul :: "f32 \<Rightarrow> f32 \<Rightarrow> f32" where
  "f32_mul x y = word_of_int (fl_mul F32 (uint x) (uint y))"
definition f32_div :: "f32 \<Rightarrow> f32 \<Rightarrow> f32" where
  "f32_div x y = word_of_int (fl_div F32 (uint x) (uint y))"
definition f32_neg :: "f32 \<Rightarrow> f32" where "f32_neg x = word_of_int (fl_neg F32 (uint x))"
definition f32_sqrt :: "f32 \<Rightarrow> f32" where "f32_sqrt x = word_of_int (fl_sqrt F32 (uint x))"
definition f32_max :: "f32 \<Rightarrow> f32 \<Rightarrow> f32" where
  "f32_max x y = word_of_int (fl_max F32 (uint x) (uint y))"
definition f32_floor :: "f32 \<Rightarrow> f32" where "f32_floor x = word_of_int (fl_floor F32 (uint x))"
definition f32_to_usize :: "f32 \<Rightarrow> nat" where "f32_to_usize x = fl_to_usize F32 (uint x)"
definition f32_of_nat :: "nat \<Rightarrow> f32" where "f32_of_nat n = word_of_int (fl_of_nat F32 n)"

definition f64_is_nan :: "f64 \<Rightarrow> bool" where "f64_is_nan x = fl_is_nan F64 (uint x)"
definition f64_lt :: "f64 \<Rightarrow> f64 \<Rightarrow> bool" where "f64_lt x y = fl_lt F64 (uint x) (uint y)"
definition f64_le :: "f64 \<Rightarrow> f64 \<Rightarrow> bool" where "f64_le x y = fl_le F64 (uint x) (uint y)"
definition f64_mul :: "f64 \<Rightarrow> f64 \<Rightarrow> f64" where
  "f64_mul x y = word_of_int (fl_mul F64 (uint x) (uint y))"
definition f64_div :: "f64 \<Rightarrow> f64 \<Rightarrow> f64" where
  "f64_div x y = word_of_int (fl_div F64 (uint x) (uint y))"
definition f64_max :: "f64 \<Rightarrow> f64 \<Rightarrow> f64" where
  "f64_max x y = word_of_int (fl_max F64 (uint x) (uint y))"
definition f64_ceil :: "f64 \<Rightarrow> f64" where "f64_ceil x = word_of_int (fl_ceil F64 (uint x))"
definition f64_to_usize :: "f64 \<Rightarrow> nat" where "f64_to_usize x = fl_to_usize F64 (uint x)"
definition f64_of_nat :: "nat \<Rightarrow> f64" where "f64_of_nat n = word_of_int (fl_of_nat F64 n)"
definition f64_of_f32 :: "f32 \<Rightarrow> f64" where
  "f64_of_f32 x = word_of_int (fl_convert F32 F64 (uint x))"

text \<open>The constants of the source, as their bit patterns.\<close>

definition f32_zero :: f32 where "f32_zero = 0"
definition f32_one :: f32 where "f32_one = 0x3F800000"
definition f32_epsilon :: f32 where "f32_epsilon = 0x34000000"
definition f64_zero :: f64 where "f64_zero = 0"
definition f64_one :: f64 where "f64_one = 0x3FF0000000000000"
definition f64_max_value :: f64 where "f64_max_value = 0x7FEFFFFFFFFFFFFF"

section \<open>Facts\<close>

lemma blen_bounds:
  assumes "0 < x"
  shows "0 < blen x \<and> 2 ^ nat (blen x - 1) \<le> x \<and> x < 2 ^ nat (blen x)"
  using assms
proof (induction x rule: blen.induct)
  case (1 x)
  show ?case
  proof (cases "x = 1")
    case True
    then show ?thesis by (simp add: blen.simps [of 1] blen.simps [of 0])
  next
    case False
    with "1.prems" have "0 < x div 2" by simp
    with "1.IH" "1.prems" have IH: "0 < blen (x div 2)"
      "2 ^ nat (blen (x div 2) - 1) \<le> x div 2" "x div 2 < 2 ^ nat (blen (x div 2))"
      by auto
    have b: "blen x = 1 + blen (x div 2)" using "1.prems" by (simp add: blen.simps [of x])
    have p: "(2::int) ^ nat (blen (x div 2)) = 2 * 2 ^ nat (blen (x div 2) - 1)"
      using IH(1) by (simp add: power_Suc [symmetric] nat_diff_distrib' Suc_nat_eq_nat_zadd1
          flip: power_Suc)
    have q: "(2::int) ^ nat (1 + blen (x div 2)) = 2 * 2 ^ nat (blen (x div 2))"
      using IH(1) by (simp add: nat_add_distrib)
    have d: "2 * (x div 2) \<le> x" "x < 2 * (x div 2) + 2" by auto
    have "2 * 2 ^ nat (blen (x div 2) - 1) \<le> x" "x < 2 * 2 ^ nat (blen (x div 2))"
      using IH(2,3) d by linarith+
    then show ?thesis
      using IH(1) p q by (simp add: b)
  qed
qed

lemma blen_le:
  assumes "0 \<le> x" "x < 2 ^ k"
  shows "blen x \<le> int k"
proof (cases "x = 0")
  case True
  then show ?thesis by (simp add: blen.simps)
next
  case False
  with assms(1) have b: "0 < blen x" "2 ^ nat (blen x - 1) \<le> x" using blen_bounds [of x] by auto
  from b(2) assms(2) have "(2::int) ^ nat (blen x - 1) < 2 ^ k" by (rule le_less_trans)
  then have "nat (blen x - 1) < k" using power_less_imp_less_exp [of "2::int"] by simp
  with b(1) show ?thesis by linarith
qed

lemma blen_mono: "0 < x \<Longrightarrow> x \<le> y \<Longrightarrow> blen x \<le> blen y"
proof -
  assume a: "0 < x" "x \<le> y"
  then have "x < 2 ^ nat (blen y)" using blen_bounds [of y] by auto
  with a blen_le [of x "nat (blen y)"] blen_bounds [of y] show ?thesis by auto
qed

lemma blen_1 [simp]: "blen 1 = 1"
  by (simp add: blen.simps [of 1] blen.simps [of 0])

lemma emin_F32 [simp]: "emin F32 = - 149"
  by (simp add: emin_def)

lemma inf_mag_F32 [simp]: "inf_mag F32 = 2139095040"
  by (simp add: inf_mag_def)

lemma sign_weight_F32 [simp]: "sign_weight F32 = 2147483648"
  by (simp add: sign_weight_def)

lemma emin_F64 [simp]: "emin F64 = - 1074"
  by (simp add: emin_def)

text \<open>An integer of at most 24 bits is represented exactly: no rounding takes place.\<close>

lemma fl_round_small_int:
  assumes n: "0 < n" "n < 2 ^ 24"
  shows "fl_round F32 n 1 = (blen n + 125) * 2 ^ 23 + n * 2 ^ nat (24 - blen n)"
proof -
  let ?b = "blen n"
  have b: "0 < ?b" "2 ^ nat (?b - 1) \<le> n" "n < 2 ^ nat ?b" "?b \<le> 24"
    using blen_bounds [OF n(1)] blen_le [of n 24] n by auto
  have hi: "n * 2 ^ nat (24 - ?b) < 2 ^ 24"
  proof -
    have "n * 2 ^ nat (24 - ?b) < 2 ^ nat ?b * 2 ^ nat (24 - ?b)" using b(3) by simp
    also have "\<dots> = 2 ^ 24" using b(1,4) by (simp add: power_add [symmetric] nat_add_distrib [symmetric])
    finally show ?thesis .
  qed
  have lo: "2 ^ 24 \<le> n * 2 ^ nat (25 - ?b)"
  proof -
    have "(2::int) ^ 24 = 2 ^ nat (?b - 1) * 2 ^ nat (25 - ?b)"
      using b(1,4) by (simp add: power_add [symmetric] nat_add_distrib [symmetric])
    also have "\<dots> \<le> n * 2 ^ nat (25 - ?b)" using b(2) by simp
    finally show ?thesis .
  qed
  have e0: "max (- 149) (?b - 25) = ?b - 25"
    using b(1) by simp
  have s0: "scale_ratio n 1 (?b - 25) = (n * 2 ^ nat (25 - ?b), 1)"
    using b(4) by (simp add: scale_ratio_def)
  have s1: "scale_ratio n 1 (?b - 24) = (n * 2 ^ nat (24 - ?b), 1)"
    using b(4) by (simp add: scale_ratio_def)
  have small: "(?b + 125) * 2 ^ 23 + n * 2 ^ nat (24 - ?b) \<le> 2139095040"
    using b(4) hi by simp
  show ?thesis
    using n(1) lo small by (simp add: fl_round_def e0 s0 s1 round_even_def Let_def)
qed

lemma fl_round_small_int_mono:
  assumes "0 < n" "n < m" "m < 2 ^ 24"
  shows "fl_round F32 n 1 < fl_round F32 m 1"
proof (cases "blen n = blen m")
  case True
  with assms show ?thesis by (simp add: fl_round_small_int)
next
  case False
  with blen_mono [of n m] assms have lt: "blen n + 1 \<le> blen m" by simp
  have bn: "0 < blen n" "n < 2 ^ nat (blen n)" "blen m \<le> 24"
    using blen_bounds [of n] blen_le [of m 24] assms by auto
  have hi: "n * 2 ^ nat (24 - blen n) < 2 ^ 24"
  proof -
    have "n * 2 ^ nat (24 - blen n) < 2 ^ nat (blen n) * 2 ^ nat (24 - blen n)" using bn(2) by simp
    also have "\<dots> = 2 ^ 24" using bn lt by (simp add: power_add [symmetric] nat_add_distrib [symmetric])
    finally show ?thesis .
  qed
  have lo: "2 ^ 23 \<le> m * 2 ^ nat (24 - blen m)"
  proof -
    have "(2::int) ^ 23 = 2 ^ nat (blen m - 1) * 2 ^ nat (24 - blen m)"
      using bn lt by (simp add: power_add [symmetric] nat_add_distrib [symmetric])
    also have "\<dots> \<le> m * 2 ^ nat (24 - blen m)" using blen_bounds [of m] assms by simp
    finally show ?thesis .
  qed
  show ?thesis using assms hi lo lt by (simp add: fl_round_small_int)
qed

lemma fl_round_zero [simp]: "fl_round F 0 d = 0"
  by (simp add: fl_round_def)

lemma fl_round_small_int_range:
  assumes "0 < n" "n < 2 ^ 24"
  shows "0 < fl_round F32 n 1" "fl_round F32 n 1 < 2139095040"
proof -
  have b: "0 < blen n" "n < 2 ^ nat (blen n)" "blen n \<le> 24"
    using blen_bounds [of n] blen_le [of n 24] assms by auto
  have "n * 2 ^ nat (24 - blen n) < 2 ^ nat (blen n) * 2 ^ nat (24 - blen n)" using b(2) by simp
  also have "\<dots> = 2 ^ 24" using b by (simp add: power_add [symmetric] nat_add_distrib [symmetric])
  finally have hi: "n * 2 ^ nat (24 - blen n) < 2 ^ 24" .
  show "0 < fl_round F32 n 1" "fl_round F32 n 1 < 2139095040"
    using assms b hi by (simp_all add: fl_round_small_int add_pos_pos)
qed

lemma uint_f32_of_nat:
  assumes "n < 2 ^ 24"
  shows "uint (f32_of_nat n) = fl_round F32 (int n) 1" "0 \<le> fl_round F32 (int n) 1"
    "fl_round F32 (int n) 1 < 2139095040"
proof -
  have r: "0 \<le> fl_round F32 (int n) 1 \<and> fl_round F32 (int n) 1 < 2139095040"
    using fl_round_small_int_range [of "int n"] assms by (cases "n = 0") auto
  then show "0 \<le> fl_round F32 (int n) 1" "fl_round F32 (int n) 1 < 2139095040" by auto
  from r show "uint (f32_of_nat n) = fl_round F32 (int n) 1"
    by (simp add: f32_of_nat_def fl_of_nat_def uint_word_of_int)
qed

lemma f32_of_nat_key:
  assumes "n < 2 ^ 24"
  shows "f32_key (f32_of_nat n) = fl_round F32 (int n) 1"
    "f32_total_key (f32_of_nat n) = fl_round F32 (int n) 1"
    "\<not> f32_is_nan (f32_of_nat n)"
  using uint_f32_of_nat [OF assms]
  by (simp_all add: f32_key_def f32_total_key_def f32_is_nan_def fl_key_def fl_total_key_def
      fl_is_nan_def fl_sign_def fl_mag_def)

lemma f32_of_nat_less:
  assumes "n < 2 ^ 24" "m < 2 ^ 24"
  shows "f32_total_key (f32_of_nat n) < f32_total_key (f32_of_nat m) \<longleftrightarrow> n < m"
proof -
  have *: "fl_round F32 (int a) 1 < fl_round F32 (int b) 1" if "a < b" "b < 2 ^ 24" for a b
    using that fl_round_small_int_mono [of "int a" "int b"]
      fl_round_small_int_range [of "int b"] by (cases "a = 0") auto
  show ?thesis
    using * [of n m] * [of m n] assms by (simp add: f32_of_nat_key) (metis less_irrefl less_trans nat_neq_iff)
qed

lemma f32_eq_iff: "f32_eq x y \<longleftrightarrow> \<not> f32_is_nan x \<and> \<not> f32_is_nan y \<and> f32_key x = f32_key y"
  by (simp add: f32_eq_def fl_eq_def f32_is_nan_def f32_key_def)

lemma f32_lt_iff: "f32_lt x y \<longleftrightarrow> \<not> f32_is_nan x \<and> \<not> f32_is_nan y \<and> f32_key x < f32_key y"
  by (simp add: f32_lt_def fl_lt_def f32_is_nan_def f32_key_def)

lemma f32_le_iff: "f32_le x y \<longleftrightarrow> \<not> f32_is_nan x \<and> \<not> f32_is_nan y \<and> f32_key x \<le> f32_key y"
  by (simp add: f32_le_def fl_le_def f32_is_nan_def f32_key_def)

text \<open>Off the zeros the two orders agree, and \<open>total_key\<close> is injective.\<close>

lemma f32_total_key_nonzero:
  "f32_key x \<noteq> 0 \<Longrightarrow> f32_total_key x = (if f32_key x < 0 then f32_key x - 1 else f32_key x)"
  by (auto simp: f32_key_def f32_total_key_def fl_key_def fl_total_key_def fl_mag_def
      split: if_splits)

lemma f32_total_key_zero: "f32_key x = 0 \<Longrightarrow> f32_total_key x = 0 \<or> f32_total_key x = - 1"
  by (auto simp: f32_key_def f32_total_key_def fl_key_def fl_total_key_def split: if_splits)

lemma f32_total_key_inject: "f32_total_key x = f32_total_key y \<longleftrightarrow> x = y"
proof
  assume eq: "f32_total_key x = f32_total_key y"
  have lt: "0 \<le> uint x" "uint x < 2 ^ 32" "0 \<le> uint y" "uint y < 2 ^ 32"
    using uint_bounded [of x] uint_bounded [of y] by auto
  have mod: "u mod 2147483648 = (if 2147483648 \<le> u then u - 2147483648 else u)"
    if "0 \<le> u" "u < 2 ^ 32" for u :: int
    using that minus_mod_self2 [of u 2147483648]
      mod_pos_pos_trivial [of "u - 2147483648" 2147483648] by auto
  have "uint x = uint y"
    using eq lt mod [OF lt(1,2)] mod [OF lt(3,4)]
    by (simp add: f32_total_key_def fl_total_key_def fl_sign_def fl_mag_def split: if_splits)
      (use lt(1,3) in linarith)
  then show "x = y" by (simp add: word_uint_eq_iff)
qed simp

text \<open>The same order on doubles, whose comparisons are all against bounds.\<close>

definition f64_key :: "f64 \<Rightarrow> int" where "f64_key x = fl_key F64 (uint x)"

lemma f64_lt_iff: "f64_lt x y \<longleftrightarrow> \<not> f64_is_nan x \<and> \<not> f64_is_nan y \<and> f64_key x < f64_key y"
  by (simp add: f64_lt_def fl_lt_def f64_is_nan_def f64_key_def)

lemma f64_le_iff: "f64_le x y \<longleftrightarrow> \<not> f64_is_nan x \<and> \<not> f64_is_nan y \<and> f64_key x \<le> f64_key y"
  by (simp add: f64_le_def fl_le_def f64_is_nan_def f64_key_def)

lemma f64_le_lt_trans: "f64_le x y \<Longrightarrow> f64_lt y z \<Longrightarrow> f64_lt x z"
  by (auto simp: f64_le_iff f64_lt_iff)

lemma f64_lt_le_trans: "f64_lt x y \<Longrightarrow> f64_le y z \<Longrightarrow> f64_lt x z"
  by (auto simp: f64_le_iff f64_lt_iff)

lemma f64_lt_not_le: "f64_lt x y \<Longrightarrow> \<not> f64_le y x"
  by (auto simp: f64_le_iff f64_lt_iff)

lemma f64_le_not_lt: "f64_le x y \<Longrightarrow> \<not> f64_lt y x"
  by (auto simp: f64_le_iff f64_lt_iff)

text \<open>\<open>max\<close> is one of its arguments and not below either, unless that is NaN.\<close>

lemma f64_max_cases:
  "f64_max x y = (if f64_is_nan x then y else if f64_is_nan y then x
     else if f64_key x < f64_key y then y else x)"
  by (simp add: f64_max_def fl_max_def f64_is_nan_def f64_key_def)

lemma f64_max_upper:
  assumes "\<not> f64_is_nan x"
  shows "\<not> f64_is_nan (f64_max x y)" "\<not> f64_lt (f64_max x y) y" "\<not> f64_lt x z \<Longrightarrow> \<not> f64_lt (f64_max x y) z"
    and "f64_lt a x \<Longrightarrow> f64_lt a (f64_max x y)"
  using assms by (auto simp: f64_max_cases f64_lt_iff)

lemma f64_not_lt_trans:
  assumes "\<not> f64_lt a x" "\<not> f64_lt x y" "\<not> f64_is_nan x" "f64_le a b"
  shows "\<not> f64_lt b y"
  using assms by (auto simp: f64_le_iff f64_lt_iff)

lemma f64_zero_not_nan [simp]: "\<not> f64_is_nan f64_zero"
  by (simp add: f64_zero_def f64_is_nan_def fl_is_nan_def fl_mag_def inf_mag_def)

end
