(* ===== verification/Label_Sets.thy ===== *)
theory Label_Sets
  imports Item_Pointer
begin

text \<open>
  \<open>labels/mod.rs\<close>, the \<open>&&\<close> operator of \<open>access_method/mod.rs\<close> and \<open>graph/start_nodes.rs\<close>: label
  sets as sorted vectors without duplicates, the two merge-style tests on them, the construction
  of a label set from an SQL array, and the entry points of the graph, one per label.

  Labels are \<open>i16\<close> values that are compared and never computed with; they are integers here. The
  index loops of the tests become recursions on the remaining parts of the vectors.
\<close>

type_synonym label = int

datatype label_set = LabelSet (labels: "label list")

section \<open>Label sets\<close>

text \<open>\<open>sort_unstable\<close> followed by \<open>dedup\<close>, which removes repeated neighbours.\<close>

definition label_set_from_vec :: "label list \<Rightarrow> label_set" where
  "label_set_from_vec ls = LabelSet (remdups_adj (sort ls))"

definition label_set_default :: label_set where
  "label_set_default = LabelSet []"

definition label_set_is_empty :: "label_set \<Rightarrow> bool" where
  "label_set_is_empty s = (labels s = [])"

fun contains_intersection_loop :: "label list \<Rightarrow> label list \<Rightarrow> label list \<Rightarrow> bool" where
  "contains_intersection_loop (x # a) (y # b) c =
     (case cmp_of x y of
        Equal \<Rightarrow>
          (case dropWhile (\<lambda>z. z < x) c of
             [] \<Rightarrow> False
           | z # c' \<Rightarrow> if z > x then False else contains_intersection_loop a b (z # c'))
      | Less \<Rightarrow> contains_intersection_loop a (y # b) c
      | Greater \<Rightarrow> contains_intersection_loop (x # a) b c)"
| "contains_intersection_loop _ _ _ = True"

definition contains_intersection :: "label_set \<Rightarrow> label_set \<Rightarrow> label_set \<Rightarrow> bool" where
  "contains_intersection self a b = contains_intersection_loop (labels a) (labels b) (labels self)"

fun overlaps_loop :: "label list \<Rightarrow> label list \<Rightarrow> bool" where
  "overlaps_loop (x # a) (y # b) =
     (case cmp_of x y of
        Equal \<Rightarrow> True
      | Less \<Rightarrow> overlaps_loop a (y # b)
      | Greater \<Rightarrow> overlaps_loop (x # a) b)"
| "overlaps_loop _ _ = False"

definition overlaps :: "label_set \<Rightarrow> label_set \<Rightarrow> bool" where
  "overlaps self other = overlaps_loop (labels self) (labels other)"

text \<open>The invariant of the type: strictly increasing.\<close>

definition label_set_inv :: "label_set \<Rightarrow> bool" where
  "label_set_inv s = (sorted (labels s) \<and> distinct (labels s))"

lemma label_set_from_vec_labels: "set (labels (label_set_from_vec ls)) = set ls"
  by (simp add: label_set_from_vec_def)

lemma remdups_adj_sorted_distinct: "sorted xs \<Longrightarrow> sorted (remdups_adj xs) \<and> distinct (remdups_adj xs)"
  by (induction xs rule: remdups_adj.induct) auto

lemma label_set_from_vec_inv: "label_set_inv (label_set_from_vec ls)"
  by (simp add: label_set_inv_def label_set_from_vec_def remdups_adj_sorted_distinct)

lemma label_set_default_inv: "label_set_inv label_set_default"
  by (simp add: label_set_inv_def label_set_default_def)

lemma sorted_dropWhile_less:
  assumes "sorted (c :: label list)"
  shows "set (dropWhile (\<lambda>z. z < x) c) = {z \<in> set c. x \<le> z}"
proof -
  have "dropWhile (\<lambda>z. z < x) c = filter (\<lambda>z. \<not> z < x) c"
    using assms by (induction c) (auto intro!: filter_True [symmetric])
  then show ?thesis by auto
qed

lemma overlaps_loop_iff:
  "sorted a \<Longrightarrow> sorted b \<Longrightarrow> overlaps_loop a b \<longleftrightarrow> set a \<inter> set b \<noteq> {}"
proof (induction a b rule: overlaps_loop.induct)
  case (1 x a y b)
  then show ?case
    by (cases rule: linorder_cases [of x y]) (fastforce simp: cmp_of_def)+
qed auto

lemma contains_intersection_loop_iff:
  "sorted a \<Longrightarrow> sorted b \<Longrightarrow> distinct a \<Longrightarrow> distinct b \<Longrightarrow> sorted c \<Longrightarrow>
   contains_intersection_loop a b c \<longleftrightarrow> set a \<inter> set b \<subseteq> set c"
proof (induction a b c rule: contains_intersection_loop.induct)
  case (1 x a y b c)
  consider (lt) "x < y" | (eq) "x = y" | (gt) "y < x" by linarith
  then show ?case
  proof cases
    case lt
    then have "contains_intersection_loop a (y # b) c \<longleftrightarrow> set a \<inter> set (y # b) \<subseteq> set c"
      using 1 by (simp add: cmp_of_def)
    moreover have "x \<notin> set (y # b)" using lt "1.prems" by auto
    ultimately show ?thesis using lt by (auto simp: cmp_of_def)
  next
    case gt
    then have "contains_intersection_loop (x # a) b c \<longleftrightarrow> set (x # a) \<inter> set b \<subseteq> set c"
      using 1 by (simp add: cmp_of_def)
    moreover have "y \<notin> set (x # a)" using gt "1.prems" by auto
    ultimately show ?thesis using gt by (auto simp: cmp_of_def)
  next
    case eq
    have d: "set (dropWhile (\<lambda>z. z < x) c) = {z \<in> set c. x \<le> z}"
      using sorted_dropWhile_less "1.prems" by simp
    have sd: "sorted (dropWhile (\<lambda>z. z < x) c)"
      using "1.prems" by (simp add: sorted_dropWhile)
    show ?thesis
    proof (cases "dropWhile (\<lambda>z. z < x) c")
      case Nil
      then have "x \<notin> set c" using d by (metis (mono_tags) empty_iff list.set(1) mem_Collect_eq order_refl)
      moreover have "\<not> contains_intersection_loop (x # a) (y # b) c"
        using Nil eq by (simp add: cmp_of_def del: dropWhile_eq_Nil_conv)
      ultimately show ?thesis using eq by auto
    next
      case (Cons z c')
      show ?thesis
      proof (cases "x < z")
        case True
        then have "x \<notin> set c" using d sd Cons by fastforce
        then show ?thesis using True Cons eq by (auto simp: cmp_of_def)
      next
        case False
        then have z: "z = x" using d Cons by (metis (no_types, lifting) list.set_intros(1)
              mem_Collect_eq nless_le)
        have "contains_intersection_loop a b (z # c') \<longleftrightarrow> set a \<inter> set b \<subseteq> set (z # c')"
          using 1 eq Cons False sd by (simp add: cmp_of_def)
        moreover have "set a \<inter> set b \<subseteq> set (z # c') \<longleftrightarrow> set a \<inter> set b \<subseteq> set c"
          using d Cons "1.prems" by auto
        moreover have "x \<in> set c" using d Cons z by auto
        ultimately show ?thesis
          using Cons False eq "1.prems" by (auto simp: cmp_of_def)
      qed
    qed
  qed
qed auto

lemma overlaps_iff:
  "label_set_inv a \<Longrightarrow> label_set_inv b \<Longrightarrow>
     overlaps a b \<longleftrightarrow> set (labels a) \<inter> set (labels b) \<noteq> {}"
  by (simp add: overlaps_def label_set_inv_def overlaps_loop_iff)

lemma contains_intersection_iff:
  "label_set_inv self \<Longrightarrow> label_set_inv a \<Longrightarrow> label_set_inv b \<Longrightarrow>
     contains_intersection self a b \<longleftrightarrow> set (labels a) \<inter> set (labels b) \<subseteq> set (labels self)"
  by (simp add: contains_intersection_def label_set_inv_def contains_intersection_loop_iff)

section \<open>Label sets from SQL arrays\<close>

text \<open>
  A \<open>smallint[]\<close> value is a list of optional labels (\<open>None\<close> is an SQL NULL element). \<open>flatten\<close>
  drops the NULLs.
\<close>

definition flatten :: "'a option list \<Rightarrow> 'a list" where
  "flatten xs = List.map_filter (\<lambda>x. x) xs"

lemma set_flatten [simp]: "set (flatten xs) = {l. Some l \<in> set xs}"
  by (induction xs) (auto simp: flatten_def List.map_filter_def split: option.splits)

text \<open>
  The label part of \<open>LabeledVector::from_datums\<close>: \<open>None\<close> as second argument is a NULL column, and
  an empty array or one of NULLs only is the empty label set.
\<close>

definition labels_from_datum :: "bool \<Rightarrow> label option list option \<Rightarrow> label_set option" where
  "labels_from_datum has_labels datum =
     (if has_labels then
        (case datum of
           None \<Rightarrow> Some label_set_default
         | Some arr \<Rightarrow>
             if arr = [] \<or> list_all (\<lambda>x. x = None) arr then Some label_set_default
             else Some (label_set_from_vec (flatten arr)))
      else None)"

text \<open>The label part of \<open>LabeledVector::from_scan_key_data\<close>: one key, or none.\<close>

definition labels_from_scan_keys :: "label option list list \<Rightarrow> label_set option" where
  "labels_from_scan_keys keys =
     (case keys of [] \<Rightarrow> None | arr # _ \<Rightarrow> Some (label_set_from_vec (flatten arr)))"

lemma labels_from_datum_inv:
  "labels_from_datum h d = Some s \<Longrightarrow> label_set_inv s"
  by (auto simp: labels_from_datum_def label_set_default_inv label_set_from_vec_inv
      split: if_splits option.splits)

lemma labels_from_datum_set:
  "labels_from_datum True (Some arr) = Some s \<Longrightarrow> set (labels s) = {l. Some l \<in> set arr}"
  by (auto simp: labels_from_datum_def label_set_from_vec_labels label_set_default_def list_all_iff
      split: if_splits)

lemma labels_from_scan_keys_inv: "labels_from_scan_keys ks = Some s \<Longrightarrow> label_set_inv s"
  by (auto simp: labels_from_scan_keys_def label_set_from_vec_inv split: list.splits)

lemma labels_from_scan_keys_set:
  "labels_from_scan_keys (arr # ks) = Some s \<Longrightarrow> set (labels s) = {l. Some l \<in> set arr}"
  by (auto simp: labels_from_scan_keys_def label_set_from_vec_labels)

section \<open>The overlap operator\<close>

text \<open>\<open>smallint_array_overlap\<close>: quadratic search on small arrays, a hash set on larger ones.\<close>

fun left_set_of :: "label list \<Rightarrow> label list \<Rightarrow> label list" where
  "left_set_of acc [] = acc"
| "left_set_of acc (a # as) = left_set_of (if a \<in> set acc then acc else a # acc) as"

definition smallint_array_overlap :: "label option list \<Rightarrow> label option list \<Rightarrow> bool" where
  "smallint_array_overlap left right =
     (if left = [] \<or> right = [] then False
      else if length left \<le> 10 \<and> length right \<le> 10 then
        list_ex (\<lambda>a. list_ex (\<lambda>b. a \<noteq> None \<and> b \<noteq> None \<and> the a = the b) right) left
      else
        (let left_set = left_set_of [] (flatten left)
         in list_ex (\<lambda>b. b \<in> set left_set) (flatten right)))"

lemma set_left_set_of: "set (left_set_of acc as) = set acc \<union> set as"
  by (induction as arbitrary: acc) auto

lemma smallint_array_overlap_iff:
  "smallint_array_overlap left right \<longleftrightarrow> (\<exists>l. Some l \<in> set left \<and> Some l \<in> set right)"
proof (cases "left = [] \<or> right = []")
  case True
  then show ?thesis by (auto simp: smallint_array_overlap_def)
next
  case False
  show ?thesis
  proof (cases "length left \<le> 10 \<and> length right \<le> 10")
    case True
    have "(\<exists>a\<in>set left. \<exists>b\<in>set right. a \<noteq> None \<and> b \<noteq> None \<and> the a = the b)
        \<longleftrightarrow> (\<exists>l. Some l \<in> set left \<and> Some l \<in> set right)"
      by (metis option.collapse option.distinct(1))
    then show ?thesis using True False by (simp add: smallint_array_overlap_def list_ex_iff)
  next
    case False
    then show ?thesis using \<open>\<not> (left = [] \<or> right = [])\<close>
      by (auto simp: smallint_array_overlap_def list_ex_iff set_left_set_of Let_def)
  qed
qed

section \<open>Properties\<close>

text \<open>
  C36. The label filter the index applies agrees with the SQL operator \<open>&&\<close>: the label set stored
  for an array column and the one built from the scan key overlap, by the merge-style test of
  \<open>LabelSet::overlaps\<close>, exactly when \<open>smallint_array_overlap\<close> holds of the two arrays. NULL
  elements, repetitions and the order of the elements play no role on either side.
\<close>

theorem index_filter_is_overlap:
  assumes "labels_from_datum True (Some arr) = Some stored"
    and "labels_from_scan_keys (key # keys) = Some query"
  shows "overlaps stored query = smallint_array_overlap arr key"
proof -
  have "set (labels stored) = {l. Some l \<in> set arr}" "set (labels query) = {l. Some l \<in> set key}"
    using assms labels_from_datum_set labels_from_scan_keys_set by blast+
  then show ?thesis
    using overlaps_iff [OF labels_from_datum_inv [OF assms(1)] labels_from_scan_keys_inv [OF assms(2)]]
    by (auto simp: smallint_array_overlap_iff)
qed

theorem index_filter_is_overlap_witness:
  "overlaps (LabelSet [-2, 3, 7]) (LabelSet [4, 7]) = smallint_array_overlap [Some 7, None, Some 3, Some (-2), Some 7] [Some 7, Some 4]"
  by (rule index_filter_is_overlap [where keys = "[]"]) code_simp+

text \<open>
  C37. \<open>contains_intersection\<close>, by which pruning decides that a neighbour is reachable through
  another for every label, is the inclusion of the intersection of the two arguments in the set,
  for label sets as \<open>From<Vec<Label>>\<close> builds them (sorted, without repetitions).
\<close>

theorem contains_intersection_correct:
  "contains_intersection (label_set_from_vec c) (label_set_from_vec a) (label_set_from_vec b)
     = (set a \<inter> set b \<subseteq> set c)"
  by (simp add: contains_intersection_iff label_set_from_vec_inv label_set_from_vec_labels)

end
