(* ===== verification/Neighbor_Distance.thy ===== *)
theory Neighbor_Distance
  imports Ieee_Float Label_Sets "HOL-Library.Product_Lexorder"
begin

text \<open>
  \<open>graph/neighbor_with_distance.rs\<close>: a distance with its lazy tie break, the order it induces, the
  pruning factor, and a neighbour (pointer, distance, labels), which is equal to another by pointer
  and compared with it by distance.
\<close>

section \<open>Distances with a tie break\<close>

text \<open>
  The \<open>OnceCell\<close> of the tie break is an option: \<open>None\<close> until the first use computes it. Filling
  it does not change what \<open>get_distance_tie_break\<close> returns, so reads leave the record alone.
\<close>

record distance_with_tie_break =
  distance :: f32
  dfrom :: index_pointer
  dto :: index_pointer
  tie_cell :: "nat option"

definition dwt_new :: "f32 \<Rightarrow> index_pointer \<Rightarrow> index_pointer \<Rightarrow> distance_with_tie_break res" where
  "dwt_new d f t =
     rbind (rassert (\<not> f32_is_nan d) ''!distance.is_nan()'') (\<lambda>_.
     rbind (rassert (f32_le f32_zero d) ''distance >= 0.0'') (\<lambda>_.
     Inr \<lparr>distance = d, dfrom = f, dto = t, tie_cell = None\<rparr>))"

definition dwt_with_query :: "f32 \<Rightarrow> index_pointer \<Rightarrow> distance_with_tie_break" where
  "dwt_with_query d t = \<lparr>distance = d, dfrom = t, dto = t, tie_cell = Some 0\<rparr>"

definition get_distance_tie_break :: "distance_with_tie_break \<Rightarrow> nat" where
  "get_distance_tie_break x =
     (case tie_cell x of Some n \<Rightarrow> n | None \<Rightarrow> ip_distance (dfrom x) (dto x))"

definition get_factor :: "distance_with_tie_break \<Rightarrow> distance_with_tie_break \<Rightarrow> f64" where
  "get_factor self divisor =
     (if f32_lt (distance divisor) f32_epsilon then
        (if f32_lt (distance self) f32_epsilon then
           f64_div (f64_of_nat (get_distance_tie_break self))
             (f64_of_nat (get_distance_tie_break divisor))
         else f64_max_value)
      else f64_div (f64_of_f32 (distance self)) (f64_of_f32 (distance divisor)))"

definition dwt_cmp :: "distance_with_tie_break \<Rightarrow> distance_with_tie_break \<Rightarrow> ordering" where
  "dwt_cmp a b =
     (if f32_eq (distance a) f32_zero \<and> f32_eq (distance b) f32_zero then
        cmp_of (get_distance_tie_break a) (get_distance_tie_break b)
      else cmp_of (f32_total_key (distance a)) (f32_total_key (distance b)))"

definition dwt_eq :: "distance_with_tie_break \<Rightarrow> distance_with_tie_break \<Rightarrow> bool" where
  "dwt_eq a b =
     (if f32_eq (distance a) f32_zero \<and> f32_eq (distance b) f32_zero then
        get_distance_tie_break a = get_distance_tie_break b
      else f32_eq (distance a) (distance b))"

section \<open>Neighbours\<close>

record neighbor_with_distance =
  n_index_pointer :: item_pointer
  n_distance :: distance_with_tie_break
  n_labels :: "label_set option"

definition nwd_new ::
  "item_pointer \<Rightarrow> distance_with_tie_break \<Rightarrow> label_set option \<Rightarrow> neighbor_with_distance" where
  "nwd_new p d ls = \<lparr>n_index_pointer = p, n_distance = d, n_labels = ls\<rparr>"

definition nwd_cmp :: "neighbor_with_distance \<Rightarrow> neighbor_with_distance \<Rightarrow> ordering" where
  "nwd_cmp a b = dwt_cmp (n_distance a) (n_distance b)"

definition nwd_eq :: "neighbor_with_distance \<Rightarrow> neighbor_with_distance \<Rightarrow> bool" where
  "nwd_eq a b = (n_index_pointer a = n_index_pointer b)"

section \<open>The order as a key\<close>

text \<open>
  The comparison is that of a key in a linear order: all zeros together, ordered by their tie
  break, and every other float at its place in the total order. This is what makes sorting and
  the heap of the search well defined.
\<close>

definition dwt_key :: "distance_with_tie_break \<Rightarrow> int \<times> nat" where
  "dwt_key x =
     (if f32_eq (distance x) f32_zero then (0, get_distance_tie_break x)
      else (f32_total_key (distance x), 0))"

definition nwd_key :: "neighbor_with_distance \<Rightarrow> int \<times> nat" where
  "nwd_key n = dwt_key (n_distance n)"

lemma f32_zero_facts [simp]: "\<not> f32_is_nan f32_zero" "f32_key f32_zero = 0" "f32_total_key f32_zero = 0"
  by (simp_all add: f32_zero_def f32_is_nan_def fl_is_nan_def fl_mag_def f32_key_def fl_key_def
      f32_total_key_def fl_total_key_def fl_sign_def)

lemma f32_eq_zero: "f32_eq x f32_zero \<longleftrightarrow> f32_key x = 0"
proof
  assume "f32_key x = 0"
  moreover from this have "\<not> f32_is_nan x"
    by (auto simp: f32_key_def f32_is_nan_def fl_key_def fl_is_nan_def split: if_splits)
  ultimately show "f32_eq x f32_zero" by (simp add: f32_eq_iff)
qed (simp add: f32_eq_iff)

lemma f32_total_key_off_zero:
  "f32_key x \<noteq> 0 \<Longrightarrow> f32_key x < 0 \<and> f32_total_key x \<le> - 2 \<or> 0 < f32_key x \<and> 0 < f32_total_key x"
  by (simp add: f32_total_key_nonzero)

lemma cmp_of_cong:
  "(x < y \<longleftrightarrow> x' < y') \<Longrightarrow> (x = y \<longleftrightarrow> x' = y') \<Longrightarrow> cmp_of x y = cmp_of x' y'"
  by (simp add: cmp_of_def)

lemma dwt_cmp_key: "dwt_cmp a b = cmp_of (dwt_key a) (dwt_key b)"
proof -
  note z = f32_total_key_zero f32_total_key_off_zero
  show ?thesis
  proof (cases "f32_key (distance a) = 0"; cases "f32_key (distance b) = 0")
    assume "f32_key (distance a) = 0" "f32_key (distance b) \<noteq> 0"
    with z [of "distance a"] z [of "distance b"] show ?thesis
      unfolding dwt_cmp_def dwt_key_def by (auto simp: f32_eq_zero intro!: cmp_of_cong)
  next
    assume "f32_key (distance a) \<noteq> 0" "f32_key (distance b) = 0"
    with z [of "distance a"] z [of "distance b"] show ?thesis
      unfolding dwt_cmp_def dwt_key_def by (auto simp: f32_eq_zero intro!: cmp_of_cong)
  qed (auto simp: dwt_cmp_def dwt_key_def f32_eq_zero intro!: cmp_of_cong)
qed

lemma nwd_cmp_key: "nwd_cmp a b = cmp_of (nwd_key a) (nwd_key b)"
  by (simp add: nwd_cmp_def nwd_key_def dwt_cmp_key)

lemma f32_key_total_key_eq:
  "f32_key x \<noteq> 0 \<or> f32_key y \<noteq> 0 \<Longrightarrow> f32_key x = f32_key y \<longleftrightarrow> f32_total_key x = f32_total_key y"
  using f32_total_key_zero [of x] f32_total_key_zero [of y]
    f32_total_key_nonzero [of x] f32_total_key_nonzero [of y]
    f32_total_key_off_zero [of x] f32_total_key_off_zero [of y]
  by (cases "f32_key x = 0"; cases "f32_key y = 0") (auto split: if_splits)

text \<open>On floats that are not NaN the equality is the equality of the order.\<close>

lemma dwt_eq_cmp:
  assumes "\<not> f32_is_nan (distance a)" "\<not> f32_is_nan (distance b)"
  shows "dwt_eq a b \<longleftrightarrow> dwt_cmp a b = Equal"
  using assms f32_key_total_key_eq [of "distance a" "distance b"]
  by (auto simp: dwt_eq_def dwt_cmp_def f32_eq_zero f32_eq_iff)

lemma dwt_with_query_tie [simp]: "get_distance_tie_break (dwt_with_query d t) = 0"
  by (simp add: get_distance_tie_break_def dwt_with_query_def)

lemma dwt_with_query_distance [simp]: "distance (dwt_with_query d t) = d"
  by (simp add: dwt_with_query_def)

lemma dwt_new_Inr:
  "dwt_new d f t = Inr x \<longleftrightarrow>
     \<not> f32_is_nan d \<and> 0 \<le> f32_key d \<and> x = \<lparr>distance = d, dfrom = f, dto = t, tie_cell = None\<rparr>"
  by (auto simp: dwt_new_def f32_le_iff)

lemma nwd_new_simps [simp]:
  "n_index_pointer (nwd_new p d ls) = p" "n_distance (nwd_new p d ls) = d" "n_labels (nwd_new p d ls) = ls"
  by (simp_all add: nwd_new_def)

text \<open>Sorting neighbours (\<open>candidates.sort()\<close>, a stable sort by that comparison).\<close>

definition sort_neighbors :: "neighbor_with_distance list \<Rightarrow> neighbor_with_distance list" where
  "sort_neighbors = sort_key nwd_key"

lemma sort_neighbors_mset [simp]: "mset (sort_neighbors ns) = mset ns"
  by (simp add: sort_neighbors_def)

lemma sort_neighbors_set [simp]: "set (sort_neighbors ns) = set ns"
  by (simp add: sort_neighbors_def)

lemma sort_neighbors_length [simp]: "length (sort_neighbors ns) = length ns"
  by (simp add: sort_neighbors_def)

lemma sort_neighbors_sorted:
  "sorted_wrt (\<lambda>a b. nwd_cmp a b \<noteq> Greater) (sort_neighbors ns)"
proof -
  have "sorted (map nwd_key (sort_key nwd_key ns))" by simp
  then show ?thesis
    by (simp add: sort_neighbors_def nwd_cmp_key sorted_map not_less)
qed

lemma sort_neighbors_distinct:
  "distinct (map n_index_pointer (sort_neighbors ns)) = distinct (map n_index_pointer ns)"
proof -
  have "mset (map n_index_pointer (sort_neighbors ns)) = mset (map n_index_pointer ns)" by simp
  then show ?thesis by (metis mset_eq_imp_distinct_iff)
qed

section \<open>Properties\<close>

text \<open>
  C40. The comparison by which candidates are sorted is a total preorder: reflexive, antisymmetric
  as an \<open>Ordering\<close> and transitive, on NaN, infinite and negative distances too. On the distances
  \<open>DistanceWithTieBreak::new\<close> admits, the separately written \<open>PartialEq\<close> is the equality of that
  comparison.
\<close>

theorem neighbor_order:
  assumes "nwd_cmp m n \<noteq> Greater" "nwd_cmp n p \<noteq> Greater"
    and "dwt_new da fa ta = Inr a" "dwt_new db fb tb = Inr b"
  shows "nwd_cmp n n = Equal \<and> (nwd_cmp p q = Greater) = (nwd_cmp q p = Less) \<and> nwd_cmp m p \<noteq> Greater
     \<and> dwt_eq a b = (dwt_cmp a b = Equal)"
proof -
  have "dwt_eq a b \<longleftrightarrow> dwt_cmp a b = Equal"
    using assms(3,4) by (intro dwt_eq_cmp) (auto simp: dwt_new_Inr)
  then show ?thesis using assms(1,2) by (simp add: nwd_cmp_key not_less)
qed

theorem neighbor_order_witness:
  "nwd_cmp (nwd_new new_invalid (dwt_with_query 0x3F800000 new_invalid) None)
     (nwd_new new_invalid (dwt_with_query 0x40000000 new_invalid) None) \<noteq> Greater"
proof -
  define q where "q d = nwd_new new_invalid (dwt_with_query d new_invalid) None" for d
  have k: "nwd_cmp (q 0x3F800000) (q 0x3F800000) = Equal" "nwd_cmp (q 0x3F800000) (q 0x40000000) = Less"
    unfolding q_def by code_simp+
  have n: "dwt_new f32_zero new_invalid new_invalid
      = Inr \<lparr>distance = f32_zero, dfrom = new_invalid, dto = new_invalid, tie_cell = None\<rparr>"
    by code_simp
  show ?thesis
    using neighbor_order [of "q 0x3F800000" "q 0x3F800000" "q 0x40000000", OF _ _ n n] k
    by (simp add: q_def)
qed

end
