(* ===== verification/Graph_Nodes.thy ===== *)
theory Graph_Nodes
  imports Page_Store Neighbor_Distance
begin

text \<open>
  \<open>plain/node.rs\<close> and \<open>sbq/node.rs\<close>: the nodes of the graph as they lie on the pages. rkyv reads
  and mutates a serialised node in place, so that a page item is the node itself here. The
  adjacency is an array of fixed length; the first slot with an invalid block number ends it.
\<close>

section \<open>Adjacency slots\<close>

definition empty_slot :: item_pointer where
  "empty_slot = ItemPointer InvalidBlockNumber InvalidOffsetNumber"

definition slots_num_neighbors :: "item_pointer list \<Rightarrow> nat" where
  "slots_num_neighbors slots = length (takeWhile (\<lambda>p. block_number p \<noteq> InvalidBlockNumber) slots)"

definition slots_iter_neighbors :: "item_pointer list \<Rightarrow> item_pointer list" where
  "slots_iter_neighbors slots = take (slots_num_neighbors slots) slots"

text \<open>\<open>index_pin\<close> panics out of bounds.\<close>

definition index_pin :: "item_pointer list \<Rightarrow> nat \<Rightarrow> item_pointer \<Rightarrow> item_pointer list res" where
  "index_pin slots i p =
     (if i < length slots then Inr (slots[i := p]) else Inl (Panic ''index out of bounds''))"

definition slots_set_neighbors ::
  "neighbor_with_distance list \<Rightarrow> nat \<Rightarrow> item_pointer list \<Rightarrow> item_pointer list res" where
  "slots_set_neighbors neighbors num_neighbors slots =
     rbind (rfold (\<lambda>(i, n) slots. index_pin slots i (n_index_pointer n)) (enumerate 0 neighbors) slots) (\<lambda>slots.
     if length neighbors < num_neighbors then index_pin slots (length neighbors) empty_slot
     else Inr slots)"

lemma slots_iter_takeWhile:
  "slots_iter_neighbors slots = takeWhile (\<lambda>p. block_number p \<noteq> InvalidBlockNumber) slots"
  by (metis slots_iter_neighbors_def slots_num_neighbors_def takeWhile_eq_take)

lemma slots_iter_valid: "p \<in> set (slots_iter_neighbors slots) \<Longrightarrow> block_number p \<noteq> InvalidBlockNumber"
  by (auto simp: slots_iter_takeWhile dest: set_takeWhileD)

lemma slots_iter_length: "length (slots_iter_neighbors slots) \<le> length slots"
  by (simp add: slots_iter_takeWhile length_takeWhile_le)

lemma set_slots_loop:
  "i + length ns \<le> length slots \<Longrightarrow>
     rfold (\<lambda>(i, n) slots. index_pin slots i (n_index_pointer n)) (enumerate i ns) slots
       = Inr (take i slots @ map n_index_pointer ns @ drop (i + length ns) slots)"
proof (induction ns arbitrary: i slots)
  case (Cons n ns)
  let ?slots = "slots[i := n_index_pointer n]"
  have "rfold (\<lambda>(i, n) slots. index_pin slots i (n_index_pointer n)) (enumerate (Suc i) ns) ?slots
      = Inr (take (Suc i) ?slots @ map n_index_pointer ns @ drop (Suc i + length ns) ?slots)"
    using Cons by simp
  moreover have "take (Suc i) ?slots = take i slots @ [n_index_pointer n]"
    using Cons.prems by (simp add: take_Suc_conv_app_nth)
  ultimately show ?case using Cons.prems by (simp add: index_pin_def)
qed simp

lemma set_slots_loop_short:
  "length slots < i + length ns \<Longrightarrow> i \<le> length slots \<Longrightarrow>
     \<exists>e. rfold (\<lambda>(i, n) slots. index_pin slots i (n_index_pointer n)) (enumerate i ns) slots = Inl e"
proof (induction ns arbitrary: i slots)
  case (Cons n ns)
  show ?case
  proof (cases "i < length slots")
    case True
    then show ?thesis
      using Cons.IH [of "slots[i := n_index_pointer n]" "Suc i"] Cons.prems by (auto simp: index_pin_def)
  qed (auto simp: index_pin_def)
qed simp

text \<open>
  What is written is read back, whatever the slots held before, as long as it fits and contains no
  invalid pointer; and the array keeps its length, so that the item keeps its size.
\<close>

lemma slots_set_iter:
  assumes len: "length slots = num_neighbors" "length ns \<le> num_neighbors"
    and valid: "\<forall>n \<in> set ns. block_number (n_index_pointer n) \<noteq> InvalidBlockNumber"
  shows "\<exists>slots'. slots_set_neighbors ns num_neighbors slots = Inr slots' \<and> length slots' = length slots
           \<and> slots_iter_neighbors slots' = map n_index_pointer ns"
proof -
  let ?s = "map n_index_pointer ns @ drop (length ns) slots"
  have loop: "rfold (\<lambda>(i, n) slots. index_pin slots i (n_index_pointer n)) (enumerate 0 ns) slots = Inr ?s"
    using set_slots_loop [of 0 ns slots] len by simp
  have all: "takeWhile (\<lambda>p. block_number p \<noteq> InvalidBlockNumber) (map n_index_pointer ns @ xs)
      = map n_index_pointer ns @ takeWhile (\<lambda>p. block_number p \<noteq> InvalidBlockNumber) xs" for xs
    by (rule takeWhile_append2) (use valid in auto)
  show ?thesis
  proof (cases "length ns < num_neighbors")
    case True
    have s: "?s[length ns := empty_slot] = map n_index_pointer ns @ empty_slot # drop (Suc (length ns)) slots"
      using True len by (simp add: list_update_append Cons_nth_drop_Suc [symmetric])
    have "slots_iter_neighbors (?s[length ns := empty_slot]) = map n_index_pointer ns"
      unfolding s slots_iter_takeWhile all by (simp add: empty_slot_def)
    then show ?thesis
      using True len unfolding slots_set_neighbors_def loop by (simp add: index_pin_def)
  next
    case False
    then show ?thesis
      using len all [of "[]"] by (simp add: slots_set_neighbors_def loop slots_iter_takeWhile)
  qed
qed

lemma slots_set_length:
  "slots_set_neighbors ns num_neighbors slots = Inr slots' \<Longrightarrow> length slots' = length slots"
proof -
  assume *: "slots_set_neighbors ns num_neighbors slots = Inr slots'"
  then obtain s where s: "rfold (\<lambda>(i, n) slots. index_pin slots i (n_index_pointer n)) (enumerate 0 ns) slots = Inr s"
    by (auto simp: slots_set_neighbors_def)
  have "length s = length slots"
    by (rule rfold_invariant [OF s, where I = "\<lambda>s. length s = length slots"])
      (auto simp: index_pin_def split: if_splits prod.splits)
  with * s show ?thesis by (auto simp: slots_set_neighbors_def index_pin_def split: if_splits)
qed

lemma slots_set_fuel [no_fuel]: "slots_set_neighbors ns num_neighbors slots \<noteq> Inl OutOfFuel"
  unfolding slots_set_neighbors_def index_pin_def by (intro no_fuel)

section \<open>Plain nodes\<close>

record plain_node =
  p_vector :: "f32 list"
  p_pq_vector :: "8 word list"
  p_neighbors :: "item_pointer list"
  p_heap :: heap_pointer

definition plain_node_new_for_full_vector :: "f32 list \<Rightarrow> heap_pointer \<Rightarrow> nat \<Rightarrow> plain_node" where
  "plain_node_new_for_full_vector vector hp num_neighbors =
     \<lparr>p_vector = vector, p_pq_vector = [], p_neighbors = replicate num_neighbors empty_slot, p_heap = hp\<rparr>"

definition plain_is_deleted :: "plain_node \<Rightarrow> bool" where
  "plain_is_deleted n = (offset (p_heap n) = InvalidOffsetNumber)"

definition plain_delete :: "plain_node \<Rightarrow> plain_node" where
  "plain_delete n = n\<lparr>p_heap := ItemPointer InvalidBlockNumber InvalidOffsetNumber\<rparr>"

definition plain_num_neighbors :: "plain_node \<Rightarrow> nat" where
  "plain_num_neighbors n = slots_num_neighbors (p_neighbors n)"

definition plain_iter_neighbors :: "plain_node \<Rightarrow> item_pointer list" where
  "plain_iter_neighbors n = take (plain_num_neighbors n) (p_neighbors n)"

definition plain_set_neighbors :: "neighbor_with_distance list \<Rightarrow> nat \<Rightarrow> plain_node \<Rightarrow> plain_node res" where
  "plain_set_neighbors neighbors num_neighbors n =
     rbind (slots_set_neighbors neighbors num_neighbors (p_neighbors n)) (\<lambda>slots.
     Inr (n\<lparr>p_neighbors := slots\<rparr>))"

section \<open>SBQ nodes\<close>

record classic_sbq_node =
  c_heap :: heap_pointer
  c_bq_vector :: "64 word list"
  c_neighbors :: "item_pointer list"
  c_neighbor_vectors :: "64 word list list"

record labeled_sbq_node =
  l_heap :: heap_pointer
  l_bq_vector :: "64 word list"
  l_neighbors :: "item_pointer list"
  l_labels :: label_set

datatype sbq_node = Classic classic_sbq_node | Labeled labeled_sbq_node

definition sbq_node_new ::
  "heap_pointer \<Rightarrow> nat \<Rightarrow> bool \<Rightarrow> 64 word list \<Rightarrow> label_set option \<Rightarrow> sbq_node" where
  "sbq_node_new hp num_neighbors has_labels bq_vector ls =
     (let neighbor_index_pointers = replicate num_neighbors empty_slot in
      if has_labels then
        Labeled \<lparr>l_heap = hp, l_bq_vector = bq_vector, l_neighbors = neighbor_index_pointers,
          l_labels = (case ls of Some l \<Rightarrow> l | None \<Rightarrow> label_set_default)\<rparr>
      else
        Classic \<lparr>c_heap = hp, c_bq_vector = bq_vector, c_neighbors = neighbor_index_pointers,
          c_neighbor_vectors = []\<rparr>)"

fun sbq_heap_item_pointer :: "sbq_node \<Rightarrow> heap_pointer" where
  "sbq_heap_item_pointer (Classic n) = c_heap n"
| "sbq_heap_item_pointer (Labeled n) = l_heap n"

definition sbq_is_deleted :: "sbq_node \<Rightarrow> bool" where
  "sbq_is_deleted n = (offset (sbq_heap_item_pointer n) = InvalidOffsetNumber)"

fun sbq_delete :: "sbq_node \<Rightarrow> sbq_node" where
  "sbq_delete (Classic n) = Classic (n\<lparr>c_heap := ItemPointer InvalidBlockNumber InvalidOffsetNumber\<rparr>)"
| "sbq_delete (Labeled n) = Labeled (n\<lparr>l_heap := ItemPointer InvalidBlockNumber InvalidOffsetNumber\<rparr>)"

fun sbq_slots :: "sbq_node \<Rightarrow> item_pointer list" where
  "sbq_slots (Classic n) = c_neighbors n"
| "sbq_slots (Labeled n) = l_neighbors n"

definition sbq_num_neighbors :: "sbq_node \<Rightarrow> nat" where
  "sbq_num_neighbors n = slots_num_neighbors (sbq_slots n)"

definition sbq_iter_neighbors :: "sbq_node \<Rightarrow> item_pointer list" where
  "sbq_iter_neighbors n = take (sbq_num_neighbors n) (sbq_slots n)"

fun sbq_bq_vector :: "sbq_node \<Rightarrow> 64 word list" where
  "sbq_bq_vector (Classic n) = c_bq_vector n"
| "sbq_bq_vector (Labeled n) = l_bq_vector n"

fun sbq_labels :: "sbq_node \<Rightarrow> label_set option" where
  "sbq_labels (Classic n) = None"
| "sbq_labels (Labeled n) = Some (l_labels n)"

fun sbq_set_neighbors :: "neighbor_with_distance list \<Rightarrow> nat \<Rightarrow> sbq_node \<Rightarrow> sbq_node res" where
  "sbq_set_neighbors neighbors num_neighbors (Classic n) =
     rbind (slots_set_neighbors neighbors num_neighbors (c_neighbors n)) (\<lambda>slots.
     Inr (Classic (n\<lparr>c_neighbors := slots\<rparr>)))"
| "sbq_set_neighbors neighbors num_neighbors (Labeled n) =
     rbind (slots_set_neighbors neighbors num_neighbors (l_neighbors n)) (\<lambda>slots.
     Inr (Labeled (n\<lparr>l_neighbors := slots\<rparr>)))"

text \<open>Whether a node is of the kind an index with or without labels reads.\<close>

fun sbq_has_labels :: "sbq_node \<Rightarrow> bool" where
  "sbq_has_labels (Classic _) = False"
| "sbq_has_labels (Labeled _) = True"

section \<open>The contract of a node\<close>

text \<open>
  What the graph and vacuum rely on, whatever the kind of node: writing an adjacency that fits
  reads back and leaves the rest of the node alone, and deleting marks the node and only that.
\<close>

locale graph_node =
  fixes slots :: "'n \<Rightarrow> item_pointer list"
    and iter :: "'n \<Rightarrow> item_pointer list"
    and set_nbrs :: "neighbor_with_distance list \<Rightarrow> nat \<Rightarrow> 'n \<Rightarrow> 'n res"
    and heap :: "'n \<Rightarrow> heap_pointer"
    and core :: "'n \<Rightarrow> 'c"
    and deleted :: "'n \<Rightarrow> bool"
    and del :: "'n \<Rightarrow> 'n"
  assumes iter_slots: "iter n = slots_iter_neighbors (slots n)"
    and set_slots: "set_nbrs ns k n = Inr n' \<Longrightarrow> slots_set_neighbors ns k (slots n) = Inr (slots n')"
    and set_ok: "slots_set_neighbors ns k (slots n) = Inr s \<Longrightarrow> \<exists>n'. set_nbrs ns k n = Inr n'"
    and set_fuel: "set_nbrs ns k n \<noteq> Inl OutOfFuel"
    and set_frame: "set_nbrs ns k n = Inr n' \<Longrightarrow> heap n' = heap n \<and> core n' = core n"
    and deleted_heap: "deleted n \<longleftrightarrow> offset (heap n) = InvalidOffsetNumber"
    and del_deleted: "deleted (del n)"
    and del_frame: "slots (del n) = slots n \<and> core (del n) = core n"
begin

lemma set_iter:
  assumes "length (slots n) = k" "length ns \<le> k"
    and "\<forall>x \<in> set ns. block_number (n_index_pointer x) \<noteq> InvalidBlockNumber"
  shows "\<exists>n'. set_nbrs ns k n = Inr n' \<and> iter n' = map n_index_pointer ns \<and>
     length (slots n') = k \<and> heap n' = heap n \<and> core n' = core n"
proof -
  from slots_set_iter [OF assms] obtain s where
    s: "slots_set_neighbors ns k (slots n) = Inr s" "length s = length (slots n)"
      "slots_iter_neighbors s = map n_index_pointer ns" by blast
  from set_ok [OF s(1)] obtain n' where n': "set_nbrs ns k n = Inr n'" by blast
  from set_slots [OF n'] s(1) have "slots n' = s" by simp
  with s n' set_frame [OF n'] assms(1) show ?thesis by (simp add: iter_slots)
qed

lemma del_iter: "iter (del n) = iter n"
  using del_frame by (simp add: iter_slots)

end

interpretation plain: graph_node p_neighbors plain_iter_neighbors plain_set_neighbors p_heap p_vector
  plain_is_deleted plain_delete
proof
  show "plain_set_neighbors ns k n \<noteq> Inl OutOfFuel" for ns k n
    unfolding plain_set_neighbors_def by (intro no_fuel)
qed (auto simp: plain_iter_neighbors_def plain_num_neighbors_def slots_iter_neighbors_def
      plain_set_neighbors_def plain_is_deleted_def plain_delete_def)

interpretation sbq: graph_node sbq_slots sbq_iter_neighbors sbq_set_neighbors sbq_heap_item_pointer
  "\<lambda>n. (sbq_bq_vector n, sbq_labels n)" sbq_is_deleted sbq_delete
proof
  fix ns k n n'
  show "slots_set_neighbors ns k (sbq_slots n) = Inr (sbq_slots n')" if "sbq_set_neighbors ns k n = Inr n'"
    using that by (cases n) auto
  show "\<exists>n'. sbq_set_neighbors ns k n = Inr n'" if "slots_set_neighbors ns k (sbq_slots n) = Inr s" for s
    using that by (cases n) auto
  show "sbq_set_neighbors ns k n \<noteq> Inl OutOfFuel"
    by (cases n) (simp_all only: sbq_set_neighbors.simps, (intro no_fuel)+)
  show "sbq_heap_item_pointer n' = sbq_heap_item_pointer n \<and> (sbq_bq_vector n', sbq_labels n') = (sbq_bq_vector n, sbq_labels n)"
    if "sbq_set_neighbors ns k n = Inr n'"
    using that by (cases n) auto
  show "sbq_is_deleted (sbq_delete n)" by (cases n) (simp_all add: sbq_is_deleted_def)
  show "sbq_slots (sbq_delete n) = sbq_slots n \<and>
      (sbq_bq_vector (sbq_delete n), sbq_labels (sbq_delete n)) = (sbq_bq_vector n, sbq_labels n)"
    by (cases n) simp_all
qed (simp_all add: sbq_iter_neighbors_def sbq_num_neighbors_def slots_iter_neighbors_def sbq_is_deleted_def)

end
