(* ===== verification/Lru_Cache.thy ===== *)
theory Lru_Cache
  imports Prelude
begin

text \<open>
  \<open>util/lru.rs\<close>: the LRU cache with statistics that holds the quantised vectors and, during a
  build, the adjacency lists.

  The cache proper is the \<open>lru\<close> crate: the record \<open>lru_ops\<close> of its operations on the entries,
  whose documented behaviour is the locale \<open>lru_laws\<close>. \<open>lru_list\<close>, which keeps the entries in
  order of recency, is an instance. The messages of \<open>record_insert\<close> are not modelled.
\<close>

section \<open>The crate\<close>

type_synonym ('k, 'v) entries = "('k \<times> 'v) list"

record ('k, 'v) lru_ops =
  op_get :: "'k \<Rightarrow> ('k, 'v) entries \<Rightarrow> 'v option \<times> ('k, 'v) entries"
  op_push :: "nat \<Rightarrow> 'k \<Rightarrow> 'v \<Rightarrow> ('k, 'v) entries \<Rightarrow> ('k \<times> 'v) option \<times> ('k, 'v) entries"
  op_pop_lru :: "('k, 'v) entries \<Rightarrow> (('k \<times> 'v) \<times> ('k, 'v) entries) option"

definition lru_ok :: "nat \<Rightarrow> ('k, 'v) entries \<Rightarrow> bool" where
  "lru_ok cap es \<longleftrightarrow> distinct (map fst es) \<and> length es \<le> cap \<and> 0 < cap"

text \<open>
  \<open>push\<close> returns the old entry of the key, or else the entry it evicted when the cache was full.
\<close>

locale lru_laws =
  fixes ops :: "('k, 'v) lru_ops"
  assumes get: "lru_ok cap es \<Longrightarrow> \<exists>es'. op_get ops k es = (map_of es k, es') \<and> mset es' = mset es"
    and push_update: "lru_ok cap es \<Longrightarrow> map_of es k = Some old \<Longrightarrow>
      \<exists>es'. op_push ops cap k v es = (Some (k, old), es') \<and> mset es' = add_mset (k, v) (mset es - {#(k, old)#})"
    and push_room: "lru_ok cap es \<Longrightarrow> map_of es k = None \<Longrightarrow> length es < cap \<Longrightarrow>
      \<exists>es'. op_push ops cap k v es = (None, es') \<and> mset es' = add_mset (k, v) (mset es)"
    and push_full: "lru_ok cap es \<Longrightarrow> map_of es k = None \<Longrightarrow> length es = cap \<Longrightarrow>
      \<exists>es' ev. op_push ops cap k v es = (Some ev, es') \<and> ev \<in># mset es
         \<and> mset es' = add_mset (k, v) (mset es - {#ev#})"
    and pop_Nil: "op_pop_lru ops [] = None"
    and pop_Cons: "lru_ok cap es \<Longrightarrow> es \<noteq> [] \<Longrightarrow>
      \<exists>e es'. op_pop_lru ops es = Some (e, es') \<and> mset es = add_mset e (mset es')"

text \<open>Entries from the most to the least recently used.\<close>

definition lru_list :: "('k, 'v) lru_ops" where
  "lru_list =
     \<lparr>op_get = (\<lambda>k es. case map_of es k of
          None \<Rightarrow> (None, es)
        | Some v \<Rightarrow> (Some v, (k, v) # remove1 (k, v) es)),
      op_push = (\<lambda>cap k v es. case map_of es k of
          Some old \<Rightarrow> (Some (k, old), (k, v) # remove1 (k, old) es)
        | None \<Rightarrow> if length es < cap then (None, (k, v) # es)
                  else (Some (last es), (k, v) # butlast es)),
      op_pop_lru = (\<lambda>es. if es = [] then None else Some (last es, butlast es))\<rparr>"

lemma mset_butlast_last: "es \<noteq> [] \<Longrightarrow> mset es = add_mset (last es) (mset (butlast es))"
  by (induction es) auto

interpretation lru_list: lru_laws lru_list
proof
  fix cap and es :: "('a, 'b) entries" and k v old
  assume ok: "lru_ok cap es"
  show "\<exists>es'. op_get lru_list k es = (map_of es k, es') \<and> mset es' = mset es"
    by (cases "map_of es k") (auto simp: lru_list_def dest!: map_of_SomeD)
  show "\<exists>es'. op_push lru_list cap k v es = (Some (k, old), es') \<and> mset es' = add_mset (k, v) (mset es - {#(k, old)#})"
    if "map_of es k = Some old"
    using that by (auto simp: lru_list_def)
  show "\<exists>es'. op_push lru_list cap k v es = (None, es') \<and> mset es' = add_mset (k, v) (mset es)"
    if "map_of es k = None" "length es < cap"
    using that by (auto simp: lru_list_def)
  show "\<exists>es' ev. op_push lru_list cap k v es = (Some ev, es') \<and> ev \<in># mset es
         \<and> mset es' = add_mset (k, v) (mset es - {#ev#})"
    if "map_of es k = None" "length es = cap"
  proof -
    have "es \<noteq> []" using that ok by (auto simp: lru_ok_def)
    with mset_butlast_last [OF this] that show ?thesis by (simp add: lru_list_def)
  qed
  show "\<exists>e es'. op_pop_lru lru_list es = Some (e, es') \<and> mset es = add_mset e (mset es')" if "es \<noteq> []"
    using that mset_butlast_last [OF that] by (simp add: lru_list_def)
qed (simp add: lru_list_def)

section \<open>The cache with statistics\<close>

record cache_stats =
  inserts :: nat
  updates :: nat
  hits :: nat
  misses :: nat
  evictions :: nat

definition cache_stats_default :: cache_stats where
  "cache_stats_default = \<lparr>inserts = 0, updates = 0, hits = 0, misses = 0, evictions = 0\<rparr>"

definition record_insert :: "bool \<Rightarrow> cache_stats \<Rightarrow> cache_stats" where
  "record_insert evicted s =
     (let s = s\<lparr>inserts := inserts s + 1\<rparr>
      in if evicted then s\<lparr>evictions := evictions s + 1\<rparr> else s)"

record ('k, 'v) lru =
  entries :: "('k, 'v) entries"
  lru_cap :: nat
  lru_stats :: cache_stats

definition lru_new :: "nat \<Rightarrow> ('k, 'v) lru" where
  "lru_new capacity = \<lparr>entries = [], lru_cap = capacity, lru_stats = cache_stats_default\<rparr>"

text \<open>An unbounded cache resized to the capacity while it is empty.\<close>

definition lru_new_lazy :: "nat \<Rightarrow> ('k, 'v) lru" where
  "lru_new_lazy capacity = lru_new capacity"

definition lru_len :: "('k, 'v) lru \<Rightarrow> nat" where
  "lru_len c = length (entries c)"

definition lru_push ::
  "('k, 'v) lru_ops \<Rightarrow> 'k \<Rightarrow> 'v \<Rightarrow> ('k, 'v) lru \<Rightarrow> ('k \<times> 'v) option \<times> ('k, 'v) lru" where
  "lru_push ops key value c =
     (case op_push ops (lru_cap c) key value (entries c) of (result, es) \<Rightarrow>
        let c = c\<lparr>entries := es\<rparr> in
        if \<exists>old. result = Some (key, old) then
          (None, c\<lparr>lru_stats := (lru_stats c)\<lparr>updates := updates (lru_stats c) + 1\<rparr>\<rparr>)
        else (result, c\<lparr>lru_stats := record_insert (result \<noteq> None) (lru_stats c)\<rparr>))"

text \<open>
  \<open>get_or_insert\<close>, whose closure may fail and has a state of its own. The crate's operation is a
  lookup that moves a present key to the front and inserts the closure's value otherwise.
\<close>

definition lru_get_or_insert ::
  "('k, 'v) lru_ops \<Rightarrow> 'k \<Rightarrow> ('s \<Rightarrow> ('v \<times> 's) res) \<Rightarrow> ('k, 'v) lru \<Rightarrow> 's \<Rightarrow> ('v \<times> ('k, 'v) lru \<times> 's) res" where
  "lru_get_or_insert ops key f c s =
     (let full = (lru_len c = lru_cap c) in
      case op_get ops key (entries c) of
        (Some value, es) \<Rightarrow>
          Inr (value, c\<lparr>entries := es, lru_stats := (lru_stats c)\<lparr>hits := hits (lru_stats c) + 1\<rparr>\<rparr>, s)
      | (None, es) \<Rightarrow>
          rbind (f s) (\<lambda>(value, s).
          let es = snd (op_push ops (lru_cap c) key value es);
              st = (lru_stats c)\<lparr>misses := misses (lru_stats c) + 1\<rparr>
          in Inr (value, c\<lparr>entries := es, lru_stats := record_insert full st\<rparr>, s)))"

definition lru_get :: "('k, 'v) lru_ops \<Rightarrow> 'k \<Rightarrow> ('k, 'v) lru \<Rightarrow> 'v option \<times> ('k, 'v) lru" where
  "lru_get ops key c =
     (case op_get ops key (entries c) of (result, es) \<Rightarrow>
        let c = c\<lparr>entries := es\<rparr> in
        if result \<noteq> None then (result, c\<lparr>lru_stats := (lru_stats c)\<lparr>hits := hits (lru_stats c) + 1\<rparr>\<rparr>)
        else (result, c\<lparr>lru_stats := (lru_stats c)\<lparr>misses := misses (lru_stats c) + 1\<rparr>\<rparr>))"

definition lru_pop_lru :: "('k, 'v) lru_ops \<Rightarrow> ('k, 'v) lru \<Rightarrow> (('k \<times> 'v) \<times> ('k, 'v) lru) option" where
  "lru_pop_lru ops c =
     (case op_pop_lru ops (entries c) of
        Some (e, es) \<Rightarrow>
          Some (e, c\<lparr>entries := es, lru_stats := (lru_stats c)\<lparr>evictions := evictions (lru_stats c) + 1\<rparr>\<rparr>)
      | None \<Rightarrow> None)"

section \<open>Invariant and contents\<close>

text \<open>What a cache holds, and what its statistics always say about it.\<close>

definition lru_lookup :: "('k, 'v) lru \<Rightarrow> 'k \<Rightarrow> 'v option" where
  "lru_lookup c = map_of (entries c)"

definition lru_inv :: "('k, 'v) lru \<Rightarrow> bool" where
  "lru_inv c \<longleftrightarrow> lru_ok (lru_cap c) (entries c) \<and>
     length (entries c) + evictions (lru_stats c) = inserts (lru_stats c)"

lemma lru_new_inv [simp]: "0 < n \<Longrightarrow> lru_inv (lru_new n)"
  by (simp add: lru_inv_def lru_new_def lru_ok_def cache_stats_default_def)

lemma lru_lookup_new [simp]: "lru_lookup (lru_new n) = Map.empty"
  by (simp add: lru_lookup_def lru_new_def)

lemma record_insert_simps [simp]:
  "inserts (record_insert b s) = Suc (inserts s)"
  "evictions (record_insert b s) = evictions s + (if b then 1 else 0)"
  "hits (record_insert b s) = hits s" "misses (record_insert b s) = misses s"
  by (simp_all add: record_insert_def Let_def)

lemma map_of_mset:
  assumes "distinct (map fst es)" "mset es' = mset es"
  shows "map_of es' = map_of es"
proof
  fix k
  have "distinct (map fst es')" using assms by (metis mset_eq_imp_distinct_iff mset_map)
  moreover have "set es' = set es" using assms(2) by (rule mset_eq_setD)
  ultimately show "map_of es' k = map_of es k"
    using assms(1) map_of_eq_None_iff [of es' k] map_of_eq_None_iff [of es k]
    by (cases "map_of es k") auto
qed

lemma distinct_keys_mset: "mset es' = mset es \<Longrightarrow> distinct (map fst es') = distinct (map fst es)"
  by (metis mset_eq_imp_distinct_iff mset_map)

lemma map_of_mset_Cons:
  assumes "mset es' = add_mset (k, v) (mset es)" "distinct (map fst es)" "map_of es k = None"
  shows "distinct (map fst es') \<and> map_of es' = (map_of es)(k \<mapsto> v)"
proof -
  have d: "distinct (map fst ((k, v) # es))" using assms(2,3) by (auto simp: map_of_eq_None_iff)
  have m: "mset es' = mset ((k, v) # es)" using assms(1) by simp
  show ?thesis using distinct_keys_mset [OF m] map_of_mset [OF d m] d by simp
qed

lemma map_of_mset_remove:
  assumes "mset es = add_mset (k, v) (mset es')" "distinct (map fst es)"
  shows "distinct (map fst es') \<and> map_of es' = (map_of es)(k := None) \<and> map_of es k = Some v"
proof -
  have m: "mset es = mset ((k, v) # es')" using assms(1) by simp
  then have d: "distinct (map fst ((k, v) # es'))" using assms(2) distinct_keys_mset [OF m] by simp
  have "map_of es = (map_of es')(k \<mapsto> v)" using map_of_mset [OF d m] by simp
  moreover have "map_of es' k = None" using d by (auto simp: map_of_eq_None_iff)
  ultimately show ?thesis using d by auto
qed

context lru_laws
begin

lemma lru_push_facts:
  assumes inv: "lru_inv c" and push: "lru_push ops k v c = (ev, c')"
  shows "lru_inv c' \<and> lru_cap c' = lru_cap c \<and>
     (case ev of
        None \<Rightarrow> lru_lookup c' = (lru_lookup c)(k \<mapsto> v)
      | Some (k', v') \<Rightarrow> k' \<noteq> k \<and> lru_lookup c k = None \<and> lru_lookup c k' = Some v' \<and>
          lru_lookup c' = (lru_lookup c)(k' := None, k \<mapsto> v))"
proof -
  let ?es = "entries c"
  have ok: "lru_ok (lru_cap c) ?es" and st: "length ?es + evictions (lru_stats c) = inserts (lru_stats c)"
    using inv by (auto simp: lru_inv_def)
  have d: "distinct (map fst ?es)" and len: "length ?es \<le> lru_cap c" using ok by (auto simp: lru_ok_def)
  note defs = lru_push_def lru_inv_def lru_ok_def lru_lookup_def
  consider (upd) old where "map_of ?es k = Some old" | (room) "map_of ?es k = None" "length ?es < lru_cap c"
    | (full) "map_of ?es k = None" "length ?es = lru_cap c"
    using len le_neq_implies_less by (cases "map_of ?es k") blast+
  then show ?thesis
  proof cases
    case upd
    from push_update [OF ok upd, of v] obtain es' where
      es: "op_push ops (lru_cap c) k v ?es = (Some (k, old), es')" "mset es' = add_mset (k, v) (mset ?es - {#(k, old)#})"
      by blast
    have "(k, old) \<in># mset ?es" using map_of_SomeD [OF upd] by simp
    then have "mset ?es = add_mset (k, old) (mset (remove1 (k, old) ?es))" by simp
    from map_of_mset_remove [OF this d] have r: "distinct (map fst (remove1 (k, old) ?es))"
      "map_of (remove1 (k, old) ?es) = (map_of ?es)(k := None)" by auto
    have "mset es' = add_mset (k, v) (mset (remove1 (k, old) ?es))" using es(2) by simp
    from map_of_mset_Cons [OF this r(1)] r(2) have "distinct (map fst es')" "map_of es' = (map_of ?es)(k \<mapsto> v)" by auto
    moreover have "length es' = length ?es"
      using arg_cong [OF es(2), of size] \<open>(k, old) \<in># mset ?es\<close> by (simp add: size_Diff_singleton)
        (metis Suc_pred length_pos_if_in_set set_mset_mset)
    ultimately show ?thesis using push es(1) st ok len by (auto simp: defs Let_def)
  next
    case room
    from push_room [OF ok room, of v] obtain es' where
      es: "op_push ops (lru_cap c) k v ?es = (None, es')" "mset es' = add_mset (k, v) (mset ?es)" by blast
    from map_of_mset_Cons [OF es(2) d room(1)]
    have "distinct (map fst es')" "map_of es' = (map_of ?es)(k \<mapsto> v)" by auto
    moreover have "length es' = Suc (length ?es)" using arg_cong [OF es(2), of size] by simp
    ultimately show ?thesis using push es(1) st ok room by (auto simp: defs Let_def)
  next
    case full
    from push_full [OF ok full, of v] obtain es' k' v' where
      es: "op_push ops (lru_cap c) k v ?es = (Some (k', v'), es')" "(k', v') \<in># mset ?es"
        "mset es' = add_mset (k, v) (mset ?es - {#(k', v')#})" by (metis surj_pair)
    have "mset ?es = add_mset (k', v') (mset (remove1 (k', v') ?es))" using es(2) by simp
    from map_of_mset_remove [OF this d] have r: "distinct (map fst (remove1 (k', v') ?es))"
      "map_of (remove1 (k', v') ?es) = (map_of ?es)(k' := None)" "map_of ?es k' = Some v'" by auto
    have ne: "k' \<noteq> k" using r(3) full(1) by auto
    have "mset es' = add_mset (k, v) (mset (remove1 (k', v') ?es))" using es(3) by simp
    from map_of_mset_Cons [OF this r(1)] r(2) full(1) ne
    have "distinct (map fst es')" "map_of es' = (map_of ?es)(k' := None, k \<mapsto> v)" by auto
    moreover have "length es' = length ?es"
      using arg_cong [OF es(3), of size] es(2) by (simp add: size_Diff_singleton)
        (metis Suc_pred length_pos_if_in_set set_mset_mset)
    ultimately show ?thesis using push es(1) st ok full ne r(3) by (auto simp: defs Let_def)
  qed
qed

lemma lru_get_facts:
  assumes inv: "lru_inv c" and get: "lru_get ops k c = (r, c')"
  shows "lru_inv c' \<and> lru_cap c' = lru_cap c \<and> r = lru_lookup c k \<and> lru_lookup c' = lru_lookup c"
proof -
  have ok: "lru_ok (lru_cap c) (entries c)" using inv by (simp add: lru_inv_def)
  from lru_laws.get [OF lru_laws_axioms ok, of k] obtain es' where
    es: "op_get ops k (entries c) = (map_of (entries c) k, es')" "mset es' = mset (entries c)" by blast
  have "length es' = length (entries c)" using es(2) by (metis size_mset)
  moreover have "map_of es' = map_of (entries c)" "distinct (map fst es')"
    using ok map_of_mset [OF _ es(2)] distinct_keys_mset [OF es(2)] by (auto simp: lru_ok_def)
  ultimately show ?thesis
    using get es(1) inv by (auto simp: lru_get_def lru_inv_def lru_ok_def lru_lookup_def Let_def split: if_splits)
qed

text \<open>A miss runs the closure once and stores its value; a hit runs nothing and changes no entry.\<close>

lemma lru_get_or_insert_facts:
  assumes inv: "lru_inv c" and get: "lru_get_or_insert ops k f c s = Inr (v, c', s')"
  shows "lru_inv c' \<and> lru_cap c' = lru_cap c \<and> lru_lookup c' k = Some v \<and>
     (case lru_lookup c k of
        Some v' \<Rightarrow> v = v' \<and> s' = s \<and> lru_lookup c' = lru_lookup c
      | None \<Rightarrow> f s = Inr (v, s') \<and> lru_lookup c' \<subseteq>\<^sub>m (lru_lookup c)(k \<mapsto> v))"
proof -
  have ok: "lru_ok (lru_cap c) (entries c)" using inv by (simp add: lru_inv_def)
  from lru_laws.get [OF lru_laws_axioms ok, of k] obtain es' where
    es: "op_get ops k (entries c) = (map_of (entries c) k, es')" "mset es' = mset (entries c)" by blast
  have len: "length es' = length (entries c)" using es(2) by (metis size_mset)
  have m: "map_of es' = map_of (entries c)" "distinct (map fst es')"
    using ok map_of_mset [OF _ es(2)] distinct_keys_mset [OF es(2)] by (auto simp: lru_ok_def)
  show ?thesis
  proof (cases "map_of (entries c) k")
    case (Some v')
    then show ?thesis
      using get es(1) inv len m
      by (auto simp: lru_get_or_insert_def lru_inv_def lru_ok_def lru_lookup_def Let_def)
  next
    case None
    define d where "d = c\<lparr>entries := es'\<rparr>"
    have dinv: "lru_inv d" using inv len m by (simp add: d_def lru_inv_def lru_ok_def)
    obtain ev d' where push: "lru_push ops k v d = (ev, d')" by force
    note p = lru_push_facts [OF dinv push]
    have dk: "lru_lookup d = lru_lookup c" using m by (simp add: d_def lru_lookup_def)
    have raw: "entries d' = snd (op_push ops (lru_cap c) k v es')"
      using push by (auto simp: lru_push_def d_def Let_def split: prod.splits if_splits)
    have r: "f s = Inr (v, s')" "entries c' = snd (op_push ops (lru_cap c) k v es')" "lru_cap c' = lru_cap c"
      "lru_stats c' = record_insert (lru_len c = lru_cap c) ((lru_stats c)\<lparr>misses := misses (lru_stats c) + 1\<rparr>)"
      using get es(1) None by (auto simp: lru_get_or_insert_def Let_def)
    have e: "entries c' = entries d'" using raw r(2) by simp
    then have look: "lru_lookup c' = lru_lookup d'" by (simp add: lru_lookup_def)
    have okd: "lru_ok (lru_cap c) es'" using dinv by (simp add: d_def lru_inv_def)
    have nk: "map_of es' k = None" using None m by simp
    have lend: "length (entries d') = (if lru_len c = lru_cap c then length es' else Suc (length es'))"
    proof (cases "length es' < lru_cap c")
      case True
      from push_room [OF okd nk True, of v] obtain es'' where
        "op_push ops (lru_cap c) k v es' = (None, es'')" "mset es'' = add_mset (k, v) (mset es')" by blast
      moreover from this(2) have "length es'' = Suc (length es')" by (metis size_add_mset size_mset)
      ultimately show ?thesis using True len raw by (simp add: lru_len_def)
    next
      case False
      then have l: "length es' = lru_cap c" using okd by (simp add: lru_ok_def)
      from push_full [OF okd nk l, of v] obtain es'' ev where
        "op_push ops (lru_cap c) k v es' = (Some ev, es'')" "ev \<in># mset es'"
        "mset es'' = add_mset (k, v) (mset es' - {#ev#})" by blast
      then have "size (mset es'') = size (mset es')" by (metis insert_DiffM size_add_mset)
      then show ?thesis
        using l len raw \<open>op_push ops (lru_cap c) k v es' = (Some ev, es'')\<close> by (simp add: lru_len_def)
    qed
    have "lru_inv c'"
      using p inv lend len unfolding lru_inv_def r(4) e r(3)
      by (auto simp: d_def lru_len_def lru_inv_def)
    moreover have "lru_lookup c' k = Some v \<and> lru_lookup c' \<subseteq>\<^sub>m (lru_lookup c)(k \<mapsto> v)"
      using p look dk by (auto simp: map_le_def split: option.splits if_splits)
    ultimately show ?thesis using r None by (simp add: lru_lookup_def)
  qed
qed

lemma lru_pop_facts:
  assumes inv: "lru_inv c"
  shows "case lru_pop_lru ops c of
     None \<Rightarrow> lru_lookup c = Map.empty \<and> entries c = []
   | Some ((k, v), c') \<Rightarrow> lru_inv c' \<and> lru_cap c' = lru_cap c \<and> lru_lookup c k = Some v \<and>
       lru_lookup c' = (lru_lookup c)(k := None) \<and> length (entries c) = Suc (length (entries c'))"
proof (cases "entries c = []")
  case True
  then show ?thesis by (simp add: lru_pop_lru_def pop_Nil lru_lookup_def)
next
  case False
  have ok: "lru_ok (lru_cap c) (entries c)" using inv by (simp add: lru_inv_def)
  from pop_Cons [OF ok False] obtain k v es' where
    es: "op_pop_lru ops (entries c) = Some ((k, v), es')" "mset (entries c) = add_mset (k, v) (mset es')"
    by (metis surj_pair)
  have len: "length (entries c) = Suc (length es')" using arg_cong [OF es(2), of size] by simp
  have "distinct (map fst (entries c))" using ok by (simp add: lru_ok_def)
  from map_of_mset_remove [OF es(2) this] show ?thesis
    using inv es(1) len by (simp add: lru_pop_lru_def lru_inv_def lru_ok_def lru_lookup_def)
qed

end

section \<open>Properties\<close>

text \<open>
  C39. \<open>get_or_insert\<close> returns the cached value without running its closure when the key is present,
  and otherwise runs the closure exactly once, on the caller's state, and caches its value; either
  way the key is cached afterwards, no other key changes its value (one may be evicted), the
  capacity is respected, and the statistics keep accounting for the entries (entries = inserts -
  evictions).
\<close>

theorem get_or_insert_correct:
  assumes "lru_inv c" "lru_get_or_insert lru_list k f c s = Inr (v, c', s')"
  shows "lru_inv c' \<and> lru_cap c' = lru_cap c \<and> lru_lookup c' k = Some v \<and>
     (case lru_lookup c k of
        Some v' \<Rightarrow> v = v' \<and> s' = s \<and> lru_lookup c' = lru_lookup c
      | None \<Rightarrow> f s = Inr (v, s') \<and> lru_lookup c' \<subseteq>\<^sub>m (lru_lookup c)(k \<mapsto> v))"
  by (rule lru_list.lru_get_or_insert_facts [OF assms])

theorem get_or_insert_correct_witness:
  "\<exists>c'. lru_get_or_insert lru_list (7 :: nat) (\<lambda>s. Inr (s + 1, s + 10)) (lru_new 2) (5 :: int) = Inr (6, c', 15) \<and> lru_inv c'"
proof -
  have "lru_inv (lru_new 2 :: (nat, int) lru)" by simp
  from get_or_insert_correct [OF this, of 7 "\<lambda>s. Inr (s + 1, s + 10)" "5 :: int" 6 _ 15] show ?thesis
    by (auto simp: lru_get_or_insert_def lru_new_def lru_list_def)
qed

end
