(* ===== verification/Storage.thy ===== *)
theory Storage
  imports Graph_Nodes Lru_Cache
begin

text \<open>
  The state the graph operations share, the node accesses of \<open>pgvectorscale_derive\<close> and
  \<open>util/mod.rs\<close>, the compare-and-set of an adjacency, and the part of the trait of
  \<open>access_method/storage.rs\<close> that reads and writes nodes.

  The \<open>world\<close> holds the relation, the quantised vector cache of an SBQ storage, one record for the
  counters of \<open>stats.rs\<close> (the code keeps several and never reads them back), and \<open>w_others\<close>: what
  other backends do to the relation. Page locks make every other access atomic, so that they can
  act between the read of a node and its modification; one of them acts each time a node is locked
  for modification.
\<close>

section \<open>Counters\<close>

record stats =
  adjacency_attempts :: nat
  adjacency_retries :: nat
  unchanged_writes :: nat
  prune_calls :: nat
  full_distance_comparisons :: nat
  quantized_distance_comparisons :: nat
  node_reads :: nat
  node_modify_count :: nat
  node_writes :: nat
  node_heap_reads :: nat
  num_neighbors_before_prune :: nat
  num_neighbors_after_prune :: nat
  greedy_calls :: nat
  visited_nodes :: nat
  candidate_nodes :: nat

definition stats_default :: stats where
  "stats_default = \<lparr>adjacency_attempts = 0, adjacency_retries = 0, unchanged_writes = 0, prune_calls = 0,
     full_distance_comparisons = 0, quantized_distance_comparisons = 0, node_reads = 0,
     node_modify_count = 0, node_writes = 0, node_heap_reads = 0, num_neighbors_before_prune = 0,
     num_neighbors_after_prune = 0, greedy_calls = 0, visited_nodes = 0, candidate_nodes = 0\<rparr>"

definition record_read :: "stats \<Rightarrow> stats" where
  "record_read s = s\<lparr>node_reads := node_reads s + 1\<rparr>"
definition record_modify :: "stats \<Rightarrow> stats" where
  "record_modify s = s\<lparr>node_modify_count := node_modify_count s + 1\<rparr>"
definition record_unchanged :: "stats \<Rightarrow> stats" where
  "record_unchanged s = s\<lparr>unchanged_writes := unchanged_writes s + 1\<rparr>"
definition record_write :: "stats \<Rightarrow> stats" where
  "record_write s = s\<lparr>node_writes := node_writes s + 1\<rparr>"
definition record_heap_read :: "stats \<Rightarrow> stats" where
  "record_heap_read s = s\<lparr>node_heap_reads := node_heap_reads s + 1\<rparr>"
definition record_full_distance_comparison :: "stats \<Rightarrow> stats" where
  "record_full_distance_comparison s = s\<lparr>full_distance_comparisons := full_distance_comparisons s + 1\<rparr>"
definition record_quantized_distance_comparison :: "stats \<Rightarrow> stats" where
  "record_quantized_distance_comparison s =
     s\<lparr>quantized_distance_comparisons := quantized_distance_comparisons s + 1\<rparr>"
definition record_call :: "stats \<Rightarrow> stats" where
  "record_call s = s\<lparr>greedy_calls := greedy_calls s + 1\<rparr>"
definition record_visit :: "stats \<Rightarrow> stats" where
  "record_visit s = s\<lparr>visited_nodes := visited_nodes s + 1\<rparr>"
definition record_candidate :: "stats \<Rightarrow> stats" where
  "record_candidate s = s\<lparr>candidate_nodes := candidate_nodes s + 1\<rparr>"

section \<open>The world\<close>

type_synonym qv_cache = "(item_pointer, 64 word list) lru"

record 'n world =
  w_rel :: "'n relation"
  w_cache :: "qv_cache option"
  w_stats :: stats
  w_others :: "('n relation \<Rightarrow> 'n relation) list"

abbreviation count :: "(stats \<Rightarrow> stats) \<Rightarrow> 'n world \<Rightarrow> 'n world" where
  "count f w \<equiv> w\<lparr>w_stats := f (w_stats w)\<rparr>"

definition interfere :: "'n world \<Rightarrow> 'n world" where
  "interfere w = (case w_others w of [] \<Rightarrow> w | f # fs \<Rightarrow> w\<lparr>w_rel := f (w_rel w), w_others := fs\<rparr>)"

text \<open>Nothing that another backend can see has changed.\<close>

definition same_disk :: "'n world \<Rightarrow> 'n world \<Rightarrow> bool" where
  "same_disk w w' \<longleftrightarrow> w_rel w' = w_rel w \<and> w_others w' = w_others w"

lemma same_disk_refl [simp]: "same_disk w w"
  by (simp add: same_disk_def)

lemma same_disk_trans: "same_disk u v \<Longrightarrow> same_disk v w \<Longrightarrow> same_disk u w"
  by (simp add: same_disk_def)

lemma same_disk_count [simp]: "same_disk w (count f w)"
  by (simp add: same_disk_def)

section \<open>Nodes\<close>

definition node_read :: "item_pointer \<Rightarrow> 'n world \<Rightarrow> ('n \<times> 'n world) res" where
  "node_read ip w =
     rbind (read_buffer (w_rel w) (block_number ip)) (\<lambda>page.
     rbind (get_item_unchecked page (offset ip)) (\<lambda>n.
     Inr (n, count record_read w)))"

definition node_modify ::
  "item_pointer \<Rightarrow> 'n world \<Rightarrow> ('n writable_page \<times> 'n \<times> 'n world) res" where
  "node_modify ip w =
     (let w = interfere w in
      rbind (writable_modify (w_rel w) (block_number ip)) (\<lambda>wp.
      rbind (get_item_unchecked (wp_page wp) (offset ip)) (\<lambda>n.
      Inr (wp, n, count record_modify w))))"

definition put_item :: "offset_number \<Rightarrow> 'n \<Rightarrow> 'n page \<Rightarrow> 'n page" where
  "put_item off n p =
     (case p of NewPage \<Rightarrow> NewPage | InitPage q is \<Rightarrow> InitPage q (is[unat off - 1 := n]))"

text \<open>
  \<open>try_set_neighbors_on_disk\<close>, the same for both storages but for the accessors of their nodes.
\<close>

definition try_set_neighbors_with ::
  "('n \<Rightarrow> item_pointer list) \<Rightarrow> (neighbor_with_distance list \<Rightarrow> nat \<Rightarrow> 'n \<Rightarrow> 'n res) \<Rightarrow> nat
     \<Rightarrow> item_pointer \<Rightarrow> item_pointer list \<Rightarrow> neighbor_with_distance list \<Rightarrow> 'n world \<Rightarrow> (bool \<times> 'n world) res" where
  "try_set_neighbors_with iter set_nbrs num_neighbors ip expected neighbors w =
     rbind (rassert (length neighbors \<le> num_neighbors) ''neighbors.len() <= self.num_neighbors'') (\<lambda>_.
     rbind (node_modify ip w) (\<lambda>(wp, node, w).
     if iter node \<noteq> expected then Inr (False, w)
     else if iter node = map n_index_pointer neighbors then Inr (True, count record_unchanged w)
     else
       rbind (set_nbrs neighbors num_neighbors node) (\<lambda>node.
       Inr (True, w\<lparr>w_rel := commit (w_rel w) (wp\<lparr>wp_page := put_item (offset ip) node (wp_page wp)\<rparr>)\<rparr>))))"

section \<open>The storage trait\<close>

text \<open>The operations of the trait that act on nodes; \<open>'d\<close> is the node distance measure.\<close>

record ('n, 'd) disk_ops =
  st_get_labels :: "item_pointer \<Rightarrow> 'n world \<Rightarrow> (label_set option \<times> 'n world) res"
  st_neighbors_from_disk :: "item_pointer \<Rightarrow> 'n world \<Rightarrow> (neighbor_with_distance list \<times> 'n world) res"
  st_try_set :: "item_pointer \<Rightarrow> item_pointer list \<Rightarrow> neighbor_with_distance list \<Rightarrow> 'n world
                   \<Rightarrow> (bool \<times> 'n world) res"
  st_node_dm :: "item_pointer \<Rightarrow> 'n world \<Rightarrow> ('d \<times> 'n world) res"
  st_distance :: "'d \<Rightarrow> item_pointer \<Rightarrow> 'n world \<Rightarrow> (f32 \<times> 'n world) res"

text \<open>The adjacency stored at a pointer, and the relations whose nodes all have \<open>k\<close> slots.\<close>

definition adj_at :: "('n \<Rightarrow> item_pointer list) \<Rightarrow> 'n relation \<Rightarrow> item_pointer \<Rightarrow> item_pointer list option" where
  "adj_at iter rel p = map_option iter (item_at rel p)"

definition nodes_ok :: "('n \<Rightarrow> item_pointer list) \<Rightarrow> nat \<Rightarrow> 'n relation \<Rightarrow> bool" where
  "nodes_ok slots k rel \<longleftrightarrow> (\<forall>p \<in> set rel. \<forall>n \<in> set (items_of p). length (slots n) = k)"

text \<open>
  What other backends are relied on to do: keep the nodes well formed and keep every node with its
  immutable part (vector and labels).
\<close>

definition keeps_nodes :: "('n \<Rightarrow> 'c) \<Rightarrow> 'n relation \<Rightarrow> 'n relation \<Rightarrow> bool" where
  "keeps_nodes core rel rel' \<longleftrightarrow>
     length rel \<le> length rel' \<and>
     (\<forall>b < length rel. \<forall>i < length (items_of (rel ! b)).
        i < length (items_of (rel' ! b)) \<and> core (items_of (rel' ! b) ! i) = core (items_of (rel ! b) ! i))"

definition others_ok :: "('n relation \<Rightarrow> bool) \<Rightarrow> ('n relation \<Rightarrow> 'n relation \<Rightarrow> bool) \<Rightarrow> 'n world \<Rightarrow> bool" where
  "others_ok ok R w \<longleftrightarrow> ok (w_rel w) \<and> (\<forall>f \<in> set (w_others w). \<forall>r. ok r \<longrightarrow> ok (f r) \<and> R r (f r))"

lemma others_ok_same: "same_disk w w' \<Longrightarrow> others_ok ok R w \<Longrightarrow> others_ok ok R w'"
  by (simp add: same_disk_def others_ok_def)

lemma others_ok_interfere: "others_ok ok R w \<Longrightarrow> others_ok ok R (interfere w)"
  by (auto simp: others_ok_def interfere_def split: list.splits)

lemma interfere_others: "length (w_others (interfere w)) = length (w_others w) - 1"
  by (simp add: interfere_def split: list.splits)

lemma interfere_none: "w_others w = [] \<Longrightarrow> interfere w = w"
  by (simp add: interfere_def)

lemma item_at_keeps:
  assumes "keeps_nodes core rel rel'" "item_at rel p = Some n"
  shows "\<exists>n'. item_at rel' p = Some n' \<and> core n' = core n"
proof -
  let ?b = "unat (block_number p)" and ?i = "unat (offset p) - 1"
  have p: "?b < length rel" "1 \<le> unat (offset p)" "unat (offset p) \<le> length (items_of (rel ! ?b))"
    "n = items_of (rel ! ?b) ! ?i"
    using assms(2) by (auto simp: item_at_def get_item_unchecked_def split: if_splits)
  then have "?i < length (items_of (rel ! ?b))" by simp
  then have "?i < length (items_of (rel' ! ?b)) \<and> core (items_of (rel' ! ?b) ! ?i) = core n"
    "?b < length rel'"
    using assms(1) p unfolding keeps_nodes_def by auto
  then show ?thesis using p(2) by (auto simp: item_at_def get_item_unchecked_def)
qed

lemma keeps_nodes_refl [simp]: "keeps_nodes core rel rel"
  by (simp add: keeps_nodes_def)

lemma keeps_nodes_trans: "keeps_nodes core r s \<Longrightarrow> keeps_nodes core s t \<Longrightarrow> keeps_nodes core r t"
  unfolding keeps_nodes_def by (metis order_less_le_trans order_trans)

lemma node_read_Inr:
  "node_read ip w = Inr (n, w') \<longleftrightarrow> item_at (w_rel w) ip = Some n \<and> w' = count record_read w"
  by (auto simp: node_read_def read_buffer_def item_at_def get_item_unchecked_def)

lemma node_modify_Inr:
  "node_modify ip w = Inr (wp, n, w') \<longleftrightarrow>
     item_at (w_rel (interfere w)) ip = Some n \<and>
     wp = \<lparr>wp_block = block_number ip, wp_page = w_rel (interfere w) ! unat (block_number ip)\<rparr> \<and>
     is_ok (read_from_page (wp_page wp)) \<and> w' = count record_modify (interfere w)"
  by (auto simp: node_modify_def writable_modify_Inr item_at_def get_item_unchecked_def Let_def is_ok_iff)

text \<open>Replacing a node in place.\<close>

lemma items_of_put_item: "items_of (put_item off n p) = (items_of p)[unat off - 1 := n]"
  by (simp add: put_item_def items_of_def split: page.splits)

lemma put_node:
  assumes it: "item_at rel ip = Some old"
    and wp: "wp = \<lparr>wp_block = block_number ip, wp_page = put_item (offset ip) n (rel ! unat (block_number ip))\<rparr>"
  shows "item_at (commit rel wp) q = (if q = ip then Some n else item_at rel q)"
    and "core n = core old \<Longrightarrow> keeps_nodes core rel (commit rel wp)"
    and "nodes_ok slots k rel \<Longrightarrow> length (slots n) = k \<Longrightarrow> nodes_ok slots k (commit rel wp)"
    and "rel_inv rel \<Longrightarrow> rel_inv (commit rel wp)"
proof -
  let ?b = "unat (block_number ip)" and ?i = "unat (offset ip) - 1"
  have b: "?b < length rel" and o: "1 \<le> unat (offset ip)" "unat (offset ip) \<le> length (items_of (rel ! ?b))"
    and old: "items_of (rel ! ?b) ! ?i = old"
    using it by (auto simp: item_at_def get_item_unchecked_def split: if_splits)
  have c: "commit rel wp = rel[?b := put_item (offset ip) n (rel ! ?b)]" by (simp add: wp commit_def)
  show "item_at (commit rel wp) q = (if q = ip then Some n else item_at rel q)"
  proof (cases "unat (block_number q) = ?b")
    case True
    have "unat (offset q) - 1 \<noteq> ?i" if "q \<noteq> ip" "1 \<le> unat (offset q)"
    proof
      assume "unat (offset q) - 1 = ?i"
      then have "unat (offset q) = unat (offset ip)" using that(2) o(1) by simp
      then show False using that(1) True by (cases q; cases ip) (simp add: word_unat_eq_iff)
    qed
    then show ?thesis
      using True b o unfolding c
      by (auto simp: item_at_def get_item_unchecked_def items_of_put_item nth_list_update)
  next
    case False
    then show ?thesis unfolding c by (auto simp: item_at_def)
  qed
  show "keeps_nodes core rel (commit rel wp)" if "core n = core old"
  proof -
    have "core ((items_of (rel ! ?b))[?i := n] ! i) = core (items_of (rel ! ?b) ! i)"
      if "i < length (items_of (rel ! ?b))" for i
      using that \<open>core n = core old\<close> old by (cases "i = ?i") simp_all
    then show ?thesis
      unfolding c keeps_nodes_def using b by (auto simp: nth_list_update items_of_put_item)
  qed
  show "nodes_ok slots k (commit rel wp)" if "nodes_ok slots k rel" "length (slots n) = k"
    unfolding nodes_ok_def c
  proof (intro ballI)
    fix p x assume p: "p \<in> set (rel[?b := put_item (offset ip) n (rel ! ?b)])" "x \<in> set (items_of p)"
    then consider "p \<in> set rel" | "p = put_item (offset ip) n (rel ! ?b)"
      using set_update_subset_insert [of rel] by blast
    then show "length (slots x) = k"
    proof cases
      case 2
      then have "x = n \<or> x \<in> set (items_of (rel ! ?b))"
        using p(2) set_update_subset_insert [of "items_of (rel ! ?b)"] by (auto simp: items_of_put_item)
      then show ?thesis using that b nth_mem [OF b] by (auto simp: nodes_ok_def)
    qed (use p that in \<open>auto simp: nodes_ok_def\<close>)
  qed
  show "rel_inv (commit rel wp)" if "rel_inv rel"
  proof -
    have "page_inv (put_item (offset ip) n (rel ! ?b))"
      using rel_inv_nth [OF that b] by (auto simp: page_inv_def put_item_def split: page.splits)
    then show ?thesis
      using that unfolding c rel_inv_def by (auto dest!: set_update_subset_insert [THEN subsetD])
  qed
qed

end
