(* ===== verification/Prune.thy ===== *)
theory Prune
  imports Storage
begin

text \<open>
  \<open>Graph::prune_neighbors\<close> (\<open>graph/mod.rs\<close>): of the candidates of a node, sorted by distance, keep
  those that are not closer to an already kept one, by a factor \<open>alpha\<close> that grows by 1.2 while
  there is room. On a labelled node, a kept neighbour only occludes candidates whose labels in
  common with the node it has itself.
\<close>

section \<open>Pruning\<close>

text \<open>One step of the inner loop: candidate \<open>j\<close> against the neighbour just kept.\<close>

definition prune_candidate ::
  "('n, 'd) disk_ops \<Rightarrow> f64 \<Rightarrow> label_set option \<Rightarrow> neighbor_with_distance list \<Rightarrow> neighbor_with_distance \<Rightarrow> 'd
     \<Rightarrow> nat \<Rightarrow> f64 list \<times> 'n world \<Rightarrow> (f64 list \<times> 'n world) res" where
  "prune_candidate st max_alpha ls candidates existing dist_state j = (\<lambda>(max_factors, w).
     let candidate = candidates ! j in
     if f64_lt max_alpha (max_factors ! j) then Inr (max_factors, w)
     else
       rbind (case ls of
                None \<Rightarrow> Inr True
              | Some node_labels \<Rightarrow>
                  rbind (runwrap (n_labels existing) ''unwrap'') (\<lambda>el.
                  rbind (runwrap (n_labels candidate) ''unwrap'') (\<lambda>cl.
                  Inr (contains_intersection el cl node_labels)))) (\<lambda>occludes.
       if \<not> occludes then Inr (max_factors, w)
       else
         rbind (st_distance st dist_state (n_index_pointer candidate) w) (\<lambda>(raw_distance, w).
         rbind (dwt_new raw_distance (n_index_pointer candidate) (n_index_pointer existing)) (\<lambda>d.
         let factor = get_factor (n_distance candidate) d in
         Inr (max_factors[j := f64_max (max_factors ! j) factor], w)))))"

text \<open>
  One pass over the candidates from index \<open>i\<close> on. The first component of the result tells whether
  the pass returned from the function because the results were full.
\<close>

fun prune_pass ::
  "('n, 'd) disk_ops \<Rightarrow> f64 \<Rightarrow> nat \<Rightarrow> label_set option \<Rightarrow> neighbor_with_distance list \<Rightarrow> f64 \<Rightarrow> nat list
     \<Rightarrow> neighbor_with_distance list \<Rightarrow> f64 list \<Rightarrow> 'n world
     \<Rightarrow> (bool \<times> neighbor_with_distance list \<times> f64 list \<times> 'n world) res" where
  "prune_pass st max_alpha num_neighbors ls candidates alpha [] results max_factors w =
     Inr (False, results, max_factors, w)"
| "prune_pass st max_alpha num_neighbors ls candidates alpha (i # is) results max_factors w =
     (if length results \<ge> num_neighbors then Inr (True, results, max_factors, w)
      else if f64_lt alpha (max_factors ! i) then
        prune_pass st max_alpha num_neighbors ls candidates alpha is results max_factors w
      else
        let neighbor = candidates ! i;
            max_factors = max_factors[i := f64_max_value];
            results = results @ [neighbor]
        in rbind (st_node_dm st (n_index_pointer neighbor) w) (\<lambda>(dist_state, w).
           rbind (rfold (prune_candidate st max_alpha ls candidates neighbor dist_state)
                    [i + 1..<length candidates] (max_factors, w)) (\<lambda>(max_factors, w).
           prune_pass st max_alpha num_neighbors ls candidates alpha is results max_factors w)))"

definition f64_1_2 :: f64 where
  "f64_1_2 = 0x3FF3333333333333"

definition scale_alpha :: "f64 \<Rightarrow> f64" where
  "scale_alpha alpha = f64_mul alpha f64_1_2"

fun prune_rounds ::
  "('n, 'd) disk_ops \<Rightarrow> f64 \<Rightarrow> nat \<Rightarrow> label_set option \<Rightarrow> neighbor_with_distance list \<Rightarrow> nat \<Rightarrow> f64
     \<Rightarrow> neighbor_with_distance list \<Rightarrow> f64 list \<Rightarrow> 'n world
     \<Rightarrow> (neighbor_with_distance list \<times> 'n world) res" where
  "prune_rounds st max_alpha num_neighbors ls candidates fuel alpha results max_factors w =
     (if f64_le alpha max_alpha \<and> length results < num_neighbors then
        (case fuel of
           0 \<Rightarrow> Inl OutOfFuel
         | Suc fuel \<Rightarrow>
             rbind (prune_pass st max_alpha num_neighbors ls candidates alpha [0..<length candidates]
                      results max_factors w) (\<lambda>(returned, results, max_factors, w).
             if returned then Inr (results, w)
             else prune_rounds st max_alpha num_neighbors ls candidates fuel (scale_alpha alpha)
                    results max_factors w))
      else
        Inr (results, count (\<lambda>s. s\<lparr>num_neighbors_after_prune := num_neighbors_after_prune s + length results\<rparr>) w))"

declare prune_rounds.simps [simp del]

text \<open>\<open>max_alpha\<close> is at most 5 (the bound of the index option): \<open>alpha\<close> exceeds it after nine rounds.\<close>

definition prune_fuel :: nat where
  "prune_fuel = 10"

definition prune_neighbors ::
  "('n, 'd) disk_ops \<Rightarrow> f64 \<Rightarrow> nat \<Rightarrow> label_set option \<Rightarrow> neighbor_with_distance list \<Rightarrow> 'n world
     \<Rightarrow> (neighbor_with_distance list \<times> 'n world) res" where
  "prune_neighbors st max_alpha num_neighbors ls candidates w =
     (let w = count (\<lambda>s. s\<lparr>prune_calls := prune_calls s + 1,
                num_neighbors_before_prune := num_neighbors_before_prune s + length candidates\<rparr>) w;
          candidates = sort_neighbors candidates;
          max_factors = replicate (length candidates) f64_zero
      in prune_rounds st max_alpha num_neighbors ls candidates prune_fuel f64_one [] max_factors w)"

section \<open>What a kept neighbour occludes\<close>

text \<open>
  By labels: on a labelled node, a kept neighbour stands for a candidate only when it has the labels
  that the candidate shares with the node.
\<close>

definition occludes :: "label_set option \<Rightarrow> neighbor_with_distance \<Rightarrow> neighbor_with_distance \<Rightarrow> bool" where
  "occludes ls e c =
     (case ls of
        None \<Rightarrow> True
      | Some node_labels \<Rightarrow>
          (case (n_labels e, n_labels c) of
             (Some el, Some cl) \<Rightarrow> contains_intersection el cl node_labels
           | _ \<Rightarrow> False))"

text \<open>
  By distance: the factor of a candidate \<open>c\<close> against a kept neighbour \<open>e\<close>, with \<open>x\<close> the distance
  between them, is the distance of \<open>c\<close> from the node over \<open>x\<close>; when both are zero it is the quotient
  of the tie breaks, and when only \<open>x\<close> is, it is as large as can be. \<open>D\<close> gives the distance between
  two nodes.
\<close>

type_synonym node_distances = "item_pointer \<Rightarrow> item_pointer \<Rightarrow> f32 option"

definition occlusion_factor :: "f32 \<Rightarrow> neighbor_with_distance \<Rightarrow> neighbor_with_distance \<Rightarrow> f64" where
  "occlusion_factor x e c =
     (if \<not> f32_lt x f32_epsilon then f64_div (f64_of_f32 (distance (n_distance c))) (f64_of_f32 x)
      else if \<not> f32_lt (distance (n_distance c)) f32_epsilon then f64_max_value
      else f64_div (f64_of_nat (get_distance_tie_break (n_distance c)))
             (f64_of_nat (ip_distance (n_index_pointer c) (n_index_pointer e))))"

definition factor_of :: "node_distances \<Rightarrow> neighbor_with_distance \<Rightarrow> neighbor_with_distance \<Rightarrow> f64 option" where
  "factor_of D e c =
     map_option (\<lambda>x. occlusion_factor x e c) (D (n_index_pointer e) (n_index_pointer c))"

definition occluded :: "node_distances \<Rightarrow> label_set option \<Rightarrow> f64 \<Rightarrow> neighbor_with_distance \<Rightarrow> neighbor_with_distance \<Rightarrow> bool" where
  "occluded D ls alpha e c \<longleftrightarrow> occludes ls e c \<and> (\<exists>f. factor_of D e c = Some f \<and> f64_lt alpha f)"

definition spared :: "node_distances \<Rightarrow> label_set option \<Rightarrow> f64 \<Rightarrow> neighbor_with_distance \<Rightarrow> neighbor_with_distance \<Rightarrow> bool" where
  "spared D ls alpha e c \<longleftrightarrow> (occludes ls e c \<longrightarrow> (\<exists>f. factor_of D e c = Some f \<and> \<not> f64_lt alpha f))"

lemma factor_step:
  assumes "D (n_index_pointer e) (n_index_pointer c) = Some x" "dwt_new x (n_index_pointer c) (n_index_pointer e) = Inr d"
  shows "factor_of D e c = Some (get_factor (n_distance c) d)"
  using assms by (auto simp: factor_of_def occlusion_factor_def get_factor_def dwt_new_Inr get_distance_tie_break_def)

text \<open>
  What pruning returns: at most \<open>num\<close> candidates, the closest first. If there is room left, the last
  round was run with the largest \<open>alpha\<close> that \<open>max_alpha\<close> admits, and every candidate it left out is
  occluded, beyond that factor, by a kept one at most as far away. Every kept one is spared by the
  closer ones kept before it: its factor against them is not beyond \<open>max_alpha\<close>.
\<close>

definition pruned_to ::
  "node_distances \<Rightarrow> label_set option \<Rightarrow> f64 \<Rightarrow> nat \<Rightarrow> neighbor_with_distance list \<Rightarrow> neighbor_with_distance list \<Rightarrow> bool" where
  "pruned_to D ls max_alpha num cands ns \<longleftrightarrow>
     length ns \<le> num \<and> mset ns \<subseteq># mset cands \<and>
     (f64_le f64_one max_alpha \<longrightarrow> 0 < num \<longrightarrow> cands \<noteq> [] \<longrightarrow> (\<exists>rest. ns = hd (sort_neighbors cands) # rest)) \<and>
     (f64_le f64_one max_alpha \<longrightarrow> length ns < num \<longrightarrow>
        (\<exists>n. let alpha = (scale_alpha ^^ n) f64_one in
           f64_le alpha max_alpha \<and> \<not> f64_le (scale_alpha alpha) max_alpha \<and>
           (\<forall>c \<in> set cands. c \<in> set ns \<or> (\<exists>e \<in> set ns. nwd_cmp e c \<noteq> Greater \<and> occluded D ls alpha e c)))) \<and>
     (\<forall>i j. i < j \<longrightarrow> j < length ns \<longrightarrow> nwd_cmp (ns ! i) (ns ! j) = Less \<longrightarrow>
        spared D ls max_alpha (ns ! i) (ns ! j))"

text \<open>Distances that are once known stay; so does what pruning has promised of them.\<close>

definition dist_le :: "node_distances \<Rightarrow> node_distances \<Rightarrow> bool" where
  "dist_le D D' \<longleftrightarrow> (\<forall>p q x. D p q = Some x \<longrightarrow> D' p q = Some x)"

lemma dist_le_refl [simp]: "dist_le D D"
  by (simp add: dist_le_def)

lemma dist_le_trans: "dist_le D E \<Longrightarrow> dist_le E F \<Longrightarrow> dist_le D F"
  by (simp add: dist_le_def)

lemma pruned_to_mono:
  assumes "dist_le D D'" "pruned_to D ls max_alpha num cands ns"
  shows "pruned_to D' ls max_alpha num cands ns"
proof -
  have f: "factor_of D e c = Some f \<Longrightarrow> factor_of D' e c = Some f" for e c f
    using assms(1) by (auto simp: factor_of_def dist_le_def)
  have "occluded D ls a e c \<Longrightarrow> occluded D' ls a e c" "spared D ls a e c \<Longrightarrow> spared D' ls a e c" for a e c
    using f unfolding occluded_def spared_def by blast+
  note mono = this
  note p = assms(2) [unfolded pruned_to_def Let_def]
  note p3 = p [THEN conjunct2, THEN conjunct2]
  show ?thesis
    unfolding pruned_to_def Let_def
  proof (intro conjI)
    show "f64_le f64_one max_alpha \<longrightarrow> length ns < num \<longrightarrow>
        (\<exists>n. f64_le ((scale_alpha ^^ n) f64_one) max_alpha \<and> \<not> f64_le (scale_alpha ((scale_alpha ^^ n) f64_one)) max_alpha \<and>
           (\<forall>c \<in> set cands. c \<in> set ns \<or> (\<exists>e \<in> set ns. nwd_cmp e c \<noteq> Greater \<and> occluded D' ls ((scale_alpha ^^ n) f64_one) e c)))"
      using p3 [THEN conjunct2, THEN conjunct1] mono(1) by blast
    show "\<forall>i j. i < j \<longrightarrow> j < length ns \<longrightarrow> nwd_cmp (ns ! i) (ns ! j) = Less \<longrightarrow> spared D' ls max_alpha (ns ! i) (ns ! j)"
      using p3 [THEN conjunct2, THEN conjunct2] mono(2) by blast
  qed (rule p [THEN conjunct1] p [THEN conjunct2, THEN conjunct1] p3 [THEN conjunct1])+
qed

section \<open>The invariant of the loops\<close>

definition covered :: "node_distances \<Rightarrow> label_set option \<Rightarrow> f64 \<Rightarrow> neighbor_with_distance list \<Rightarrow> nat list \<Rightarrow> nat \<Rightarrow> bool" where
  "covered D ls alpha cs sel i \<longleftrightarrow> (\<exists>e \<in> set sel. e < i \<and> occluded D ls alpha (cs ! e) (cs ! i))"

text \<open>
  The factor \<open>x\<close> of a candidate that is not kept: the largest of its factors against the kept
  neighbours before it that occlude it by labels, or at least one beyond \<open>max_alpha\<close>.
\<close>

definition weighed :: "node_distances \<Rightarrow> label_set option \<Rightarrow> f64 \<Rightarrow> neighbor_with_distance list \<Rightarrow> nat list \<Rightarrow> nat \<Rightarrow> f64 \<Rightarrow> bool" where
  "weighed D ls max_alpha cs sel i x \<longleftrightarrow>
     \<not> f64_is_nan x \<and>
     (x = f64_zero \<or> (\<exists>e \<in> set sel. e < i \<and> occludes ls (cs ! e) (cs ! i) \<and> factor_of D (cs ! e) (cs ! i) = Some x)) \<and>
     (\<forall>e \<in> set sel. e < i \<longrightarrow> occludes ls (cs ! e) (cs ! i) \<longrightarrow>
        f64_lt max_alpha x \<or> (\<exists>f. factor_of D (cs ! e) (cs ! i) = Some f \<and> \<not> f64_lt x f))"

text \<open>Every kept candidate is spared by those kept before it and closer.\<close>

definition apart :: "node_distances \<Rightarrow> label_set option \<Rightarrow> f64 \<Rightarrow> neighbor_with_distance list \<Rightarrow> nat list \<Rightarrow> bool" where
  "apart D ls max_alpha cs sel \<longleftrightarrow>
     sorted_wrt (\<lambda>e i. e < i \<longrightarrow> spared D ls max_alpha (cs ! e) (cs ! i)) sel"

text \<open>
  The state of the loops: the results are the candidates at the indices \<open>sel\<close>, whose factors are
  the maximum; every other candidate is weighed.
\<close>

definition prune_inv :: "node_distances \<Rightarrow> label_set option \<Rightarrow> f64 \<Rightarrow> neighbor_with_distance list \<Rightarrow> nat list \<Rightarrow> f64 list \<Rightarrow> bool" where
  "prune_inv D ls max_alpha cs sel mf \<longleftrightarrow>
     length mf = length cs \<and> distinct sel \<and> set sel \<subseteq> {..<length cs} \<and> apart D ls max_alpha cs sel \<and>
     (\<forall>i \<in> set sel. mf ! i = f64_max_value) \<and>
     (\<forall>i < length cs. i \<notin> set sel \<longrightarrow> weighed D ls max_alpha cs sel i (mf ! i))"

lemma covered_mono: "covered D ls alpha cs sel i \<Longrightarrow> set sel \<subseteq> set sel' \<Longrightarrow> covered D ls alpha cs sel' i"
  by (auto simp: covered_def)

lemma weighed_covered:
  "weighed D ls max_alpha cs sel i x \<Longrightarrow> f64_lt alpha x \<Longrightarrow> x \<noteq> f64_zero \<Longrightarrow> covered D ls alpha cs sel i"
  by (auto simp: weighed_def covered_def occluded_def)

lemma prune_inv_start [simp]: "prune_inv D ls max_alpha cs [] (replicate (length cs) f64_zero)"
  by (simp add: prune_inv_def weighed_def apart_def)

text \<open>A candidate whose factor is not beyond \<open>alpha\<close> may be kept: nothing kept occludes it.\<close>

lemma weighed_apart:
  assumes "weighed D ls max_alpha cs sel i x" "\<not> f64_lt alpha x" "f64_le alpha max_alpha" "apart D ls max_alpha cs sel"
  shows "apart D ls max_alpha cs (sel @ [i])"
proof -
  have "spared D ls max_alpha (cs ! e) (cs ! i)" if e: "e \<in> set sel" "e < i" for e
    unfolding spared_def
  proof
    assume o: "occludes ls (cs ! e) (cs ! i)"
    have "\<not> f64_lt max_alpha x" using assms(2) f64_le_lt_trans [OF assms(3)] by blast
    then obtain f where f: "factor_of D (cs ! e) (cs ! i) = Some f" "\<not> f64_lt x f"
      using assms(1) e o by (auto simp: weighed_def)
    have "\<not> f64_lt max_alpha f"
      using f64_not_lt_trans [OF assms(2) f(2) _ assms(3)] assms(1) by (simp add: weighed_def)
    with f(1) show "\<exists>f. factor_of D (cs ! e) (cs ! i) = Some f \<and> \<not> f64_lt max_alpha f" by blast
  qed
  then show ?thesis using assms(4) by (simp add: apart_def sorted_wrt_append)
qed

text \<open>One more kept neighbour, of a factor that has been taken into account or need not be.\<close>

lemma weighed_later:
  assumes "weighed D ls max_alpha cs sel j x" "f64_lt max_alpha x \<or> j \<le> i \<or> \<not> occludes ls (cs ! i) (cs ! j)"
  shows "weighed D ls max_alpha cs (sel @ [i]) j x"
  using assms by (auto simp: weighed_def)

lemma weighed_max:
  assumes "weighed D ls max_alpha cs sel j x" "occludes ls (cs ! i) (cs ! j)" "i < j"
    and f: "factor_of D (cs ! i) (cs ! j) = Some f"
  shows "weighed D ls max_alpha cs (sel @ [i]) j (f64_max x f)"
proof -
  have nan: "\<not> f64_is_nan x" using assms(1) by (simp add: weighed_def)
  note up = f64_max_upper [OF nan]
  have "f64_max x f = x \<or> f64_max x f = f" by (auto simp: f64_max_cases)
  moreover have "f64_lt max_alpha (f64_max x f) \<or> (\<exists>g. factor_of D (cs ! e) (cs ! j) = Some g \<and> \<not> f64_lt (f64_max x f) g)"
    if "e \<in> set sel" "e < j" "occludes ls (cs ! e) (cs ! j)" for e
    using assms(1) that up(3,4) unfolding weighed_def by blast
  ultimately show ?thesis
    using assms up(1,2) unfolding weighed_def by auto
qed

text \<open>
  The reads of the storage change no page and keep an invariant of the world; the distance that a
  node's distance measure gives is \<open>dist_at\<close>.
\<close>

locale disk_reads =
  fixes st :: "('n, 'd) disk_ops" and winv :: "'n world \<Rightarrow> bool" and dist_at :: "'n relation \<Rightarrow> node_distances"
  assumes winv_count: "winv (w\<lparr>w_stats := s\<rparr>) = winv w"
    and node_dm: "winv w \<Longrightarrow> st_node_dm st p w = Inr (d, w') \<Longrightarrow> winv w' \<and> same_disk w w'"
    and distance: "winv w \<Longrightarrow> st_distance st d p w = Inr (x, w') \<Longrightarrow> winv w' \<and> same_disk w w'"
    and measured: "winv w \<Longrightarrow> st_node_dm st p w = Inr (d, w') \<Longrightarrow> winv v \<Longrightarrow> w_rel v = w_rel w \<Longrightarrow>
      st_distance st d q v = Inr (x, v') \<Longrightarrow> dist_at (w_rel w) p q = Some x"
    and node_dm_fuel: "st_node_dm st p w \<noteq> Inl OutOfFuel"
    and distance_fuel: "st_distance st d p w \<noteq> Inl OutOfFuel"
begin

text \<open>The distance measure \<open>d\<close> of the node \<open>p\<close>, as the storage gives it on the relation \<open>rel\<close>.\<close>

definition measures :: "'n relation \<Rightarrow> item_pointer \<Rightarrow> 'd \<Rightarrow> bool" where
  "measures rel p d \<longleftrightarrow> (\<forall>v q x v'. winv v \<longrightarrow> w_rel v = rel \<longrightarrow> st_distance st d q v = Inr (x, v') \<longrightarrow>
     dist_at rel p q = Some x)"

lemma node_dm_measures: "winv w \<Longrightarrow> st_node_dm st p w = Inr (d, w') \<Longrightarrow> measures (w_rel w) p d"
  using measured unfolding measures_def by metis

text \<open>One candidate: its factor alone changes, and takes the new neighbour into account.\<close>

lemma prune_candidate_facts:
  assumes c: "prune_candidate st max_alpha ls cs (cs ! i) ds j (mf, w) = Inr (mf', w')"
    and inv: "j \<notin> set sel \<Longrightarrow> weighed (dist_at (w_rel w)) ls max_alpha cs sel j (mf ! j)" "j \<in> set sel \<Longrightarrow> mf ! j = f64_max_value"
    and j: "i < j" and ds: "measures (w_rel w) (n_index_pointer (cs ! i)) ds"
    and big: "f64_lt max_alpha f64_max_value" and w: "winv w"
  shows "(\<exists>x. mf' = mf[j := x] \<and> (if j \<in> set sel then x = mf ! j
      else weighed (dist_at (w_rel w)) ls max_alpha cs (sel @ [i]) j x)) \<and> winv w' \<and> same_disk w w'"
proof (cases "f64_lt max_alpha (mf ! j) \<or> \<not> occludes ls (cs ! i) (cs ! j)")
  case True
  then have "mf' = mf[j := mf ! j]" "w' = w"
    using c by (auto simp: prune_candidate_def occludes_def Let_def split: option.splits if_splits)
  then show ?thesis using w inv(1) True by (intro conjI exI [of _ "mf ! j"]) (auto intro: weighed_later)
next
  case False
  then have js: "j \<notin> set sel" using inv(2) big by auto
  from False c obtain x d v where x: "st_distance st ds (n_index_pointer (cs ! j)) w = Inr (x, v)"
    and d: "dwt_new x (n_index_pointer (cs ! j)) (n_index_pointer (cs ! i)) = Inr d"
    and e: "mf' = mf[j := f64_max (mf ! j) (get_factor (n_distance (cs ! j)) d)]" "w' = v"
    by (auto simp: prune_candidate_def occludes_def Let_def split: option.splits if_splits)
  have "dist_at (w_rel w) (n_index_pointer (cs ! i)) (n_index_pointer (cs ! j)) = Some x"
    using ds x w unfolding measures_def by blast
  note f = factor_step [of "dist_at (w_rel w)", OF this d]
  have "weighed (dist_at (w_rel w)) ls max_alpha cs (sel @ [i]) j (f64_max (mf ! j) (get_factor (n_distance (cs ! j)) d))"
    using weighed_max [OF inv(1) _ j f] js False by blast
  then show ?thesis using e js distance [OF w x] by auto
qed

text \<open>The inner loop: the candidates after the new neighbour, each once.\<close>

lemma inner_facts:
  assumes "rfold (prune_candidate st max_alpha ls cs (cs ! i) ds) js (mf, w) = Inr (mf', w')"
    and "\<And>j. j \<in> set js \<Longrightarrow> j \<notin> set sel \<Longrightarrow> weighed (dist_at (w_rel w)) ls max_alpha cs sel j (mf ! j)"
    and "\<And>j. j \<in> set sel \<Longrightarrow> mf ! j = f64_max_value"
    and "distinct js" "\<And>j. j \<in> set js \<Longrightarrow> i < j \<and> j < length mf" "measures (w_rel w) (n_index_pointer (cs ! i)) ds"
    and "f64_lt max_alpha f64_max_value" "winv w"
  shows "length mf' = length mf \<and> (\<forall>j. if j \<in> set js - set sel then weighed (dist_at (w_rel w)) ls max_alpha cs (sel @ [i]) j (mf' ! j)
      else mf' ! j = mf ! j) \<and> winv w' \<and> same_disk w w'"
  using assms
proof (induction js arbitrary: mf w)
  case (Cons j js)
  obtain m v where st: "prune_candidate st max_alpha ls cs (cs ! i) ds j (mf, w) = Inr (m, v)"
    and rest: "rfold (prune_candidate st max_alpha ls cs (cs ! i) ds) js (m, v) = Inr (mf', w')"
    using Cons.prems(1) by auto
  have j: "i < j" "j < length mf" "j \<notin> set js" using Cons.prems(4,5) by auto
  obtain x where x: "m = mf[j := x]" "if j \<in> set sel then x = mf ! j
      else weighed (dist_at (w_rel w)) ls max_alpha cs (sel @ [i]) j x" "winv v" "same_disk w v"
    using prune_candidate_facts [OF st _ _ j(1) Cons.prems(6-8)] Cons.prems(2,3) by auto
  have rel: "w_rel v = w_rel w" using x(4) by (simp add: same_disk_def)
  have at: "m ! l = (if l = j then x else mf ! l)" for l using j(2) x(1) by simp
  have "length mf' = length m \<and> (\<forall>l. if l \<in> set js - set sel then weighed (dist_at (w_rel v)) ls max_alpha cs (sel @ [i]) l (mf' ! l)
      else mf' ! l = m ! l) \<and> winv w' \<and> same_disk v w'"
  proof (rule Cons.IH [OF rest])
    show "weighed (dist_at (w_rel v)) ls max_alpha cs sel l (m ! l)" if "l \<in> set js" "l \<notin> set sel" for l
      using that Cons.prems(2) j(3) unfolding at rel by auto
    show "m ! l = f64_max_value" if "l \<in> set sel" for l using that Cons.prems(3) x(2) unfolding at by auto
  qed (use Cons.prems x rel in auto)
  then have ih: "length mf' = length mf" "winv w'" "same_disk v w'"
    "\<And>l. if l \<in> set js - set sel then weighed (dist_at (w_rel w)) ls max_alpha cs (sel @ [i]) l (mf' ! l)
      else mf' ! l = (if l = j then x else mf ! l)"
    unfolding at rel using x(1) by auto
  have "same_disk w w'" using x(4) ih(3) same_disk_trans by blast
  moreover have "if l \<in> set (j # js) - set sel then weighed (dist_at (w_rel w)) ls max_alpha cs (sel @ [i]) l (mf' ! l)
      else mf' ! l = mf ! l" for l
    using ih(4) [of l] x(2) j(3) by (cases "l = j") (auto split: if_splits)
  ultimately show ?case using ih(1,2) by blast
qed simp

text \<open>A candidate is kept and the others are weighed against it.\<close>

lemma prune_keep_facts:
  assumes run: "rfold (prune_candidate st max_alpha ls cs (cs ! i) ds) [i + 1..<length cs] (mf[i := f64_max_value], w) = Inr (mf', w')"
    and inv: "prune_inv (dist_at (w_rel w)) ls max_alpha cs sel mf" and i: "i < length cs" "i \<notin> set sel"
    and al: "\<not> f64_lt alpha (mf ! i)" "f64_le alpha max_alpha" and ds: "measures (w_rel w) (n_index_pointer (cs ! i)) ds"
    and big: "f64_lt max_alpha f64_max_value" and w: "winv w"
  shows "prune_inv (dist_at (w_rel w)) ls max_alpha cs (sel @ [i]) mf' \<and> winv w' \<and> same_disk w w'"
proof -
  let ?D = "dist_at (w_rel w)" and ?mf = "mf[i := f64_max_value]"
  have wi: "weighed ?D ls max_alpha cs sel l (mf ! l)" if "l < length cs" "l \<notin> set sel" for l
    using inv that by (simp add: prune_inv_def)
  have len: "length mf = length cs" and sel: "\<And>l. l \<in> set sel \<Longrightarrow> mf ! l = f64_max_value" "distinct sel" "set sel \<subseteq> {..<length cs}"
    and ap: "apart ?D ls max_alpha cs sel"
    using inv by (auto simp: prune_inv_def)
  have at: "?mf ! l = (if l = i then f64_max_value else mf ! l)" for l using i(1) len by simp
  have f: "length mf' = length ?mf \<and> (\<forall>j. if j \<in> set [i + 1..<length cs] - set sel then weighed ?D ls max_alpha cs (sel @ [i]) j (mf' ! j)
      else mf' ! j = ?mf ! j) \<and> winv w' \<and> same_disk w w'"
    by (rule inner_facts [OF run _ _ _ _ ds big w]) (use wi sel(1) len at i in auto)
  have "weighed ?D ls max_alpha cs (sel @ [i]) l (mf' ! l)" if l: "l < length cs" "l \<notin> set (sel @ [i])" for l
  proof (cases "i < l")
    case True
    then show ?thesis using f [THEN conjunct2, THEN conjunct1, THEN spec, of l] l by simp
  next
    case False
    then have "mf' ! l = mf ! l" using f [THEN conjunct2, THEN conjunct1, THEN spec, of l] l at [of l] by simp
    then show ?thesis using weighed_later [OF wi] False l by simp
  qed
  moreover have "mf' ! l = f64_max_value" if "l \<in> set (sel @ [i])" for l
    using f [THEN conjunct2, THEN conjunct1, THEN spec, of l] that sel(1) [of l] at [of l] by (auto split: if_splits)
  moreover have "apart ?D ls max_alpha cs (sel @ [i])" by (rule weighed_apart [OF wi [OF i] al ap])
  ultimately show ?thesis
    using f len sel(2,3) i unfolding prune_inv_def by auto
qed

lemma prune_pass_facts:
  assumes "prune_pass st max_alpha num ls cs alpha is (map ((!) cs) sel) mf w = Inr (ret, results, mf', w')"
    and "prune_inv (dist_at (w_rel w)) ls max_alpha cs sel mf" "set is \<subseteq> {..<length cs}" "winv w"
    and "f64_lt max_alpha f64_max_value" "f64_le alpha max_alpha" "\<not> f64_lt alpha f64_zero"
  shows "\<exists>new. results = map ((!) cs) (sel @ new) \<and> prune_inv (dist_at (w_rel w)) ls max_alpha cs (sel @ new) mf' \<and> winv w' \<and> same_disk w w'
    \<and> (length sel \<le> num \<longrightarrow> length (sel @ new) \<le> num)
    \<and> (if ret then num \<le> length (sel @ new)
       else (\<forall>i \<in> set is. i \<in> set (sel @ new) \<or> covered (dist_at (w_rel w)) ls alpha cs (sel @ new) i))
    \<and> (sel = [] \<and> is \<noteq> [] \<and> 0 < num \<longrightarrow> (\<exists>rest. new = hd is # rest))"
  using assms
proof (induction "is" arbitrary: sel mf w)
  case Nil
  then show ?case by (intro exI [of _ "[]"]) auto
next
  case (Cons i "is")
  let ?D = "dist_at (w_rel w)"
  have i: "i < length cs" using Cons.prems(3) by simp
  consider (full) "num \<le> length sel" | (skip) "length sel < num" "f64_lt alpha (mf ! i)"
    | (keep) "length sel < num" "\<not> f64_lt alpha (mf ! i)" by linarith
  then show ?case
  proof cases
    case full
    then show ?thesis using Cons.prems by (intro exI [of _ "[]"]) auto
  next
    case skip
    have "prune_pass st max_alpha num ls cs alpha is (map ((!) cs) sel) mf w = Inr (ret, results, mf', w')"
      using Cons.prems(1) skip by simp
    from Cons.IH [OF this Cons.prems(2)] Cons.prems obtain new where n:
      "results = map ((!) cs) (sel @ new)" "prune_inv ?D ls max_alpha cs (sel @ new) mf'" "winv w'" "same_disk w w'"
      "length sel \<le> num \<longrightarrow> length (sel @ new) \<le> num"
      "if ret then num \<le> length (sel @ new)
       else (\<forall>i \<in> set is. i \<in> set (sel @ new) \<or> covered ?D ls alpha cs (sel @ new) i)" by auto
    have "mf ! i \<noteq> f64_zero" using skip Cons.prems(7) by auto
    then have "i \<in> set sel \<or> covered ?D ls alpha cs sel i"
      using Cons.prems(2) i weighed_covered [OF _ skip(2)] by (auto simp: prune_inv_def)
    then have "i \<in> set (sel @ new) \<or> covered ?D ls alpha cs (sel @ new) i" "sel \<noteq> []"
      using covered_mono [of ?D ls alpha cs sel i "sel @ new"] by (auto simp: covered_def)
    then show ?thesis using n by (intro exI [of _ new]) auto
  next
    case keep
    have "f64_lt alpha f64_max_value" using f64_le_lt_trans [OF Cons.prems(6,5)] .
    then have is': "i \<notin> set sel" using keep(2) Cons.prems(2) by (auto simp: prune_inv_def)
    obtain ds w1 m2 w2 where steps: "st_node_dm st (n_index_pointer (cs ! i)) w = Inr (ds, w1)"
      "rfold (prune_candidate st max_alpha ls cs (cs ! i) ds) [i + 1..<length cs] (mf[i := f64_max_value], w1) = Inr (m2, w2)"
      "prune_pass st max_alpha num ls cs alpha is (map ((!) cs) (sel @ [i])) m2 w2 = Inr (ret, results, mf', w')"
      using Cons.prems(1) keep by (auto simp: Let_def)
    have w1: "winv w1" "same_disk w w1" using node_dm [OF Cons.prems(4) steps(1)] by auto
    then have rel1: "w_rel w1 = w_rel w" by (simp add: same_disk_def)
    have m2: "prune_inv ?D ls max_alpha cs (sel @ [i]) m2 \<and> winv w2 \<and> same_disk w1 w2"
      using prune_keep_facts [OF steps(2) _ i is' keep(2) Cons.prems(6) _ Cons.prems(5) w1(1)]
        Cons.prems(2) node_dm_measures [OF Cons.prems(4) steps(1)] unfolding rel1 by blast
    then have rel2: "w_rel w2 = w_rel w" using rel1 by (simp add: same_disk_def)
    from Cons.IH [OF steps(3)] m2 Cons.prems obtain new where n:
      "results = map ((!) cs) ((sel @ [i]) @ new)" "prune_inv ?D ls max_alpha cs ((sel @ [i]) @ new) mf'" "winv w'" "same_disk w2 w'"
      "length (sel @ [i]) \<le> num \<longrightarrow> length ((sel @ [i]) @ new) \<le> num"
      "if ret then num \<le> length ((sel @ [i]) @ new)
       else (\<forall>j \<in> set is. j \<in> set ((sel @ [i]) @ new) \<or> covered ?D ls alpha cs ((sel @ [i]) @ new) j)"
      unfolding rel2 by auto
    have "same_disk w w'" using w1(2) m2 n(4) same_disk_trans by blast
    then show ?thesis using n keep by (intro exI [of _ "i # new"]) auto
  qed
qed

text \<open>\<open>alpha\<close> stays positive for the rounds the fuel allows.\<close>

definition alpha_ok :: "nat \<Rightarrow> f64 \<Rightarrow> bool" where
  "alpha_ok n alpha \<longleftrightarrow> (\<forall>m \<in> set [0..<n]. \<not> f64_lt ((scale_alpha ^^ m) alpha) f64_zero)"

text \<open>The values of \<open>alpha\<close>.\<close>

lemma alpha_steps:
  "scale_alpha 0x3FF0000000000000 = 0x3FF3333333333333"
  "scale_alpha 0x3FF3333333333333 = 0x3FF70A3D70A3D70A"
  "scale_alpha 0x3FF70A3D70A3D70A = 0x3FFBA5E353F7CED9"
  "scale_alpha 0x3FFBA5E353F7CED9 = 0x400096BB98C7E282"
  "scale_alpha 0x400096BB98C7E282 = 0x4003E81450EFDC9C"
  "scale_alpha 0x4003E81450EFDC9C = 0x4007E34B945308BB"
  "scale_alpha 0x4007E34B945308BB = 0x400CAA5AB1FD3DAD"
  "scale_alpha 0x400CAA5AB1FD3DAD = 0x401133033797F1CE"
  "scale_alpha 0x401133033797F1CE = 0x4014A39D75E98891"
  "scale_alpha 0x4014A39D75E98891 = 0x4018C4568D7EA3E1"
  unfolding scale_alpha_def f64_1_2_def by code_simp+

lemma alpha_signs:
  "\<not> f64_lt 0x3FF0000000000000 f64_zero"
  "\<not> f64_lt 0x3FF3333333333333 f64_zero"
  "\<not> f64_lt 0x3FF70A3D70A3D70A f64_zero"
  "\<not> f64_lt 0x3FFBA5E353F7CED9 f64_zero"
  "\<not> f64_lt 0x400096BB98C7E282 f64_zero"
  "\<not> f64_lt 0x4003E81450EFDC9C f64_zero"
  "\<not> f64_lt 0x4007E34B945308BB f64_zero"
  "\<not> f64_lt 0x400CAA5AB1FD3DAD f64_zero"
  "\<not> f64_lt 0x401133033797F1CE f64_zero"
  "\<not> f64_lt 0x4014A39D75E98891 f64_zero"
  "\<not> f64_lt 0x4018C4568D7EA3E1 f64_zero"
  unfolding f64_zero_def by code_simp+

lemma alpha_powers:
  "(scale_alpha ^^ 10) f64_one = 0x4018C4568D7EA3E1"
  "alpha_ok 11 f64_one"
  unfolding alpha_ok_def f64_one_def
  by (simp_all add: eval_nat_numeral upt_rec alpha_steps alpha_signs)

lemma alpha_ok_Suc: "alpha_ok (Suc n) alpha \<Longrightarrow> \<not> f64_lt alpha f64_zero \<and> alpha_ok n (scale_alpha alpha)"
proof -
  assume *: "alpha_ok (Suc n) alpha"
  have "\<not> f64_lt alpha f64_zero" using * unfolding alpha_ok_def by (metis atLeastLessThan_iff
        funpow_0 le0 set_upt zero_less_Suc)
  moreover have "alpha_ok n (scale_alpha alpha)"
    unfolding alpha_ok_def
  proof
    fix m assume "m \<in> set [0..<n]"
    then have "Suc m \<in> set [0..<Suc n]" by auto
    then have "\<not> f64_lt ((scale_alpha ^^ Suc m) alpha) f64_zero"
      using * unfolding alpha_ok_def by blast
    then show "\<not> f64_lt ((scale_alpha ^^ m) (scale_alpha alpha)) f64_zero"
      by (simp add: funpow_swap1)
  qed
  ultimately show ?thesis by simp
qed

text \<open>\<open>a\<close> is the largest factor that is tried, and what is left out is occluded beyond it.\<close>

definition settled :: "node_distances \<Rightarrow> label_set option \<Rightarrow> f64 \<Rightarrow> neighbor_with_distance list \<Rightarrow> nat list \<Rightarrow> nat \<Rightarrow> bool" where
  "settled D ls max_alpha cs sel n \<longleftrightarrow>
     (let a = (scale_alpha ^^ n) f64_one in
      f64_le a max_alpha \<and> \<not> f64_le (scale_alpha a) max_alpha \<and>
      (\<forall>i < length cs. i \<in> set sel \<or> covered D ls a cs sel i))"

lemma prune_rounds_facts:
  assumes "prune_rounds st max_alpha num ls cs fuel ((scale_alpha ^^ n) f64_one) (map ((!) cs) sel) mf w = Inr (results, w')"
    and "prune_inv (dist_at (w_rel w)) ls max_alpha cs sel mf" "winv w" "f64_lt max_alpha f64_max_value"
    and "alpha_ok (Suc fuel) ((scale_alpha ^^ n) f64_one)" "length sel \<le> num"
    and "f64_le ((scale_alpha ^^ n) f64_one) max_alpha \<or> (length sel < num \<longrightarrow> (\<exists>m. settled (dist_at (w_rel w)) ls max_alpha cs sel m))"
  shows "\<exists>sel'. results = map ((!) cs) sel' \<and> distinct sel' \<and> set sel' \<subseteq> {..<length cs}
    \<and> length sel' \<le> num \<and> winv w' \<and> same_disk w w' \<and> apart (dist_at (w_rel w)) ls max_alpha cs sel'
    \<and> (length sel' < num \<longrightarrow> (\<exists>m. settled (dist_at (w_rel w)) ls max_alpha cs sel' m))
    \<and> (if sel = [] then cs \<noteq> [] \<and> 0 < num \<and> f64_le ((scale_alpha ^^ n) f64_one) max_alpha \<longrightarrow> (\<exists>rest. sel' = 0 # rest)
       else \<exists>rest. sel' = sel @ rest)"
  using assms
proof (induction fuel arbitrary: n sel mf w)
  case 0
  then have "\<not> (f64_le ((scale_alpha ^^ n) f64_one) max_alpha \<and> length sel < num)"
    by (auto simp: prune_rounds.simps [where fuel = 0] split: if_splits)
  then show ?case
    using 0 by (intro exI [of _ sel])
      (auto simp: prune_rounds.simps [where fuel = 0] prune_inv_def winv_count split: if_splits)
next
  case (Suc fuel)
  let ?a = "(scale_alpha ^^ n) f64_one" and ?D = "dist_at (w_rel w)"
  show ?case
  proof (cases "f64_le ?a max_alpha \<and> length sel < num")
    case False
    then show ?thesis
      using Suc.prems by (intro exI [of _ sel])
        (auto simp: prune_rounds.simps [where fuel = "Suc fuel"] prune_inv_def winv_count split: if_splits)
  next
    case True
    obtain ret res1 mf1 w1 where pass: "prune_pass st max_alpha num ls cs ?a [0..<length cs] (map ((!) cs) sel) mf w
        = Inr (ret, res1, mf1, w1)"
      and rest: "if ret then results = res1 \<and> w' = w1 else
         prune_rounds st max_alpha num ls cs fuel (scale_alpha ?a) res1 mf1 w1 = Inr (results, w')"
      using Suc.prems(1) True by (auto simp: prune_rounds.simps [where fuel = "Suc fuel"] split: if_splits)
    note al = alpha_ok_Suc [OF Suc.prems(5)]
    have step: "scale_alpha ?a = (scale_alpha ^^ Suc n) f64_one" by simp
    have idx: "set [0..<length cs] \<subseteq> {..<length cs}" by auto
    from prune_pass_facts [OF pass Suc.prems(2) idx Suc.prems(3,4) conjunct1 [OF True] conjunct1 [OF al]] Suc.prems(6)
    obtain new where n:
      "res1 = map ((!) cs) (sel @ new)" "prune_inv ?D ls max_alpha cs (sel @ new) mf1" "winv w1" "same_disk w w1"
      "length (sel @ new) \<le> num"
      "if ret then num \<le> length (sel @ new)
       else (\<forall>i \<in> set [0..<length cs]. i \<in> set (sel @ new) \<or> covered ?D ls ?a cs (sel @ new) i)"
      "sel = [] \<and> [0..<length cs] \<noteq> [] \<and> 0 < num \<longrightarrow> (\<exists>rest. new = hd [0..<length cs] # rest)"
      by blast
    have first: "sel = [] \<and> cs \<noteq> [] \<and> 0 < num \<longrightarrow> (\<exists>rest. new = 0 # rest)" using n(7) by auto
    have rel: "w_rel w1 = w_rel w" using n(4) by (simp add: same_disk_def)
    show ?thesis
    proof (cases ret)
      case True
      then show ?thesis
        using rest n first by (intro exI [of _ "sel @ new"]) (auto simp: prune_inv_def)
    next
      case False
      have r: "prune_rounds st max_alpha num ls cs fuel ((scale_alpha ^^ Suc n) f64_one) (map ((!) cs) (sel @ new)) mf1 w1 = Inr (results, w')"
        using rest False n(1) unfolding step by simp
      have s: "f64_le ((scale_alpha ^^ Suc n) f64_one) max_alpha \<or>
          (length (sel @ new) < num \<longrightarrow> (\<exists>m. settled ?D ls max_alpha cs (sel @ new) m))"
      proof (cases "f64_le (scale_alpha ?a) max_alpha")
        case True
        then show ?thesis unfolding step by blast
      next
        case nle: False
        have "\<forall>i < length cs. i \<in> set (sel @ new) \<or> covered ?D ls ?a cs (sel @ new) i" using n(6) False by auto
        then have "settled ?D ls max_alpha cs (sel @ new) n" using nle True by (simp add: settled_def Let_def)
        then show ?thesis by blast
      qed
      obtain sel' where s:
        "results = map ((!) cs) sel'" "distinct sel'" "set sel' \<subseteq> {..<length cs}" "length sel' \<le> num" "winv w'"
        "same_disk w1 w'" "apart ?D ls max_alpha cs sel'"
        "length sel' < num \<longrightarrow> (\<exists>m. settled ?D ls max_alpha cs sel' m)"
        "if sel @ new = [] then cs \<noteq> [] \<and> 0 < num \<and> f64_le ((scale_alpha ^^ Suc n) f64_one) max_alpha \<longrightarrow> (\<exists>rest. sel' = 0 # rest)
         else \<exists>rest. sel' = (sel @ new) @ rest"
        using Suc.IH [OF r, unfolded rel, OF n(2,3) Suc.prems(4) _ n(5) s] al unfolding step by blast
      have "same_disk w w'" using n(4) s(6) same_disk_trans by blast
      moreover have "if sel = [] then cs \<noteq> [] \<and> 0 < num \<and> f64_le ?a max_alpha \<longrightarrow> (\<exists>rest. sel' = 0 # rest)
          else \<exists>rest. sel' = sel @ rest"
        using s(9) first by (auto split: if_splits)
      ultimately show ?thesis using s by (intro exI [of _ sel']) auto
    qed
  qed
qed

lemma prune_pass_fuel:
  "prune_pass st max_alpha num ls cs alpha is results mf w \<noteq> Inl OutOfFuel"
proof -
  have c: "prune_candidate st max_alpha ls cs e ds j s \<noteq> Inl OutOfFuel" for e ds j s
    using distance_fuel
    by (auto simp: prune_candidate_def rbind_def dwt_new_def rassert_def runwrap_def Let_def
        split: sum.splits prod.splits option.splits)
  have r: "rfold (prune_candidate st max_alpha ls cs e ds) js s \<noteq> Inl OutOfFuel" for e ds js s
    by (induction js arbitrary: s) (auto simp: rbind_def c split: sum.splits)
  show ?thesis
  proof (induction "is" arbitrary: results mf w)
    case (Cons i "is")
    then show ?case
      using node_dm_fuel r by (auto simp: rbind_def Let_def split: sum.splits prod.splits)
  qed simp
qed

lemma prune_rounds_fuel:
  "\<not> f64_le ((scale_alpha ^^ fuel) alpha) max_alpha \<Longrightarrow>
     prune_rounds st max_alpha num ls cs fuel alpha results mf w \<noteq> Inl OutOfFuel"
proof (induction fuel arbitrary: alpha results mf w)
  case 0
  then show ?case by (simp add: prune_rounds.simps [where fuel = 0])
next
  case (Suc fuel)
  have "\<not> f64_le ((scale_alpha ^^ fuel) (scale_alpha alpha)) max_alpha"
    using Suc.prems by (simp add: funpow_swap1)
  then show ?case
    using Suc.IH prune_pass_fuel
    by (auto simp: prune_rounds.simps [where fuel = "Suc fuel"] rbind_def split: sum.splits prod.splits)
qed

text \<open>What pruning promises its callers.\<close>

lemma sort_neighbors_pos:
  assumes "a < length (sort_neighbors cs)" "b < length (sort_neighbors cs)"
  shows "a < b \<Longrightarrow> nwd_cmp (sort_neighbors cs ! a) (sort_neighbors cs ! b) \<noteq> Greater"
    and "nwd_cmp (sort_neighbors cs ! a) (sort_neighbors cs ! b) = Less \<Longrightarrow> a < b"
proof -
  note sorted = sort_neighbors_sorted [of cs, unfolded sorted_wrt_iff_nth_less]
  show "nwd_cmp (sort_neighbors cs ! a) (sort_neighbors cs ! b) \<noteq> Greater" if "a < b"
    using sorted that assms by blast
  show "a < b" if "nwd_cmp (sort_neighbors cs ! a) (sort_neighbors cs ! b) = Less"
    using sorted [rule_format, of b a] that assms
    by (cases a b rule: linorder_cases) (auto simp: nwd_cmp_key cmp_of_def split: if_splits)
qed

lemma selected_pruned_to:
  assumes results: "results = map ((!) (sort_neighbors cands)) sel"
    and sel: "distinct sel" "set sel \<subseteq> {..<length (sort_neighbors cands)}" "length sel \<le> num"
    and ap: "apart D ls max_alpha (sort_neighbors cands) sel"
    and st: "length sel < num \<Longrightarrow> f64_le f64_one max_alpha \<Longrightarrow> \<exists>n. settled D ls max_alpha (sort_neighbors cands) sel n"
    and head: "cands \<noteq> [] \<Longrightarrow> 0 < num \<Longrightarrow> f64_le f64_one max_alpha \<Longrightarrow> \<exists>rest. sel = 0 # rest"
  shows "pruned_to D ls max_alpha num cands results"
proof -
  let ?cs = "sort_neighbors cands"
  have "mset_set (set sel) \<subseteq># mset_set {..<length ?cs}"
    by (rule subset_imp_msubset_mset_set [OF sel(2)]) simp
  then have "mset sel \<subseteq># mset [0..<length ?cs]"
    using sel(1) by (simp add: mset_set_set atLeast0LessThan [symmetric] flip: mset_upt)
  then have "image_mset ((!) ?cs) (mset sel) \<subseteq># image_mset ((!) ?cs) (mset [0..<length ?cs])"
    by (rule image_mset_subseteq_mono)
  then have sub: "mset results \<subseteq># mset cands"
    unfolding results mset_map [symmetric] map_nth by simp
  have hd: "\<exists>rest. results = hd ?cs # rest" if "cands \<noteq> []" "0 < num" "f64_le f64_one max_alpha"
  proof -
    have ne: "?cs \<noteq> []" using that(1) by (metis sort_neighbors_length length_0_conv)
    then show ?thesis using results head [OF that] by (auto simp: hd_conv_nth)
  qed
  have room: "\<exists>n. let alpha = (scale_alpha ^^ n) f64_one in f64_le alpha max_alpha \<and> \<not> f64_le (scale_alpha alpha) max_alpha \<and>
      (\<forall>c \<in> set cands. c \<in> set results \<or> (\<exists>e \<in> set results. nwd_cmp e c \<noteq> Greater \<and> occluded D ls alpha e c))"
    if r: "length results < num" "f64_le f64_one max_alpha"
  proof -
    obtain n where n: "settled D ls max_alpha ?cs sel n" using st r results by auto
    let ?a = "(scale_alpha ^^ n) f64_one"
    have "c \<in> set results \<or> (\<exists>e \<in> set results. nwd_cmp e c \<noteq> Greater \<and> occluded D ls ?a e c)" if c: "c \<in> set cands" for c
    proof -
      obtain i where i: "i < length ?cs" "c = ?cs ! i" using c by (metis in_set_conv_nth sort_neighbors_set)
      have "i \<in> set sel \<or> covered D ls ?a ?cs sel i" using n i(1) by (simp add: settled_def Let_def)
      then show ?thesis
      proof
        assume "covered D ls ?a ?cs sel i"
        then obtain e where e: "e \<in> set sel" "e < i" "occluded D ls ?a (?cs ! e) (?cs ! i)" by (auto simp: covered_def)
        then show ?thesis using sort_neighbors_pos(1) [OF _ i(1), of e] i results by auto
      qed (use results i(2) in auto)
    qed
    then show ?thesis using n by (intro exI [of _ n]) (simp add: settled_def Let_def)
  qed
  have far: "spared D ls max_alpha (results ! i) (results ! j)"
    if "i < j" "j < length results" "nwd_cmp (results ! i) (results ! j) = Less" for i j
  proof -
    have "sel ! i \<in> set sel" "sel ! j \<in> set sel" using that(1,2) by (simp_all add: results)
    with sel(2) have "sel ! i < length ?cs" "sel ! j < length ?cs" by blast+
    moreover have "results ! i = ?cs ! (sel ! i)" "results ! j = ?cs ! (sel ! j)"
      using that(1,2) by (simp_all add: results)
    ultimately have ij: "sel ! i < length ?cs" "sel ! j < length ?cs" "results ! i = ?cs ! (sel ! i)" "results ! j = ?cs ! (sel ! j)"
      by simp_all
    then have "sel ! i < sel ! j" using that(3) sort_neighbors_pos(2) by metis
    then show ?thesis
      using ap that(1,2) ij unfolding apart_def sorted_wrt_iff_nth_less by (simp add: results)
  qed
  show ?thesis unfolding pruned_to_def using sel(3) results sub hd room far by simp
qed

lemma prune_neighbors_facts:
  assumes run: "prune_neighbors st max_alpha num ls cands w = Inr (results, w')" and w: "winv w"
    and big: "f64_lt max_alpha f64_max_value"
  shows "winv w'" "same_disk w w'" "pruned_to (dist_at (w_rel w)) ls max_alpha num cands results"
proof -
  let ?cs = "sort_neighbors cands" and ?w = "count (\<lambda>s. s\<lparr>prune_calls := prune_calls s + 1,
                num_neighbors_before_prune := num_neighbors_before_prune s + length cands\<rparr>) w"
  let ?D = "dist_at (w_rel w)"
  have ok: "alpha_ok (Suc prune_fuel) ((scale_alpha ^^ 0) f64_one)"
    using alpha_powers(2) by (simp add: prune_fuel_def)
  have run': "prune_rounds st max_alpha num ls ?cs prune_fuel ((scale_alpha ^^ 0) f64_one) (map ((!) ?cs) [])
      (replicate (length ?cs) f64_zero) ?w = Inr (results, w')"
    using run by (simp add: prune_neighbors_def Let_def)
  have "\<exists>sel. results = map ((!) ?cs) sel \<and> distinct sel \<and> set sel \<subseteq> {..<length ?cs} \<and> length sel \<le> num
      \<and> winv w' \<and> same_disk ?w w' \<and> apart ?D ls max_alpha ?cs sel
      \<and> (length sel < num \<longrightarrow> f64_le f64_one max_alpha \<longrightarrow> (\<exists>n. settled ?D ls max_alpha ?cs sel n))
      \<and> (?cs \<noteq> [] \<and> 0 < num \<and> f64_le f64_one max_alpha \<longrightarrow> (\<exists>rest. sel = 0 # rest))"
  proof (cases "f64_le f64_one max_alpha")
    case True
    from prune_rounds_facts [OF run' prune_inv_start _ big ok] True w show ?thesis
      by (auto simp: winv_count)
  next
    case False
    then have "results = []" "same_disk ?w w'" "winv w'"
      using run' w by (auto simp: prune_rounds.simps [where fuel = prune_fuel] winv_count)
    then show ?thesis using False by (intro exI [of _ "[]"]) (auto simp: apart_def)
  qed
  then obtain sel where s: "results = map ((!) ?cs) sel" "distinct sel" "set sel \<subseteq> {..<length ?cs}"
    "length sel \<le> num" "winv w'" "same_disk ?w w'" "apart ?D ls max_alpha ?cs sel"
    "length sel < num \<longrightarrow> f64_le f64_one max_alpha \<longrightarrow> (\<exists>n. settled ?D ls max_alpha ?cs sel n)"
    "?cs \<noteq> [] \<and> 0 < num \<and> f64_le f64_one max_alpha \<longrightarrow> (\<exists>rest. sel = 0 # rest)" by blast
  show "winv w'" using s by auto
  show "same_disk w w'" using s(6) by (simp add: same_disk_def)
  have "?cs \<noteq> []" if "cands \<noteq> []" using that by (metis sort_neighbors_length length_0_conv)
  then show "pruned_to ?D ls max_alpha num cands results"
    using selected_pruned_to [OF s(1-4,7)] s(8,9) by blast
qed

lemma prune_neighbors_fuel:
  assumes "f64_le max_alpha 0x4014000000000000"
  shows "prune_neighbors st max_alpha num ls cands w \<noteq> Inl OutOfFuel"
proof -
  have "f64_lt 0x4014000000000000 ((scale_alpha ^^ prune_fuel) f64_one)"
    unfolding prune_fuel_def alpha_powers(1) by code_simp
  with assms have "\<not> f64_le ((scale_alpha ^^ prune_fuel) f64_one) max_alpha"
    using f64_lt_not_le [OF f64_le_lt_trans] by blast
  then show ?thesis
    unfolding prune_neighbors_def Let_def by (rule prune_rounds_fuel)
qed

end

end
