(* ===== verification/Neighbor_Merge.thy ===== *)
theory Neighbor_Merge
  imports Prune
begin

text \<open>
  \<open>Graph::merge_neighbors_on_disk\<close> (\<open>graph/mod.rs\<close>) and \<open>NeighborMergeMode\<close>: read the adjacency of a
  node, merge the additions into it, prune when it is too long, and publish the result if the
  adjacency is still the one that was read; otherwise start again.

  The loop runs on fuel. Every failed attempt uses up one action of another backend, so that one
  more round than there are pending actions is enough, and more rounds change nothing; the source
  promises no progress under unlimited contention (\<open>CONCURRENCY.md\<close>), and neither does the model. The check for interrupts, which may cancel the
  statement, is not modelled.
\<close>

datatype merge_mode = MergeDisk | MergeBuilder (always_prune: bool)

definition merge_candidates ::
  "merge_mode \<Rightarrow> item_pointer \<Rightarrow> neighbor_with_distance list \<Rightarrow> neighbor_with_distance list
     \<Rightarrow> neighbor_with_distance list \<times> bool" where
  "merge_candidates mode neighbors_of disk_neighbors added =
     (let (candidates, always) =
           (case mode of
              MergeDisk \<Rightarrow> (disk_neighbors @ added, False)
            | MergeBuilder always \<Rightarrow> (added @ disk_neighbors, always))
      in (retain_unseen n_index_pointer {neighbors_of} candidates, always))"

fun merge_loop ::
  "('n, 'd) disk_ops \<Rightarrow> item_pointer \<Rightarrow> label_set option \<Rightarrow> neighbor_with_distance list \<Rightarrow> f64 \<Rightarrow> nat
     \<Rightarrow> merge_mode \<Rightarrow> nat \<Rightarrow> 'n world \<Rightarrow> ((bool \<times> neighbor_with_distance list) \<times> 'n world) res" where
  "merge_loop st neighbors_of ls added max_alpha num_neighbors mode 0 w = Inl OutOfFuel"
| "merge_loop st neighbors_of ls added max_alpha num_neighbors mode (Suc fuel) w =
     rbind (st_neighbors_from_disk st neighbors_of w) (\<lambda>(disk_neighbors, w).
     let expected = map n_index_pointer disk_neighbors;
         (candidates, always) = merge_candidates mode neighbors_of disk_neighbors added;
         pruned = (always \<or> length candidates > num_neighbors)
     in rbind (if pruned then prune_neighbors st max_alpha num_neighbors ls candidates w
               else Inr (candidates, w)) (\<lambda>(neighbors, w).
        let w = count (\<lambda>s. s\<lparr>adjacency_attempts := adjacency_attempts s + 1\<rparr>) w in
        rbind (st_try_set st neighbors_of expected neighbors w) (\<lambda>(ok, w).
        if ok then Inr ((pruned, neighbors), w)
        else merge_loop st neighbors_of ls added max_alpha num_neighbors mode fuel
               (count (\<lambda>s. s\<lparr>adjacency_retries := adjacency_retries s + 1\<rparr>) w))))"

definition merge_neighbors_on_disk ::
  "('n, 'd) disk_ops \<Rightarrow> item_pointer \<Rightarrow> label_set option \<Rightarrow> neighbor_with_distance list \<Rightarrow> f64 \<Rightarrow> nat
     \<Rightarrow> merge_mode \<Rightarrow> 'n world \<Rightarrow> ((bool \<times> neighbor_with_distance list) \<times> 'n world) res" where
  "merge_neighbors_on_disk st neighbors_of ls added max_alpha num_neighbors mode w =
     rbind (case ls of Some l \<Rightarrow> Inr (Some l, w) | None \<Rightarrow> st_get_labels st neighbors_of w) (\<lambda>(ls, w).
     merge_loop st neighbors_of ls added max_alpha num_neighbors mode (Suc (length (w_others w))) w)"

section \<open>The storage contract\<close>

text \<open>
  What the graph relies on: reads change nothing another backend sees, the neighbours read are one
  snapshot of the adjacency, and \<open>try_set\<close> replaces the adjacency exactly when it is still the
  expected one at the time of the write, and touches no other node. Distances between nodes stay.
\<close>

definition valid_ptrs :: "neighbor_with_distance list \<Rightarrow> bool" where
  "valid_ptrs ns \<longleftrightarrow> (\<forall>n \<in> set ns. block_number (n_index_pointer n) \<noteq> InvalidBlockNumber)"

text \<open>
  What a merge of \<open>added\<close> into the adjacency \<open>old\<close> of \<open>p\<close> publishes. All the neighbours there are, when
  they are at most \<open>num\<close> and the mode does not insist on pruning; what pruning makes of candidates for
  all of them otherwise. \<open>p\<close> itself is left out, and no neighbour comes twice.
\<close>

definition merged ::
  "node_distances \<Rightarrow> merge_mode \<Rightarrow> label_set option \<Rightarrow> f64 \<Rightarrow> item_pointer \<Rightarrow> neighbor_with_distance list \<Rightarrow> nat
     \<Rightarrow> bool \<Rightarrow> item_pointer list \<Rightarrow> neighbor_with_distance list \<Rightarrow> bool" where
  "merged D mode ls max_alpha p added num pruned old ns \<longleftrightarrow>
     distinct (map n_index_pointer ns) \<and> length ns \<le> num \<and>
     (let all = (set old \<union> n_index_pointer ` set added) - {p} in
      pruned = (mode = MergeBuilder True \<or> num < card all) \<and>
      (if pruned then
         \<exists>labels cands. (ls \<noteq> None \<longrightarrow> labels = ls) \<and> n_index_pointer ` set cands = all \<and> distinct (map n_index_pointer cands) \<and>
           (\<forall>c \<in> set cands. c \<in> set added \<or> n_index_pointer c \<in> set old) \<and> pruned_to D labels max_alpha num cands ns
       else n_index_pointer ` set ns = all))"

lemma merged_mono:
  assumes "dist_le D D'" "merged D mode ls a p added num pruned old ns"
  shows "merged D' mode ls a p added num pruned old ns"
proof (cases pruned)
  case True
  note m = assms(2) [unfolded merged_def Let_def if_P [OF True]]
  from m obtain labels cands where "ls \<noteq> None \<longrightarrow> labels = ls"
    "n_index_pointer ` set cands = set old \<union> n_index_pointer ` set added - {p}" "distinct (map n_index_pointer cands)"
    "\<forall>c \<in> set cands. c \<in> set added \<or> n_index_pointer c \<in> set old" "pruned_to D labels a num cands ns"
    by blast
  note c = this(1-4) pruned_to_mono [OF assms(1) this(5)]
  show ?thesis
    unfolding merged_def Let_def if_P [OF True]
    by (intro conjI exI [of _ labels] exI [of _ cands])
      (rule m [THEN conjunct1] m [THEN conjunct2, THEN conjunct1] m [THEN conjunct2, THEN conjunct2, THEN conjunct1] c)+
qed (use assms(2) in \<open>simp add: merged_def Let_def\<close>)

lemma merged_keys:
  assumes "merged D mode ls a p added num pruned old ns"
  shows "n_index_pointer ` set ns \<subseteq> (set old \<union> n_index_pointer ` set added) - {p}" "distinct (map n_index_pointer ns)"
proof -
  show "distinct (map n_index_pointer ns)" using assms by (simp add: merged_def)
  show "n_index_pointer ` set ns \<subseteq> (set old \<union> n_index_pointer ` set added) - {p}"
  proof (cases pruned)
    case True
    obtain labels cands where c: "n_index_pointer ` set cands = (set old \<union> n_index_pointer ` set added) - {p}"
      "pruned_to D labels a num cands ns"
      using assms [unfolded merged_def Let_def if_P [OF True]] by blast
    have "set ns \<subseteq> set cands"
      using set_mset_mono [of "mset ns" "mset cands"] c(2) [unfolded pruned_to_def, THEN conjunct2, THEN conjunct1] by simp
    then have "n_index_pointer ` set ns \<subseteq> n_index_pointer ` set cands" by (rule image_mono)
    then show ?thesis unfolding c(1) .
  qed (use assms in \<open>simp add: merged_def Let_def\<close>)
qed

lemma merged_parts:
  assumes "merged D mode ls a p added num pruned old ns"
  shows "distinct (map n_index_pointer ns)" "length ns \<le> num"
    and "if pruned then n_index_pointer ` set ns \<subseteq> (set old \<union> n_index_pointer ` set added) - {p}
      else n_index_pointer ` set ns = (set old \<union> n_index_pointer ` set added) - {p}"
    and "pruned = (mode = MergeBuilder True \<or> num < card ((set old \<union> n_index_pointer ` set added) - {p}))"
proof -
  show "if pruned then n_index_pointer ` set ns \<subseteq> (set old \<union> n_index_pointer ` set added) - {p}
      else n_index_pointer ` set ns = (set old \<union> n_index_pointer ` set added) - {p}"
    using merged_keys(1) [OF assms] assms by (cases pruned) (simp_all add: merged_def Let_def)
qed (use assms in \<open>simp_all add: merged_def Let_def\<close>)

text \<open>The same where the mode does not insist on pruning.\<close>

definition adopts ::
  "node_distances \<Rightarrow> label_set option \<Rightarrow> f64 \<Rightarrow> item_pointer \<Rightarrow> neighbor_with_distance list \<Rightarrow> nat
     \<Rightarrow> item_pointer list \<Rightarrow> neighbor_with_distance list \<Rightarrow> bool" where
  "adopts D ls max_alpha p added num old ns \<longleftrightarrow>
     distinct (map n_index_pointer ns) \<and> length ns \<le> num \<and>
     (let all = (set old \<union> n_index_pointer ` set added) - {p} in
      if num < card all then
        \<exists>labels cands. (ls \<noteq> None \<longrightarrow> labels = ls) \<and> n_index_pointer ` set cands = all \<and> distinct (map n_index_pointer cands) \<and>
          (\<forall>c \<in> set cands. c \<in> set added \<or> n_index_pointer c \<in> set old) \<and> pruned_to D labels max_alpha num cands ns
      else n_index_pointer ` set ns = all)"

lemma merged_adopts:
  assumes "merged D mode ls a p added num pruned old ns" "mode \<noteq> MergeBuilder True"
  shows "adopts D ls a p added num old ns"
proof -
  have pr: "pruned = (num < card ((set old \<union> n_index_pointer ` set added) - {p}))"
    using assms by (simp add: merged_def Let_def)
  note m = assms(1) [unfolded merged_def Let_def]
  show ?thesis
    unfolding adopts_def Let_def pr [symmetric]
    by (intro conjI) (rule m [THEN conjunct1] m [THEN conjunct2, THEN conjunct1] m [THEN conjunct2, THEN conjunct2, THEN conjunct2])+
qed

lemma merged_label: "merged D mode ls' a p added num pruned old ns \<Longrightarrow> ls \<noteq> None \<longrightarrow> ls' = ls \<Longrightarrow> merged D mode ls a p added num pruned old ns"
  unfolding merged_def Let_def by (cases pruned) auto

locale disk_storage = disk_reads st winv dist_at
  for st :: "('n, 'd) disk_ops" and winv :: "'n world \<Rightarrow> bool" and dist_at :: "'n relation \<Rightarrow> node_distances" +
  fixes adj :: "'n relation \<Rightarrow> item_pointer \<Rightarrow> item_pointer list option" and k :: nat
  assumes get_labels: "winv w \<Longrightarrow> st_get_labels st p w = Inr (l, w') \<Longrightarrow> winv w' \<and> same_disk w w'"
    and get_labels_fuel: "st_get_labels st p w \<noteq> Inl OutOfFuel"
    and neighbors: "winv w \<Longrightarrow> st_neighbors_from_disk st p w = Inr (ns, w') \<Longrightarrow>
      winv w' \<and> same_disk w w' \<and> adj (w_rel w) p = Some (map n_index_pointer ns) \<and> valid_ptrs ns"
    and neighbors_fuel: "st_neighbors_from_disk st p w \<noteq> Inl OutOfFuel"
    and try_set: "winv w \<Longrightarrow> valid_ptrs ns \<Longrightarrow> st_try_set st p expected ns w = Inr (ok, w') \<Longrightarrow>
      winv w' \<and> w_others w' = w_others (interfere w) \<and> length ns \<le> k \<and> dist_le (dist_at (w_rel w)) (dist_at (w_rel w')) \<and>
      (if ok then adj (w_rel (interfere w)) p = Some expected \<and> adj (w_rel w') p = Some (map n_index_pointer ns)
         \<and> (\<forall>q. q \<noteq> p \<longrightarrow> adj (w_rel w') q = adj (w_rel (interfere w)) q)
       else adj (w_rel (interfere w)) p \<noteq> Some expected \<and> w_rel w' = w_rel (interfere w))"
    and try_set_fuel: "st_try_set st p expected ns w \<noteq> Inl OutOfFuel"
    and adj_valid: "adj r p = Some ps \<Longrightarrow> q \<in> set ps \<Longrightarrow> block_number q \<noteq> InvalidBlockNumber"
begin

lemma distinct_sub_mset:
  assumes "mset ys \<subseteq># mset xs" "distinct xs"
  shows "distinct ys"
proof -
  have "Multiset.count (mset xs) a \<le> 1" for a
    using assms(2) by (cases "a \<in> set xs") (simp_all add: distinct_count_atmost_1)
  then have "Multiset.count (mset ys) a \<le> 1" for a
    using mset_subset_eq_count [OF assms(1), of a] le_trans by blast
  then show ?thesis
    by (metis distinct_count_atmost_1 count_greater_eq_one_iff count_inI le_antisym set_mset_mset)
qed

lemma merge_candidates_facts:
  assumes "merge_candidates mode p disk added = (cands, always)"
  shows "distinct (map n_index_pointer cands)"
    and "n_index_pointer ` set cands = (set (map n_index_pointer disk) \<union> n_index_pointer ` set added) - {p}"
    and "valid_ptrs disk \<Longrightarrow> valid_ptrs added \<Longrightarrow> valid_ptrs cands"
    and "set cands \<subseteq> set disk \<union> set added" "always = (mode = MergeBuilder True)"
proof -
  obtain xs where c: "cands = retain_unseen n_index_pointer {p} xs" and xs: "set xs = set disk \<union> set added"
    using assms by (cases mode) (auto simp: merge_candidates_def Un_commute)
  show "distinct (map n_index_pointer cands)" unfolding c by (rule retain_unseen_distinct)
  show "n_index_pointer ` set cands = (set (map n_index_pointer disk) \<union> n_index_pointer ` set added) - {p}"
    unfolding c retain_unseen_keys xs by (simp add: image_Un)
  show "set cands \<subseteq> set disk \<union> set added" using retain_unseen_subset [of n_index_pointer "{p}" xs] unfolding c xs .
  then show "valid_ptrs cands" if "valid_ptrs disk" "valid_ptrs added"
    using that unfolding valid_ptrs_def by blast
  show "always = (mode = MergeBuilder True)" using assms by (cases mode) (auto simp: merge_candidates_def)
qed

text \<open>One round, with its parts named: the candidates, whether they are pruned, and the outcome.\<close>

definition merge_choice ::
  "label_set option \<Rightarrow> f64 \<Rightarrow> nat \<Rightarrow> bool \<Rightarrow> neighbor_with_distance list \<Rightarrow> 'n world
     \<Rightarrow> (neighbor_with_distance list \<times> 'n world) res" where
  "merge_choice ls max_alpha num pr cands w =
     (if pr then prune_neighbors st max_alpha num ls cands w else Inr (cands, w))"

lemma merge_loop_step:
  assumes "merge_candidates mode p disk added = (cands, always)" "st_neighbors_from_disk st p w = Inr (disk, w1)"
  shows "merge_loop st p ls added max_alpha num mode (Suc fuel) w =
    rbind (merge_choice ls max_alpha num (always \<or> num < length cands) cands w1) (\<lambda>(ns1, w2).
    rbind (st_try_set st p (map n_index_pointer disk) ns1 (count (\<lambda>s. s\<lparr>adjacency_attempts := adjacency_attempts s + 1\<rparr>) w2)) (\<lambda>(ok, w).
        if ok then Inr ((always \<or> num < length cands, ns1), w)
        else merge_loop st p ls added max_alpha num mode fuel
               (count (\<lambda>s. s\<lparr>adjacency_retries := adjacency_retries s + 1\<rparr>) w)))"
  using assms by (simp add: Let_def merge_choice_def)

text \<open>More rounds than are needed change nothing.\<close>

lemma merge_loop_more_fuel:
  "merge_loop st p ls added max_alpha num mode fuel w \<noteq> Inl OutOfFuel \<Longrightarrow> fuel \<le> fuel' \<Longrightarrow>
     merge_loop st p ls added max_alpha num mode fuel' w = merge_loop st p ls added max_alpha num mode fuel w"
proof (induction fuel arbitrary: fuel' w)
  case (Suc fuel)
  obtain fuel2 where f: "fuel' = Suc fuel2" "fuel \<le> fuel2" using Suc.prems(2) by (cases fuel') auto
  show ?case
  proof (cases "st_neighbors_from_disk st p w")
    case (Inl e)
    then show ?thesis by (simp add: f(1))
  next
    case (Inr x)
    obtain disk w1 where d: "st_neighbors_from_disk st p w = Inr (disk, w1)" using Inr by (cases x) simp
    obtain cands always where mc: "merge_candidates mode p disk added = (cands, always)" by force
    let ?pr = "always \<or> num < length cands"
    note step = merge_loop_step [OF mc d, where num = num and ls = ls and max_alpha = max_alpha]
    show ?thesis
    proof (cases "merge_choice ls max_alpha num ?pr cands w1")
      case (Inl e)
      then show ?thesis unfolding f(1) step by simp
    next
      case (Inr y)
      obtain ns1 w2 where y: "y = (ns1, w2)" by (cases y)
      let ?t = "st_try_set st p (map n_index_pointer disk) ns1 (count (\<lambda>s. s\<lparr>adjacency_attempts := adjacency_attempts s + 1\<rparr>) w2)"
      show ?thesis
      proof (cases ?t)
        case (Inl e)
        then show ?thesis using Inr unfolding f(1) step y by simp
      next
        case t: (Inr z)
        obtain ok w3 where z: "z = (ok, w3)" by (cases z)
        have "merge_loop st p ls added max_alpha num mode fuel2 v = merge_loop st p ls added max_alpha num mode fuel v"
          if "\<not> ok" "v = count (\<lambda>s. s\<lparr>adjacency_retries := adjacency_retries s + 1\<rparr>) w3" for v
          using Suc.prems(1) that t z Inr y unfolding step by (intro Suc.IH [OF _ f(2)]) auto
        then show ?thesis using Inr t unfolding f(1) step y z by auto
      qed
    qed
  qed
qed simp

lemma merge_choice_facts:
  assumes run: "merge_choice ls max_alpha num pr cands w1 = Inr (ns1, w2)"
    and mc: "merge_candidates mode p disk added = (cands, always)" and pr: "pr = (always \<or> num < length cands)"
    and w1: "winv w1" and big: "f64_lt max_alpha f64_max_value" and v: "valid_ptrs disk" "valid_ptrs added"
  shows "winv w2" "same_disk w1 w2" "valid_ptrs ns1"
    and "merged (dist_at (w_rel w1)) mode ls max_alpha p added num pr (map n_index_pointer disk) ns1"
proof -
  note cf = merge_candidates_facts [OF mc]
  have card: "card ((set (map n_index_pointer disk) \<union> n_index_pointer ` set added) - {p}) = length cands"
    using distinct_card [OF cf(1)] cf(2) by simp
  have src: "\<forall>c \<in> set cands. c \<in> set added \<or> n_index_pointer c \<in> set (map n_index_pointer disk)" using cf(4) by auto
  have "winv w2 \<and> same_disk w1 w2 \<and> valid_ptrs ns1 \<and>
    merged (dist_at (w_rel w1)) mode ls max_alpha p added num pr (map n_index_pointer disk) ns1"
  proof (cases pr)
    case True
    with run have "prune_neighbors st max_alpha num ls cands w1 = Inr (ns1, w2)" by (simp add: merge_choice_def)
    note pf = prune_neighbors_facts [OF this w1 big]
    have sub: "mset ns1 \<subseteq># mset cands" "length ns1 \<le> num" using pf(3) by (simp_all add: pruned_to_def)
    have "mset (map n_index_pointer ns1) \<subseteq># mset (map n_index_pointer cands)"
      using image_mset_subseteq_mono [OF sub(1)] by simp
    then have "distinct (map n_index_pointer ns1)"
      using cf(1) by (rule distinct_sub_mset)
    then have "merged (dist_at (w_rel w1)) mode ls max_alpha p added num pr (map n_index_pointer disk) ns1"
      unfolding merged_def Let_def card cf(5) [symmetric] if_P [OF True]
      by (intro conjI exI [of _ ls] exI [of _ cands]) (rule sub(2) pr pf(3) cf(1,2) src impI refl | assumption)+
    moreover have "valid_ptrs ns1" using set_mset_mono [OF sub(1)] cf(3) [OF v] by (auto simp: valid_ptrs_def)
    ultimately show ?thesis using pf(1,2) by blast
  next
    case False
    with run have "ns1 = cands" "w2 = w1" by (auto simp: merge_choice_def)
    then show ?thesis
      using False cf(1,2) cf(3) [OF v] w1 unfolding merged_def Let_def card cf(5) [symmetric] pr by simp
  qed
  then show "winv w2" "same_disk w1 w2" "valid_ptrs ns1"
    "merged (dist_at (w_rel w1)) mode ls max_alpha p added num pr (map n_index_pointer disk) ns1" by auto
qed

lemma same_disk_interfere: "same_disk w w' \<Longrightarrow> w_rel (interfere w') = w_rel (interfere w) \<and> w_others (interfere w') = w_others (interfere w)"
  by (auto simp: same_disk_def interfere_def split: list.splits)

lemma interfere_pow_cong:
  "same_disk w w' \<Longrightarrow> same_disk ((interfere ^^ n) w) ((interfere ^^ n) w')"
proof (induction n)
  case (Suc n)
  then show ?case
    using same_disk_interfere [of "(interfere ^^ n) w" "(interfere ^^ n) w'"] by (simp add: same_disk_def)
qed simp

lemma merge_loop_facts:
  assumes "merge_loop st p ls added max_alpha num mode fuel w = Inr ((pruned, ns), w')"
    and "winv w" "valid_ptrs added" "f64_lt max_alpha f64_max_value"
  shows "winv w' \<and> dist_le (dist_at (w_rel w)) (dist_at (w_rel w')) \<and> (\<exists>n old. 0 < n \<and> n \<le> fuel \<and>
      (let v = (interfere ^^ n) w in
       w_others w' = w_others v \<and> adj (w_rel v) p = Some old \<and> adj (w_rel w') p = Some (map n_index_pointer ns) \<and>
       (\<forall>q. q \<noteq> p \<longrightarrow> adj (w_rel w') q = adj (w_rel v) q) \<and>
       merged (dist_at (w_rel w')) mode ls max_alpha p added num pruned old ns))"
  using assms
proof (induction fuel arbitrary: w)
  case (Suc fuel)
  obtain disk w1 where d: "st_neighbors_from_disk st p w = Inr (disk, w1)"
    using Suc.prems(1) by (cases "st_neighbors_from_disk st p w") auto
  note nb = neighbors [OF Suc.prems(2) d]
  obtain cands always where mc: "merge_candidates mode p disk added = (cands, always)" by force
  let ?pr = "always \<or> num < length cands"
  note step = merge_loop_step [OF mc d, where num = num and ls = ls and max_alpha = max_alpha and fuel = fuel]
  obtain ns1 w2 where p2: "merge_choice ls max_alpha num ?pr cands w1 = Inr (ns1, w2)"
    using Suc.prems(1) unfolding step by (cases "merge_choice ls max_alpha num ?pr cands w1") auto
  let ?w2 = "count (\<lambda>s. s\<lparr>adjacency_attempts := adjacency_attempts s + 1\<rparr>) w2"
  note r = Suc.prems(1) [unfolded step p2 rbind_simps case_prod_conv]
  note ch = merge_choice_facts [OF p2 mc refl _ Suc.prems(4) _ Suc.prems(3)]
  have w2: "winv ?w2 \<and> same_disk w ?w2" and v1: "valid_ptrs ns1"
    and ns1: "merged (dist_at (w_rel ?w2)) mode ls max_alpha p added num ?pr (map n_index_pointer disk) ns1"
    using ch nb by (auto simp: winv_count same_disk_def)
  obtain ok w3 where t: "st_try_set st p (map n_index_pointer disk) ns1 ?w2 = Inr (ok, w3)"
    using r by (cases "st_try_set st p (map n_index_pointer disk) ns1 ?w2") auto
  note ts = try_set [OF conjunct1 [OF w2] v1 t]
  note same = same_disk_interfere [OF conjunct2 [OF w2]]
  have grow: "dist_le (dist_at (w_rel w)) (dist_at (w_rel w3))" using ts w2 by (simp add: same_disk_def)
  show ?case
  proof (cases ok)
    case True
    then have e: "ns = ns1" "pruned = ?pr" "w' = w3" using r t by auto
    have "dist_le (dist_at (w_rel ?w2)) (dist_at (w_rel w3))" using ts by blast
    from merged_mono [OF this ns1] True ts same grow show ?thesis unfolding e
      by (intro conjI exI [of _ "1 :: nat"] exI [of _ "map n_index_pointer disk"]) (auto simp: Let_def)
  next
    case False
    let ?w3 = "count (\<lambda>s. s\<lparr>adjacency_retries := adjacency_retries s + 1\<rparr>) w3"
    have rest: "merge_loop st p ls added max_alpha num mode fuel ?w3 = Inr ((pruned, ns), w')"
      using r t False by (auto split: if_splits)
    have w3: "winv ?w3" "same_disk (interfere w) ?w3"
      using ts False same by (auto simp: winv_count same_disk_def)
    from Suc.IH [OF rest w3(1) Suc.prems(3,4)] obtain n old where i: "winv w'" "dist_le (dist_at (w_rel w3)) (dist_at (w_rel w'))"
      "0 < n" "n \<le> fuel" "w_others w' = w_others ((interfere ^^ n) ?w3)" "adj (w_rel ((interfere ^^ n) ?w3)) p = Some old"
      "adj (w_rel w') p = Some (map n_index_pointer ns)"
      "\<forall>q. q \<noteq> p \<longrightarrow> adj (w_rel w') q = adj (w_rel ((interfere ^^ n) ?w3)) q"
      "merged (dist_at (w_rel w')) mode ls max_alpha p added num pruned old ns"
      by (auto simp: Let_def)
    have s: "same_disk ((interfere ^^ Suc n) w) ((interfere ^^ n) ?w3)"
      using interfere_pow_cong [OF w3(2), of n] by (simp only: funpow_Suc_right o_apply)
    have "dist_le (dist_at (w_rel w)) (dist_at (w_rel w'))" using grow i(2) by (rule dist_le_trans)
    then show ?thesis
      using i s by (intro conjI exI [of _ "Suc n"] exI [of _ old]) (auto simp: Let_def same_disk_def simp del: funpow.simps)
  qed
qed simp

lemma merge_facts:
  assumes run: "merge_neighbors_on_disk st p ls added max_alpha num mode w = Inr ((pruned, ns), w')"
    and "winv w" "valid_ptrs added" "f64_lt max_alpha f64_max_value"
  shows "winv w'" and "\<exists>n old. 0 < n \<and> n \<le> Suc (length (w_others w)) \<and>
      (let v = (interfere ^^ n) w in
       w_others w' = w_others v \<and> adj (w_rel v) p = Some old \<and> adj (w_rel w') p = Some (map n_index_pointer ns) \<and>
       (\<forall>q. q \<noteq> p \<longrightarrow> adj (w_rel w') q = adj (w_rel v) q) \<and>
       merged (dist_at (w_rel w')) mode ls max_alpha p added num pruned old ns)"
    and "dist_le (dist_at (w_rel w)) (dist_at (w_rel w'))"
proof -
  obtain ls' v where l: "(case ls of Some l \<Rightarrow> Inr (Some l, w) | None \<Rightarrow> st_get_labels st p w) = Inr (ls', v)"
    and m: "merge_loop st p ls' added max_alpha num mode (Suc (length (w_others v))) v = Inr ((pruned, ns), w')"
    using run by (auto simp: merge_neighbors_on_disk_def simp del: merge_loop.simps)
  have v: "winv v \<and> same_disk w v" using l assms(2) get_labels by (auto split: option.splits)
  have ls': "ls \<noteq> None \<longrightarrow> ls' = ls" using l by auto
  note f = merge_loop_facts [OF m _ assms(3,4)]
  show "winv w'" using f v by blast
  show "dist_le (dist_at (w_rel w)) (dist_at (w_rel w'))" using f v by (simp add: same_disk_def)
  have "same_disk ((interfere ^^ n) w) ((interfere ^^ n) v)" for n using v interfere_pow_cong by blast
  then have *: "w_rel ((interfere ^^ n) v) = w_rel ((interfere ^^ n) w)"
    "w_others ((interfere ^^ n) v) = w_others ((interfere ^^ n) w)" for n
    by (auto simp: same_disk_def)
  have "w_others v = w_others w" using v by (simp add: same_disk_def)
  with f v obtain n old where n: "0 < n" "n \<le> Suc (length (w_others w))" "w_others w' = w_others ((interfere ^^ n) w)"
    "adj (w_rel ((interfere ^^ n) w)) p = Some old" "adj (w_rel w') p = Some (map n_index_pointer ns)"
    "\<forall>q. q \<noteq> p \<longrightarrow> adj (w_rel w') q = adj (w_rel ((interfere ^^ n) w)) q"
    "merged (dist_at (w_rel w')) mode ls' max_alpha p added num pruned old ns"
    unfolding Let_def * by metis
  from merged_label [OF n(7) ls'] n(1-6) show "\<exists>n old. 0 < n \<and> n \<le> Suc (length (w_others w)) \<and>
      (let v = (interfere ^^ n) w in
       w_others w' = w_others v \<and> adj (w_rel v) p = Some old \<and> adj (w_rel w') p = Some (map n_index_pointer ns) \<and>
       (\<forall>q. q \<noteq> p \<longrightarrow> adj (w_rel w') q = adj (w_rel v) q) \<and>
       merged (dist_at (w_rel w')) mode ls max_alpha p added num pruned old ns)"
    unfolding Let_def by blast
qed

lemma merge_loop_fuel:
  assumes "f64_le max_alpha 0x4014000000000000" "f64_lt max_alpha f64_max_value" "valid_ptrs added"
  shows "winv w \<Longrightarrow> length (w_others w) < fuel \<Longrightarrow>
    merge_loop st p ls added max_alpha num mode fuel w \<noteq> Inl OutOfFuel"
proof (induction fuel arbitrary: w)
  case (Suc fuel)
  show ?case
  proof
    assume bad: "merge_loop st p ls added max_alpha num mode (Suc fuel) w = Inl OutOfFuel"
    obtain disk w1 where d: "st_neighbors_from_disk st p w = Inr (disk, w1)"
      using bad neighbors_fuel by (cases "st_neighbors_from_disk st p w") auto
    note nb = neighbors [OF Suc.prems(1) d]
    obtain cands always where mc: "merge_candidates mode p disk added = (cands, always)" by force
    let ?pr = "always \<or> num < length cands"
    note step = merge_loop_step [OF mc d, where num = num and ls = ls and max_alpha = max_alpha and fuel = fuel]
    have "merge_choice ls max_alpha num ?pr cands w1 \<noteq> Inl OutOfFuel"
      using prune_neighbors_fuel [OF assms(1)] by (simp add: merge_choice_def)
    then obtain ns1 w2 where p2: "merge_choice ls max_alpha num ?pr cands w1 = Inr (ns1, w2)"
      using bad unfolding step by (cases "merge_choice ls max_alpha num ?pr cands w1") auto
    let ?w2 = "count (\<lambda>s. s\<lparr>adjacency_attempts := adjacency_attempts s + 1\<rparr>) w2"
    note r = bad [unfolded step p2 rbind_simps case_prod_conv]
    note ch = merge_choice_facts [OF p2 mc refl _ assms(2) _ assms(3)]
    have w2: "winv ?w2 \<and> same_disk w ?w2" and v: "valid_ptrs ns1"
      using ch nb by (auto simp: winv_count same_disk_def)
    obtain ok w3 where t: "st_try_set st p (map n_index_pointer disk) ns1 ?w2 = Inr (ok, w3)"
      using r try_set_fuel by (cases "st_try_set st p (map n_index_pointer disk) ns1 ?w2") auto
    note ts = try_set [OF conjunct1 [OF w2] v t]
    note same = same_disk_interfere [OF conjunct2 [OF w2]]
    have nok: "\<not> ok" using r t by auto
    have "w_others w \<noteq> []"
    proof
      assume "w_others w = []"
      then have "adj (w_rel (interfere ?w2)) p = adj (w_rel w) p" using same by (simp add: interfere_none)
      then show False using ts nb nok by simp
    qed
    then have "length (w_others w3) < fuel"
      using ts same Suc.prems(2) interfere_others [of w] by (cases "w_others w") auto
    then have "merge_loop st p ls added max_alpha num mode fuel (count (\<lambda>s. s\<lparr>adjacency_retries := adjacency_retries s + 1\<rparr>) w3) \<noteq> Inl OutOfFuel"
      using ts by (intro Suc.IH) (auto simp: winv_count)
    then show False using r t nok by simp
  qed
qed simp

lemma merge_fuel:
  assumes "f64_le max_alpha 0x4014000000000000" "f64_lt max_alpha f64_max_value" "valid_ptrs added" "winv w"
  shows "merge_neighbors_on_disk st p ls added max_alpha num mode w \<noteq> Inl OutOfFuel"
proof
  assume bad: "merge_neighbors_on_disk st p ls added max_alpha num mode w = Inl OutOfFuel"
  let ?l = "case ls of Some l \<Rightarrow> Inr (Some l, w) | None \<Rightarrow> st_get_labels st p w"
  have "?l \<noteq> Inl OutOfFuel" using get_labels_fuel by (simp split: option.splits)
  then obtain ls' v where l: "?l = Inr (ls', v)"
    and m: "merge_loop st p ls' added max_alpha num mode (Suc (length (w_others v))) v = Inl OutOfFuel"
    using bad by (cases ?l) (auto simp: merge_neighbors_on_disk_def simp del: merge_loop.simps)
  have "winv v" using l assms(4) get_labels by (auto split: option.splits)
  then show False using m merge_loop_fuel [OF assms(1-3)] by blast
qed

end

end
