(* ===== verification/Neighbor_Store.thy ===== *)
theory Neighbor_Store
  imports Neighbor_Merge
begin

text \<open>
  \<open>graph/neighbor_store.rs\<close>: where the graph finds the neighbours of a node. Outside a build that
  is the disk; during a build it is a cache of adjacency lists with their distances, whose evicted
  entries are merged back to disk and whose entries are flushed from time to time.

  The sizes of \<open>NeighborCacheEntry\<close> and \<open>NeighborWithDistance\<close> are the compiler's and arguments of
  the capacity computation, like \<open>maintenance_work_mem\<close>.
\<close>

record neighbor_cache_entry =
  e_labels :: "label_set option"
  e_neighbors :: "neighbor_with_distance list"

definition neighbor_cache_entry_size :: "nat \<Rightarrow> nat \<Rightarrow> nat \<Rightarrow> bool \<Rightarrow> nat" where
  "neighbor_cache_entry_size size_entry size_neighbor num_neighbors has_labels =
     size_entry + num_neighbors * size_neighbor + (if has_labels then 8 else 0)"

record builder_cache =
  neighbor_map :: "(item_pointer, neighbor_cache_entry) lru"
  b_num_neighbors :: nat
  b_max_alpha :: f64

definition builder_cache_new ::
  "nat \<Rightarrow> nat \<Rightarrow> nat \<Rightarrow> f64 \<Rightarrow> nat \<Rightarrow> bool \<Rightarrow> f64 \<Rightarrow> nat \<Rightarrow> builder_cache" where
  "builder_cache_new maintenance_work_mem_bytes size_entry size_neighbor memory_budget num_neighbors
       has_labels max_alpha worker_count =
     (let total_memory = f64_of_nat maintenance_work_mem_bytes;
          budget = f64_to_usize (f64_ceil (f64_mul total_memory memory_budget));
          capacity = budget div neighbor_cache_entry_size size_entry size_neighbor num_neighbors has_labels;
          capacity = (if worker_count > 0 then capacity div worker_count else capacity)
      in \<lparr>neighbor_map = lru_new (max capacity 1), b_num_neighbors = num_neighbors, b_max_alpha = max_alpha\<rparr>)"

type_synonym builder_ops = "(item_pointer, neighbor_cache_entry) lru_ops"

text \<open>Sorted by key for the final write.\<close>

definition builder_into_sorted :: "builder_cache \<Rightarrow> (item_pointer \<times> neighbor_cache_entry) list" where
  "builder_into_sorted b = sort_key fst (entries (neighbor_map b))"

definition builder_set_neighbors ::
  "builder_ops \<Rightarrow> ('n, 'd) disk_ops \<Rightarrow> builder_cache \<Rightarrow> item_pointer \<Rightarrow> label_set option
     \<Rightarrow> neighbor_with_distance list \<Rightarrow> 'n world \<Rightarrow> (builder_cache \<times> 'n world) res" where
  "builder_set_neighbors lops st self neighbors_of ls new_neighbors w =
     rbind (case ls of Some l \<Rightarrow> Inr (Some l, w) | None \<Rightarrow> st_get_labels st neighbors_of w) (\<lambda>(ls, w).
     let (evictee, m) = lru_push lops neighbors_of \<lparr>e_labels = ls, e_neighbors = new_neighbors\<rparr> (neighbor_map self);
         self = self\<lparr>neighbor_map := m\<rparr>
     in case evictee of
          None \<Rightarrow> Inr (self, w)
        | Some (key, value) \<Rightarrow>
            rbind (merge_neighbors_on_disk st key (e_labels value) (e_neighbors value) (b_max_alpha self)
                     (b_num_neighbors self) (MergeBuilder True) w) (\<lambda>(_, w).
            Inr (self, w)))"

definition builder_get_neighbors_with_distances ::
  "builder_ops \<Rightarrow> ('n, 'd) disk_ops \<Rightarrow> builder_cache \<Rightarrow> item_pointer \<Rightarrow> 'n world
     \<Rightarrow> (neighbor_with_distance list \<times> builder_cache \<times> 'n world) res" where
  "builder_get_neighbors_with_distances lops st self neighbors_of w =
     (let (entry, m) = lru_get lops neighbors_of (neighbor_map self); self = self\<lparr>neighbor_map := m\<rparr> in
      case entry of
        Some e \<Rightarrow> Inr (e_neighbors e, self, w)
      | None \<Rightarrow>
          rbind (st_neighbors_from_disk st neighbors_of w) (\<lambda>(neighbors, w).
          rbind (builder_set_neighbors lops st self neighbors_of None neighbors w) (\<lambda>(self, w).
          Inr (neighbors, self, w))))"

definition builder_get_neighbors ::
  "builder_ops \<Rightarrow> ('n, 'd) disk_ops \<Rightarrow> builder_cache \<Rightarrow> item_pointer \<Rightarrow> 'n world
     \<Rightarrow> (item_pointer list \<times> builder_cache \<times> 'n world) res" where
  "builder_get_neighbors lops st self neighbors_of w =
     rbind (builder_get_neighbors_with_distances lops st self neighbors_of w) (\<lambda>(neighbors, self, w).
     Inr (map n_index_pointer neighbors, self, w))"

text \<open>The flush pops until the cache is empty; each pop removes an entry.\<close>

fun flush_loop ::
  "builder_ops \<Rightarrow> ('n, 'd) disk_ops \<Rightarrow> nat \<Rightarrow> builder_cache \<Rightarrow> 'n world \<Rightarrow> (builder_cache \<times> 'n world) res" where
  "flush_loop lops st 0 self w = Inl OutOfFuel"
| "flush_loop lops st (Suc fuel) self w =
     (case lru_pop_lru lops (neighbor_map self) of
        None \<Rightarrow> Inr (self, w)
      | Some ((neighbors_of, entry), m) \<Rightarrow>
          let self = self\<lparr>neighbor_map := m\<rparr> in
          rbind (merge_neighbors_on_disk st neighbors_of (e_labels entry) (e_neighbors entry)
                   (b_max_alpha self) (b_num_neighbors self) (MergeBuilder False) w) (\<lambda>(_, w).
          flush_loop lops st fuel self w))"

definition flush_neighbor_cache ::
  "builder_ops \<Rightarrow> ('n, 'd) disk_ops \<Rightarrow> builder_cache \<Rightarrow> 'n world \<Rightarrow> (builder_cache \<times> 'n world) res" where
  "flush_neighbor_cache lops st self w = flush_loop lops st (Suc (lru_len (neighbor_map self))) self w"

section \<open>The neighbour store of a graph\<close>

datatype neighbor_store = BuilderStore builder_cache | DiskStore

definition gns_get_neighbors_with_distances ::
  "builder_ops \<Rightarrow> ('n, 'd) disk_ops \<Rightarrow> neighbor_store \<Rightarrow> item_pointer \<Rightarrow> 'n world
     \<Rightarrow> (neighbor_with_distance list \<times> neighbor_store \<times> 'n world) res" where
  "gns_get_neighbors_with_distances lops st gns neighbors_of w =
     (case gns of
        BuilderStore b \<Rightarrow>
          rbind (builder_get_neighbors_with_distances lops st b neighbors_of w) (\<lambda>(ns, b, w).
          Inr (ns, BuilderStore b, w))
      | DiskStore \<Rightarrow>
          rbind (st_neighbors_from_disk st neighbors_of w) (\<lambda>(ns, w). Inr (ns, DiskStore, w)))"

definition gns_initialize_neighbors ::
  "builder_ops \<Rightarrow> ('n, 'd) disk_ops \<Rightarrow> neighbor_store \<Rightarrow> item_pointer \<Rightarrow> label_set option \<Rightarrow> 'n world
     \<Rightarrow> (neighbor_store \<times> 'n world) res" where
  "gns_initialize_neighbors lops st gns neighbors_of ls w =
     (case gns of
        BuilderStore b \<Rightarrow>
          rbind (builder_set_neighbors lops st b neighbors_of ls [] w) (\<lambda>(b, w). Inr (BuilderStore b, w))
      | DiskStore \<Rightarrow> Inr (DiskStore, w))"

definition gns_max_neighbors :: "neighbor_store \<Rightarrow> nat \<Rightarrow> nat \<Rightarrow> nat" where
  "gns_max_neighbors gns max_neighbors_during_build num_neighbors =
     (case gns of BuilderStore _ \<Rightarrow> max_neighbors_during_build | DiskStore \<Rightarrow> num_neighbors)"

definition gns_into_sorted :: "neighbor_store \<Rightarrow> (item_pointer \<times> neighbor_cache_entry) list res" where
  "gns_into_sorted gns =
     (case gns of
        BuilderStore b \<Rightarrow> Inr (builder_into_sorted b)
      | DiskStore \<Rightarrow> Inl (Panic ''Should not be using the disk neighbor store during build''))"

section \<open>The cache and the disk\<close>

definition builder_ok :: "builder_cache \<Rightarrow> bool" where
  "builder_ok b \<longleftrightarrow> lru_inv (neighbor_map b) \<and> (\<forall>p e. lru_lookup (neighbor_map b) p = Some e \<longrightarrow> valid_ptrs (e_neighbors e))
     \<and> f64_le (b_max_alpha b) 0x4014000000000000"

lemma max_alpha_finite: "f64_le a 0x4014000000000000 \<Longrightarrow> f64_lt a f64_max_value"
proof -
  have "f64_lt 0x4014000000000000 f64_max_value" unfolding f64_max_value_def by code_simp
  then show "f64_le a 0x4014000000000000 \<Longrightarrow> f64_lt a f64_max_value" using f64_le_lt_trans by blast
qed

locale cached_storage = disk_storage st winv dist_at adj k + lru_laws lops
  for st :: "('n, 'd) disk_ops" and winv dist_at adj k and lops :: builder_ops
begin

text \<open>Caching the adjacency of a node: it is found again, and an evicted one is merged to disk first.\<close>

lemma builder_set_facts:
  assumes run: "builder_set_neighbors lops st b p ls ns w = Inr (b', w')"
    and ok: "builder_ok b" and w: "winv w" and v: "valid_ptrs ns"
  shows "builder_ok b' \<and> winv w' \<and> b_num_neighbors b' = b_num_neighbors b \<and>
    (\<exists>e. lru_lookup (neighbor_map b') p = Some e \<and> e_neighbors e = ns)"
    and "\<And>q e. lru_lookup (neighbor_map b) q = Some e \<Longrightarrow> q \<noteq> p \<Longrightarrow>
      lru_lookup (neighbor_map b') q = Some e \<or>
      (\<exists>pr ns' old n. adj (w_rel ((interfere ^^ n) w)) q = Some old \<and>
         adj (w_rel w') q = Some (map n_index_pointer ns') \<and> merged (dist_at (w_rel w')) (MergeBuilder True) (e_labels e) (b_max_alpha b) q (e_neighbors e) (b_num_neighbors b) pr old ns')"
proof -
  obtain ls' w1 where l: "(case ls of Some l \<Rightarrow> Inr (Some l, w) | None \<Rightarrow> st_get_labels st p w) = Inr (ls', w1)"
    using run by (auto simp: builder_set_neighbors_def)
  obtain ev m where push: "lru_push lops p \<lparr>e_labels = ls', e_neighbors = ns\<rparr> (neighbor_map b) = (ev, m)"
    by force
  have rest: "(case ev of None \<Rightarrow> Inr (b\<lparr>neighbor_map := m\<rparr>, w1)
        | Some (key, value) \<Rightarrow>
            rbind (merge_neighbors_on_disk st key (e_labels value) (e_neighbors value) (b_max_alpha b)
                     (b_num_neighbors b) (MergeBuilder True) w1) (\<lambda>(_, w).
            Inr (b\<lparr>neighbor_map := m\<rparr>, w))) = Inr (b', w')"
    using run l push by (cases ev) (simp_all add: builder_set_neighbors_def Let_def)
  have w1: "winv w1 \<and> same_disk w w1" using l w get_labels by (auto split: option.splits)
  have inv: "lru_inv (neighbor_map b)" and al: "f64_lt (b_max_alpha b) f64_max_value"
    using ok max_alpha_finite by (auto simp: builder_ok_def)
  note pf = lru_push_facts [OF inv push]
  have b': "b' = b\<lparr>neighbor_map := m\<rparr>" using rest by (auto split: option.splits)
  have bok: "builder_ok b'"
    using ok pf v unfolding b' builder_ok_def by (auto split: option.splits if_splits)
  have ex: "\<exists>e. lru_lookup (neighbor_map b') p = Some e \<and> e_neighbors e = ns"
    using pf unfolding b' by (auto split: option.splits)
  have pows: "w_rel ((interfere ^^ n) w1) = w_rel ((interfere ^^ n) w)" for n
    using interfere_pow_cong [OF conjunct2 [OF w1], of n] by (simp add: same_disk_def)
  show main: "builder_ok b' \<and> winv w' \<and> b_num_neighbors b' = b_num_neighbors b \<and>
    (\<exists>e. lru_lookup (neighbor_map b') p = Some e \<and> e_neighbors e = ns)"
  proof (cases ev)
    case None
    then show ?thesis using bok ex rest w1 by (auto simp: b')
  next
    case (Some kv)
    obtain key val where kv: "kv = (key, val)" by (cases kv)
    obtain pr ns' where mg: "merge_neighbors_on_disk st key (e_labels val) (e_neighbors val) (b_max_alpha b)
                     (b_num_neighbors b) (MergeBuilder True) w1 = Inr ((pr, ns'), w')"
      using rest Some kv by auto
    have "valid_ptrs (e_neighbors val)" using pf ok Some kv by (auto simp: builder_ok_def)
    from merge_facts(1) [OF mg conjunct1 [OF w1] this al] show ?thesis using bok ex by (auto simp: b')
  qed
  fix q e assume q: "lru_lookup (neighbor_map b) q = Some e" "q \<noteq> p"
  show "lru_lookup (neighbor_map b') q = Some e \<or>
      (\<exists>pr ns' old n. adj (w_rel ((interfere ^^ n) w)) q = Some old \<and>
         adj (w_rel w') q = Some (map n_index_pointer ns') \<and> merged (dist_at (w_rel w')) (MergeBuilder True) (e_labels e) (b_max_alpha b) q (e_neighbors e) (b_num_neighbors b) pr old ns')"
  proof (cases "lru_lookup (neighbor_map b') q = Some e")
    case False
    then obtain val where ev: "ev = Some (q, val)" and val: "val = e"
      using pf q unfolding b' by (auto split: option.splits if_splits)
    obtain pr ns' where mg: "merge_neighbors_on_disk st q (e_labels e) (e_neighbors e) (b_max_alpha b)
                     (b_num_neighbors b) (MergeBuilder True) w1 = Inr ((pr, ns'), w')"
      using rest ev val by auto
    have "valid_ptrs (e_neighbors e)" using ok q by (auto simp: builder_ok_def)
    from merge_facts(2) [OF mg conjunct1 [OF w1] this al] obtain n old where
      "adj (w_rel ((interfere ^^ n) w)) q = Some old" "adj (w_rel w') q = Some (map n_index_pointer ns')"
      "merged (dist_at (w_rel w')) (MergeBuilder True) (e_labels e) (b_max_alpha b) q (e_neighbors e) (b_num_neighbors b) pr old ns'"
      unfolding Let_def pows by blast
    then show ?thesis by blast
  qed simp
qed

lemma flush_fuel:
  "builder_ok b \<Longrightarrow> winv w \<Longrightarrow> length (entries (neighbor_map b)) < fuel \<Longrightarrow>
     flush_loop lops st fuel b w \<noteq> Inl OutOfFuel"
proof (induction fuel arbitrary: b w)
  case (Suc fuel)
  have inv: "lru_inv (neighbor_map b)" and al: "f64_le (b_max_alpha b) 0x4014000000000000"
    using Suc.prems(1) by (auto simp: builder_ok_def)
  note pf = lru_pop_facts [OF inv]
  show ?case
  proof (cases "lru_pop_lru lops (neighbor_map b)")
    case (Some x)
    obtain p e m where x: "x = ((p, e), m)" by (metis surj_pair)
    have p: "lru_inv m" "lru_lookup (neighbor_map b) p = Some e" "lru_lookup m = (lru_lookup (neighbor_map b))(p := None)"
      "length (entries (neighbor_map b)) = Suc (length (entries m))"
      using pf Some x by auto
    have ok: "builder_ok (b\<lparr>neighbor_map := m\<rparr>)" using Suc.prems(1) p by (auto simp: builder_ok_def)
    have v: "valid_ptrs (e_neighbors e)" using Suc.prems(1) p by (auto simp: builder_ok_def)
    note mf = merge_fuel [OF al max_alpha_finite [OF al] v Suc.prems(2)]
    let ?m = "merge_neighbors_on_disk st p (e_labels e) (e_neighbors e) (b_max_alpha b) (b_num_neighbors b) (MergeBuilder False) w"
    show ?thesis
    proof (cases ?m)
      case (Inl err)
      then show ?thesis using Some x mf [of p "e_labels e"] by auto
    next
      case (Inr r)
      obtain pr ns w' where r: "r = ((pr, ns), w')" by (metis surj_pair)
      have "winv w'" using merge_facts(1) [OF Inr [unfolded r] Suc.prems(2) v max_alpha_finite [OF al]] .
      then show ?thesis using Some x Inr r Suc.IH [OF ok, of w'] p(4) Suc.prems(3) by simp
    qed
  qed simp
qed simp

text \<open>
  Without other backends, a flush publishes every cached adjacency: each is merged into the one on
  disk, no other node changes, and the cache is empty afterwards.
\<close>

lemma flush_facts:
  "flush_loop lops st fuel b w = Inr (b', w') \<Longrightarrow> builder_ok b \<Longrightarrow> winv w \<Longrightarrow> w_others w = [] \<Longrightarrow>
     winv w' \<and> dist_le (dist_at (w_rel w)) (dist_at (w_rel w')) \<and> entries (neighbor_map b') = [] \<and> w_others w' = [] \<and>
     (\<forall>q. case lru_lookup (neighbor_map b) q of
        None \<Rightarrow> adj (w_rel w') q = adj (w_rel w) q
      | Some e \<Rightarrow> \<exists>pr ns old. adj (w_rel w) q = Some old \<and> adj (w_rel w') q = Some (map n_index_pointer ns) \<and>
          merged (dist_at (w_rel w')) (MergeBuilder False) (e_labels e) (b_max_alpha b) q (e_neighbors e) (b_num_neighbors b) pr old ns)"
proof (induction fuel arbitrary: b w)
  case (Suc fuel)
  have inv: "lru_inv (neighbor_map b)" and al: "f64_le (b_max_alpha b) 0x4014000000000000"
    using Suc.prems(2) by (auto simp: builder_ok_def)
  note pf = lru_pop_facts [OF inv]
  show ?case
  proof (cases "lru_pop_lru lops (neighbor_map b)")
    case None
    then show ?thesis using Suc.prems pf by auto
  next
    case (Some x)
    obtain p e m where x: "x = ((p, e), m)" by (metis surj_pair)
    have p: "lru_inv m" "lru_lookup (neighbor_map b) p = Some e" "lru_lookup m = (lru_lookup (neighbor_map b))(p := None)"
      using pf Some x by auto
    let ?b = "b\<lparr>neighbor_map := m\<rparr>"
    have ok: "builder_ok ?b" using Suc.prems(2) p by (auto simp: builder_ok_def)
    have v: "valid_ptrs (e_neighbors e)" using Suc.prems(2) p by (auto simp: builder_ok_def)
    obtain pr ns w1 where mg: "merge_neighbors_on_disk st p (e_labels e) (e_neighbors e) (b_max_alpha b)
        (b_num_neighbors b) (MergeBuilder False) w = Inr ((pr, ns), w1)"
      and rest: "flush_loop lops st fuel ?b w1 = Inr (b', w')"
      using Suc.prems(1) Some x by auto
    note mf = merge_facts [OF mg Suc.prems(3) v max_alpha_finite [OF al]]
    have none: "(interfere ^^ n) w = w" for n
      by (induction n) (simp_all add: interfere_none Suc.prems(4))
    from mf(2) obtain old where m2: "w_others w1 = []" "adj (w_rel w) p = Some old"
      "adj (w_rel w1) p = Some (map n_index_pointer ns)" "\<forall>q. q \<noteq> p \<longrightarrow> adj (w_rel w1) q = adj (w_rel w) q"
      "merged (dist_at (w_rel w1)) (MergeBuilder False) (e_labels e) (b_max_alpha b) p (e_neighbors e) (b_num_neighbors b) pr old ns"
      unfolding none Let_def using Suc.prems(4) by auto
    note ih = Suc.IH [OF rest ok mf(1) m2(1)]
    have m3: "merged (dist_at (w_rel w')) (MergeBuilder False) (e_labels e) (b_max_alpha b) p (e_neighbors e) (b_num_neighbors b) pr old ns"
      using merged_mono [OF _ m2(5)] ih by blast
    have grow: "dist_le (dist_at (w_rel w)) (dist_at (w_rel w'))" using dist_le_trans [OF mf(3)] ih by blast
    show ?thesis
    proof (intro conjI allI)
      fix q
      note iq = ih [THEN conjunct2, THEN conjunct2, THEN conjunct2, THEN conjunct2, THEN spec, of q]
      show "case lru_lookup (neighbor_map b) q of
        None \<Rightarrow> adj (w_rel w') q = adj (w_rel w) q
      | Some e \<Rightarrow> \<exists>pr ns old. adj (w_rel w) q = Some old \<and> adj (w_rel w') q = Some (map n_index_pointer ns) \<and>
          merged (dist_at (w_rel w')) (MergeBuilder False) (e_labels e) (b_max_alpha b) q (e_neighbors e) (b_num_neighbors b) pr old ns"
      proof (cases "q = p")
        case True
        have "adj (w_rel w') p = Some (map n_index_pointer ns)" using iq p(3) m2(3) True by simp
        then show ?thesis
          unfolding True p(2) option.case by (intro exI conjI) (rule m2(2) m3 | assumption)+
      next
        case False
        then have e: "lru_lookup (neighbor_map ?b) q = lru_lookup (neighbor_map b) q" "adj (w_rel w1) q = adj (w_rel w) q"
          using p(3) m2(4) by simp_all
        have b: "b_max_alpha ?b = b_max_alpha b" "b_num_neighbors ?b = b_num_neighbors b" by simp_all
        show ?thesis using iq unfolding e b .
      qed
    qed (use ih grow in auto)
  qed
qed simp

end

end
