(* ===== verification/List_Search.thy ===== *)
theory List_Search
  imports Binary_Heap Neighbor_Store
begin

text \<open>
  \<open>ListSearchNeighbor\<close> and \<open>ListSearchResult\<close> of \<open>graph/mod.rs\<close>: the state of a greedy search.
  Candidates wait in a heap that pops the closest one, visited nodes are kept sorted by distance,
  and \<open>inserted\<close> holds every pointer ever met. The statistics are those of the world; the
  preallocated capacities have no effect.
\<close>

section \<open>Search neighbours and their order\<close>

record 'pd lsn =
  lsn_index_pointer :: item_pointer
  lsn_distance :: distance_with_tie_break
  lsn_private_data :: 'pd
  lsn_labels :: "label_set option"

definition lsn_cmp :: "'pd lsn \<Rightarrow> 'pd lsn \<Rightarrow> ordering" where
  "lsn_cmp a b = dwt_cmp (lsn_distance a) (lsn_distance b)"

definition lsn_eq :: "'pd lsn \<Rightarrow> 'pd lsn \<Rightarrow> bool" where
  "lsn_eq a b = (lsn_index_pointer a = lsn_index_pointer b)"

definition lsn_key :: "'pd lsn \<Rightarrow> int \<times> nat" where
  "lsn_key n = dwt_key (lsn_distance n)"

lemma lsn_cmp_key: "lsn_cmp a b = cmp_of (lsn_key a) (lsn_key b)"
  by (simp add: lsn_cmp_def lsn_key_def dwt_cmp_key)

text \<open>The order of \<open>Reverse\<close>: less or equal in the heap is further away.\<close>

definition reverse_le :: "'pd lsn \<Rightarrow> 'pd lsn \<Rightarrow> bool" where
  "reverse_le a b = (lsn_cmp b a \<noteq> Greater)"

lemma reverse_le_key: "reverse_le a b \<longleftrightarrow> lsn_key b \<le> lsn_key a"
  by (simp add: reverse_le_def lsn_cmp_key not_less)

interpretation cand: total_preorder "reverse_le :: 'pd lsn \<Rightarrow> 'pd lsn \<Rightarrow> bool"
  by unfold_locales (auto simp: reverse_le_key)

section \<open>The state of a search\<close>

record ('q, 'pd) lsr =
  candidates :: "'pd lsn list"
  visited :: "'pd lsn list"
  inserted :: "item_pointer set"
  sdm :: "'q option"
  tie_break_item_pointer :: "item_pointer option"

definition lsr_empty :: "('q, 'pd) lsr" where
  "lsr_empty = \<lparr>candidates = [], visited = [], inserted = {}, sdm = None, tie_break_item_pointer = None\<rparr>"

definition prepare_insert :: "('q, 'pd) lsr \<Rightarrow> item_pointer \<Rightarrow> bool \<times> ('q, 'pd) lsr" where
  "prepare_insert l ip = (ip \<notin> inserted l, l\<lparr>inserted := insert ip (inserted l)\<rparr>)"

definition create_distance_with_tie_break ::
  "('q, 'pd) lsr \<Rightarrow> f32 \<Rightarrow> item_pointer \<Rightarrow> distance_with_tie_break res" where
  "create_distance_with_tie_break l d ip =
     (case tie_break_item_pointer l of
        None \<Rightarrow> Inr (dwt_with_query d ip)
      | Some t \<Rightarrow> dwt_new d ip t)"

definition insert_neighbor :: "'pd lsn \<Rightarrow> ('q, 'pd) lsr \<Rightarrow> 'n world \<Rightarrow> ('q, 'pd) lsr \<times> 'n world" where
  "insert_neighbor n l w = (l\<lparr>candidates := bh_push reverse_le n (candidates l)\<rparr>, count record_candidate w)"

definition get_lsn_by_idx :: "('q, 'pd) lsr \<Rightarrow> nat \<Rightarrow> 'pd lsn res" where
  "get_lsn_by_idx l idx =
     (if idx < length (visited l) then Inr (visited l ! idx) else Inl (Panic ''index out of bounds''))"

text \<open>
  \<open>visit_closest\<close>: the next candidate, unless enough nodes have been visited and it is no closer
  than the last of them; \<open>pos_limit - 1\<close> underflows at 0.
\<close>

definition visit_closest :: "nat \<Rightarrow> ('q, 'pd) lsr \<Rightarrow> (nat option \<times> ('q, 'pd) lsr) res" where
  "visit_closest pos_limit l =
     (case bh_peek (candidates l) of
        None \<Rightarrow> Inr (None, l)
      | Some head \<Rightarrow>
          rbind (if length (visited l) > pos_limit then
                   rbind (rassert (pos_limit > 0) ''attempt to subtract with overflow'') (\<lambda>_.
                   Inr (lsn_cmp head (visited l ! (pos_limit - 1)) \<noteq> Less))
                 else Inr False) (\<lambda>stop.
          if stop then Inr (None, l)
          else
            rbind (runwrap (bh_pop reverse_le (candidates l)) ''unwrap'') (\<lambda>(head, rest).
            let idx = partition_point (\<lambda>x. lsn_cmp x head = Less) (visited l) in
            Inr (Some idx, l\<lparr>candidates := rest, visited := insert_at idx head (visited l)\<rparr>))))"

section \<open>Invariant\<close>

abbreviation ptrs :: "'pd lsn list \<Rightarrow> item_pointer list" where
  "ptrs xs \<equiv> map lsn_index_pointer xs"

text \<open>
  Candidates form a heap, visited nodes are sorted, and no node is in either of them twice: what
  was put in was recorded in \<open>inserted\<close> before.
\<close>

definition lsr_inv :: "('q, 'pd) lsr \<Rightarrow> bool" where
  "lsr_inv l \<longleftrightarrow>
     heap_inv reverse_le (candidates l) \<and>
     sorted (map lsn_key (visited l)) \<and>
     distinct (ptrs (candidates l) @ ptrs (visited l)) \<and>
     lsn_index_pointer ` (set (candidates l) \<union> set (visited l)) \<subseteq> inserted l"

lemma lsr_empty_inv [simp]: "lsr_inv lsr_empty"
  by (simp add: lsr_inv_def lsr_empty_def heap_inv_def)

lemma sorted_insert_at_partition:
  assumes "sorted (map lsn_key xs)"
  shows "sorted (map lsn_key (insert_at (partition_point (\<lambda>x. lsn_cmp x h = Less) xs) h xs))"
proof -
  let ?P = "\<lambda>x. lsn_cmp x h = Less"
  have t: "\<forall>x \<in> set (takeWhile ?P xs). lsn_key x \<le> lsn_key h"
    by (auto simp: lsn_cmp_key dest!: set_takeWhileD)
  have s: "sorted (map lsn_key (takeWhile ?P xs @ dropWhile ?P xs))" using assms by simp
  have d: "\<forall>x \<in> set (dropWhile ?P xs). lsn_key h \<le> lsn_key x"
  proof (cases "dropWhile ?P xs")
    case (Cons y ys)
    then have "\<not> ?P y" using hd_dropWhile [of ?P xs] by simp
    moreover have "sorted (map lsn_key (y # ys))" using s unfolding Cons by (simp add: sorted_append)
    ultimately show ?thesis unfolding Cons by (auto simp: lsn_cmp_key)
  next
    case Nil
    then show ?thesis by (simp only: list.set ball_empty)
  qed
  show ?thesis
    unfolding takeWhile_append_dropWhile_partition
    using s [unfolded map_append sorted_append] t d by (auto simp: sorted_append)
qed

lemma visit_closest_facts:
  assumes run: "visit_closest n l = Inr (r, l')" and inv: "lsr_inv l"
  shows "lsr_inv l' \<and> inserted l' = inserted l \<and> sdm l' = sdm l \<and>
      tie_break_item_pointer l' = tie_break_item_pointer l \<and>
      (case r of
         None \<Rightarrow> l' = l \<and> (candidates l = [] \<or> n < length (visited l) \<and>
                   (\<forall>c \<in> set (candidates l). lsn_key (visited l ! (n - 1)) \<le> lsn_key c))
       | Some i \<Rightarrow> \<exists>h. h \<in> set (candidates l) \<and> (\<forall>c \<in> set (candidates l). lsn_key h \<le> lsn_key c) \<and>
           i < length (visited l') \<and> visited l' ! i = h \<and> mset (visited l') = add_mset h (mset (visited l)) \<and>
           mset (candidates l) = add_mset h (mset (candidates l')))"
proof (cases "candidates l")
  case Nil
  then show ?thesis using run inv by (auto simp: visit_closest_def bh_peek_def)
next
  case (Cons c cs)
  have hp: "heap_inv reverse_le (candidates l)" using inv by (simp add: lsr_inv_def)
  have top: "\<forall>x \<in> set (candidates l). lsn_key c \<le> lsn_key x"
  proof
    fix x assume "x \<in> set (candidates l)"
    then obtain j where "j < length (candidates l)" "x = candidates l ! j" by (metis in_set_conv_nth)
    with cand.heap_root [OF hp this(1)] show "lsn_key c \<le> lsn_key x" by (simp add: Cons reverse_le_key)
  qed
  show ?thesis
  proof (cases r)
    case None
    then have "l' = l" "n < length (visited l)" "lsn_cmp c (visited l ! (n - 1)) \<noteq> Less"
      using run Cons by (auto simp: visit_closest_def bh_peek_def Let_def split: if_splits)
    then show ?thesis
      using None inv top by (auto simp: lsn_cmp_key not_less intro: order_trans)
  next
    case (Some i)
    then obtain h rest where pop: "bh_pop reverse_le (candidates l) = Some (h, rest)"
      and i: "i = partition_point (\<lambda>x. lsn_cmp x h = Less) (visited l)"
      and l': "l' = l\<lparr>candidates := rest, visited := insert_at i h (visited l)\<rparr>"
      using run Cons by (auto simp: visit_closest_def bh_peek_def Let_def split: if_splits)
    note pf = cand.bh_pop_heap [OF hp pop]
    have il: "i \<le> length (visited l)" unfolding i by simp
    have hmem: "h \<in> set (candidates l)" using pf(2) by (metis set_mset_mset union_single_eq_member)
    have "mset (ptrs (candidates l')) + mset (ptrs (visited l')) = mset (ptrs (candidates l)) + mset (ptrs (visited l))"
      using pf(2) unfolding l' by simp
    then have "mset (ptrs (candidates l') @ ptrs (visited l')) = mset (ptrs (candidates l) @ ptrs (visited l))"
      by simp
    then have "distinct (ptrs (candidates l') @ ptrs (visited l'))"
      using inv unfolding lsr_inv_def by (metis mset_eq_imp_distinct_iff)
    moreover have "set (candidates l) = insert h (set rest)"
      using pf(2) by (metis set_mset_add_mset_insert set_mset_mset)
    ultimately have "lsr_inv l'"
      using inv pf(1) sorted_insert_at_partition [of "visited l" h] unfolding lsr_inv_def l' i by auto
    then show ?thesis
      using Some pf hmem il top unfolding l' by (auto simp: reverse_le_key)
  qed
qed

section \<open>Insertions\<close>

text \<open>
  What a storage does to the state while it visits a node: it records pointers, and puts a
  candidate in for some of the newly recorded ones. \<open>P\<close> bounds the pointers it can meet.
\<close>

definition lsr_step :: "item_pointer set \<Rightarrow> ('q, 'pd) lsr \<Rightarrow> ('q, 'pd) lsr \<Rightarrow> bool" where
  "lsr_step P l l' \<longleftrightarrow>
     inserted l \<subseteq> inserted l' \<and> inserted l' \<subseteq> inserted l \<union> P \<and> visited l' = visited l \<and>
     sdm l' = sdm l \<and> tie_break_item_pointer l' = tie_break_item_pointer l \<and>
     (lsr_inv l \<longrightarrow> lsr_inv l') \<and>
     (\<exists>new. mset (candidates l') = mset (candidates l) + mset new \<and> distinct (ptrs new) \<and>
        set (ptrs new) \<subseteq> inserted l' - inserted l)"

lemma lsr_step_refl [simp]: "lsr_step P l l"
  unfolding lsr_step_def by (auto intro: exI [of _ "[]"])

lemma lsr_step_trans: "lsr_step P l m \<Longrightarrow> lsr_step P m n \<Longrightarrow> lsr_step P l n"
proof -
  assume a: "lsr_step P l m" and b: "lsr_step P m n"
  obtain xs where xs: "mset (candidates m) = mset (candidates l) + mset xs" "distinct (ptrs xs)"
    "set (ptrs xs) \<subseteq> inserted m - inserted l" using a by (auto simp: lsr_step_def)
  obtain ys where ys: "mset (candidates n) = mset (candidates m) + mset ys" "distinct (ptrs ys)"
    "set (ptrs ys) \<subseteq> inserted n - inserted m" using b by (auto simp: lsr_step_def)
  have "set (ptrs xs) \<inter> set (ptrs ys) = {}" using xs(3) ys(3) by blast
  moreover have "inserted l \<subseteq> inserted m" "inserted m \<subseteq> inserted n" using a b by (auto simp: lsr_step_def)
  ultimately have "mset (candidates n) = mset (candidates l) + mset (xs @ ys)" "distinct (ptrs (xs @ ys))"
    "set (ptrs (xs @ ys)) \<subseteq> inserted n - inserted l"
    using xs ys by (simp_all del: set_map) blast+
  note new = this
  have ex: "\<exists>new. mset (candidates n) = mset (candidates l) + mset new \<and> distinct (ptrs new) \<and>
        set (ptrs new) \<subseteq> inserted n - inserted l"
    by (intro exI [of _ "xs @ ys"] conjI new)
  have "inserted l \<subseteq> inserted n" "inserted n \<subseteq> inserted l \<union> P" "visited n = visited l" "sdm n = sdm l"
    "tie_break_item_pointer n = tie_break_item_pointer l" "lsr_inv l \<longrightarrow> lsr_inv n"
    using a b by (auto simp: lsr_step_def)
  with ex show ?thesis unfolding lsr_step_def by (intro conjI)
qed

lemma lsr_inv_record: "lsr_inv l \<Longrightarrow> lsr_inv (l\<lparr>inserted := insert p (inserted l)\<rparr>)"
  unfolding lsr_inv_def by (simp add: subset_insertI2)

lemma lsr_step_record:
  assumes "prepare_insert l p = (b, l')" "p \<in> P"
  shows "lsr_step P l l'"
proof -
  have l': "l' = l\<lparr>inserted := insert p (inserted l)\<rparr>" using assms(1) by (auto simp: prepare_insert_def)
  show ?thesis
    unfolding lsr_step_def l' using assms(2) lsr_inv_record [of l p] by (auto intro: exI [of _ "[]"])
qed

lemma lsr_step_insert:
  assumes "prepare_insert l p = (True, l1)" "p \<in> P" "lsn_index_pointer n = p"
    and "insert_neighbor n l1 w = (l', w')"
  shows "lsr_step P l l'"
proof -
  have l1: "l1 = l\<lparr>inserted := insert p (inserted l)\<rparr>" and p: "p \<notin> inserted l"
    using assms(1) by (auto simp: prepare_insert_def)
  have l': "l' = l1\<lparr>candidates := bh_push reverse_le n (candidates l)\<rparr>"
    using assms(4) by (auto simp: insert_neighbor_def l1)
  have m: "mset (candidates l') = add_mset n (mset (candidates l))" by (simp add: l')
  have "lsr_inv l'" if inv: "lsr_inv l"
  proof -
    have "mset (ptrs (candidates l') @ ptrs (visited l')) = mset (p # ptrs (candidates l) @ ptrs (visited l))"
      using assms(3) by (simp add: l' l1)
    moreover have "distinct (p # ptrs (candidates l) @ ptrs (visited l))"
      using inv p by (auto simp: lsr_inv_def)
    ultimately have "distinct (ptrs (candidates l') @ ptrs (visited l'))" by (metis mset_eq_imp_distinct_iff)
    moreover have "set (candidates l') = insert n (set (candidates l))"
      using m by (metis set_mset_add_mset_insert set_mset_mset)
    ultimately show ?thesis
      using inv assms(3) cand.bh_push_heap [of "candidates l" n]
      by (auto simp: lsr_inv_def l' l1)
  qed
  then show ?thesis
    using m p assms(2,3) unfolding lsr_step_def
    by (auto simp: l' l1 intro!: exI [of _ "[n]"])
qed

text \<open>The measure that bounds a search: pointers not yet met, and candidates not yet visited.\<close>

definition search_measure :: "item_pointer set \<Rightarrow> ('q, 'pd) lsr \<Rightarrow> nat" where
  "search_measure P l = card (P - inserted l) + length (candidates l)"

lemma lsr_step_measure:
  assumes "finite P" "lsr_step P l l'"
  shows "search_measure P l' \<le> search_measure P l"
proof -
  obtain new where n: "mset (candidates l') = mset (candidates l) + mset new" "distinct (ptrs new)"
    "set (ptrs new) \<subseteq> inserted l' - inserted l"
    and i: "inserted l \<subseteq> inserted l'" "inserted l' \<subseteq> inserted l \<union> P"
    using assms(2) by (auto simp: lsr_step_def)
  have len: "length (candidates l') = length (candidates l) + length new"
    using arg_cong [OF n(1), of size] by simp
  have "card (set (ptrs new)) = length new" using distinct_card [OF n(2)] by simp
  moreover have sub: "set (ptrs new) \<subseteq> P - inserted l" using n(3) i by auto
  moreover have "P - inserted l' \<subseteq> (P - inserted l) - set (ptrs new)" using n(3) i by auto
  then have "card (P - inserted l') \<le> card ((P - inserted l) - set (ptrs new))"
    using assms(1) by (intro card_mono) auto
  moreover have "card ((P - inserted l) - set (ptrs new)) = card (P - inserted l) - card (set (ptrs new))"
    by (rule card_Diff_subset) (use sub in auto)
  moreover have "card (set (ptrs new)) \<le> card (P - inserted l)"
    using assms(1) sub by (intro card_mono) auto
  ultimately show ?thesis using len by (simp add: search_measure_def)
qed

end
