(* ===== verification/Tape.thy ===== *)
theory Tape
  imports Page_Store
begin

text \<open>
  \<open>util/tape.rs\<close>: the tape that appends items of one page type to a relation, opening a new page
  when the current one is full and never splitting an item.
\<close>

record tape =
  t_page_type :: page_type
  t_current :: block_number

definition tape_new :: "'i relation \<Rightarrow> page_type \<Rightarrow> (tape \<times> 'i relation) res" where
  "tape_new rel t =
     rbind (rassert (\<not> is_chained t) ''!page_type.is_chained()'') (\<lambda>_.
     rbind (writable_new rel t) (\<lambda>(page, rel).
     let block_number = wp_block page in
     Inr (\<lparr>t_page_type = t, t_current = block_number\<rparr>, commit rel page)))"

text \<open>The scan of \<open>resume\<close> from the last block down.\<close>

fun find_newest :: "'i relation \<Rightarrow> page_type \<Rightarrow> nat \<Rightarrow> block_number option res" where
  "find_newest rel t 0 = Inr None"
| "find_newest rel t (Suc block) =
     rbind (read_buffer rel (of_nat block)) (\<lambda>page.
     if is_new page then find_newest rel t block
     else rbind (readable_type page) (\<lambda>t'.
       if t' = t then Inr (Some (of_nat block)) else find_newest rel t block))"

definition tape_resume :: "'i relation \<Rightarrow> page_type \<Rightarrow> (tape \<times> 'i relation) res" where
  "tape_resume rel t =
     rbind (rassert (\<not> is_chained t) ''!page_type.is_chained()'') (\<lambda>_.
     rbind (find_newest rel t (length rel)) (\<lambda>current_block.
     case current_block of
       Some current \<Rightarrow> Inr (\<lparr>t_page_type = t, t_current = current\<rparr>, rel)
     | None \<Rightarrow> tape_new rel t))"

definition tape_write ::
  "pg_page_ops \<Rightarrow> ('i \<Rightarrow> nat) \<Rightarrow> 'i relation \<Rightarrow> tape \<Rightarrow> 'i \<Rightarrow> (item_pointer \<times> tape \<times> 'i relation) res" where
  "tape_write ops sz rel self data =
     (let size = sz data in
      rbind (rassert (size < BLCKSZ) ''size < BLCKSZ'') (\<lambda>_.
      rbind (rassert (\<not> is_chained (t_page_type self)) ''!page_type.is_chained()'') (\<lambda>_.
      rbind (writable_modify rel (t_current self)) (\<lambda>current_page.
      rbind (if get_aligned_free_space ops sz current_page < size then
               rbind (writable_new rel (t_page_type self)) (\<lambda>(page, rel).
               if get_aligned_free_space ops sz page < size then
                 Inl (Panic ''Not enough free space on new page'')
               else Inr (page, self\<lparr>t_current := wp_block page\<rparr>, rel))
             else Inr (current_page, self, rel)) (\<lambda>(current_page, self, rel).
      rbind (add_item_unchecked ops sz data current_page) (\<lambda>(offset_number, current_page).
      Inr (ItemPointer (wp_block current_page) offset_number, self, commit rel current_page)))))))"

text \<open>The current block is an initialised page of the tape's type.\<close>

definition tape_inv :: "'i relation \<Rightarrow> tape \<Rightarrow> bool" where
  "tape_inv rel t \<longleftrightarrow>
     \<not> is_chained (t_page_type t) \<and> unat (t_current t) < length rel \<and>
     (\<exists>is. rel ! unat (t_current t) = InitPage (tsv_opaque_new (t_page_type t)) is)"

lemma read_from_page_new [simp]: "read_from_page (InitPage (tsv_opaque_new t) is) = Inr t"
  by (simp add: read_from_page_def)

lemma rel_inv_commit:
  "rel_inv rel \<Longrightarrow> page_inv (wp_page wp) \<Longrightarrow> rel_inv (commit rel wp)"
  by (auto simp: rel_inv_def commit_def dest!: set_update_subset_insert [THEN subsetD])

lemma rel_inv_append_new: "blocks_left rel \<Longrightarrow> rel_inv rel \<Longrightarrow> rel_inv (rel @ [NewPage])"
  by (auto simp: rel_inv_def blocks_left_def page_inv_def)

text \<open>Reading back through the relation what was committed on a locked page.\<close>

lemma commit_push_item:
  assumes wp: "wp_page wp = InitPage q is" "unat (wp_block wp) < length rel"
    and "length is < MaxOffsetNumber"
  shows "item_at (commit rel (wp\<lparr>wp_page := push_item x (wp_page wp)\<rparr>))
           (ItemPointer (wp_block wp) (of_nat (length is + 1))) = Some x"
proof -
  have "item_at (rel[unat (wp_block wp) := push_item x (wp_page wp)])
      (ItemPointer (of_nat (unat (wp_block wp))) (of_nat (length is + 1))) = Some x"
    by (rule item_at_committed)
      (use assms block_number_bound [of "wp_block wp"] in \<open>auto simp: push_item_def items_of_def\<close>)
  then show ?thesis by (simp add: commit_def)
qed

lemma tape_new_facts:
  assumes "tape_new rel t = Inr (tp, rel')" "rel_inv rel"
  shows "tape_inv rel' tp \<and> rel_grows rel rel' \<and> rel_inv rel' \<and> t_page_type tp = t"
proof -
  from assms(1) have bl: "blocks_left rel" and nc: "\<not> is_chained t"
    and tp: "tp = \<lparr>t_page_type = t, t_current = of_nat (length rel)\<rparr>"
    and rel': "rel' = commit (rel @ [NewPage]) \<lparr>wp_block = of_nat (length rel), wp_page = InitPage (tsv_opaque_new t) []\<rparr>"
    by (auto simp: tape_new_def writable_new_Inr)
  note u = unat_length_rel [OF bl]
  have c: "rel' = rel @ [InitPage (tsv_opaque_new t) []]"
    unfolding rel' commit_def by (simp add: u)
  have "rel_inv rel'"
    unfolding rel' using rel_inv_append_new [OF bl assms(2)]
    by (intro rel_inv_commit) (auto simp: page_inv_def MaxOffsetNumber_def)
  then show ?thesis using nc by (auto simp: c tp tape_inv_def u)
qed

lemma find_newest_facts:
  "find_newest rel t n = Inr r \<Longrightarrow> n \<le> length rel \<Longrightarrow> rel_inv rel \<Longrightarrow>
     (case r of
        None \<Rightarrow> \<forall>b < n. \<forall>is. rel ! b \<noteq> InitPage (tsv_opaque_new t) is
      | Some c \<Rightarrow> unat c < n \<and> (\<exists>is. rel ! unat c = InitPage (tsv_opaque_new t) is) \<and>
          (\<forall>b. unat c < b \<and> b < n \<longrightarrow> (\<forall>is. rel ! b \<noteq> InitPage (tsv_opaque_new t) is)))"
proof (induction n)
  case (Suc n)
  have n: "n < 2 ^ 32" using Suc.prems by (simp add: rel_inv_def)
  then have u: "unat (of_nat n :: block_number) = n" by (simp add: unat_of_nat)
  have pinv: "page_inv (rel ! n)" using Suc.prems by (intro rel_inv_nth) auto
  have step: "find_newest rel t (Suc n) =
      (if is_new (rel ! n) then find_newest rel t n
       else rbind (readable_type (rel ! n)) (\<lambda>t'. if t' = t then Inr (Some (of_nat n)) else find_newest rel t n))"
    using Suc.prems by (simp add: read_buffer_def u)
  note res = Suc.prems(1) [unfolded step]
  show ?case
  proof (cases "\<exists>is. rel ! n = InitPage (tsv_opaque_new t) is")
    case True
    then have "r = Some (of_nat n)"
      using res by (auto simp: is_new_def readable_type_def)
    moreover have "\<not> (n < b \<and> b < Suc n)" for b by simp
    ultimately show ?thesis using True by (auto simp: u)
  next
    case False
    then have "find_newest rel t n = Inr r"
      using res pinv
      by (auto simp: is_new_def readable_type_def page_inv_def split: page.splits if_splits)
    then show ?thesis using Suc False by (auto simp: less_Suc_eq split: option.splits)
  qed
qed simp

context pg_page
begin

lemma aligned_free_le: "get_aligned_free_space ops sz wp \<le> get_free_space ops sz wp"
  by (simp add: get_aligned_free_space_def Let_def)

lemma fits_aligned:
  "0 < sz x \<Longrightarrow> sz x \<le> get_aligned_free_space ops sz wp \<Longrightarrow>
     pg_add_ok ops (map sz (items_of (wp_page wp))) (sz x)"
  using aligned_fits by (simp add: get_aligned_free_space_def get_free_space_def Let_def)

lemma aligned_free_block: "n \<le> get_aligned_free_space ops sz wp \<Longrightarrow> n < BLCKSZ"
  using free_block [of "map sz (items_of (wp_page wp))"] aligned_free_le [of sz wp]
  by (simp add: get_free_space_def)

text \<open>Adding a fitting item to a locked page and committing it.\<close>

lemma add_commit:
  assumes wp: "wp_page wp = InitPage (tsv_opaque_new t) is" "unat (wp_block wp) < length rel"
    and fits: "0 < sz x" "sz x \<le> get_aligned_free_space ops sz wp"
    and old: "page_grows (rel ! unat (wp_block wp)) (wp_page wp)"
    and inv: "rel_inv rel"
  defines "off \<equiv> of_nat (length is + 1)" and "wp' \<equiv> wp\<lparr>wp_page := push_item x (wp_page wp)\<rparr>"
  shows "add_item_unchecked ops sz x wp = Inr (off, wp')"
    and "item_at (commit rel wp') (ItemPointer (wp_block wp) off) = Some x"
    and "rel_grows rel (commit rel wp')" and "rel_inv (commit rel wp')"
    and "commit rel wp' ! unat (wp_block wp) = InitPage (tsv_opaque_new t) (is @ [x])"
proof -
  have ok: "pg_add_ok ops (map sz is) (sz x)"
    using fits_aligned [OF fits] wp by (simp add: items_of_def)
  have len: "length is < MaxOffsetNumber" using add_count [OF ok] by simp
  show "add_item_unchecked ops sz x wp = Inr (off, wp')"
    using ok wp aligned_free_block [OF fits(2)]
    by (auto simp: add_item_unchecked_Inr items_of_def off_def wp'_def)
  show "item_at (commit rel wp') (ItemPointer (wp_block wp) off) = Some x"
    unfolding wp'_def off_def by (rule commit_push_item [OF wp len])
  show "rel_grows rel (commit rel wp')"
    by (rule rel_grows_commit) (use wp page_grows_trans [OF old page_grows_push] in \<open>auto simp: wp'_def\<close>)
  show "rel_inv (commit rel wp')"
    by (rule rel_inv_commit [OF inv]) (use wp len in \<open>auto simp: wp'_def push_item_def page_inv_def\<close>)
  show "commit rel wp' ! unat (wp_block wp) = InitPage (tsv_opaque_new t) (is @ [x])"
    using wp by (simp add: commit_def wp'_def push_item_def)
qed

lemma tape_write_facts:
  assumes t: "tape_inv rel self" and inv: "rel_inv rel" and left: "blocks_left rel"
    and sz: "0 < sz x"
    and fit: "sz x \<le> get_aligned_free_space ops sz \<lparr>wp_block = 0, wp_page = InitPage (tsv_opaque_new (t_page_type self)) []\<rparr>"
  shows "\<exists>p self' rel'. tape_write ops sz rel self x = Inr (p, self', rel') \<and> item_at rel' p = Some x
           \<and> item_at rel p = None \<and> rel_grows rel rel' \<and> rel_inv rel' \<and> tape_inv rel' self'
           \<and> t_page_type self' = t_page_type self"
proof -
  let ?t = "t_page_type self" and ?b = "unat (t_current self)"
  obtain xs where cur: "rel ! ?b = InitPage (tsv_opaque_new ?t) xs" "?b < length rel" "\<not> is_chained ?t"
    using t by (auto simp: tape_inv_def)
  let ?wp = "\<lparr>wp_block = t_current self, wp_page = rel ! ?b\<rparr>"
  have mod: "writable_modify rel (t_current self) = Inr ?wp"
    using cur by (auto simp: writable_modify_Inr)
  have blk: "sz x < BLCKSZ" using aligned_free_block [OF fit] .
  show ?thesis
  proof (cases "get_aligned_free_space ops sz ?wp < sz x")
    case False
    then have f: "sz x \<le> get_aligned_free_space ops sz ?wp" by simp
    have ac: "wp_page ?wp = InitPage (tsv_opaque_new ?t) xs" "unat (wp_block ?wp) < length rel"
      "page_grows (rel ! unat (wp_block ?wp)) (wp_page ?wp)"
      using cur by simp_all
    note a = add_commit [OF ac(1,2) sz f ac(3) inv]
    have "of_nat (length xs + 1) \<noteq> (0 :: offset_number) \<and> unat (of_nat (length xs + 1) :: offset_number) = length xs + 1"
    proof -
      have "length xs < MaxOffsetNumber"
        using add_count [OF fits_aligned [OF sz f]] cur by (simp add: items_of_def)
      then have "unat (of_nat (length xs + 1) :: offset_number) = length xs + 1"
        by (simp add: unat_of_nat MaxOffsetNumber_def del: of_nat_add of_nat_Suc)
      then show ?thesis by (metis Suc_eq_plus1 nat.distinct(1) unat_0)
    qed
    then have "item_at rel (ItemPointer (t_current self) (of_nat (length xs + 1))) = None"
      using cur by (simp add: item_at_def get_item_unchecked_def items_of_def)
    moreover have "tape_inv (commit rel (?wp\<lparr>wp_page := push_item x (wp_page ?wp)\<rparr>)) self"
      using a(5) cur by (auto simp: tape_inv_def commit_def)
    ultimately show ?thesis
      using a blk cur mod False by (auto simp: tape_write_def Let_def)
  next
    case True
    let ?n = "of_nat (length rel) :: block_number" and ?rel = "rel @ [NewPage]"
    let ?np = "\<lparr>wp_block = ?n, wp_page = InitPage (tsv_opaque_new ?t) []\<rparr>"
    note u = unat_length_rel [OF left]
    have f: "sz x \<le> get_aligned_free_space ops sz ?np"
      using fit by (simp add: get_aligned_free_space_def get_free_space_def)
    have ac: "wp_page ?np = InitPage (tsv_opaque_new ?t) []" "unat (wp_block ?np) < length ?rel"
      "page_grows (?rel ! unat (wp_block ?np)) (wp_page ?np)"
      by (simp_all add: u page_grows_def)
    note a = add_commit [OF ac(1,2) sz f ac(3) rel_inv_append_new [OF left inv]]
    have new: "writable_new rel ?t = Inr (?np, ?rel)"
      using left by (simp add: writable_new_Inr)
    have "item_at rel (ItemPointer ?n (of_nat (length ([] :: 'b list) + 1))) = None"
      by (simp add: item_at_def u)
    moreover have "tape_inv (commit ?rel (?np\<lparr>wp_page := push_item x (wp_page ?np)\<rparr>)) (self\<lparr>t_current := ?n\<rparr>)"
      using a(5) cur u by (auto simp: tape_inv_def commit_def)
    moreover have "rel_grows rel (commit ?rel (?np\<lparr>wp_page := push_item x (wp_page ?np)\<rparr>))"
      using rel_grows_trans [OF rel_grows_append a(3)] .
    ultimately show ?thesis
      using a blk cur mod new f True by (auto simp: tape_write_def Let_def)
  qed
qed

end

section \<open>Properties\<close>

text \<open>
  C34. Writing an item to a tape (\<open>Tape::write\<close>) never fails on an item that fits an empty page, as
  long as there are blocks left: it returns a pointer that held nothing before and holds exactly
  the item now, nothing that was readable changed (pages only grow at their ends), and the tape is
  ready for the next item.
\<close>

theorem tape_write_correct:
  assumes "tape_inv rel self" "rel_inv rel" "blocks_left rel" "0 < sz x"
    and "sz x \<le> get_aligned_free_space pg_page_8k sz \<lparr>wp_block = 0, wp_page = InitPage (tsv_opaque_new (t_page_type self)) []\<rparr>"
  shows "\<exists>p self' rel'. tape_write pg_page_8k sz rel self x = Inr (p, self', rel') \<and> item_at rel' p = Some x
           \<and> item_at rel p = None \<and> rel_grows rel rel' \<and> rel_inv rel' \<and> tape_inv rel' self'"
  using pg8k.tape_write_facts [of rel self sz x, OF assms] by blast

theorem tape_write_correct_witness:
  "\<exists>p self' rel'. tape_write pg_page_8k id [InitPage (tsv_opaque_new Node) [8000]]
       \<lparr>t_page_type = Node, t_current = 0\<rparr> (600 :: nat) = Inr (p, self', rel') \<and> item_at rel' p = Some 600"
proof -
  have "get_aligned_free_space pg_page_8k id \<lparr>wp_block = 0, wp_page = InitPage (tsv_opaque_new Node) []\<rparr> = 8152"
    by (simp add: get_aligned_free_space_def get_free_space_def pg_page_8k_def items_of_def BLCKSZ_def)
  moreover have "tape_inv [InitPage (tsv_opaque_new Node) [8000 :: nat]] \<lparr>t_page_type = Node, t_current = 0\<rparr>"
    "rel_inv [InitPage (tsv_opaque_new Node) [8000 :: nat]]" "blocks_left [InitPage (tsv_opaque_new Node) [8000 :: nat]]"
    by (auto simp: tape_inv_def rel_inv_def page_inv_def blocks_left_def MaxOffsetNumber_def is_chained_def)
  ultimately have "\<exists>p self' rel'. tape_write pg_page_8k id [InitPage (tsv_opaque_new Node) [8000]]
       \<lparr>t_page_type = Node, t_current = 0\<rparr> (600 :: nat) = Inr (p, self', rel') \<and> item_at rel' p = Some 600
      \<and> item_at [InitPage (tsv_opaque_new Node) [8000 :: nat]] p = None
      \<and> rel_grows [InitPage (tsv_opaque_new Node) [8000]] rel' \<and> rel_inv rel' \<and> tape_inv rel' self'"
    by (intro tape_write_correct [of _ _ id "600 :: nat"]) simp_all
  then show ?thesis by blast
qed

text \<open>
  C35. Resuming a tape (\<open>Tape::resume\<close>) continues on the newest page of its type, past empty pages
  left behind by an aborted extension and pages of other types, and changes nothing on disk; it
  starts a new page exactly when no page of the type exists.
\<close>

theorem tape_resume_newest:
  assumes "tape_resume rel t = Inr (tp, rel')" "rel_inv rel"
  shows "tape_inv rel' tp \<and> t_page_type tp = t \<and> rel_grows rel rel' \<and> rel_inv rel'
     \<and> (if \<exists>b < length rel. \<exists>is. rel ! b = InitPage (tsv_opaque_new t) is
        then rel' = rel \<and> (\<exists>is. rel ! unat (t_current tp) = InitPage (tsv_opaque_new t) is)
          \<and> \<not> (\<exists>b > unat (t_current tp). b < length rel \<and> (\<exists>is. rel ! b = InitPage (tsv_opaque_new t) is))
        else length rel' = Suc (length rel) \<and> unat (t_current tp) = length rel)"
proof -
  from assms(1) obtain r where nc: "\<not> is_chained t" and r: "find_newest rel t (length rel) = Inr r"
    and k: "(case r of Some c \<Rightarrow> Inr (\<lparr>t_page_type = t, t_current = c\<rparr>, rel) | None \<Rightarrow> tape_new rel t) = Inr (tp, rel')"
    by (auto simp: tape_resume_def)
  note f = find_newest_facts [OF r order_refl assms(2)]
  show ?thesis
  proof (cases r)
    case None
    with k have tn: "tape_new rel t = Inr (tp, rel')" by simp
    then have "blocks_left rel" "t_current tp = of_nat (length rel)" "length rel' = Suc (length rel)"
      by (auto simp: tape_new_def writable_new_Inr commit_def)
    moreover have "\<not> (\<exists>b < length rel. \<exists>is. rel ! b = InitPage (tsv_opaque_new t) is)"
      using f None by auto
    ultimately show ?thesis
      using tape_new_facts [OF tn assms(2)] unat_length_rel by metis
  next
    case (Some c)
    with f obtain xs where c: "unat c < length rel" "rel ! unat c = InitPage (tsv_opaque_new t) xs"
      "\<forall>b. unat c < b \<and> b < length rel \<longrightarrow> (\<forall>is. rel ! b \<noteq> InitPage (tsv_opaque_new t) is)" by auto
    with k Some nc assms(2) show ?thesis by (auto simp: tape_inv_def)
  qed
qed

theorem tape_resume_newest_witness:
  "tape_inv [InitPage (tsv_opaque_new Node) [1 :: nat], InitPage (tsv_opaque_new MetaV2) [2], NewPage] \<lparr>t_page_type = Node, t_current = 0\<rparr>"
proof -
  let ?rel = "[InitPage (tsv_opaque_new Node) [1 :: nat], InitPage (tsv_opaque_new MetaV2) [2], NewPage]"
  have r: "tape_resume ?rel Node = Inr (\<lparr>t_page_type = Node, t_current = 0\<rparr>, ?rel)"
    by (simp add: tape_resume_def is_chained_def read_buffer_def is_new_def readable_type_def)
  have i: "rel_inv ?rel"
    by (auto simp: rel_inv_def page_inv_def MaxOffsetNumber_def)
  show ?thesis using tape_resume_newest [OF r i] by (rule conjunct1)
qed

end
