(* ===== verification/Search_Storage.thy ===== *)
theory Search_Storage
  imports List_Search Tape
begin

text \<open>
  The rest of the trait of \<open>access_method/storage.rs\<close>, by which a search visits nodes and a build
  creates them, the query vector of \<open>labels/mod.rs\<close>, and the facts on nodes that make the plain and
  the SBQ storage instances of the contract \<open>disk_storage\<close>.
\<close>

section \<open>Query vectors\<close>

text \<open>
  A \<open>PgVector\<close> holds the part of the vector the index uses and the full vector, either of which may
  be absent; their accessors unwrap.
\<close>

record pg_vector =
  index_distance :: "f32 list option"
  full_distance :: "f32 list option"

record labeled_vector =
  lv_vec :: pg_vector
  lv_labels :: "label_set option"

definition to_index_slice :: "pg_vector \<Rightarrow> f32 list res" where
  "to_index_slice v = runwrap (index_distance v) ''unwrap''"

definition to_full_slice :: "pg_vector \<Rightarrow> f32 list res" where
  "to_full_slice v = runwrap (full_distance v) ''unwrap''"

section \<open>The storage of a search\<close>

text \<open>
  \<open>'q\<close> is the query distance measure and \<open>'pd\<close> the private data of a search neighbour. The
  statistics of the search and of the pruning it may cause are both those of the world.
\<close>

record ('n, 'd, 'q, 'pd) storage =
  s_disk :: "('n, 'd) disk_ops"
  s_query_dm :: "labeled_vector \<Rightarrow> 'q res"
  s_create_lsn :: "builder_ops \<Rightarrow> ('q, 'pd) lsr \<Rightarrow> item_pointer \<Rightarrow> neighbor_store \<Rightarrow> 'n world
     \<Rightarrow> ('pd lsn option \<times> ('q, 'pd) lsr \<times> neighbor_store \<times> 'n world) res"
  s_visit_lsn :: "builder_ops \<Rightarrow> ('q, 'pd) lsr \<Rightarrow> nat \<Rightarrow> neighbor_store \<Rightarrow> bool \<Rightarrow> 'n world
     \<Rightarrow> (('q, 'pd) lsr \<times> neighbor_store \<times> 'n world) res"
  s_return_lsn :: "'pd lsn \<Rightarrow> 'n world \<Rightarrow> (heap_pointer \<times> 'n world) res"
  s_create_node :: "pg_page_ops \<Rightarrow> f32 list \<Rightarrow> label_set option \<Rightarrow> heap_pointer \<Rightarrow> tape \<Rightarrow> 'n world
     \<Rightarrow> (item_pointer \<times> tape \<times> 'n world) res"
  s_resort_distance :: "'q \<Rightarrow> heap_pointer \<Rightarrow> 'n world \<Rightarrow> (f32 option \<times> 'n world) res"

text \<open>\<open>WriteableNode::write\<close>, derived for every node type: serialise, append to the tape, count.\<close>

definition node_write ::
  "pg_page_ops \<Rightarrow> ('n \<Rightarrow> nat) \<Rightarrow> 'n \<Rightarrow> tape \<Rightarrow> 'n world \<Rightarrow> (item_pointer \<times> tape \<times> 'n world) res" where
  "node_write ops sz n tp w =
     rbind (tape_write ops sz (w_rel w) tp n) (\<lambda>(ip, tp, rel).
     Inr (ip, tp, count record_write (w\<lparr>w_rel := rel\<rparr>)))"

section \<open>Accesses to nodes\<close>

lemma read_buffer_fuel [no_fuel]: "read_buffer rel b \<noteq> Inl OutOfFuel"
  by (simp add: read_buffer_def)

lemma get_item_fuel [no_fuel]: "get_item_unchecked p off \<noteq> Inl OutOfFuel"
  by (simp add: get_item_unchecked_def)

lemma read_from_page_fuel [no_fuel]: "read_from_page p \<noteq> Inl OutOfFuel"
proof -
  have "page_type_from_u8 n \<noteq> Inl OutOfFuel" for n
    unfolding page_type_from_u8_def by (intro no_fuel)
  then show ?thesis
    unfolding read_from_page_def tsv_opaque_verify_def by (auto split: page.splits simp: rbind_def rassert_def)
qed

lemma writable_modify_fuel [no_fuel]: "writable_modify rel b \<noteq> Inl OutOfFuel"
  unfolding writable_modify_def by (intro no_fuel)

lemma node_read_fuel [no_fuel]: "node_read ip w \<noteq> Inl OutOfFuel"
  unfolding node_read_def by (intro no_fuel)

lemma node_modify_fuel [no_fuel]: "node_modify ip w \<noteq> Inl OutOfFuel"
  unfolding node_modify_def by (intro no_fuel)

lemma dwt_new_fuel [no_fuel]: "dwt_new d f t \<noteq> Inl OutOfFuel"
  unfolding dwt_new_def by (intro no_fuel)

text \<open>
  The distance between two nodes that a storage measures on their vectors. A node keeps its vector,
  so that a distance that is known stays.
\<close>

definition node_dist :: "('n \<Rightarrow> 'v) \<Rightarrow> ('v \<Rightarrow> 'v \<Rightarrow> f32 res) \<Rightarrow> 'n relation \<Rightarrow> node_distances" where
  "node_dist vec f rel p q =
     (case (item_at rel p, item_at rel q) of
        (Some m, Some n) \<Rightarrow> (case f (vec n) (vec m) of Inr x \<Rightarrow> Some x | Inl _ \<Rightarrow> None)
      | _ \<Rightarrow> None)"

lemma node_dist_Some:
  "node_dist vec f rel p q = Some x \<longleftrightarrow>
     (\<exists>m n. item_at rel p = Some m \<and> item_at rel q = Some n \<and> f (vec n) (vec m) = Inr x)"
  by (auto simp: node_dist_def split: option.splits sum.splits)

lemma node_dist_keeps:
  assumes "keeps_nodes core rel rel'" "\<And>m n. core m = core n \<Longrightarrow> vec m = vec n"
  shows "dist_le (node_dist vec f rel) (node_dist vec f rel')"
  unfolding dist_le_def
proof (intro allI impI)
  fix p q x assume "node_dist vec f rel p q = Some x"
  then obtain m n where mn: "item_at rel p = Some m" "item_at rel q = Some n" "f (vec n) (vec m) = Inr x"
    unfolding node_dist_Some by blast
  from item_at_keeps [OF assms(1) mn(1)] obtain m' where m': "item_at rel' p = Some m'" "vec m' = vec m" using assms(2) by blast
  from item_at_keeps [OF assms(1) mn(2)] obtain n' where n': "item_at rel' q = Some n'" "vec n' = vec n" using assms(2) by blast
  show "node_dist vec f rel' p q = Some x"
    using mn(3) m' n' unfolding node_dist_Some by auto
qed

text \<open>The worlds in which the nodes are well formed and other backends keep them so.\<close>

definition node_world :: "('n \<Rightarrow> item_pointer list) \<Rightarrow> nat \<Rightarrow> ('n \<Rightarrow> 'c) \<Rightarrow> 'n world \<Rightarrow> bool" where
  "node_world slots k core =
     others_ok (\<lambda>r. rel_inv r \<and> nodes_ok slots k r) (\<lambda>r r'. keeps_nodes core r r')"

lemma node_world_count [simp]: "node_world slots k core (w\<lparr>w_stats := s\<rparr>) = node_world slots k core w"
  by (simp add: node_world_def others_ok_def)

lemma node_world_same: "same_disk w w' \<Longrightarrow> node_world slots k core w \<Longrightarrow> node_world slots k core w'"
  unfolding node_world_def by (rule others_ok_same)

lemma node_world_slots:
  assumes "node_world slots k core w" "item_at (w_rel w) p = Some n"
  shows "length (slots n) = k"
proof -
  have "unat (block_number p) < length (w_rel w)" "n \<in> set (items_of (w_rel w ! unat (block_number p)))"
    using assms(2) by (auto simp: item_at_def get_item_unchecked_def split: if_splits)
  then show ?thesis using assms(1) nth_mem unfolding node_world_def others_ok_def nodes_ok_def by blast
qed

context graph_node
begin

lemma try_set_no_fuel: "try_set_neighbors_with iter set_nbrs k p expected ns w \<noteq> Inl OutOfFuel"
  unfolding try_set_neighbors_with_def by (intro no_fuel set_fuel)

text \<open>
  The compare-and-set under the page lock: it succeeds exactly when the adjacency is the expected
  one when the lock is taken, and then replaces this adjacency and nothing else.
\<close>

lemma try_set_facts:
  assumes w: "node_world slots k core w" and v: "valid_ptrs ns"
    and run: "try_set_neighbors_with iter set_nbrs k p expected ns w = Inr (ok, w')"
  shows "node_world slots k core w' \<and> w_others w' = w_others (interfere w) \<and> length ns \<le> k \<and>
      (if ok then adj_at iter (w_rel (interfere w)) p = Some expected \<and> adj_at iter (w_rel w') p = Some (map n_index_pointer ns)
         \<and> (\<forall>q. q \<noteq> p \<longrightarrow> adj_at iter (w_rel w') q = adj_at iter (w_rel (interfere w)) q)
       else adj_at iter (w_rel (interfere w)) p \<noteq> Some expected \<and> w_rel w' = w_rel (interfere w))"
    and "keeps_nodes core (w_rel (interfere w)) (w_rel w')"
proof -
  let ?i = "interfere w"
  obtain wp n v where len: "length ns \<le> k" and m: "node_modify p w = Inr (wp, n, v)"
    and rest: "(if iter n \<noteq> expected then Inr (False, v)
     else if iter n = map n_index_pointer ns then Inr (True, count record_unchanged v)
     else rbind (set_nbrs ns k n) (\<lambda>node.
       Inr (True, v\<lparr>w_rel := commit (w_rel v) (wp\<lparr>wp_page := put_item (offset p) node (wp_page wp)\<rparr>)\<rparr>))) = Inr (ok, w')"
    using run by (auto simp: try_set_neighbors_with_def)
  from m have it: "item_at (w_rel ?i) p = Some n" and v: "v = count record_modify ?i"
    and wp: "wp = \<lparr>wp_block = block_number p, wp_page = w_rel ?i ! unat (block_number p)\<rparr>"
    by (auto simp: node_modify_Inr)
  have iw: "node_world slots k core ?i" using w others_ok_interfere by (auto simp: node_world_def)
  have adj: "adj_at iter (w_rel ?i) p = Some (iter n)" by (simp add: adj_at_def it)
  have slots: "length (slots n) = k" using node_world_slots [OF iw it] .
  have "(node_world slots k core w' \<and> w_others w' = w_others (interfere w) \<and> length ns \<le> k \<and>
      (if ok then adj_at iter (w_rel (interfere w)) p = Some expected \<and> adj_at iter (w_rel w') p = Some (map n_index_pointer ns)
         \<and> (\<forall>q. q \<noteq> p \<longrightarrow> adj_at iter (w_rel w') q = adj_at iter (w_rel (interfere w)) q)
       else adj_at iter (w_rel (interfere w)) p \<noteq> Some expected \<and> w_rel w' = w_rel (interfere w)))
      \<and> keeps_nodes core (w_rel ?i) (w_rel w')"
  proof (cases "iter n = expected \<and> iter n \<noteq> map n_index_pointer ns")
    case False
    then show ?thesis using rest adj iw len by (auto simp: v split: if_splits)
  next
    case True
    from set_iter [OF slots len] \<open>valid_ptrs ns\<close> obtain n' where
      n': "set_nbrs ns k n = Inr n'" "iter n' = map n_index_pointer ns" "length (slots n') = k" "core n' = core n"
      by (auto simp: valid_ptrs_def)
    let ?wp = "\<lparr>wp_block = block_number p, wp_page = put_item (offset p) n' (w_rel ?i ! unat (block_number p))\<rparr>"
    have w': "w' = v\<lparr>w_rel := commit (w_rel ?i) ?wp\<rparr>" "ok"
      using rest True n'(1) unfolding v wp by auto
    note put = put_node [OF it refl, where n = n']
    have "rel_inv (w_rel ?i)" "nodes_ok slots k (w_rel ?i)"
      using iw by (auto simp: node_world_def others_ok_def)
    with put(3,4) n'(3) have "node_world slots k core w'"
      using iw by (simp add: w' v node_world_def others_ok_def)
    moreover have "adj_at iter (w_rel w') q = (if q = p then Some (map n_index_pointer ns) else adj_at iter (w_rel ?i) q)" for q
      using put(1) n'(2) by (simp add: w' adj_at_def)
    ultimately show ?thesis
      using True adj len w'(2) put(2) [of core] n'(4) by (simp add: w'(1) v)
  qed
  then show "node_world slots k core w' \<and> w_others w' = w_others (interfere w) \<and> length ns \<le> k \<and>
      (if ok then adj_at iter (w_rel (interfere w)) p = Some expected \<and> adj_at iter (w_rel w') p = Some (map n_index_pointer ns)
         \<and> (\<forall>q. q \<noteq> p \<longrightarrow> adj_at iter (w_rel w') q = adj_at iter (w_rel (interfere w)) q)
       else adj_at iter (w_rel (interfere w)) p \<noteq> Some expected \<and> w_rel w' = w_rel (interfere w))"
    and "keeps_nodes core (w_rel (interfere w)) (w_rel w')" by blast+
qed

lemma try_set_keeps:
  assumes "node_world slots k core w" "valid_ptrs ns"
    and "try_set_neighbors_with iter set_nbrs k p expected ns w = Inr (ok, w')"
  shows "keeps_nodes core (w_rel w) (w_rel w')"
proof -
  have "keeps_nodes core (w_rel w) (w_rel (interfere w))"
    using assms(1) by (auto simp: node_world_def others_ok_def interfere_def split: list.splits)
  then show ?thesis using try_set_facts(2) [OF assms] by (rule keeps_nodes_trans)
qed

lemma iter_valid: "q \<in> set (iter n) \<Longrightarrow> block_number q \<noteq> InvalidBlockNumber"
  unfolding iter_slots by (rule slots_iter_valid)

end

section \<open>Reading through the build cache\<close>

definition gns_ok :: "neighbor_store \<Rightarrow> bool" where
  "gns_ok g = (case g of BuilderStore b \<Rightarrow> builder_ok b | DiskStore \<Rightarrow> True)"

context cached_storage
begin

lemma builder_set_fuel:
  assumes "builder_ok b" "winv w"
  shows "builder_set_neighbors lops st b p ls ns w \<noteq> Inl OutOfFuel"
proof
  assume bad: "builder_set_neighbors lops st b p ls ns w = Inl OutOfFuel"
  let ?l = "case ls of Some l \<Rightarrow> Inr (Some l, w) | None \<Rightarrow> st_get_labels st p w"
  have "?l \<noteq> Inl OutOfFuel" using get_labels_fuel by (intro no_fuel)
  with bad obtain ls' w1 where l: "?l = Inr (ls', w1)"
    by (cases ?l) (auto simp: builder_set_neighbors_def)
  obtain ev m where push: "lru_push lops p \<lparr>e_labels = ls', e_neighbors = ns\<rparr> (neighbor_map b) = (ev, m)"
    by force
  have w1: "winv w1" using l assms(2) get_labels by (auto split: option.splits)
  have inv: "lru_inv (neighbor_map b)" and al: "f64_le (b_max_alpha b) 0x4014000000000000"
    using assms(1) by (auto simp: builder_ok_def)
  note pf = lru_push_facts [OF inv push]
  obtain key val where ev: "ev = Some (key, val)"
    and mg: "merge_neighbors_on_disk st key (e_labels val) (e_neighbors val) (b_max_alpha b)
                     (b_num_neighbors b) (MergeBuilder True) w1 = Inl OutOfFuel"
    using bad l push by (cases ev) (auto simp: builder_set_neighbors_def Let_def rbind_def split: sum.splits)
  have "valid_ptrs (e_neighbors val)" using pf assms(1) ev by (auto simp: builder_ok_def)
  then show False using mg merge_fuel [OF al max_alpha_finite [OF al] _ w1] by blast
qed

lemma builder_get_facts:
  assumes run: "builder_get_neighbors_with_distances lops st b p w = Inr (ns, b', w')"
    and ok: "builder_ok b" and w: "winv w"
  shows "builder_ok b' \<and> winv w' \<and> valid_ptrs ns"
proof -
  obtain entry m where g: "lru_get lops p (neighbor_map b) = (entry, m)" by force
  have inv: "lru_inv (neighbor_map b)" using ok by (simp add: builder_ok_def)
  note gf = lru_get_facts [OF inv g]
  let ?b = "b\<lparr>neighbor_map := m\<rparr>"
  have okb: "builder_ok ?b" using ok gf by (auto simp: builder_ok_def)
  show ?thesis
  proof (cases entry)
    case (Some e)
    then have "valid_ptrs (e_neighbors e)" using gf ok by (auto simp: builder_ok_def)
    then show ?thesis using run g Some okb w by (auto simp: builder_get_neighbors_with_distances_def)
  next
    case None
    with run g obtain w1 where d: "st_neighbors_from_disk st p w = Inr (ns, w1)"
      and s: "builder_set_neighbors lops st ?b p None ns w1 = Inr (b', w')"
      by (auto simp: builder_get_neighbors_with_distances_def)
    note n = neighbors [OF w d]
    have "winv w1" "valid_ptrs ns" using n by auto
    from builder_set_facts(1) [OF s okb this] this show ?thesis by blast
  qed
qed

lemma builder_get_fuel:
  assumes "builder_ok b" "winv w"
  shows "builder_get_neighbors_with_distances lops st b p w \<noteq> Inl OutOfFuel"
proof -
  obtain entry m where g: "lru_get lops p (neighbor_map b) = (entry, m)" by force
  have inv: "lru_inv (neighbor_map b)" using assms(1) by (simp add: builder_ok_def)
  have okb: "builder_ok (b\<lparr>neighbor_map := m\<rparr>)"
    using assms(1) lru_get_facts [OF inv g] by (auto simp: builder_ok_def)
  show ?thesis
    unfolding builder_get_neighbors_with_distances_def g Let_def
    using okb neighbors [OF assms(2)] by (intro no_fuel neighbors_fuel builder_set_fuel | simp)+
qed

end

section \<open>The contract of a search\<close>

text \<open>Every node that waits or has been visited satisfies \<open>P\<close>.\<close>

definition lsr_all :: "('pd lsn \<Rightarrow> bool) \<Rightarrow> ('q, 'pd) lsr \<Rightarrow> bool" where
  "lsr_all P l \<longleftrightarrow> (\<forall>x \<in> set (candidates l) \<union> set (visited l). P x)"

lemma lsr_all_prepare [simp]: "prepare_insert l p = (b, l') \<Longrightarrow> lsr_all P l' = lsr_all P l"
  by (auto simp: prepare_insert_def lsr_all_def)

lemma lsr_all_insert [simp]: "insert_neighbor n l w = (l', w') \<Longrightarrow> lsr_all P l' \<longleftrightarrow> P n \<and> lsr_all P l"
proof -
  assume "insert_neighbor n l w = (l', w')"
  then have "visited l' = visited l" "mset (candidates l') = mset (n # candidates l)"
    by (auto simp: insert_neighbor_def)
  then have "visited l' = visited l" "set (candidates l') = insert n (set (candidates l))"
    by (simp_all only: list.simps flip: set_mset_mset) simp_all
  then show ?thesis by (auto simp: lsr_all_def)
qed

lemma inserted_prepare: "prepare_insert l p = (b, l') \<Longrightarrow> inserted l' = insert p (inserted l)"
  by (auto simp: prepare_insert_def)

lemma inserted_insert [simp]: "insert_neighbor n l w = (l', w') \<Longrightarrow> inserted l' = inserted l"
  by (auto simp: insert_neighbor_def)

text \<open>A read through the neighbour store: it stays the same kind, and on disk nothing changes.\<close>

definition store_kept :: "neighbor_store \<Rightarrow> 'n world \<Rightarrow> neighbor_store \<Rightarrow> 'n world \<Rightarrow> bool" where
  "store_kept g w g' w' \<longleftrightarrow>
     gns_ok g' \<and> (g' = DiskStore \<longleftrightarrow> g = DiskStore) \<and> (g = DiskStore \<longrightarrow> same_disk w w')"

lemma store_kept_refl [simp]: "store_kept g w g w \<longleftrightarrow> gns_ok g"
  by (auto simp: store_kept_def)

lemma store_kept_trans: "store_kept g w g1 w1 \<Longrightarrow> store_kept g1 w1 g2 w2 \<Longrightarrow> store_kept g w g2 w2"
  unfolding store_kept_def using same_disk_trans by blast

lemma store_kept_count [simp]:
  "store_kept g w g' (w'\<lparr>w_stats := s\<rparr>) = store_kept g w g' w'"
  "store_kept g (w\<lparr>w_stats := s\<rparr>) g' w' = store_kept g w g' w'"
  by (simp_all add: store_kept_def same_disk_def)

lemma store_kept_gns_ok: "store_kept g w g' w' \<Longrightarrow> gns_ok g'"
  by (simp add: store_kept_def)

lemma store_kept_same: "same_disk w w' \<Longrightarrow> gns_ok g \<Longrightarrow> store_kept g w g w'"
  by (simp add: store_kept_def)

text \<open>
  What the graph relies on when it searches: visiting a node only records pointers and turns newly
  recorded ones into candidates, and on the disk store it changes nothing another backend sees and
  records every neighbour of the node. \<open>lsn_ok\<close> is what the storage keeps true of search neighbours:
  their pointers are valid, and on the disk store their private data is that of the node.
\<close>

locale search_storage = cached_storage "s_disk S" winv dist_at adj k lops
  for S :: "('n, 'd, 'q, 'pd) storage" and winv dist_at adj k and lops :: builder_ops +
  fixes lsn_ok :: "neighbor_store \<Rightarrow> 'n relation \<Rightarrow> 'pd lsn \<Rightarrow> bool"
  assumes create_lsn: "winv w \<Longrightarrow> gns_ok g \<Longrightarrow> s_create_lsn S lops l ip g w = Inr (n, l', g', w') \<Longrightarrow>
      winv w' \<and> store_kept g w g' w' \<and>
      prepare_insert l ip = (n \<noteq> None, l') \<and> (\<forall>m. n = Some m \<longrightarrow> lsn_index_pointer m = ip \<and>
        (block_number ip \<noteq> InvalidBlockNumber \<longrightarrow> lsn_ok g' (w_rel w') m))"
    and create_lsn_fuel: "winv w \<Longrightarrow> gns_ok g \<Longrightarrow> s_create_lsn S lops l ip g w \<noteq> Inl OutOfFuel"
    and visit_lsn: "winv w \<Longrightarrow> gns_ok g \<Longrightarrow> s_visit_lsn S lops l i g nf w = Inr (l', g', w') \<Longrightarrow>
      winv w' \<and> store_kept g w g' w' \<and> lsr_step UNIV l l'"
    and visit_lsn_ok: "winv w \<Longrightarrow> gns_ok g \<Longrightarrow> s_visit_lsn S lops l i g nf w = Inr (l', g', w') \<Longrightarrow>
      lsr_all (lsn_ok g (w_rel w)) l \<Longrightarrow> i < length (visited l) \<Longrightarrow>
      lsr_all (lsn_ok g' (w_rel w')) l' \<and>
      (g = DiskStore \<longrightarrow> (\<exists>ns. adj (w_rel w) (lsn_index_pointer (visited l ! i)) = Some ns \<and> set ns \<subseteq> inserted l'))"
    and visit_lsn_fuel: "winv w \<Longrightarrow> gns_ok g \<Longrightarrow> s_visit_lsn S lops l i g nf w \<noteq> Inl OutOfFuel"
    and lsn_ok_valid: "lsn_ok g r x \<Longrightarrow> block_number (lsn_index_pointer x) \<noteq> InvalidBlockNumber"
    and lsn_ok_build: "lsn_ok (BuilderStore b) r x = lsn_ok (BuilderStore b') r' x"
    and query_dm_fuel: "s_query_dm S v \<noteq> Inl OutOfFuel"
    and return_lsn: "winv w \<Longrightarrow> s_return_lsn S x w = Inr (hp, w') \<Longrightarrow> winv w' \<and> same_disk w w'"
begin

lemma lsn_ok_kept: "store_kept g w g' w' \<Longrightarrow> lsn_ok g (w_rel w) = lsn_ok g' (w_rel w')"
  using lsn_ok_build by (cases g; cases g') (auto simp: fun_eq_iff store_kept_def same_disk_def)

end

end
