(* ===== verification/Vector_Distance.thy ===== *)
theory Vector_Distance
  imports Neighbor_Distance
begin

unbundle bit_operations_syntax

text \<open>
  \<open>distance/mod.rs\<close>, \<open>distance_x86.rs\<close> and \<open>distance_aarch64.rs\<close>: the distance functions on
  vectors of \<open>f32\<close> and the Hamming distance of quantised vectors.

  A SIMD register is the list of its lanes. Lane-wise addition, subtraction and multiplication
  round each lane; the fused multiply-add and the horizontal sum, whose rounding depends on the
  instruction set, are the operations of the record \<open>simd\<close>. Sums of iterators start at zero.
\<close>

section \<open>Distance types\<close>

datatype distance_type = Cosine | L2 | InnerProduct

fun distance_type_as_u16 :: "distance_type \<Rightarrow> nat" where
  "distance_type_as_u16 Cosine = 0"
| "distance_type_as_u16 L2 = 1"
| "distance_type_as_u16 InnerProduct = 2"

definition distance_type_from_u16 :: "nat \<Rightarrow> distance_type res" where
  "distance_type_from_u16 value =
     (if value = 0 then Inr Cosine else if value = 1 then Inr L2
      else if value = 2 then Inr InnerProduct else Inl (Panic ''Unknown DistanceType number''))"

fun get_operator :: "distance_type \<Rightarrow> string" where
  "get_operator Cosine = ''<=>''"
| "get_operator L2 = ''<->''"
| "get_operator InnerProduct = ''<#>''"

fun get_operator_class :: "distance_type \<Rightarrow> string" where
  "get_operator_class Cosine = ''vector_cosine_ops''"
| "get_operator_class L2 = ''vector_l2_ops''"
| "get_operator_class InnerProduct = ''vector_ip_ops''"

section \<open>Reference functions\<close>

definition f32_sum :: "f32 list \<Rightarrow> f32" where
  "f32_sum xs = fold (\<lambda>x acc. f32_add acc x) xs f32_zero"

definition squared_diffs :: "f32 list \<Rightarrow> f32 list \<Rightarrow> f32 list" where
  "squared_diffs a b = map (\<lambda>(x, y). f32_mul (f32_sub x y) (f32_sub x y)) (zip a b)"

definition distance_l2_unoptimized :: "f32 list \<Rightarrow> f32 list \<Rightarrow> f32 res" where
  "distance_l2_unoptimized a b =
     rbind (rassert (length a = length b) ''assert_eq!(a.len(), b.len())'') (\<lambda>_.
     let norm = f32_sum (squared_diffs a b) in
     rbind (rassert (f32_le f32_zero norm) ''norm >= 0.'') (\<lambda>_.
     Inr norm))"

definition inner_product_unoptimized :: "f32 list \<Rightarrow> f32 list \<Rightarrow> f32" where
  "inner_product_unoptimized a b = f32_sum (map (\<lambda>(x, y). f32_mul x y) (zip a b))"

definition distance_cosine_unoptimized :: "f32 list \<Rightarrow> f32 list \<Rightarrow> f32 res" where
  "distance_cosine_unoptimized a b =
     rbind (rassert (length a = length b) ''assert_eq!(a.len(), b.len())'') (\<lambda>_.
     let r = inner_product_unoptimized a b in
     Inr (f32_max (f32_sub f32_one r) f32_zero))"

section \<open>SIMD bodies\<close>

record simd =
  vf32_width :: nat
  horizontal_add_ps :: "f32 list \<Rightarrow> f32"
  fused :: "f32 \<Rightarrow> f32 \<Rightarrow> f32 \<Rightarrow> f32"

definition setzero_ps :: "simd \<Rightarrow> f32 list" where
  "setzero_ps S = replicate (vf32_width S) f32_zero"

definition loadu_ps :: "simd \<Rightarrow> nat \<Rightarrow> f32 list \<Rightarrow> f32 list res" where
  "loadu_ps S i xs =
     (if i + vf32_width S \<le> length xs then Inr (take (vf32_width S) (drop i xs))
      else Inl (Panic ''index out of bounds''))"

definition l2_lanes :: "simd \<Rightarrow> f32 list \<Rightarrow> f32 list \<Rightarrow> f32 list \<Rightarrow> f32 list" where
  "l2_lanes S x y acc =
     map2 f32_add acc (map2 f32_mul (map2 f32_sub x y) (map2 f32_sub x y))"

definition fmadd_ps :: "simd \<Rightarrow> f32 list \<Rightarrow> f32 list \<Rightarrow> f32 list \<Rightarrow> f32 list" where
  "fmadd_ps S x y acc = map2 (\<lambda>a (x, y). fused S x y a) acc (zip x y)"

text \<open>One round: the four accumulators take the four registers at the head of the vectors.\<close>

definition simd_round ::
  "simd \<Rightarrow> (f32 list \<Rightarrow> f32 list \<Rightarrow> f32 list \<Rightarrow> f32 list) \<Rightarrow> f32 list \<Rightarrow> f32 list \<Rightarrow> f32 list list \<Rightarrow> f32 list list res" where
  "simd_round S lanes x y accums =
     rbind (rmap (\<lambda>(k, acc) u.
        rbind (loadu_ps S (vf32_width S * k) x) (\<lambda>a.
        rbind (loadu_ps S (vf32_width S * k) y) (\<lambda>b.
        Inr (lanes a b acc, u)))) (enumerate 0 accums) ()) (\<lambda>(accums, _). Inr accums)"

function simd_loop ::
  "simd \<Rightarrow> (f32 list \<Rightarrow> f32 list \<Rightarrow> f32 list \<Rightarrow> f32 list) \<Rightarrow> f32 list \<Rightarrow> f32 list \<Rightarrow> f32 list list
     \<Rightarrow> (f32 list list \<times> f32 list \<times> f32 list) res" where
  "simd_loop S lanes x y accums =
     (if 0 < vf32_width S \<and> length x \<ge> vf32_width S * 4 then
        rbind (simd_round S lanes x y accums) (\<lambda>accums.
        simd_loop S lanes (drop (vf32_width S * 4) x) (drop (vf32_width S * 4) y) accums)
      else Inr (accums, x, y))"
  by pat_completeness auto
termination by (relation "measure (\<lambda>(_, _, x, _, _). length x)") auto

declare simd_loop.simps [simp del]

text \<open>The sum of the accumulators, and the remaining elements one by one.\<close>

definition simd_tail ::
  "(f32 \<Rightarrow> f32 \<Rightarrow> f32) \<Rightarrow> f32 list \<Rightarrow> f32 list \<Rightarrow> f32 \<Rightarrow> f32 res" where
  "simd_tail term x y dist =
     rfold (\<lambda>i dist.
        rbind (if i < length y then Inr (y ! i) else Inl (Panic ''index out of bounds'')) (\<lambda>yi.
        Inr (f32_add dist (term (x ! i) yi)))) [0..<length x] dist"

definition simd_body ::
  "simd \<Rightarrow> (f32 list \<Rightarrow> f32 list \<Rightarrow> f32 list \<Rightarrow> f32 list) \<Rightarrow> (f32 \<Rightarrow> f32 \<Rightarrow> f32) \<Rightarrow> f32 list \<Rightarrow> f32 list \<Rightarrow> f32 res" where
  "simd_body S lanes term x y =
     rbind (simd_loop S lanes x y (replicate 4 (setzero_ps S))) (\<lambda>(accums, x, y).
     let h = map (horizontal_add_ps S) accums;
         dist = f32_add (f32_add (f32_add (h ! 0) (h ! 1)) (h ! 2)) (h ! 3)
     in simd_tail term x y dist)"

definition distance_l2_simd_body :: "simd \<Rightarrow> f32 list \<Rightarrow> f32 list \<Rightarrow> f32 res" where
  "distance_l2_simd_body S x y =
     rbind (simd_body S (l2_lanes S) (\<lambda>a b. let diff = f32_sub a b in f32_mul diff diff) x y) (\<lambda>dist.
     rbind (rassert (f32_le f32_zero dist) ''dist >= 0.'') (\<lambda>_.
     Inr dist))"

definition inner_product_simd_body :: "simd \<Rightarrow> f32 list \<Rightarrow> f32 list \<Rightarrow> f32 res" where
  "inner_product_simd_body S x y = simd_body S (fmadd_ps S) f32_mul x y"

definition distance_l2 :: "simd \<Rightarrow> f32 list \<Rightarrow> f32 list \<Rightarrow> f32 res" where
  "distance_l2 S a b = distance_l2_simd_body S a b"

definition distance_inner_product :: "simd \<Rightarrow> f32 list \<Rightarrow> f32 list \<Rightarrow> f32 res" where
  "distance_inner_product S a b = rbind (inner_product_simd_body S a b) (\<lambda>d. Inr (f32_neg d))"

definition distance_cosine :: "simd \<Rightarrow> f32 list \<Rightarrow> f32 list \<Rightarrow> f32 res" where
  "distance_cosine S x y =
     rbind (inner_product_simd_body S x y) (\<lambda>ip. Inr (f32_max (f32_sub f32_one ip) f32_zero))"

definition get_distance_function :: "simd \<Rightarrow> distance_type \<Rightarrow> f32 list \<Rightarrow> f32 list \<Rightarrow> f32 res" where
  "get_distance_function S t =
     (case t of Cosine \<Rightarrow> distance_cosine S | L2 \<Rightarrow> distance_l2 S | InnerProduct \<Rightarrow> distance_inner_product S)"

text \<open>Slicing \<open>b[..n]\<close> panics when \<open>b\<close> is shorter.\<close>

definition slice_to :: "nat \<Rightarrow> 'a list \<Rightarrow> 'a list res" where
  "slice_to n xs = (if n \<le> length xs then Inr (take n xs) else Inl (Panic ''range end index out of range''))"

definition distance_l2_optimized_for_few_dimensions :: "simd \<Rightarrow> f32 list \<Rightarrow> f32 list \<Rightarrow> f32 res" where
  "distance_l2_optimized_for_few_dimensions S a b =
     rbind (if length a = 0 then Inr f32_zero
            else if length a \<le> 8 then
              rbind (slice_to (length a) a) (\<lambda>x.
              rbind (slice_to (length a) b) (\<lambda>y.
              Inr (f32_sum (squared_diffs x y))))
            else distance_l2 S a b) (\<lambda>norm.
     rbind (rassert (f32_le f32_zero norm) ''norm >= 0.'') (\<lambda>_.
     Inr norm))"

section \<open>Normalisation for the cosine distance\<close>

definition preprocess_cosine_get_norm :: "f32 list \<Rightarrow> f32 option" where
  "preprocess_cosine_get_norm a =
     (let norm = f32_sum (map (\<lambda>v. f32_mul v v) a);
          adj_epsilon = f32_mul f32_epsilon (f32_of_nat (length a))
      in if f32_lt norm f32_epsilon then None
         else if f32_le (f32_sub f32_one adj_epsilon) norm \<and> f32_le norm (f32_add f32_one adj_epsilon) then None
         else Some (f32_sqrt norm))"

definition preprocess_cosine :: "f32 list \<Rightarrow> f32 list" where
  "preprocess_cosine a =
     (case preprocess_cosine_get_norm a of None \<Rightarrow> a | Some norm \<Rightarrow> map (\<lambda>v. f32_div v norm) a)"

section \<open>Hamming distance\<close>

definition count_ones :: "64 word \<Rightarrow> nat" where
  "count_ones x = length (filter (bit x) [0..<64])"

definition xor_sum :: "64 word list \<Rightarrow> 64 word list \<Rightarrow> nat" where
  "xor_sum a b = (\<Sum>(l, r)\<leftarrow>zip a b. count_ones (l XOR r))"

text \<open>The arms for 1 to 49 elements slice both vectors; the last one truncates to the shorter.\<close>

definition distance_xor_optimized :: "64 word list \<Rightarrow> 64 word list \<Rightarrow> nat res" where
  "distance_xor_optimized a b =
     (let n = length a in
      if 1 \<le> n \<and> n \<le> 49 then
        rbind (slice_to n a) (\<lambda>x. rbind (slice_to n b) (\<lambda>y. Inr (xor_sum x y)))
      else Inr (xor_sum a b))"

section \<open>Facts\<close>

lemma simd_round_fuel [no_fuel]: "simd_round S lanes x y accums \<noteq> Inl OutOfFuel"
  unfolding simd_round_def loadu_ps_def by (intro no_fuel)

lemma simd_loop_fuel [no_fuel]: "simd_loop S lanes x y accums \<noteq> Inl OutOfFuel"
proof (induction S lanes x y accums rule: simd_loop.induct)
  case (1 S lanes x y accums)
  show ?case by (subst simd_loop.simps) (intro no_fuel; rule 1; simp)
qed

lemma simd_tail_fuel [no_fuel]: "simd_tail t x y dist \<noteq> Inl OutOfFuel"
  unfolding simd_tail_def by (intro no_fuel)

lemma distance_function_fuel [no_fuel]: "get_distance_function S t a b \<noteq> Inl OutOfFuel"
  unfolding get_distance_function_def distance_cosine_def distance_l2_def distance_inner_product_def
    distance_l2_simd_body_def inner_product_simd_body_def simd_body_def
  by (cases t; simp only: distance_type.case) (intro no_fuel)+

lemma f32_max_zero: "\<not> f32_is_nan (f32_max x f32_zero) \<and> 0 \<le> f32_key (f32_max x f32_zero)"
proof -
  have u: "word_of_int (uint x) = x" by simp
  show ?thesis
    using f32_zero_facts(1,2) u
    by (auto simp: f32_max_def fl_max_def f32_is_nan_def f32_key_def f32_zero_def)
qed

text \<open>
  The two distances a storage may use with full vectors never fail the assertions of
  \<open>DistanceWithTieBreak::new\<close>; the negated inner product may.
\<close>

lemma distance_admissible:
  assumes "t \<noteq> InnerProduct" "get_distance_function S t a b = Inr d"
  shows "\<not> f32_is_nan d \<and> 0 \<le> f32_key d"
  using assms f32_max_zero
  by (cases t) (auto simp: get_distance_function_def distance_cosine_def distance_l2_def
      distance_l2_simd_body_def f32_le_iff)

lemma count_ones_0: "count_ones x = 0 \<longleftrightarrow> x = 0"
proof
  assume "count_ones x = 0"
  then have "\<not> bit x n" if "n < 64" for n using that by (simp add: count_ones_def filter_empty_conv)
  then show "x = 0" by (intro bit_word_eqI) simp
qed (simp add: count_ones_def)

lemma count_ones_xor_0: "count_ones (x XOR y) = 0 \<longleftrightarrow> x = y"
proof
  assume "count_ones (x XOR y) = 0"
  then have z: "x XOR y = 0" by (simp add: count_ones_0)
  show "x = y"
  proof (rule bit_word_eqI)
    fix n assume "n < LENGTH(64)"
    then have "bit (x XOR y) n \<longleftrightarrow> bit x n \<noteq> bit y n" by (simp add: bit_xor_iff)
    then show "bit x n \<longleftrightarrow> bit y n" unfolding z by simp
  qed
qed (simp add: count_ones_0)

lemma count_ones_le: "count_ones x \<le> 64"
  using length_filter_le [of "bit x" "[0..<64]"] by (simp add: count_ones_def)

lemma length_filter_disj: "length (filter P xs) \<le> length (filter Q xs) + length (filter R xs)"
  if "\<And>x. P x \<Longrightarrow> Q x \<or> R x"
  using that by (induction xs) auto

lemma count_ones_xor: "count_ones (x XOR z) \<le> count_ones (x XOR y) + count_ones (y XOR z)"
  unfolding count_ones_def by (rule length_filter_disj) (auto simp: bit_simps)

lemma xor_sum_facts:
  assumes "length a = length b"
  shows "xor_sum a b = xor_sum b a" "xor_sum a b = 0 \<longleftrightarrow> a = b" "xor_sum a b \<le> 64 * length a"
    and "length c = length a \<Longrightarrow> xor_sum a c \<le> xor_sum a b + xor_sum b c"
proof -
  show "xor_sum a b = xor_sum b a" "xor_sum a b = 0 \<longleftrightarrow> a = b" "xor_sum a b \<le> 64 * length a"
    using assms
  proof (induction a b rule: list_induct2)
    case (Cons x a y b)
    { case 1 then show ?case using Cons by (simp add: xor_sum_def xor.commute) }
    { case 2 then show ?case using Cons by (simp add: xor_sum_def count_ones_xor_0) }
    { case 3 then show ?case using Cons count_ones_le [of "x XOR y"] by (simp add: xor_sum_def) }
  qed (simp_all add: xor_sum_def)
  show "length c = length a \<Longrightarrow> xor_sum a c \<le> xor_sum a b + xor_sum b c"
    using assms
  proof (induction a arbitrary: b c)
    case (Cons x a)
    then obtain y b' z c' where "b = y # b'" "c = z # c'" by (metis length_Suc_conv)
    moreover from this have "xor_sum a c' \<le> xor_sum a b' + xor_sum b' c'" using Cons by simp
    ultimately show ?case using count_ones_xor [of x z y] by (simp add: xor_sum_def)
  qed (simp add: xor_sum_def)
qed

lemma distance_xor_eq: "length a = length b \<Longrightarrow> distance_xor_optimized a b = Inr (xor_sum a b)"
  by (simp add: distance_xor_optimized_def slice_to_def Let_def)

lemma distance_xor_fuel [no_fuel]: "distance_xor_optimized a b \<noteq> Inl OutOfFuel"
  unfolding distance_xor_optimized_def slice_to_def by (intro no_fuel)

end
