(* ===== verification/Plain_Storage.thy ===== *)
theory Plain_Storage
  imports Search_Storage Vector_Distance
begin

text \<open>
  \<open>plain/mod.rs\<close> and \<open>plain/storage.rs\<close>: the storage that keeps full vectors in its nodes. A search
  neighbour carries the heap pointer and the neighbours of its node. The distance function is the
  one the meta page selects, an argument of the storage; \<open>heap_fetch\<close> is the table: the vector of a
  visible tuple, or \<open>None\<close>.
\<close>

record plain_storage =
  ps_simd :: simd
  ps_distance_type :: distance_type
  ps_num_neighbors :: nat
  ps_num_dimensions :: nat
  ps_num_dimensions_to_index :: nat
  ps_node_size :: "plain_node \<Rightarrow> nat"
  ps_heap_fetch :: "heap_pointer \<Rightarrow> pg_vector option"

record plain_private =
  pp_heap_pointer :: heap_pointer
  pp_neighbors :: "item_pointer list"

definition ps_distance_fn :: "plain_storage \<Rightarrow> f32 list \<Rightarrow> f32 list \<Rightarrow> f32 res" where
  "ps_distance_fn s = get_distance_function (ps_simd s) (ps_distance_type s)"

section \<open>Distances\<close>

text \<open>\<open>PlainDistanceMeasure\<close> is the query; \<open>IndexFullDistanceMeasure\<close> a copy of a node's vector.\<close>

type_synonym plain_qdm = labeled_vector
type_synonym plain_dm = "f32 list"

definition plain_calculate_distance ::
  "plain_storage \<Rightarrow> f32 list \<Rightarrow> f32 list \<Rightarrow> plain_node world \<Rightarrow> (f32 \<times> plain_node world) res" where
  "plain_calculate_distance s query v w =
     rbind (rassert (v \<noteq> []) ''!vector.is_empty()'') (\<lambda>_.
     rbind (rassert (length v = length query) ''vector.len() == query.len()'') (\<lambda>_.
     let w = count record_full_distance_comparison w in
     rbind (ps_distance_fn s query v) (\<lambda>d. Inr (d, w))))"

definition plain_with_index_pointer :: "item_pointer \<Rightarrow> plain_node world \<Rightarrow> (plain_dm \<times> plain_node world) res" where
  "plain_with_index_pointer ip w = rbind (node_read ip w) (\<lambda>(rn, w). Inr (p_vector rn, w))"

definition plain_get_distance ::
  "plain_storage \<Rightarrow> plain_dm \<Rightarrow> item_pointer \<Rightarrow> plain_node world \<Rightarrow> (f32 \<times> plain_node world) res" where
  "plain_get_distance s d ip w =
     rbind (node_read ip w) (\<lambda>(node1, w).
     rbind (rassert (p_vector node1 \<noteq> []) ''!node1.vector.is_empty()'') (\<lambda>_.
     rbind (rassert (length (p_vector node1) = length d) ''node1.vector.len() == self.vector.len()'') (\<lambda>_.
     let w = count record_full_distance_comparison w in
     rbind (ps_distance_fn s (p_vector node1) d) (\<lambda>x. Inr (x, w)))))"

text \<open>What is measured between the nodes of a relation.\<close>

definition plain_dist_at :: "plain_storage \<Rightarrow> plain_node relation \<Rightarrow> node_distances" where
  "plain_dist_at s = node_dist p_vector (ps_distance_fn s)"

section \<open>Nodes on disk\<close>

definition plain_create_node ::
  "plain_storage \<Rightarrow> pg_page_ops \<Rightarrow> f32 list \<Rightarrow> label_set option \<Rightarrow> heap_pointer \<Rightarrow> tape \<Rightarrow> plain_node world
     \<Rightarrow> (item_pointer \<times> tape \<times> plain_node world) res" where
  "plain_create_node s ops full_vector _ hp tp w =
     node_write ops (ps_node_size s) (plain_node_new_for_full_vector full_vector hp (ps_num_neighbors s)) tp w"

definition plain_neighbors_from_disk ::
  "plain_storage \<Rightarrow> item_pointer \<Rightarrow> plain_node world \<Rightarrow> (neighbor_with_distance list \<times> plain_node world) res" where
  "plain_neighbors_from_disk s neighbors_of w =
     rbind (node_read neighbors_of w) (\<lambda>(rn, w).
     rmap (\<lambda>n w.
        rbind (plain_get_distance s (p_vector rn) n w) (\<lambda>(dist, w).
        rbind (dwt_new dist neighbors_of n) (\<lambda>d.
        Inr (nwd_new n d None, w)))) (plain_iter_neighbors rn) w)"

definition plain_disk :: "plain_storage \<Rightarrow> (plain_node, plain_dm) disk_ops" where
  "plain_disk s =
     \<lparr>st_get_labels = (\<lambda>_ w. Inr (None, w)),
      st_neighbors_from_disk = plain_neighbors_from_disk s,
      st_try_set = try_set_neighbors_with plain_iter_neighbors plain_set_neighbors (ps_num_neighbors s),
      st_node_dm = plain_with_index_pointer,
      st_distance = plain_get_distance s\<rparr>"

section \<open>Searching\<close>

definition plain_private_new :: "plain_node \<Rightarrow> plain_private" where
  "plain_private_new n = \<lparr>pp_heap_pointer = p_heap n, pp_neighbors = plain_iter_neighbors n\<rparr>"

text \<open>The common part of \<open>create_lsn_for_start_node\<close> and of the loop of \<open>visit_lsn\<close>.\<close>

definition plain_lsn ::
  "plain_storage \<Rightarrow> builder_ops \<Rightarrow> (plain_qdm, plain_private) lsr \<Rightarrow> item_pointer \<Rightarrow> neighbor_store \<Rightarrow> plain_node world
     \<Rightarrow> (plain_private lsn \<times> neighbor_store \<times> plain_node world) res" where
  "plain_lsn s lops l ip gns w =
     rbind (node_read ip w) (\<lambda>(node, w).
     rbind (runwrap (sdm l) ''unwrap'') (\<lambda>query.
     rbind (to_index_slice (lv_vec query)) (\<lambda>q.
     rbind (plain_calculate_distance s q (p_vector node) w) (\<lambda>(distance, w).
     let private_data = plain_private_new node in
     rbind (case gns of
              BuilderStore b \<Rightarrow>
                rbind (builder_get_neighbors lops (plain_disk s) b ip w) (\<lambda>(ns, b, w).
                Inr (private_data\<lparr>pp_neighbors := ns\<rparr>, BuilderStore b, w))
            | DiskStore \<Rightarrow> Inr (private_data, DiskStore, w)) (\<lambda>(private_data, gns, w).
     rbind (create_distance_with_tie_break l distance ip) (\<lambda>d.
     Inr (\<lparr>lsn_index_pointer = ip, lsn_distance = d, lsn_private_data = private_data, lsn_labels = None\<rparr>, gns, w)))))))"

definition plain_create_lsn_for_start_node ::
  "plain_storage \<Rightarrow> builder_ops \<Rightarrow> (plain_qdm, plain_private) lsr \<Rightarrow> item_pointer \<Rightarrow> neighbor_store \<Rightarrow> plain_node world
     \<Rightarrow> (plain_private lsn option \<times> (plain_qdm, plain_private) lsr \<times> neighbor_store \<times> plain_node world) res" where
  "plain_create_lsn_for_start_node s lops l ip gns w =
     (case prepare_insert l ip of
        (False, l) \<Rightarrow> Inr (None, l, gns, w)
      | (True, l) \<Rightarrow>
          rbind (plain_lsn s lops l ip gns w) (\<lambda>(n, gns, w). Inr (Some n, l, gns, w)))"

definition plain_visit_neighbor ::
  "plain_storage \<Rightarrow> builder_ops \<Rightarrow> item_pointer
     \<Rightarrow> (plain_qdm, plain_private) lsr \<times> neighbor_store \<times> plain_node world
     \<Rightarrow> ((plain_qdm, plain_private) lsr \<times> neighbor_store \<times> plain_node world) res" where
  "plain_visit_neighbor s lops ip = (\<lambda>(l, gns, w).
     (case prepare_insert l ip of
        (False, l) \<Rightarrow> Inr (l, gns, w)
      | (True, l) \<Rightarrow>
          rbind (plain_lsn s lops l ip gns w) (\<lambda>(n, gns, w).
          let (l, w) = insert_neighbor n l w in Inr (l, gns, w))))"

definition plain_visit_lsn ::
  "plain_storage \<Rightarrow> builder_ops \<Rightarrow> (plain_qdm, plain_private) lsr \<Rightarrow> nat \<Rightarrow> neighbor_store \<Rightarrow> bool \<Rightarrow> plain_node world
     \<Rightarrow> ((plain_qdm, plain_private) lsr \<times> neighbor_store \<times> plain_node world) res" where
  "plain_visit_lsn s lops l lsn_idx gns no_filter w =
     rbind (rassert no_filter ''Plain storage does not support label filters'') (\<lambda>_.
     rbind (get_lsn_by_idx l lsn_idx) (\<lambda>lsn.
     rfold (plain_visit_neighbor s lops) (pp_neighbors (lsn_private_data lsn)) (l, gns, w)))"

text \<open>The distance to the full vector in the table, for indexes on fewer dimensions than it has.\<close>

definition plain_full_distance_for_resort ::
  "plain_storage \<Rightarrow> plain_qdm \<Rightarrow> heap_pointer \<Rightarrow> plain_node world \<Rightarrow> (f32 option \<times> plain_node world) res" where
  "plain_full_distance_for_resort s qdm hp w =
     rbind (rassert (ps_num_dimensions s > ps_num_dimensions_to_index s)
              ''get_num_dimensions() > get_num_dimensions_to_index()'') (\<lambda>_.
     let w = count record_heap_read w in
     case ps_heap_fetch s hp of
       None \<Rightarrow> Inr (None, w)
     | Some v \<Rightarrow>
         rbind (to_full_slice v) (\<lambda>full.
         rbind (to_full_slice (lv_vec qdm)) (\<lambda>query.
         rbind (ps_distance_fn s full query) (\<lambda>d.
         Inr (Some d, w)))))"

definition plain_return_lsn :: "plain_private lsn \<Rightarrow> plain_node world \<Rightarrow> (heap_pointer \<times> plain_node world) res" where
  "plain_return_lsn lsn w = Inr (pp_heap_pointer (lsn_private_data lsn), w)"

definition plain_storage_ops :: "plain_storage \<Rightarrow> (plain_node, plain_dm, plain_qdm, plain_private) storage" where
  "plain_storage_ops s =
     \<lparr>s_disk = plain_disk s, s_query_dm = Inr, s_create_lsn = plain_create_lsn_for_start_node s,
      s_visit_lsn = plain_visit_lsn s, s_return_lsn = plain_return_lsn,
      s_create_node = plain_create_node s, s_resort_distance = plain_full_distance_for_resort s\<rparr>"

section \<open>The contracts\<close>

abbreviation plain_world :: "plain_storage \<Rightarrow> plain_node world \<Rightarrow> bool" where
  "plain_world s \<equiv> node_world p_neighbors (ps_num_neighbors s) p_vector"

lemma node_read_same: "node_read ip w = Inr (n, w') \<Longrightarrow> same_disk w w'"
  by (auto simp: node_read_Inr)

lemma plain_get_distance_same:
  "plain_get_distance s d ip w = Inr (x, w') \<Longrightarrow> same_disk w w'"
  by (auto simp: plain_get_distance_def node_read_Inr same_disk_def)

lemma plain_distance_fn_fuel [no_fuel]: "ps_distance_fn s a b \<noteq> Inl OutOfFuel"
  unfolding ps_distance_fn_def by (intro no_fuel)

lemma plain_get_distance_fuel [no_fuel]: "plain_get_distance s d ip w \<noteq> Inl OutOfFuel"
  unfolding plain_get_distance_def by (intro no_fuel)

lemma plain_neighbors_facts:
  assumes "plain_neighbors_from_disk s p w = Inr (ns, w')"
  shows "same_disk w w' \<and> adj_at plain_iter_neighbors (w_rel w) p = Some (map n_index_pointer ns) \<and> valid_ptrs ns"
proof -
  obtain rn w1 where r: "node_read p w = Inr (rn, w1)"
    and m: "rmap (\<lambda>n w. rbind (plain_get_distance s (p_vector rn) n w) (\<lambda>(dist, w).
        rbind (dwt_new dist p n) (\<lambda>d. Inr (nwd_new n d None, w)))) (plain_iter_neighbors rn) w1 = Inr (ns, w')"
    using assms by (auto simp: plain_neighbors_from_disk_def)
  have rm: "same_disk w w' \<and> list_all2 (\<lambda>n y. n_index_pointer y = n) (plain_iter_neighbors rn) ns"
  proof (rule rmap_invariant [OF m])
    show "same_disk w w1" using node_read_same [OF r] .
    fix x v y v'
    assume "same_disk w v" "rbind (plain_get_distance s (p_vector rn) x v) (\<lambda>(dist, w).
        rbind (dwt_new dist p x) (\<lambda>d. Inr (nwd_new x d None, w))) = Inr (y, v')"
    then show "same_disk w v' \<and> n_index_pointer y = x"
      using plain_get_distance_same same_disk_trans by fastforce
  qed
  then have "map n_index_pointer ns = plain_iter_neighbors rn"
    by (auto simp: list_all2_conv_all_nth intro!: nth_equalityI)
  moreover have "item_at (w_rel w) p = Some rn" using r by (simp add: node_read_Inr)
  moreover have "block_number (n_index_pointer n) \<noteq> InvalidBlockNumber" if "n \<in> set ns" for n
  proof -
    have "n_index_pointer n \<in> set (map n_index_pointer ns)" using that by simp
    then show ?thesis using plain.iter_valid [of _ rn] calculation(1) by simp
  qed
  ultimately show ?thesis
    using rm by (simp add: adj_at_def valid_ptrs_def)
qed

interpretation plain_disk: disk_storage "plain_disk s" "plain_world s" "plain_dist_at s" "adj_at plain_iter_neighbors" "ps_num_neighbors s"
  for s
proof
  fix w w' :: "plain_node world" and p ns x d q expected ok l ps r and st :: stats
  show "block_number q \<noteq> InvalidBlockNumber" if "adj_at plain_iter_neighbors r p = Some ps" "q \<in> set ps"
    using that plain.iter_valid by (auto simp: adj_at_def)
  show "plain_world s (w\<lparr>w_stats := st\<rparr>) = plain_world s w" by simp
  show "st_node_dm (plain_disk s) p w \<noteq> Inl OutOfFuel"
    unfolding plain_disk_def disk_ops.simps plain_with_index_pointer_def by (intro no_fuel)
  show "st_distance (plain_disk s) d p w \<noteq> Inl OutOfFuel"
    unfolding plain_disk_def disk_ops.simps by (intro no_fuel)
  show "st_get_labels (plain_disk s) p w \<noteq> Inl OutOfFuel" by (simp add: plain_disk_def)
  show "st_neighbors_from_disk (plain_disk s) p w \<noteq> Inl OutOfFuel"
    unfolding plain_disk_def disk_ops.simps plain_neighbors_from_disk_def by (intro no_fuel)
  show "st_try_set (plain_disk s) p expected ns w \<noteq> Inl OutOfFuel"
    unfolding plain_disk_def disk_ops.simps by (rule plain.try_set_no_fuel)
  assume w: "plain_world s w"
  note same = node_world_same [of w _ p_neighbors "ps_num_neighbors s" p_vector, OF _ w]
  show "plain_world s w' \<and> same_disk w w'" if "st_node_dm (plain_disk s) p w = Inr (d, w')"
    using that node_read_same same by (fastforce simp: plain_disk_def plain_with_index_pointer_def)
  show "plain_world s w' \<and> same_disk w w'" if "st_distance (plain_disk s) d p w = Inr (x, w')"
    using that plain_get_distance_same same by (fastforce simp: plain_disk_def)
  show "plain_dist_at s (w_rel w) p q = Some x"
    if "st_node_dm (plain_disk s) p w = Inr (d, w')" "w_rel v = w_rel w" "st_distance (plain_disk s) d q v = Inr (x, v')" for v v'
    using that by (auto simp: plain_disk_def plain_with_index_pointer_def plain_get_distance_def node_read_Inr plain_dist_at_def
        node_dist_def Let_def)
  show "plain_world s w' \<and> same_disk w w'" if "st_get_labels (plain_disk s) p w = Inr (l, w')"
    using that w by (simp add: plain_disk_def)
  show "plain_world s w' \<and> same_disk w w' \<and> adj_at plain_iter_neighbors (w_rel w) p = Some (map n_index_pointer ns) \<and> valid_ptrs ns"
    if "st_neighbors_from_disk (plain_disk s) p w = Inr (ns, w')"
    using that plain_neighbors_facts [of s p w ns w'] same by (simp add: plain_disk_def)
  show "plain_world s w' \<and> w_others w' = w_others (interfere w) \<and> length ns \<le> ps_num_neighbors s \<and>
      dist_le (plain_dist_at s (w_rel w)) (plain_dist_at s (w_rel w')) \<and>
      (if ok then adj_at plain_iter_neighbors (w_rel (interfere w)) p = Some expected
         \<and> adj_at plain_iter_neighbors (w_rel w') p = Some (map n_index_pointer ns)
         \<and> (\<forall>q. q \<noteq> p \<longrightarrow> adj_at plain_iter_neighbors (w_rel w') q = adj_at plain_iter_neighbors (w_rel (interfere w)) q)
       else adj_at plain_iter_neighbors (w_rel (interfere w)) p \<noteq> Some expected \<and> w_rel w' = w_rel (interfere w))"
    if "valid_ptrs ns" "st_try_set (plain_disk s) p expected ns w = Inr (ok, w')"
  proof -
    have run: "try_set_neighbors_with plain_iter_neighbors plain_set_neighbors (ps_num_neighbors s) p expected ns w = Inr (ok, w')"
      using that(2) by (simp add: plain_disk_def)
    have "dist_le (plain_dist_at s (w_rel w)) (plain_dist_at s (w_rel w'))"
      unfolding plain_dist_at_def by (rule node_dist_keeps [OF plain.try_set_keeps [OF w that(1) run]])
    then show ?thesis using plain.try_set_facts(1) [OF w that(1) run] by blast
  qed
qed

interpretation plain_cached: cached_storage "plain_disk s" "plain_world s" "plain_dist_at s" "adj_at plain_iter_neighbors"
  "ps_num_neighbors s" lru_list for s ..

text \<open>
  A search neighbour carries the row and the neighbours of its node: the neighbours are those on disk,
  or those of the cache, which may have changed since.
\<close>

definition plain_lsn_ok :: "neighbor_store \<Rightarrow> plain_node relation \<Rightarrow> plain_private lsn \<Rightarrow> bool" where
  "plain_lsn_ok g rel x \<longleftrightarrow>
     block_number (lsn_index_pointer x) \<noteq> InvalidBlockNumber \<and>
     (\<forall>q \<in> set (pp_neighbors (lsn_private_data x)). block_number q \<noteq> InvalidBlockNumber) \<and>
     (g = DiskStore \<longrightarrow> (\<exists>n. item_at rel (lsn_index_pointer x) = Some n \<and> lsn_private_data x = plain_private_new n))"

lemma plain_lsn_ok_kept: "store_kept g w g' w' \<Longrightarrow> plain_lsn_ok g (w_rel w) = plain_lsn_ok g' (w_rel w')"
  by (auto simp: fun_eq_iff store_kept_def plain_lsn_ok_def same_disk_def)

lemma plain_lsn_facts:
  assumes run: "plain_lsn s lru_list l ip g w = Inr (n, g', w')" and w: "plain_world s w" "gns_ok g"
  shows "plain_world s w' \<and> store_kept g w g' w' \<and> lsn_index_pointer n = ip \<and>
    (block_number ip \<noteq> InvalidBlockNumber \<longrightarrow> plain_lsn_ok g' (w_rel w') n)"
proof -
  obtain node w1 query q dist where r: "node_read ip w = Inr (node, w1)"
    and c: "plain_calculate_distance s q (p_vector node) w1 = Inr (dist, count record_full_distance_comparison w1)"
    using run by (auto simp: plain_lsn_def plain_calculate_distance_def)
  let ?w1 = "count record_full_distance_comparison w1"
  have s1: "same_disk w ?w1"
    using node_read_same [OF r] by (simp add: same_disk_def)
  then have w1: "plain_world s ?w1" using node_world_same w(1) by blast
  have node: "item_at (w_rel w) ip = Some node" using r by (simp add: node_read_Inr)
  show ?thesis
  proof (cases g)
    case DiskStore
    then have e: "w' = ?w1" "g' = DiskStore" "lsn_index_pointer n = ip"
      "lsn_private_data n = plain_private_new node"
      using run r by (auto simp: plain_lsn_def plain_calculate_distance_def Let_def)
    have "plain_lsn_ok g' (w_rel w') n" if "block_number ip \<noteq> InvalidBlockNumber"
      using that e node s1 plain.iter_valid by (auto simp: plain_lsn_ok_def plain_private_new_def same_disk_def)
    then show ?thesis using e w1 s1 DiskStore w(2) store_kept_same by blast
  next
    case (BuilderStore b)
    then obtain ns b' where g: "builder_get_neighbors_with_distances lru_list (plain_disk s) b ip ?w1 = Inr (ns, b', w')"
        "g' = BuilderStore b'" "lsn_index_pointer n = ip"
        "pp_neighbors (lsn_private_data n) = map n_index_pointer ns"
      using run r by (auto simp: plain_lsn_def plain_calculate_distance_def builder_get_neighbors_def Let_def)
    have "builder_ok b" using w(2) BuilderStore by (simp add: gns_ok_def)
    from plain_cached.builder_get_facts [OF g(1) this w1] show ?thesis
      using g BuilderStore by (auto simp: gns_ok_def store_kept_def plain_lsn_ok_def valid_ptrs_def)
  qed
qed

lemma plain_lsn_fuel:
  assumes "plain_world s w" "gns_ok g"
  shows "plain_lsn s lru_list l ip g w \<noteq> Inl OutOfFuel"
proof -
  have b: "builder_get_neighbors lru_list (plain_disk s) b ip v \<noteq> Inl OutOfFuel"
    if "g = BuilderStore b" "plain_world s v" for b v
    unfolding builder_get_neighbors_def
    using that assms(2) by (intro no_fuel plain_cached.builder_get_fuel) (simp_all add: gns_ok_def)
  have cd: "create_distance_with_tie_break l d ip \<noteq> Inl OutOfFuel" for d
    unfolding create_distance_with_tie_break_def by (intro no_fuel)
  have gns: "(case g of BuilderStore b \<Rightarrow>
                rbind (builder_get_neighbors lru_list (plain_disk s) b ip v) (\<lambda>(ns, b, w).
                Inr (pd\<lparr>pp_neighbors := ns\<rparr>, BuilderStore b, w))
            | DiskStore \<Rightarrow> Inr (pd, DiskStore, v)) \<noteq> Inl OutOfFuel" if "plain_world s v" for v pd
    using b that by (cases g) (simp_all add: rbind_def split: sum.splits prod.splits, blast)
  show ?thesis
    unfolding plain_lsn_def plain_calculate_distance_def to_index_slice_def
    using assms(1) by (intro no_fuel gns cd) (auto simp: node_read_Inr)
qed

lemma plain_visit_neighbor_facts:
  assumes run: "plain_visit_neighbor s lru_list ip (l, g, w) = Inr (l', g', w')" and w: "plain_world s w" "gns_ok g"
  shows "plain_world s w' \<and> store_kept g w g' w' \<and> lsr_step UNIV l l' \<and> ip \<in> inserted l' \<and>
    (block_number ip \<noteq> InvalidBlockNumber \<longrightarrow> lsr_all (plain_lsn_ok g (w_rel w)) l \<longrightarrow> lsr_all (plain_lsn_ok g' (w_rel w')) l')"
proof -
  obtain new l1 where p: "prepare_insert l ip = (new, l1)" by force
  note ins = inserted_prepare [OF p]
  show ?thesis
  proof (cases new)
    case False
    then show ?thesis
      using run p w ins lsr_step_record [OF p, of UNIV] by (auto simp: plain_visit_neighbor_def)
  next
    case True
    with p run obtain n w1 where n: "plain_lsn s lru_list l1 ip g w = Inr (n, g', w1)"
      and i: "insert_neighbor n l1 w1 = (l', w')"
      by (auto simp: plain_visit_neighbor_def Let_def case_prod_beta prod_eq_iff)
    note f = plain_lsn_facts [OF n w]
    have w': "w' = count record_candidate w1" using i by (simp add: insert_neighbor_def)
    moreover have "prepare_insert l ip = (True, l1)" using p True by simp
    moreover have "store_kept g w g' w'" using f w' by simp
    ultimately show ?thesis
      using f lsr_step_insert [OF _ _ _ i, of l ip UNIV] ins lsr_all_insert [OF i] inserted_insert [OF i] lsr_all_prepare [OF p]
        plain_lsn_ok_kept [of g w g' w'] by simp
  qed
qed

lemma plain_visit_loop_facts:
  assumes "rfold (plain_visit_neighbor s lru_list) ips (l, g, w) = Inr (l', g', w')" "plain_world s w" "gns_ok g"
  shows "plain_world s w' \<and> store_kept g w g' w' \<and> lsr_step UNIV l l' \<and> set ips \<subseteq> inserted l' \<and>
    ((\<forall>ip \<in> set ips. block_number ip \<noteq> InvalidBlockNumber) \<longrightarrow> lsr_all (plain_lsn_ok g (w_rel w)) l \<longrightarrow>
      lsr_all (plain_lsn_ok g' (w_rel w')) l')"
  using assms
proof (induction ips arbitrary: l g w)
  case Nil
  then show ?case by simp
next
  case (Cons ip ips)
  then obtain l1 g1 w1 where st: "plain_visit_neighbor s lru_list ip (l, g, w) = Inr (l1, g1, w1)"
    and rest: "rfold (plain_visit_neighbor s lru_list) ips (l1, g1, w1) = Inr (l', g', w')" by auto
  note f = plain_visit_neighbor_facts [OF st Cons.prems(2,3)]
  note ih = Cons.IH [OF rest conjunct1 [OF f] store_kept_gns_ok [OF conjunct1 [OF conjunct2 [OF f]]]]
  have "inserted l1 \<subseteq> inserted l'" using ih by (simp add: lsr_step_def)
  moreover have "store_kept g w g' w'" "lsr_step UNIV l l'"
    using f ih store_kept_trans lsr_step_trans by blast+
  ultimately show ?case using f ih by auto
qed

lemma plain_visit_loop_fuel:
  "plain_world s w \<Longrightarrow> gns_ok g \<Longrightarrow> rfold (plain_visit_neighbor s lru_list) ips (l, g, w) \<noteq> Inl OutOfFuel"
proof (induction ips arbitrary: l g w)
  case (Cons ip ips)
  have "plain_visit_neighbor s lru_list ip (l, g, w) \<noteq> Inl OutOfFuel"
    unfolding plain_visit_neighbor_def
    using plain_lsn_fuel [OF Cons.prems] by (auto simp: rbind_def Let_def split: prod.splits bool.splits sum.splits)
  moreover have "rfold (plain_visit_neighbor s lru_list) ips x \<noteq> Inl OutOfFuel"
    if "plain_visit_neighbor s lru_list ip (l, g, w) = Inr x" for x
    using that plain_visit_neighbor_facts [OF _ Cons.prems] Cons.IH store_kept_gns_ok by (cases x) blast
  ultimately show ?case unfolding rfold.simps by (rule rbind_fuel)
qed simp

interpretation plain_search: search_storage "plain_storage_ops s" "plain_world s" "plain_dist_at s" "adj_at plain_iter_neighbors"
  "ps_num_neighbors s" lru_list plain_lsn_ok for s
proof -
  have d: "s_disk (plain_storage_ops s) = plain_disk s" by (simp add: plain_storage_ops_def)
  show "search_storage (plain_storage_ops s) (plain_world s) (plain_dist_at s) (adj_at plain_iter_neighbors) (ps_num_neighbors s) lru_list plain_lsn_ok"
  proof (intro search_storage.intro search_storage_axioms.intro)
    show "cached_storage (s_disk (plain_storage_ops s)) (plain_world s) (plain_dist_at s) (adj_at plain_iter_neighbors) (ps_num_neighbors s) lru_list"
      unfolding d by unfold_locales
    fix w w' :: "plain_node world" and g g' l l' ip n i nf hp x b b' r r'
    show "plain_lsn_ok (BuilderStore b) r x = plain_lsn_ok (BuilderStore b') r' x" by (simp add: plain_lsn_ok_def)
    show "block_number (lsn_index_pointer x) \<noteq> InvalidBlockNumber" if "plain_lsn_ok g r x"
      using that by (simp add: plain_lsn_ok_def)
    show "s_query_dm (plain_storage_ops s) v \<noteq> Inl OutOfFuel" for v by (simp add: plain_storage_ops_def)
    assume w: "plain_world s w"
    show "plain_world s w' \<and> same_disk w w'" if "s_return_lsn (plain_storage_ops s) x w = Inr (hp, w')"
      using that w by (simp add: plain_storage_ops_def plain_return_lsn_def)
    assume g: "gns_ok g"
    show "plain_world s w' \<and> store_kept g w g' w' \<and>
      prepare_insert l ip = (n \<noteq> None, l') \<and> (\<forall>m. n = Some m \<longrightarrow> lsn_index_pointer m = ip \<and>
        (block_number ip \<noteq> InvalidBlockNumber \<longrightarrow> plain_lsn_ok g' (w_rel w') m))"
      if "s_create_lsn (plain_storage_ops s) lru_list l ip g w = Inr (n, l', g', w')"
      using that w g plain_lsn_facts [OF _ w g]
      by (auto simp: plain_storage_ops_def plain_create_lsn_for_start_node_def split: prod.splits bool.splits)
    show "s_create_lsn (plain_storage_ops s) lru_list l ip g w \<noteq> Inl OutOfFuel"
      using plain_lsn_fuel [OF w g]
      by (auto simp: plain_storage_ops_def plain_create_lsn_for_start_node_def rbind_def split: prod.splits bool.splits sum.splits)
    show "s_visit_lsn (plain_storage_ops s) lru_list l i g nf w \<noteq> Inl OutOfFuel"
    proof -
      have "get_lsn_by_idx l i \<noteq> Inl OutOfFuel" by (simp add: get_lsn_by_idx_def)
      then show ?thesis
        unfolding plain_storage_ops_def storage.simps plain_visit_lsn_def
        by (intro rbind_fuel rassert_fuel) (assumption | rule plain_visit_loop_fuel [OF w g])+
    qed
    assume run: "s_visit_lsn (plain_storage_ops s) lru_list l i g nf w = Inr (l', g', w')"
    then have i: "i < length (visited l)"
      and loop: "rfold (plain_visit_neighbor s lru_list) (pp_neighbors (lsn_private_data (visited l ! i))) (l, g, w) = Inr (l', g', w')"
      by (auto simp: plain_storage_ops_def plain_visit_lsn_def get_lsn_by_idx_def split: if_splits)
    note f = plain_visit_loop_facts [OF loop w g]
    show "plain_world s w' \<and> store_kept g w g' w' \<and> lsr_step UNIV l l'" using f by blast
    assume ok: "lsr_all (plain_lsn_ok g (w_rel w)) l"
    have "plain_lsn_ok g (w_rel w) (visited l ! i)" using ok i by (auto simp: lsr_all_def)
    then show "lsr_all (plain_lsn_ok g' (w_rel w')) l' \<and>
      (g = DiskStore \<longrightarrow> (\<exists>ns. adj_at plain_iter_neighbors (w_rel w) (lsn_index_pointer (visited l ! i)) = Some ns \<and>
        set ns \<subseteq> inserted l'))"
      using f ok by (auto simp: plain_lsn_ok_def plain_private_new_def adj_at_def)
  qed
qed

end
