(* ===== verification/Sbq_Quantizer.thy ===== *)
theory Sbq_Quantizer
  imports Vector_Distance
begin

text \<open>
  \<open>sbq/quantize.rs\<close>: statistical binary quantisation. Training accumulates the mean and, with more
  than one bit per dimension, the squared deviations of the samples (Welford's update); a vector is
  then quantised to a thermometer code of its z scores, packed into 64-bit words.
\<close>

record sbq_quantizer =
  use_mean :: bool
  training :: bool
  q_count :: nat
  q_mean :: "f32 list"
  q_m2 :: "f32 list"
  num_bits_per_dimension :: nat

definition sbq_quantizer_new :: "nat \<Rightarrow> sbq_quantizer" where
  "sbq_quantizer_new bits =
     \<lparr>use_mean = True, training = False, q_count = 0, q_mean = [], q_m2 = [], num_bits_per_dimension = bits\<rparr>"

definition sbq_load :: "nat \<Rightarrow> f32 list \<Rightarrow> f32 list \<Rightarrow> sbq_quantizer \<Rightarrow> sbq_quantizer" where
  "sbq_load n m m2 q = q\<lparr>q_count := n, q_mean := m, q_m2 := m2\<rparr>"

definition BITS_STORE_TYPE_SIZE :: nat where "BITS_STORE_TYPE_SIZE = 64"

definition quantized_size_internal :: "nat \<Rightarrow> nat \<Rightarrow> nat" where
  "quantized_size_internal full_vector_size bits =
     (let num_bits = full_vector_size * bits in
      if num_bits mod BITS_STORE_TYPE_SIZE = 0 then num_bits div BITS_STORE_TYPE_SIZE
      else num_bits div BITS_STORE_TYPE_SIZE + 1)"

definition quantized_size :: "sbq_quantizer \<Rightarrow> nat \<Rightarrow> nat" where
  "quantized_size q full_vector_size = quantized_size_internal full_vector_size (num_bits_per_dimension q)"

definition quantized_size_bytes :: "nat \<Rightarrow> nat \<Rightarrow> nat" where
  "quantized_size_bytes num_dimensions bits = quantized_size_internal num_dimensions bits * 8"

section \<open>Quantisation\<close>

definition index_f32 :: "f32 list \<Rightarrow> nat \<Rightarrow> f32 res" where
  "index_f32 xs i = (if i < length xs then Inr (xs ! i) else Inl (Panic ''index out of bounds''))"

text \<open>\<open>res_vector[pos / 64] |= 1 << (pos % 64)\<close>\<close>

definition set_bit_at :: "nat \<Rightarrow> 64 word list \<Rightarrow> 64 word list res" where
  "set_bit_at pos ws =
     (let i = pos div BITS_STORE_TYPE_SIZE in
      if i < length ws then Inr (ws[i := ws ! i OR push_bit (pos mod BITS_STORE_TYPE_SIZE) 1])
      else Inl (Panic ''index out of bounds''))"

definition f32_two :: f32 where "f32_two = 0x40000000"
definition f32_four :: f32 where "f32_four = 0x40800000"

text \<open>
  The number of bits set for a value: 0 below the first threshold, at most all of them. The number of
  ranges is an \<open>u8\<close>, which wraps in a release build.
\<close>

definition z_score_ones :: "nat \<Rightarrow> nat \<Rightarrow> f32 \<Rightarrow> f32 \<Rightarrow> f32 \<Rightarrow> nat" where
  "z_score_ones bits n mean m2 v =
     (let variance = f32_div m2 (f32_of_nat n);
          std_dev = f32_sqrt variance;
          ranges = (bits + 1) mod 256;
          v_z_score = f32_div (f32_sub v mean) std_dev;
          index = f32_div (f32_add v_z_score f32_two) (f32_div f32_four (f32_of_nat ranges))
      in if f32_lt index f32_one then 0
         else min (f32_to_usize (f32_floor index)) bits)"

definition quantize :: "sbq_quantizer \<Rightarrow> f32 list \<Rightarrow> 64 word list res" where
  "quantize q full_vector =
     rbind (rassert (\<not> training q) ''!self.training'') (\<lambda>_.
     let res_vector = replicate (quantized_size q (length full_vector)) 0;
         bits = num_bits_per_dimension q
     in if use_mean q then
          if bits = 1 then
            rfold (\<lambda>(i, v) ws.
              rbind (index_f32 (q_mean q) i) (\<lambda>m.
              if f32_lt m v then set_bit_at i ws else Inr ws)) (enumerate 0 full_vector) res_vector
          else
            rfold (\<lambda>(i, v) ws.
              rbind (index_f32 (q_mean q) i) (\<lambda>mean.
              rbind (index_f32 (q_m2 q) i) (\<lambda>m2.
              let bit_position = i * bits in
              rfold (\<lambda>j ws. set_bit_at (bit_position + j) ws)
                [0..<z_score_ones bits (q_count q) mean m2 v] ws))) (enumerate 0 full_vector) res_vector
        else
          rfold (\<lambda>(i, v) ws. if f32_lt f32_zero v then set_bit_at i ws else Inr ws)
            (enumerate 0 full_vector) res_vector)"

definition vector_for_new_node :: "sbq_quantizer \<Rightarrow> f32 list \<Rightarrow> 64 word list res" where
  "vector_for_new_node q full_vector = quantize q full_vector"

section \<open>Training\<close>

definition start_training :: "nat \<Rightarrow> sbq_quantizer \<Rightarrow> sbq_quantizer" where
  "start_training num_dimensions_to_index q =
     (let q = q\<lparr>training := True\<rparr> in
      if use_mean q then
        let q = q\<lparr>q_count := 0, q_mean := replicate num_dimensions_to_index f32_zero\<rparr> in
        if num_bits_per_dimension q > 1 then q\<lparr>q_m2 := replicate num_dimensions_to_index f32_zero\<rparr> else q
      else q)"

definition update_mean :: "nat \<Rightarrow> f32 list \<Rightarrow> f32 list \<Rightarrow> f32 list" where
  "update_mean n mean sample =
     map (\<lambda>(m, s). f32_add m (f32_div (f32_sub s m) (f32_of_nat n))) (zip mean sample)"

definition add_sample :: "f32 list \<Rightarrow> sbq_quantizer \<Rightarrow> sbq_quantizer res" where
  "add_sample sample q =
     (if use_mean q then
        let q = q\<lparr>q_count := q_count q + 1\<rparr> in
        rbind (rassert (length (q_mean q) = length sample) ''self.mean.len() == sample.len()'') (\<lambda>_.
        if num_bits_per_dimension q > 1 then
          rbind (rassert (length (q_m2 q) = length sample) ''self.m2.len() == sample.len()'') (\<lambda>_.
          let delta = map (\<lambda>(m, s). f32_sub s m) (zip (q_mean q) sample);
              q = q\<lparr>q_mean := update_mean (q_count q) (q_mean q) sample\<rparr>;
              delta2 = map (\<lambda>(m, s). f32_sub s m) (zip (q_mean q) sample)
          in Inr (q\<lparr>q_m2 := map (\<lambda>((m2, d), d2). f32_add m2 (f32_mul d d2)) (zip (zip (q_m2 q) delta) delta2)\<rparr>))
        else Inr (q\<lparr>q_mean := update_mean (q_count q) (q_mean q) sample\<rparr>))
      else Inr q)"

definition finish_training :: "sbq_quantizer \<Rightarrow> sbq_quantizer" where
  "finish_training q = q\<lparr>training := False\<rparr>"

section \<open>Bits of a packed vector\<close>

definition bit_at :: "64 word list \<Rightarrow> nat \<Rightarrow> bool" where
  "bit_at ws p = bit (ws ! (p div 64)) (p mod 64)"

lemma set_bit_at_facts:
  assumes "p < 64 * length ws"
  shows "\<exists>ws'. set_bit_at p ws = Inr ws' \<and> length ws' = length ws \<and>
    (\<forall>r < 64 * length ws. bit_at ws' r \<longleftrightarrow> r = p \<or> bit_at ws r)"
proof -
  let ?i = "p div 64"
  have i: "?i < length ws" using assms by (simp add: less_mult_imp_div_less mult.commute)
  let ?ws = "ws[?i := ws ! ?i OR push_bit (p mod 64) 1]"
  have "bit_at ?ws r \<longleftrightarrow> r = p \<or> bit_at ws r" if r: "r < 64 * length ws" for r
  proof (cases "r div 64 = ?i")
    case True
    have "bit (push_bit (p mod 64) 1 :: 64 word) (r mod 64) \<longleftrightarrow> r mod 64 = p mod 64"
      by (simp add: bit_push_bit_iff bit_1_iff del: push_bit_of_1) auto
    moreover have "r mod 64 = p mod 64 \<longleftrightarrow> r = p"
      using True by (metis div_mult_mod_eq)
    ultimately show ?thesis using True i by (auto simp: bit_at_def bit_or_iff)
  next
    case False
    then show ?thesis by (auto simp: bit_at_def)
  qed
  then show ?thesis using i by (simp add: set_bit_at_def BITS_STORE_TYPE_SIZE_def Let_def)
qed

lemma set_bits_loop:
  "p + n \<le> 64 * length ws \<Longrightarrow>
    \<exists>ws'. rfold (\<lambda>j ws. set_bit_at (p + j) ws) [0..<n] ws = Inr ws' \<and> length ws' = length ws \<and>
      (\<forall>r < 64 * length ws. bit_at ws' r \<longleftrightarrow> p \<le> r \<and> r < p + n \<or> bit_at ws r)"
proof (induction n)
  case (Suc n)
  then obtain u where u: "rfold (\<lambda>j ws. set_bit_at (p + j) ws) [0..<n] ws = Inr u" "length u = length ws"
    "\<forall>r < 64 * length ws. bit_at u r \<longleftrightarrow> p \<le> r \<and> r < p + n \<or> bit_at ws r" by auto
  have "p + n < 64 * length u" using Suc.prems u(2) by simp
  from set_bit_at_facts [OF this] obtain ws' where
    w: "set_bit_at (p + n) u = Inr ws'" "length ws' = length u"
      "\<forall>r < 64 * length u. bit_at ws' r \<longleftrightarrow> r = p + n \<or> bit_at u r" by blast
  have "rfold (\<lambda>j ws. set_bit_at (p + j) ws) [0..<Suc n] ws = Inr ws'"
    using u(1) w(1) by (simp add: rfold_append)
  then show ?case using u(2,3) w(2,3) by (intro exI [of _ ws']) auto
qed auto

lemma quantized_size_bits: "n * bits \<le> 64 * quantized_size_internal n bits"
proof -
  have "m \<le> 64 * (if m mod 64 = 0 then m div 64 else m div 64 + 1)" for m :: nat
    using mod_mult_div_eq [of m 64] mod_less_divisor [of 64 m] by auto
  from this [of "n * bits"] show ?thesis
    by (simp add: quantized_size_internal_def BITS_STORE_TYPE_SIZE_def Let_def split: if_splits)
qed

text \<open>The level a value is quantised to: how many of its bits are set.\<close>

definition quantized_level :: "sbq_quantizer \<Rightarrow> nat \<Rightarrow> f32 \<Rightarrow> nat" where
  "quantized_level q i v =
     (if use_mean q then
        if num_bits_per_dimension q = 1 then (if f32_lt (q_mean q ! i) v then 1 else 0)
        else z_score_ones (num_bits_per_dimension q) (q_count q) (q_mean q ! i) (q_m2 q ! i) v
      else if f32_lt f32_zero v then 1 else 0)"

lemma quantized_level_le:
  "use_mean q \<Longrightarrow> quantized_level q i v \<le> num_bits_per_dimension q"
  by (simp add: quantized_level_def z_score_ones_def Let_def)

text \<open>A trained quantiser for vectors of \<open>n\<close> dimensions.\<close>

definition trained :: "nat \<Rightarrow> sbq_quantizer \<Rightarrow> bool" where
  "trained n q \<longleftrightarrow> use_mean q \<and> \<not> training q \<and> 0 < num_bits_per_dimension q \<and> length (q_mean q) = n \<and>
     (num_bits_per_dimension q > 1 \<longrightarrow> length (q_m2 q) = n)"

text \<open>One dimension: its bits become a run of ones of the level's length.\<close>

definition quantize_step :: "sbq_quantizer \<Rightarrow> nat \<times> f32 \<Rightarrow> 64 word list \<Rightarrow> 64 word list res" where
  "quantize_step q = (\<lambda>(i, v) ws.
     if num_bits_per_dimension q = 1 then
       rbind (index_f32 (q_mean q) i) (\<lambda>m. if f32_lt m v then set_bit_at i ws else Inr ws)
     else
       rbind (index_f32 (q_mean q) i) (\<lambda>mean.
       rbind (index_f32 (q_m2 q) i) (\<lambda>m2.
       let bit_position = i * num_bits_per_dimension q in
       rfold (\<lambda>j ws. set_bit_at (bit_position + j) ws)
         [0..<z_score_ones (num_bits_per_dimension q) (q_count q) mean m2 v] ws)))"

lemma quantize_steps:
  assumes "trained n q"
  shows "quantize q v = rfold (quantize_step q) (enumerate 0 v) (replicate (quantized_size q (length v)) 0)"
proof -
  have "quantize_step q = (if num_bits_per_dimension q = 1 then
      (\<lambda>(i, v) ws. rbind (index_f32 (q_mean q) i) (\<lambda>m. if f32_lt m v then set_bit_at i ws else Inr ws))
    else (\<lambda>(i, v) ws.
       rbind (index_f32 (q_mean q) i) (\<lambda>mean.
       rbind (index_f32 (q_m2 q) i) (\<lambda>m2.
       let bit_position = i * num_bits_per_dimension q in
       rfold (\<lambda>j ws. set_bit_at (bit_position + j) ws)
         [0..<z_score_ones (num_bits_per_dimension q) (q_count q) mean m2 v] ws))))"
    by (auto simp: quantize_step_def fun_eq_iff)
  then show ?thesis using assms by (simp add: quantize_def trained_def Let_def)
qed

lemma quantize_step_facts:
  assumes q: "trained n q" and i: "i < n" and len: "n * num_bits_per_dimension q \<le> 64 * length ws"
  shows "\<exists>ws'. quantize_step q (i, v) ws = Inr ws' \<and> length ws' = length ws \<and>
    (\<forall>r < 64 * length ws. bit_at ws' r \<longleftrightarrow>
       i * num_bits_per_dimension q \<le> r \<and> r < i * num_bits_per_dimension q + quantized_level q i v \<or> bit_at ws r)"
proof -
  let ?b = "num_bits_per_dimension q"
  have fit: "i * ?b + quantized_level q i v \<le> 64 * length ws"
  proof -
    have "i * ?b + ?b \<le> n * ?b" using mult_le_mono1 [of "Suc i" n ?b] i by simp
    then show ?thesis using quantized_level_le [of q i v] q len by (simp add: trained_def)
  qed
  have loop: "rfold (\<lambda>j ws. set_bit_at (i * ?b + j) ws) [0..<quantized_level q i v] ws = quantize_step q (i, v) ws"
    using q i by (auto simp: quantize_step_def quantized_level_def trained_def index_f32_def Let_def rbind_def
        split: sum.splits)
  show ?thesis using set_bits_loop [OF fit] unfolding loop .
qed

lemma quantize_loop:
  assumes q: "trained n q" and len: "n * num_bits_per_dimension q \<le> 64 * length ws"
  shows "k + length v \<le> n \<Longrightarrow> \<exists>ws'. rfold (quantize_step q) (enumerate k v) ws = Inr ws' \<and> length ws' = length ws \<and>
    (\<forall>r < 64 * length ws. bit_at ws' r \<longleftrightarrow>
       (\<exists>i < length v. (k + i) * num_bits_per_dimension q \<le> r \<and>
          r < (k + i) * num_bits_per_dimension q + quantized_level q (k + i) (v ! i)) \<or> bit_at ws r)"
  using len
proof (induction v arbitrary: k ws)
  case (Cons x v)
  let ?b = "num_bits_per_dimension q"
  have "k < n" using Cons.prems by simp
  from quantize_step_facts [OF q this Cons.prems(2)] obtain u where
    u: "quantize_step q (k, x) ws = Inr u" "length u = length ws"
      "\<forall>r < 64 * length ws. bit_at u r \<longleftrightarrow> k * ?b \<le> r \<and> r < k * ?b + quantized_level q k x \<or> bit_at ws r" by blast
  have "Suc k + length v \<le> n" "n * ?b \<le> 64 * length u" using Cons.prems u(2) by auto
  from Cons.IH [OF this] obtain ws' where
    w: "rfold (quantize_step q) (enumerate (Suc k) v) u = Inr ws'" "length ws' = length u"
      "\<forall>r < 64 * length u. bit_at ws' r \<longleftrightarrow>
       (\<exists>i < length v. (Suc k + i) * ?b \<le> r \<and> r < (Suc k + i) * ?b + quantized_level q (Suc k + i) (v ! i)) \<or> bit_at u r"
    by blast
  have ex: "(\<exists>i < length (x # v). P (k + i) ((x # v) ! i)) \<longleftrightarrow> P k x \<or> (\<exists>i < length v. P (Suc k + i) (v ! i))" for P
    by (auto simp: less_Suc_eq_0_disj)
  show ?case
    unfolding ex [of "\<lambda>i y. i * ?b \<le> _ \<and> _ < i * ?b + quantized_level q i y"]
    using u w by (intro exI [of _ ws']) auto
qed simp

lemma bit_at_replicate: "r < 64 * m \<Longrightarrow> \<not> bit_at (replicate m 0) r"
  by (simp add: bit_at_def less_mult_imp_div_less mult.commute)

lemma run_unique:
  fixes b i j a c :: nat
  assumes "i * b \<le> r" "r < i * b + a" "a \<le> b" "j * b \<le> r" "r < j * b + c" "c \<le> b"
  shows "i = j"
proof -
  have "i < Suc j" using assms(1,5,6) mult_le_mono1 [of "Suc j" i b] by (cases "i < Suc j") auto
  moreover have "j < Suc i" using assms(2,3,4) mult_le_mono1 [of "Suc i" j b] by (cases "j < Suc i") auto
  ultimately show ?thesis by simp
qed

text \<open>The code of a vector: bit \<open>j\<close> of dimension \<open>i\<close> is set exactly when \<open>j\<close> is below the level.\<close>

lemma quantize_code:
  assumes q: "trained (length v) q"
  shows "\<exists>ws. quantize q v = Inr ws \<and> length ws = quantized_size q (length v) \<and>
    (\<forall>i < length v. \<forall>j < num_bits_per_dimension q.
       bit_at ws (i * num_bits_per_dimension q + j) \<longleftrightarrow> j < quantized_level q i (v ! i)) \<and>
    (\<forall>r. length v * num_bits_per_dimension q \<le> r \<and> r < 64 * length ws \<longrightarrow> \<not> bit_at ws r)"
proof -
  let ?b = "num_bits_per_dimension q" and ?m = "quantized_size q (length v)"
  have size: "length v * ?b \<le> 64 * length (replicate ?m (0 :: 64 word))"
    using quantized_size_bits by (simp add: quantized_size_def)
  from quantize_loop [OF q size, of 0 v] obtain ws where
    w: "rfold (quantize_step q) (enumerate 0 v) (replicate ?m 0) = Inr ws" "length ws = ?m"
      "\<forall>r < 64 * ?m. bit_at ws r \<longleftrightarrow> (\<exists>i < length v. i * ?b \<le> r \<and> r < i * ?b + quantized_level q i (v ! i))"
    by (auto simp: bit_at_replicate)
  have lev: "quantized_level q i x \<le> ?b" for i x
    using q by (simp add: trained_def quantized_level_le)
  have "bit_at ws (i * ?b + j) \<longleftrightarrow> j < quantized_level q i (v ! i)" if "i < length v" "j < ?b" for i j
  proof -
    have "Suc i * ?b \<le> length v * ?b" using that(1) by (intro mult_le_mono1) simp
    then have "i * ?b + j < 64 * ?m" using that(2) size by simp
    then show ?thesis
      using w(3) that run_unique [of i ?b "i * ?b + j" "Suc j"] lev
      by (auto simp: Suc_le_eq) (metis Suc_leI add_less_cancel_left le_add1 lessI)
  qed
  moreover have "\<not> bit_at ws r" if r: "length v * ?b \<le> r" "r < 64 * length ws" for r
  proof
    assume "bit_at ws r"
    with w(2,3) r(2) obtain i where i: "i < length v" "r < i * ?b + quantized_level q i (v ! i)"
      by auto
    have "Suc i * ?b \<le> length v * ?b" using i(1) by (intro mult_le_mono1) simp
    then show False using i(2) lev [of i "v ! i"] r(1) by simp
  qed
  ultimately show ?thesis using w(1,2) quantize_steps [OF q, of v] by auto
qed

section \<open>The distance of two codes\<close>

lemma sum_split_add: "(\<Sum>p<a + k. f p) = (\<Sum>p<a. f p) + (\<Sum>j<k. f (a + j :: nat) :: nat)"
  by (induction k) (simp_all add: algebra_simps)

lemma sum_blocks: "(\<Sum>p<n * k. f p) = (\<Sum>i<n. \<Sum>j<k. f (i * k + j :: nat) :: nat)"
proof (induction n)
  case (Suc n)
  have "(\<Sum>p<Suc n * k. f p) = (\<Sum>p<n * k + k. f p)" by (simp add: add.commute)
  then show ?case unfolding sum_split_add Suc by simp
qed simp

lemma count_ones_sum: "count_ones x = (\<Sum>j<64. of_bool (bit x j))"
proof -
  have "length (filter P [0..<n]) = (\<Sum>j<n. of_bool (P j) :: nat)" for P n
    by (induction n) simp_all
  then show ?thesis by (simp add: count_ones_def)
qed

lemma xor_sum_bits:
  assumes "length a = length b"
  shows "xor_sum a b = (\<Sum>p<64 * length a. of_bool (bit_at a p \<noteq> bit_at b p))"
proof -
  have "xor_sum a b = (\<Sum>i<length a. count_ones (a ! i XOR b ! i))"
    using assms by (simp add: xor_sum_def sum_list_sum_nth atLeast0LessThan)
  also have "\<dots> = (\<Sum>i<length a. \<Sum>j<64. of_bool (bit_at a (i * 64 + j) \<noteq> bit_at b (i * 64 + j)))"
    by (intro sum.cong refl) (simp add: count_ones_sum bit_at_def bit_xor_iff)
  also have "\<dots> = (\<Sum>p<length a * 64. of_bool (bit_at a p \<noteq> bit_at b p))"
    by (simp add: sum_blocks)
  finally show ?thesis by (simp add: mult.commute)
qed

lemma sum_level_diff:
  assumes "l \<le> b" "m \<le> b"
  shows "(\<Sum>j<b. of_bool ((j < l) \<noteq> (j < m))) = (l - m) + (m - l :: nat)"
proof -
  have "{..<b} \<inter> {j. (j < l) \<noteq> (j < m)} = {min l m..<max l m}" using assms by auto
  then show ?thesis by (simp add: sum_of_bool_eq)
qed

lemma quantize_distance:
  assumes q: "trained n q" and len: "length u = n" "length v = n"
    and qu: "quantize q u = Inr a" and qv: "quantize q v = Inr b"
  shows "distance_xor_optimized a b =
    Inr (\<Sum>i<n. (quantized_level q i (u ! i) - quantized_level q i (v ! i))
              + (quantized_level q i (v ! i) - quantized_level q i (u ! i)))"
proof -
  let ?b = "num_bits_per_dimension q" and ?m = "quantized_size q n"
  have tu: "trained (length u) q" and tv: "trained (length v) q" using q len by auto
  from quantize_code [OF tu] qu have a: "length a = ?m"
    "\<forall>i < n. \<forall>j < ?b. bit_at a (i * ?b + j) \<longleftrightarrow> j < quantized_level q i (u ! i)"
    "\<forall>r. n * ?b \<le> r \<and> r < 64 * length a \<longrightarrow> \<not> bit_at a r" using len by auto
  from quantize_code [OF tv] qv have b: "length b = ?m"
    "\<forall>i < n. \<forall>j < ?b. bit_at b (i * ?b + j) \<longleftrightarrow> j < quantized_level q i (v ! i)"
    "\<forall>r. n * ?b \<le> r \<and> r < 64 * length b \<longrightarrow> \<not> bit_at b r" using len by auto
  obtain k where k: "64 * ?m = n * ?b + k"
    using quantized_size_bits [of n ?b] unfolding quantized_size_def [symmetric] by (metis le_Suc_ex)
  have lev: "quantized_level q i x \<le> ?b" for i x using q by (simp add: trained_def quantized_level_le)
  have "xor_sum a b = (\<Sum>p<n * ?b + k. of_bool (bit_at a p \<noteq> bit_at b p))"
    using xor_sum_bits [of a b] a(1) b(1) k by simp
  also have "\<dots> = (\<Sum>p<n * ?b. of_bool (bit_at a p \<noteq> bit_at b p))"
    unfolding sum_split_add using a(1,3) b(1,3) k by simp
  also have "\<dots> = (\<Sum>i<n. \<Sum>j<?b. of_bool ((j < quantized_level q i (u ! i)) \<noteq> (j < quantized_level q i (v ! i))))"
    unfolding sum_blocks using a(2) b(2) by (intro sum.cong refl) simp
  also have "\<dots> = (\<Sum>i<n. (quantized_level q i (u ! i) - quantized_level q i (v ! i))
              + (quantized_level q i (v ! i) - quantized_level q i (u ! i)))"
    by (intro sum.cong refl sum_level_diff lev)
  finally show ?thesis
    using distance_xor_eq [of a b] a(1) b(1) by simp
qed

section \<open>Training yields a trained quantiser\<close>

definition in_training :: "nat \<Rightarrow> sbq_quantizer \<Rightarrow> bool" where
  "in_training n q \<longleftrightarrow> use_mean q \<and> training q \<and> 0 < num_bits_per_dimension q \<and> length (q_mean q) = n \<and>
     (num_bits_per_dimension q > 1 \<longrightarrow> length (q_m2 q) = n)"

lemma start_training_facts:
  "use_mean q \<Longrightarrow> 0 < num_bits_per_dimension q \<Longrightarrow> in_training n (start_training n q) \<and> q_count (start_training n q) = 0"
  by (simp add: in_training_def start_training_def Let_def)

lemma add_sample_facts:
  assumes "in_training n q" "length s = n"
  shows "\<exists>q'. add_sample s q = Inr q' \<and> in_training n q' \<and> q_count q' = q_count q + 1
    \<and> num_bits_per_dimension q' = num_bits_per_dimension q"
  using assms by (auto simp: in_training_def add_sample_def update_mean_def Let_def)

lemma training_loop:
  "in_training n q \<Longrightarrow> \<forall>s \<in> set samples. length s = n \<Longrightarrow>
    \<exists>q'. rfold add_sample samples q = Inr q' \<and> in_training n q' \<and> q_count q' = q_count q + length samples"
proof (induction samples arbitrary: q)
  case (Cons s ss)
  have "length s = n" using Cons.prems(2) by simp
  from add_sample_facts [OF Cons.prems(1) this] obtain q1 where
    q1: "add_sample s q = Inr q1" "in_training n q1" "q_count q1 = q_count q + 1" by blast
  from Cons.IH [OF q1(2)] Cons.prems(2) obtain q' where
    "rfold add_sample ss q1 = Inr q'" "in_training n q'" "q_count q' = q_count q1 + length ss" by auto
  then show ?case using q1 by simp
qed simp

lemma finish_training_facts: "in_training n q \<Longrightarrow> trained n (finish_training q)"
  by (simp add: in_training_def trained_def finish_training_def)

section \<open>Properties\<close>

text \<open>
  C19. Quantisation is a thermometer code and the index distance its L1 distance: a quantiser built
  by \<open>start_training\<close>, any number of \<open>add_sample\<close> of the right dimension and \<open>finish_training\<close> never
  fails to quantise vectors of that dimension, and the Hamming distance of two codes is the sum
  over the dimensions of the absolute differences of the levels of the two vectors.
\<close>

theorem sbq_distance_is_level_distance:
  assumes "0 < bits" "\<forall>s \<in> set samples. length s = n" "length u = n" "length v = n"
  shows "\<exists>q a b. rfold add_sample samples (start_training n (sbq_quantizer_new bits)) = Inr q
    \<and> q_count q = length samples
    \<and> quantize (finish_training q) u = Inr a \<and> quantize (finish_training q) v = Inr b
    \<and> length a = quantized_size_internal n bits
    \<and> (\<forall>i x. quantized_level (finish_training q) i x \<le> bits)
    \<and> distance_xor_optimized a b =
        Inr (\<Sum>i<n. (quantized_level (finish_training q) i (u ! i) - quantized_level (finish_training q) i (v ! i))
                  + (quantized_level (finish_training q) i (v ! i) - quantized_level (finish_training q) i (u ! i)))"
proof -
  have "num_bits_per_dimension q = bits" if "rfold add_sample samples (start_training n (sbq_quantizer_new bits)) = Inr q" for q
    by (rule rfold_invariant [OF that, where I = "\<lambda>q. num_bits_per_dimension q = bits"])
      (auto simp: add_sample_def start_training_def sbq_quantizer_new_def Let_def split: if_splits)
  note bits = this
  have "use_mean (sbq_quantizer_new bits)" "0 < num_bits_per_dimension (sbq_quantizer_new bits)"
    using assms(1) by (simp_all add: sbq_quantizer_new_def)
  from start_training_facts [OF this, of n] training_loop [OF _ assms(2)] obtain q where
    q: "rfold add_sample samples (start_training n (sbq_quantizer_new bits)) = Inr q" "in_training n q"
      "q_count q = length samples" by fastforce
  let ?q = "finish_training q"
  have t: "trained n ?q" using finish_training_facts [OF q(2)] .
  have tu: "trained (length u) ?q" and tv: "trained (length v) ?q" using t assms(3,4) by simp_all
  have nb: "num_bits_per_dimension ?q = bits" using bits [OF q(1)] by (simp add: finish_training_def)
  obtain a where a: "quantize ?q u = Inr a" "length a = quantized_size ?q n"
    using quantize_code [OF tu] assms(3) by blast
  obtain b where b: "quantize ?q v = Inr b"
    using quantize_code [OF tv] assms(4) by blast
  have "quantized_level ?q i x \<le> bits" for i x
    using quantized_level_le [of ?q i x] t nb by (simp add: trained_def)
  then show ?thesis
    using q(1,3) a b quantize_distance [OF t assms(3,4) a(1) b] nb by (auto simp: quantized_size_def)
qed

theorem sbq_distance_is_level_distance_witness:
  "\<exists>q a b. rfold add_sample [[0x3F800000, 0], [0, 0x40000000]] (start_training 2 (sbq_quantizer_new 2)) = Inr q
    \<and> quantize (finish_training q) [0, 0] = Inr a \<and> quantize (finish_training q) [0x40000000, 0x40800000] = Inr b
    \<and> is_ok (distance_xor_optimized a b)"
proof -
  have "0 < (2 :: nat)" "\<forall>s \<in> set [[0x3F800000, 0], [0, 0x40000000 :: f32]]. length s = 2"
    "length [0, 0 :: f32] = 2" "length [0x40000000, 0x40800000 :: f32] = 2" by simp_all
  from sbq_distance_is_level_distance [OF this] show ?thesis
    by (elim exE conjE) (intro exI conjI, assumption+, simp only: is_ok_simps)
qed

text \<open>
  The unrolled Hamming distance (\<open>distance_xor_optimized\<close>) is a metric on quantised vectors of
  one length: it never fails, it is symmetric, it is 0 exactly between equal vectors, it satisfies
  the triangle inequality, and it is at most the number of bits.
\<close>

theorem xor_distance_metric:
  assumes "length a = length b" "length b = length c"
  shows "\<exists>d e f. distance_xor_optimized a b = Inr d \<and> distance_xor_optimized b c = Inr e
     \<and> distance_xor_optimized a c = Inr f \<and> distance_xor_optimized b a = Inr d
     \<and> (d = 0 \<longleftrightarrow> a = b) \<and> f \<le> d + e \<and> d \<le> 64 * length a"
  using assms xor_sum_facts [OF assms(1)] xor_sum_facts(4) [OF assms(1), of c]
  by (simp add: distance_xor_eq)

theorem xor_distance_metric_witness: "distance_xor_optimized [6, 1] [5, 0] = Inr 3"
proof -
  have "distance_xor_optimized [5, 0] [6, 1] = Inr 3" by code_simp
  then show ?thesis using xor_distance_metric [of "[5, 0]" "[6, 1]" "[6, 1]"] by auto
qed

end
