(* ===== verification/Sbq_Storage.thy ===== *)
theory Sbq_Storage
  imports Search_Storage Sbq_Quantizer
begin

text \<open>
  \<open>sbq/mod.rs\<close>, \<open>sbq/cache.rs\<close> and \<open>sbq/storage.rs\<close>: the storage that keeps quantised vectors, and
  labels on an index with labels, in its nodes. Distances are Hamming distances of quantised
  vectors; a bounded cache of quantised vectors, the component \<open>w_cache\<close> of the world, is absent when
  the storage is loaded for a search only.

  An index holds nodes of one kind, with or without labels; reading one of the other kind is
  undefined in the code and a panic here. The table is \<open>sq_heap_fetch\<close>, and the cache's library
  operations are \<open>sq_lru\<close>.
\<close>

record sbq_storage =
  sq_quantizer :: sbq_quantizer
  sq_has_labels :: bool
  sq_num_neighbors :: nat
  sq_simd :: simd
  sq_distance_type :: distance_type
  sq_node_size :: "sbq_node \<Rightarrow> nat"
  sq_heap_fetch :: "heap_pointer \<Rightarrow> pg_vector option"
  sq_lru :: "(item_pointer, 64 word list) lru_ops"

definition sbq_read :: "sbq_storage \<Rightarrow> item_pointer \<Rightarrow> sbq_node world \<Rightarrow> (sbq_node \<times> sbq_node world) res" where
  "sbq_read s ip w =
     rbind (node_read ip w) (\<lambda>(n, w).
     rbind (rassert (sbq_has_labels n = sq_has_labels s) ''undefined: node of the other kind'') (\<lambda>_.
     Inr (n, w)))"

section \<open>The cache of quantised vectors\<close>

definition qv_entry_size :: "nat \<Rightarrow> nat \<Rightarrow> nat \<Rightarrow> nat" where
  "qv_entry_size size_ip size_vec sbq_vec_len = size_ip + size_vec + 8 * sbq_vec_len"

definition qv_cache_new :: "nat \<Rightarrow> nat \<Rightarrow> nat \<Rightarrow> f64 \<Rightarrow> nat \<Rightarrow> nat \<Rightarrow> qv_cache res" where
  "qv_cache_new maintenance_work_mem_bytes size_ip size_vec memory_budget sbq_vec_len min_capacity =
     (let total_memory = f64_of_nat maintenance_work_mem_bytes;
          budget = f64_to_usize (f64_ceil (f64_mul total_memory memory_budget));
          capacity = max (budget div qv_entry_size size_ip size_vec sbq_vec_len) min_capacity
      in if capacity = 0 then Inl (Panic ''unwrap'') else Inr (lru_new capacity))"

definition qv_remember :: "sbq_storage \<Rightarrow> item_pointer \<Rightarrow> 64 word list \<Rightarrow> sbq_node world \<Rightarrow> sbq_node world" where
  "qv_remember s ip v w =
     (case w_cache w of
        None \<Rightarrow> w
      | Some c \<Rightarrow> w\<lparr>w_cache := Some (snd (lru_push (sq_lru s) ip v c))\<rparr>)"

definition qv_get :: "sbq_storage \<Rightarrow> item_pointer \<Rightarrow> sbq_node world \<Rightarrow> (64 word list \<times> sbq_node world) res" where
  "qv_get s ip w =
     rbind (runwrap (w_cache w) ''unwrap'') (\<lambda>c.
     rbind (lru_get_or_insert (sq_lru s) ip
              (\<lambda>w. rbind (sbq_read s ip w) (\<lambda>(n, w). Inr (sbq_bq_vector n, w))) c w) (\<lambda>(v, c, w).
     Inr (v, w\<lparr>w_cache := Some c\<rparr>)))"

section \<open>Distances\<close>

record sbq_qdm =
  qdm_vec :: "64 word list"
  qdm_query :: labeled_vector

definition sbq_query_dm :: "sbq_storage \<Rightarrow> labeled_vector \<Rightarrow> sbq_qdm res" where
  "sbq_query_dm s query =
     rbind (to_index_slice (lv_vec query)) (\<lambda>slice.
     rbind (quantize (sq_quantizer s) slice) (\<lambda>v.
     Inr \<lparr>qdm_vec = v, qdm_query = query\<rparr>))"

definition calculate_bq_distance ::
  "sbq_qdm \<Rightarrow> 64 word list \<Rightarrow> sbq_node world \<Rightarrow> (f32 \<times> sbq_node world) res" where
  "calculate_bq_distance q bq_vector w =
     (let w = count record_quantized_distance_comparison w in
      rbind (distance_xor_optimized bq_vector (qdm_vec q)) (\<lambda>d. Inr (f32_of_nat d, w)))"

type_synonym sbq_dm = "64 word list"

definition sbq_get_distance ::
  "sbq_storage \<Rightarrow> sbq_dm \<Rightarrow> item_pointer \<Rightarrow> sbq_node world \<Rightarrow> (f32 \<times> sbq_node world) res" where
  "sbq_get_distance s v ip w =
     rbind (qv_get s ip w) (\<lambda>(vec1, w).
     let w = count record_quantized_distance_comparison w in
     rbind (distance_xor_optimized vec1 v) (\<lambda>d. Inr (f32_of_nat d, w)))"

text \<open>What is measured between the nodes of a relation.\<close>

definition sbq_dist_at :: "sbq_node relation \<Rightarrow> node_distances" where
  "sbq_dist_at = node_dist sbq_bq_vector (\<lambda>a b. rbind (distance_xor_optimized a b) (\<lambda>d. Inr (f32_of_nat d)))"

section \<open>Nodes on disk\<close>

definition sbq_create_node ::
  "sbq_storage \<Rightarrow> pg_page_ops \<Rightarrow> f32 list \<Rightarrow> label_set option \<Rightarrow> heap_pointer \<Rightarrow> tape \<Rightarrow> sbq_node world
     \<Rightarrow> (item_pointer \<times> tape \<times> sbq_node world) res" where
  "sbq_create_node s ops full_vector ls hp tp w =
     rbind (vector_for_new_node (sq_quantizer s) full_vector) (\<lambda>bq_vector.
     rbind (node_write ops (sq_node_size s)
              (sbq_node_new hp (sq_num_neighbors s) (sq_has_labels s) bq_vector ls) tp w) (\<lambda>(ip, tp, w).
     Inr (ip, tp, qv_remember s ip bq_vector w)))"

definition sbq_get_labels ::
  "sbq_storage \<Rightarrow> item_pointer \<Rightarrow> sbq_node world \<Rightarrow> (label_set option \<times> sbq_node world) res" where
  "sbq_get_labels s ip w =
     (if \<not> sq_has_labels s then Inr (None, w)
      else rbind (sbq_read s ip w) (\<lambda>(n, w). Inr (sbq_labels n, w)))"

text \<open>A neighbour with its distance, from the cache or from its node.\<close>

definition sbq_neighbor_cached ::
  "sbq_storage \<Rightarrow> item_pointer \<Rightarrow> 64 word list \<Rightarrow> item_pointer \<Rightarrow> sbq_node world
     \<Rightarrow> (neighbor_with_distance \<times> sbq_node world) res" where
  "sbq_neighbor_cached s neighbors_of q n w =
     rbind (qv_get s n w) (\<lambda>(v, w).
     let w = count record_quantized_distance_comparison w in
     rbind (distance_xor_optimized q v) (\<lambda>dist.
     rbind (dwt_new (f32_of_nat dist) neighbors_of n) (\<lambda>d.
     Inr (nwd_new n d None, w))))"

definition sbq_neighbor_read ::
  "sbq_storage \<Rightarrow> item_pointer \<Rightarrow> 64 word list \<Rightarrow> item_pointer \<Rightarrow> sbq_node world
     \<Rightarrow> (neighbor_with_distance \<times> sbq_node world) res" where
  "sbq_neighbor_read s neighbors_of q n w =
     rbind (sbq_read s n w) (\<lambda>(arch, w).
     let w = count record_quantized_distance_comparison w in
     rbind (distance_xor_optimized q (sbq_bq_vector arch)) (\<lambda>dist.
     rbind (dwt_new (f32_of_nat dist) neighbors_of n) (\<lambda>d.
     Inr (nwd_new n d (sbq_labels arch), w))))"

definition sbq_neighbors_from_disk ::
  "sbq_storage \<Rightarrow> item_pointer \<Rightarrow> sbq_node world \<Rightarrow> (neighbor_with_distance list \<times> sbq_node world) res" where
  "sbq_neighbors_from_disk s neighbors_of w =
     rbind (sbq_read s neighbors_of w) (\<lambda>(archived, w).
     let neighbors = sbq_iter_neighbors archived; q = sbq_bq_vector archived in
     if \<not> sq_has_labels s \<and> w_cache w \<noteq> None then rmap (sbq_neighbor_cached s neighbors_of q) neighbors w
     else rmap (sbq_neighbor_read s neighbors_of q) neighbors w)"

definition sbq_disk :: "sbq_storage \<Rightarrow> (sbq_node, sbq_dm) disk_ops" where
  "sbq_disk s =
     \<lparr>st_get_labels = sbq_get_labels s,
      st_neighbors_from_disk = sbq_neighbors_from_disk s,
      st_try_set = try_set_neighbors_with sbq_iter_neighbors sbq_set_neighbors (sq_num_neighbors s),
      st_node_dm = qv_get s,
      st_distance = sbq_get_distance s\<rparr>"

section \<open>Searching\<close>

type_synonym sbq_lsr = "(sbq_qdm, unit) lsr"

definition sbq_create_lsn_for_start_node ::
  "sbq_storage \<Rightarrow> builder_ops \<Rightarrow> sbq_lsr \<Rightarrow> item_pointer \<Rightarrow> neighbor_store \<Rightarrow> sbq_node world
     \<Rightarrow> (unit lsn option \<times> sbq_lsr \<times> neighbor_store \<times> sbq_node world) res" where
  "sbq_create_lsn_for_start_node s lops l ip gns w =
     (case prepare_insert l ip of
        (False, l) \<Rightarrow> Inr (None, l, gns, w)
      | (True, l) \<Rightarrow>
          rbind (sbq_read s ip w) (\<lambda>(node, w).
          rbind (runwrap (sdm l) ''unwrap'') (\<lambda>q.
          rbind (calculate_bq_distance q (sbq_bq_vector node) w) (\<lambda>(distance, w).
          rbind (create_distance_with_tie_break l distance ip) (\<lambda>d.
          Inr (Some \<lparr>lsn_index_pointer = ip, lsn_distance = d, lsn_private_data = (), lsn_labels = sbq_labels node\<rparr>,
               l, gns, w))))))"

text \<open>The label filter: whether a neighbour with these labels is skipped.\<close>

definition sbq_skip :: "sbq_qdm \<Rightarrow> bool \<Rightarrow> label_set option \<Rightarrow> bool res" where
  "sbq_skip q no_filter neighbor_labels =
     (case lv_labels (qdm_query q) of
        None \<Rightarrow> Inr False
      | Some ls \<Rightarrow>
          if no_filter then Inr False
          else rbind (runwrap neighbor_labels ''Unlabeled neighbor?'') (\<lambda>nl. Inr (\<not> overlaps ls nl)))"

text \<open>One neighbour of the visited node on disk.\<close>

definition sbq_visit_disk ::
  "sbq_storage \<Rightarrow> bool \<Rightarrow> item_pointer \<Rightarrow> sbq_lsr \<times> sbq_node world \<Rightarrow> (sbq_lsr \<times> sbq_node world) res" where
  "sbq_visit_disk s no_filter ip = (\<lambda>(l, w).
     (case prepare_insert l ip of
        (False, l) \<Rightarrow> Inr (l, w)
      | (True, l) \<Rightarrow>
          rbind (sbq_read s ip w) (\<lambda>(node, w).
          rbind (runwrap (sdm l) ''sdm is Some'') (\<lambda>q.
          rbind (sbq_skip q no_filter (sbq_labels node)) (\<lambda>skip.
          if skip then Inr (l, w)
          else
            rbind (calculate_bq_distance q (sbq_bq_vector node) w) (\<lambda>(distance, w).
            let w = qv_remember s ip (sbq_bq_vector node) w in
            rbind (create_distance_with_tie_break l distance ip) (\<lambda>d.
            Inr (insert_neighbor \<lparr>lsn_index_pointer = ip, lsn_distance = d, lsn_private_data = (),
                   lsn_labels = sbq_labels node\<rparr> l w))))))))"

text \<open>One neighbour of the visited node in the build cache.\<close>

definition sbq_visit_builder ::
  "sbq_storage \<Rightarrow> bool \<Rightarrow> neighbor_with_distance \<Rightarrow> sbq_lsr \<times> sbq_node world \<Rightarrow> (sbq_lsr \<times> sbq_node world) res" where
  "sbq_visit_builder s no_filter neighbor = (\<lambda>(l, w).
     let ip = n_index_pointer neighbor in
     (case prepare_insert l ip of
        (False, l) \<Rightarrow> Inr (l, w)
      | (True, l) \<Rightarrow>
          rbind (runwrap (sdm l) ''lsr.sdm is None'') (\<lambda>q.
          rbind (sbq_skip q no_filter (n_labels neighbor)) (\<lambda>skip.
          if skip then Inr (l, w)
          else
            rbind (qv_get s ip w) (\<lambda>(bq_vector, w).
            rbind (calculate_bq_distance q bq_vector w) (\<lambda>(distance, w).
            rbind (create_distance_with_tie_break l distance ip) (\<lambda>d.
            Inr (insert_neighbor \<lparr>lsn_index_pointer = ip, lsn_distance = d, lsn_private_data = (),
                   lsn_labels = n_labels neighbor\<rparr> l w))))))))"

definition sbq_visit_lsn_internal ::
  "sbq_storage \<Rightarrow> builder_ops \<Rightarrow> sbq_lsr \<Rightarrow> item_pointer \<Rightarrow> neighbor_store \<Rightarrow> bool \<Rightarrow> sbq_node world
     \<Rightarrow> (sbq_lsr \<times> neighbor_store \<times> sbq_node world) res" where
  "sbq_visit_lsn_internal s lops l ip gns no_filter w =
     (case gns of
        DiskStore \<Rightarrow>
          rbind (sbq_read s ip w) (\<lambda>(rn_visiting, w).
          rbind (rfold (sbq_visit_disk s no_filter) (sbq_iter_neighbors rn_visiting) (l, w)) (\<lambda>(l, w).
          Inr (l, DiskStore, w)))
      | BuilderStore b \<Rightarrow>
          rbind (builder_get_neighbors_with_distances lops (sbq_disk s) b ip w) (\<lambda>(neighbors, b, w).
          rbind (rfold (sbq_visit_builder s no_filter) neighbors (l, w)) (\<lambda>(l, w).
          Inr (l, BuilderStore b, w))))"

definition sbq_visit_lsn ::
  "sbq_storage \<Rightarrow> builder_ops \<Rightarrow> sbq_lsr \<Rightarrow> nat \<Rightarrow> neighbor_store \<Rightarrow> bool \<Rightarrow> sbq_node world
     \<Rightarrow> (sbq_lsr \<times> neighbor_store \<times> sbq_node world) res" where
  "sbq_visit_lsn s lops l lsn_idx gns no_filter w =
     rbind (get_lsn_by_idx l lsn_idx) (\<lambda>lsn.
     sbq_visit_lsn_internal s lops l (lsn_index_pointer lsn) gns no_filter w)"

definition sbq_return_lsn :: "sbq_storage \<Rightarrow> unit lsn \<Rightarrow> sbq_node world \<Rightarrow> (heap_pointer \<times> sbq_node world) res" where
  "sbq_return_lsn s lsn w =
     rbind (sbq_read s (lsn_index_pointer lsn) w) (\<lambda>(node, w). Inr (sbq_heap_item_pointer node, w))"

definition sbq_full_distance_for_resort ::
  "sbq_storage \<Rightarrow> sbq_qdm \<Rightarrow> heap_pointer \<Rightarrow> sbq_node world \<Rightarrow> (f32 option \<times> sbq_node world) res" where
  "sbq_full_distance_for_resort s q hp w =
     (let w = count record_heap_read w in
      case sq_heap_fetch s hp of
        None \<Rightarrow> Inr (None, w)
      | Some v \<Rightarrow>
          rbind (to_full_slice v) (\<lambda>full.
          rbind (to_full_slice (lv_vec (qdm_query q))) (\<lambda>query.
          rbind (get_distance_function (sq_simd s) (sq_distance_type s) full query) (\<lambda>d.
          Inr (Some d, w)))))"

definition sbq_storage_ops :: "sbq_storage \<Rightarrow> (sbq_node, sbq_dm, sbq_qdm, unit) storage" where
  "sbq_storage_ops s =
     \<lparr>s_disk = sbq_disk s, s_query_dm = sbq_query_dm s, s_create_lsn = sbq_create_lsn_for_start_node s,
      s_visit_lsn = sbq_visit_lsn s, s_return_lsn = sbq_return_lsn s, s_create_node = sbq_create_node s,
      s_resort_distance = sbq_full_distance_for_resort s\<rparr>"

section \<open>The contracts\<close>

text \<open>
  The cache is coherent: what it holds for a pointer is the vector of the node there. Vectors and
  labels never change while an index exists, so that entries never go stale.
\<close>

definition sbq_core :: "sbq_node \<Rightarrow> 64 word list \<times> label_set option" where
  "sbq_core n = (sbq_bq_vector n, sbq_labels n)"

definition qv_coherent :: "sbq_node world \<Rightarrow> bool" where
  "qv_coherent w \<longleftrightarrow> (\<forall>c. w_cache w = Some c \<longrightarrow> lru_inv c \<and>
     (\<forall>p v. lru_lookup c p = Some v \<longrightarrow> (\<exists>n. item_at (w_rel w) p = Some n \<and> sbq_bq_vector n = v)))"

definition sbq_world :: "sbq_storage \<Rightarrow> sbq_node world \<Rightarrow> bool" where
  "sbq_world s w \<longleftrightarrow> node_world sbq_slots (sq_num_neighbors s) sbq_core w \<and> qv_coherent w"

lemma sbq_graph_node: "graph_node sbq_slots sbq_iter_neighbors sbq_set_neighbors sbq_heap_item_pointer
    sbq_core sbq_is_deleted sbq_delete"
  using sbq.graph_node_axioms unfolding sbq_core_def [abs_def] .

lemma sbq_world_count [simp]: "sbq_world s (w\<lparr>w_stats := st\<rparr>) = sbq_world s w"
  by (simp add: sbq_world_def qv_coherent_def)

lemma sbq_read_same:
  "sbq_read s ip w = Inr (n, w') \<Longrightarrow> w' = count record_read w \<and> item_at (w_rel w) ip = Some n"
  by (auto simp: sbq_read_def node_read_Inr)

lemma sbq_read_fuel [no_fuel]: "sbq_read s ip w \<noteq> Inl OutOfFuel"
  unfolding sbq_read_def by (intro no_fuel)

lemma lru_get_or_insert_fuel:
  "f s \<noteq> Inl OutOfFuel \<Longrightarrow> lru_get_or_insert ops k f c s \<noteq> Inl OutOfFuel"
  by (auto simp: lru_get_or_insert_def rbind_def Let_def split: prod.splits option.splits sum.splits)

lemma qv_get_fuel [no_fuel]: "qv_get s ip w \<noteq> Inl OutOfFuel"
  unfolding qv_get_def by (intro no_fuel lru_get_or_insert_fuel)

lemma sbq_get_distance_fuel [no_fuel]: "sbq_get_distance s v ip w \<noteq> Inl OutOfFuel"
  unfolding sbq_get_distance_def by (intro no_fuel)

lemma sbq_neighbors_fuel [no_fuel]: "sbq_neighbors_from_disk s p w \<noteq> Inl OutOfFuel"
  unfolding sbq_neighbors_from_disk_def sbq_neighbor_cached_def sbq_neighbor_read_def
  by (intro no_fuel)

text \<open>A cache that obeys the laws of the library.\<close>

locale sbq_lru =
  fixes s :: sbq_storage
  assumes lru: "lru_laws (sq_lru s)"
begin

lemma same_world: "sbq_world s w \<Longrightarrow> same_disk w w' \<Longrightarrow> qv_coherent w' \<Longrightarrow> sbq_world s w'"
  using node_world_same unfolding sbq_world_def by blast

text \<open>A lookup in the cache gives the vector of the node, whether it was cached or not.\<close>

lemma qv_get_facts:
  assumes w: "sbq_world s w" and run: "qv_get s ip w = Inr (v, w')"
  shows "sbq_world s w' \<and> same_disk w w' \<and> (\<exists>n. item_at (w_rel w) ip = Some n \<and> sbq_bq_vector n = v)"
proof -
  obtain c c' u where c: "w_cache w = Some c"
    and g: "lru_get_or_insert (sq_lru s) ip
              (\<lambda>w. rbind (sbq_read s ip w) (\<lambda>(n, w). Inr (sbq_bq_vector n, w))) c w = Inr (v, c', u)"
    and w': "w' = u\<lparr>w_cache := Some c'\<rparr>"
    using run by (auto simp: qv_get_def)
  have inv: "lru_inv c" and co: "\<And>p v. lru_lookup c p = Some v \<Longrightarrow> \<exists>n. item_at (w_rel w) p = Some n \<and> sbq_bq_vector n = v"
    using w c by (auto simp: sbq_world_def qv_coherent_def)
  note gf = lru_laws.lru_get_or_insert_facts [OF lru inv g]
  have u: "same_disk w u \<and> (\<exists>n. item_at (w_rel w) ip = Some n \<and> sbq_bq_vector n = v)
      \<and> (\<forall>p v. lru_lookup c' p = Some v \<longrightarrow> (\<exists>n. item_at (w_rel w) p = Some n \<and> sbq_bq_vector n = v))"
  proof (cases "lru_lookup c ip")
    case None
    with gf have "rbind (sbq_read s ip w) (\<lambda>(n, w). Inr (sbq_bq_vector n, w)) = Inr (v, u)"
      and sub: "lru_lookup c' \<subseteq>\<^sub>m (lru_lookup c)(ip \<mapsto> v)" by auto
    then obtain n where n: "sbq_read s ip w = Inr (n, u)" "v = sbq_bq_vector n" by auto
    from sbq_read_same [OF n(1)] have r: "u = count record_read w" "item_at (w_rel w) ip = Some n" by auto
    have "\<exists>n. item_at (w_rel w) p = Some n \<and> sbq_bq_vector n = x" if "lru_lookup c' p = Some x" for p x
    proof -
      have "((lru_lookup c)(ip \<mapsto> v)) p = Some x" using sub that by (metis domI map_le_def)
      then show ?thesis using co r(2) n(2) by (cases "p = ip") auto
    qed
    then show ?thesis using r n(2) by auto
  next
    case (Some v')
    then show ?thesis using gf co by auto
  qed
  then have "qv_coherent w'" using gf unfolding w' qv_coherent_def by (simp add: same_disk_def)
  then show ?thesis using u same_world [OF w, of w'] by (simp add: w' same_disk_def)
qed

lemma qv_remember_facts:
  assumes w: "sbq_world s w" and n: "item_at (w_rel w) ip = Some n" "sbq_bq_vector n = v"
  shows "sbq_world s (qv_remember s ip v w) \<and> same_disk w (qv_remember s ip v w)"
proof (cases "w_cache w")
  case None
  then show ?thesis using w by (simp add: qv_remember_def)
next
  case (Some c)
  obtain ev c' where p: "lru_push (sq_lru s) ip v c = (ev, c')" by force
  have inv: "lru_inv c" and co: "\<And>p v. lru_lookup c p = Some v \<Longrightarrow> \<exists>n. item_at (w_rel w) p = Some n \<and> sbq_bq_vector n = v"
    using w Some by (auto simp: sbq_world_def qv_coherent_def)
  note pf = lru_laws.lru_push_facts [OF lru inv p]
  have "\<exists>n. item_at (w_rel w) q = Some n \<and> sbq_bq_vector n = x" if "lru_lookup c' q = Some x" for q x
    using pf that n co by (auto split: option.splits if_splits prod.splits)
  then have "qv_coherent (w\<lparr>w_cache := Some c'\<rparr>)" using pf by (simp add: qv_coherent_def)
  then show ?thesis
    using same_world [OF w, of "w\<lparr>w_cache := Some c'\<rparr>"] Some p by (simp add: qv_remember_def same_disk_def)
qed

lemma sbq_read_facts: "sbq_world s w \<Longrightarrow> sbq_read s ip w = Inr (n, w') \<Longrightarrow> sbq_world s w' \<and> same_disk w w'"
  by (auto dest!: sbq_read_same)

lemma sbq_get_distance_facts:
  "sbq_world s w \<Longrightarrow> sbq_get_distance s d p w = Inr (x, w') \<Longrightarrow> sbq_world s w' \<and> same_disk w w'"
  using qv_get_facts by (fastforce simp: sbq_get_distance_def Let_def same_disk_def)

lemma sbq_measured:
  assumes w: "sbq_world s w" "qv_get s p w = Inr (d, w')"
    and v: "sbq_world s v" "w_rel v = w_rel w" "sbq_get_distance s d q v = Inr (x, v')"
  shows "sbq_dist_at (w_rel w) p q = Some x"
proof -
  obtain vec u y where u: "qv_get s q v = Inr (vec, u)" "distance_xor_optimized vec d = Inr y" "x = f32_of_nat y"
    using v(3) by (auto simp: sbq_get_distance_def Let_def)
  show ?thesis
    using qv_get_facts [OF w] qv_get_facts [OF v(1) u(1)] v(2) u(2,3) by (auto simp: sbq_dist_at_def node_dist_def)
qed

lemma sbq_neighbors_facts:
  assumes w: "sbq_world s w" and run: "sbq_neighbors_from_disk s p w = Inr (ns, w')"
  shows "sbq_world s w' \<and> same_disk w w' \<and> adj_at sbq_iter_neighbors (w_rel w) p = Some (map n_index_pointer ns) \<and> valid_ptrs ns"
proof -
  obtain rn w1 f where r: "sbq_read s p w = Inr (rn, w1)"
    and f: "f = sbq_neighbor_cached s p (sbq_bq_vector rn) \<or> f = sbq_neighbor_read s p (sbq_bq_vector rn)"
    and m: "rmap f (sbq_iter_neighbors rn) w1 = Inr (ns, w')"
    using run by (auto simp: sbq_neighbors_from_disk_def Let_def split: if_splits)
  have rm: "(sbq_world s w' \<and> same_disk w w') \<and> list_all2 (\<lambda>n y. n_index_pointer y = n) (sbq_iter_neighbors rn) ns"
  proof (rule rmap_invariant [OF m, where I = "\<lambda>v. sbq_world s v \<and> same_disk w v"])
    show "sbq_world s w1 \<and> same_disk w w1" using sbq_read_facts [OF w r] .
    fix x v y v'
    assume v: "sbq_world s v \<and> same_disk w v" and fx: "f x v = Inr (y, v')"
    have "sbq_world s v' \<and> same_disk v v' \<and> n_index_pointer y = x"
    proof (cases "f = sbq_neighbor_cached s p (sbq_bq_vector rn)")
      case True
      then obtain vec v1 where "qv_get s x v = Inr (vec, v1)" "v' = count record_quantized_distance_comparison v1"
        "n_index_pointer y = x" using fx by (auto simp: sbq_neighbor_cached_def Let_def)
      then show ?thesis using qv_get_facts [of v x] v by (auto simp: same_disk_def)
    next
      case False
      then obtain n v1 where "sbq_read s x v = Inr (n, v1)" "v' = count record_quantized_distance_comparison v1"
        "n_index_pointer y = x" using fx f by (auto simp: sbq_neighbor_read_def Let_def)
      then show ?thesis using sbq_read_facts [of v x] v by (auto simp: same_disk_def)
    qed
    then show "(sbq_world s v' \<and> same_disk w v') \<and> n_index_pointer y = x" using v same_disk_trans by blast
  qed
  then have "map n_index_pointer ns = sbq_iter_neighbors rn"
    by (auto simp: list_all2_conv_all_nth intro!: nth_equalityI)
  moreover have "item_at (w_rel w) p = Some rn" using sbq_read_same [OF r] by simp
  moreover have "block_number (n_index_pointer n) \<noteq> InvalidBlockNumber" if "n \<in> set ns" for n
  proof -
    have "n_index_pointer n \<in> set (map n_index_pointer ns)" using that by simp
    then show ?thesis using sbq.iter_valid [of _ rn] calculation(1) by simp
  qed
  ultimately show ?thesis using rm by (simp add: adj_at_def valid_ptrs_def)
qed

lemma sbq_try_set_facts:
  assumes w: "sbq_world s w" and v: "valid_ptrs ns"
    and run: "try_set_neighbors_with sbq_iter_neighbors sbq_set_neighbors (sq_num_neighbors s) p expected ns w = Inr (ok, w')"
  shows "sbq_world s w'"
proof -
  have nw: "node_world sbq_slots (sq_num_neighbors s) sbq_core w" using w by (simp add: sbq_world_def)
  note t = graph_node.try_set_facts [OF sbq_graph_node nw v run]
  have "keeps_nodes sbq_core (w_rel w) (w_rel (interfere w))"
    using nw by (auto simp: node_world_def others_ok_def interfere_def split: list.splits)
  with t(2) have k: "keeps_nodes sbq_core (w_rel w) (w_rel w')" using keeps_nodes_trans by blast
  have "w_cache w' = w_cache w"
    using run by (auto simp: try_set_neighbors_with_def node_modify_Inr interfere_def split: if_splits list.splits)
  moreover have "\<exists>n. item_at (w_rel w') q = Some n \<and> sbq_bq_vector n = x"
    if "item_at (w_rel w) q = Some m" "sbq_bq_vector m = x" for q m x
    using item_at_keeps [OF k that(1)] that(2) by (auto simp: sbq_core_def)
  ultimately have "qv_coherent w'" using w unfolding sbq_world_def qv_coherent_def by metis
  then show ?thesis using t(1) by (simp add: sbq_world_def)
qed

end

sublocale sbq_lru \<subseteq> disk_storage "sbq_disk s" "sbq_world s" sbq_dist_at "adj_at sbq_iter_neighbors" "sq_num_neighbors s"
proof
  fix w w' :: "sbq_node world" and p ns x d q expected ok l ps r and st :: stats
  show "block_number q \<noteq> InvalidBlockNumber" if "adj_at sbq_iter_neighbors r p = Some ps" "q \<in> set ps"
    using that sbq.iter_valid by (auto simp: adj_at_def)
  show "sbq_world s (w\<lparr>w_stats := st\<rparr>) = sbq_world s w" by simp
  show "st_node_dm (sbq_disk s) p w \<noteq> Inl OutOfFuel"
    unfolding sbq_disk_def disk_ops.simps by (intro no_fuel)
  show "st_distance (sbq_disk s) d p w \<noteq> Inl OutOfFuel"
    unfolding sbq_disk_def disk_ops.simps by (intro no_fuel)
  show "st_get_labels (sbq_disk s) p w \<noteq> Inl OutOfFuel"
    unfolding sbq_disk_def disk_ops.simps sbq_get_labels_def by (intro no_fuel)
  show "st_neighbors_from_disk (sbq_disk s) p w \<noteq> Inl OutOfFuel"
    unfolding sbq_disk_def disk_ops.simps by (intro no_fuel)
  show "st_try_set (sbq_disk s) p expected ns w \<noteq> Inl OutOfFuel"
    unfolding sbq_disk_def disk_ops.simps by (rule sbq.try_set_no_fuel)
  assume w: "sbq_world s w"
  show "sbq_world s w' \<and> same_disk w w'" if "st_node_dm (sbq_disk s) p w = Inr (d, w')"
    using qv_get_facts [OF w, of p d w'] that by (simp add: sbq_disk_def)
  show "sbq_world s w' \<and> same_disk w w'" if "st_distance (sbq_disk s) d p w = Inr (x, w')"
    using sbq_get_distance_facts [OF w, of d p x w'] that by (simp add: sbq_disk_def)
  show "sbq_dist_at (w_rel w) p q = Some x"
    if "st_node_dm (sbq_disk s) p w = Inr (d, w')" "sbq_world s v" "w_rel v = w_rel w" "st_distance (sbq_disk s) d q v = Inr (x, v')" for v v'
    using sbq_measured [OF w, of p d w' v q x v'] that by (simp add: sbq_disk_def)
  show "sbq_world s w' \<and> same_disk w w'" if "st_get_labels (sbq_disk s) p w = Inr (l, w')"
    using that w sbq_read_facts [OF w] by (auto simp: sbq_disk_def sbq_get_labels_def split: if_splits)
  show "sbq_world s w' \<and> same_disk w w' \<and> adj_at sbq_iter_neighbors (w_rel w) p = Some (map n_index_pointer ns) \<and> valid_ptrs ns"
    if "st_neighbors_from_disk (sbq_disk s) p w = Inr (ns, w')"
    using sbq_neighbors_facts [OF w, of p ns w'] that by (simp add: sbq_disk_def)
  show "sbq_world s w' \<and> w_others w' = w_others (interfere w) \<and> length ns \<le> sq_num_neighbors s \<and>
      dist_le (sbq_dist_at (w_rel w)) (sbq_dist_at (w_rel w')) \<and>
      (if ok then adj_at sbq_iter_neighbors (w_rel (interfere w)) p = Some expected
         \<and> adj_at sbq_iter_neighbors (w_rel w') p = Some (map n_index_pointer ns)
         \<and> (\<forall>q. q \<noteq> p \<longrightarrow> adj_at sbq_iter_neighbors (w_rel w') q = adj_at sbq_iter_neighbors (w_rel (interfere w)) q)
       else adj_at sbq_iter_neighbors (w_rel (interfere w)) p \<noteq> Some expected \<and> w_rel w' = w_rel (interfere w))"
    if "valid_ptrs ns" "st_try_set (sbq_disk s) p expected ns w = Inr (ok, w')"
  proof -
    have run: "try_set_neighbors_with sbq_iter_neighbors sbq_set_neighbors (sq_num_neighbors s) p expected ns w = Inr (ok, w')"
      using that(2) by (simp add: sbq_disk_def)
    have nw: "node_world sbq_slots (sq_num_neighbors s) sbq_core w" using w by (simp add: sbq_world_def)
    have grow: "dist_le (sbq_dist_at (w_rel w)) (sbq_dist_at (w_rel w'))"
      unfolding sbq_dist_at_def
      by (rule node_dist_keeps [OF graph_node.try_set_keeps [OF sbq_graph_node nw that(1) run]]) (simp add: sbq_core_def)
    show ?thesis
      using graph_node.try_set_facts(1) [OF sbq_graph_node nw that(1) run] sbq_try_set_facts [OF w that(1) run] grow by blast
  qed
qed

locale sbq_env = sbq_lru s + lru_laws lops
  for s :: sbq_storage and lops :: builder_ops

sublocale sbq_env \<subseteq> cached_storage "sbq_disk s" "sbq_world s" sbq_dist_at "adj_at sbq_iter_neighbors" "sq_num_neighbors s" lops ..

lemma sbq_query_dm_fuel: "sbq_query_dm s q \<noteq> Inl OutOfFuel"
  unfolding sbq_query_dm_def quantize_def set_bit_at_def index_f32_def to_index_slice_def Let_def
  by (intro no_fuel)

definition sbq_lsn_ok :: "neighbor_store \<Rightarrow> sbq_node relation \<Rightarrow> unit lsn \<Rightarrow> bool" where
  "sbq_lsn_ok g rel x \<longleftrightarrow> block_number (lsn_index_pointer x) \<noteq> InvalidBlockNumber"

text \<open>What visiting a neighbour of a node does to the search.\<close>

definition sbq_visited :: "item_pointer \<Rightarrow> ('q, unit) lsr \<Rightarrow> ('q, unit) lsr \<Rightarrow> bool" where
  "sbq_visited ip l l' \<longleftrightarrow>
     lsr_step UNIV l l' \<and> ip \<in> inserted l' \<and>
     (block_number ip \<noteq> InvalidBlockNumber \<longrightarrow>
       lsr_all (\<lambda>x. block_number (lsn_index_pointer x) \<noteq> InvalidBlockNumber) l \<longrightarrow>
       lsr_all (\<lambda>x. block_number (lsn_index_pointer x) \<noteq> InvalidBlockNumber) l')"

lemma sbq_visited_skip:
  "prepare_insert l ip = (b, l') \<Longrightarrow> sbq_visited ip l l'"
  using lsr_step_record [of l ip b l' UNIV] inserted_prepare [of l ip b l']
    lsr_all_prepare [of l ip b l'] by (simp add: sbq_visited_def)

lemma sbq_visited_insert:
  assumes p: "prepare_insert l ip = (True, l1)" and n: "lsn_index_pointer n = ip"
    and i: "insert_neighbor n l1 w = (l', w')"
  shows "sbq_visited ip l l'"
  using lsr_step_insert [OF p UNIV_I n i] inserted_prepare [OF p] inserted_insert [OF i]
    lsr_all_prepare [OF p] lsr_all_insert [OF i] n by (simp add: sbq_visited_def)

context sbq_env
begin

lemma calculate_bq_distance_facts:
  "sbq_world s w \<Longrightarrow> calculate_bq_distance q v w = Inr (d, w') \<Longrightarrow> sbq_world s w' \<and> w' = count record_quantized_distance_comparison w"
  by (auto simp: calculate_bq_distance_def Let_def)

lemma sbq_visit_disk_facts:
  assumes run: "sbq_visit_disk s nf ip (l, w) = Inr (l', w')" and w: "sbq_world s w"
  shows "sbq_world s w' \<and> same_disk w w' \<and> sbq_visited ip l l'"
proof -
  obtain new l1 where p: "prepare_insert l ip = (new, l1)" by force
  note rec = sbq_visited_skip [OF p]
  show ?thesis
  proof (cases new)
    case False
    then show ?thesis using run p w rec by (auto simp: sbq_visit_disk_def)
  next
    case True
    obtain node w1 q skip where r: "sbq_read s ip w = Inr (node, w1)"
      and rest: "(if skip then Inr (l1, w1)
          else
            rbind (calculate_bq_distance q (sbq_bq_vector node) w1) (\<lambda>(distance, w).
            let w = qv_remember s ip (sbq_bq_vector node) w in
            rbind (create_distance_with_tie_break l1 distance ip) (\<lambda>d.
            Inr (insert_neighbor \<lparr>lsn_index_pointer = ip, lsn_distance = d, lsn_private_data = (),
                   lsn_labels = sbq_labels node\<rparr> l1 w)))) = Inr (l', w')"
      using run p True by (auto simp: sbq_visit_disk_def)
    note rf = sbq_read_facts [OF w r]
    show ?thesis
    proof (cases skip)
      case True
      then show ?thesis using rest rf rec by simp
    next
      case False
      with rest obtain dist w2 d where c: "calculate_bq_distance q (sbq_bq_vector node) w1 = Inr (dist, w2)"
        and i: "insert_neighbor \<lparr>lsn_index_pointer = ip, lsn_distance = d, lsn_private_data = (),
                   lsn_labels = sbq_labels node\<rparr> l1 (qv_remember s ip (sbq_bq_vector node) w2) = (l', w')"
        by (auto simp: Let_def)
      have w2: "sbq_world s w2" "w2 = count record_quantized_distance_comparison w1"
        using calculate_bq_distance_facts [OF _ c] rf by auto
      have "item_at (w_rel w2) ip = Some node" using sbq_read_same [OF r] by (simp add: w2(2))
      from qv_remember_facts [OF w2(1) this refl]
      have "sbq_world s w' \<and> same_disk w2 w'" using i by (auto simp: insert_neighbor_def same_disk_def)
      moreover have "same_disk w w2" using rf w2(2) by (simp add: same_disk_def)
      moreover have "sbq_visited ip l l'"
        using p True sbq_visited_insert [OF _ _ i, of l ip] by simp
      ultimately show ?thesis using same_disk_trans by blast
    qed
  qed
qed

lemma sbq_visit_builder_facts:
  assumes run: "sbq_visit_builder s nf nb (l, w) = Inr (l', w')" and w: "sbq_world s w"
  shows "sbq_world s w' \<and> same_disk w w' \<and> sbq_visited (n_index_pointer nb) l l'"
proof -
  let ?ip = "n_index_pointer nb"
  obtain new l1 where p: "prepare_insert l ?ip = (new, l1)" by force
  note rec = sbq_visited_skip [OF p]
  show ?thesis
  proof (cases new)
    case False
    then show ?thesis using run p w rec by (auto simp: sbq_visit_builder_def Let_def)
  next
    case True
    obtain q skip where
      rest: "(if skip then Inr (l1, w)
          else
            rbind (qv_get s ?ip w) (\<lambda>(bq_vector, w).
            rbind (calculate_bq_distance q bq_vector w) (\<lambda>(distance, w).
            rbind (create_distance_with_tie_break l1 distance ?ip) (\<lambda>d.
            Inr (insert_neighbor \<lparr>lsn_index_pointer = ?ip, lsn_distance = d, lsn_private_data = (),
                   lsn_labels = n_labels nb\<rparr> l1 w))))) = Inr (l', w')"
      using run p True by (auto simp: sbq_visit_builder_def Let_def)
    show ?thesis
    proof (cases skip)
      case True
      then show ?thesis using rest w rec by simp
    next
      case False
      with rest obtain v w1 dist w2 d where g: "qv_get s ?ip w = Inr (v, w1)"
        and c: "calculate_bq_distance q v w1 = Inr (dist, w2)"
        and i: "insert_neighbor \<lparr>lsn_index_pointer = ?ip, lsn_distance = d, lsn_private_data = (),
                   lsn_labels = n_labels nb\<rparr> l1 w2 = (l', w')"
        by auto
      note gf = qv_get_facts [OF w g]
      have "sbq_world s w2" "w2 = count record_quantized_distance_comparison w1"
        using calculate_bq_distance_facts [OF _ c] gf by auto
      moreover have "sbq_visited ?ip l l'"
        using p True sbq_visited_insert [OF _ _ i, of l ?ip] by simp
      ultimately show ?thesis using gf i by (auto simp: insert_neighbor_def same_disk_def)
    qed
  qed
qed

lemma visit_loop:
  assumes "rfold f xs (l, w) = Inr (l', w')" "sbq_world s w"
    and step: "\<forall>x l w l' w'. f x (l, w) = Inr (l', w') \<longrightarrow> sbq_world s w \<longrightarrow>
      sbq_world s w' \<and> same_disk w w' \<and> sbq_visited (ptr x) l l'"
  shows "sbq_world s w' \<and> same_disk w w' \<and> lsr_step UNIV l l'" "ptr ` set xs \<subseteq> inserted l'"
    "(\<forall>x \<in> set xs. block_number (ptr x) \<noteq> InvalidBlockNumber) \<longrightarrow>
      lsr_all (sbq_lsn_ok g r) l \<longrightarrow> lsr_all (sbq_lsn_ok g' r') l'"
proof -
  have "sbq_world s w' \<and> same_disk w w' \<and> lsr_step UNIV l l' \<and> ptr ` set xs \<subseteq> inserted l' \<and>
    ((\<forall>x \<in> set xs. block_number (ptr x) \<noteq> InvalidBlockNumber) \<longrightarrow>
      lsr_all (\<lambda>x. block_number (lsn_index_pointer x) \<noteq> InvalidBlockNumber) l \<longrightarrow>
      lsr_all (\<lambda>x. block_number (lsn_index_pointer x) \<noteq> InvalidBlockNumber) l')"
    using assms(1,2)
  proof (induction xs arbitrary: l w)
    case (Cons x xs)
    then obtain l1 w1 where st: "f x (l, w) = Inr (l1, w1)" and rest: "rfold f xs (l1, w1) = Inr (l', w')" by auto
    note f = step [rule_format, OF st Cons.prems(2)]
    note ih = Cons.IH [OF rest conjunct1 [OF f]]
    have "inserted l1 \<subseteq> inserted l'" using ih by (simp add: lsr_step_def)
    moreover have "same_disk w w'" using f ih same_disk_trans by blast
    moreover have "lsr_step UNIV l l'"
      using f ih lsr_step_trans [of UNIV l l1 l'] unfolding sbq_visited_def by blast
    moreover have "ptr x \<in> inserted l1" using f by (simp add: sbq_visited_def)
    moreover note f [THEN conjunct2, THEN conjunct2, unfolded sbq_visited_def, THEN conjunct2, THEN conjunct2]
    ultimately show ?case using ih by (simp add: subset_iff)
  qed simp
  then show "sbq_world s w' \<and> same_disk w w' \<and> lsr_step UNIV l l'" "ptr ` set xs \<subseteq> inserted l'"
    "(\<forall>x \<in> set xs. block_number (ptr x) \<noteq> InvalidBlockNumber) \<longrightarrow>
      lsr_all (sbq_lsn_ok g r) l \<longrightarrow> lsr_all (sbq_lsn_ok g' r') l'"
    unfolding sbq_lsn_ok_def by blast+
qed

lemma create_fuel [no_fuel]: "create_distance_with_tie_break l d ip \<noteq> Inl OutOfFuel"
  unfolding create_distance_with_tie_break_def by (intro no_fuel)

lemma sbq_skip_fuel [no_fuel]: "sbq_skip q nf ls \<noteq> Inl OutOfFuel"
  unfolding sbq_skip_def by (intro no_fuel)

lemma calculate_fuel [no_fuel]: "calculate_bq_distance q v w \<noteq> Inl OutOfFuel"
  unfolding calculate_bq_distance_def by (intro no_fuel)

lemma bool_prod_fuel:
  "(\<And>l. x = (False, l) \<Longrightarrow> f l \<noteq> Inl OutOfFuel) \<Longrightarrow> (\<And>l. x = (True, l) \<Longrightarrow> g l \<noteq> Inl OutOfFuel) \<Longrightarrow>
    (case x of (False, l) \<Rightarrow> f l | (True, l) \<Rightarrow> g l) \<noteq> Inl OutOfFuel"
  by (cases x) (auto split: bool.splits)

lemma sbq_visit_disk_fuel [no_fuel]: "sbq_visit_disk s nf ip st \<noteq> Inl OutOfFuel"
  unfolding sbq_visit_disk_def by (intro no_fuel bool_prod_fuel)

lemma sbq_visit_builder_fuel [no_fuel]: "sbq_visit_builder s nf nb st \<noteq> Inl OutOfFuel"
  unfolding sbq_visit_builder_def by (intro no_fuel bool_prod_fuel)

lemma sbq_visit_facts:
  assumes run: "sbq_visit_lsn_internal s lops l ip g nf w = Inr (l', g', w')" and w: "sbq_world s w" "gns_ok g"
  shows "sbq_world s w' \<and> store_kept g w g' w' \<and> lsr_step UNIV l l' \<and>
    (lsr_all (sbq_lsn_ok g (w_rel w)) l \<longrightarrow> lsr_all (sbq_lsn_ok g' (w_rel w')) l') \<and>
    (g = DiskStore \<longrightarrow> (\<exists>ns. adj_at sbq_iter_neighbors (w_rel w) ip = Some ns \<and> set ns \<subseteq> inserted l'))"
proof (cases g)
  case DiskStore
  with run obtain rn w1 where r: "sbq_read s ip w = Inr (rn, w1)" "g' = DiskStore"
    and f: "rfold (sbq_visit_disk s nf) (sbq_iter_neighbors rn) (l, w1) = Inr (l', w')"
    by (auto simp: sbq_visit_lsn_internal_def)
  note rf = sbq_read_facts [OF w(1) r(1)]
  have v: "\<forall>x \<in> set (sbq_iter_neighbors rn). block_number x \<noteq> InvalidBlockNumber"
    using sbq.iter_valid by blast
  have "\<forall>x l w l' w'. sbq_visit_disk s nf x (l, w) = Inr (l', w') \<longrightarrow> sbq_world s w \<longrightarrow>
      sbq_world s w' \<and> same_disk w w' \<and> sbq_visited x l l'"
    using sbq_visit_disk_facts by blast
  note vl = visit_loop [where ptr = "\<lambda>x. x", OF f conjunct1 [OF rf] this, unfolded image_ident]
  have "adj_at sbq_iter_neighbors (w_rel w) ip = Some (sbq_iter_neighbors rn)"
    using sbq_read_same [OF r(1)] by (simp add: adj_at_def)
  moreover have "same_disk w w'" using vl(1) rf same_disk_trans by blast
  ultimately show ?thesis using r rf vl v DiskStore w(2) by (auto simp: store_kept_def)
next
  case (BuilderStore b)
  with run obtain ns b' w1 where r: "builder_get_neighbors_with_distances lops (sbq_disk s) b ip w = Inr (ns, b', w1)"
      "g' = BuilderStore b'"
    and f: "rfold (sbq_visit_builder s nf) ns (l, w1) = Inr (l', w')"
    by (auto simp: sbq_visit_lsn_internal_def)
  have "builder_ok b" using w(2) BuilderStore by (simp add: gns_ok_def)
  note rf = builder_get_facts [OF r(1) this w(1)]
  have w1: "sbq_world s w1" using rf by blast
  have "\<forall>x l w l' w'. sbq_visit_builder s nf x (l, w) = Inr (l', w') \<longrightarrow> sbq_world s w \<longrightarrow>
      sbq_world s w' \<and> same_disk w w' \<and> sbq_visited (n_index_pointer x) l l'"
    using sbq_visit_builder_facts by blast
  note vl = visit_loop [OF f w1 this]
  show ?thesis using r rf vl BuilderStore by (auto simp: gns_ok_def store_kept_def valid_ptrs_def)
qed

lemma sbq_visit_fuel:
  assumes "sbq_world s w" "gns_ok g"
  shows "sbq_visit_lsn_internal s lops l ip g nf w \<noteq> Inl OutOfFuel"
proof (cases g)
  case DiskStore
  then show ?thesis unfolding sbq_visit_lsn_internal_def DiskStore neighbor_store.case by (intro no_fuel)
next
  case (BuilderStore b)
  have "builder_ok b" using assms(2) BuilderStore by (simp add: gns_ok_def)
  from builder_get_fuel [OF this assms(1)] show ?thesis
    unfolding sbq_visit_lsn_internal_def BuilderStore neighbor_store.case by (intro rbind_fuel no_fuel)
qed

end

sublocale sbq_env \<subseteq> search: search_storage "sbq_storage_ops s" "sbq_world s" sbq_dist_at "adj_at sbq_iter_neighbors" "sq_num_neighbors s"
  lops sbq_lsn_ok
proof -
  have d: "s_disk (sbq_storage_ops s) = sbq_disk s" by (simp add: sbq_storage_ops_def)
  show "search_storage (sbq_storage_ops s) (sbq_world s) sbq_dist_at (adj_at sbq_iter_neighbors) (sq_num_neighbors s) lops sbq_lsn_ok"
  proof (intro search_storage.intro search_storage_axioms.intro)
    show "cached_storage (s_disk (sbq_storage_ops s)) (sbq_world s) sbq_dist_at (adj_at sbq_iter_neighbors) (sq_num_neighbors s) lops"
      unfolding d by unfold_locales
    fix w w' :: "sbq_node world" and g g' l l' ip n i nf hp x b b' r r'
    show "sbq_lsn_ok (BuilderStore b) r x = sbq_lsn_ok (BuilderStore b') r' x" by (simp add: sbq_lsn_ok_def)
    show "block_number (lsn_index_pointer x) \<noteq> InvalidBlockNumber" if "sbq_lsn_ok g r x"
      using that by (simp add: sbq_lsn_ok_def)
    show "s_query_dm (sbq_storage_ops s) v \<noteq> Inl OutOfFuel" for v
      unfolding sbq_storage_ops_def storage.simps by (rule sbq_query_dm_fuel)
    assume w: "sbq_world s w"
    show "sbq_world s w' \<and> same_disk w w'" if "s_return_lsn (sbq_storage_ops s) x w = Inr (hp, w')"
      using that w sbq_read_facts [OF w] by (auto simp: sbq_storage_ops_def sbq_return_lsn_def)
    assume g: "gns_ok g"
    show "sbq_world s w' \<and> store_kept g w g' w' \<and>
      prepare_insert l ip = (n \<noteq> None, l') \<and> (\<forall>m. n = Some m \<longrightarrow> lsn_index_pointer m = ip \<and>
        (block_number ip \<noteq> InvalidBlockNumber \<longrightarrow> sbq_lsn_ok g' (w_rel w') m))"
      if run: "s_create_lsn (sbq_storage_ops s) lops l ip g w = Inr (n, l', g', w')"
    proof -
      obtain new l1 where p: "prepare_insert l ip = (new, l1)" by force
      show ?thesis
      proof (cases new)
        case False
        then show ?thesis
          using run w g p by (auto simp: sbq_storage_ops_def sbq_create_lsn_for_start_node_def)
      next
        case True
        then obtain node w1 q dist where r: "sbq_read s ip w = Inr (node, w1)"
          and c: "calculate_bq_distance q (sbq_bq_vector node) w1 = Inr (dist, w')"
          and e: "g' = g" "l' = l1" "\<exists>m. n = Some m \<and> lsn_index_pointer m = ip"
          using run p by (auto simp: sbq_storage_ops_def sbq_create_lsn_for_start_node_def)
        note rf = sbq_read_facts [OF w r]
        show ?thesis
          using calculate_bq_distance_facts [OF conjunct1 [OF rf] c] rf p True e g
          by (auto simp: store_kept_def sbq_lsn_ok_def same_disk_def)
      qed
    qed
    show "s_create_lsn (sbq_storage_ops s) lops l ip g w \<noteq> Inl OutOfFuel"
      unfolding sbq_storage_ops_def storage.simps sbq_create_lsn_for_start_node_def by (intro no_fuel bool_prod_fuel)
    show "s_visit_lsn (sbq_storage_ops s) lops l i g nf w \<noteq> Inl OutOfFuel"
    proof -
      have "get_lsn_by_idx l i \<noteq> Inl OutOfFuel" by (simp add: get_lsn_by_idx_def)
      then show ?thesis
        unfolding sbq_storage_ops_def storage.simps sbq_visit_lsn_def
        by (intro rbind_fuel) (assumption | rule sbq_visit_fuel [OF w g])+
    qed
    assume run: "s_visit_lsn (sbq_storage_ops s) lops l i g nf w = Inr (l', g', w')"
    then have visit: "sbq_visit_lsn_internal s lops l (lsn_index_pointer (visited l ! i)) g nf w = Inr (l', g', w')"
      by (auto simp: sbq_storage_ops_def sbq_visit_lsn_def get_lsn_by_idx_def split: if_splits)
    note f = sbq_visit_facts [OF visit w g]
    show "sbq_world s w' \<and> store_kept g w g' w' \<and> lsr_step UNIV l l'" using f by blast
    assume "lsr_all (sbq_lsn_ok g (w_rel w)) l"
    then show "lsr_all (sbq_lsn_ok g' (w_rel w')) l' \<and>
      (g = DiskStore \<longrightarrow> (\<exists>ns. adj_at sbq_iter_neighbors (w_rel w) (lsn_index_pointer (visited l ! i)) = Some ns \<and>
        set ns \<subseteq> inserted l'))"
      using f by blast
  qed
qed

text \<open>The storage of the program: both caches are those of the library.\<close>

definition sbq_model :: "sbq_storage \<Rightarrow> sbq_storage" where
  "sbq_model s = s\<lparr>sq_lru := lru_list\<rparr>"

interpretation sbq_search: sbq_env "sbq_model s" lru_list for s
proof (intro sbq_env.intro sbq_lru.intro lru_list.lru_laws_axioms)
  show "lru_laws (sq_lru (sbq_model s))"
    using lru_list.lru_laws_axioms by (simp add: sbq_model_def)
qed

end
