(* ===== verification/Sample_Index.thy ===== *)
theory Sample_Index
  imports Plain_Storage Sbq_Storage
begin

text \<open>
  Two small indexes, one per storage, at which the properties are instantiated: three nodes on the
  second page of a relation, with vectors of one dimension.
\<close>

definition sample_simd :: simd where
  "sample_simd = \<lparr>vf32_width = 1, horizontal_add_ps = hd, fused = (\<lambda>x y a. f32_add (f32_mul x y) a)\<rparr>"

definition sample_plain :: plain_storage where
  "sample_plain =
     \<lparr>ps_simd = sample_simd, ps_distance_type = L2, ps_num_neighbors = 2, ps_num_dimensions = 1,
      ps_num_dimensions_to_index = 1, ps_node_size = (\<lambda>_. 64), ps_heap_fetch = (\<lambda>_. None)\<rparr>"

abbreviation ip1 :: item_pointer where "ip1 \<equiv> ItemPointer 1 1"
abbreviation ip2 :: item_pointer where "ip2 \<equiv> ItemPointer 1 2"
abbreviation ip3 :: item_pointer where "ip3 \<equiv> ItemPointer 1 3"

definition sample_plain_node :: "f32 \<Rightarrow> heap_pointer \<Rightarrow> item_pointer list \<Rightarrow> plain_node" where
  "sample_plain_node v hp slots = \<lparr>p_vector = [v], p_pq_vector = [], p_neighbors = slots, p_heap = hp\<rparr>"

definition sample_plain_rel :: "plain_node relation" where
  "sample_plain_rel =
     [NewPage,
      InitPage (tsv_opaque_new Node)
        [sample_plain_node 0 (ItemPointer 7 1) [ip2, empty_slot],
         sample_plain_node 0x3F800000 (ItemPointer 7 2) [ip1, ip3],
         sample_plain_node 0x40000000 (ItemPointer 7 3) [ip2, empty_slot]]]"

definition sample_plain_world :: "plain_node world" where
  "sample_plain_world = \<lparr>w_rel = sample_plain_rel, w_cache = None, w_stats = stats_default, w_others = []\<rparr>"

lemma sample_arith:
  "f32_add 0 0 = 0" "f32_add 0 0x3F800000 = 0x3F800000" "f32_add 0 0x40800000 = 0x40800000"
  "f32_sub 0x3F800000 0 = 0x3F800000" "f32_sub 0 0x3F800000 = 0xBF800000"
  "f32_sub 0x40000000 0 = 0x40000000" "f32_sub 0 0x40000000 = 0xC0000000"
  "f32_sub 0x3F800000 0x40000000 = 0xBF800000" "f32_sub 0x40000000 0x3F800000 = 0x3F800000"
  "f32_mul 0x3F800000 0x3F800000 = 0x3F800000" "f32_mul 0xBF800000 0xBF800000 = 0x3F800000"
  "f32_mul 0x40000000 0x40000000 = 0x40800000" "f32_mul 0xC0000000 0xC0000000 = 0x40800000"
  "f32_le 0 0x3F800000" "f32_le 0 0x40800000"
  by code_simp+

lemma sample_l2:
  "ps_distance_fn sample_plain [0x3F800000] [0] = Inr 0x3F800000"
  "ps_distance_fn sample_plain [0] [0x3F800000] = Inr 0x3F800000"
  "ps_distance_fn sample_plain [0x40000000] [0] = Inr 0x40800000"
  "ps_distance_fn sample_plain [0] [0x40000000] = Inr 0x40800000"
  "ps_distance_fn sample_plain [0x3F800000] [0x40000000] = Inr 0x3F800000"
  "ps_distance_fn sample_plain [0x40000000] [0x3F800000] = Inr 0x3F800000"
  by (simp_all add: ps_distance_fn_def sample_plain_def get_distance_function_def distance_l2_def
      distance_l2_simd_body_def simd_body_def simd_loop.simps simd_tail_def setzero_ps_def sample_simd_def
      f32_zero_def sample_arith Let_def rassert_def)

lemma sample_plain_ok [simp]: "plain_world sample_plain sample_plain_world"
  by (simp add: node_world_def others_ok_def sample_plain_world_def sample_plain_rel_def rel_inv_def page_inv_def MaxOffsetNumber_def
      nodes_ok_def sample_plain_def sample_plain_node_def items_of_def exI [of _ Node])

end
