(* ===== verification/Chain_Tape.thy ===== *)
theory Chain_Tape
  imports Tape
begin

text \<open>
  \<open>util/chain.rs\<close>: data larger than a page, written as a chain of segments. A segment is a header
  (the pointer of the next segment, invalid in the last one) followed by bytes. The header's
  serialisation is rkyv's: the record \<open>rkyv_header\<close>, with its round trip as the locale
  \<open>chain_header\<close> and \<open>header_le\<close>, little endian with padding, as an instance.

  The write loop runs on fuel; every round but the first writes at least one byte, so
  \<open>length data + 1\<close> rounds are enough, which the theorems on \<open>chain_write\<close> include.
\<close>

type_synonym byte = "8 word"
type_synonym bytes = "byte list"

record rkyv_header =
  header_bytes :: "item_pointer \<Rightarrow> bytes"
  check_header :: "bytes \<Rightarrow> item_pointer option"
  header_size :: nat

locale chain_header =
  fixes h :: rkyv_header
  assumes header_length: "length (header_bytes h p) = header_size h"
    and check_bytes: "check_header h (header_bytes h p) = Some p"
    and header_small: "header_size h \<le> 48"

definition header_le :: rkyv_header where
  "header_le =
     \<lparr>header_bytes = (\<lambda>p. map (\<lambda>i. of_nat (unat (block_number p) div 256 ^ i)) [0..<4]
                        @ map (\<lambda>i. of_nat (unat (offset p) div 256 ^ i)) [0..<2] @ [0, 0]),
      check_header = (\<lambda>bs. if length bs = 8 then
          Some (ItemPointer (of_nat (\<Sum>i\<leftarrow>[0..<4]. unat (bs ! i) * 256 ^ i))
                  (of_nat (\<Sum>i\<leftarrow>[0..<2]. unat (bs ! (4 + i)) * 256 ^ i)))
        else None),
      header_size = 8\<rparr>"

lemma base256_step: "n mod 256 + 256 * (n div 256) = (n :: nat)"
  by (rule mod_mult_div_eq)

lemma base256_2:
  assumes "n < 65536"
  shows "n mod 256 + n div 256 mod 256 * 256 = (n :: nat)"
proof -
  have "n div 256 < 256" using assms by (simp add: less_mult_imp_div_less)
  then show ?thesis using base256_step [of n] by simp
qed

lemma base256_4:
  assumes "n < 4294967296"
  shows "n mod 256 + n div 256 mod 256 * 256 + n div 65536 mod 256 * 65536 + n div 16777216 mod 256 * 16777216 = (n :: nat)"
proof -
  define n1 n2 n3 where "n1 = n div 256" and "n2 = n1 div 256" and "n3 = n2 div 256"
  have "n3 < 256" unfolding n1_def n2_def n3_def using assms by (simp add: less_mult_imp_div_less div_mult2_eq [symmetric])
  moreover have "n div 65536 = n2" "n div 16777216 = n3"
    unfolding n1_def n2_def n3_def by (simp_all add: div_mult2_eq [symmetric])
  moreover have "n mod 256 + 256 * n1 = n" "n1 mod 256 + 256 * n2 = n1" "n2 mod 256 + 256 * n3 = n2"
    unfolding n1_def n2_def n3_def by (rule base256_step)+
  ultimately show ?thesis unfolding n1_def [symmetric] by simp
qed

lemma unat_byte: "unat (of_nat n :: byte) = n mod 256"
  by (simp add: unat_of_nat)

lemma unat_ucast_byte: "unat (ucast (w :: 'a::len word) :: byte) = unat w mod 256"
  using unat_byte [of "unat w"] by simp

interpretation header_le: chain_header header_le
proof
  show "check_header header_le (header_bytes header_le p) = Some p" for p
  proof (cases p)
    case (ItemPointer b off)
    have bounds: "unat b < 4294967296" "unat off < 65536"
      using unsigned_less [of b] unsigned_less [of off] by simp_all
    have d: "unat b mod 256 + unat b div 256 mod 256 * 256 + unat b div 65536 mod 256 * 65536
        + unat b div 16777216 mod 256 * 16777216 = unat b"
      "unat off mod 256 + unat off div 256 mod 256 * 256 = unat off"
      using base256_4 [OF bounds(1)] base256_2 [OF bounds(2)] by blast+
    have top: "unat b div 16777216 mod 256 = unat b div 16777216"
      using bounds(1) by (simp add: less_mult_imp_div_less)
    have u: "[0..<4] = [0, 1, 2, 3 :: nat]" "[0..<2] = [0, 1 :: nat]"
      by (simp_all add: upt_rec)
    have "(\<Sum>i\<leftarrow>[0..<4]. unat (header_bytes header_le p ! i) * 256 ^ i) = unat b"
      using d(1) by (simp add: header_le_def u ItemPointer unat_byte unat_ucast_byte top algebra_simps)
    moreover have "(\<Sum>i\<leftarrow>[0..<2]. unat (header_bytes header_le p ! (4 + i)) * 256 ^ i) = unat off"
      using d(2) by (simp add: header_le_def u ItemPointer unat_byte unat_ucast_byte algebra_simps)
    moreover have "length (header_bytes header_le p) = 8" by (simp add: header_le_def)
    ultimately show ?thesis using ItemPointer by (simp add: header_le_def del: upt_Suc)
  qed
qed (simp_all add: header_le_def)

section \<open>Writing\<close>

record chain_writer =
  c_page_type :: page_type
  c_current :: block_number

type_synonym chain_rel = "bytes relation"

definition chain_writer_new :: "chain_rel \<Rightarrow> page_type \<Rightarrow> (chain_writer \<times> chain_rel) res" where
  "chain_writer_new rel t =
     rbind (rassert (is_chained t) ''page_type.is_chained()'') (\<lambda>_.
     rbind (writable_new rel t) (\<lambda>(page, rel).
     Inr (\<lparr>c_page_type = t, c_current = wp_block page\<rparr>, commit rel page)))"

text \<open>
  The loop of \<open>write\<close> and the write of the last segment. \<open>result\<close> is the pointer of the first
  segment once it is known; the last component counts \<open>record_write\<close>.
\<close>

fun chain_write_loop ::
  "rkyv_header \<Rightarrow> pg_page_ops \<Rightarrow> page_type \<Rightarrow> nat \<Rightarrow> bytes writable_page \<Rightarrow> bytes \<Rightarrow> item_pointer option
     \<Rightarrow> chain_rel \<Rightarrow> nat \<Rightarrow> (item_pointer \<times> block_number \<times> chain_rel \<times> nat) res" where
  "chain_write_loop h ops t 0 current_page data result rel writes = Inl OutOfFuel"
| "chain_write_loop h ops t (Suc fuel) current_page data result rel writes =
     (let free = get_aligned_free_space ops length current_page in
      if header_size h + length data > free then
        rbind (writable_new rel t) (\<lambda>(next_page, rel).
        rbind (rassert (header_size h \<le> free) ''attempt to subtract with overflow'') (\<lambda>_.
        let data_size = free - header_size h;
            combined = header_bytes h (ItemPointer (wp_block next_page) 1) @ take data_size data in
        rbind (add_item ops length combined current_page) (\<lambda>(offset_number, current_page).
        let result = (case result of
                        Some r \<Rightarrow> Some r
                      | None \<Rightarrow> Some (ItemPointer (wp_block current_page) offset_number)) in
        chain_write_loop h ops t fuel next_page (drop data_size data) result
          (commit rel current_page) (writes + 1))))
      else
        rbind (add_item ops length (header_bytes h new_invalid @ data) current_page)
          (\<lambda>(offset_number, current_page).
        Inr ((case result of
                Some r \<Rightarrow> r
              | None \<Rightarrow> ItemPointer (wp_block current_page) offset_number),
             wp_block current_page, commit rel current_page, writes + 1)))"

definition chain_write ::
  "rkyv_header \<Rightarrow> pg_page_ops \<Rightarrow> chain_writer \<Rightarrow> bytes \<Rightarrow> chain_rel \<Rightarrow> nat
     \<Rightarrow> (item_pointer \<times> chain_writer \<times> chain_rel \<times> nat) res" where
  "chain_write h ops self data rel writes =
     rbind (writable_modify rel (c_current self)) (\<lambda>current_page.
     rbind (if get_aligned_free_space ops length current_page < header_size h + 1
            then writable_new rel (c_page_type self) else Inr (current_page, rel)) (\<lambda>(current_page, rel).
     rbind (chain_write_loop h ops (c_page_type self) (length data + 1) current_page data None rel writes)
       (\<lambda>(result, current, rel, writes).
     Inr (result, self\<lparr>c_current := current\<rparr>, rel, writes))))"

text \<open>The items of a staged root; \<open>n\<close> is the number of items in all, \<open>i\<close> the index of the next.\<close>

definition item_suffix ::
  "rkyv_header \<Rightarrow> pg_page_ops \<Rightarrow> page_type \<Rightarrow> nat \<Rightarrow> nat \<Rightarrow> bytes \<Rightarrow> nat \<Rightarrow> chain_rel \<Rightarrow> nat
     \<Rightarrow> (item_pointer \<times> chain_rel \<times> nat) res" where
  "item_suffix h ops t n i data data_size rel writes =
     (if data_size < length data then
        rbind (rassert (i = n - 1) ''only the last root item may overflow'') (\<lambda>_.
        rbind (chain_writer_new rel t) (\<lambda>(suffix, rel).
        rbind (chain_write h ops suffix (drop data_size data) rel writes) (\<lambda>(next, _, rel, writes).
        Inr (next, rel, writes))))
      else Inr (new_invalid, rel, writes))"

fun prepare_items ::
  "rkyv_header \<Rightarrow> pg_page_ops \<Rightarrow> page_type \<Rightarrow> nat \<Rightarrow> nat \<Rightarrow> bytes list \<Rightarrow> bytes writable_page \<Rightarrow> chain_rel \<Rightarrow> nat
     \<Rightarrow> (bytes writable_page \<times> chain_rel \<times> nat) res" where
  "prepare_items h ops t n i [] root rel writes = Inr (root, rel, writes)"
| "prepare_items h ops t n i (data # items) root rel writes =
     rbind (rassert (data \<noteq> []) ''!data.is_empty()'') (\<lambda>_.
     let free_space = get_aligned_free_space ops length root in
     rbind (rassert (free_space > header_size h) ''free_space > CHAIN_ITEM_HEADER_SIZE'') (\<lambda>_.
     let data_size = min (length data) (free_space - header_size h) in
     rbind (item_suffix h ops t n i data data_size rel writes) (\<lambda>(next, rel, writes).
     let combined = header_bytes h next @ take data_size data in
     rbind (add_item ops length combined root) (\<lambda>(off, root).
     rbind (rassert (unat off = i + 1) ''offset as usize == i + 1'') (\<lambda>_.
     prepare_items h ops t n (i + 1) items root rel writes)))))"

definition prepare_root ::
  "rkyv_header \<Rightarrow> pg_page_ops \<Rightarrow> chain_rel \<Rightarrow> page_type \<Rightarrow> nat \<Rightarrow> block_number \<Rightarrow> bool \<Rightarrow> bytes list
     \<Rightarrow> (bytes writable_page \<times> chain_rel \<times> nat) res" where
  "prepare_root h ops rel t writes root_block first_time items =
     rbind (rassert (is_chained t) ''page_type.is_chained()'') (\<lambda>_.
     rbind (rassert (items \<noteq> []) ''!items.is_empty()'') (\<lambda>_.
     rbind (if first_time then writable_new rel t
            else rbind (writable_modify rel root_block) (\<lambda>page. Inr (reinit t page, rel))) (\<lambda>(root, rel).
     rbind (rassert (wp_block root = root_block) ''root.get_block_number()'') (\<lambda>_.
     prepare_items h ops t (length items) 0 items root rel writes))))"

section \<open>Reading\<close>

text \<open>One step of the iterator: the data of the segment and the pointer of the next.\<close>

definition chain_next ::
  "rkyv_header \<Rightarrow> page_type \<Rightarrow> chain_rel \<Rightarrow> item_pointer \<Rightarrow> (bytes \<times> item_pointer) option res" where
  "chain_next h t rel ip =
     (if block_number ip = InvalidBlockNumber then Inr None
      else
        rbind (read_buffer rel (block_number ip)) (\<lambda>page.
        rbind (readable_type page) (\<lambda>t'.
        rbind (rassert (t' = t) ''page.get_type() == self.page_type'') (\<lambda>_.
        rbind (get_item_unchecked page (offset ip)) (\<lambda>slice.
        rbind (rassert (length slice > header_size h) ''slice.len() > CHAIN_ITEM_HEADER_SIZE'') (\<lambda>_.
        rbind (runwrap (check_header h (take (header_size h) slice)) ''check_archived_root'') (\<lambda>next.
        Inr (Some (drop (header_size h) slice, next)))))))))"

text \<open>The whole iterator, on fuel: a chain may be cyclic on a damaged index.\<close>

fun chain_collect :: "rkyv_header \<Rightarrow> page_type \<Rightarrow> chain_rel \<Rightarrow> nat \<Rightarrow> item_pointer \<Rightarrow> bytes list res" where
  "chain_collect h t rel 0 ip = Inl OutOfFuel"
| "chain_collect h t rel (Suc fuel) ip =
     rbind (chain_next h t rel ip) (\<lambda>x.
     case x of
       None \<Rightarrow> Inr []
     | Some (data, next) \<Rightarrow>
         rbind (chain_collect h t rel fuel next) (\<lambda>rest. Inr (data # rest)))"

section \<open>Chains in a relation\<close>

text \<open>\<open>segs\<close> are the segments of a chain at \<open>ip\<close> all of whose blocks are in \<open>B\<close>.\<close>

fun chain_segs :: "rkyv_header \<Rightarrow> page_type \<Rightarrow> nat set \<Rightarrow> chain_rel \<Rightarrow> item_pointer \<Rightarrow> bytes list \<Rightarrow> bool" where
  "chain_segs h t B rel ip [] \<longleftrightarrow> block_number ip = InvalidBlockNumber"
| "chain_segs h t B rel ip (s # segs) \<longleftrightarrow>
     block_number ip \<noteq> InvalidBlockNumber \<and> s \<noteq> [] \<and> unat (block_number ip) \<in> B \<and>
     unat (block_number ip) < length rel \<and>
     (\<exists>is. rel ! unat (block_number ip) = InitPage (tsv_opaque_new t) is) \<and>
     (\<exists>next. item_at rel ip = Some (header_bytes h next @ s) \<and> chain_segs h t B rel next segs)"

lemma item_at_page_grows:
  assumes "item_at rel p = Some x" "length rel \<le> length rel'"
    and "page_grows (rel ! unat (block_number p)) (rel' ! unat (block_number p))"
  shows "item_at rel' p = Some x"
proof -
  let ?b = "unat (block_number p)"
  have "?b < length rel" using assms(1) by (auto simp: item_at_def split: if_splits)
  then have "rel_grows (rel ! ?b # []) (rel' ! ?b # [])" using assms(3) by (simp add: rel_grows_def)
  moreover have "item_at (rel ! ?b # []) (ItemPointer 0 (offset p)) = Some x"
    using assms(1) \<open>?b < length rel\<close> by (simp add: item_at_def)
  ultimately have "item_at (rel' ! ?b # []) (ItemPointer 0 (offset p)) = Some x"
    by (rule item_at_grows)
  then show ?thesis using \<open>?b < length rel\<close> assms(2) by (simp add: item_at_def)
qed

lemma chain_segs_frame:
  assumes "length rel \<le> length rel'" "\<And>b. b \<in> B \<Longrightarrow> b < length rel \<Longrightarrow> page_grows (rel ! b) (rel' ! b)" "B \<subseteq> B'"
  shows "chain_segs h t B rel ip segs \<Longrightarrow> chain_segs h t B' rel' ip segs"
proof (induction segs arbitrary: ip)
  case (Cons s segs)
  let ?b = "unat (block_number ip)"
  from Cons.prems obtain is' "next" where b: "?b \<in> B" "?b < length rel"
    and pg: "rel ! ?b = InitPage (tsv_opaque_new t) is'"
    and it: "item_at rel ip = Some (header_bytes h next @ s)" "chain_segs h t B rel next segs" by auto
  have g: "page_grows (rel ! ?b) (rel' ! ?b)" using assms(2) b by blast
  then have "\<exists>is. rel' ! ?b = InitPage (tsv_opaque_new t) is"
    unfolding pg by (auto simp: page_grows_def split: page.splits)
  moreover have "item_at rel' ip = Some (header_bytes h next @ s)"
    using item_at_page_grows [OF it(1) assms(1) g] .
  ultimately show ?case
    using Cons.prems Cons.IH [OF it(2)] b assms(1,3) by auto
qed simp

context chain_header
begin

lemma chain_collect_segs:
  "chain_segs h t B rel ip segs \<Longrightarrow> length segs < n \<Longrightarrow> chain_collect h t rel n ip = Inr segs"
proof (induction segs arbitrary: ip n)
  case Nil
  then show ?case by (cases n) (simp_all add: chain_next_def)
next
  case (Cons s segs)
  let ?b = "unat (block_number ip)"
  from Cons.prems(1) obtain is' "next" where b: "block_number ip \<noteq> InvalidBlockNumber" "s \<noteq> []" "?b < length rel"
    and pg: "rel ! ?b = InitPage (tsv_opaque_new t) is'"
    and it: "item_at rel ip = Some (header_bytes h next @ s)" "chain_segs h t B rel next segs" by auto
  obtain m where n: "n = Suc m" "length segs < m" using Cons.prems(2) by (cases n) auto
  have "get_item_unchecked (rel ! ?b) (offset ip) = Inr (header_bytes h next @ s)"
    using it(1) by (auto simp: item_at_def split: if_splits sum.splits)
  then have "chain_next h t rel ip = Inr (Some (s, next))"
    using b by (auto simp: chain_next_def read_buffer_def readable_type_def pg header_length check_bytes)
  then show ?case using Cons.IH [OF it(2) n(2)] n(1) by simp
qed

end

locale chain_env = pg_page ops + chain_header h for ops h
begin

lemma add_item_commit:
  assumes wp: "wp_page wp = InitPage (tsv_opaque_new t) xs" "unat (wp_block wp) < length rel"
    and fits: "0 < sz x" "sz x \<le> get_aligned_free_space ops sz wp"
    and old: "page_grows (rel ! unat (wp_block wp)) (wp_page wp)" and inv: "rel_inv rel"
  shows "\<exists>wp'. add_item ops sz x wp = Inr (of_nat (length xs + 1), wp') \<and> wp_block wp' = wp_block wp
      \<and> item_at (commit rel wp') (ItemPointer (wp_block wp) (of_nat (length xs + 1))) = Some x
      \<and> page_grows (rel ! unat (wp_block wp)) (commit rel wp' ! unat (wp_block wp))
      \<and> (\<forall>b. b \<noteq> unat (wp_block wp) \<longrightarrow> commit rel wp' ! b = rel ! b)
      \<and> length (commit rel wp') = length rel \<and> rel_inv (commit rel wp')
      \<and> (\<exists>ys. commit rel wp' ! unat (wp_block wp) = InitPage (tsv_opaque_new t) ys)"
proof -
  note a = add_commit [OF wp fits old inv]
  have "sz x \<le> get_free_space ops sz wp" using fits(2) aligned_free_le order_trans by blast
  then show ?thesis
    using a wp(2) by (auto simp: add_item_def commit_def rel_grows_def)
qed

lemma fresh_free:
  "header_size h + 1 \<le> get_aligned_free_space ops sz \<lparr>wp_block = b, wp_page = InitPage (tsv_opaque_new t) []\<rparr>"
proof -
  have "f - f mod 8 \<ge> 57" if "64 \<le> f" for f :: nat
    using that mod_less_divisor [of 8 f] by linarith
  from this [OF free_empty] show ?thesis
    using header_small by (simp add: get_aligned_free_space_def get_free_space_def items_of_def Let_def)
qed

lemma chain_write_loop_ok:
  assumes "wp_page wp = InitPage (tsv_opaque_new t) xs" "unat (wp_block wp) < length rel"
    and "page_grows (rel ! unat (wp_block wp)) (wp_page wp)" "rel_inv rel"
    and "header_size h + 1 \<le> get_aligned_free_space ops length wp"
    and "data \<noteq> []" "length data < fuel" "length rel + length data < 2 ^ 32 - 1"
  defines "ip \<equiv> ItemPointer (wp_block wp) (of_nat (length xs + 1))"
  shows "\<exists>c rel' segs.
      chain_write_loop h ops t fuel wp data result rel writes
        = Inr (case result of Some r \<Rightarrow> r | None \<Rightarrow> ip, c, rel', writes + length segs)
    \<and> concat segs = data
    \<and> chain_segs h t (insert (unat (wp_block wp)) {length rel..}) rel' ip segs
    \<and> length rel \<le> length rel' \<and> length rel' < length rel + length data
    \<and> (\<forall>b < length rel. b \<noteq> unat (wp_block wp) \<longrightarrow> rel' ! b = rel ! b)
    \<and> page_grows (rel ! unat (wp_block wp)) (rel' ! unat (wp_block wp)) \<and> rel_inv rel'"
  using assms(1-8) unfolding ip_def
proof (induction fuel arbitrary: wp xs rel data result writes)
  case (Suc fuel)
  let ?b = "unat (wp_block wp)" and ?free = "get_aligned_free_space ops length wp"
  let ?ip = "ItemPointer (wp_block wp) (of_nat (length xs + 1))"
  have valid: "wp_block wp \<noteq> InvalidBlockNumber"
  proof
    assume "wp_block wp = InvalidBlockNumber"
    then have "?b = 4294967295" by (simp add: InvalidBlockNumber_def)
    then show False using Suc.prems(2,8) by simp
  qed
  show ?case
  proof (cases "header_size h + length data > ?free")
    case False
    let ?x = "header_bytes h new_invalid @ data"
    have x: "0 < length ?x" "length ?x \<le> ?free"
      using Suc.prems(6) False by (simp_all add: header_length)
    from add_item_commit [OF Suc.prems(1,2) x Suc.prems(3,4)] obtain wp' where
      a: "add_item ops length ?x wp = Inr (of_nat (length xs + 1), wp')" "wp_block wp' = wp_block wp"
        "item_at (commit rel wp') ?ip = Some ?x" "page_grows (rel ! ?b) (commit rel wp' ! ?b)"
        "\<forall>b. b \<noteq> ?b \<longrightarrow> commit rel wp' ! b = rel ! b" "length (commit rel wp') = length rel"
        "rel_inv (commit rel wp')" "\<exists>ys. commit rel wp' ! ?b = InitPage (tsv_opaque_new t) ys" by blast
    have "chain_segs h t (insert ?b {length rel..}) (commit rel wp') ?ip [data]"
      using a valid Suc.prems(2,6) by (auto simp: new_invalid_def)
    moreover have "chain_write_loop h ops t (Suc fuel) wp data result rel writes
        = Inr (case result of Some r \<Rightarrow> r | None \<Rightarrow> ?ip, wp_block wp', commit rel wp', writes + length [data])"
      using False a(1,2) by (cases result) (simp_all add: Let_def)
    ultimately show ?thesis
      using a Suc.prems(6) by (intro exI [of _ "wp_block wp'"] exI [of _ "commit rel wp'"] exI [of _ "[data]"]) auto
  next
    case True
    let ?rel = "rel @ [NewPage]" and ?n = "of_nat (length rel) :: block_number"
    let ?np = "\<lparr>wp_block = ?n, wp_page = InitPage (tsv_opaque_new t) []\<rparr>"
    let ?k = "?free - header_size h"
    let ?x = "header_bytes h (ItemPointer ?n 1) @ take ?k data"
    have left: "blocks_left rel" using Suc.prems(8) by (simp add: blocks_left_def)
    note u = unat_length_rel [OF left]
    have k: "0 < ?k" "?k < length data" using Suc.prems(5) True by auto
    have x: "0 < length ?x" "length ?x \<le> ?free" using k by (auto simp: header_length)
    have pre: "?b < length ?rel" "page_grows (?rel ! ?b) (wp_page wp)" "rel_inv ?rel"
      using Suc.prems(2,3,4) rel_inv_append_new [OF left] by (auto simp: nth_append)
    from add_item_commit [OF Suc.prems(1) pre(1) x pre(2,3)] obtain wp' where
      a: "add_item ops length ?x wp = Inr (of_nat (length xs + 1), wp')" "wp_block wp' = wp_block wp"
        "item_at (commit ?rel wp') ?ip = Some ?x" "page_grows (?rel ! ?b) (commit ?rel wp' ! ?b)"
        "\<forall>b. b \<noteq> ?b \<longrightarrow> commit ?rel wp' ! b = ?rel ! b" "length (commit ?rel wp') = length ?rel"
        "rel_inv (commit ?rel wp')" "\<exists>ys. commit ?rel wp' ! ?b = InitPage (tsv_opaque_new t) ys" by blast
    let ?rel2 = "commit ?rel wp'"
    have "?rel2 ! length rel = NewPage" using a(5) Suc.prems(2) by simp
    then have ih_pre: "wp_page ?np = InitPage (tsv_opaque_new t) []" "unat (wp_block ?np) < length ?rel2"
      "page_grows (?rel2 ! unat (wp_block ?np)) (wp_page ?np)"
      "header_size h + 1 \<le> get_aligned_free_space ops length ?np"
      "drop ?k data \<noteq> []" "length (drop ?k data) < fuel" "length ?rel2 + length (drop ?k data) < 2 ^ 32 - 1"
      using a(6) u k Suc.prems(7,8) fresh_free by (auto simp: page_grows_def)
    let ?res = "case result of Some r \<Rightarrow> Some r | None \<Rightarrow> Some ?ip"
    note ih = Suc.IH [OF ih_pre(1-3) a(7) ih_pre(4-7), of ?res "writes + 1"]
    have np: "wp_block ?np = ?n" "of_nat (length ([] :: bytes list) + 1) = (1 :: offset_number)"
      "(case ?res of Some r \<Rightarrow> r | None \<Rightarrow> ip') = (case result of Some r \<Rightarrow> r | None \<Rightarrow> ?ip)" for ip'
      by (cases result; simp)+
    from ih [unfolded np] obtain c rel' segs where
      i: "chain_write_loop h ops t fuel ?np (drop ?k data) ?res ?rel2 (writes + 1)
        = Inr (case result of Some r \<Rightarrow> r | None \<Rightarrow> ?ip, c, rel', writes + 1 + length segs)"
        "concat segs = drop ?k data"
        "chain_segs h t (insert (unat ?n) {length ?rel2..}) rel' (ItemPointer ?n 1) segs"
        "length ?rel2 \<le> length rel'" "length rel' < length ?rel2 + length (drop ?k data)"
        "\<forall>b < length ?rel2. b \<noteq> unat ?n \<longrightarrow> rel' ! b = ?rel2 ! b" "rel_inv rel'"
      by blast
    have same: "rel' ! b = ?rel2 ! b" if "b < length rel" for b
      using i(6) that a(6) u by simp
    have "chain_segs h t (insert ?b {length rel..}) rel' (ItemPointer ?n 1) segs"
      by (rule chain_segs_frame [OF _ _ _ i(3), simplified]) (use a(6) u in auto)
    moreover have "item_at rel' ?ip = Some ?x"
      by (rule item_at_page_grows [OF a(3) i(4)]) (simp add: same [OF Suc.prems(2)])
    ultimately have "chain_segs h t (insert ?b {length rel..}) rel' ?ip (take ?k data # segs)"
      using valid k Suc.prems(2) a(6,8) i(4) same [OF Suc.prems(2)] by auto
    moreover have "page_grows (rel ! ?b) (rel' ! ?b)"
      using a(4) Suc.prems(2) same [OF Suc.prems(2)] by (simp add: nth_append)
    moreover have "\<forall>b < length rel. b \<noteq> ?b \<longrightarrow> rel' ! b = rel ! b"
      using same a(5) by (simp add: nth_append)
    moreover have "chain_write_loop h ops t (Suc fuel) wp data result rel writes
        = Inr (case result of Some r \<Rightarrow> r | None \<Rightarrow> ?ip, c, rel', writes + length (take ?k data # segs))"
      using True left i(1) a(1,2) k Suc.prems(5)
      by (cases result) (simp_all add: Let_def writable_new_def reinit_def)
    moreover have "length rel \<le> length rel' \<and> length rel' < length rel + length data"
      using i(4,5) a(6) k by simp
    ultimately show ?thesis
      using i(2,7) k
      by (intro exI [of _ c] exI [of _ rel'] exI [of _ "take ?k data # segs"]) simp
  qed
qed simp

lemma chain_write_ok:
  assumes cur: "rel ! unat (c_current self) = InitPage (tsv_opaque_new (c_page_type self)) xs"
      "unat (c_current self) < length rel"
    and inv: "rel_inv rel" and ne: "data \<noteq> []" and room: "length rel + length data + 1 < 2 ^ 32 - 1"
  shows "\<exists>ip self' rel' segs.
      chain_write h ops self data rel writes = Inr (ip, self', rel', writes + length segs)
    \<and> concat segs = data
    \<and> chain_segs h (c_page_type self) (insert (unat (c_current self)) {length rel..}) rel' ip segs
    \<and> length rel \<le> length rel' \<and> length rel' \<le> length rel + length data
    \<and> (\<forall>b < length rel. b \<noteq> unat (c_current self) \<longrightarrow> rel' ! b = rel ! b)
    \<and> rel_grows rel rel' \<and> rel_inv rel'"
proof -
  let ?t = "c_page_type self" and ?b = "unat (c_current self)"
  let ?wp = "\<lparr>wp_block = c_current self, wp_page = rel ! ?b\<rparr>"
  have mod: "writable_modify rel (c_current self) = Inr ?wp"
    using cur by (auto simp: writable_modify_Inr)
  show ?thesis
  proof (cases "get_aligned_free_space ops length ?wp < header_size h + 1")
    case False
    have pre: "wp_page ?wp = InitPage (tsv_opaque_new ?t) xs" "unat (wp_block ?wp) < length rel"
      "page_grows (rel ! unat (wp_block ?wp)) (wp_page ?wp)"
      "header_size h + 1 \<le> get_aligned_free_space ops length ?wp" "length data < length data + 1"
      "length rel + length data < 2 ^ 32 - 1"
      using cur False room by auto
    from chain_write_loop_ok [OF pre(1-3) inv pre(4) ne pre(5,6), of None writes]
    obtain c rel' segs where w:
      "chain_write_loop h ops ?t (length data + 1) ?wp data None rel writes
        = Inr (ItemPointer (c_current self) (of_nat (length xs + 1)), c, rel', writes + length segs)"
      "concat segs = data"
      "chain_segs h ?t (insert ?b {length rel..}) rel' (ItemPointer (c_current self) (of_nat (length xs + 1))) segs"
      "length rel \<le> length rel'" "length rel' < length rel + length data"
      "\<forall>b < length rel. b \<noteq> ?b \<longrightarrow> rel' ! b = rel ! b" "page_grows (rel ! ?b) (rel' ! ?b)" "rel_inv rel'"
      by (auto simp del: chain_write_loop.simps)
    have "rel_grows rel rel'"
      unfolding rel_grows_def using w(4,6,7) by (metis page_grows_refl)
    then show ?thesis
      using w False mod
      by (auto simp: chain_write_def simp del: chain_write_loop.simps intro!: exI [of _ segs])
  next
    case True
    let ?n = "of_nat (length rel) :: block_number" and ?rel = "rel @ [NewPage]"
    let ?np = "\<lparr>wp_block = ?n, wp_page = InitPage (tsv_opaque_new ?t) []\<rparr>"
    have left: "blocks_left rel" using room by (simp add: blocks_left_def)
    note u = unat_length_rel [OF left]
    have new: "writable_new rel ?t = Inr (?np, ?rel)" using left by (simp add: writable_new_Inr)
    have pre: "wp_page ?np = InitPage (tsv_opaque_new ?t) []" "unat (wp_block ?np) < length ?rel"
      "page_grows (?rel ! unat (wp_block ?np)) (wp_page ?np)" "rel_inv ?rel"
      "length data < length data + 1" "length ?rel + length data < 2 ^ 32 - 1"
      using u room inv rel_inv_append_new [OF left] by (auto simp: page_grows_def)
    from chain_write_loop_ok [OF pre(1-4) fresh_free ne pre(5,6), of None writes]
    obtain c rel' segs where w:
      "chain_write_loop h ops ?t (length data + 1) ?np data None ?rel writes
        = Inr (ItemPointer ?n 1, c, rel', writes + length segs)"
      "concat segs = data"
      "chain_segs h ?t (insert (unat ?n) {length ?rel..}) rel' (ItemPointer ?n 1) segs"
      "length ?rel \<le> length rel'" "length rel' < length ?rel + length data"
      "\<forall>b < length ?rel. b \<noteq> unat ?n \<longrightarrow> rel' ! b = ?rel ! b" "rel_inv rel'"
      by (auto simp del: chain_write_loop.simps)
    have same: "rel' ! b = rel ! b" if "b < length rel" for b
      using w(6) that u by (simp add: nth_append)
    then have "rel_grows rel rel'" using w(4) by (simp add: rel_grows_def)
    moreover have "chain_segs h ?t (insert ?b {length rel..}) rel' (ItemPointer ?n 1) segs"
      by (rule chain_segs_frame [OF _ _ _ w(3)]) (use u in auto)
    moreover have "chain_write h ops self data rel writes
        = Inr (ItemPointer ?n 1, self\<lparr>c_current := c\<rparr>, rel', writes + length segs)"
      using w(1) True by (auto simp: chain_write_def mod new simp del: chain_write_loop.simps)
    ultimately show ?thesis
      using w same by (intro exI [of _ "ItemPointer ?n 1"] exI [of _ "self\<lparr>c_current := c\<rparr>"]
          exI [of _ rel'] exI [of _ segs]) auto
  qed
qed

lemma chain_writer_new_facts:
  assumes "is_chained t" "blocks_left rel" "rel_inv rel"
  shows "chain_writer_new rel t
      = Inr (\<lparr>c_page_type = t, c_current = of_nat (length rel)\<rparr>, rel @ [InitPage (tsv_opaque_new t) []])"
    and "rel_inv (rel @ [InitPage (tsv_opaque_new t) []])"
  using assms unat_length_rel [OF assms(2)]
  by (auto simp: chain_writer_new_def writable_new_def reinit_def commit_def rel_inv_def blocks_left_def
      page_inv_def MaxOffsetNumber_def)

text \<open>A suffix written by a fresh writer: it touches no existing page.\<close>

lemma suffix_ok:
  assumes t: "is_chained t" and inv: "rel_inv rel" and ne: "data \<noteq> []"
    and room: "length rel + length data + 2 < 2 ^ 32 - 1"
  shows "\<exists>ip self' rel' segs.
      rbind (chain_writer_new rel t) (\<lambda>(suffix, rel). chain_write h ops suffix data rel writes)
        = Inr (ip, self', rel', writes + length segs)
    \<and> concat segs = data \<and> chain_segs h t {length rel..} rel' ip segs
    \<and> length rel \<le> length rel' \<and> length rel' \<le> length rel + length data + 1
    \<and> (\<forall>b < length rel. rel' ! b = rel ! b) \<and> rel_inv rel'"
proof -
  have left: "blocks_left rel" using room by (simp add: blocks_left_def)
  note u = unat_length_rel [OF left] and n = chain_writer_new_facts [OF t left inv]
  let ?rel = "rel @ [InitPage (tsv_opaque_new t) []]"
  let ?w = "\<lparr>c_page_type = t, c_current = of_nat (length rel)\<rparr>"
  have "?rel ! unat (c_current ?w) = InitPage (tsv_opaque_new (c_page_type ?w)) []"
    "unat (c_current ?w) < length ?rel" "length ?rel + length data + 1 < 2 ^ 32 - 1"
    using u room by auto
  from chain_write_ok [OF this(1,2) n(2) ne this(3), of writes]
  obtain ip self' rel' segs where w:
    "chain_write h ops ?w data ?rel writes = Inr (ip, self', rel', writes + length segs)"
    "concat segs = data"
    "chain_segs h t (insert (unat (of_nat (length rel) :: block_number)) {length ?rel..}) rel' ip segs"
    "length ?rel \<le> length rel'" "length rel' \<le> length ?rel + length data"
    "\<forall>b < length ?rel. b \<noteq> unat (of_nat (length rel) :: block_number) \<longrightarrow> rel' ! b = ?rel ! b" "rel_inv rel'"
    by auto
  have "chain_segs h t {length rel..} rel' ip segs"
    by (rule chain_segs_frame [OF _ _ _ w(3)]) (use u in auto)
  moreover have "\<forall>b < length rel. rel' ! b = rel ! b"
    using w(6) u by (simp add: nth_append)
  ultimately show ?thesis
    using w n(1) by (intro exI [of _ ip] exI [of _ self'] exI [of _ rel'] exI [of _ segs]) auto
qed

end

interpretation chain8k: chain_env pg_page_8k header_le ..

section \<open>Properties\<close>

lemma length_concat_nonempty: "[] \<notin> set xss \<Longrightarrow> length xss \<le> length (concat xss)"
proof (induction xss)
  case (Cons xs xss)
  then have "1 \<le> length xs" by (cases xs) auto
  with Cons show ?case by simp
qed simp

lemma chain_segs_nonempty: "chain_segs h t B rel ip segs \<Longrightarrow> [] \<notin> set segs"
  by (induction segs arbitrary: ip) auto

text \<open>
  C20. What \<open>ChainTapeWriter::write\<close> writes, the chain reader reads back: writing any non-empty data
  succeeds while there are blocks left, whatever the free space of the current page, and the
  segments the iterator then yields from the returned pointer concatenate to the data, in at most
  one step per byte; items already stored stay where they are.
\<close>

theorem chain_roundtrip:
  assumes "rel ! unat (c_current self) = InitPage (tsv_opaque_new (c_page_type self)) xs"
    and "unat (c_current self) < length rel" "rel_inv rel" "data \<noteq> []" "length rel + length data + 1 < 2 ^ 32 - 1"
  shows "\<exists>ip self' rel' writes' segs.
      chain_write header_le pg_page_8k self data rel writes = Inr (ip, self', rel', writes')
    \<and> chain_collect header_le (c_page_type self) rel' (length data + 1) ip = Inr segs \<and> concat segs = data
    \<and> rel_grows rel rel' \<and> rel_inv rel'"
proof -
  from chain8k.chain_write_ok [OF assms, of writes] obtain ip self' rel' segs where
    w: "chain_write header_le pg_page_8k self data rel writes = Inr (ip, self', rel', writes + length segs)"
      "concat segs = data" "chain_segs header_le (c_page_type self) (insert (unat (c_current self)) {length rel..}) rel' ip segs"
      "rel_grows rel rel'" "rel_inv rel'" by blast
  have "length segs < length data + 1"
    using length_concat_nonempty [OF chain_segs_nonempty [OF w(3)]] w(2) by simp
  from header_le.chain_collect_segs [OF w(3) this] w show ?thesis by blast
qed

theorem chain_roundtrip_witness:
  "\<exists>ip self' rel' writes' segs.
      chain_write header_le pg_page_8k \<lparr>c_page_type = SbqMeans, c_current = 0\<rparr> (replicate 20000 7)
        [InitPage (tsv_opaque_new SbqMeans) []] 0 = Inr (ip, self', rel', writes')
    \<and> chain_collect header_le SbqMeans rel' 20001 ip = Inr segs \<and> concat segs = replicate 20000 7"
proof -
  have "[InitPage (tsv_opaque_new SbqMeans) []] ! unat (c_current \<lparr>c_page_type = SbqMeans, c_current = 0\<rparr>)
      = InitPage (tsv_opaque_new (c_page_type \<lparr>c_page_type = SbqMeans, c_current = 0\<rparr>)) ([] :: bytes list)"
    "rel_inv [InitPage (tsv_opaque_new SbqMeans) ([] :: bytes list)]"
    by (auto simp: rel_inv_def page_inv_def)
  from chain_roundtrip [OF this(1) _ this(2), of "replicate 20000 7" 0] show ?thesis
    by (fastforce simp del: replicate.simps)
qed

end
