(* ===== verification/Chain_Root.thy ===== *)
theory Chain_Root
  imports Chain_Tape
begin

text \<open>
  The replacement of a chained root (\<open>ChainTapeWriter::prepare_root\<close>): the staged root and its
  suffix are invisible until the commit, and afterwards every item reads back in full.
\<close>

lemma bind_suffix:
  "rbind (chain_writer_new rel t) (\<lambda>(suffix, rel).
     rbind (chain_write h ops suffix data rel writes) (\<lambda>(next, _, rel, writes). f next rel writes))
   = rbind (rbind (chain_writer_new rel t) (\<lambda>(suffix, rel). chain_write h ops suffix data rel writes))
       (\<lambda>(next, _, rel, writes). f next rel writes)"
  by (simp add: rbind_def split: sum.splits prod.splits)

definition room_for :: "'i relation \<Rightarrow> bytes list \<Rightarrow> bool" where
  "room_for rel items \<longleftrightarrow> length rel + (\<Sum>d\<leftarrow>items. length d + 1) + 2 < 2 ^ 32 - 1"

context chain_env
begin

text \<open>What an item of a staged root is: its first segment on the root, the others in \<open>rel\<close> from \<open>n\<close> on.\<close>

definition staged :: "page_type \<Rightarrow> nat \<Rightarrow> chain_rel \<Rightarrow> bytes \<Rightarrow> bytes \<Rightarrow> bool" where
  "staged t n rel item data \<longleftrightarrow>
     (\<exists>nx s segs. item = header_bytes h nx @ s \<and> s \<noteq> [] \<and> s @ concat segs = data \<and>
        chain_segs h t {n..} rel nx segs)"

lemma staged_mono:
  assumes "staged t n rel item data" "length rel \<le> length rel'" "\<forall>b < length rel. rel' ! b = rel ! b" "m \<le> n"
  shows "staged t m rel' item data"
  using assms unfolding staged_def
  by (elim exE conjE) (intro exI conjI, assumption+, rule chain_segs_frame [of rel rel' "{n..}" "{m..}"], auto)

lemma item_suffix_facts:
  assumes suf: "item_suffix h ops t n i data k rel writes = Inr (nx, rel', writes')" and t: "is_chained t"
    and inv: "rel_inv rel" and room: "length rel + length data + 2 < 2 ^ 32 - 1"
  shows "\<exists>segs. concat segs = drop k data \<and> chain_segs h t {length rel..} rel' nx segs
      \<and> length rel \<le> length rel' \<and> length rel' \<le> length rel + length data + 1
      \<and> (\<forall>b < length rel. rel' ! b = rel ! b) \<and> rel_inv rel'"
proof (cases "k < length data")
  case True
  then have "drop k data \<noteq> []" "length rel + length (drop k data) + 2 < 2 ^ 32 - 1" using room by auto
  from suffix_ok [OF t inv this, of writes] show ?thesis
    using suf True by (auto simp: item_suffix_def bind_suffix)
next
  case False
  then show ?thesis
    using suf inv by (intro exI [of _ "[]"]) (auto simp: item_suffix_def new_invalid_def)
qed

lemma prepare_items_facts:
  assumes "prepare_items h ops t n i items root rel writes = Inr (root', rel', writes')" "is_chained t"
    and "wp_page root = InitPage (tsv_opaque_new t) xs" "rel_inv rel" "room_for rel items"
  shows "wp_block root' = wp_block root
    \<and> (\<exists>ys. wp_page root' = InitPage (tsv_opaque_new t) (xs @ ys) \<and> list_all2 (staged t (length rel) rel') ys items)
    \<and> length rel \<le> length rel' \<and> (\<forall>b < length rel. rel' ! b = rel ! b) \<and> rel_inv rel'"
  using assms
proof (induction items arbitrary: i xs root rel writes)
  case (Cons data items)
  let ?free = "get_aligned_free_space ops length root"
  let ?k = "min (length data) (?free - header_size h)"
  from Cons.prems(1) have ne: "data \<noteq> []" and fr: "header_size h < ?free" by (auto simp: Let_def)
  obtain nx rel1 w1 off root1 where suf: "item_suffix h ops t n i data ?k rel writes = Inr (nx, rel1, w1)"
    and add: "add_item ops length (header_bytes h nx @ take ?k data) root = Inr (off, root1)"
    and rest: "prepare_items h ops t n (i + 1) items root1 rel1 w1 = Inr (root', rel', writes')"
    using Cons.prems(1) by (auto simp: Let_def simp del: min_less_iff_conj)
  have "length rel + length data + 2 < 2 ^ 32 - 1" using Cons.prems(5) by (simp add: room_for_def)
  from item_suffix_facts [OF suf Cons.prems(2,4) this] obtain segs where
    s: "concat segs = drop ?k data" "chain_segs h t {length rel..} rel1 nx segs"
    "length rel \<le> length rel1" "length rel1 \<le> length rel + length data + 1"
    "\<forall>b < length rel. rel1 ! b = rel ! b" "rel_inv rel1" by blast
  let ?x = "header_bytes h nx @ take ?k data"
  have root1: "wp_block root1 = wp_block root" "wp_page root1 = InitPage (tsv_opaque_new t) (xs @ [?x])"
    using add Cons.prems(3) by (auto simp: add_item_def add_item_unchecked_Inr push_item_def)
  have "room_for rel1 items" using Cons.prems(5) s(4) by (simp add: room_for_def)
  from Cons.IH [OF rest Cons.prems(2) root1(2) s(6) this] obtain ys where
    i: "wp_block root' = wp_block root1" "wp_page root' = InitPage (tsv_opaque_new t) ((xs @ [?x]) @ ys)"
      "list_all2 (staged t (length rel1) rel') ys items" "length rel1 \<le> length rel'"
      "\<forall>b < length rel1. rel' ! b = rel1 ! b" "rel_inv rel'" by blast
  have k0: "take ?k data \<noteq> []" using ne fr by auto
  then have "staged t (length rel) rel1 ?x data"
    unfolding staged_def using s(1,2) by (intro exI [of _ nx] exI [of _ "take ?k data"] exI [of _ segs]) simp
  then have "staged t (length rel) rel' ?x data" by (rule staged_mono [OF _ i(4,5) order_refl])
  moreover have "list_all2 (staged t (length rel) rel') ys items"
    using i(3) s(3) staged_mono [of t "length rel1" rel' _ _ rel' "length rel"] by (auto elim: list_all2_mono)
  ultimately show ?case
    using i s(3,5) root1(1) by (auto intro!: exI [of _ "?x # ys"])
qed auto

lemma prepare_items_length:
  assumes "prepare_items h ops t n i items root rel writes = Inr (root', rel', writes')" "is_chained t" "rel_inv rel" "room_for rel items"
  shows "length rel' \<le> length rel + (\<Sum>data\<leftarrow>items. length data + 1)"
  using assms
proof (induction items arbitrary: i root rel writes)
  case (Cons data items)
  let ?k = "min (length data) (get_aligned_free_space ops length root - header_size h)"
  obtain nx rel1 w1 off root1 where suf: "item_suffix h ops t n i data ?k rel writes = Inr (nx, rel1, w1)"
    and rest: "prepare_items h ops t n (i + 1) items root1 rel1 w1 = Inr (root', rel', writes')"
    using Cons.prems(1) by (auto simp: Let_def simp del: min_less_iff_conj)
  have "length rel + length data + 2 < 2 ^ 32 - 1" using Cons.prems(4) by (simp add: room_for_def)
  from item_suffix_facts [OF suf Cons.prems(2,3) this] have
    s: "length rel1 \<le> length rel + length data + 1" "rel_inv rel1" by blast+
  then have "room_for rel1 items" using Cons.prems(4) by (simp add: room_for_def)
  from Cons.IH [OF rest Cons.prems(2) s(2) this] show ?case using s(1) by simp
qed auto

lemma prepare_items_count:
  "prepare_items h ops t n i items root rel writes = Inr (root', rel', writes') \<Longrightarrow>
     wp_page root = InitPage q xs \<Longrightarrow> items \<noteq> [] \<Longrightarrow> length xs + length items \<le> MaxOffsetNumber"
proof (induction items arbitrary: i xs root rel writes)
  case (Cons data items)
  then obtain x off root1 rel1 w1 where add: "add_item ops length x root = Inr (off, root1)"
    and rest: "prepare_items h ops t n (i + 1) items root1 rel1 w1 = Inr (root', rel', writes')"
    by (auto simp: Let_def)
  from add Cons.prems(2) have r1: "wp_page root1 = InitPage q (xs @ [x])" "length xs < MaxOffsetNumber"
    by (auto simp: add_item_def add_item_unchecked_Inr push_item_def items_of_def dest!: add_count)
  then show ?case using Cons.IH [OF rest r1(1)] by (cases "items = []") simp_all
qed simp

text \<open>Staging an item never fails while the root has room for the header and a byte.\<close>

lemma prepare_item_ok:
  fixes root :: "bytes writable_page"
  defines "free \<equiv> get_aligned_free_space ops length root - header_size h"
  assumes data: "data \<noteq> []" "0 < free" "free < length data \<longrightarrow> i = n - 1"
    and root: "wp_page root = InitPage (tsv_opaque_new t) xs" "i = length xs"
    and t: "is_chained t" and inv: "rel_inv rel" and room: "length rel + length data + 2 < 2 ^ 32 - 1"
  shows "\<exists>x root1 rel1 w1. prepare_items h ops t n i (data # items) root rel writes = prepare_items h ops t n (i + 1) items root1 rel1 w1
    \<and> root1 = root\<lparr>wp_page := InitPage (tsv_opaque_new t) (xs @ [x])\<rparr> \<and> length x = header_size h + min (length data) free
    \<and> (length data \<le> free \<longrightarrow> rel1 = rel)"
proof -
  let ?k = "min (length data) free"
  have "\<exists>nx rel1 w1. item_suffix h ops t n i data ?k rel writes = Inr (nx, rel1, w1) \<and> (length data \<le> free \<longrightarrow> rel1 = rel)"
  proof (cases "free < length data")
    case True
    then have "drop free data \<noteq> []" "length rel + length (drop free data) + 2 < 2 ^ 32 - 1" using room by auto
    from suffix_ok [OF t inv this, of writes] obtain ip self' rel' w1 where
      "rbind (chain_writer_new rel t) (\<lambda>(suffix, rel). chain_write h ops suffix (drop free data) rel writes)
        = Inr (ip, self', rel', w1)" by blast
    then show ?thesis using True data(3) by (auto simp: item_suffix_def bind_suffix rassert_def)
  qed (simp add: item_suffix_def)
  then obtain nx rel1 w1 where suf: "item_suffix h ops t n i data ?k rel writes = Inr (nx, rel1, w1)"
    "length data \<le> free \<longrightarrow> rel1 = rel" by blast
  let ?x = "header_bytes h nx @ take ?k data"
  have hs: "header_size h < get_aligned_free_space ops length root" using data(2) by (simp add: free_def)
  have lx: "length ?x = header_size h + ?k" by (simp add: header_length)
  then have fits: "length ?x \<le> get_aligned_free_space ops length root" "0 < length ?x"
    using hs data(1,2) by (auto simp: free_def)
  have ok: "pg_add_ok ops (map length (items_of (wp_page root))) (length ?x)"
    using fits by (intro fits_aligned)
  have le: "length ?x \<le> get_free_space ops length root" using fits(1) aligned_free_le order_trans by blast
  have "length ?x < BLCKSZ" using fits(1) by (rule aligned_free_block)
  let ?root = "root\<lparr>wp_page := InitPage (tsv_opaque_new t) (xs @ [?x])\<rparr>"
  have add: "add_item ops length ?x root = Inr (of_nat (length xs + 1), ?root)"
    using ok le \<open>length ?x < BLCKSZ\<close> root(1)
    by (simp add: add_item_def add_item_unchecked_Inr push_item_def items_of_def rassert_def)
  have "length xs < MaxOffsetNumber" using add_count [OF ok] root(1) by (simp add: items_of_def)
  then have off: "unat (of_nat (length xs + 1) :: offset_number) = i + 1"
    using root(2) by (simp add: unat_of_nat MaxOffsetNumber_def del: of_nat_Suc of_nat_add)
  show ?thesis
    using suf add off data(1) hs lx
    by (intro exI [of _ ?x] exI [of _ ?root] exI [of _ rel1] exI [of _ w1])
      (simp add: Let_def rassert_def flip: free_def del: of_nat_Suc of_nat_add)
qed

text \<open>After the commit an item reads back through the chain reader.\<close>

lemma staged_read:
  assumes root: "wp_page root = InitPage (tsv_opaque_new t) ys" "unat (wp_block root) < n" "n \<le> length rel"
    and j: "j < length ys" "staged t n rel (ys ! j) data" and len: "length ys \<le> MaxOffsetNumber" "n < 2 ^ 32 - 1"
  shows "\<exists>fuel segs. chain_collect h t (commit rel root) fuel (ItemPointer (wp_block root) (of_nat (j + 1))) = Inr segs
           \<and> concat segs = data"
proof -
  obtain nx s segs where s: "ys ! j = header_bytes h nx @ s" "s \<noteq> []" "s @ concat segs = data"
    "chain_segs h t {n..} rel nx segs" using j(2) by (auto simp: staged_def)
  let ?rel = "commit rel root" and ?ip = "ItemPointer (wp_block root) (of_nat (j + 1))"
  have valid: "wp_block root \<noteq> InvalidBlockNumber"
  proof
    assume "wp_block root = InvalidBlockNumber"
    then have "unat (wp_block root) = 4294967295" by (simp add: InvalidBlockNumber_def)
    then show False using root(2) len(2) by simp
  qed
  have u: "unat (of_nat (j + 1) :: offset_number) = j + 1"
    using j(1) len(1) by (simp add: unat_of_nat MaxOffsetNumber_def del: of_nat_add of_nat_Suc)
  have "chain_segs h t UNIV ?rel nx segs"
    by (rule chain_segs_frame [OF _ _ _ s(4)]) (use root in \<open>auto simp: commit_def nth_list_update\<close>)
  moreover have "item_at ?rel ?ip = Some (header_bytes h nx @ s)"
    using root j(1) s(1) u by (simp add: item_at_def commit_def get_item_unchecked_def items_of_def)
  ultimately have "chain_segs h t UNIV ?rel ?ip (s # segs)"
    using valid s(2) root by (auto simp: commit_def)
  then have "chain_collect h t ?rel (length (s # segs) + 1) ?ip = Inr (s # segs)"
    by (rule chain_collect_segs) simp
  then show ?thesis using s(3) by (metis concat.simps(2))
qed

end

section \<open>How long a chain can be\<close>

text \<open>
  The iterator is deterministic, so that a chain that ends visits every item at most once: fuel for
  all items of the relation and one more step is enough for every chain that ends at all.
\<close>

definition chain_fuel :: "chain_rel \<Rightarrow> nat" where
  "chain_fuel rel = Suc (\<Sum>p\<leftarrow>rel. length (items_of p))"

definition item_ptrs :: "chain_rel \<Rightarrow> (nat \<times> nat) set" where
  "item_ptrs rel = (SIGMA b:{..<length rel}. {1..length (items_of (rel ! b))})"

lemma item_ptrs_card: "finite (item_ptrs rel)" "Suc (card (item_ptrs rel)) = chain_fuel rel"
proof -
  show "finite (item_ptrs rel)" by (simp add: item_ptrs_def)
  have "card (item_ptrs rel) = (\<Sum>b < length rel. length (items_of (rel ! b)))"
    by (simp add: item_ptrs_def)
  then show "Suc (card (item_ptrs rel)) = chain_fuel rel"
    by (simp add: chain_fuel_def sum_list_sum_nth atLeast0LessThan)
qed

lemma chain_next_item:
  assumes "chain_next h t rel ip = Inr (Some x)"
  shows "(unat (block_number ip), unat (offset ip)) \<in> item_ptrs rel"
  using assms
  by (auto simp: chain_next_def read_buffer_def get_item_unchecked_def item_ptrs_def split: if_splits)

lemma chain_collect_Suc_Inr:
  "chain_collect h t rel (Suc n) ip = Inr segs \<longleftrightarrow>
     chain_next h t rel ip = Inr None \<and> segs = [] \<or>
     (\<exists>d nxt rest. chain_next h t rel ip = Inr (Some (d, nxt)) \<and> chain_collect h t rel n nxt = Inr rest \<and> segs = d # rest)"
  by (auto split: option.splits)

lemma chain_collect_Inr_Suc:
  "chain_collect h t rel n ip = Inr segs \<Longrightarrow> length segs < n \<and> chain_collect h t rel (Suc (length segs)) ip = Inr segs"
proof (induction n arbitrary: ip segs)
  case (Suc n)
  consider "chain_next h t rel ip = Inr None" "segs = []"
    | d nxt rest where "chain_next h t rel ip = Inr (Some (d, nxt))" "chain_collect h t rel n nxt = Inr rest" "segs = d # rest"
    using Suc.prems chain_collect_Suc_Inr by blast
  then show ?case
  proof cases
    case (2 d nxt rest)
    have "chain_collect h t rel (Suc (Suc (length rest))) ip = Inr (d # rest)"
      using 2(1) conjunct2 [OF Suc.IH [OF 2(2)]] chain_collect_Suc_Inr by blast
    then show ?thesis using 2(3) Suc.IH [OF 2(2)] by simp
  next
    case 1
    then show ?thesis by simp
  qed
qed simp

lemma chain_collect_more:
  "chain_collect h t rel n ip = Inr segs \<Longrightarrow> n \<le> m \<Longrightarrow> chain_collect h t rel m ip = Inr segs"
proof (induction n arbitrary: ip segs m)
  case (Suc n)
  obtain k where m: "m = Suc k" "n \<le> k" using Suc.prems(2) by (cases m) auto
  show ?case
    using Suc.prems(1) Suc.IH [OF _ m(2)]
    by (auto simp: chain_collect_Suc_Inr m(1) simp del: chain_collect.simps)
qed simp

lemma chain_ptrs:
  "chain_collect h t rel n ip = Inr segs \<Longrightarrow>
     \<exists>ps. length ps = length segs \<and> distinct ps \<and>
       (\<forall>p \<in> set ps. (unat (block_number p), unat (offset p)) \<in> item_ptrs rel
          \<and> (\<exists>m segs'. chain_collect h t rel m p = Inr segs' \<and> length segs' \<le> length segs))"
proof (induction n arbitrary: ip segs)
  case (Suc n)
  obtain x where x: "chain_next h t rel ip = Inr x" using Suc.prems chain_collect_Suc_Inr by blast
  show ?case
  proof (cases x)
    case None
    then show ?thesis using Suc.prems x by (intro exI [of _ "[]"]) auto
  next
    case (Some dn)
    obtain d nxt where dn: "dn = (d, nxt)" by (cases dn)
    obtain rest where rest: "chain_collect h t rel n nxt = Inr rest" "segs = d # rest"
      using Suc.prems x Some dn unfolding chain_collect_Suc_Inr by auto
    from Suc.IH [OF rest(1)] obtain ps where ps: "length ps = length rest" "distinct ps"
      "\<forall>p \<in> set ps. (unat (block_number p), unat (offset p)) \<in> item_ptrs rel
          \<and> (\<exists>m segs'. chain_collect h t rel m p = Inr segs' \<and> length segs' \<le> length rest)" by blast
    have "ip \<notin> set ps"
    proof
      assume "ip \<in> set ps"
      then obtain m segs' where m: "chain_collect h t rel m ip = Inr segs'" "length segs' \<le> length rest" using ps by blast
      have "chain_collect h t rel (max m (Suc n)) ip = Inr segs'" "chain_collect h t rel (max m (Suc n)) ip = Inr segs"
        using chain_collect_more [OF m(1), of "max m (Suc n)"] chain_collect_more [OF Suc.prems, of "max m (Suc n)"] by simp_all
      then have "segs' = segs" by simp
      then show False using m(2) rest(2) by simp
    qed
    moreover have "(unat (block_number ip), unat (offset ip)) \<in> item_ptrs rel"
      using chain_next_item x Some by blast
    moreover have "\<exists>m segs'. chain_collect h t rel m ip = Inr segs' \<and> length segs' \<le> length segs"
      using Suc.prems by blast
    moreover have "length rest \<le> length segs" using rest(2) by simp
    ultimately have "\<forall>p \<in> set (ip # ps). (unat (block_number p), unat (offset p)) \<in> item_ptrs rel
          \<and> (\<exists>m segs'. chain_collect h t rel m p = Inr segs' \<and> length segs' \<le> length segs)"
      using ps(3) order_trans by (metis set_ConsD)
    then show ?thesis
      using ps(1,2) rest(2) \<open>ip \<notin> set ps\<close> by (intro exI [of _ "ip # ps"]) simp
  qed
qed simp

lemma chain_fuel_enough:
  assumes "chain_collect h t rel n ip = Inr segs"
  shows "chain_collect h t rel (chain_fuel rel) ip = Inr segs"
proof -
  let ?key = "\<lambda>p. (unat (block_number p), unat (offset p))"
  from chain_ptrs [OF assms] obtain ps where ps: "length ps = length segs" "distinct ps"
    "?key ` set ps \<subseteq> item_ptrs rel" by blast
  have "inj_on ?key (set ps)" by (intro inj_onI item_pointer.expand) (simp add: word_unat_eq_iff)
  then have "card (set ps) = card (?key ` set ps)" by (simp add: card_image)
  also have "\<dots> \<le> card (item_ptrs rel)" by (rule card_mono [OF item_ptrs_card(1) ps(3)])
  finally have "Suc (length segs) \<le> chain_fuel rel"
    using ps distinct_card [OF ps(2)] item_ptrs_card(2) [of rel] by simp
  with chain_collect_Inr_Suc [OF assms] show ?thesis using chain_collect_more by blast
qed

section \<open>Properties\<close>

text \<open>
  C23. Rewriting a chained root page (\<open>prepare_root\<close>) is atomic: preparing the new root writes
  suffix pages past the end of the relation only and leaves every existing page, the old root
  included, as it was, so that dropping the prepared root (an abort) keeps the old contents
  readable; and once it is committed, every item reads back in full through the chain reader.
\<close>

theorem prepare_root_atomic:
  assumes "prepare_root header_le pg_page_8k rel t writes root_block False items = Inr (root, rel', writes')"
    and "rel_inv rel" "room_for rel items" "j < length items"
  shows "length rel \<le> length rel' \<and> (\<forall>b. b < length rel \<longrightarrow> rel' ! b = rel ! b)
     \<and> (\<exists>fuel segs. chain_collect header_le t (commit rel' root) fuel (ItemPointer root_block (of_nat (j + 1))) = Inr segs
          \<and> concat segs = items ! j)"
proof -
  from assms(1) obtain page where t: "is_chained t" and page: "writable_modify rel root_block = Inr page"
    and blk: "wp_block (reinit t page) = root_block"
    and items: "prepare_items header_le pg_page_8k t (length items) 0 items (reinit t page) rel writes = Inr (root, rel', writes')"
    by (auto simp: prepare_root_def)
  have root0: "wp_page (reinit t page) = InitPage (tsv_opaque_new t) []" "unat root_block < length rel"
    using page by (auto simp: reinit_def writable_modify_Inr)
  from chain8k.prepare_items_facts [OF items t root0(1) assms(2,3)] obtain ys where
    f: "wp_block root = root_block" "wp_page root = InitPage (tsv_opaque_new t) ys"
      "list_all2 (chain8k.staged t (length rel) rel') ys items"
      "length rel \<le> length rel'" "\<forall>b < length rel. rel' ! b = rel ! b" using blk by auto
  have len: "length ys = length items" using f(3) by (rule list_all2_lengthD)
  have "items \<noteq> []" using assms(4) by auto
  from chain8k.prepare_items_count [OF items root0(1) this] have "length ys \<le> MaxOffsetNumber" using len by simp
  moreover have "length rel < 2 ^ 32 - 1" using assms(3) by (simp add: room_for_def)
  ultimately show ?thesis
    using chain8k.staged_read [of root t ys "length rel" rel' j "items ! j"] f root0(2) assms(4) len
    by (auto simp: list_all2_conv_all_nth)
qed

theorem prepare_root_atomic_witness:
  "\<exists>root rel' writes' fuel segs.
     prepare_root header_le pg_page_8k [InitPage (tsv_opaque_new Meta) [[1]]] Meta 0 0 False [[5, 6]] = Inr (root, rel', writes')
     \<and> chain_collect header_le Meta (commit rel' root) fuel (ItemPointer 0 1) = Inr segs \<and> concat segs = [5, 6]"
proof -
  let ?rel = "[InitPage (tsv_opaque_new Meta) [[1 :: byte]]]"
  obtain root rel' w where p: "prepare_root header_le pg_page_8k ?rel Meta 0 0 False [[5, 6]] = Inr (root, rel', w)"
  proof -
    have "is_ok (prepare_root header_le pg_page_8k ?rel Meta 0 0 False [[5, 6]])"
      by (simp add: prepare_root_def is_chained_def writable_modify_def read_from_page_def reinit_def
          get_aligned_free_space_def get_free_space_def items_of_def pg_page_8k_def BLCKSZ_def item_suffix_def
          add_item_def add_item_unchecked_def read_buffer_def push_item_def header_le_def maxalign_def Let_def
          tsv_opaque_verify_def tsv_opaque_new_def TSV_PAGE_ID_def page_type_from_u8_def)
    then show thesis using that by (cases "prepare_root header_le pg_page_8k ?rel Meta 0 0 False [[5, 6]]") auto
  qed
  have "rel_inv ?rel" "room_for ?rel [[5, 6]]"
    by (auto simp: rel_inv_def page_inv_def room_for_def MaxOffsetNumber_def)
  from prepare_root_atomic [OF p this, of 0] show ?thesis using p by auto
qed

end
