(* ===== verification/Start_Nodes.thy ===== *)
theory Start_Nodes
  imports Label_Sets
begin

text \<open>
  \<open>graph/start_nodes.rs\<close>: the entry points of the graph. The \<open>BTreeMap\<close> from labels to nodes is an
  association list in key order, which is the order its iterators visit.
\<close>

section \<open>Ordered maps\<close>

type_synonym ('k, 'v) btree = "('k \<times> 'v) list"

fun bt_insert :: "'k::linorder \<Rightarrow> 'v \<Rightarrow> ('k, 'v) btree \<Rightarrow> ('k, 'v) btree" where
  "bt_insert k v [] = [(k, v)]"
| "bt_insert k v ((k', v') # t) =
     (if k < k' then (k, v) # (k', v') # t
      else if k = k' then (k, v) # t
      else (k', v') # bt_insert k v t)"

definition bt_get :: "'k \<Rightarrow> ('k, 'v) btree \<Rightarrow> 'v option" where
  "bt_get k t = map_of t k"

definition bt_inv :: "('k::linorder, 'v) btree \<Rightarrow> bool" where
  "bt_inv t = (sorted (map fst t) \<and> distinct (map fst t))"

lemma bt_insert_keys: "fst ` set (bt_insert k v t) = insert k (fst ` set t)"
  by (induction k v t rule: bt_insert.induct) auto

lemma bt_insert_inv: "bt_inv t \<Longrightarrow> bt_inv (bt_insert k v t)"
proof (induction k v t rule: bt_insert.induct)
  case (2 k v k' v' t)
  consider "k < k'" | "k = k'" | "k' < k" by (rule linorder_cases)
  then show ?case
  proof cases
    case 3
    with 2 have "bt_inv (bt_insert k v t)" by (simp add: bt_inv_def)
    with 2 3 show ?thesis
      by (auto simp: bt_inv_def bt_insert_keys simp flip: image_image)
  qed (use 2 in \<open>auto simp: bt_inv_def\<close>)
qed (simp add: bt_inv_def)

lemma bt_get_insert: "bt_get j (bt_insert k v t) = (if j = k then Some v else bt_get j t)"
  by (induction k v t rule: bt_insert.induct) (auto simp: bt_get_def)

lemma bt_get_in_set: "bt_get k t = Some v \<Longrightarrow> v \<in> snd ` set t"
  by (force simp: bt_get_def dest: map_of_SomeD)

text \<open>
  What the users of the map rely on: a lookup after an insertion, and the invariant every
  operation keeps.
\<close>

locale ordered_map =
  fixes ins :: "'k::linorder \<Rightarrow> 'v \<Rightarrow> 'm \<Rightarrow> 'm"
    and get :: "'k \<Rightarrow> 'm \<Rightarrow> 'v option"
    and inv :: "'m \<Rightarrow> bool"
  assumes get_ins: "inv m \<Longrightarrow> get j (ins k v m) = (if j = k then Some v else get j m)"
    and ins_inv: "inv m \<Longrightarrow> inv (ins k v m)"
begin

text \<open>The loop of \<open>update_start_nodes\<close>: add an entry for every key that has none.\<close>

lemma fold_if_absent:
  "inv m \<Longrightarrow>
     get j (fold (\<lambda>k m. if get k m = None then ins k v m else m) ks m)
       = (if get j m = None \<and> j \<in> set ks then Some v else get j m)
   \<and> inv (fold (\<lambda>k m. if get k m = None then ins k v m else m) ks m)"
proof (induction ks arbitrary: m)
  case (Cons k ks)
  then show ?case
    by (cases "get k m = None") (auto simp: get_ins ins_inv)
qed simp

end

interpretation bt: ordered_map bt_insert bt_get bt_inv
  by unfold_locales (auto simp: bt_get_insert bt_insert_inv)

section \<open>Start nodes\<close>

record start_nodes =
  default_node :: item_pointer
  labeled_nodes :: "(label, item_pointer) btree"

definition start_nodes_new :: "item_pointer \<Rightarrow> start_nodes" where
  "start_nodes_new n = \<lparr>default_node = n, labeled_nodes = []\<rparr>"

definition start_nodes_upsert ::
  "start_nodes \<Rightarrow> label \<Rightarrow> item_pointer \<Rightarrow> item_pointer option \<times> start_nodes" where
  "start_nodes_upsert s l n =
     (bt_get l (labeled_nodes s), s\<lparr>labeled_nodes := bt_insert l n (labeled_nodes s)\<rparr>)"

definition get_for_node :: "start_nodes \<Rightarrow> label_set option \<Rightarrow> item_pointer list" where
  "get_for_node s ls =
     (case ls of
        Some ls \<Rightarrow> List.map_filter (\<lambda>l. bt_get l (labeled_nodes s)) (labels ls)
      | None \<Rightarrow> [default_node s])"

definition start_nodes_contains :: "start_nodes \<Rightarrow> label \<Rightarrow> bool" where
  "start_nodes_contains s l = (bt_get l (labeled_nodes s) \<noteq> None)"

definition contains_all :: "start_nodes \<Rightarrow> label_set option \<Rightarrow> bool" where
  "contains_all s ls =
     (case ls of
        Some ls \<Rightarrow> list_all (\<lambda>l. bt_get l (labeled_nodes s) \<noteq> None) (labels ls)
      | None \<Rightarrow> True)"

definition node_for_labels :: "start_nodes \<Rightarrow> label_set \<Rightarrow> item_pointer list" where
  "node_for_labels s ls =
     (if label_set_is_empty ls then [default_node s]
      else List.map_filter (\<lambda>l. bt_get l (labeled_nodes s)) (labels ls))"

definition get_all_labeled_nodes :: "start_nodes \<Rightarrow> (label option \<times> item_pointer) list" where
  "get_all_labeled_nodes s =
     (None, default_node s) # map (\<lambda>(l, n). (Some l, n)) (labeled_nodes s)"

definition get_all_nodes :: "start_nodes \<Rightarrow> item_pointer list" where
  "get_all_nodes s = default_node s # map snd (labeled_nodes s)"

text \<open>
  The part of \<open>Graph::update_start_nodes\<close> that changes the entry points: create them for the first
  node, then give every label of the new node that has none the new node. Entry points only grow.
\<close>

definition merge_start_nodes ::
  "start_nodes option \<Rightarrow> item_pointer \<Rightarrow> label_set option \<Rightarrow> start_nodes" where
  "merge_start_nodes so ip ls =
     (let s = (case so of Some s \<Rightarrow> s | None \<Rightarrow> start_nodes_new ip)
      in (case ls of
            None \<Rightarrow> s
          | Some ls \<Rightarrow>
              fold (\<lambda>l s. if \<not> start_nodes_contains s l then snd (start_nodes_upsert s l ip) else s)
                (labels ls) s))"

definition start_nodes_inv :: "start_nodes \<Rightarrow> bool" where
  "start_nodes_inv s = bt_inv (labeled_nodes s)"

lemma start_nodes_new_inv [simp]: "start_nodes_inv (start_nodes_new n)"
  by (simp add: start_nodes_inv_def start_nodes_new_def bt_inv_def)

lemma start_nodes_upsert_inv: "start_nodes_inv s \<Longrightarrow> start_nodes_inv (snd (start_nodes_upsert s l n))"
  by (simp add: start_nodes_inv_def start_nodes_upsert_def bt_insert_inv)

lemma fold_upsert_absent:
  "fold (\<lambda>l s. if \<not> start_nodes_contains s l then snd (start_nodes_upsert s l ip) else s) ls s
     = s\<lparr>labeled_nodes :=
          fold (\<lambda>k m. if bt_get k m = None then bt_insert k ip m else m) ls (labeled_nodes s)\<rparr>"
  by (induction ls arbitrary: s) (simp_all add: start_nodes_contains_def start_nodes_upsert_def)

lemma set_map_filter: "set (List.map_filter f xs) = {y. \<exists>x \<in> set xs. f x = Some y}"
  by (induction xs) (auto simp: List.map_filter_def split: option.splits)

lemma merge_start_nodes_default:
  "default_node (merge_start_nodes so ip ls) = (case so of Some s \<Rightarrow> default_node s | None \<Rightarrow> ip)"
  by (simp add: merge_start_nodes_def fold_upsert_absent Let_def start_nodes_new_def
      split: option.splits)

lemma merge_start_nodes_get:
  assumes "\<And>s. so = Some s \<Longrightarrow> start_nodes_inv s"
  defines "old \<equiv> (\<lambda>l. case so of Some s \<Rightarrow> bt_get l (labeled_nodes s) | None \<Rightarrow> None)"
  shows "bt_get l (labeled_nodes (merge_start_nodes so ip ls)) =
           (case old l of
              Some n \<Rightarrow> Some n
            | None \<Rightarrow> if \<exists>s. ls = Some s \<and> l \<in> set (labels s) then Some ip else None)"
    and "start_nodes_inv (merge_start_nodes so ip ls)"
proof -
  define s0 where "s0 = (case so of Some s \<Rightarrow> s | None \<Rightarrow> start_nodes_new ip)"
  have inv: "bt_inv (labeled_nodes s0)"
    using assms(1) start_nodes_new_inv [of ip]
    by (cases so) (simp_all add: s0_def start_nodes_inv_def)
  have old: "bt_get j (labeled_nodes s0) = old j" for j
    by (cases so) (simp_all add: s0_def old_def start_nodes_new_def bt_get_def)
  have m: "merge_start_nodes so ip ls =
     (case ls of None \<Rightarrow> s0 | Some ls \<Rightarrow>
        s0\<lparr>labeled_nodes := fold (\<lambda>k m. if bt_get k m = None then bt_insert k ip m else m)
              (labels ls) (labeled_nodes s0)\<rparr>)"
    by (simp add: merge_start_nodes_def fold_upsert_absent Let_def s0_def split: option.splits)
  show "bt_get l (labeled_nodes (merge_start_nodes so ip ls)) =
           (case old l of
              Some n \<Rightarrow> Some n
            | None \<Rightarrow> if \<exists>s. ls = Some s \<and> l \<in> set (labels s) then Some ip else None)"
    unfolding m using bt.fold_if_absent [OF inv, of l ip] by (cases ls) (auto simp: old split: option.splits)
  show "start_nodes_inv (merge_start_nodes so ip ls)"
    unfolding m using bt.fold_if_absent [OF inv] inv by (cases ls) (auto simp: start_nodes_inv_def)
qed

lemma get_for_node_Some:
  "set (get_for_node s (Some ls)) = {n. \<exists>l \<in> set (labels ls). bt_get l (labeled_nodes s) = Some n}"
  by (simp add: get_for_node_def set_map_filter)

section \<open>Properties\<close>

text \<open>
  C38. The entry points of the graph only grow: after the entry points have been updated for a new
  node, the default entry point and every labelled one that existed are as before, every label of
  the new node has an entry point, which is the new node unless the label had one, and no other
  label gained one; the map stays ordered.
\<close>

theorem start_nodes_grow:
  assumes "start_nodes_inv s"
  shows "default_node (merge_start_nodes (Some s) ip ls) = default_node s
     \<and> bt_get l (labeled_nodes (merge_start_nodes (Some s) ip ls)) =
         (case bt_get l (labeled_nodes s) of
            Some n \<Rightarrow> Some n
          | None \<Rightarrow> if ls \<noteq> None \<and> l \<in> set (labels (the ls)) then Some ip else None)
     \<and> start_nodes_inv (merge_start_nodes (Some s) ip ls)
     \<and> contains_all (merge_start_nodes (Some s) ip ls) ls"
proof -
  have m: "bt_get l (labeled_nodes (merge_start_nodes (Some s) ip ls)) =
           (case bt_get l (labeled_nodes s) of
              Some n \<Rightarrow> Some n
            | None \<Rightarrow> if \<exists>s. ls = Some s \<and> l \<in> set (labels s) then Some ip else None)"
    "start_nodes_inv (merge_start_nodes (Some s) ip ls)" for l
    using merge_start_nodes_get [of "Some s"] assms by simp_all
  have g: "bt_get l (labeled_nodes (merge_start_nodes (Some s) ip ls)) =
      (case bt_get l (labeled_nodes s) of
            Some n \<Rightarrow> Some n
          | None \<Rightarrow> if ls \<noteq> None \<and> l \<in> set (labels (the ls)) then Some ip else None)" for l
    using m(1) [of l] by (auto split: option.splits)
  have "contains_all (merge_start_nodes (Some s) ip ls) ls"
    using g by (cases ls) (auto simp: contains_all_def list_all_iff split: option.splits)
  then show ?thesis
    using m(2) assms g by (simp add: merge_start_nodes_default)
qed

theorem start_nodes_grow_witness:
  "bt_get 5 (labeled_nodes (merge_start_nodes (Some \<lparr>default_node = ItemPointer 1 1, labeled_nodes = [(3, ItemPointer 1 1)]\<rparr>)
      (ItemPointer 2 4) (Some (LabelSet [3, 5])))) = Some (ItemPointer 2 4)"
  using start_nodes_grow [of "\<lparr>default_node = ItemPointer 1 1, labeled_nodes = [(3, ItemPointer 1 1)]\<rparr>"
      "ItemPointer 2 4" "Some (LabelSet [3, 5])" 5]
  by (simp add: start_nodes_inv_def bt_inv_def bt_get_def)

end
