(* ===== verification/Meta_Page.thy ===== *)
theory Meta_Page
  imports Chain_Root Start_Nodes Vector_Distance
begin

text \<open>
  \<open>meta_page.rs\<close>, \<open>options.rs\<close>, the dimension checks of \<open>vector_type.rs\<close> and the storage types of
  \<open>storage.rs\<close>: the options of an index, its meta page in the three versions that exist on disk, and
  the chained root page on which the current version is published.

  The pages of the relation that hold chained items are a relation of their own (its items are
  bytes). \<open>rkyv\<close> is the parameter \<open>meta_codec\<close>: what it serialises it reads back, and a header takes
  eight bytes.
\<close>

section \<open>Storage types\<close>

datatype storage_type = Plain | SbqCompression

fun storage_type_as_u8 :: "storage_type \<Rightarrow> 8 word" where
  "storage_type_as_u8 Plain = 0"
| "storage_type_as_u8 SbqCompression = 2"

definition storage_type_from_u8 :: "8 word \<Rightarrow> storage_type res" where
  "storage_type_from_u8 v =
     (if v = 0 then Inr Plain else if v = 2 then Inr SbqCompression
      else Inl (Panic ''Invalid storage type''))"

definition DEFAULT_STORAGE_TYPE_STR :: string where
  "DEFAULT_STORAGE_TYPE_STR = ''memory_optimized''"

text \<open>\<open>to_lowercase\<close>, on the ASCII letters: no other letter has one of those of the names as its lower case.\<close>

definition to_lowercase :: "string \<Rightarrow> string" where
  "to_lowercase = map (\<lambda>c. let n = of_char c :: nat in if 65 \<le> n \<and> n \<le> 90 then char_of (n + 32) else c)"

definition storage_type_from_str :: "string \<Rightarrow> storage_type res" where
  "storage_type_from_str value =
     (let v = to_lowercase value in
      if v = ''plain'' then Inr Plain
      else if v = ''bq_compression'' \<or> v = ''memory_optimized'' then Inr SbqCompression
      else Inl (Panic ''Invalid storage type. Must be either plain or memory_optimized''))"

section \<open>Options\<close>

text \<open>\<open>o_storage_layout\<close> is \<open>None\<close> when the offset of the string is 0.\<close>

record tsv_index_options =
  o_storage_layout :: "string option"
  o_num_neighbors :: int
  o_search_list_size :: "32 word"
  o_num_dimensions :: "32 word"
  o_max_alpha :: f64
  o_num_bits_per_dimension :: "32 word"

definition NUM_NEIGHBORS_DEFAULT_SENTINEL :: int where
  "NUM_NEIGHBORS_DEFAULT_SENTINEL = -1"

definition options_default :: tsv_index_options where
  "options_default =
     \<lparr>o_storage_layout = None, o_num_neighbors = NUM_NEIGHBORS_DEFAULT_SENTINEL, o_search_list_size = 100,
      o_num_dimensions = 0, o_max_alpha = 0x3FF3333333333333, o_num_bits_per_dimension = 0\<rparr>"

text \<open>\<open>rd_options\<close> is what PostgreSQL parsed, or null when the index was created without options.\<close>

definition options_from_relation :: "tsv_index_options option \<Rightarrow> tsv_index_options" where
  "options_from_relation rd_options = (case rd_options of None \<Rightarrow> options_default | Some o' \<Rightarrow> o')"

definition get_num_neighbors :: "tsv_index_options \<Rightarrow> int res" where
  "get_num_neighbors opt =
     (if o_num_neighbors opt = NUM_NEIGHBORS_DEFAULT_SENTINEL then Inr NUM_NEIGHBORS_DEFAULT_SENTINEL
      else if o_num_neighbors opt < 10 then Inl (Panic ''num_neighbors must be greater than 10, or -1 for default'')
      else Inr (o_num_neighbors opt))"

definition get_storage_type :: "tsv_index_options \<Rightarrow> storage_type res" where
  "get_storage_type opt =
     storage_type_from_str (case o_storage_layout opt of None \<Rightarrow> DEFAULT_STORAGE_TYPE_STR | Some s \<Rightarrow> s)"

definition validate_storage_layout :: "string option \<Rightarrow> unit res" where
  "validate_storage_layout value =
     (case value of None \<Rightarrow> Inr () | Some s \<Rightarrow> rbind (storage_type_from_str s) (\<lambda>_. Inr ()))"

text \<open>What PostgreSQL accepts, by the ranges and the validator registered in \<open>init\<close>.\<close>

definition reloptions_ok :: "tsv_index_options \<Rightarrow> bool" where
  "reloptions_ok opt \<longleftrightarrow>
     is_ok (validate_storage_layout (o_storage_layout opt)) \<and>
     -1 \<le> o_num_neighbors opt \<and> o_num_neighbors opt \<le> 1000 \<and>
     10 \<le> unat (o_search_list_size opt) \<and> unat (o_search_list_size opt) \<le> 1000 \<and>
     f64_le f64_one (o_max_alpha opt) \<and> f64_le (o_max_alpha opt) 0x4014000000000000 \<and>
     unat (o_num_dimensions opt) \<le> 5000 \<and>
     unat (o_num_bits_per_dimension opt) \<le> 32"

section \<open>Dimensions\<close>

definition MAX_DIMENSION :: nat where
  "MAX_DIMENSION = 16000"

definition dimension_from_typmod :: "int \<Rightarrow> nat res" where
  "dimension_from_typmod atttypmod =
     (if atttypmod < 1 \<or> nat atttypmod > MAX_DIMENSION
      then Inl (PgError ''diskann: indexed column has no valid vector dimension'')
      else Inr (nat atttypmod))"

definition ensure_valid_dimensions :: "nat \<Rightarrow> nat \<Rightarrow> unit res" where
  "ensure_valid_dimensions num_dimensions num_dimensions_to_index =
     (if num_dimensions < 1 \<or> num_dimensions > MAX_DIMENSION then Inl (PgError ''diskann: invalid full dimension'')
      else if num_dimensions_to_index < 1 \<or> num_dimensions_to_index > num_dimensions
      then Inl (PgError ''diskann: num_dimensions must be between 1 and the full dimension'')
      else Inr ())"

definition ensure_datum_dimension :: "nat \<Rightarrow> nat \<Rightarrow> unit res" where
  "ensure_datum_dimension datum_dimension index_dimension =
     (if datum_dimension \<noteq> index_dimension
      then Inl (PgError ''diskann: vector datum dimension does not match index dimension'') else Inr ())"

text \<open>The header of a vector datum takes eight bytes; sizes are \<open>usize\<close> and checked.\<close>

definition validate_vector_layout :: "nat \<Rightarrow> int \<Rightarrow> int \<Rightarrow> nat res" where
  "validate_vector_layout total_bytes dim reserved =
     (if total_bytes < 8 then Inl (PgError ''diskann: vector datum shorter than its header'')
      else if dim < 1 \<or> nat dim > MAX_DIMENSION then Inl (PgError ''diskann: vector dimension out of range'')
      else if reserved \<noteq> 0 then Inl (PgError ''diskann: vector datum has non-zero reserved field'')
      else if nat dim * 4 \<ge> 2 ^ 64 \<or> 8 + nat dim * 4 \<ge> 2 ^ 64 then Inl (PgError ''diskann: vector datum size overflow'')
      else if total_bytes \<noteq> 8 + nat dim * 4 then Inl (PgError ''diskann: vector datum size does not fit its dimension'')
      else Inr (nat dim))"

section \<open>Meta pages\<close>

definition TSV_MAGIC_NUMBER :: "32 word" where "TSV_MAGIC_NUMBER = 768756476"
definition TSV_VERSION :: "32 word" where "TSV_VERSION = 3"
definition META_BLOCK_NUMBER :: block_number where "META_BLOCK_NUMBER = 0"
definition META_HEADER_OFFSET :: offset_number where "META_HEADER_OFFSET = 1"
definition META_OFFSET :: offset_number where "META_OFFSET = 2"

record meta_page_v1 =
  v1_magic_number :: "32 word"
  v1_version :: "32 word"
  v1_num_dimensions :: "32 word"
  v1_num_neighbors :: "32 word"
  v1_search_list_size :: "32 word"
  v1_max_alpha :: f64
  v1_init_ids_block_number :: block_number
  v1_init_ids_offset :: offset_number
  v1_use_pq :: bool

record meta_page_v2 =
  v2_magic_number :: "32 word"
  v2_version :: "32 word"
  v2_extension_version_when_built :: string
  v2_distance_type :: "16 word"
  v2_num_dimensions :: "32 word"
  v2_num_dimensions_to_index :: "32 word"
  v2_bq_num_bits_per_dimension :: "8 word"
  v2_storage_type :: "8 word"
  v2_num_neighbors :: "32 word"
  v2_search_list_size :: "32 word"
  v2_max_alpha :: f64
  v2_init_ids :: item_pointer
  v2_quantizer_metadata :: item_pointer

record meta_page_header =
  h_magic_number :: "32 word"
  h_version :: "32 word"

record meta_page =
  m_magic_number :: "32 word"
  m_version :: "32 word"
  m_extension_version_when_built :: string
  m_distance_type :: "16 word"
  m_num_dimensions :: "32 word"
  m_num_dimensions_to_index :: "32 word"
  m_bq_num_bits_per_dimension :: "8 word"
  m_storage_type :: "8 word"
  m_num_neighbors :: "32 word"
  m_search_list_size :: "32 word"
  m_max_alpha :: f64
  m_start_nodes :: "start_nodes option"
  m_quantizer_metadata :: item_pointer
  m_has_labels :: bool

definition meta_page_from_v1 :: "meta_page_v1 \<Rightarrow> meta_page res" where
  "meta_page_from_v1 meta =
     (if v1_use_pq meta then Inl (PgError ''PQ is no longer supported. Please rebuild the TSV index.'')
      else
        Inr \<lparr>m_magic_number = v1_magic_number meta, m_version = TSV_VERSION,
          m_extension_version_when_built = ''0.0.2'', m_distance_type = of_nat (distance_type_as_u16 L2),
          m_num_dimensions = v1_num_dimensions meta, m_num_dimensions_to_index = v1_num_dimensions meta,
          m_bq_num_bits_per_dimension = 1, m_storage_type = storage_type_as_u8 Plain,
          m_num_neighbors = v1_num_neighbors meta, m_search_list_size = v1_search_list_size meta,
          m_max_alpha = v1_max_alpha meta,
          m_start_nodes = Some (start_nodes_new (ItemPointer (v1_init_ids_block_number meta) (v1_init_ids_offset meta))),
          m_quantizer_metadata = ItemPointer InvalidBlockNumber InvalidOffsetNumber, m_has_labels = False\<rparr>)"

definition meta_page_from_v2 :: "meta_page_v2 \<Rightarrow> meta_page" where
  "meta_page_from_v2 meta =
     \<lparr>m_magic_number = v2_magic_number meta, m_version = TSV_VERSION,
      m_extension_version_when_built = v2_extension_version_when_built meta,
      m_distance_type = v2_distance_type meta, m_num_dimensions = v2_num_dimensions meta,
      m_num_dimensions_to_index = v2_num_dimensions_to_index meta,
      m_bq_num_bits_per_dimension = v2_bq_num_bits_per_dimension meta, m_storage_type = v2_storage_type meta,
      m_num_neighbors = v2_num_neighbors meta, m_search_list_size = v2_search_list_size meta,
      m_max_alpha = v2_max_alpha meta, m_start_nodes = Some (start_nodes_new (v2_init_ids meta)),
      m_quantizer_metadata = v2_quantizer_metadata meta, m_has_labels = False\<rparr>"

section \<open>Accessors\<close>

definition meta_distance_type :: "meta_page \<Rightarrow> distance_type res" where
  "meta_distance_type m = distance_type_from_u16 (unat (m_distance_type m))"

definition meta_distance_function :: "simd \<Rightarrow> meta_page \<Rightarrow> f32 list \<Rightarrow> f32 list \<Rightarrow> f32 res" where
  "meta_distance_function S m a b = rbind (meta_distance_type m) (\<lambda>t. get_distance_function S t a b)"

definition meta_storage_type :: "meta_page \<Rightarrow> storage_type res" where
  "meta_storage_type m = storage_type_from_u8 (m_storage_type m)"

text \<open>The slack factor 1.3 and its product with the number of neighbours, in \<open>f64\<close>.\<close>

definition GRAPH_SLACK_FACTOR :: f64 where
  "GRAPH_SLACK_FACTOR = 0x3FF4CCCCCCCCCCCD"

definition get_max_neighbors_during_build :: "meta_page \<Rightarrow> nat" where
  "get_max_neighbors_during_build m =
     f64_to_usize (f64_ceil (f64_mul (f64_of_nat (unat (m_num_neighbors m))) GRAPH_SLACK_FACTOR))"

definition get_quantizer_metadata_pointer :: "meta_page \<Rightarrow> item_pointer option res" where
  "get_quantizer_metadata_pointer m =
     (if \<not> is_valid (m_quantizer_metadata m) then Inr None
      else rbind (meta_storage_type m) (\<lambda>t.
        case t of Plain \<Rightarrow> Inr None | SbqCompression \<Rightarrow> Inr (Some (m_quantizer_metadata m))))"

definition set_quantizer_metadata_pointer :: "item_pointer \<Rightarrow> meta_page \<Rightarrow> meta_page" where
  "set_quantizer_metadata_pointer p m = m\<lparr>m_quantizer_metadata := p\<rparr>"

definition set_start_nodes :: "start_nodes \<Rightarrow> meta_page \<Rightarrow> meta_page" where
  "set_start_nodes s m = m\<lparr>m_start_nodes := Some s\<rparr>"

definition calculate_num_neighbors :: "tsv_index_options \<Rightarrow> 32 word res" where
  "calculate_num_neighbors opt =
     rbind (get_num_neighbors opt) (\<lambda>n.
     if n = NUM_NEIGHBORS_DEFAULT_SENTINEL then
       rbind (get_storage_type opt) (\<lambda>t. case t of Plain \<Rightarrow> Inr 50 | SbqCompression \<Rightarrow> Inr 50)
     else Inr (word_of_int n))"

section \<open>Reading and publishing\<close>

record meta_codec =
  ser_header :: "meta_page_header \<Rightarrow> bytes"
  ser_meta :: "meta_page \<Rightarrow> bytes"
  de_meta :: "bytes \<Rightarrow> meta_page option"
  arch_header :: "bytes \<Rightarrow> meta_page_header"
  arch_v2 :: "bytes \<Rightarrow> meta_page_v2"
  contents_v1 :: "bytes page \<Rightarrow> meta_page_v1"

definition meta_store ::
  "meta_codec \<Rightarrow> rkyv_header \<Rightarrow> pg_page_ops \<Rightarrow> meta_page \<Rightarrow> chain_rel \<Rightarrow> bool \<Rightarrow> chain_rel res" where
  "meta_store c h ops m rel first_time =
     (let header = \<lparr>h_magic_number = m_magic_number m, h_version = m_version m\<rparr> in
      rbind (rassert (h_magic_number header = TSV_MAGIC_NUMBER) ''header.magic_number == TSV_MAGIC_NUMBER'') (\<lambda>_.
      rbind (rassert (h_version header = TSV_VERSION) ''header.version == TSV_VERSION'') (\<lambda>_.
      rbind (prepare_root h ops rel Meta 0 META_BLOCK_NUMBER first_time [ser_header c header, ser_meta c m]) (\<lambda>(root, rel, _).
      Inr (commit rel root)))))"

definition meta_load :: "meta_codec \<Rightarrow> rkyv_header \<Rightarrow> chain_rel \<Rightarrow> meta_page res" where
  "meta_load c h rel =
     rbind (chain_collect h Meta rel (chain_fuel rel) (ItemPointer META_BLOCK_NUMBER META_OFFSET)) (\<lambda>segs.
     runwrap (de_meta c (concat segs)) ''unwrap'')"

definition page_get_meta_v1 :: "meta_codec \<Rightarrow> bytes page \<Rightarrow> meta_page_v1 res" where
  "page_get_meta_v1 c page =
     (let meta = contents_v1 c page in
      rbind (rassert (v1_magic_number meta = TSV_MAGIC_NUMBER) ''magic_number'') (\<lambda>_.
      rbind (rassert (v1_version meta = 1) ''version'') (\<lambda>_.
      Inr meta)))"

definition meta_v2_from_page :: "meta_codec \<Rightarrow> bytes page \<Rightarrow> meta_page_v2 res" where
  "meta_v2_from_page c page =
     rbind (get_item_unchecked page META_HEADER_OFFSET) (\<lambda>hb.
     let header = arch_header c hb in
     rbind (rassert (h_magic_number header = TSV_MAGIC_NUMBER) ''magic_number'') (\<lambda>_.
     rbind (rassert (h_version header = 2) ''version'') (\<lambda>_.
     rbind (get_item_unchecked page META_OFFSET) (\<lambda>mb.
     let meta = arch_v2 c mb in
     rbind (rassert (v2_magic_number meta = TSV_MAGIC_NUMBER) ''magic_number'') (\<lambda>_.
     rbind (rassert (v2_version meta = 2) ''version'') (\<lambda>_.
     Inr meta))))))"

definition meta_fetch :: "meta_codec \<Rightarrow> rkyv_header \<Rightarrow> chain_rel \<Rightarrow> meta_page res" where
  "meta_fetch c h rel =
     rbind (read_buffer rel META_BLOCK_NUMBER) (\<lambda>page.
     rbind (readable_type page) (\<lambda>page_type.
     rbind (case page_type of
              MetaV1 \<Rightarrow> rbind (page_get_meta_v1 c page) meta_page_from_v1
            | MetaV2 \<Rightarrow> rbind (meta_v2_from_page c page) (\<lambda>m. Inr (meta_page_from_v2 m))
            | Meta \<Rightarrow> meta_load c h rel
            | _ \<Rightarrow> Inl (PgError ''Meta page is not of type Meta'')) (\<lambda>meta.
     rbind (ensure_valid_dimensions (unat (m_num_dimensions meta)) (unat (m_num_dimensions_to_index meta))) (\<lambda>_.
     Inr meta))))"

text \<open>
  \<open>MetaPage::create\<close>: the version of the extension is that of the package, and the number of
  attributes that of the index.
\<close>

definition choose_num_bits :: "tsv_index_options \<Rightarrow> nat \<Rightarrow> 8 word res" where
  "choose_num_bits opt num_dimensions_to_index =
     (if o_num_bits_per_dimension opt = 0 then
        rbind (get_storage_type opt) (\<lambda>t.
        Inr (if t = SbqCompression \<and> num_dimensions_to_index < 900 then 2 else 1))
      else Inr (ucast (o_num_bits_per_dimension opt)))"

definition check_num_bits :: "tsv_index_options \<Rightarrow> nat \<Rightarrow> 8 word \<Rightarrow> unit res" where
  "check_num_bits opt num_dimensions_to_index bits =
     (if unat bits > 1 then
        if num_dimensions_to_index > 930 then
          Inl (PgError ''SBQ with more than 1 bit per dimension is not supported for more than 900 dimensions'')
        else
          rbind (get_storage_type opt) (\<lambda>t.
          if t \<noteq> SbqCompression then
            Inl (PgError ''SBQ with more than 1 bit per dimension is only supported with the memory_optimized storage layout'')
          else Inr ())
      else Inr ())"

definition get_num_index_attributes :: "nat \<Rightarrow> nat res" where
  "get_num_index_attributes natts = rbind (rassert (natts \<le> 2) ''natts <= 2'') (\<lambda>_. Inr natts)"

definition meta_create ::
  "meta_codec \<Rightarrow> rkyv_header \<Rightarrow> pg_page_ops \<Rightarrow> string \<Rightarrow> nat \<Rightarrow> chain_rel \<Rightarrow> 32 word \<Rightarrow> distance_type \<Rightarrow> tsv_index_options
     \<Rightarrow> (meta_page \<times> chain_rel) res" where
  "meta_create c h ops version natts rel num_dimensions dt opt =
     (let num_dimensions_to_index = (if o_num_dimensions opt = 0 then num_dimensions else o_num_dimensions opt) in
      rbind (ensure_valid_dimensions (unat num_dimensions) (unat num_dimensions_to_index)) (\<lambda>_.
      rbind (choose_num_bits opt (unat num_dimensions_to_index)) (\<lambda>bits.
      rbind (check_num_bits opt (unat num_dimensions_to_index) bits) (\<lambda>_.
      rbind (get_num_index_attributes natts) (\<lambda>natts.
      rbind (get_storage_type opt) (\<lambda>t.
      rbind (calculate_num_neighbors opt) (\<lambda>num_neighbors.
      let meta = \<lparr>m_magic_number = TSV_MAGIC_NUMBER, m_version = TSV_VERSION,
            m_extension_version_when_built = version, m_distance_type = of_nat (distance_type_as_u16 dt),
            m_num_dimensions = num_dimensions, m_num_dimensions_to_index = num_dimensions_to_index,
            m_bq_num_bits_per_dimension = bits, m_storage_type = storage_type_as_u8 t,
            m_num_neighbors = num_neighbors, m_search_list_size = o_search_list_size opt,
            m_max_alpha = o_max_alpha opt, m_start_nodes = None,
            m_quantizer_metadata = ItemPointer InvalidBlockNumber InvalidOffsetNumber, m_has_labels = (natts = 2)\<rparr>
      in rbind (meta_store c h ops meta rel True) (\<lambda>rel. Inr (meta, rel)))))))))"

section \<open>What is published is what is read\<close>

locale meta_codec_laws =
  fixes c :: meta_codec
  assumes header_bytes_8: "length (ser_header c hdr) = 8"
    and ser_meta_ne: "ser_meta c m \<noteq> []"
    and de_ser: "de_meta c (ser_meta c m) = Some m"
begin

lemma prepare_meta_root:
  assumes page: "wp_page root = InitPage (tsv_opaque_new Meta) []"
    and inv: "rel_inv rel" and room: "length rel + length (ser_meta c m) + 20 < 2 ^ 32 - 1"
  shows "\<exists>root' rel' w'. prepare_items header_le pg_page_8k Meta 2 0 [ser_header c hdr, ser_meta c m] root rel w = Inr (root', rel', w')"
proof -
  have hs: "header_size header_le = 8" by (simp add: header_le_def)
  have free: "get_aligned_free_space pg_page_8k length root = 8152"
    by (simp add: get_aligned_free_space_def get_free_space_def page items_of_def pg_page_8k_def BLCKSZ_def header_le_def Let_def)
  have "ser_header c hdr \<noteq> []" using header_bytes_8 [of hdr] by auto
  moreover have "length rel + length (ser_header c hdr) + 2 < 2 ^ 32 - 1" using room header_bytes_8 [of hdr] by simp
  ultimately obtain x w1 where 1: "prepare_items header_le pg_page_8k Meta 2 0 [ser_header c hdr, ser_meta c m] root rel w
      = prepare_items header_le pg_page_8k Meta 2 1 [ser_meta c m] (root\<lparr>wp_page := InitPage (tsv_opaque_new Meta) [x]\<rparr>) rel w1"
    and x: "length x = 16"
    using chain8k.prepare_item_ok [where data = "ser_header c hdr" and root = root and i = 0 and n = 2 and t = Meta and xs = "[]"
        and rel = rel and writes = w and items = "[ser_meta c m]"] free page inv
    by (auto simp: is_chained_def header_bytes_8 hs simp del: prepare_items.simps)
  let ?root = "root\<lparr>wp_page := InitPage (tsv_opaque_new Meta) [x]\<rparr>"
  have "get_aligned_free_space pg_page_8k length ?root = 8136"
    by (simp add: get_aligned_free_space_def get_free_space_def items_of_def pg_page_8k_def BLCKSZ_def header_le_def
        maxalign_def Let_def x)
  then have "\<exists>root1 rel1 w2. prepare_items header_le pg_page_8k Meta 2 1 [ser_meta c m] ?root rel w1
      = prepare_items header_le pg_page_8k Meta 2 2 [] root1 rel1 w2"
    using chain8k.prepare_item_ok [where data = "ser_meta c m" and root = ?root and i = 1 and n = 2 and t = Meta and xs = "[x]"
        and rel = rel and writes = w1 and items = "[]"] inv room ser_meta_ne
    by (auto simp: is_chained_def numeral_2_eq_2 hs simp del: prepare_items.simps)
  then show ?thesis unfolding 1 by auto
qed

lemma meta_store_facts:
  assumes m: "m_magic_number m = TSV_MAGIC_NUMBER" "m_version m = TSV_VERSION"
    and inv: "rel_inv rel" and room: "length rel + length (ser_meta c m) + 21 < 2 ^ 32 - 1"
    and root: "if first_time then rel = [] else rel \<noteq> [] \<and> is_ok (read_from_page (rel ! 0))"
  shows "\<exists>rel'. meta_store c header_le pg_page_8k m rel first_time = Inr rel' \<and> rel_inv rel'
    \<and> length rel \<le> length rel' \<and> (\<forall>b. 0 < b \<and> b < length rel \<longrightarrow> rel' ! b = rel ! b)
    \<and> rel' \<noteq> [] \<and> (\<exists>xs. rel' ! 0 = InitPage (tsv_opaque_new Meta) xs) \<and> meta_load c header_le rel' = Inr m"
proof -
  let ?hd = "\<lparr>h_magic_number = m_magic_number m, h_version = m_version m\<rparr>"
  let ?items = "[ser_header c ?hd, ser_meta c m]"
  let ?rel = "if first_time then [NewPage] else rel"
  let ?root = "\<lparr>wp_block = 0, wp_page = InitPage (tsv_opaque_new Meta) []\<rparr> :: bytes writable_page"
  have inv': "rel_inv ?rel" using inv by (simp add: rel_inv_def page_inv_def)
  have len: "length ?rel = max 1 (length rel)" using root by (cases rel) (auto split: if_splits)
  have room2: "room_for ?rel ?items" using room root by (auto simp: room_for_def header_bytes_8)
  have start: "(if first_time then writable_new rel Meta
            else rbind (writable_modify rel 0) (\<lambda>page. Inr (reinit Meta page, rel))) = Inr (?root, ?rel)"
    using root by (auto simp: writable_new_Inr blocks_left_def writable_modify_def read_buffer_def is_ok_iff reinit_def)
  have "length ?rel + length (ser_meta c m) + 20 < 2 ^ 32 - 1" using room root by auto
  from prepare_meta_root [OF _ inv' this, of ?root ?hd 0] obtain root' rel1 w1 where
    items: "prepare_items header_le pg_page_8k Meta 2 0 ?items ?root ?rel 0 = Inr (root', rel1, w1)" by auto
  have prep: "prepare_root header_le pg_page_8k rel Meta 0 META_BLOCK_NUMBER first_time ?items = Inr (root', rel1, w1)"
    using start items by (simp add: prepare_root_def is_chained_def META_BLOCK_NUMBER_def numeral_2_eq_2 del: prepare_items.simps)
  have t: "is_chained Meta" by (simp add: is_chained_def)
  from chain8k.prepare_items_facts [OF items t _ inv' room2, of "[]"] obtain ys where
    f: "wp_block root' = 0" "wp_page root' = InitPage (tsv_opaque_new Meta) ys"
      "list_all2 (chain8k.staged Meta (length ?rel) rel1) ys ?items"
      "length ?rel \<le> length rel1" "\<forall>b < length ?rel. rel1 ! b = ?rel ! b" "rel_inv rel1" by auto
  have ys: "length ys = 2" using f(3) by (auto dest: list_all2_lengthD)
  have b: "unat (wp_block root') < length ?rel" using f(1) len by simp
  have "chain8k.staged Meta (length ?rel) rel1 (ys ! 1) (ser_meta c m)"
    using list_all2_nthD [OF f(3), of 1] ys by simp
  from chain8k.staged_read [OF f(2) b f(4) _ this] ys room2 obtain fuel segs where
    r: "chain_collect header_le Meta (commit rel1 root') fuel (ItemPointer 0 2) = Inr segs" "concat segs = ser_meta c m"
    by (auto simp: f(1) MaxOffsetNumber_def room_for_def)
  have load: "meta_load c header_le (commit rel1 root') = Inr m"
    using chain_fuel_enough [OF r(1)] r(2)
    by (simp add: meta_load_def META_BLOCK_NUMBER_def META_OFFSET_def de_ser runwrap_def)
  have st: "meta_store c header_le pg_page_8k m rel first_time = Inr (commit rel1 root')"
    using prep m by (simp add: meta_store_def rassert_def)
  have "page_inv (wp_page root')" using f(2) ys by (auto simp: page_inv_def MaxOffsetNumber_def)
  then have "rel_inv (commit rel1 root')"
    using f(6) by (auto simp: rel_inv_def commit_def dest!: set_update_subset_insert [THEN subsetD])
  moreover have "0 < length rel1" using f(4) len by (cases rel1) simp_all
  then have "commit rel1 root' ! 0 = InitPage (tsv_opaque_new Meta) ys" using f(1,2) by (simp add: commit_def)
  ultimately show ?thesis
    using st load f root len
    by (intro exI [of _ "commit rel1 root'"]) (auto simp: commit_def split: if_splits)
qed

lemma meta_store_length:
  assumes "meta_store c header_le pg_page_8k m rel first_time = Inr rel'" "rel_inv rel"
    and "length rel + length (ser_meta c m) + 21 < 2 ^ 32 - 1" "if first_time then rel = [] else rel \<noteq> []"
  shows "length rel' \<le> length rel + length (ser_meta c m) + 11"
proof -
  let ?hd = "\<lparr>h_magic_number = m_magic_number m, h_version = m_version m\<rparr>"
  let ?items = "[ser_header c ?hd, ser_meta c m]"
  let ?rel = "if first_time then [NewPage] else rel"
  have inv': "rel_inv ?rel" using assms(2) by (simp add: rel_inv_def page_inv_def)
  have room: "room_for ?rel ?items" using assms(3, 4) by (auto simp: room_for_def header_bytes_8)
  obtain root root' rel1 w1 where prep: "prepare_items header_le pg_page_8k Meta 2 0 ?items root ?rel 0 = Inr (root', rel1, w1)"
    and rel': "rel' = commit rel1 root'"
    using assms(1, 4) by (auto simp: meta_store_def prepare_root_def writable_new_Inr writable_modify_def numeral_2_eq_2 simp del: prepare_items.simps split: if_splits)
  have "is_chained Meta" by (simp add: is_chained_def)
  from chain8k.prepare_items_length [OF prep this inv' room] show ?thesis
    using rel' assms(4) by (auto simp: commit_def header_bytes_8 split: if_splits)
qed

end

end
