(* ===== verification/Sample_Codec.thy ===== *)
theory Sample_Codec
  imports Meta_Page
begin

text \<open>
  A concrete serialiser for meta pages, at which the laws of \<open>meta_codec_laws\<close> hold: a meta page is a
  list of numbers, and a number a sequence of groups of seven bits. It stands in for \<open>rkyv\<close> in the
  witnesses only; no property depends on its format.
\<close>

fun enc_nat :: "nat \<Rightarrow> bytes" where
  "enc_nat n = (if n < 128 then [of_nat n] else of_nat (n mod 128 + 128) # enc_nat (n div 128))"

declare enc_nat.simps [simp del]

fun dec_nat :: "bytes \<Rightarrow> (nat \<times> bytes) option" where
  "dec_nat [] = None"
| "dec_nat (b # bs) =
     (if unat b < 128 then Some (unat b, bs)
      else map_option (\<lambda>(n, r). (unat b - 128 + 128 * n, r)) (dec_nat bs))"

lemma dec_enc_nat: "dec_nat (enc_nat n @ bs) = Some (n, bs)"
proof (induction n rule: enc_nat.induct)
  case (1 n)
  have "n mod 128 + 128 < 256" using mod_less_divisor [of 128 n] by linarith
  then have u: "unat (of_nat (n mod 128 + 128) :: byte) = n mod 128 + 128"
    by (simp add: unat_of_nat del: of_nat_add)
  have v: "n < 128 \<Longrightarrow> unat (of_nat n :: byte) = n" by (simp add: unat_of_nat)
  show ?case using 1 mod_mult_div_eq [of n 128]
    by (subst enc_nat.simps) (simp add: u v del: of_nat_add)
qed

fun dec_nats :: "nat \<Rightarrow> bytes \<Rightarrow> nat list option" where
  "dec_nats 0 bs = Some []"
| "dec_nats (Suc k) bs =
     (case dec_nat bs of None \<Rightarrow> None | Some (n, r) \<Rightarrow> map_option ((#) n) (dec_nats k r))"

definition enc_all :: "nat list \<Rightarrow> bytes" where
  "enc_all xs = enc_nat (length xs) @ concat (map enc_nat xs)"

definition dec_all :: "bytes \<Rightarrow> nat list option" where
  "dec_all bs = (case dec_nat bs of None \<Rightarrow> None | Some (k, r) \<Rightarrow> dec_nats k r)"

lemma dec_enc_all: "dec_all (enc_all xs) = Some xs"
proof -
  have "dec_nats (length xs) (concat (map enc_nat xs)) = Some xs"
    by (induction xs) (simp_all add: dec_enc_nat)
  then show ?thesis by (simp add: dec_all_def enc_all_def dec_enc_nat)
qed

definition enc_label :: "label \<Rightarrow> nat" where
  "enc_label l = (if 0 \<le> l then 2 * nat l else 2 * nat (- l) + 1)"

definition dec_label :: "nat \<Rightarrow> label" where
  "dec_label n = (if even n then int (n div 2) else - int (n div 2))"

lemma dec_enc_label [simp]: "dec_label (enc_label l) = l"
  by (simp add: dec_label_def enc_label_def)

definition enc_ip :: "item_pointer \<Rightarrow> nat list" where
  "enc_ip p = [unat (block_number p), unat (offset p)]"

fun enc_labeled :: "(label \<times> item_pointer) list \<Rightarrow> nat list" where
  "enc_labeled [] = []"
| "enc_labeled ((l, p) # xs) = enc_label l # unat (block_number p) # unat (offset p) # enc_labeled xs"

fun dec_labeled :: "nat list \<Rightarrow> (label \<times> item_pointer) list" where
  "dec_labeled (l # b # i # xs) = (dec_label l, ItemPointer (of_nat b) (of_nat i)) # dec_labeled xs"
| "dec_labeled _ = []"

lemma dec_enc_labeled [simp]: "dec_labeled (enc_labeled xs) = xs"
  by (induction xs rule: enc_labeled.induct) simp_all

definition enc_start :: "start_nodes option \<Rightarrow> nat list" where
  "enc_start so = (case so of None \<Rightarrow> [] | Some s \<Rightarrow>
     unat (block_number (default_node s)) # unat (offset (default_node s)) # enc_labeled (labeled_nodes s))"

definition dec_start :: "nat list \<Rightarrow> start_nodes option" where
  "dec_start ns = (case ns of b # i # r \<Rightarrow>
       Some \<lparr>default_node = ItemPointer (of_nat b) (of_nat i), labeled_nodes = dec_labeled r\<rparr>
     | _ \<Rightarrow> None)"

lemma dec_enc_start [simp]: "dec_start (enc_start so) = so"
  by (simp add: dec_start_def enc_start_def split: option.splits)

definition meta_nats :: "meta_page \<Rightarrow> nat list" where
  "meta_nats m =
     [unat (m_magic_number m), unat (m_version m), unat (m_distance_type m), unat (m_num_dimensions m),
      unat (m_num_dimensions_to_index m), unat (m_bq_num_bits_per_dimension m), unat (m_storage_type m),
      unat (m_num_neighbors m), unat (m_search_list_size m), unat (m_max_alpha m),
      unat (block_number (m_quantizer_metadata m)), unat (offset (m_quantizer_metadata m)),
      of_bool (m_has_labels m), length (m_extension_version_when_built m)]
     @ map of_char (m_extension_version_when_built m) @ enc_start (m_start_nodes m)"

fun meta_of_nats :: "nat list \<Rightarrow> meta_page option" where
  "meta_of_nats (a # b # d # e # f # g # i # j # k # l # q # r # t # n # rest) =
     Some \<lparr>m_magic_number = of_nat a, m_version = of_nat b,
       m_extension_version_when_built = map char_of (take n rest), m_distance_type = of_nat d,
       m_num_dimensions = of_nat e, m_num_dimensions_to_index = of_nat f,
       m_bq_num_bits_per_dimension = of_nat g, m_storage_type = of_nat i, m_num_neighbors = of_nat j,
       m_search_list_size = of_nat k, m_max_alpha = of_nat l, m_start_nodes = dec_start (drop n rest),
       m_quantizer_metadata = ItemPointer (of_nat q) (of_nat r), m_has_labels = (t = 1)\<rparr>"
| "meta_of_nats _ = None"

lemma meta_of_meta_nats [simp]: "meta_of_nats (meta_nats m) = Some m"
  by (cases m) (simp add: meta_nats_def comp_def)

definition sample_codec :: meta_codec where
  "sample_codec =
     \<lparr>ser_header = (\<lambda>hdr. map (\<lambda>i. of_nat (unat (h_magic_number hdr) div 256 ^ i)) [0..<4]
                     @ map (\<lambda>i. of_nat (unat (h_version hdr) div 256 ^ i)) [0..<4]),
      ser_meta = (\<lambda>m. enc_all (meta_nats m)),
      de_meta = (\<lambda>bs. Option.bind (dec_all bs) meta_of_nats),
      arch_header = (\<lambda>_. \<lparr>h_magic_number = TSV_MAGIC_NUMBER, h_version = 2\<rparr>),
      arch_v2 = (\<lambda>_. \<lparr>v2_magic_number = TSV_MAGIC_NUMBER, v2_version = 2, v2_extension_version_when_built = ''0.1.0'',
         v2_distance_type = 1, v2_num_dimensions = 3, v2_num_dimensions_to_index = 3,
         v2_bq_num_bits_per_dimension = 1, v2_storage_type = 0, v2_num_neighbors = 50, v2_search_list_size = 100,
         v2_max_alpha = 0x3FF3333333333333, v2_init_ids = ItemPointer 1 1, v2_quantizer_metadata = new_invalid\<rparr>),
      contents_v1 = (\<lambda>_. \<lparr>v1_magic_number = TSV_MAGIC_NUMBER, v1_version = 1, v1_num_dimensions = 3,
         v1_num_neighbors = 50, v1_search_list_size = 100, v1_max_alpha = 0x3FF3333333333333,
         v1_init_ids_block_number = 1, v1_init_ids_offset = 1, v1_use_pq = False\<rparr>)\<rparr>"

text \<open>How long a serialised meta page is.\<close>

lemma enc_nat_length: "n < 128 ^ k \<Longrightarrow> 0 < k \<Longrightarrow> length (enc_nat n) \<le> k"
proof (induction k arbitrary: n)
  case (Suc k)
  show ?case
  proof (cases "n < 128")
    case False
    then have "0 < k" using Suc.prems(1) by (cases k) simp_all
    moreover have "n div 128 < 128 ^ k" using Suc.prems(1) by (simp add: less_mult_imp_div_less mult.commute)
    ultimately show ?thesis using Suc.IH by (subst enc_nat.simps) simp
  qed (subst enc_nat.simps, simp)
qed simp

lemma enc_all_length:
  "\<forall>n \<in> set xs. n < 2 ^ 64 \<Longrightarrow> length xs < 2 ^ 24 \<Longrightarrow> length (enc_all xs) \<le> 10 * (length xs + 1)"
proof -
  have e: "length (enc_nat n) \<le> 10" if "n < 2 ^ 64" for n
    using that enc_nat_length [of n 10] by simp
  assume "\<forall>n \<in> set xs. n < 2 ^ 64"
  then have "length (concat (map enc_nat xs)) \<le> 10 * length xs"
    by (induction xs) (simp, use e in fastforce)
  moreover assume "length xs < 2 ^ 24"
  ultimately show ?thesis using e [of "length xs"] by (simp add: enc_all_def)
qed

lemma unat_64:
  assumes "LENGTH('a) \<le> 64"
  shows "unat (x :: 'a::len word) < 2 ^ 64"
  by (rule less_le_trans [OF unsigned_less [of x] power_increasing [OF assms]]) simp

lemma sample_codec_length:
  assumes "\<forall>n \<in> set (enc_start (m_start_nodes m)). n < 2 ^ 64" "length (enc_start (m_start_nodes m)) < 1000"
    and "length (m_extension_version_when_built m) < 1000"
  shows "length (ser_meta sample_codec m) < 2 ^ 31"
proof -
  have "of_char c < (2 ^ 64 :: nat)" for c by (rule less_le_trans [OF nat_of_char_less_256]) simp
  then have "\<forall>n \<in> set (meta_nats m). n < 2 ^ 64"
    using assms by (auto simp: meta_nats_def intro!: unat_64 [simplified])
  moreover have "length (meta_nats m) < 2014" using assms by (simp add: meta_nats_def)
  ultimately show ?thesis
    using enc_all_length [of "meta_nats m"] by (simp add: sample_codec_def)
qed

lemma sample_codec_small:
  assumes "m_start_nodes m = None" "length (m_extension_version_when_built m) < 1000"
  shows "length (ser_meta sample_codec m) < 2 ^ 31"
  using assms by (intro sample_codec_length) (simp_all add: enc_start_def)

interpretation sample_codec: meta_codec_laws sample_codec
proof
  have "enc_nat n \<noteq> []" for n by (subst enc_nat.simps) simp
  then show "ser_meta sample_codec m \<noteq> []" for m by (simp add: sample_codec_def enc_all_def)
qed (simp_all add: sample_codec_def dec_enc_all)

end
