(* ===== verification/Publication.thy ===== *)
theory Publication
  imports Sample_Codec
begin

text \<open>
  What the meta page promises: a published page is what the next fetch returns, options are accepted
  exactly when they describe an index the rest of the code supports.
\<close>

definition meta_valid :: "meta_page \<Rightarrow> bool" where
  "meta_valid m \<longleftrightarrow> m_magic_number m = TSV_MAGIC_NUMBER \<and> m_version m = TSV_VERSION \<and>
     is_ok (ensure_valid_dimensions (unat (m_num_dimensions m)) (unat (m_num_dimensions_to_index m)))"

context meta_codec_laws
begin

lemma meta_store_fetch:
  assumes "meta_valid m" "rel_inv rel" "length rel + length (ser_meta c m) + 21 < 2 ^ 32 - 1"
    and "if first_time then rel = [] else rel \<noteq> [] \<and> is_ok (read_from_page (rel ! 0))"
  shows "\<exists>rel'. meta_store c header_le pg_page_8k m rel first_time = Inr rel' \<and> rel_inv rel'
    \<and> length rel \<le> length rel' \<and> (\<forall>b. 0 < b \<and> b < length rel \<longrightarrow> rel' ! b = rel ! b) \<and> meta_fetch c header_le rel' = Inr m"
proof -
  have m: "m_magic_number m = TSV_MAGIC_NUMBER" "m_version m = TSV_VERSION"
    and d: "ensure_valid_dimensions (unat (m_num_dimensions m)) (unat (m_num_dimensions_to_index m)) = Inr ()"
    using assms(1) by (auto simp: meta_valid_def is_ok_iff)
  from meta_store_facts [OF m assms(2-4)] obtain rel' xs where r:
    "meta_store c header_le pg_page_8k m rel first_time = Inr rel'" "rel_inv rel'" "length rel \<le> length rel'"
    "\<forall>b. 0 < b \<and> b < length rel \<longrightarrow> rel' ! b = rel ! b" "rel' \<noteq> []"
    "rel' ! 0 = InitPage (tsv_opaque_new Meta) xs" "meta_load c header_le rel' = Inr m" by blast
  have "meta_fetch c header_le rel' = Inr m"
    using r(5-7) d by (simp add: meta_fetch_def read_buffer_def META_BLOCK_NUMBER_def readable_type_def)
  with r show ?thesis by blast
qed

end

section \<open>Options\<close>

text \<open>The number of bits a vector of the index takes per dimension.\<close>

lemma choose_num_bits_facts:
  assumes "unat (o_num_bits_per_dimension opt) \<le> 32" "get_storage_type opt = Inr t"
  shows "\<exists>b. choose_num_bits opt n = Inr b \<and> 1 \<le> unat b \<and>
    (is_ok (check_num_bits opt n b) \<longleftrightarrow> (1 < unat b \<longrightarrow> n \<le> 930 \<and> t = SbqCompression)) \<and>
    (1 < unat b \<longleftrightarrow> 1 < unat (o_num_bits_per_dimension opt) \<or>
       o_num_bits_per_dimension opt = 0 \<and> t = SbqCompression \<and> n < 900)"
proof (cases "o_num_bits_per_dimension opt = 0")
  case True
  then show ?thesis using assms(2) by (simp add: choose_num_bits_def check_num_bits_def is_ok_def)
next
  case False
  have "0 < unat (o_num_bits_per_dimension opt)" using False by (simp add: word_neq_0_conv word_less_nat_alt)
  moreover have "unat (ucast (o_num_bits_per_dimension opt) :: 8 word) = unat (o_num_bits_per_dimension opt)"
    using assms(1) by (simp add: unat_ucast_byte)
  ultimately show ?thesis
    using False assms(2) by (simp add: choose_num_bits_def check_num_bits_def is_ok_def)
qed

lemma calculate_num_neighbors_facts:
  assumes "-1 \<le> o_num_neighbors opt" "o_num_neighbors opt \<le> 1000" "get_storage_type opt = Inr t"
  shows "(\<exists>n. calculate_num_neighbors opt = Inr n) \<longleftrightarrow> o_num_neighbors opt = -1 \<or> 10 \<le> o_num_neighbors opt"
    and "calculate_num_neighbors opt = Inr n \<Longrightarrow> 10 \<le> unat n \<and> unat n \<le> 1000"
proof -
  have u: "unat (word_of_int i :: 32 word) = nat i" if "0 \<le> i" "i \<le> 1000" for i
    using that by (simp add: unat_eq_nat_uint uint_word_of_int)
  show "(\<exists>n. calculate_num_neighbors opt = Inr n) \<longleftrightarrow> o_num_neighbors opt = -1 \<or> 10 \<le> o_num_neighbors opt"
    using assms by (cases t) (auto simp: calculate_num_neighbors_def get_num_neighbors_def NUM_NEIGHBORS_DEFAULT_SENTINEL_def)
  show "10 \<le> unat n \<and> unat n \<le> 1000" if "calculate_num_neighbors opt = Inr n"
    using that assms u
    by (cases t) (auto simp: calculate_num_neighbors_def get_num_neighbors_def NUM_NEIGHBORS_DEFAULT_SENTINEL_def split: if_splits)
qed

lemma storage_type_roundtrip [simp]: "storage_type_from_u8 (storage_type_as_u8 t) = Inr t"
  by (cases t) (simp_all add: storage_type_from_u8_def)

lemma distance_type_roundtrip [simp]:
  "distance_type_from_u16 (unat (of_nat (distance_type_as_u16 t) :: 16 word)) = Inr t"
  by (cases t) (simp_all add: distance_type_from_u16_def)

text \<open>The meta page that \<open>create\<close> stores, once all checks have passed.\<close>

definition new_meta_page ::
  "string \<Rightarrow> nat \<Rightarrow> 32 word \<Rightarrow> distance_type \<Rightarrow> tsv_index_options \<Rightarrow> storage_type \<Rightarrow> 8 word \<Rightarrow> 32 word \<Rightarrow> meta_page" where
  "new_meta_page version natts dims dt opt t bits num_neighbors =
     \<lparr>m_magic_number = TSV_MAGIC_NUMBER, m_version = TSV_VERSION,
      m_extension_version_when_built = version, m_distance_type = of_nat (distance_type_as_u16 dt),
      m_num_dimensions = dims, m_num_dimensions_to_index = (if o_num_dimensions opt = 0 then dims else o_num_dimensions opt),
      m_bq_num_bits_per_dimension = bits, m_storage_type = storage_type_as_u8 t,
      m_num_neighbors = num_neighbors, m_search_list_size = o_search_list_size opt,
      m_max_alpha = o_max_alpha opt, m_start_nodes = None,
      m_quantizer_metadata = ItemPointer InvalidBlockNumber InvalidOffsetNumber, m_has_labels = (natts = 2)\<rparr>"

lemma meta_create_Inr:
  "meta_create c h ops version natts rel dims dt opt = Inr (m, rel') \<longleftrightarrow>
     (\<exists>t bits n. let idx = unat (if o_num_dimensions opt = 0 then dims else o_num_dimensions opt) in
        ensure_valid_dimensions (unat dims) idx = Inr () \<and> choose_num_bits opt idx = Inr bits \<and>
        check_num_bits opt idx bits = Inr () \<and> natts \<le> 2 \<and> get_storage_type opt = Inr t \<and>
        calculate_num_neighbors opt = Inr n \<and> m = new_meta_page version natts dims dt opt t bits n \<and>
        meta_store c h ops m rel True = Inr rel')"
  by (auto simp: meta_create_def Let_def new_meta_page_def get_num_index_attributes_def)

section \<open>Properties\<close>

text \<open>
  C25. A meta page that is stored is what the next fetch returns: the store succeeds on a new
  relation and on one whose root page is readable, touches no other existing page, and the fetch
  finds the page by the chained read whatever its size.
\<close>

theorem meta_publish_fetch:
  assumes "meta_codec_laws c" "meta_valid m" "rel_inv rel"
    and "length rel + length (ser_meta c m) + 21 < 2 ^ 32 - 1"
    and "if first_time then rel = [] else rel \<noteq> [] \<and> is_ok (read_from_page (rel ! 0))"
  shows "\<exists>rel'. meta_store c header_le pg_page_8k m rel first_time = Inr rel' \<and> meta_fetch c header_le rel' = Inr m
    \<and> rel_inv rel' \<and> length rel \<le> length rel' \<and> (\<forall>b. 0 < b \<and> b < length rel \<longrightarrow> rel' ! b = rel ! b)"
  using meta_codec_laws.meta_store_fetch [OF assms] by blast

text \<open>
  C26. Options that PostgreSQL's ranges admit are accepted exactly when they describe a supported
  index: a dimension of at most 16000 of which at least one and at most all are indexed, a number
  of neighbours that is the default or at least 10, and more than one bit per dimension only for
  the compressed storage with at most 930 indexed dimensions. The meta page then created is valid,
  holds what was asked for, has no entry point yet, and is what a fetch returns.
\<close>

theorem meta_create_accepts:
  assumes laws: "meta_codec_laws c" and opt: "reloptions_ok opt" "get_storage_type opt = Inr t" and natts: "natts \<le> 2"
    and small: "\<And>m. m_start_nodes m = None \<Longrightarrow> m_extension_version_when_built m = version \<Longrightarrow> length (ser_meta c m) < 2 ^ 31"
  shows "let r = meta_create c header_le pg_page_8k version natts [] dims dt opt;
      idx = unat (if o_num_dimensions opt = 0 then dims else o_num_dimensions opt);
      bits = unat (o_num_bits_per_dimension opt)
    in (is_ok r \<longleftrightarrow> 1 \<le> unat dims \<and> unat dims \<le> MAX_DIMENSION \<and> 1 \<le> idx \<and> idx \<le> unat dims \<and>
          (o_num_neighbors opt = -1 \<or> 10 \<le> o_num_neighbors opt) \<and> (1 < bits \<longrightarrow> idx \<le> 930 \<and> t = SbqCompression))
     \<and> (\<forall>m rel. r = Inr (m, rel) \<longrightarrow> meta_valid m \<and> meta_fetch c header_le rel = Inr m
          \<and> unat (m_num_dimensions_to_index m) = idx \<and> 10 \<le> unat (m_num_neighbors m) \<and> unat (m_num_neighbors m) \<le> 1000
          \<and> 1 \<le> unat (m_bq_num_bits_per_dimension m) \<and> f64_le (m_max_alpha m) 0x4014000000000000
          \<and> meta_storage_type m = Inr t \<and> meta_distance_type m = Inr dt \<and> m_start_nodes m = None \<and> m_has_labels m = (natts = 2))"
proof -
  let ?idx = "unat (if o_num_dimensions opt = 0 then dims else o_num_dimensions opt)"
  let ?r = "meta_create c header_le pg_page_8k version natts [] dims dt opt"
  note o = opt(1) [unfolded reloptions_ok_def]
  from choose_num_bits_facts [OF _ opt(2), of ?idx] o obtain b where
    b: "choose_num_bits opt ?idx = Inr b" "1 \<le> unat b"
      "is_ok (check_num_bits opt ?idx b) \<longleftrightarrow> (1 < unat b \<longrightarrow> ?idx \<le> 930 \<and> t = SbqCompression)"
      "1 < unat b \<longleftrightarrow> 1 < unat (o_num_bits_per_dimension opt) \<or> o_num_bits_per_dimension opt = 0 \<and> t = SbqCompression \<and> ?idx < 900"
    by blast
  have chk: "check_num_bits opt ?idx b = Inr () \<longleftrightarrow> (1 < unat (o_num_bits_per_dimension opt) \<longrightarrow> ?idx \<le> 930 \<and> t = SbqCompression)"
    using b(3,4) by (auto simp: is_ok_iff)
  note n = calculate_num_neighbors_facts [OF _ _ opt(2)]
  have dim: "ensure_valid_dimensions (unat dims) ?idx = Inr () \<longleftrightarrow>
      1 \<le> unat dims \<and> unat dims \<le> MAX_DIMENSION \<and> 1 \<le> ?idx \<and> ?idx \<le> unat dims"
    by (auto simp: ensure_valid_dimensions_def not_less)
  have st: "\<exists>rel. meta_store c header_le pg_page_8k m [] True = Inr rel \<and> meta_fetch c header_le rel = Inr m"
    if "m = new_meta_page version natts dims dt opt t b k" "ensure_valid_dimensions (unat dims) ?idx = Inr ()" for m k
  proof -
    have "meta_valid m" using that by (simp add: meta_valid_def new_meta_page_def is_ok_iff)
    moreover have "length (ser_meta c m) < 2 ^ 31" by (rule small) (simp_all add: that new_meta_page_def)
    ultimately show ?thesis
      using meta_codec_laws.meta_store_fetch [OF laws, of m "[]" True] by (auto simp: rel_inv_def)
  qed
  have acc: "is_ok ?r \<longleftrightarrow> 1 \<le> unat dims \<and> unat dims \<le> MAX_DIMENSION \<and> 1 \<le> ?idx \<and> ?idx \<le> unat dims \<and>
      (o_num_neighbors opt = -1 \<or> 10 \<le> o_num_neighbors opt) \<and>
      (1 < unat (o_num_bits_per_dimension opt) \<longrightarrow> ?idx \<le> 930 \<and> t = SbqCompression)"
  proof
    assume "is_ok ?r"
    then obtain m rel where "?r = Inr (m, rel)" by (auto simp: is_ok_iff)
    then show "1 \<le> unat dims \<and> unat dims \<le> MAX_DIMENSION \<and> 1 \<le> ?idx \<and> ?idx \<le> unat dims \<and>
      (o_num_neighbors opt = -1 \<or> 10 \<le> o_num_neighbors opt) \<and>
      (1 < unat (o_num_bits_per_dimension opt) \<longrightarrow> ?idx \<le> 930 \<and> t = SbqCompression)"
      using n(1) o chk dim b(1) by (auto simp: meta_create_Inr Let_def)
  next
    assume a: "1 \<le> unat dims \<and> unat dims \<le> MAX_DIMENSION \<and> 1 \<le> ?idx \<and> ?idx \<le> unat dims \<and>
      (o_num_neighbors opt = -1 \<or> 10 \<le> o_num_neighbors opt) \<and>
      (1 < unat (o_num_bits_per_dimension opt) \<longrightarrow> ?idx \<le> 930 \<and> t = SbqCompression)"
    then obtain k where k: "calculate_num_neighbors opt = Inr k" using n(1) o by blast
    obtain rel where "meta_store c header_le pg_page_8k (new_meta_page version natts dims dt opt t b k) [] True = Inr rel"
      using st [OF refl] a dim by blast
    then have "?r = Inr (new_meta_page version natts dims dt opt t b k, rel)"
      unfolding meta_create_Inr Let_def using a dim chk b(1) natts opt(2) k by blast
    then show "is_ok ?r" by (simp add: is_ok_def)
  qed
  have res: "meta_valid m \<and> meta_fetch c header_le rel = Inr m
          \<and> unat (m_num_dimensions_to_index m) = ?idx \<and> 10 \<le> unat (m_num_neighbors m) \<and> unat (m_num_neighbors m) \<le> 1000
          \<and> 1 \<le> unat (m_bq_num_bits_per_dimension m) \<and> f64_le (m_max_alpha m) 0x4014000000000000
          \<and> meta_storage_type m = Inr t \<and> meta_distance_type m = Inr dt \<and> m_start_nodes m = None \<and> m_has_labels m = (natts = 2)"
    if r: "?r = Inr (m, rel)" for m rel
  proof -
    from r obtain k where k: "ensure_valid_dimensions (unat dims) ?idx = Inr ()" "calculate_num_neighbors opt = Inr k"
      "m = new_meta_page version natts dims dt opt t b k" "meta_store c header_le pg_page_8k m [] True = Inr rel"
      using b(1) opt(2) by (auto simp: meta_create_Inr Let_def)
    have "meta_fetch c header_le rel = Inr m" using st [OF k(3,1)] k(4) by auto
    then show ?thesis
      using k(1,3) n(2) [OF _ _ k(2)] o b(2)
      by (simp add: meta_valid_def new_meta_page_def is_ok_iff meta_storage_type_def meta_distance_type_def)
  qed
  show ?thesis unfolding Let_def using acc res by blast
qed

text \<open>The meta page of a small index with the default options.\<close>

definition sample_meta :: meta_page where
  "sample_meta = new_meta_page ''0.8.0'' 1 3 L2 options_default SbqCompression 2 50"

theorem meta_publish_fetch_witness:
  "\<exists>rel'. meta_store sample_codec header_le pg_page_8k sample_meta [] True = Inr rel' \<and> meta_fetch sample_codec header_le rel' = Inr sample_meta"
proof -
  have "meta_valid sample_meta"
    by (simp add: meta_valid_def sample_meta_def new_meta_page_def options_default_def ensure_valid_dimensions_def
        MAX_DIMENSION_def is_ok_def)
  moreover have "length (ser_meta sample_codec sample_meta) < 2 ^ 31"
    by (rule sample_codec_small) (simp_all add: sample_meta_def new_meta_page_def)
  ultimately show ?thesis
    using meta_publish_fetch [OF sample_codec.meta_codec_laws_axioms, of sample_meta "[]" True]
    by (auto simp: rel_inv_def)
qed

theorem meta_create_accepts_witness:
  "is_ok (meta_create sample_codec header_le pg_page_8k ''0.8.0'' 2 [] 3 Cosine options_default)"
proof -
  have "get_storage_type options_default = Inr SbqCompression" by code_simp
  moreover have "reloptions_ok options_default"
    unfolding reloptions_ok_def options_default_def NUM_NEIGHBORS_DEFAULT_SENTINEL_def f64_one_def
    by (simp add: validate_storage_layout_def is_ok_def, code_simp)
  moreover have "length (ser_meta sample_codec m) < 2 ^ 31"
    if "m_start_nodes m = None" "m_extension_version_when_built m = ''0.8.0''" for m
    using sample_codec_small that by simp
  ultimately show ?thesis
    using meta_create_accepts [OF sample_codec.meta_codec_laws_axioms, of options_default SbqCompression 2 "''0.8.0''" 3 Cosine]
    by (simp add: Let_def options_default_def NUM_NEIGHBORS_DEFAULT_SENTINEL_def MAX_DIMENSION_def)
qed

end
