(* ===== verification/Graph_Search.thy ===== *)
theory Graph_Search
  imports Plain_Storage Sbq_Storage Meta_Page
begin

text \<open>
  The operations of \<open>Graph\<close> (\<open>graph/mod.rs\<close>) on top of a storage: greedy search, insertion of a node
  with its neighbours and back pointers, and the entry points. Pruning and merging are in \<open>Prune\<close>
  and \<open>Neighbor_Merge\<close>.

  The search loop runs until the frontier is explored: it is a partial function, whose value
  \<open>None\<close> is a search that does not return, and \<open>Graph_Facts\<close> proves that there is none. The set of
  visited nodes is a list without repetitions (by \<open>PartialEq\<close>, which compares pointers); the order
  in which a \<open>HashSet\<close> is iterated is the parameter \<open>ord\<close>, a permutation.
\<close>

section \<open>Greedy search\<close>

definition lsr_new ::
  "('n, 'd, 'q, 'pd) storage \<Rightarrow> builder_ops \<Rightarrow> item_pointer list \<Rightarrow> 'q \<Rightarrow> item_pointer option \<Rightarrow> neighbor_store \<Rightarrow> 'n world
     \<Rightarrow> (('q, 'pd) lsr \<times> neighbor_store \<times> 'n world) res" where
  "lsr_new S lops start_nodes q tie gns w =
     rfold (\<lambda>ip (l, gns, w).
        rbind (s_create_lsn S lops l ip gns w) (\<lambda>(n, l, gns, w).
        case n of
          None \<Rightarrow> Inr (l, gns, w)
        | Some n \<Rightarrow> (case insert_neighbor n l w of (l, w) \<Rightarrow> Inr (l, gns, w))))
       start_nodes (lsr_empty\<lparr>sdm := Some q, tie_break_item_pointer := tie\<rparr>, gns, count record_call w)"

definition visited_insert :: "'pd lsn \<Rightarrow> neighbor_with_distance list \<Rightarrow> neighbor_with_distance list" where
  "visited_insert e vs =
     (let n = nwd_new (lsn_index_pointer e) (lsn_distance e) (lsn_labels e)
      in if list_ex (nwd_eq n) vs then vs else vs @ [n])"

definition record_visited ::
  "('q, 'pd) lsr \<Rightarrow> nat \<Rightarrow> neighbor_with_distance list option \<Rightarrow> neighbor_with_distance list option res" where
  "record_visited l idx vis =
     (case vis of
        None \<Rightarrow> Inr None
      | Some vs \<Rightarrow> rbind (get_lsn_by_idx l idx) (\<lambda>e. Inr (Some (visited_insert e vs))))"

partial_function (option) greedy_search_loop ::
  "('n, 'd, 'q, 'pd) storage \<Rightarrow> builder_ops \<Rightarrow> nat \<Rightarrow> bool \<Rightarrow> ('q, 'pd) lsr \<Rightarrow> neighbor_with_distance list option
     \<Rightarrow> neighbor_store \<Rightarrow> 'n world
     \<Rightarrow> (('q, 'pd) lsr \<times> neighbor_with_distance list option \<times> neighbor_store \<times> 'n world) res option" where
  "greedy_search_loop S lops visit_n_closest no_filter l vis gns w =
     (case visit_closest visit_n_closest l of
        Inl e \<Rightarrow> Some (Inl e)
      | Inr (None, l) \<Rightarrow> Some (Inr (l, vis, gns, w))
      | Inr (Some idx, l) \<Rightarrow>
          (case rbind (record_visited l idx vis) (\<lambda>vis.
                rbind (s_visit_lsn S lops l idx gns no_filter (count record_visit w)) (\<lambda>(l, gns, w).
                Inr (l, vis, gns, w))) of
             Inl e \<Rightarrow> Some (Inl e)
           | Inr (l, vis, gns, w) \<Rightarrow> greedy_search_loop S lops visit_n_closest no_filter l vis gns w))"

text \<open>A search that does not return is the error \<open>OutOfFuel\<close> of its callers.\<close>

definition returned :: "'a res option \<Rightarrow> 'a res" where
  "returned x = (case x of None \<Rightarrow> Inl OutOfFuel | Some r \<Rightarrow> r)"

definition greedy_search_iterate ::
  "('n, 'd, 'q, 'pd) storage \<Rightarrow> builder_ops \<Rightarrow> nat \<Rightarrow> bool \<Rightarrow> ('q, 'pd) lsr \<Rightarrow> neighbor_with_distance list option
     \<Rightarrow> neighbor_store \<Rightarrow> 'n world
     \<Rightarrow> (('q, 'pd) lsr \<times> neighbor_with_distance list option \<times> neighbor_store \<times> 'n world) res" where
  "greedy_search_iterate S lops visit_n_closest no_filter l vis gns w =
     returned (greedy_search_loop S lops visit_n_closest no_filter l vis gns w)"

record graph =
  g_store :: neighbor_store
  g_meta :: meta_page

definition greedy_search_for_build ::
  "('n, 'd, 'q, 'pd) storage \<Rightarrow> builder_ops \<Rightarrow> graph \<Rightarrow> item_pointer \<Rightarrow> labeled_vector \<Rightarrow> bool \<Rightarrow> 'n world
     \<Rightarrow> (neighbor_with_distance list \<times> graph \<times> 'n world) res" where
  "greedy_search_for_build S lops gr ip query no_filter w =
     (case m_start_nodes (g_meta gr) of
        None \<Rightarrow> Inr ([], gr, w)
      | Some s \<Rightarrow>
          let start_nodes = (if no_filter then get_for_node s None else get_for_node s (lv_labels query)) in
          rbind (s_query_dm S query) (\<lambda>dm.
          rbind (lsr_new S lops start_nodes dm (Some ip) (g_store gr) w) (\<lambda>(l, gns, w).
          rbind (greedy_search_iterate S lops (unat (m_search_list_size (g_meta gr))) no_filter l (Some []) gns w)
            (\<lambda>(l, vis, gns, w).
          Inr (case vis of None \<Rightarrow> [] | Some vs \<Rightarrow> vs, gr\<lparr>g_store := gns\<rparr>, w)))))"

definition greedy_search_streaming_init ::
  "('n, 'd, 'q, 'pd) storage \<Rightarrow> builder_ops \<Rightarrow> graph \<Rightarrow> labeled_vector \<Rightarrow> 'n world
     \<Rightarrow> (('q, 'pd) lsr \<times> graph \<times> 'n world) res" where
  "greedy_search_streaming_init S lops gr query w =
     (case m_start_nodes (g_meta gr) of
        None \<Rightarrow> Inr (lsr_empty, gr, w)
      | Some s \<Rightarrow>
          rbind (s_query_dm S query) (\<lambda>dm.
          rbind (lsr_new S lops (get_for_node s (lv_labels query)) dm None (g_store gr) w) (\<lambda>(l, gns, w).
          Inr (l, gr\<lparr>g_store := gns\<rparr>, w))))"

text \<open>\<open>ListSearchResult::consume\<close>.\<close>

definition lsr_consume ::
  "('n, 'd, 'q, 'pd) storage \<Rightarrow> ('q, 'pd) lsr \<Rightarrow> 'n world
     \<Rightarrow> ((heap_pointer \<times> item_pointer) option \<times> ('q, 'pd) lsr \<times> 'n world) res" where
  "lsr_consume S l w =
     (case visited l of
        [] \<Rightarrow> Inr (None, l, w)
      | lsn # rest \<Rightarrow>
          rbind (s_return_lsn S lsn w) (\<lambda>(hp, w).
          Inr (Some (hp, lsn_index_pointer lsn), l\<lparr>visited := rest\<rparr>, w)))"

section \<open>Insertion\<close>

definition add_neighbors ::
  "('n, 'd, 'q, 'pd) storage \<Rightarrow> builder_ops \<Rightarrow> graph \<Rightarrow> item_pointer \<Rightarrow> label_set option \<Rightarrow> neighbor_with_distance list
     \<Rightarrow> 'n world \<Rightarrow> ((bool \<times> neighbor_with_distance list) \<times> graph \<times> 'n world) res" where
  "add_neighbors S lops gr neighbors_of ls additional_neighbors w =
     (let max_alpha = m_max_alpha (g_meta gr); num_neighbors = unat (m_num_neighbors (g_meta gr)) in
      case g_store gr of
        DiskStore \<Rightarrow>
          rbind (merge_neighbors_on_disk (s_disk S) neighbors_of ls additional_neighbors max_alpha num_neighbors MergeDisk w)
            (\<lambda>(r, w). Inr (r, gr, w))
      | BuilderStore b \<Rightarrow>
          rbind (case ls of Some l \<Rightarrow> Inr (Some l, w) | None \<Rightarrow> st_get_labels (s_disk S) neighbors_of w) (\<lambda>(ls, w).
          rbind (builder_get_neighbors_with_distances lops (s_disk S) b neighbors_of w) (\<lambda>(candidates, b, w).
          let candidates = retain_unseen n_index_pointer {neighbors_of} (candidates @ additional_neighbors) in
          rbind (if length candidates > gns_max_neighbors (g_store gr) (get_max_neighbors_during_build (g_meta gr)) num_neighbors then
                   rbind (prune_neighbors (s_disk S) max_alpha num_neighbors ls candidates w) (\<lambda>(new_list, w).
                   Inr (True, new_list, w))
                 else Inr (False, candidates, w)) (\<lambda>(pruned, new_neighbors, w).
          rbind (builder_set_neighbors lops (s_disk S) b neighbors_of ls new_neighbors w) (\<lambda>(b, w).
          Inr ((pruned, new_neighbors), gr\<lparr>g_store := BuilderStore b\<rparr>, w))))))"

definition update_back_pointer ::
  "('n, 'd, 'q, 'pd) storage \<Rightarrow> builder_ops \<Rightarrow> item_pointer \<Rightarrow> label_set option \<Rightarrow> neighbor_with_distance
     \<Rightarrow> nat \<times> graph \<times> 'n world \<Rightarrow> (nat \<times> graph \<times> 'n world) res" where
  "update_back_pointer S lops to to_labels neighbor = (\<lambda>(cnt_contains, gr, w).
     let new = nwd_new to (n_distance neighbor) to_labels in
     rbind (add_neighbors S lops gr (n_index_pointer neighbor) (n_labels neighbor) [new] w) (\<lambda>((_, n), gr, w).
     Inr (if list_ex (nwd_eq new) n then cnt_contains + 1 else cnt_contains, gr, w)))"

text \<open>The first component of the result tells whether the node became an orphan, which is a warning.\<close>

definition insert_internal ::
  "('n, 'd, 'q, 'pd) storage \<Rightarrow> builder_ops \<Rightarrow> (neighbor_with_distance list \<Rightarrow> neighbor_with_distance list) \<Rightarrow> graph
     \<Rightarrow> item_pointer \<Rightarrow> labeled_vector \<Rightarrow> bool \<Rightarrow> 'n world \<Rightarrow> (bool \<times> graph \<times> 'n world) res" where
  "insert_internal S lops ord gr ip vec no_filter w =
     rbind (greedy_search_for_build S lops gr ip vec no_filter w) (\<lambda>(v, gr, w).
     rbind (add_neighbors S lops gr ip (lv_labels vec) (ord v) w) (\<lambda>((_, neighbor_list), gr, w).
     rbind (rfold (update_back_pointer S lops ip (lv_labels vec)) neighbor_list (0, gr, w)) (\<lambda>(cnt_contains, gr, w).
     Inr (length neighbor_list > 0 \<and> cnt_contains = 0, gr, w))))"

text \<open>
  The entry points. The meta page on disk is read again under its lock, so that nothing that other
  backends published is lost; \<open>rel\<close> are the chained pages.
\<close>

definition update_start_nodes ::
  "meta_codec \<Rightarrow> rkyv_header \<Rightarrow> pg_page_ops \<Rightarrow> ('n, 'd, 'q, 'pd) storage \<Rightarrow> builder_ops \<Rightarrow> graph \<Rightarrow> item_pointer
     \<Rightarrow> label_set option \<Rightarrow> 'n world \<Rightarrow> chain_rel \<Rightarrow> (graph \<times> 'n world \<times> chain_rel) res" where
  "update_start_nodes c h ops S lops gr ip ls w rel =
     (if (case m_start_nodes (g_meta gr) of None \<Rightarrow> False | Some s \<Rightarrow> contains_all s ls) then Inr (gr, w, rel)
      else
        rbind (meta_fetch c h rel) (\<lambda>meta.
        if (case m_start_nodes meta of None \<Rightarrow> False | Some s \<Rightarrow> contains_all s ls)
        then Inr (gr\<lparr>g_meta := meta\<rparr>, w, rel)
        else
          rbind (case m_start_nodes meta of
                   Some _ \<Rightarrow> Inr (g_store gr, w)
                 | None \<Rightarrow> gns_initialize_neighbors lops (s_disk S) (g_store gr) ip ls w) (\<lambda>(gns, w).
          let meta = set_start_nodes (merge_start_nodes (m_start_nodes meta) ip ls) meta in
          rbind (meta_store c h ops meta rel False) (\<lambda>rel.
          Inr (\<lparr>g_store = gns, g_meta = meta\<rparr>, w, rel)))))"

definition graph_insert ::
  "meta_codec \<Rightarrow> rkyv_header \<Rightarrow> pg_page_ops \<Rightarrow> ('n, 'd, 'q, 'pd) storage \<Rightarrow> builder_ops
     \<Rightarrow> (neighbor_with_distance list \<Rightarrow> neighbor_with_distance list) \<Rightarrow> graph \<Rightarrow> item_pointer \<Rightarrow> labeled_vector
     \<Rightarrow> 'n world \<Rightarrow> chain_rel \<Rightarrow> (graph \<times> 'n world \<times> chain_rel) res" where
  "graph_insert c h ops S lops ord gr ip vec w rel =
     rbind (update_start_nodes c h ops S lops gr ip (lv_labels vec) w rel) (\<lambda>(gr, w, rel).
     rbind (if lv_labels vec \<noteq> None
            then rbind (insert_internal S lops ord gr ip vec False w) (\<lambda>(_, gr, w). Inr (gr, w))
            else Inr (gr, w)) (\<lambda>(gr, w).
     rbind (insert_internal S lops ord gr ip vec True w) (\<lambda>(_, gr, w).
     Inr (gr, w, rel))))"

definition maybe_flush_neighbor_cache ::
  "('n, 'd, 'q, 'pd) storage \<Rightarrow> builder_ops \<Rightarrow> graph \<Rightarrow> 'n world \<Rightarrow> (graph \<times> 'n world) res" where
  "maybe_flush_neighbor_cache S lops gr w =
     (case g_store gr of
        DiskStore \<Rightarrow> Inr (gr, w)
      | BuilderStore b \<Rightarrow>
          rbind (flush_neighbor_cache lops (s_disk S) b w) (\<lambda>(b, w). Inr (gr\<lparr>g_store := BuilderStore b\<rparr>, w)))"

end
