(* ===== verification/Graph_Facts.thy ===== *)
theory Graph_Facts
  imports Graph_Search
begin

text \<open>
  What the graph operations promise over any storage that satisfies \<open>search_storage\<close>: a greedy
  search always returns, with its frontier explored and without having changed the disk; an
  insertion returns too, and writes adjacencies only; the entry points published on disk are never
  lost.
\<close>

lemma finite_item_pointer: "finite (UNIV :: item_pointer set)"
proof -
  have "(UNIV :: item_pointer set) \<subseteq> (\<lambda>(b, f). ItemPointer b f) ` (UNIV \<times> UNIV)"
  proof
    fix p :: item_pointer
    show "p \<in> (\<lambda>(b, f). ItemPointer b f) ` (UNIV \<times> UNIV)"
      by (intro image_eqI [of _ _ "(block_number p, offset p)"]) auto
  qed
  then show ?thesis by (rule finite_subset) (intro finite_imageI finite_cartesian_product; simp)
qed

section \<open>The frontier\<close>

text \<open>
  A search may stop when nothing is left to visit, or when more than \<open>n\<close> nodes have been visited
  and no candidate is closer than the \<open>n\<close>-th of them.
\<close>

definition frontier_done :: "nat \<Rightarrow> ('q, 'pd) lsr \<Rightarrow> bool" where
  "frontier_done n l \<longleftrightarrow>
     candidates l = [] \<or>
     n < length (visited l) \<and> (\<forall>c \<in> set (candidates l). lsn_key (visited l ! (n - 1)) \<le> lsn_key c)"

text \<open>The record of the visited nodes.\<close>

definition nwd_of_lsn :: "'pd lsn \<Rightarrow> neighbor_with_distance" where
  "nwd_of_lsn e = nwd_new (lsn_index_pointer e) (lsn_distance e) (lsn_labels e)"

definition vis_ok :: "('q, 'pd) lsr \<Rightarrow> neighbor_with_distance list option \<Rightarrow> bool" where
  "vis_ok l vis = (case vis of None \<Rightarrow> True | Some vs \<Rightarrow> mset vs = mset (map nwd_of_lsn (visited l)))"

lemma n_index_pointer_nwd_new [simp]: "n_index_pointer (nwd_new p d ls) = p"
  by (simp add: nwd_new_def)

lemma nwd_of_lsn_pointer [simp]: "n_index_pointer (nwd_of_lsn e) = lsn_index_pointer e"
  by (simp add: nwd_of_lsn_def)

lemma visit_closest_fuel [no_fuel]: "visit_closest n l \<noteq> Inl OutOfFuel"
  unfolding visit_closest_def Let_def by (intro no_fuel)

lemma get_lsn_by_idx_fuel [no_fuel]: "get_lsn_by_idx l i \<noteq> Inl OutOfFuel"
  unfolding get_lsn_by_idx_def by (intro no_fuel)

lemma record_visited_fuel [no_fuel]: "record_visited l i vis \<noteq> Inl OutOfFuel"
  unfolding record_visited_def by (intro no_fuel)

text \<open>A visited node that has just been taken from the candidates is not in the record yet.\<close>

lemma record_visited_facts:
  assumes vc: "visit_closest n l = Inr (Some i, l1)" and inv: "lsr_inv l" and vis: "vis_ok l vis"
    and run: "record_visited l1 i vis = Inr vis1"
  shows "vis_ok l1 vis1" "(vis1 = None) = (vis = None)"
proof -
  from visit_closest_facts [OF vc inv] obtain h where h: "i < length (visited l1)" "visited l1 ! i = h"
    "mset (visited l1) = add_mset h (mset (visited l))" and inv1: "lsr_inv l1" by auto
  have "vis_ok l1 vis1 \<and> (vis1 = None) = (vis = None)"
  proof (cases vis)
    case None
    then show ?thesis using run by (simp add: record_visited_def vis_ok_def)
  next
    case (Some vs)
    have m: "mset vs = mset (map nwd_of_lsn (visited l))" using vis Some by (simp add: vis_ok_def)
    have "distinct (ptrs (visited l1))" using inv1 by (simp add: lsr_inv_def)
    moreover have "mset (ptrs (visited l1)) = mset (lsn_index_pointer h # ptrs (visited l))" using h(3) by simp
    ultimately have "lsn_index_pointer h \<notin> set (ptrs (visited l))"
      by (metis distinct.simps(2) mset_eq_imp_distinct_iff)
    moreover have "set vs = nwd_of_lsn ` set (visited l)" using m by (metis list.set_map mset_eq_setD)
    ultimately have "\<not> list_ex (nwd_eq (nwd_of_lsn h)) vs"
      by (auto simp: list_ex_iff nwd_eq_def)
    then have "vis1 = Some (vs @ [nwd_of_lsn h])"
      using run Some h(1,2) by (simp add: record_visited_def get_lsn_by_idx_def visited_insert_def nwd_of_lsn_def Let_def)
    then show ?thesis using m h(3) Some by (simp add: vis_ok_def)
  qed
  then show "vis_ok l1 vis1" "(vis1 = None) = (vis = None)" by blast+
qed

context search_storage
begin

section \<open>Searching\<close>

text \<open>
  The state of a search: every node met has a valid pointer and, on the disk store, every neighbour
  of every visited node has been met.
\<close>

definition closed :: "'n relation \<Rightarrow> ('q, 'pd) lsr \<Rightarrow> bool" where
  "closed rel l \<longleftrightarrow> (\<forall>x \<in> set (visited l). \<exists>ns. adj rel (lsn_index_pointer x) = Some ns \<and> set ns \<subseteq> inserted l)"

definition search_state :: "neighbor_store \<Rightarrow> 'n world \<Rightarrow> ('q, 'pd) lsr \<Rightarrow> neighbor_with_distance list option \<Rightarrow> bool" where
  "search_state g w l vis \<longleftrightarrow>
     winv w \<and> gns_ok g \<and> lsr_inv l \<and> vis_ok l vis \<and> lsr_all (lsn_ok g (w_rel w)) l \<and>
     (g = DiskStore \<longrightarrow> closed (w_rel w) l)"

text \<open>The start of a search: the entry points are its candidates.\<close>

lemma create_split:
  assumes run: "rbind (s_create_lsn S lops l ip g w) (\<lambda>(n, l, gns, w).
        case n of None \<Rightarrow> Inr (l, gns, w)
        | Some n \<Rightarrow> (case insert_neighbor n l w of (l, w) \<Rightarrow> Inr (l, gns, w))) = Inr (l', g', w')"
  obtains n l1 w1 where "s_create_lsn S lops l ip g w = Inr (n, l1, g', w1)"
    "(case n of None \<Rightarrow> (l1, w1) | Some m \<Rightarrow> insert_neighbor m l1 w1) = (l', w')"
proof -
  obtain n l1 g1 w1 where c: "s_create_lsn S lops l ip g w = Inr (n, l1, g1, w1)"
    and rest: "(case n of None \<Rightarrow> Inr (l1, g1, w1)
        | Some n \<Rightarrow> (case insert_neighbor n l1 w1 of (l, w) \<Rightarrow> Inr (l, g1, w))) = (Inr (l', g', w') :: _ res)"
    using run by auto
  then show ?thesis using that [of n l1 w1] by (simp split: option.splits prod.splits)
qed

lemma create_step:
  assumes w: "winv w" "gns_ok g" "lsr_inv l" "lsr_all (lsn_ok g (w_rel w)) l" "visited l = []"
    and ip: "block_number ip \<noteq> InvalidBlockNumber"
    and run: "rbind (s_create_lsn S lops l ip g w) (\<lambda>(n, l, gns, w).
        case n of None \<Rightarrow> Inr (l, gns, w)
        | Some n \<Rightarrow> (case insert_neighbor n l w of (l, w) \<Rightarrow> Inr (l, gns, w))) = Inr (l', g', w')"
  shows "winv w' \<and> store_kept g w g' w' \<and> lsr_inv l' \<and> lsr_all (lsn_ok g' (w_rel w')) l' \<and> visited l' = [] \<and>
    sdm l' = sdm l \<and> tie_break_item_pointer l' = tie_break_item_pointer l"
proof -
  obtain n l1 w1 where c: "s_create_lsn S lops l ip g w = Inr (n, l1, g', w1)"
    and s: "(case n of None \<Rightarrow> (l1, w1) | Some m \<Rightarrow> insert_neighbor m l1 w1) = (l', w')"
    using create_split [OF run] by blast
  note cf = create_lsn [OF w(1,2) c]
  have w': "winv w'" "store_kept g w g' w'" "w_rel w' = w_rel w1"
    using cf s by (auto simp: insert_neighbor_def winv_count split: option.splits)
  have ok: "lsr_all (lsn_ok g' (w_rel w')) l"
    using w(4) lsn_ok_kept [OF w'(2)] by simp
  have "lsr_step UNIV l l' \<and> lsr_all (lsn_ok g' (w_rel w')) l'"
  proof (cases n)
    case None
    then have "l1 = l'" "prepare_insert l ip = (False, l1)" using cf s by simp_all
    then show ?thesis using ok lsr_step_record [of l ip False l1 UNIV] lsr_all_prepare [of l ip False l1] by simp
  next
    case (Some m)
    then have i: "insert_neighbor m l1 w1 = (l', w')" using s by simp
    then show ?thesis
      using cf Some ok ip w'(3) lsr_step_insert [of l ip l1 UNIV m w1 l' w'] lsr_all_insert [OF i]
        lsr_all_prepare [of l ip True l1] by simp
  qed
  then show ?thesis using w w' by (auto simp: lsr_step_def)
qed

lemma lsr_new_facts:
  assumes run: "lsr_new S lops sn q tie g w = Inr (l, g', w')" and w: "winv w" "gns_ok g"
    and sn: "\<forall>ip \<in> set sn. block_number ip \<noteq> InvalidBlockNumber"
  shows "search_state g' w' l (Some []) \<and> search_state g' w' l None \<and> store_kept g w g' w' \<and> sdm l = Some q \<and>
    tie_break_item_pointer l = tie \<and> visited l = []"
proof -
  let ?I = "\<lambda>(l, g', w'). winv w' \<and> store_kept g w g' w' \<and> lsr_inv l \<and> lsr_all (lsn_ok g' (w_rel w')) l \<and>
    visited l = [] \<and> sdm l = Some q \<and> tie_break_item_pointer l = tie"
  have "?I (l, g', w')"
  proof (rule rfold_invariant [OF run [unfolded lsr_new_def]])
    show "?I (lsr_empty\<lparr>sdm := Some q, tie_break_item_pointer := tie\<rparr>, g, count record_call w)"
      using w by (simp add: lsr_inv_def lsr_empty_def heap_inv_def winv_count lsr_all_def)
    fix ip s s'
    assume ip: "ip \<in> set sn" and I: "?I s" and step: "(\<lambda>(l, gns, w).
        rbind (s_create_lsn S lops l ip gns w) (\<lambda>(n, l, gns, w).
        case n of None \<Rightarrow> Inr (l, gns, w)
        | Some n \<Rightarrow> (case insert_neighbor n l w of (l, w) \<Rightarrow> Inr (l, gns, w)))) s = Inr s'"
    obtain l0 g0 w0 where s: "s = (l0, g0, w0)" by (cases s)
    obtain l2 g2 w2 where s2: "s' = (l2, g2, w2)" by (cases s')
    have "gns_ok g0" "lsr_inv l0" "winv w0" "lsr_all (lsn_ok g0 (w_rel w0)) l0" "visited l0 = []"
      and k: "store_kept g w g0 w0"
      using I s store_kept_gns_ok by auto
    from create_step [OF this(3,1,2,4,5) _ step [unfolded s s2 case_prod_conv]] ip sn
    show "?I s'" using I store_kept_trans [OF k] unfolding s s2 by auto
  qed
  then show ?thesis
    using store_kept_gns_ok by (auto simp: search_state_def vis_ok_def closed_def)
qed

lemma lsr_new_fuel:
  assumes "winv w" "gns_ok g"
  shows "lsr_new S lops sn q tie g w \<noteq> Inl OutOfFuel"
proof -
  have "rfold (\<lambda>ip (l, gns, w).
        rbind (s_create_lsn S lops l ip gns w) (\<lambda>(n, l, gns, w).
        case n of None \<Rightarrow> Inr (l, gns, w)
        | Some n \<Rightarrow> (case insert_neighbor n l w of (l, w) \<Rightarrow> Inr (l, gns, w)))) ips (l, g, w) \<noteq> Inl OutOfFuel"
    if "winv w" "gns_ok g" for ips l g w
    using that
  proof (induction ips arbitrary: l g w)
    case (Cons ip ips)
    show ?case
    proof (cases "s_create_lsn S lops l ip g w")
      case (Inl e)
      then show ?thesis using create_lsn_fuel [OF Cons.prems] by (auto simp: rbind_def)
    next
      case (Inr r)
      obtain n l1 g1 w1 where r: "r = (n, l1, g1, w1)" by (cases r)
      have "winv w1" "gns_ok g1" using create_lsn [OF Cons.prems Inr [unfolded r]] store_kept_gns_ok by auto
      then show ?thesis
        using Inr r Cons.IH by (auto simp: insert_neighbor_def winv_count split: option.splits)
    qed
  qed simp
  then show ?thesis unfolding lsr_new_def using assms by (simp add: winv_count)
qed

text \<open>One round of the loop.\<close>

lemma visit_round:
  assumes st: "search_state g w l vis" and vc: "visit_closest n l = Inr (Some i, l1)"
    and rv: "record_visited l1 i vis = Inr vis2"
    and vl: "s_visit_lsn S lops l1 i g nf (count record_visit w) = Inr (l2, g2, w2)"
  shows "search_state g2 w2 l2 vis2 \<and> store_kept g w g2 w2 \<and> (vis2 = None) = (vis = None) \<and>
    search_measure UNIV l2 < search_measure UNIV l \<and> inserted l \<subseteq> inserted l2 \<and>
    mset (visited l) \<subseteq># mset (visited l2)"
proof -
  have pre: "lsr_inv l" "vis_ok l vis" "winv (count record_visit w)" "gns_ok g"
    "lsr_all (lsn_ok g (w_rel w)) l" "g = DiskStore \<longrightarrow> closed (w_rel w) l"
    using st by (auto simp: search_state_def winv_count)
  from visit_closest_facts [OF vc pre(1)] obtain h where h: "lsr_inv l1" "inserted l1 = inserted l"
    "h \<in> set (candidates l)" "i < length (visited l1)" "visited l1 ! i = h"
    "mset (visited l1) = add_mset h (mset (visited l))" "mset (candidates l) = add_mset h (mset (candidates l1))"
    by auto
  note rf = record_visited_facts [OF vc pre(1,2) rv]
  note lf = visit_lsn [OF pre(3,4) vl]
  have inv2: "lsr_inv l2" "visited l2 = visited l1" "inserted l \<subseteq> inserted l2"
    using lf h(1,2) by (auto simp: lsr_step_def)
  have k: "store_kept g w g2 w2" using lf by simp
  have "length (candidates l) = Suc (length (candidates l1))"
    using arg_cong [OF h(7), of size] by simp
  then have "search_measure UNIV l1 < search_measure UNIV l" by (simp add: search_measure_def h(2))
  then have m: "search_measure UNIV l2 < search_measure UNIV l"
    using lsr_step_measure [OF finite_item_pointer, of l1 l2] lf by simp
  have vset: "set (visited l1) = insert h (set (visited l))"
    using h(6) by (metis set_mset_add_mset_insert set_mset_mset)
  have cset: "set (candidates l) = insert h (set (candidates l1))"
    using h(7) by (metis set_mset_add_mset_insert set_mset_mset)
  have "lsr_all (lsn_ok g (w_rel w)) l1" using pre(5) vset cset by (auto simp: lsr_all_def)
  then have ok: "lsr_all (lsn_ok g (w_rel (count record_visit w))) l1" by simp
  note lo = visit_lsn_ok [OF pre(3,4) vl ok h(4)]
  have "closed (w_rel w2) l2" if "g2 = DiskStore"
  proof -
    have d: "g = DiskStore" "w_rel w2 = w_rel w" using that k by (auto simp: store_kept_def same_disk_def)
    then have "\<exists>ns. adj (w_rel w) (lsn_index_pointer h) = Some ns \<and> set ns \<subseteq> inserted l2"
      using lo h(5) by simp
    then show ?thesis
      using pre(6) d inv2(3) unfolding closed_def inv2(2) vset by (auto dest: order_trans)
  qed
  then have "search_state g2 w2 l2 vis2"
    using lf lo rf inv2 k store_kept_gns_ok by (auto simp: search_state_def vis_ok_def split: option.splits)
  moreover have "mset (visited l) \<subseteq># mset (visited l2)" unfolding inv2(2) h(6) by simp
  ultimately show ?thesis using k m rf(2) inv2(3) by blast
qed

text \<open>
  The loop returns, for every visited node uses up a candidate and a pointer is a candidate only
  once. When it does not fail, the frontier is explored.
\<close>

lemma greedy_search_loop_facts:
  assumes "search_state g w l vis"
  shows "\<exists>r. greedy_search_loop S lops n nf l vis g w = Some r \<and> r \<noteq> Inl OutOfFuel \<and>
     (\<forall>l' vis' g' w'. r = Inr (l', vis', g', w') \<longrightarrow>
        search_state g' w' l' vis' \<and> store_kept g w g' w' \<and> frontier_done n l' \<and> (vis' = None) = (vis = None) \<and>
        inserted l \<subseteq> inserted l' \<and> mset (visited l) \<subseteq># mset (visited l'))"
  using assms
proof (induction "search_measure UNIV l" arbitrary: l vis g w rule: less_induct)
  case less
  note unfold = greedy_search_loop.simps [of S lops n nf l vis g w]
  have pre: "lsr_inv l" "winv w" "gns_ok g" using less.prems by (auto simp: search_state_def)
  show ?case
  proof (cases "visit_closest n l")
    case (Inl e)
    then show ?thesis using unfold visit_closest_fuel [of n l] by auto
  next
    case (Inr r)
    obtain x l1 where r: "r = (x, l1)" by (cases r)
    note vf = visit_closest_facts [OF Inr [unfolded r] pre(1)]
    show ?thesis
    proof (cases x)
      case None
      then show ?thesis
        using unfold Inr r vf less.prems pre by (auto simp: frontier_done_def)
    next
      case (Some i)
      let ?step = "rbind (record_visited l1 i vis) (\<lambda>vis.
                rbind (s_visit_lsn S lops l1 i g nf (count record_visit w)) (\<lambda>(l, gns, w). Inr (l, vis, gns, w)))"
      have loop: "greedy_search_loop S lops n nf l vis g w =
          (case ?step of Inl e \<Rightarrow> Some (Inl e)
           | Inr (l, vis, gns, w) \<Rightarrow> greedy_search_loop S lops n nf l vis gns w)"
        using unfold Inr r Some by simp
      have nof: "?step \<noteq> Inl OutOfFuel"
        by (intro no_fuel visit_lsn_fuel) (use pre in \<open>simp_all add: winv_count\<close>)
      show ?thesis
      proof (cases ?step)
        case (Inl e)
        then show ?thesis using loop nof by auto
      next
        case (Inr t)
        obtain l2 vis2 g2 w2 where t: "t = (l2, vis2, g2, w2)" by (cases t)
        have "record_visited l1 i vis = Inr vis2" "s_visit_lsn S lops l1 i g nf (count record_visit w) = Inr (l2, g2, w2)"
          using Inr t by auto
        note round = visit_round [OF less.prems \<open>visit_closest n l = Inr r\<close> [unfolded r Some] this]
        from less.hyps [of l2 g2 w2 vis2] round obtain r where
          ih: "greedy_search_loop S lops n nf l2 vis2 g2 w2 = Some r" "r \<noteq> Inl OutOfFuel"
          "\<forall>l' vis' g' w'. r = Inr (l', vis', g', w') \<longrightarrow>
             search_state g' w' l' vis' \<and> store_kept g2 w2 g' w' \<and> frontier_done n l' \<and> (vis' = None) = (vis2 = None) \<and>
             inserted l2 \<subseteq> inserted l' \<and> mset (visited l2) \<subseteq># mset (visited l')"
          by blast
        have "greedy_search_loop S lops n nf l vis g w = Some r" using loop Inr t ih(1) by simp
        moreover have "search_state g' w' l' vis' \<and> store_kept g w g' w' \<and> frontier_done n l' \<and> (vis' = None) = (vis = None) \<and>
          inserted l \<subseteq> inserted l' \<and> mset (visited l) \<subseteq># mset (visited l')" if "r = Inr (l', vis', g', w')" for l' vis' g' w'
        proof -
          note i = ih(3) [rule_format, OF that]
          have "store_kept g w g' w'" using store_kept_trans i round by blast
          moreover have "mset (visited l) \<subseteq># mset (visited l')" using subset_mset.order_trans i round by blast
          moreover have "inserted l \<subseteq> inserted l'" using order_trans i round by blast
          ultimately show ?thesis using i round by simp
        qed
        ultimately show ?thesis using ih(2) by blast
      qed
    qed
  qed
qed

lemma greedy_search_iterate_facts:
  assumes run: "greedy_search_iterate S lops n nf l vis g w = Inr (l', vis', g', w')"
    and pre: "search_state g w l vis"
  shows "search_state g' w' l' vis' \<and> store_kept g w g' w' \<and> frontier_done n l' \<and> (vis' = None) = (vis = None) \<and>
        inserted l \<subseteq> inserted l' \<and> mset (visited l) \<subseteq># mset (visited l')"
  using greedy_search_loop_facts [OF pre, of n nf] run by (auto simp: greedy_search_iterate_def returned_def)

lemma greedy_search_iterate_fuel:
  "search_state g w l vis \<Longrightarrow> greedy_search_iterate S lops n nf l vis g w \<noteq> Inl OutOfFuel"
  using greedy_search_loop_facts [of g w l vis n nf] by (auto simp: greedy_search_iterate_def returned_def)

text \<open>What every round keeps, a search keeps; in particular what visiting keeps of all nodes met.\<close>

lemma greedy_search_loop_invariant:
  assumes round: "\<And>l i l1 vis vis2 g w l2 g2 w2. search_state g w l vis \<Longrightarrow> visit_closest n l = Inr (Some i, l1) \<Longrightarrow>
      record_visited l1 i vis = Inr vis2 \<Longrightarrow> s_visit_lsn S lops l1 i g nf (count record_visit w) = Inr (l2, g2, w2) \<Longrightarrow>
      P g w l \<Longrightarrow> P g2 w2 l2"
  shows "greedy_search_loop S lops n nf l vis g w = Some (Inr (l', vis', g', w')) \<Longrightarrow> search_state g w l vis \<Longrightarrow>
    P g w l \<Longrightarrow> P g' w' l'"
proof (induction "search_measure UNIV l" arbitrary: l vis g w rule: less_induct)
  case less
  have pre: "lsr_inv l" using less.prems(2) by (auto simp: search_state_def)
  note run = less.prems(1) [unfolded greedy_search_loop.simps [of S lops n nf l vis g w]]
  from run obtain x l1 where vc: "visit_closest n l = Inr (x, l1)" by (cases "visit_closest n l") auto
  show ?case
  proof (cases x)
    case None
    then show ?thesis using run vc visit_closest_facts [OF vc pre] less.prems(3) by auto
  next
    case (Some i)
    then obtain vis2 l2 g2 w2 where rv: "record_visited l1 i vis = Inr vis2"
      and vl: "s_visit_lsn S lops l1 i g nf (count record_visit w) = Inr (l2, g2, w2)"
      and rest: "greedy_search_loop S lops n nf l2 vis2 g2 w2 = Some (Inr (l', vis', g', w'))"
      using run vc by (auto simp: rbind_def split: sum.splits)
    note vc = vc [unfolded Some]
    show ?thesis
      using less.hyps [OF _ rest] visit_round [OF less.prems(2) vc rv vl] round [OF less.prems(2) vc rv vl less.prems(3)]
      by blast
  qed
qed

text \<open>What the visit of the closest candidate does to the nodes that wait and those visited.\<close>

lemma visit_closest_sets:
  assumes "visit_closest n l = Inr (Some i, l1)" "lsr_inv l"
  obtains h where "set (visited l1) = insert h (set (visited l))" "set (candidates l) = insert h (set (candidates l1))"
    "i < length (visited l1)" "visited l1 ! i = h" "inserted l1 = inserted l" "sdm l1 = sdm l" "lsr_inv l1"
proof -
  from visit_closest_facts [OF assms] obtain h where h: "mset (visited l1) = add_mset h (mset (visited l))"
    "mset (candidates l) = add_mset h (mset (candidates l1))" "i < length (visited l1)" "visited l1 ! i = h"
    "inserted l1 = inserted l" "sdm l1 = sdm l" "lsr_inv l1" by auto
  from h(1,2) have "set (visited l1) = insert h (set (visited l))" "set (candidates l) = insert h (set (candidates l1))"
    by (metis set_mset_add_mset_insert set_mset_mset)+
  then show ?thesis using that h by blast
qed

lemma greedy_search_loop_keeps:
  assumes visit: "\<And>l i g w l' g' w'. winv w \<Longrightarrow> gns_ok g \<Longrightarrow> s_visit_lsn S lops l i g nf w = Inr (l', g', w') \<Longrightarrow>
      sdm l = Some q \<Longrightarrow> lsr_all P l \<Longrightarrow> lsr_all P l'"
    and run: "greedy_search_loop S lops n nf l vis g w = Some (Inr (l', vis', g', w'))" "search_state g w l vis"
    and l: "sdm l = Some q" "lsr_all P l"
  shows "lsr_all P l'"
proof -
  have "sdm l' = Some q \<and> lsr_all P l'"
  proof (rule greedy_search_loop_invariant [OF _ run, where P = "\<lambda>g w l. sdm l = Some q \<and> lsr_all P l"])
    fix l i l1 vis vis2 g w l2 g2 w2
    assume st: "search_state g w l vis" and vc: "visit_closest n l = Inr (Some i, l1)"
      and vl: "s_visit_lsn S lops l1 i g nf (count record_visit w) = Inr (l2, g2, w2)"
      and P: "sdm l = Some q \<and> lsr_all P l"
    have pre: "lsr_inv l" "winv (count record_visit w)" "gns_ok g" using st by (auto simp: search_state_def winv_count)
    obtain h where "set (visited l1) = insert h (set (visited l))" "set (candidates l) = insert h (set (candidates l1))"
      and sd: "sdm l1 = sdm l" using visit_closest_sets [OF vc pre(1)] by blast
    then have "lsr_all P l1" using P by (auto simp: lsr_all_def)
    moreover have "sdm l1 = Some q" using sd P by simp
    ultimately show "sdm l2 = Some q \<and> lsr_all P l2"
      using visit [OF pre(2,3) vl] visit_lsn [OF pre(2,3) vl] by (simp add: lsr_step_def)
  qed (use l in simp)
  then show ?thesis by blast
qed

end

end
