(* ===== verification/Graph_Insert.thy ===== *)
theory Graph_Insert
  imports Graph_Facts Publication
begin

text \<open>
  What an insertion promises over any storage that satisfies \<open>search_storage\<close>: it returns, keeps the
  graph well formed, and changes the adjacency of the new node and of the neighbours it was given,
  and of no other. The entry points are merged into those that are on disk when the lock is held.
\<close>

definition entry_points_ok :: "meta_page \<Rightarrow> bool" where
  "entry_points_ok m \<longleftrightarrow>
     (case m_start_nodes m of
        None \<Rightarrow> True
      | Some s \<Rightarrow> (\<forall>p \<in> set (get_all_nodes s). block_number p \<noteq> InvalidBlockNumber))"

definition graph_ok :: "graph \<Rightarrow> bool" where
  "graph_ok gr \<longleftrightarrow>
     gns_ok (g_store gr) \<and> entry_points_ok (g_meta gr) \<and> f64_le (m_max_alpha (g_meta gr)) 0x4014000000000000"

lemma get_for_node_sub: "set (get_for_node s ls) \<subseteq> set (get_all_nodes s)"
  by (cases ls) (auto simp: get_for_node_def get_all_nodes_def set_map_filter dest!: bt_get_in_set)

lemma entry_points_valid:
  "entry_points_ok m \<Longrightarrow> m_start_nodes m = Some s \<Longrightarrow> \<forall>p \<in> set (get_for_node s ls). block_number p \<noteq> InvalidBlockNumber"
  using get_for_node_sub by (fastforce simp: entry_points_ok_def)

lemma valid_ptrs_sub: "n_index_pointer ` set ns \<subseteq> A \<Longrightarrow> \<forall>p \<in> A. block_number p \<noteq> InvalidBlockNumber \<Longrightarrow> valid_ptrs ns"
  by (auto simp: valid_ptrs_def)

context search_storage
begin

text \<open>What every step of an insertion keeps.\<close>

definition graph_kept :: "graph \<Rightarrow> graph \<Rightarrow> 'n world \<Rightarrow> bool" where
  "graph_kept gr gr' w' \<longleftrightarrow>
     winv w' \<and> graph_ok gr' \<and> g_meta gr' = g_meta gr \<and> (g_store gr' = DiskStore \<longleftrightarrow> g_store gr = DiskStore)"

lemma graph_kept_trans: "graph_kept gr gr1 w1 \<Longrightarrow> graph_kept gr1 gr2 w2 \<Longrightarrow> graph_kept gr gr2 w2"
  by (simp add: graph_kept_def)

section \<open>The search of an insertion\<close>

lemma build_search_facts:
  assumes run: "greedy_search_for_build S lops gr ip query nf w = Inr (vs, gr', w')"
    and w: "winv w" and gr: "graph_ok gr"
  shows "graph_kept gr gr' w' \<and> (g_store gr = DiskStore \<longrightarrow> same_disk w w') \<and>
    distinct (map n_index_pointer vs) \<and> valid_ptrs vs"
proof (cases "m_start_nodes (g_meta gr)")
  case None
  then show ?thesis
    using run w gr by (simp add: greedy_search_for_build_def graph_kept_def valid_ptrs_def)
next
  case (Some s)
  let ?sn = "if nf then get_for_node s None else get_for_node s (lv_labels query)"
  obtain dm l g1 w1 l' vis g2 where
    new: "lsr_new S lops ?sn dm (Some ip) (g_store gr) w = Inr (l, g1, w1)"
    and it: "greedy_search_iterate S lops (unat (m_search_list_size (g_meta gr))) nf l (Some []) g1 w1 = Inr (l', vis, g2, w')"
    and r: "vs = (case vis of None \<Rightarrow> [] | Some vs \<Rightarrow> vs)" "gr' = gr\<lparr>g_store := g2\<rparr>"
    using run Some by (auto simp: greedy_search_for_build_def Let_def)
  have g: "gns_ok (g_store gr)" and e: "entry_points_ok (g_meta gr)" using gr by (auto simp: graph_ok_def)
  have "\<forall>p \<in> set ?sn. block_number p \<noteq> InvalidBlockNumber" using entry_points_valid [OF e Some] by simp
  note nf = lsr_new_facts [OF new w g this]
  then have st: "search_state g1 w1 l (Some [])" by blast
  note sf = greedy_search_iterate_facts [OF it st]
  obtain vs' where vis: "vis = Some vs'" using sf by auto
  have f: "lsr_inv l'" "mset vs = mset (map nwd_of_lsn (visited l'))" "lsr_all (lsn_ok g2 (w_rel w')) l'" "winv w'"
    using sf r(1) vis by (auto simp: search_state_def vis_ok_def)
  have k: "store_kept (g_store gr) w g2 w'" using nf sf store_kept_trans by blast
  have "mset (map n_index_pointer vs) = mset (ptrs (visited l'))"
    using arg_cong [OF f(2), of "image_mset n_index_pointer"] by (simp add: multiset.map_comp comp_def)
  moreover have "distinct (ptrs (visited l'))" using f(1) by (simp add: lsr_inv_def)
  ultimately have d: "distinct (map n_index_pointer vs)" by (metis mset_eq_imp_distinct_iff)
  have "set vs = nwd_of_lsn ` set (visited l')" using f(2) by (metis list.set_map mset_eq_setD)
  moreover have "block_number (lsn_index_pointer x) \<noteq> InvalidBlockNumber" if "x \<in> set (visited l')" for x
    using f(3) that lsn_ok_valid [of g2 "w_rel w'" x] by (simp add: lsr_all_def)
  ultimately have "valid_ptrs vs" by (auto simp: valid_ptrs_def)
  then show ?thesis
    using f(4) d k r(2) gr by (auto simp: graph_kept_def graph_ok_def store_kept_def)
qed

lemma build_search_fuel:
  assumes w: "winv w" and gr: "graph_ok gr"
  shows "greedy_search_for_build S lops gr ip query nf w \<noteq> Inl OutOfFuel"
proof (cases "m_start_nodes (g_meta gr)")
  case (Some s)
  let ?sn = "if nf then get_for_node s None else get_for_node s (lv_labels query)"
  have g: "gns_ok (g_store gr)" and e: "entry_points_ok (g_meta gr)" using gr by (auto simp: graph_ok_def)
  have sn: "\<forall>p \<in> set ?sn. block_number p \<noteq> InvalidBlockNumber" using entry_points_valid [OF e Some] by simp
  have it: "greedy_search_iterate S lops n nf l (Some []) g1 w1 \<noteq> Inl OutOfFuel"
    if "lsr_new S lops ?sn dm (Some ip) (g_store gr) w = Inr (l, g1, w1)" for n dm l g1 w1
    using greedy_search_iterate_fuel lsr_new_facts [OF that w g sn] by blast
  show ?thesis
    unfolding greedy_search_for_build_def Some option.case Let_def
    by (intro no_fuel query_dm_fuel lsr_new_fuel w g it) (simp only:)
qed (simp add: greedy_search_for_build_def)

section \<open>Neighbours of one node\<close>

lemma merged_valid:
  assumes "merged D mode ls a p added num pr old ns" "adj r p = Some old" "valid_ptrs added"
  shows "valid_ptrs ns" "p \<notin> n_index_pointer ` set ns" "distinct (map n_index_pointer ns)"
proof -
  note sub = merged_keys [OF assms(1)]
  show "valid_ptrs ns"
    by (rule valid_ptrs_sub [OF sub(1)]) (use adj_valid [OF assms(2)] assms(3) in \<open>auto simp: valid_ptrs_def\<close>)
  show "p \<notin> n_index_pointer ` set ns" "distinct (map n_index_pointer ns)"
    using sub by auto
qed

lemma prune_valid:
  assumes "prune_neighbors (s_disk S) a num ls cs w = Inr (ns, w')" "winv w" "f64_lt a f64_max_value"
    and "valid_ptrs cs" "distinct (map n_index_pointer cs)" "p \<notin> n_index_pointer ` set cs"
  shows "winv w' \<and> valid_ptrs ns \<and> distinct (map n_index_pointer ns) \<and> p \<notin> n_index_pointer ` set ns"
proof -
  note pf = prune_neighbors_facts [OF assms(1-3)]
  have m: "mset ns \<subseteq># mset cs" using pf(3) by (simp add: pruned_to_def)
  have "mset (map n_index_pointer ns) \<subseteq># mset (map n_index_pointer cs)"
    using image_mset_subseteq_mono [OF m] by simp
  then have "distinct (map n_index_pointer ns)" using assms(5) by (rule distinct_sub_mset)
  moreover have "set ns \<subseteq> set cs" using set_mset_mono [OF m] by simp
  ultimately show ?thesis using pf(1) assms(4,6) by (auto simp: valid_ptrs_def)
qed

lemma add_neighbors_facts:
  assumes run: "add_neighbors S lops gr p ls added w = Inr ((pr, ns), gr', w')"
    and w: "winv w" and gr: "graph_ok gr" and v: "valid_ptrs added"
  shows "graph_kept gr gr' w' \<and> valid_ptrs ns \<and> distinct (map n_index_pointer ns) \<and> p \<notin> n_index_pointer ` set ns"
proof (cases "g_store gr")
  case DiskStore
  have al: "f64_lt (m_max_alpha (g_meta gr)) f64_max_value" using gr max_alpha_finite by (simp add: graph_ok_def)
  from run DiskStore have m: "merge_neighbors_on_disk (s_disk S) p ls added (m_max_alpha (g_meta gr))
      (unat (m_num_neighbors (g_meta gr))) MergeDisk w = Inr ((pr, ns), w')" and e: "gr' = gr"
    by (auto simp: add_neighbors_def Let_def)
  from merge_facts(2) [OF m w v al] obtain r old where
    ro: "adj r p = Some old" "merged (dist_at (w_rel w')) MergeDisk ls (m_max_alpha (g_meta gr)) p added
      (unat (m_num_neighbors (g_meta gr))) pr old ns"
    unfolding Let_def by blast
  show ?thesis
    using merged_valid [OF ro(2,1) v] merge_facts(1) [OF m w v al] gr by (simp add: e graph_kept_def)
next
  case (BuilderStore b)
  have b: "builder_ok b" and al: "f64_lt (m_max_alpha (g_meta gr)) f64_max_value"
    using gr BuilderStore max_alpha_finite by (auto simp: graph_ok_def gns_ok_def)
  let ?num = "unat (m_num_neighbors (g_meta gr))"
  obtain ls' w1 cands b1 w2 w3 b2 where
    l: "(case ls of Some l \<Rightarrow> Inr (Some l, w) | None \<Rightarrow> st_get_labels (s_disk S) p w) = Inr (ls', w1)"
    and c: "builder_get_neighbors_with_distances lops (s_disk S) b p w1 = Inr (cands, b1, w2)"
    and ch: "(let cs = retain_unseen n_index_pointer {p} (cands @ added) in
        if length cs > gns_max_neighbors (g_store gr) (get_max_neighbors_during_build (g_meta gr)) ?num then
          rbind (prune_neighbors (s_disk S) (m_max_alpha (g_meta gr)) ?num ls' cs w2) (\<lambda>(n, w). Inr (True, n, w))
        else Inr (False, cs, w2)) = Inr (pr, ns, w3)"
    and s: "builder_set_neighbors lops (s_disk S) b1 p ls' ns w3 = Inr (b2, w')" and e: "gr' = gr\<lparr>g_store := BuilderStore b2\<rparr>"
    using run BuilderStore by (auto simp: add_neighbors_def Let_def)
  have w1: "winv w1" using l w get_labels by (auto split: option.splits)
  note gf = builder_get_facts [OF c b w1]
  let ?cs = "retain_unseen n_index_pointer {p} (cands @ added)"
  have cs: "valid_ptrs ?cs" "distinct (map n_index_pointer ?cs)" "p \<notin> n_index_pointer ` set ?cs"
    using retain_unseen_subset [of n_index_pointer "{p}" "cands @ added"] gf v
      retain_unseen_distinct retain_unseen_keys [of n_index_pointer "{p}" "cands @ added"]
    by (auto simp: valid_ptrs_def simp del: set_map)
  have ns: "winv w3 \<and> valid_ptrs ns \<and> distinct (map n_index_pointer ns) \<and> p \<notin> n_index_pointer ` set ns"
  proof (cases "length ?cs > gns_max_neighbors (g_store gr) (get_max_neighbors_during_build (g_meta gr)) ?num")
    case True
    then have "prune_neighbors (s_disk S) (m_max_alpha (g_meta gr)) ?num ls' ?cs w2 = Inr (ns, w3)"
      using ch by (simp add: Let_def del: split_paired_All)
    then show ?thesis using prune_valid [OF _ _ al cs] gf by blast
  next
    case False
    then have "ns = ?cs" "w3 = w2" using ch by (simp_all add: Let_def)
    then show ?thesis using cs gf by simp
  qed
  have "builder_ok b2 \<and> winv w'" using builder_set_facts(1) [OF s] gf ns by blast
  then show ?thesis using ns gr by (simp add: e graph_kept_def graph_ok_def gns_ok_def BuilderStore)
qed

lemma add_neighbors_fuel:
  assumes w: "winv w" and gr: "graph_ok gr" and v: "valid_ptrs added"
  shows "add_neighbors S lops gr p ls added w \<noteq> Inl OutOfFuel"
proof (cases "g_store gr")
  case DiskStore
  have al: "f64_le (m_max_alpha (g_meta gr)) 0x4014000000000000" using gr by (simp add: graph_ok_def)
  show ?thesis
    unfolding add_neighbors_def DiskStore neighbor_store.case Let_def
    by (intro no_fuel merge_fuel [OF al max_alpha_finite [OF al] v w])
next
  case (BuilderStore b)
  have b: "builder_ok b" and al: "f64_le (m_max_alpha (g_meta gr)) 0x4014000000000000"
    using gr BuilderStore by (auto simp: graph_ok_def gns_ok_def)
  have lab: "(case ls of Some l \<Rightarrow> Inr (Some l, w) | None \<Rightarrow> st_get_labels (s_disk S) p w) \<noteq> Inl OutOfFuel"
    using get_labels_fuel by (intro no_fuel)
  have w1: "winv w1" if "(case ls of Some l \<Rightarrow> Inr (Some l, w) | None \<Rightarrow> st_get_labels (s_disk S) p w) = Inr (ls', w1)" for ls' w1
    using that w get_labels by (auto split: option.splits)
  have ch: "winv w3" if "winv w2" "(if c then
          rbind (prune_neighbors (s_disk S) (m_max_alpha (g_meta gr)) num ls' cs w2) (\<lambda>(n, w). Inr (True, n, w))
        else Inr (False, cs, w2)) = Inr (pr, ns, w3)" for c num ls' cs w2 pr ns w3
    using that prune_neighbors_facts(1) [OF _ _ max_alpha_finite [OF al]] by (auto split: if_splits)
  show ?thesis
    unfolding add_neighbors_def BuilderStore neighbor_store.case Let_def
  proof (rule rbind_fuel [OF lab], rule prod_fuel, rule rbind_fuel, goal_cases)
    case (1 x ls' w1)
    then show ?case using builder_get_fuel [OF b w1] by blast
  next
    case (2 x ls' w1 y)
    obtain cands b1 w2 where y: "y = (cands, b1, w2)" by (cases y)
    have gf: "builder_ok b1" "winv w2" using builder_get_facts [OF _ b w1] 2 y by blast+
    show ?case
      unfolding y case_prod_conv
    proof (rule rbind_fuel, goal_cases)
      case 1
      show ?case by (intro no_fuel prune_neighbors_fuel [OF al])
    next
      case (2 z)
      obtain pr ns w3 where z: "z = (pr, ns, w3)" by (cases z)
      have "winv w3" by (rule ch [OF gf(2) 2 [unfolded z]])
      then show ?case
        unfolding z case_prod_conv using gf(1) by (intro rbind_fuel builder_set_fuel no_fuel)
    qed
  qed
qed

section \<open>Back pointers\<close>

lemma back_pointer_facts:
  assumes run: "update_back_pointer S lops ip ls n (c, gr, w) = Inr (c', gr', w')"
    and w: "winv w" and gr: "graph_ok gr" and ip: "block_number ip \<noteq> InvalidBlockNumber"
  shows "graph_kept gr gr' w'"
proof -
  have "valid_ptrs [nwd_new ip (n_distance n) ls]" using ip by (simp add: valid_ptrs_def)
  then show ?thesis
    using run add_neighbors_facts [OF _ w gr] by (auto simp: update_back_pointer_def Let_def)
qed

lemma back_pointers_kept:
  assumes "rfold (update_back_pointer S lops ip ls) ns (c, gr, w) = Inr (c', gr', w')"
    and "winv w" "graph_ok gr" "block_number ip \<noteq> InvalidBlockNumber"
  shows "graph_kept gr gr' w'"
  using assms
proof (induction ns arbitrary: c gr w)
  case Nil
  then show ?case by (simp add: graph_kept_def)
next
  case (Cons n ns)
  then obtain c1 gr1 w1 where st: "update_back_pointer S lops ip ls n (c, gr, w) = Inr (c1, gr1, w1)"
    and rest: "rfold (update_back_pointer S lops ip ls) ns (c1, gr1, w1) = Inr (c', gr', w')" by auto
  note f = back_pointer_facts [OF st Cons.prems(2-4)]
  then have "winv w1" "graph_ok gr1" by (auto simp: graph_kept_def)
  from graph_kept_trans [OF f Cons.IH [OF rest this Cons.prems(4)]] show ?case .
qed

lemma back_pointers_fuel:
  "winv w \<Longrightarrow> graph_ok gr \<Longrightarrow> block_number ip \<noteq> InvalidBlockNumber \<Longrightarrow>
     rfold (update_back_pointer S lops ip ls) ns (c, gr, w) \<noteq> Inl OutOfFuel"
proof (induction ns arbitrary: c gr w)
  case (Cons n ns)
  have v: "valid_ptrs [nwd_new ip (n_distance n) ls]" using Cons.prems(3) by (simp add: valid_ptrs_def)
  have "update_back_pointer S lops ip ls n (c, gr, w) \<noteq> Inl OutOfFuel"
    unfolding update_back_pointer_def case_prod_conv Let_def
    by (intro no_fuel add_neighbors_fuel [OF Cons.prems(1,2) v])
  moreover have "rfold (update_back_pointer S lops ip ls) ns x \<noteq> Inl OutOfFuel"
    if "update_back_pointer S lops ip ls n (c, gr, w) = Inr x" for x
  proof -
    obtain c1 gr1 w1 where x: "x = (c1, gr1, w1)" by (cases x)
    have "winv w1" "graph_ok gr1" using back_pointer_facts [OF that [unfolded x] Cons.prems] by (auto simp: graph_kept_def)
    then show ?thesis unfolding x using Cons.IH Cons.prems(3) by blast
  qed
  ultimately show ?case by (simp add: rbind_fuel)
qed simp

text \<open>
  On the disk store, with no other backend at work: each of the nodes gets its adjacency merged with
  a pointer to \<open>ip\<close>, at the distance and under the labels of its own entry, and no other node changes.
\<close>

definition linked :: "item_pointer \<Rightarrow> label_set option \<Rightarrow> meta_page \<Rightarrow> neighbor_with_distance list \<Rightarrow> 'n world \<Rightarrow> 'n world
     \<Rightarrow> item_pointer \<Rightarrow> bool" where
  "linked ip ls m nl w w' q \<longleftrightarrow>
     (\<exists>n \<in> set nl. n_index_pointer n = q \<and>
       (\<exists>pr old ns. adj (w_rel w) q = Some old \<and> adj (w_rel w') q = Some (map n_index_pointer ns) \<and>
          merged (dist_at (w_rel w')) MergeDisk (n_labels n) (m_max_alpha m) q [nwd_new ip (n_distance n) ls]
            (unat (m_num_neighbors m)) pr old ns))"

lemma add_neighbors_disk:
  assumes run: "add_neighbors S lops gr p ls added w = Inr ((pr, ns), gr', w')"
    and w: "winv w" "w_others w = []" and gr: "graph_ok gr" "g_store gr = DiskStore" and v: "valid_ptrs added"
  shows "gr' = gr \<and> w_others w' = [] \<and> (\<exists>old. adj (w_rel w) p = Some old \<and> adj (w_rel w') p = Some (map n_index_pointer ns)
      \<and> merged (dist_at (w_rel w')) MergeDisk ls (m_max_alpha (g_meta gr)) p added (unat (m_num_neighbors (g_meta gr))) pr old ns)
      \<and> (\<forall>q. q \<noteq> p \<longrightarrow> adj (w_rel w') q = adj (w_rel w) q)"
    and "dist_le (dist_at (w_rel w)) (dist_at (w_rel w'))"
proof -
  have al: "f64_lt (m_max_alpha (g_meta gr)) f64_max_value" using gr max_alpha_finite by (simp add: graph_ok_def)
  from run gr(2) have m: "merge_neighbors_on_disk (s_disk S) p ls added (m_max_alpha (g_meta gr))
      (unat (m_num_neighbors (g_meta gr))) MergeDisk w = Inr ((pr, ns), w')" and e: "gr' = gr"
    by (auto simp: add_neighbors_def Let_def)
  have i: "(interfere ^^ n) w = w" for n by (induction n) (simp_all add: interfere_none w(2))
  show "gr' = gr \<and> w_others w' = [] \<and> (\<exists>old. adj (w_rel w) p = Some old \<and> adj (w_rel w') p = Some (map n_index_pointer ns)
      \<and> merged (dist_at (w_rel w')) MergeDisk ls (m_max_alpha (g_meta gr)) p added (unat (m_num_neighbors (g_meta gr))) pr old ns)
      \<and> (\<forall>q. q \<noteq> p \<longrightarrow> adj (w_rel w') q = adj (w_rel w) q)"
    using merge_facts(2) [OF m w(1) v al] e w(2) unfolding Let_def i by auto
  show "dist_le (dist_at (w_rel w)) (dist_at (w_rel w'))" by (rule merge_facts(3) [OF m w(1) v al])
qed

lemma linked_later:
  assumes "linked ip ls m nl w w1 q" "adj (w_rel w') q = adj (w_rel w1) q" "dist_le (dist_at (w_rel w1)) (dist_at (w_rel w'))"
    and "set nl \<subseteq> set nl'"
  shows "linked ip ls m nl' w w' q"
  using assms merged_mono [OF assms(3)] unfolding linked_def by (metis subsetD)

lemma back_pointers_disk:
  assumes "rfold (update_back_pointer S lops ip ls) nl (c, gr, w) = Inr (c', gr', w')"
    and "winv w" "w_others w = []" "graph_ok gr" "g_store gr = DiskStore" "block_number ip \<noteq> InvalidBlockNumber"
    and "distinct (map n_index_pointer nl)"
  shows "gr' = gr \<and> w_others w' = [] \<and> dist_le (dist_at (w_rel w)) (dist_at (w_rel w')) \<and>
    (\<forall>q. if q \<in> n_index_pointer ` set nl then linked ip ls (g_meta gr) nl w w' q else adj (w_rel w') q = adj (w_rel w) q)"
  using assms
proof (induction nl arbitrary: c w)
  case (Cons n nl)
  let ?new = "nwd_new ip (n_distance n) ls" and ?p = "n_index_pointer n" and ?m = "g_meta gr"
  obtain c1 gr1 w1 where st: "update_back_pointer S lops ip ls n (c, gr, w) = Inr (c1, gr1, w1)"
    and rest: "rfold (update_back_pointer S lops ip ls) nl (c1, gr1, w1) = Inr (c', gr', w')"
    using Cons.prems(1) by auto
  from st obtain pr ns where a: "add_neighbors S lops gr ?p (n_labels n) [?new] w = Inr ((pr, ns), gr1, w1)"
    by (auto simp: update_back_pointer_def Let_def)
  have v: "valid_ptrs [?new]" using Cons.prems(6) by (simp add: valid_ptrs_def)
  note ad = add_neighbors_disk [OF a Cons.prems(2-5) v]
  have w1: "winv w1" using add_neighbors_facts [OF a Cons.prems(2,4) v] by (simp add: graph_kept_def)
  have e: "gr1 = gr" "w_others w1 = []" using ad by auto
  have d: "?p \<notin> n_index_pointer ` set nl" "distinct (map n_index_pointer nl)" using Cons.prems(7) by auto
  note ih = Cons.IH [OF rest [unfolded e(1)] w1 e(2) Cons.prems(4-6) d(2)]
  have grow: "dist_le (dist_at (w_rel w1)) (dist_at (w_rel w'))" using ih by blast
  have lp: "linked ip ls ?m [n] w w1 ?p" unfolding linked_def using ad(1) by auto
  have "if q \<in> n_index_pointer ` set (n # nl) then linked ip ls ?m (n # nl) w w' q else adj (w_rel w') q = adj (w_rel w) q" for q
  proof -
    note iq = ih [THEN conjunct2, THEN conjunct2, THEN conjunct2, THEN spec, of q]
    have aq: "q \<noteq> ?p \<Longrightarrow> adj (w_rel w1) q = adj (w_rel w) q" using ad(1) by blast
    consider (p) "q = ?p" | (i) "q \<noteq> ?p" "q \<in> n_index_pointer ` set nl" | (o) "q \<noteq> ?p" "q \<notin> n_index_pointer ` set nl" by blast
    then show ?thesis
    proof cases
      case p
      then have "adj (w_rel w') q = adj (w_rel w1) q" using iq d(1) by simp
      then have "linked ip ls ?m (n # nl) w w' q" using linked_later [OF lp _ grow] p by simp
      then show ?thesis using p by simp
    next
      case i
      then have "linked ip ls ?m nl w1 w' q" using iq by simp
      then have "linked ip ls ?m (n # nl) w w' q" using aq [OF i(1)] unfolding linked_def by auto
      then show ?thesis using i by simp
    qed (use iq aq in simp)
  qed
  then show ?case using ih dist_le_trans [OF ad(2)] by blast
qed simp

section \<open>Insertion\<close>

lemma insert_internal_steps:
  assumes "insert_internal S lops ord gr ip vec nf w = Inr (orphan, gr', w')"
  obtains v gr1 w1 pr ns gr2 w2 cnt where
    "greedy_search_for_build S lops gr ip vec nf w = Inr (v, gr1, w1)"
    "add_neighbors S lops gr1 ip (lv_labels vec) (ord v) w1 = Inr ((pr, ns), gr2, w2)"
    "rfold (update_back_pointer S lops ip (lv_labels vec)) ns (0, gr2, w2) = Inr (cnt, gr', w')"
proof -
  obtain v gr1 w1 where 1: "greedy_search_for_build S lops gr ip vec nf w = Inr (v, gr1, w1)"
    and r1: "rbind (add_neighbors S lops gr1 ip (lv_labels vec) (ord v) w1) (\<lambda>((_, neighbor_list), gr, w).
     rbind (rfold (update_back_pointer S lops ip (lv_labels vec)) neighbor_list (0, gr, w)) (\<lambda>(cnt_contains, gr, w).
     Inr (length neighbor_list > 0 \<and> cnt_contains = 0, gr, w))) = Inr (orphan, gr', w')"
    using assms by (cases "greedy_search_for_build S lops gr ip vec nf w")
      (auto simp: insert_internal_def simp del: rbind_eq_Inr)
  obtain pr ns gr2 w2 where 2: "add_neighbors S lops gr1 ip (lv_labels vec) (ord v) w1 = Inr ((pr, ns), gr2, w2)"
    and r2: "rbind (rfold (update_back_pointer S lops ip (lv_labels vec)) ns (0, gr2, w2)) (\<lambda>(cnt_contains, gr, w).
     Inr (length ns > 0 \<and> cnt_contains = 0, gr, w)) = Inr (orphan, gr', w')"
    using r1 by (cases "add_neighbors S lops gr1 ip (lv_labels vec) (ord v) w1") (auto simp del: rbind_eq_Inr)
  show ?thesis
    using that [OF 1 2] r2 by (cases "rfold (update_back_pointer S lops ip (lv_labels vec)) ns (0, gr2, w2)") auto
qed

lemma valid_ptrs_perm: "mset ys = mset xs \<Longrightarrow> valid_ptrs ys = valid_ptrs xs"
  unfolding valid_ptrs_def by (metis mset_eq_setD)

lemma insert_internal_facts:
  assumes run: "insert_internal S lops ord gr ip vec nf w = Inr (orphan, gr', w')"
    and w: "winv w" and gr: "graph_ok gr" and ip: "block_number ip \<noteq> InvalidBlockNumber"
    and ord: "\<And>v. mset (ord v) = mset v"
  shows "graph_kept gr gr' w'"
proof -
  from insert_internal_steps [OF run] obtain v gr1 w1 pr ns gr2 w2 cnt where s:
    "greedy_search_for_build S lops gr ip vec nf w = Inr (v, gr1, w1)"
    "add_neighbors S lops gr1 ip (lv_labels vec) (ord v) w1 = Inr ((pr, ns), gr2, w2)"
    "rfold (update_back_pointer S lops ip (lv_labels vec)) ns (0, gr2, w2) = Inr (cnt, gr', w')" by blast
  note bf = build_search_facts [OF s(1) w gr]
  have 1: "winv w1" "graph_ok gr1" "valid_ptrs (ord v)" using bf valid_ptrs_perm [OF ord] by (auto simp: graph_kept_def)
  note af = add_neighbors_facts [OF s(2) 1]
  have "winv w2" "graph_ok gr2" using af by (auto simp: graph_kept_def)
  from back_pointers_kept [OF s(3) this ip] show ?thesis using bf af graph_kept_trans by blast
qed

lemma insert_internal_fuel:
  assumes w: "winv w" and gr: "graph_ok gr" and ip: "block_number ip \<noteq> InvalidBlockNumber"
    and ord: "\<And>v. mset (ord v) = mset v"
  shows "insert_internal S lops ord gr ip vec nf w \<noteq> Inl OutOfFuel"
  unfolding insert_internal_def
proof (rule rbind_fuel [OF build_search_fuel [OF w gr]], rule prod_fuel, rule prod_fuel, rule rbind_fuel, goal_cases)
  case (1 x v y gr1 w1)
  then have "winv w1" "graph_ok gr1" "valid_ptrs (ord v)"
    using build_search_facts [OF _ w gr] valid_ptrs_perm [OF ord] by (auto simp: graph_kept_def)
  then show ?case by (rule add_neighbors_fuel)
next
  case (2 x v y gr1 w1 z)
  obtain pr ns gr2 w2 where z: "z = ((pr, ns), gr2, w2)" by (metis surj_pair)
  have 1: "winv w1" "graph_ok gr1" "valid_ptrs (ord v)"
    using 2 build_search_facts [OF _ w gr] valid_ptrs_perm [OF ord] by (auto simp: graph_kept_def)
  have "winv w2" "graph_ok gr2"
    using add_neighbors_facts [OF _ 1] 2 unfolding z by (auto simp: graph_kept_def)
  then show ?case
    unfolding z case_prod_conv by (intro no_fuel back_pointers_fuel ip)
qed

text \<open>
  What an insertion into the disk store changes: the adjacency of the new node becomes a merge of
  the nodes the search visited, each node in it gets a pointer back to the new one unless pruning
  drops it, and nothing else changes.
\<close>

lemma insert_internal_disk:
  assumes run: "insert_internal S lops ord gr ip vec nf w = Inr (orphan, gr', w')"
    and w: "winv w" "w_others w = []" and gr: "graph_ok gr" "g_store gr = DiskStore"
    and ip: "block_number ip \<noteq> InvalidBlockNumber" and ord: "\<And>v. mset (ord v) = mset v"
  shows "gr' = gr \<and> w_others w' = [] \<and>
    (\<exists>vs v pr old ns. greedy_search_for_build S lops gr ip vec nf w = Inr (vs, gr, v) \<and>
       adj (w_rel w) ip = Some old \<and> adj (w_rel w') ip = Some (map n_index_pointer ns) \<and>
       merged (dist_at (w_rel w')) MergeDisk (lv_labels vec) (m_max_alpha (g_meta gr)) ip (ord vs)
         (unat (m_num_neighbors (g_meta gr))) pr old ns \<and>
       (\<forall>q. q \<noteq> ip \<longrightarrow> (if q \<in> n_index_pointer ` set ns then linked ip (lv_labels vec) (g_meta gr) ns w w' q
            else adj (w_rel w') q = adj (w_rel w) q)))"
proof -
  from insert_internal_steps [OF run] obtain v gr1 w1 pr ns gr2 w2 cnt where s:
    "greedy_search_for_build S lops gr ip vec nf w = Inr (v, gr1, w1)"
    "add_neighbors S lops gr1 ip (lv_labels vec) (ord v) w1 = Inr ((pr, ns), gr2, w2)"
    "rfold (update_back_pointer S lops ip (lv_labels vec)) ns (0, gr2, w2) = Inr (cnt, gr', w')" by blast
  note bf = build_search_facts [OF s(1) w(1) gr(1)]
  have 1: "winv w1" "graph_ok gr1" "valid_ptrs (ord v)" "g_store gr1 = DiskStore" "g_meta gr1 = g_meta gr"
    "w_rel w1 = w_rel w" "w_others w1 = []"
    using bf valid_ptrs_perm [OF ord] gr(2) w(2) by (auto simp: graph_kept_def same_disk_def)
  have g1: "gr1 = gr" using 1(4,5) gr(2) by (cases gr; cases gr1) simp
  note af = add_neighbors_facts [OF s(2) 1(1-3)]
  note ad = add_neighbors_disk [OF s(2) 1(1) 1(7) 1(2) 1(4) 1(3)]
  have 2: "winv w2" "graph_ok gr2" "gr2 = gr" "w_others w2 = []" using af ad(1) g1 by (auto simp: graph_kept_def)
  have d: "distinct (map n_index_pointer ns)" "ip \<notin> n_index_pointer ` set ns" using af by auto
  have "g_store gr2 = DiskStore" using 2(3) gr(2) by simp
  note bd = back_pointers_disk [OF s(3) 2(1,4,2) this ip d(1)]
  have bp: "gr' = gr" "w_others w' = []" "dist_le (dist_at (w_rel w2)) (dist_at (w_rel w'))"
    "\<And>q. if q \<in> n_index_pointer ` set ns then linked ip (lv_labels vec) (g_meta gr) ns w2 w' q
         else adj (w_rel w') q = adj (w_rel w2) q" using bd unfolding 2(3) by auto
  have rel: "q \<noteq> ip \<Longrightarrow> adj (w_rel w2) q = adj (w_rel w) q" for q using ad(1) 1(6) by simp
  obtain old where old: "adj (w_rel w) ip = Some old" "adj (w_rel w2) ip = Some (map n_index_pointer ns)"
    "merged (dist_at (w_rel w2)) MergeDisk (lv_labels vec) (m_max_alpha (g_meta gr)) ip (ord v)
       (unat (m_num_neighbors (g_meta gr))) pr old ns"
    using ad(1) 1(6) g1 by auto
  have "adj (w_rel w') ip = Some (map n_index_pointer ns)" using bp(4) [of ip] d(2) old(2) by simp
  moreover have "if q \<in> n_index_pointer ` set ns then linked ip (lv_labels vec) (g_meta gr) ns w w' q
            else adj (w_rel w') q = adj (w_rel w) q" if "q \<noteq> ip" for q
    using bp(4) [of q] rel [OF that] unfolding linked_def by (simp split: if_splits)
  ultimately show ?thesis
    using bp(1,2) old(1) merged_mono [OF bp(3) old(3)] s(1) g1
    by (intro conjI exI [of _ v] exI [of _ w1] exI [of _ pr] exI [of _ old] exI [of _ ns]) auto
qed

end

end
