(* ===== verification/Graph_Entry.thy ===== *)
theory Graph_Entry
  imports Graph_Insert
begin

text \<open>
  \<open>Graph::update_start_nodes\<close> and \<open>Graph::insert\<close>: entry points are merged into the meta page that is
  on disk while its lock is held, so that none that any backend has published is lost, however old
  the copy of the meta page in memory is.
\<close>

section \<open>Entry points only grow\<close>

definition entry_extends :: "start_nodes option \<Rightarrow> start_nodes option \<Rightarrow> bool" where
  "entry_extends so so' \<longleftrightarrow>
     (case so of
        None \<Rightarrow> True
      | Some s \<Rightarrow> \<exists>s'. so' = Some s' \<and> default_node s' = default_node s \<and>
          (\<forall>l n. bt_get l (labeled_nodes s) = Some n \<longrightarrow> bt_get l (labeled_nodes s') = Some n))"

definition start_ok :: "start_nodes option \<Rightarrow> bool" where
  "start_ok so \<longleftrightarrow> (\<forall>s. so = Some s \<longrightarrow> start_nodes_inv s)"

lemma entry_extends_refl [simp]: "entry_extends so so"
  by (cases so) (simp_all add: entry_extends_def)

lemma entry_extends_trans: "entry_extends a b \<Longrightarrow> entry_extends b c \<Longrightarrow> entry_extends a c"
  unfolding entry_extends_def by (cases a; cases b) auto

lemma merge_extends:
  assumes "start_ok so"
  shows "entry_extends so (Some (merge_start_nodes so ip ls))" "start_ok (Some (merge_start_nodes so ip ls))"
    "contains_all (merge_start_nodes so ip ls) ls"
proof -
  have s: "\<And>s. so = Some s \<Longrightarrow> start_nodes_inv s" using assms by (simp add: start_ok_def)
  note g = merge_start_nodes_get [where so = so and ip = ip and ls = ls, OF s]
  show "entry_extends so (Some (merge_start_nodes so ip ls))"
    using g(1) by (auto simp: entry_extends_def merge_start_nodes_default split: option.splits)
  show "start_ok (Some (merge_start_nodes so ip ls))" using g(2) by (simp add: start_ok_def)
  show "contains_all (merge_start_nodes so ip ls) ls"
    using g(1) by (auto simp: contains_all_def list_all_iff split: option.splits)
qed

lemma bt_insert_values: "snd ` set (bt_insert k v t) \<subseteq> insert v (snd ` set t)"
  by (induction k v t rule: bt_insert.induct) auto

lemma merge_all_nodes:
  "set (get_all_nodes (merge_start_nodes so ip ls)) \<subseteq> insert ip (case so of None \<Rightarrow> {} | Some s \<Rightarrow> set (get_all_nodes s))"
proof -
  have f: "snd ` set (fold (\<lambda>k m. if bt_get k m = None then bt_insert k ip m else m) ks t) \<subseteq> insert ip (snd ` set t)"
    for ks :: "label list" and t
  proof (induction ks arbitrary: t)
    case (Cons k ks)
    let ?t = "if bt_get k t = None then bt_insert k ip t else t"
    have "snd ` set ?t \<subseteq> insert ip (snd ` set t)" using bt_insert_values [of k ip t] by auto
    then show ?case using Cons.IH [of ?t] by (simp only: fold_Cons o_apply) blast
  qed auto
  define s0 where "s0 = (case so of Some s \<Rightarrow> s | None \<Rightarrow> start_nodes_new ip)"
  have "snd ` set (labeled_nodes (merge_start_nodes so ip ls)) \<subseteq> insert ip (snd ` set (labeled_nodes s0))"
  proof (cases ls)
    case (Some l)
    then show ?thesis
      using f [of "labels l" "labeled_nodes s0"] by (simp add: merge_start_nodes_def fold_upsert_absent s0_def [symmetric])
  qed (auto simp: merge_start_nodes_def s0_def)
  moreover have "set (get_all_nodes s0) \<subseteq> insert ip (case so of None \<Rightarrow> {} | Some s \<Rightarrow> set (get_all_nodes s))"
    by (cases so) (auto simp: s0_def get_all_nodes_def start_nodes_new_def)
  moreover have "default_node (merge_start_nodes so ip ls) = default_node s0"
    by (cases so) (simp_all add: merge_start_nodes_default s0_def start_nodes_new_def)
  ultimately show ?thesis by (auto simp: get_all_nodes_def)
qed

definition has_entry :: "meta_page \<Rightarrow> label_set option \<Rightarrow> bool" where
  "has_entry m ls = (case m_start_nodes m of None \<Rightarrow> False | Some s \<Rightarrow> contains_all s ls)"

abbreviation with_entry :: "meta_page \<Rightarrow> item_pointer \<Rightarrow> label_set option \<Rightarrow> meta_page" where
  "with_entry m ip ls \<equiv> set_start_nodes (merge_start_nodes (m_start_nodes m) ip ls) m"

section \<open>Publication\<close>

context meta_codec_laws
begin

text \<open>The page on disk can be published again with a new entry point.\<close>

definition publishable :: "chain_rel \<Rightarrow> meta_page \<Rightarrow> item_pointer \<Rightarrow> label_set option \<Rightarrow> bool" where
  "publishable rel m ip ls \<longleftrightarrow>
     meta_fetch c header_le rel = Inr m \<and> meta_valid m \<and> start_ok (m_start_nodes m) \<and> rel_inv rel \<and>
     length rel + length (ser_meta c (with_entry m ip ls)) + 21 < 2 ^ 32 - 1"

lemma publish_entry:
  assumes "publishable rel m ip ls"
  shows "\<exists>rel'. meta_store c header_le pg_page_8k (with_entry m ip ls) rel False = Inr rel' \<and> rel_inv rel' \<and>
    length rel \<le> length rel' \<and> (\<forall>b. 0 < b \<and> b < length rel \<longrightarrow> rel' ! b = rel ! b) \<and>
    meta_fetch c header_le rel' = Inr (with_entry m ip ls)"
proof -
  have v: "meta_valid (with_entry m ip ls)"
    using assms by (simp add: publishable_def meta_valid_def set_start_nodes_def)
  have "rel \<noteq> [] \<and> is_ok (read_from_page (rel ! 0))"
    using assms by (auto simp: publishable_def meta_fetch_def read_buffer_def META_BLOCK_NUMBER_def readable_type_def is_ok_iff
        split: if_splits)
  then show ?thesis
    using meta_store_fetch [of "with_entry m ip ls" rel False] v assms by (simp add: publishable_def)
qed

lemma update_start_nodes_facts:
  assumes run: "update_start_nodes c header_le pg_page_8k S lops gr ip ls w rel = Inr (gr', w', rel')"
    and p: "publishable rel m ip ls"
  shows "has_entry (g_meta gr') ls \<and>
    (gr' = gr \<and> w' = w \<and> rel' = rel \<and> has_entry (g_meta gr) ls \<or>
     gr' = gr\<lparr>g_meta := m\<rparr> \<and> w' = w \<and> rel' = rel \<or>
     g_meta gr' = with_entry m ip ls \<and> meta_fetch c header_le rel' = Inr (with_entry m ip ls) \<and>
       (\<forall>b. 0 < b \<and> b < length rel \<longrightarrow> rel' ! b = rel ! b) \<and>
       (case m_start_nodes m of Some _ \<Rightarrow> Inr (g_store gr, w)
        | None \<Rightarrow> gns_initialize_neighbors lops (s_disk S) (g_store gr) ip ls w) = Inr (g_store gr', w'))"
proof -
  have m: "meta_fetch c header_le rel = Inr m" and s: "start_ok (m_start_nodes m)" using p by (auto simp: publishable_def)
  have e: "has_entry (with_entry m ip ls) ls"
    using merge_extends(3) [OF s] by (simp add: has_entry_def set_start_nodes_def)
  consider (mem) "has_entry (g_meta gr) ls" | (disk) "\<not> has_entry (g_meta gr) ls" "has_entry m ls"
    | (new) "\<not> has_entry (g_meta gr) ls" "\<not> has_entry m ls" by blast
  then show ?thesis
  proof cases
    case mem
    then show ?thesis using run by (simp add: update_start_nodes_def has_entry_def)
  next
    case disk
    then have "gr' = gr\<lparr>g_meta := m\<rparr> \<and> w' = w \<and> rel' = rel" using run m by (simp add: update_start_nodes_def has_entry_def)
    then show ?thesis using disk by simp
  next
    case new
    then obtain rel1 where "meta_store c header_le pg_page_8k (with_entry m ip ls) rel False = Inr rel1"
      "rel' = rel1" "g_meta gr' = with_entry m ip ls"
      "(case m_start_nodes m of Some _ \<Rightarrow> Inr (g_store gr, w)
        | None \<Rightarrow> gns_initialize_neighbors lops (s_disk S) (g_store gr) ip ls w) = Inr (g_store gr', w')"
      using run m by (auto simp: update_start_nodes_def has_entry_def Let_def simp del: not_None_eq)
    then show ?thesis using publish_entry [OF p] e by auto
  qed
qed

text \<open>On disk and in memory, afterwards.\<close>

lemma update_start_nodes_published:
  assumes run: "update_start_nodes c header_le pg_page_8k S lops gr ip ls w rel = Inr (gr', w', rel')"
    and p: "publishable rel m ip ls"
  shows "\<exists>m'. meta_fetch c header_le rel' = Inr m' \<and> entry_extends (m_start_nodes m) (m_start_nodes m') \<and>
    m'\<lparr>m_start_nodes := m_start_nodes m\<rparr> = m \<and> (has_entry (g_meta gr) ls \<or> has_entry m' ls \<and> g_meta gr' = m')"
  using update_start_nodes_facts [OF assms] p merge_extends(1) [of "m_start_nodes m" ip ls]
  by (auto simp: publishable_def set_start_nodes_def)

end

section \<open>Insertion of a vector\<close>

context search_storage
begin

lemma initialize_facts:
  assumes "gns_initialize_neighbors lops (s_disk S) g ip ls w = Inr (g', w')" "winv w" "gns_ok g"
  shows "winv w' \<and> gns_ok g' \<and> (g = DiskStore \<longrightarrow> g' = DiskStore \<and> w' = w)"
proof (cases g)
  case (BuilderStore b)
  then obtain b' where b: "builder_set_neighbors lops (s_disk S) b ip ls [] w = Inr (b', w')" "g' = BuilderStore b'"
    using assms(1) by (auto simp: gns_initialize_neighbors_def)
  have "builder_ok b" "valid_ptrs []" using assms(3) BuilderStore by (auto simp: gns_ok_def valid_ptrs_def)
  from builder_set_facts(1) [OF b(1) this(1) assms(2) this(2)] show ?thesis
    using b(2) BuilderStore by (simp add: gns_ok_def)
qed (use assms in \<open>simp add: gns_initialize_neighbors_def\<close>)

lemma initialize_fuel:
  assumes "winv w" "gns_ok g"
  shows "gns_initialize_neighbors lops (s_disk S) g ip ls w \<noteq> Inl OutOfFuel"
proof (cases g)
  case (BuilderStore b)
  then have "builder_ok b" using assms(2) by (simp add: gns_ok_def)
  then show ?thesis
    unfolding gns_initialize_neighbors_def BuilderStore neighbor_store.case
    using assms(1) by (intro no_fuel builder_set_fuel)
qed (simp add: gns_initialize_neighbors_def)

lemma with_entry_ok:
  assumes "entry_points_ok m" "block_number ip \<noteq> InvalidBlockNumber"
  shows "entry_points_ok (with_entry m ip ls)"
  using merge_all_nodes [of "m_start_nodes m" ip ls] assms
  by (cases "m_start_nodes m") (auto simp: entry_points_ok_def set_start_nodes_def)

lemma update_kept:
  assumes laws: "meta_codec_laws c"
    and run: "update_start_nodes c header_le pg_page_8k S lops gr ip ls w rel = Inr (gr', w', rel')"
    and p: "meta_codec_laws.publishable c rel m ip ls" and m: "entry_points_ok m" "f64_le (m_max_alpha m) 0x4014000000000000"
    and w: "winv w" and gr: "graph_ok gr" and ip: "block_number ip \<noteq> InvalidBlockNumber"
  shows "winv w' \<and> graph_ok gr' \<and> has_entry (g_meta gr') ls \<and> (g_store gr = DiskStore \<longrightarrow> g_store gr' = DiskStore \<and> w' = w)"
proof -
  note f = meta_codec_laws.update_start_nodes_facts [OF laws run p]
  have g: "gns_ok (g_store gr)" using gr by (simp add: graph_ok_def)
  have st: "winv w' \<and> gns_ok (g_store gr') \<and> (g_store gr = DiskStore \<longrightarrow> g_store gr' = DiskStore \<and> w' = w)"
    if "(case m_start_nodes m of Some _ \<Rightarrow> Inr (g_store gr, w)
        | None \<Rightarrow> gns_initialize_neighbors lops (s_disk S) (g_store gr) ip ls w) = Inr (g_store gr', w')"
    using that initialize_facts [OF _ w g] w g by (auto split: option.splits)
  have a: "f64_le (m_max_alpha (with_entry m ip ls)) 0x4014000000000000" using m(2) by (simp add: set_start_nodes_def)
  from f consider "gr' = gr \<and> w' = w" | "gr' = gr\<lparr>g_meta := m\<rparr> \<and> w' = w"
    | "g_meta gr' = with_entry m ip ls" "(case m_start_nodes m of Some _ \<Rightarrow> Inr (g_store gr, w)
        | None \<Rightarrow> gns_initialize_neighbors lops (s_disk S) (g_store gr) ip ls w) = Inr (g_store gr', w')" by blast
  then have "winv w' \<and> graph_ok gr' \<and> (g_store gr = DiskStore \<longrightarrow> g_store gr' = DiskStore \<and> w' = w)"
  proof cases
    case 3
    then show ?thesis using st [OF 3(2)] with_entry_ok [OF m(1) ip] a by (simp add: graph_ok_def)
  qed (use gr w m in \<open>auto simp: graph_ok_def\<close>)
  then show ?thesis using f by blast
qed

lemma update_fuel:
  assumes laws: "meta_codec_laws c" and p: "meta_codec_laws.publishable c rel m ip ls" and w: "winv w" and gr: "graph_ok gr"
  shows "update_start_nodes c header_le pg_page_8k S lops gr ip ls w rel \<noteq> Inl OutOfFuel"
proof -
  have g: "gns_ok (g_store gr)" using gr by (simp add: graph_ok_def)
  have m: "meta_fetch c header_le rel = Inr m"
    using p by (simp add: meta_codec_laws.publishable_def [OF laws])
  obtain rel1 where st: "meta_store c header_le pg_page_8k (with_entry m ip ls) rel False = Inr rel1"
    using meta_codec_laws.publish_entry [OF laws p] by blast
  have i: "(case m_start_nodes m of Some _ \<Rightarrow> Inr (g_store gr, w)
        | None \<Rightarrow> gns_initialize_neighbors lops (s_disk S) (g_store gr) ip ls w) \<noteq> Inl OutOfFuel"
    using initialize_fuel [OF w g] by (simp split: option.splits)
  show ?thesis
    unfolding update_start_nodes_def m rbind_simps Let_def
    by (rule if_fuel Inr_fuel rbind_fuel prod_fuel i)+ (simp_all add: st)
qed

lemma graph_insert_facts:
  assumes laws: "meta_codec_laws c"
    and p: "meta_codec_laws.publishable c rel m ip (lv_labels vec)"
    and m: "entry_points_ok m" "f64_le (m_max_alpha m) 0x4014000000000000"
    and w: "winv w" and gr: "graph_ok gr" and ip: "block_number ip \<noteq> InvalidBlockNumber"
    and ord: "\<And>v. mset (ord v) = mset v"
  shows "graph_insert c header_le pg_page_8k S lops ord gr ip vec w rel \<noteq> Inl OutOfFuel"
    and "graph_insert c header_le pg_page_8k S lops ord gr ip vec w rel = Inr (gr', w', rel') \<Longrightarrow>
      winv w' \<and> graph_ok gr' \<and> has_entry (g_meta gr') (lv_labels vec)"
proof -
  let ?up = "update_start_nodes c header_le pg_page_8k S lops gr ip (lv_labels vec) w rel"
  let ?one = "\<lambda>gr w. if lv_labels vec \<noteq> None
            then rbind (insert_internal S lops ord gr ip vec False w) (\<lambda>(_, gr, w). Inr (gr, w))
            else Inr (gr, w)"
  have up: "winv w1 \<and> graph_ok gr1 \<and> has_entry (g_meta gr1) (lv_labels vec)" if "?up = Inr (gr1, w1, rel1)" for gr1 w1 rel1
    using update_kept [OF laws that p m w gr ip] by blast
  have one: "winv w2 \<and> graph_ok gr2 \<and> g_meta gr2 = g_meta gr1"
    if "?one gr1 w1 = Inr (gr2, w2)" "winv w1" "graph_ok gr1" for gr1 w1 gr2 w2
    using that insert_internal_facts [OF _ that(2,3) ip ord] by (auto simp: graph_kept_def split: if_splits)
  have one_fuel: "?one gr1 w1 \<noteq> Inl OutOfFuel" if "winv w1" "graph_ok gr1" for gr1 w1
    using insert_internal_fuel [OF that ip ord] by (intro no_fuel)
  show "graph_insert c header_le pg_page_8k S lops ord gr ip vec w rel \<noteq> Inl OutOfFuel"
    unfolding graph_insert_def
  proof (rule rbind_fuel [OF update_fuel [OF laws p w gr]], rule prod_fuel, rule prod_fuel, rule rbind_fuel, goal_cases)
    case (1 x gr1 y w1 rel1)
    then show ?case using one_fuel up by blast
  next
    case (2 x gr1 y w1 rel1 z)
    obtain gr2 w2 where z: "z = (gr2, w2)" by (cases z)
    have "winv w2" "graph_ok gr2" using one up 2 unfolding z by blast+
    then show ?case unfolding z case_prod_conv using insert_internal_fuel [OF _ _ ip ord] by (intro no_fuel)
  qed
  assume "graph_insert c header_le pg_page_8k S lops ord gr ip vec w rel = Inr (gr', w', rel')"
  then obtain gr1 w1 rel1 gr2 w2 o' where s: "?up = Inr (gr1, w1, rel1)" "?one gr1 w1 = Inr (gr2, w2)"
    "insert_internal S lops ord gr2 ip vec True w2 = Inr (o', gr', w')"
    unfolding graph_insert_def by (auto simp del: not_None_eq)
  then have "winv w2 \<and> graph_ok gr2 \<and> g_meta gr2 = g_meta gr1 \<and> has_entry (g_meta gr1) (lv_labels vec)"
    using up one by blast
  then show "winv w' \<and> graph_ok gr' \<and> has_entry (g_meta gr') (lv_labels vec)"
    using insert_internal_facts [OF s(3) _ _ ip ord] by (simp add: graph_kept_def)
qed

end

end
