(* ===== verification/Sample_Runs.thy ===== *)
theory Sample_Runs
  imports Sample_Index Graph_Entry
begin

text \<open>
  Runs of the graph operations on the small indexes, evaluated step by step: pruning two candidates
  on the plain index, merging into an adjacency, an insertion, a flush, a search from an entry point,
  and a search with a label filter on the SBQ index.
\<close>

section \<open>Arithmetic\<close>

lemma sample_f64:
  "f64_le 0x3FF0000000000000 0x3FF3333333333333" "f64_le 0x3FF3333333333333 0x3FF3333333333333"
  "\<not> f64_le 0x3FF70A3D70A3D70A 0x3FF3333333333333"
  "f64_div (f64_of_f32 0x40800000) (f64_of_f32 0x3F800000) = 0x4010000000000000"
  "f64_max 0 0x4010000000000000 = 0x4010000000000000"
  "f64_lt 0x3FF0000000000000 0x4010000000000000" "f64_lt 0x3FF3333333333333 0x4010000000000000"
  "f64_lt 0x3FF0000000000000 f64_max_value" "f64_lt 0x3FF3333333333333 f64_max_value"
  "\<not> f64_lt 0x3FF0000000000000 0" "\<not> f64_lt 0x3FF3333333333333 0"
  "f64_le 0x3FF3333333333333 0x4014000000000000"
  by code_simp+

lemma sample_f32:
  "\<not> f32_is_nan 0x3F800000" "\<not> f32_is_nan 0x40800000" "\<not> f32_lt 0x3F800000 f32_epsilon" "f32_le 0 0"
  "f32_sub 0x40000000 0x40000000 = 0" "f32_mul 0 0 = 0"
  by code_simp+

lemma sample_scale:
  "scale_alpha 0x3FF0000000000000 = 0x3FF3333333333333" "scale_alpha 0x3FF3333333333333 = 0x3FF70A3D70A3D70A"
  by (rule plain_disk.alpha_steps)+

section \<open>Reading nodes\<close>

lemma sample_items:
  "item_at sample_plain_rel ip1 = Some (sample_plain_node 0 (ItemPointer 7 1) [ip2, empty_slot])"
  "item_at sample_plain_rel ip2 = Some (sample_plain_node 0x3F800000 (ItemPointer 7 2) [ip1, ip3])"
  "item_at sample_plain_rel ip3 = Some (sample_plain_node 0x40000000 (ItemPointer 7 3) [ip2, empty_slot])"
  by (simp_all add: item_at_def sample_plain_rel_def get_item_unchecked_def items_of_def)

lemma sample_reads:
  assumes "w_rel w = sample_plain_rel"
  shows "node_read ip1 w = Inr (sample_plain_node 0 (ItemPointer 7 1) [ip2, empty_slot], count record_read w)"
    and "node_read ip2 w = Inr (sample_plain_node 0x3F800000 (ItemPointer 7 2) [ip1, ip3], count record_read w)"
    and "node_read ip3 w = Inr (sample_plain_node 0x40000000 (ItemPointer 7 3) [ip2, empty_slot], count record_read w)"
  using assms by (simp_all add: node_read_Inr sample_items)

lemma sample_neighbors [simp]:
  "plain_iter_neighbors (sample_plain_node v hp [ip2, empty_slot]) = [ip2]"
  "plain_iter_neighbors (sample_plain_node v hp [ip1, ip3]) = [ip1, ip3]"
  by (simp_all add: plain_iter_neighbors_def plain_num_neighbors_def slots_num_neighbors_def sample_plain_node_def
      empty_slot_def InvalidBlockNumber_def)

section \<open>Pruning\<close>

text \<open>The candidates 2 and 3 of node 1, at the squared distances 1 and 4; they are 1 apart.\<close>

definition cand2 :: neighbor_with_distance where
  "cand2 = nwd_new ip2 \<lparr>distance = 0x3F800000, dfrom = ip1, dto = ip2, tie_cell = None\<rparr> None"

definition cand3 :: neighbor_with_distance where
  "cand3 = nwd_new ip3 \<lparr>distance = 0x40800000, dfrom = ip1, dto = ip3, tie_cell = None\<rparr> None"

lemma sample_sorted: "sort_neighbors [cand3, cand2] = [cand2, cand3]"
proof -
  have "nwd_key cand2 < nwd_key cand3" "nwd_key cand2 \<le> nwd_key cand3" "\<not> nwd_key cand3 \<le> nwd_key cand2" by code_simp+
  then show ?thesis by (simp add: sort_neighbors_def)
qed

lemma sample_pass_1:
  assumes "w_rel w = sample_plain_rel"
  shows "prune_pass (plain_disk sample_plain) 0x3FF3333333333333 2 None [cand2, cand3] 0x3FF0000000000000 [0, 1] [] [0, 0] w
     = Inr (False, [cand2], [f64_max_value, 0x4010000000000000],
         count record_full_distance_comparison (count record_read (count record_read w)))"
proof -
  have d: "plain_get_distance sample_plain [0x3F800000] ip3 v =
      Inr (0x3F800000, count record_full_distance_comparison (count record_read v))" if "w_rel v = sample_plain_rel" for v
    using that by (simp add: plain_get_distance_def sample_reads sample_plain_node_def sample_l2 Let_def)
  have f: "get_factor \<lparr>distance = 0x40800000, dfrom = ip1, dto = ip3, tie_cell = None\<rparr>
      \<lparr>distance = 0x3F800000, dfrom = ip3, dto = ip2, tie_cell = None\<rparr> = 0x4010000000000000"
    by (simp add: get_factor_def sample_f64 sample_f32)
  show ?thesis
    using assms by (simp add: Let_def plain_disk_def plain_with_index_pointer_def cand2_def cand3_def sample_reads
        prune_candidate_def d f sample_plain_node_def sample_f64 f64_zero_def dwt_new_def sample_f32 f32_zero_def sample_arith)
qed

lemma sample_pass_2:
  "prune_pass (plain_disk sample_plain) 0x3FF3333333333333 2 None [cand2, cand3] 0x3FF3333333333333 [0, 1] [cand2]
      [f64_max_value, 0x4010000000000000] w = Inr (False, [cand2], [f64_max_value, 0x4010000000000000], w)"
  by (simp add: Let_def sample_f64)

lemma sample_prune:
  "\<exists>w'. prune_neighbors (plain_disk sample_plain) 0x3FF3333333333333 2 None [cand3, cand2] sample_plain_world = Inr ([cand2], w')"
proof -
  have f: "prune_fuel = Suc (Suc 8)" by (simp add: prune_fuel_def)
  have l: "[0..<length [cand2, cand3]] = [0, 1]" by (simp add: upt_rec)
  have z: "replicate (length [cand2, cand3]) f64_zero = [0, 0]" by (simp add: f64_zero_def)
  have w: "w_rel (sample_plain_world\<lparr>w_stats := g\<rparr>) = sample_plain_rel" for g by (simp add: sample_plain_world_def)
  let ?r = "prune_rounds (plain_disk sample_plain) 0x3FF3333333333333 2 None [cand2, cand3]"
  have r1: "?r (Suc n) 0x3FF0000000000000 [] [0, 0] w = ?r n 0x3FF3333333333333 [cand2] [f64_max_value, 0x4010000000000000]
      (count record_full_distance_comparison (count record_read (count record_read w)))" if "w_rel w = sample_plain_rel" for n w
    unfolding prune_rounds.simps [where fuel = "Suc n"] l sample_pass_1 [OF that] by (simp add: sample_f64 sample_scale)
  have r2: "?r (Suc n) 0x3FF3333333333333 [cand2] [f64_max_value, 0x4010000000000000] w =
      ?r n 0x3FF70A3D70A3D70A [cand2] [f64_max_value, 0x4010000000000000] w" for n w
    unfolding prune_rounds.simps [where fuel = "Suc n"] l sample_pass_2
    by (simp add: sample_scale sample_f64)
  have r3: "\<exists>w'. ?r n 0x3FF70A3D70A3D70A [cand2] mf w = Inr ([cand2], w')" for n mf w
    by (simp add: prune_rounds.simps [where fuel = n] sample_f64)
  show ?thesis
    unfolding prune_neighbors_def sample_sorted Let_def f z f64_one_def r1 [OF w] r2 by (rule r3)
qed

section \<open>A search\<close>

lemma sample_l2_same: "ps_distance_fn sample_plain [0x40000000] [0x40000000] = Inr 0"
  by (simp add: ps_distance_fn_def sample_plain_def get_distance_function_def distance_l2_def
      distance_l2_simd_body_def simd_body_def simd_loop.simps simd_tail_def setzero_ps_def sample_simd_def
      f32_zero_def sample_arith Let_def rassert_def sample_f32)

text \<open>The query is the vector of node 3.\<close>

definition sample_query :: labeled_vector where
  "sample_query = \<lparr>lv_vec = \<lparr>index_distance = Some [0x40000000], full_distance = None\<rparr>, lv_labels = None\<rparr>"

definition sample_lsn :: "item_pointer \<Rightarrow> f32 \<Rightarrow> heap_pointer \<Rightarrow> item_pointer list \<Rightarrow> plain_private lsn" where
  "sample_lsn ip d hp ns = \<lparr>lsn_index_pointer = ip, lsn_distance = dwt_with_query d ip,
     lsn_private_data = \<lparr>pp_heap_pointer = hp, pp_neighbors = ns\<rparr>, lsn_labels = None\<rparr>"

abbreviation "lsn1 \<equiv> sample_lsn ip1 0x40800000 (ItemPointer 7 1) [ip2]"
abbreviation "lsn2 \<equiv> sample_lsn ip2 0x3F800000 (ItemPointer 7 2) [ip1, ip3]"
abbreviation "lsn3 \<equiv> sample_lsn ip3 0 (ItemPointer 7 3) [ip2]"

lemma sample_lsns:
  assumes "w_rel w = sample_plain_rel" "sdm l = Some sample_query" "tie_break_item_pointer l = None"
  shows "plain_lsn sample_plain lru_list l ip1 DiskStore w = Inr (lsn1, DiskStore, count record_full_distance_comparison (count record_read w))"
    and "plain_lsn sample_plain lru_list l ip2 DiskStore w = Inr (lsn2, DiskStore, count record_full_distance_comparison (count record_read w))"
    and "plain_lsn sample_plain lru_list l ip3 DiskStore w = Inr (lsn3, DiskStore, count record_full_distance_comparison (count record_read w))"
  using assms by (simp_all add: plain_lsn_def sample_reads Let_def plain_calculate_distance_def plain_private_new_def
      create_distance_with_tie_break_def sample_lsn_def sample_query_def to_index_slice_def)
    (simp_all add: sample_plain_node_def sample_l2 sample_l2_same)

abbreviation sample_state :: "plain_private lsn list \<Rightarrow> plain_private lsn list \<Rightarrow> item_pointer set \<Rightarrow> (labeled_vector, plain_private) lsr" where
  "sample_state cs vs i \<equiv> \<lparr>candidates = cs, visited = vs, inserted = i, sdm = Some sample_query, tie_break_item_pointer = None\<rparr>"

lemma sample_lsn_sel [simp]:
  "lsn_index_pointer (sample_lsn ip d hp ns) = ip" "pp_neighbors (lsn_private_data (sample_lsn ip d hp ns)) = ns"
  by (simp_all add: sample_lsn_def)

lemma heap_singleton [simp]: "bh_push le x [] = [x]" "bh_pop le [x] = Some (x, [])" "bh_peek [x] = Some x"
  by (simp_all add: bh_push_def bh_pop_def bh_peek_def sift_up.simps)

lemma sample_cmp [simp]: "lsn_cmp lsn1 lsn2 = Greater" "lsn_cmp lsn1 lsn3 = Greater" "lsn_cmp lsn2 lsn3 = Greater"
  by code_simp+

lemma sample_start:
  "\<exists>w. lsr_new (plain_storage_ops sample_plain) lru_list [ip1] sample_query None DiskStore sample_plain_world =
     Inr (sample_state [lsn1] [] {ip1}, DiskStore, w) \<and> w_rel w = sample_plain_rel \<and> w_others w = []"
  by (simp add: lsr_new_def plain_storage_ops_def plain_create_lsn_for_start_node_def prepare_insert_def lsr_empty_def
      sample_lsns sample_plain_world_def insert_neighbor_def)

text \<open>The three rounds: node 1, node 2, node 3, which is the closest.\<close>

lemma sample_rounds:
  assumes "w_rel w = sample_plain_rel" "w_others w = []"
  shows "\<exists>w'. greedy_search_loop (plain_storage_ops sample_plain) lru_list 100 True (sample_state [lsn1] [] {ip1}) vis DiskStore w =
      greedy_search_loop (plain_storage_ops sample_plain) lru_list 100 True (sample_state [lsn2] [lsn1] {ip1, ip2})
        (map_option (visited_insert lsn1) vis) DiskStore w' \<and> w_rel w' = sample_plain_rel \<and> w_others w' = []"
    and "\<exists>w'. greedy_search_loop (plain_storage_ops sample_plain) lru_list 100 True (sample_state [lsn2] [lsn1] {ip1, ip2}) vis DiskStore w =
      greedy_search_loop (plain_storage_ops sample_plain) lru_list 100 True (sample_state [lsn3] [lsn2, lsn1] {ip1, ip2, ip3})
        (map_option (visited_insert lsn2) vis) DiskStore w' \<and> w_rel w' = sample_plain_rel \<and> w_others w' = []"
    and "\<exists>w'. greedy_search_loop (plain_storage_ops sample_plain) lru_list 100 True (sample_state [lsn3] [lsn2, lsn1] {ip1, ip2, ip3}) vis DiskStore w =
      Some (Inr (sample_state [] [lsn3, lsn2, lsn1] {ip1, ip2, ip3}, map_option (visited_insert lsn3) vis, DiskStore, w')) \<and>
      w_rel w' = sample_plain_rel \<and> w_others w' = []"
proof -
  note defs = visit_closest_def Let_def partition_point_def insert_at_def get_lsn_by_idx_def
    plain_visit_lsn_def plain_visit_neighbor_def prepare_insert_def insert_neighbor_def sample_lsns assms
  let ?S = "plain_storage_ops sample_plain"
  have S: "s_visit_lsn ?S = plain_visit_lsn sample_plain" by (simp add: plain_storage_ops_def)
  have vis: "i < length (visited l) \<Longrightarrow> record_visited l i vis = Inr (map_option (visited_insert (visited l ! i)) vis)"
    for i and l :: "(labeled_vector, plain_private) lsr"
    by (cases vis) (simp_all add: record_visited_def get_lsn_by_idx_def)
  show "\<exists>w'. greedy_search_loop ?S lru_list 100 True (sample_state [lsn1] [] {ip1}) vis DiskStore w =
      greedy_search_loop ?S lru_list 100 True (sample_state [lsn2] [lsn1] {ip1, ip2})
        (map_option (visited_insert lsn1) vis) DiskStore w' \<and> w_rel w' = sample_plain_rel \<and> w_others w' = []"
    by (subst greedy_search_loop.simps) (auto simp: defs S vis insert_commute)
  show "\<exists>w'. greedy_search_loop ?S lru_list 100 True (sample_state [lsn2] [lsn1] {ip1, ip2}) vis DiskStore w =
      greedy_search_loop ?S lru_list 100 True (sample_state [lsn3] [lsn2, lsn1] {ip1, ip2, ip3})
        (map_option (visited_insert lsn2) vis) DiskStore w' \<and> w_rel w' = sample_plain_rel \<and> w_others w' = []"
    by (subst greedy_search_loop.simps) (auto simp: defs S vis insert_commute)
  show "\<exists>w'. greedy_search_loop ?S lru_list 100 True (sample_state [lsn3] [lsn2, lsn1] {ip1, ip2, ip3}) vis DiskStore w =
      Some (Inr (sample_state [] [lsn3, lsn2, lsn1] {ip1, ip2, ip3}, map_option (visited_insert lsn3) vis, DiskStore, w')) \<and>
      w_rel w' = sample_plain_rel \<and> w_others w' = []"
    by (subst greedy_search_loop.simps, simp add: defs S vis insert_absorb, subst greedy_search_loop.simps, simp add: defs bh_peek_def)
qed

lemma sample_search:
  assumes "w_rel w = sample_plain_rel" "w_others w = []"
  shows "\<exists>vis' w'. greedy_search_loop (plain_storage_ops sample_plain) lru_list 100 True (sample_state [lsn1] [] {ip1}) vis DiskStore w =
    Some (Inr (sample_state [] [lsn3, lsn2, lsn1] {ip1, ip2, ip3}, vis', DiskStore, w'))"
proof -
  let ?loop = "\<lambda>cs vs i. greedy_search_loop (plain_storage_ops sample_plain) lru_list 100 True (sample_state cs vs i)"
  obtain w1 v1 where 1: "?loop [lsn1] [] {ip1} vis DiskStore w = ?loop [lsn2] [lsn1] {ip1, ip2} v1 DiskStore w1"
    "w_rel w1 = sample_plain_rel" "w_others w1 = []"
    using sample_rounds(1) [OF assms] by blast
  obtain w2 v2 where 2: "?loop [lsn2] [lsn1] {ip1, ip2} v1 DiskStore w1 = ?loop [lsn3] [lsn2, lsn1] {ip1, ip2, ip3} v2 DiskStore w2"
    "w_rel w2 = sample_plain_rel" "w_others w2 = []"
    using sample_rounds(2) [OF 1(2,3)] by blast
  show ?thesis unfolding 1(1) 2(1) using sample_rounds(3) [OF 2(2,3)] by blast
qed

section \<open>An insertion\<close>

text \<open>Two nodes without neighbours; the second one is being inserted, the first is the entry point.\<close>

definition pair_rel :: "item_pointer list \<Rightarrow> item_pointer list \<Rightarrow> plain_node relation" where
  "pair_rel a b =
     [NewPage, InitPage (tsv_opaque_new Node)
        [sample_plain_node 0 (ItemPointer 7 1) a, sample_plain_node 0x3F800000 (ItemPointer 7 2) b]]"

abbreviation "no_slots \<equiv> [empty_slot, empty_slot]"

definition pair_world :: "plain_node world" where
  "pair_world = \<lparr>w_rel = pair_rel no_slots no_slots, w_cache = None, w_stats = stats_default, w_others = []\<rparr>"

definition pair_query :: labeled_vector where
  "pair_query = \<lparr>lv_vec = \<lparr>index_distance = Some [0x3F800000], full_distance = Some [0x3F800000]\<rparr>, lv_labels = None\<rparr>"

definition pair_meta :: meta_page where
  "pair_meta = (new_meta_page ''0.8.0'' 1 1 L2 options_default Plain 1 2)\<lparr>m_start_nodes := Some (start_nodes_new ip1)\<rparr>"

lemma pair_world_ok [simp]: "plain_world sample_plain pair_world"
  by (simp add: node_world_def others_ok_def pair_world_def pair_rel_def rel_inv_def page_inv_def MaxOffsetNumber_def
      nodes_ok_def sample_plain_def sample_plain_node_def items_of_def exI [of _ Node])

lemma pair_reads:
  assumes "w_rel w = pair_rel a b"
  shows "node_read ip1 w = Inr (sample_plain_node 0 (ItemPointer 7 1) a, count record_read w)"
    and "node_read ip2 w = Inr (sample_plain_node 0x3F800000 (ItemPointer 7 2) b, count record_read w)"
  using assms by (simp_all add: node_read_Inr item_at_def pair_rel_def get_item_unchecked_def items_of_def)

lemma no_slots_neighbors [simp]:
  "plain_iter_neighbors (sample_plain_node v hp no_slots) = []"
  "plain_iter_neighbors (sample_plain_node v hp [ip1, empty_slot]) = [ip1]"
  by (simp_all add: plain_iter_neighbors_def plain_num_neighbors_def slots_num_neighbors_def sample_plain_node_def
      empty_slot_def InvalidBlockNumber_def)

text \<open>The compare-and-set of an empty adjacency.\<close>

lemma pair_sets:
  assumes "w_rel w = pair_rel a no_slots" "w_others w = []" "n_index_pointer n = ip1"
  shows "try_set_neighbors_with plain_iter_neighbors plain_set_neighbors 2 ip2 [] [n] w =
     Inr (True, (count record_modify w)\<lparr>w_rel := pair_rel a [ip1, empty_slot]\<rparr>)"
proof -
  have "plain_set_neighbors [n] 2 (sample_plain_node 0x3F800000 (ItemPointer 7 2) no_slots) =
      Inr (sample_plain_node 0x3F800000 (ItemPointer 7 2) [ip1, empty_slot])"
    using assms(3) by (simp add: plain_set_neighbors_def slots_set_neighbors_def sample_plain_node_def index_pin_def)
  moreover have "node_modify ip2 w = Inr (\<lparr>wp_block = 1, wp_page = pair_rel a no_slots ! 1\<rparr>,
      sample_plain_node 0x3F800000 (ItemPointer 7 2) no_slots, count record_modify w)"
    using assms(1,2) by (simp add: node_modify_Inr interfere_none item_at_def pair_rel_def get_item_unchecked_def
        items_of_def is_ok_def)
  ultimately show ?thesis
    using assms by (simp add: try_set_neighbors_with_def commit_def put_item_def pair_rel_def)
qed

lemma pair_sets_back:
  assumes "w_rel w = pair_rel no_slots b" "w_others w = []" "n_index_pointer n = ip2"
  shows "try_set_neighbors_with plain_iter_neighbors plain_set_neighbors 2 ip1 [] [n] w =
     Inr (True, (count record_modify w)\<lparr>w_rel := pair_rel [ip2, empty_slot] b\<rparr>)"
proof -
  have "plain_set_neighbors [n] 2 (sample_plain_node 0 (ItemPointer 7 1) no_slots) =
      Inr (sample_plain_node 0 (ItemPointer 7 1) [ip2, empty_slot])"
    using assms(3) by (simp add: plain_set_neighbors_def slots_set_neighbors_def sample_plain_node_def index_pin_def)
  moreover have "node_modify ip1 w = Inr (\<lparr>wp_block = 1, wp_page = pair_rel no_slots b ! 1\<rparr>,
      sample_plain_node 0 (ItemPointer 7 1) no_slots, count record_modify w)"
    using assms(1,2) by (simp add: node_modify_Inr interfere_none item_at_def pair_rel_def get_item_unchecked_def
        items_of_def is_ok_def)
  ultimately show ?thesis
    using assms by (simp add: try_set_neighbors_with_def commit_def put_item_def pair_rel_def)
qed

text \<open>A merge into an empty adjacency, with nobody else at work.\<close>

lemma pair_merge:
  assumes "plain_neighbors_from_disk sample_plain p w = Inr ([], w1)" "w_others w = []"
    and "n_index_pointer n \<noteq> p"
    and "try_set_neighbors_with plain_iter_neighbors plain_set_neighbors 2 p [] [n]
      (count (\<lambda>s. s\<lparr>adjacency_attempts := adjacency_attempts s + 1\<rparr>) w1) = Inr (True, w2)"
    and "mode = MergeDisk \<or> mode = MergeBuilder False"
  shows "merge_neighbors_on_disk (plain_disk sample_plain) p None [n] a 2 mode w = Inr ((False, [n]), w2)"
  using assms by (auto simp: merge_neighbors_on_disk_def plain_disk_def merge_candidates_def Let_def sample_plain_def)

text \<open>The visited node 1 as a neighbour of node 2, published from the disk store or the build cache.\<close>

abbreviation "pair_graph \<equiv> \<lparr>g_store = DiskStore, g_meta = pair_meta\<rparr>"

definition pair_lsn :: "plain_private lsn" where
  "pair_lsn = \<lparr>lsn_index_pointer = ip1, lsn_distance = \<lparr>distance = 0x3F800000, dfrom = ip1, dto = ip2, tie_cell = None\<rparr>,
     lsn_private_data = \<lparr>pp_heap_pointer = ItemPointer 7 1, pp_neighbors = []\<rparr>, lsn_labels = None\<rparr>"

lemma pair_search:
  assumes u: "w_rel u = pair_rel no_slots no_slots" "w_others u = []"
  shows "\<exists>w. greedy_search_for_build (plain_storage_ops sample_plain) lru_list pair_graph ip2 pair_query True u =
     Inr ([nwd_of_lsn pair_lsn], pair_graph, w) \<and> w_rel w = pair_rel no_slots no_slots \<and> w_others w = []"
proof -
  let ?S = "plain_storage_ops sample_plain"
  let ?st = "\<lambda>cs vs. \<lparr>candidates = cs, visited = vs, inserted = {ip1}, sdm = Some pair_query, tie_break_item_pointer = Some ip2\<rparr>"
  have meta: "m_start_nodes pair_meta = Some (start_nodes_new ip1)" by (simp add: pair_meta_def)
  have lsn: "plain_lsn sample_plain lru_list l ip1 DiskStore w = Inr (pair_lsn, DiskStore, count record_full_distance_comparison (count record_read w))"
    if "w_rel w = pair_rel no_slots no_slots" "sdm l = Some pair_query" "tie_break_item_pointer l = Some ip2" for l w
    using that by (simp add: plain_lsn_def pair_reads Let_def plain_calculate_distance_def plain_private_new_def
      create_distance_with_tie_break_def pair_query_def to_index_slice_def pair_lsn_def dwt_new_def sample_f32 f32_zero_def sample_arith)
      (simp add: sample_plain_node_def sample_l2)
  have new: "\<exists>w. lsr_new ?S lru_list [ip1] pair_query (Some ip2) DiskStore u =
     Inr (?st [pair_lsn] [], DiskStore, w) \<and> w_rel w = pair_rel no_slots no_slots \<and> w_others w = []"
    by (simp add: lsr_new_def plain_storage_ops_def plain_create_lsn_for_start_node_def prepare_insert_def lsr_empty_def
      lsn u insert_neighbor_def)
  have loop: "greedy_search_loop ?S lru_list n True (?st [pair_lsn] []) (Some []) DiskStore w =
      Some (Inr (?st [] [pair_lsn], Some [nwd_of_lsn pair_lsn], DiskStore, count record_visit w))" for n w
    by (subst greedy_search_loop.simps, simp add: visit_closest_def Let_def partition_point_def insert_at_def
        record_visited_def get_lsn_by_idx_def visited_insert_def plain_storage_ops_def plain_visit_lsn_def pair_lsn_def nwd_of_lsn_def,
        subst greedy_search_loop.simps, simp add: visit_closest_def bh_peek_def)
  show ?thesis
    using new by (auto simp: greedy_search_for_build_def meta get_for_node_def start_nodes_new_def plain_storage_ops_def [of sample_plain]
        greedy_search_iterate_def returned_def loop [unfolded plain_storage_ops_def])
qed

lemma pair_insert:
  assumes "w_rel u = pair_rel no_slots no_slots" "w_others u = []"
  shows "\<exists>w. insert_internal (plain_storage_ops sample_plain) lru_list id pair_graph ip2 pair_query True u =
     Inr (False, pair_graph, w) \<and> w_rel w = pair_rel [ip2, empty_slot] [ip1, empty_slot]"
proof -
  obtain w where s: "greedy_search_for_build (plain_storage_ops sample_plain) lru_list pair_graph ip2 pair_query True u =
     Inr ([nwd_of_lsn pair_lsn], pair_graph, w)" and w: "w_rel w = pair_rel no_slots no_slots" "w_others w = []"
    using pair_search [OF assms] by blast
  have nums: "unat (m_num_neighbors pair_meta) = 2" by (simp add: pair_meta_def new_meta_page_def)
  have disk: "s_disk (plain_storage_ops sample_plain) = plain_disk sample_plain" by (simp add: plain_storage_ops_def)
  have nb: "plain_neighbors_from_disk sample_plain ip2 v = Inr ([], count record_read v)" if "w_rel v = pair_rel a no_slots" for a v
    using that by (simp add: plain_neighbors_from_disk_def pair_reads)
  have nb1: "plain_neighbors_from_disk sample_plain ip1 v = Inr ([], count record_read v)" if "w_rel v = pair_rel no_slots b" for b v
    using that by (simp add: plain_neighbors_from_disk_def pair_reads)
  let ?n = "nwd_of_lsn pair_lsn"
  have n: "lsn_index_pointer pair_lsn = ip1" "n_index_pointer ?n = ip1" "n_labels ?n = None" by (simp_all add: pair_lsn_def nwd_of_lsn_def)
  have "\<exists>v. merge_neighbors_on_disk (plain_disk sample_plain) ip2 None [?n] (m_max_alpha pair_meta) 2 MergeDisk w = Inr ((False, [?n]), v)
      \<and> w_rel v = pair_rel no_slots [ip1, empty_slot] \<and> w_others v = []"
    by (rule exI, rule conjI, rule pair_merge [OF nb [OF w(1)] w(2) _ _ disjI1 [OF refl]], simp add: n, subst pair_sets)
      (simp_all add: w n, simp add: w)
  then obtain v where v: "w_rel v = pair_rel no_slots [ip1, empty_slot]" "w_others v = []"
    and m1: "merge_neighbors_on_disk (plain_disk sample_plain) ip2 None [?n] (m_max_alpha pair_meta) 2 MergeDisk w = Inr ((False, [?n]), v)"
    by blast
  let ?new = "nwd_new ip2 (n_distance ?n) None"
  have "\<exists>u. merge_neighbors_on_disk (plain_disk sample_plain) ip1 None [?new] (m_max_alpha pair_meta) 2 MergeDisk v = Inr ((False, [?new]), u)
      \<and> w_rel u = pair_rel [ip2, empty_slot] [ip1, empty_slot]"
    by (rule exI, rule conjI, rule pair_merge [OF nb1 [OF v(1)] v(2) _ _ disjI1 [OF refl]], simp, subst pair_sets_back)
      (simp_all add: v, (simp add: v)?)
  then obtain u where u: "w_rel u = pair_rel [ip2, empty_slot] [ip1, empty_slot]"
    and m2: "merge_neighbors_on_disk (plain_disk sample_plain) ip1 None [?new] (m_max_alpha pair_meta) 2 MergeDisk v = Inr ((False, [?new]), u)"
    by blast
  have q: "lv_labels pair_query = None" by (simp add: pair_query_def)
  show ?thesis
    by (simp add: insert_internal_def s add_neighbors_def nums disk m1 m2 n q update_back_pointer_def nwd_eq_def Let_def u)
qed

lemma pair_publish:
  assumes "mode = MergeDisk \<or> mode = MergeBuilder False"
  shows "\<exists>w'. merge_neighbors_on_disk (plain_disk sample_plain) ip2 None [nwd_of_lsn pair_lsn] a 2 mode pair_world =
     Inr ((False, [nwd_of_lsn pair_lsn]), w')"
proof -
  have n: "n_index_pointer (nwd_of_lsn pair_lsn) \<noteq> ip2" by (simp add: pair_lsn_def)
  have nb: "plain_neighbors_from_disk sample_plain ip2 pair_world = Inr ([], count record_read pair_world)"
    by (simp add: plain_neighbors_from_disk_def pair_reads pair_world_def)
  show ?thesis
    by (rule exI, rule pair_merge [OF nb _ n _ assms], simp add: pair_world_def, subst pair_sets)
      (simp_all add: pair_world_def pair_lsn_def)
qed

text \<open>A build cache that holds the adjacency of node 2.\<close>

definition pair_cache :: builder_cache where
  "pair_cache = \<lparr>neighbor_map = (lru_new 4)\<lparr>entries := [(ip2, \<lparr>e_labels = None, e_neighbors = [nwd_of_lsn pair_lsn]\<rparr>)],
       lru_stats := cache_stats_default\<lparr>inserts := 1\<rparr>\<rparr>,
     b_num_neighbors = 2, b_max_alpha = 0x3FF3333333333333\<rparr>"

lemma pair_cache_ok: "builder_ok pair_cache"
  by (auto simp: builder_ok_def pair_cache_def lru_inv_def lru_ok_def lru_new_def lru_lookup_def valid_ptrs_def pair_lsn_def
      InvalidBlockNumber_def sample_f64 cache_stats_default_def)

lemma pair_flush: "\<exists>b w. flush_neighbor_cache lru_list (plain_disk sample_plain) pair_cache pair_world = Inr (b, w)"
proof -
  obtain w where "merge_neighbors_on_disk (plain_disk sample_plain) ip2 None [nwd_of_lsn pair_lsn] 0x3FF3333333333333 2
      (MergeBuilder False) pair_world = Inr ((False, [nwd_of_lsn pair_lsn]), w)"
    using pair_publish by blast
  then show ?thesis
    by (simp add: flush_neighbor_cache_def pair_cache_def lru_len_def lru_new_def lru_pop_lru_def lru_list_def)
qed

section \<open>A labelled search\<close>

text \<open>Two nodes with the labels 1 and 2, neighbours of each other, with quantised vectors of one word.\<close>

definition sample_sbq :: sbq_storage where
  "sample_sbq =
     \<lparr>sq_quantizer = sbq_load 1 [0] [0] (sbq_quantizer_new 1), sq_has_labels = True, sq_num_neighbors = 2, sq_simd = sample_simd,
      sq_distance_type = L2, sq_node_size = (\<lambda>_. 64), sq_heap_fetch = (\<lambda>_. Some \<lparr>index_distance = None, full_distance = Some [0]\<rparr>), sq_lru = lru_list\<rparr>"

definition sample_sbq_node :: "64 word \<Rightarrow> label \<Rightarrow> item_pointer list \<Rightarrow> sbq_node" where
  "sample_sbq_node v l slots =
     Labeled \<lparr>l_heap = ItemPointer 7 1, l_bq_vector = [v], l_neighbors = slots, l_labels = LabelSet [l]\<rparr>"

definition sample_sbq_world :: "sbq_node world" where
  "sample_sbq_world = \<lparr>w_rel = [NewPage, InitPage (tsv_opaque_new SbqNode)
      [sample_sbq_node 0 1 [ip2, empty_slot], sample_sbq_node 1 2 [ip1, empty_slot]]],
     w_cache = None, w_stats = stats_default, w_others = []\<rparr>"

definition sample_sbq_query :: sbq_qdm where
  "sample_sbq_query = \<lparr>qdm_vec = [0],
     qdm_query = \<lparr>lv_vec = \<lparr>index_distance = Some [0], full_distance = Some [0]\<rparr>, lv_labels = Some (LabelSet [1])\<rparr>\<rparr>"

lemma sample_sbq_ok [simp]: "sbq_world (sbq_model sample_sbq) sample_sbq_world"
  by (simp add: sbq_world_def node_world_def others_ok_def sample_sbq_world_def rel_inv_def page_inv_def MaxOffsetNumber_def
      nodes_ok_def sample_sbq_def sbq_model_def sample_sbq_node_def items_of_def exI [of _ SbqNode] qv_coherent_def)

lemma sample_sbq_reads:
  assumes "w_rel w = w_rel sample_sbq_world"
  shows "sbq_read (sbq_model sample_sbq) ip1 w = Inr (sample_sbq_node 0 1 [ip2, empty_slot], count record_read w)"
    and "sbq_read (sbq_model sample_sbq) ip2 w = Inr (sample_sbq_node 1 2 [ip1, empty_slot], count record_read w)"
  using assms by (simp_all add: sbq_read_def node_read_Inr item_at_def sample_sbq_world_def get_item_unchecked_def items_of_def
      sample_sbq_node_def sbq_model_def sample_sbq_def)
    
definition sample_sbq_lsn :: "unit lsn" where
  "sample_sbq_lsn = \<lparr>lsn_index_pointer = ip1, lsn_distance = dwt_with_query 0 ip1, lsn_private_data = (), lsn_labels = Some (LabelSet [1])\<rparr>"

abbreviation sample_sbq_state :: "unit lsn list \<Rightarrow> unit lsn list \<Rightarrow> item_pointer set \<Rightarrow> (sbq_qdm, unit) lsr" where
  "sample_sbq_state cs vs i \<equiv> \<lparr>candidates = cs, visited = vs, inserted = i, sdm = Some sample_sbq_query, tie_break_item_pointer = None\<rparr>"

lemma sample_sbq_start:
  "\<exists>w. lsr_new (sbq_storage_ops (sbq_model sample_sbq)) lru_list [ip1] sample_sbq_query None DiskStore sample_sbq_world =
     Inr (sample_sbq_state [sample_sbq_lsn] [] {ip1}, DiskStore, w) \<and> w_rel w = w_rel sample_sbq_world"
proof -
  have d: "distance_xor_optimized [0] [0] = Inr 0" "f32_of_nat 0 = 0" by code_simp+
  show ?thesis
    by (simp add: lsr_new_def sbq_storage_ops_def sbq_create_lsn_for_start_node_def prepare_insert_def lsr_empty_def
      sample_sbq_reads insert_neighbor_def calculate_bq_distance_def Let_def sample_sbq_node_def sample_sbq_query_def d
      create_distance_with_tie_break_def sample_sbq_lsn_def)
qed

text \<open>Node 2 is met and skipped.\<close>

lemma sample_sbq_search:
  assumes "w_rel w = w_rel sample_sbq_world"
  shows "\<exists>w'. greedy_search_loop (sbq_storage_ops (sbq_model sample_sbq)) lru_list 100 False
      (sample_sbq_state [sample_sbq_lsn] [] {ip1}) vis DiskStore w =
    Some (Inr (sample_sbq_state [] [sample_sbq_lsn] {ip1, ip2}, map_option (visited_insert sample_sbq_lsn) vis, DiskStore, w')) \<and>
    w_rel w' = w_rel sample_sbq_world"
proof -
  have vis: "i < length (visited l) \<Longrightarrow> record_visited l i vis = Inr (map_option (visited_insert (visited l ! i)) vis)"
    for i and l :: "(sbq_qdm, unit) lsr"
    by (cases vis) (simp_all add: record_visited_def get_lsn_by_idx_def)
  have n: "sbq_iter_neighbors (sample_sbq_node 0 1 [ip2, empty_slot]) = [ip2]"
    by (simp add: sample_sbq_node_def sbq_iter_neighbors_def sbq_num_neighbors_def slots_num_neighbors_def empty_slot_def
        InvalidBlockNumber_def)
  have sk: "sbq_skip sample_sbq_query False (sbq_labels (sample_sbq_node 1 2 [ip1, empty_slot])) = Inr True"
    by (simp add: sbq_skip_def sample_sbq_query_def sample_sbq_node_def overlaps_def cmp_of_def)
  have ip: "lsn_index_pointer sample_sbq_lsn = ip1" by (simp add: sample_sbq_lsn_def)
  have S: "s_visit_lsn (sbq_storage_ops (sbq_model sample_sbq)) = sbq_visit_lsn (sbq_model sample_sbq)"
    by (simp add: sbq_storage_ops_def)
  show ?thesis
    by (subst greedy_search_loop.simps, simp add: visit_closest_def Let_def partition_point_def insert_at_def get_lsn_by_idx_def
        vis S sbq_visit_lsn_def sbq_visit_lsn_internal_def sample_sbq_reads assms ip n sbq_visit_disk_def prepare_insert_def sk insert_commute,
        subst greedy_search_loop.simps, simp add: visit_closest_def bh_peek_def assms)
qed

end
