(* ===== verification/Sbq_Filter.thy ===== *)
theory Sbq_Filter
  imports Graph_Facts
begin

text \<open>
  The label filter of a search on an SBQ index: a search with labels only ever meets nodes whose
  labels overlap those of the query.
\<close>

definition passes :: "label_set \<Rightarrow> unit lsn \<Rightarrow> bool" where
  "passes ls x \<longleftrightarrow> (\<exists>nl. lsn_labels x = Some nl \<and> overlaps ls nl)"

lemma sbq_visit_disk_passes:
  assumes run: "sbq_visit_disk s False ip (l, w) = Inr (l', w')"
    and q: "sdm l = Some q" "lv_labels (qdm_query q) = Some ls" and l: "lsr_all (passes ls) l"
  shows "lsr_all (passes ls) l' \<and> sdm l' = Some q"
proof -
  obtain new l1 where p: "prepare_insert l ip = (new, l1)" by force
  have l1: "lsr_all (passes ls) l1" "sdm l1 = Some q"
    using lsr_all_prepare [OF p] l p q(1) by (auto simp: prepare_insert_def)
  show ?thesis
  proof (cases new)
    case False
    then show ?thesis using run p l1 by (simp add: sbq_visit_disk_def)
  next
    case True
    obtain node w1 skip where sk: "sbq_skip q False (sbq_labels node) = Inr skip"
      and rest: "(if skip then Inr (l1, w1)
          else
            rbind (calculate_bq_distance q (sbq_bq_vector node) w1) (\<lambda>(distance, w).
            let w = qv_remember s ip (sbq_bq_vector node) w in
            rbind (create_distance_with_tie_break l1 distance ip) (\<lambda>d.
            Inr (insert_neighbor \<lparr>lsn_index_pointer = ip, lsn_distance = d, lsn_private_data = (),
                   lsn_labels = sbq_labels node\<rparr> l1 w)))) = Inr (l', w')"
      using run p True l1(2) by (auto simp: sbq_visit_disk_def)
    show ?thesis
    proof (cases skip)
      case True
      then show ?thesis using rest l1 by simp
    next
      case False
      then obtain d w2 where i: "insert_neighbor \<lparr>lsn_index_pointer = ip, lsn_distance = d, lsn_private_data = (),
                   lsn_labels = sbq_labels node\<rparr> l1 w2 = (l', w')"
        using rest by (auto simp: Let_def)
      have "passes ls \<lparr>lsn_index_pointer = ip, lsn_distance = d, lsn_private_data = (), lsn_labels = sbq_labels node\<rparr>"
        using sk False q(2) by (auto simp: sbq_skip_def passes_def)
      then show ?thesis using lsr_all_insert [OF i] l1 i by (auto simp: insert_neighbor_def)
    qed
  qed
qed

lemma sbq_visit_builder_passes:
  assumes run: "sbq_visit_builder s False n (l, w) = Inr (l', w')"
    and q: "sdm l = Some q" "lv_labels (qdm_query q) = Some ls" and l: "lsr_all (passes ls) l"
  shows "lsr_all (passes ls) l' \<and> sdm l' = Some q"
proof -
  let ?ip = "n_index_pointer n"
  obtain new l1 where p: "prepare_insert l ?ip = (new, l1)" by force
  have l1: "lsr_all (passes ls) l1" "sdm l1 = Some q"
    using lsr_all_prepare [OF p] l p q(1) by (auto simp: prepare_insert_def)
  show ?thesis
  proof (cases new)
    case False
    then show ?thesis using run p l1 by (simp add: sbq_visit_builder_def Let_def)
  next
    case True
    obtain skip where sk: "sbq_skip q False (n_labels n) = Inr skip"
      and rest: "(if skip then Inr (l1, w)
          else
            rbind (qv_get s ?ip w) (\<lambda>(bq_vector, w).
            rbind (calculate_bq_distance q bq_vector w) (\<lambda>(distance, w).
            rbind (create_distance_with_tie_break l1 distance ?ip) (\<lambda>d.
            Inr (insert_neighbor \<lparr>lsn_index_pointer = ?ip, lsn_distance = d, lsn_private_data = (),
                   lsn_labels = n_labels n\<rparr> l1 w))))) = Inr (l', w')"
      using run p True l1(2) by (auto simp: sbq_visit_builder_def Let_def)
    show ?thesis
    proof (cases skip)
      case True
      then show ?thesis using rest l1 by simp
    next
      case False
      then obtain d w2 where i: "insert_neighbor \<lparr>lsn_index_pointer = ?ip, lsn_distance = d, lsn_private_data = (),
                   lsn_labels = n_labels n\<rparr> l1 w2 = (l', w')"
        using rest by auto
      have "passes ls \<lparr>lsn_index_pointer = ?ip, lsn_distance = d, lsn_private_data = (), lsn_labels = n_labels n\<rparr>"
        using sk False q(2) by (auto simp: sbq_skip_def passes_def)
      then show ?thesis using lsr_all_insert [OF i] l1 i by (auto simp: insert_neighbor_def)
    qed
  qed
qed

lemma passes_loop:
  assumes run: "rfold f xs (l, w) = Inr (l', w')" and q: "sdm l = Some q" and l: "lsr_all (passes ls) l"
    and step: "\<forall>x l w l' w'. f x (l, w) = Inr (l', w') \<longrightarrow> sdm l = Some q \<longrightarrow> lsr_all (passes ls) l \<longrightarrow>
      lsr_all (passes ls) l' \<and> sdm l' = Some q"
  shows "lsr_all (passes ls) l'"
proof -
  have "(\<lambda>(l, w). lsr_all (passes ls) l \<and> sdm l = Some q) (l', w')"
  proof (rule rfold_invariant [OF run])
    fix x st st' assume "x \<in> set xs" and I: "case st of (l, w) \<Rightarrow> lsr_all (passes ls) l \<and> sdm l = Some q" and r: "f x st = Inr st'"
    obtain l0 w0 l1 w1 where s: "st = (l0, w0)" "st' = (l1, w1)" by (cases st; cases st')
    then show "case st' of (l, w) \<Rightarrow> lsr_all (passes ls) l \<and> sdm l = Some q"
      using step [rule_format, of x l0 w0 l1 w1] I r by simp
  qed (use q l in simp)
  then show ?thesis by simp
qed

lemma sbq_visit_passes:
  assumes run: "sbq_visit_lsn s lops l i g False w = Inr (l', g', w')"
    and q: "sdm l = Some q" "lv_labels (qdm_query q) = Some ls" and l: "lsr_all (passes ls) l"
  shows "lsr_all (passes ls) l'"
proof (cases g)
  case DiskStore
  then obtain xs w1 where a: "rfold (sbq_visit_disk s False) xs (l, w1) = Inr (l', w')"
    using run by (auto simp: sbq_visit_lsn_def sbq_visit_lsn_internal_def)
  have b: "\<forall>x l w l' w'. sbq_visit_disk s False x (l, w) = Inr (l', w') \<longrightarrow> sdm l = Some q \<longrightarrow> lsr_all (passes ls) l \<longrightarrow>
      lsr_all (passes ls) l' \<and> sdm l' = Some q"
    using sbq_visit_disk_passes q(2) by blast
  show ?thesis by (rule passes_loop [OF a q(1) l b])
next
  case (BuilderStore b)
  then obtain xs w1 where a: "rfold (sbq_visit_builder s False) xs (l, w1) = Inr (l', w')"
    using run by (auto simp: sbq_visit_lsn_def sbq_visit_lsn_internal_def)
  have b: "\<forall>x l w l' w'. sbq_visit_builder s False x (l, w) = Inr (l', w') \<longrightarrow> sdm l = Some q \<longrightarrow> lsr_all (passes ls) l \<longrightarrow>
      lsr_all (passes ls) l' \<and> sdm l' = Some q"
    using sbq_visit_builder_passes q(2) by blast
  show ?thesis by (rule passes_loop [OF a q(1) l b])
qed

text \<open>The start of the search: entry points with an overlapping label.\<close>

context sbq_env
begin

lemma sbq_new_passes:
  assumes run: "lsr_new (sbq_storage_ops s) lops sn q tie g w = Inr (l, g', w')" and w: "sbq_world s w"
    and sn: "\<forall>ip \<in> set sn. \<forall>n. item_at (w_rel w) ip = Some n \<longrightarrow> (\<exists>nl. sbq_labels n = Some nl \<and> overlaps ls nl)"
  shows "lsr_all (passes ls) l"
proof -
  let ?I = "\<lambda>(l, g', w'). sbq_world s w' \<and> same_disk w w' \<and> lsr_all (passes ls) l"
  have "?I (l, g', w')"
  proof (rule rfold_invariant [OF run [unfolded lsr_new_def]])
    show "?I (lsr_empty\<lparr>sdm := Some q, tie_break_item_pointer := tie\<rparr>, g, count record_call w)"
      using w by (simp add: lsr_empty_def lsr_all_def)
    fix ip st st'
    assume ip: "ip \<in> set sn" and I: "?I st" and step: "(\<lambda>(l, gns, w).
        rbind (s_create_lsn (sbq_storage_ops s) lops l ip gns w) (\<lambda>(n, l, gns, w).
        case n of None \<Rightarrow> Inr (l, gns, w)
        | Some n \<Rightarrow> (case insert_neighbor n l w of (l, w) \<Rightarrow> Inr (l, gns, w)))) st = Inr st'"
    obtain l0 g0 w0 where st: "st = (l0, g0, w0)" by (cases st)
    obtain new l1 where p: "prepare_insert l0 ip = (new, l1)" by force
    have l1: "lsr_all (passes ls) l1" using lsr_all_prepare [OF p] I st by simp
    show "?I st'"
    proof (cases new)
      case False
      then show ?thesis
        using step I p l1 unfolding st by (auto simp: sbq_storage_ops_def sbq_create_lsn_for_start_node_def)
    next
      case True
      then obtain node w1 q' dist w2 d l2 w3 where r: "sbq_read s ip w0 = Inr (node, w1)"
        and c: "calculate_bq_distance q' (sbq_bq_vector node) w1 = Inr (dist, w2)"
        and i: "insert_neighbor \<lparr>lsn_index_pointer = ip, lsn_distance = d, lsn_private_data = (),
            lsn_labels = sbq_labels node\<rparr> l1 w2 = (l2, w3)" and st': "st' = (l2, g0, w3)"
        using step p unfolding st
        by (auto simp: sbq_storage_ops_def sbq_create_lsn_for_start_node_def split: prod.splits)
      let ?m = "\<lparr>lsn_index_pointer = ip, lsn_distance = d, lsn_private_data = (), lsn_labels = sbq_labels node\<rparr>"
      have w0: "sbq_world s w0" "same_disk w w0" using I st by auto
      note rf = sbq_read_facts [OF w0(1) r]
      have w2: "sbq_world s w2" "same_disk w1 w2" using calculate_bq_distance_facts [OF conjunct1 [OF rf] c] by auto
      then have w3: "sbq_world s w3" "same_disk w w3"
        using i rf w0(2) by (auto simp: insert_neighbor_def same_disk_def)
      have "item_at (w_rel w) ip = Some node"
        using sbq_read_same [OF r] w0(2) by (simp add: same_disk_def)
      then have "passes ls ?m" using sn ip by (auto simp: passes_def)
      then have "lsr_all (passes ls) l2" using lsr_all_insert [OF i] l1 by simp
      then show ?thesis using st' w3 by simp
    qed
  qed
  then show ?thesis by simp
qed

end

end
