(* ===== verification/Graph_Properties.thy ===== *)
theory Graph_Properties
  imports Sample_Runs Sbq_Filter
begin

text \<open>
  What the graph promises over the two storages of the program: pruning, the publication of
  adjacencies among other backends, searches, insertions and entry points.
\<close>

section \<open>Pruning\<close>

text \<open>
  C18. Pruning, on plain storage, returns at most the number of neighbours asked for, all of them
  candidates and none more often than it was one, the closest candidate first. While there is room,
  the last round was run with the largest \<open>alpha\<close> in the powers of 1.2 up to \<open>max_alpha\<close>, and every
  candidate it left out is occluded by a kept one at most as far away: by its labels, and because its
  distance from the node is more than \<open>alpha\<close> times its distance from the kept one (tie breaks stand in
  where both are zero). Conversely every kept one that a closer one kept before it could occlude by
  its labels is within the factor \<open>max_alpha\<close> of it. No page changes.
\<close>

theorem prune_keeps_closest:
  assumes "plain_world s w" "f64_lt max_alpha f64_max_value"
    and "prune_neighbors (plain_disk s) max_alpha num ls cands w = Inr (ns, w')"
  shows "let D = plain_dist_at s (w_rel w) in same_disk w w' \<and>
    length ns \<le> num \<and> mset ns \<subseteq># mset cands \<and>
    (f64_le f64_one max_alpha \<longrightarrow> 0 < num \<longrightarrow> cands \<noteq> [] \<longrightarrow> (\<exists>rest. ns = hd (sort_neighbors cands) # rest)) \<and>
    (f64_le f64_one max_alpha \<longrightarrow> length ns < num \<longrightarrow>
       (\<exists>n. let alpha = (scale_alpha ^^ n) f64_one in
          f64_le alpha max_alpha \<and> \<not> f64_le (scale_alpha alpha) max_alpha \<and>
          (\<forall>c \<in> set cands. c \<in> set ns \<or> (\<exists>e \<in> set ns. nwd_cmp e c \<noteq> Greater \<and> occludes ls e c \<and>
             (\<exists>x. D (n_index_pointer e) (n_index_pointer c) = Some x \<and> f64_lt alpha (occlusion_factor x e c)))))) \<and>
    (\<forall>i j. i < j \<longrightarrow> j < length ns \<longrightarrow> nwd_cmp (ns ! i) (ns ! j) = Less \<longrightarrow> occludes ls (ns ! i) (ns ! j) \<longrightarrow>
       (\<exists>x. D (n_index_pointer (ns ! i)) (n_index_pointer (ns ! j)) = Some x \<and>
          \<not> f64_lt max_alpha (occlusion_factor x (ns ! i) (ns ! j))))"
proof -
  note f = plain_disk.prune_neighbors_facts [OF assms(3,1,2)]
  have o: "occluded D ls a e c \<longleftrightarrow> occludes ls e c \<and>
      (\<exists>x. D (n_index_pointer e) (n_index_pointer c) = Some x \<and> f64_lt a (occlusion_factor x e c))"
    and p: "spared D ls a e c \<longleftrightarrow> (occludes ls e c \<longrightarrow>
      (\<exists>x. D (n_index_pointer e) (n_index_pointer c) = Some x \<and> \<not> f64_lt a (occlusion_factor x e c)))" for D a e c
    by (auto simp: occluded_def spared_def factor_of_def)
  show ?thesis
    unfolding Let_def by (rule conjI [OF f(2) f(3) [unfolded pruned_to_def o p Let_def]])
qed

theorem prune_keeps_closest_witness:
  "\<exists>w' n x. prune_neighbors (plain_disk sample_plain) 0x3FF3333333333333 2 None [cand3, cand2] sample_plain_world = Inr ([cand2], w')
     \<and> same_disk sample_plain_world w' \<and> nwd_cmp cand2 cand3 \<noteq> Greater
     \<and> f64_le ((scale_alpha ^^ n) f64_one) 0x3FF3333333333333
     \<and> plain_dist_at sample_plain (w_rel sample_plain_world) ip2 ip3 = Some x
     \<and> f64_lt ((scale_alpha ^^ n) f64_one) (occlusion_factor x cand2 cand3)"
proof -
  obtain w' where run: "prune_neighbors (plain_disk sample_plain) 0x3FF3333333333333 2 None [cand3, cand2] sample_plain_world = Inr ([cand2], w')"
    using sample_prune by blast
  have ne: "cand3 \<noteq> cand2" by (simp add: cand2_def cand3_def nwd_new_def)
  have ips: "n_index_pointer cand2 = ip2" "n_index_pointer cand3 = ip3" by (simp_all add: cand2_def cand3_def)
  have le: "f64_le f64_one 0x3FF3333333333333" by (simp add: sample_f64 f64_one_def)
  note f = prune_keeps_closest [OF sample_plain_ok sample_f64(9) run, unfolded Let_def]
  note room = f [THEN conjunct2, THEN conjunct2, THEN conjunct2, THEN conjunct2, THEN conjunct1, THEN mp, OF le, THEN mp]
  have "length [cand2] < 2" by simp
  from room [OF this] obtain n where n: "f64_le ((scale_alpha ^^ n) f64_one) 0x3FF3333333333333"
    "\<forall>c \<in> set [cand3, cand2]. c \<in> set [cand2] \<or> (\<exists>e \<in> set [cand2]. nwd_cmp e c \<noteq> Greater \<and> occludes None e c \<and>
       (\<exists>x. plain_dist_at sample_plain (w_rel sample_plain_world) (n_index_pointer e) (n_index_pointer c) = Some x \<and>
          f64_lt ((scale_alpha ^^ n) f64_one) (occlusion_factor x e c)))" by blast
  then obtain x where "nwd_cmp cand2 cand3 \<noteq> Greater" "plain_dist_at sample_plain (w_rel sample_plain_world) ip2 ip3 = Some x"
    "f64_lt ((scale_alpha ^^ n) f64_one) (occlusion_factor x cand2 cand3)" using ne ips by auto
  then show ?thesis using run n(1) f [THEN conjunct1] by blast
qed

text \<open>
  C33. Pruning returns: the factor \<open>alpha\<close> grows by 1.2 in every round and exceeds the largest
  admissible \<open>max_alpha\<close>, 5, after nine rounds, on either storage.
\<close>

theorem prune_terminates:
  assumes "f64_le max_alpha 0x4014000000000000"
  shows "prune_neighbors (plain_disk s) max_alpha num ls cands w \<noteq> Inl OutOfFuel \<and>
    prune_neighbors (sbq_disk (sbq_model q)) max_alpha num ls cands v \<noteq> Inl OutOfFuel"
  using plain_disk.prune_neighbors_fuel [OF assms] sbq_search.prune_neighbors_fuel [OF assms] by blast

theorem prune_terminates_witness:
  "prune_neighbors (plain_disk sample_plain) 0x4014000000000000 64 None [cand3, cand2] sample_plain_world \<noteq> Inl OutOfFuel"
proof -
  have "f64_le 0x4014000000000000 0x4014000000000000" by code_simp
  then show ?thesis using prune_terminates by blast
qed

section \<open>Adjacencies among other backends\<close>

text \<open>
  C4. Merging neighbours into a node is atomic among other backends: there is one moment, after at
  most as many of their actions as there are, at which the adjacency was \<open>old\<close>, and the relation
  afterwards is the one of that moment with this adjacency replaced by a merge of \<open>old\<close> and the
  additions, within the limit, without duplicates and without the node itself: all of them when they
  fit and the mode does not insist on pruning, and what pruning keeps of them otherwise; no update is
  lost.
\<close>

theorem merge_linearises:
  assumes "plain_world s w" "valid_ptrs added" "f64_lt max_alpha f64_max_value"
    and "merge_neighbors_on_disk (plain_disk s) p ls added max_alpha num mode w = Inr ((pruned, ns), w')"
  shows "plain_world s w' \<and> (\<exists>n old. 0 < n \<and> n \<le> Suc (length (w_others w)) \<and>
      (let v = (interfere ^^ n) w; all = (set old \<union> n_index_pointer ` set added) - {p} in
       w_others w' = w_others v \<and> adj_at plain_iter_neighbors (w_rel v) p = Some old \<and>
       adj_at plain_iter_neighbors (w_rel w') p = Some (map n_index_pointer ns) \<and>
       (\<forall>q. q \<noteq> p \<longrightarrow> adj_at plain_iter_neighbors (w_rel w') q = adj_at plain_iter_neighbors (w_rel v) q) \<and>
       distinct (map n_index_pointer ns) \<and> length ns \<le> num \<and>
       (if pruned then n_index_pointer ` set ns \<subseteq> all else n_index_pointer ` set ns = all) \<and>
       pruned = (mode = MergeBuilder True \<or> num < card all) \<and>
       merged (plain_dist_at s (w_rel w')) mode ls max_alpha p added num pruned old ns))"
proof -
  from plain_disk.merge_facts(2) [OF assms(4,1,2,3)] obtain n old where n: "0 < n" "n \<le> Suc (length (w_others w))"
    "w_others w' = w_others ((interfere ^^ n) w)" "adj_at plain_iter_neighbors (w_rel ((interfere ^^ n) w)) p = Some old"
    "adj_at plain_iter_neighbors (w_rel w') p = Some (map n_index_pointer ns)"
    "\<forall>q. q \<noteq> p \<longrightarrow> adj_at plain_iter_neighbors (w_rel w') q = adj_at plain_iter_neighbors (w_rel ((interfere ^^ n) w)) q"
    and m: "merged (plain_dist_at s (w_rel w')) mode ls max_alpha p added num pruned old ns"
    unfolding Let_def by blast
  note parts = merged_parts [OF m]
  show ?thesis
    unfolding Let_def
    by (intro conjI exI [of _ n] exI [of _ old])
      (rule plain_disk.merge_facts(1) [OF assms(4,1,2,3)] n parts m)+
qed

theorem merge_linearises_witness:
  "\<exists>w'. merge_neighbors_on_disk (plain_disk sample_plain) ip2 None [nwd_of_lsn pair_lsn] 0x3FF3333333333333 2 MergeDisk pair_world =
     Inr ((False, [nwd_of_lsn pair_lsn]), w') \<and> adj_at plain_iter_neighbors (w_rel w') ip2 = Some [ip1]"
proof -
  obtain w' where run: "merge_neighbors_on_disk (plain_disk sample_plain) ip2 None [nwd_of_lsn pair_lsn] 0x3FF3333333333333 2 MergeDisk pair_world =
     Inr ((False, [nwd_of_lsn pair_lsn]), w')" using pair_publish by blast
  have "valid_ptrs [nwd_of_lsn pair_lsn]" by (simp add: valid_ptrs_def pair_lsn_def InvalidBlockNumber_def)
  then show ?thesis
    using merge_linearises [OF pair_world_ok _ sample_f64(9) run] run by (auto simp: Let_def pair_lsn_def)
qed

text \<open>
  C32. A merge returns once the actions that other backends have pending are taken, however many they
  are and whatever they do to the adjacency, on either storage and in every mode: each retry is due
  to one of them, so that one more round than there are actions is enough, and any larger number of
  rounds gives the same result. Nothing is claimed of contention that never ends, under which the
  source promises no progress.
\<close>

theorem merge_terminates:
  assumes "f64_le max_alpha 0x4014000000000000" "valid_ptrs added" "plain_world s w" "sbq_world (sbq_model q) v"
  shows "merge_neighbors_on_disk (plain_disk s) p ls added max_alpha num mode w \<noteq> Inl OutOfFuel \<and>
    merge_neighbors_on_disk (sbq_disk (sbq_model q)) p ls added max_alpha num mode v \<noteq> Inl OutOfFuel \<and>
    (\<forall>rounds > length (w_others w).
       merge_loop (plain_disk s) p ls added max_alpha num mode rounds w \<noteq> Inl OutOfFuel \<and>
       merge_loop (plain_disk s) p ls added max_alpha num mode rounds w =
         merge_loop (plain_disk s) p ls added max_alpha num mode (Suc (length (w_others w))) w) \<and>
    (\<forall>rounds > length (w_others v).
       merge_loop (sbq_disk (sbq_model q)) p ls added max_alpha num mode rounds v \<noteq> Inl OutOfFuel \<and>
       merge_loop (sbq_disk (sbq_model q)) p ls added max_alpha num mode rounds v =
         merge_loop (sbq_disk (sbq_model q)) p ls added max_alpha num mode (Suc (length (w_others v))) v)"
proof -
  note big = max_alpha_finite [OF assms(1)]
  note plain = plain_disk.merge_loop_fuel [OF assms(1) big assms(2,3)]
    and sbq = sbq_search.merge_loop_fuel [OF assms(1) big assms(2,4)]
  show ?thesis
  proof (intro conjI allI impI)
    show "merge_neighbors_on_disk (plain_disk s) p ls added max_alpha num mode w \<noteq> Inl OutOfFuel"
      by (rule plain_disk.merge_fuel [OF assms(1) big assms(2,3)])
    show "merge_neighbors_on_disk (sbq_disk (sbq_model q)) p ls added max_alpha num mode v \<noteq> Inl OutOfFuel"
      by (rule sbq_search.merge_fuel [OF assms(1) big assms(2,4)])
    fix rounds
    show "merge_loop (plain_disk s) p ls added max_alpha num mode rounds w \<noteq> Inl OutOfFuel"
      "merge_loop (plain_disk s) p ls added max_alpha num mode rounds w =
         merge_loop (plain_disk s) p ls added max_alpha num mode (Suc (length (w_others w))) w" if "length (w_others w) < rounds"
      using that by (auto intro!: plain plain_disk.merge_loop_more_fuel simp del: merge_loop.simps)
    show "merge_loop (sbq_disk (sbq_model q)) p ls added max_alpha num mode rounds v \<noteq> Inl OutOfFuel"
      "merge_loop (sbq_disk (sbq_model q)) p ls added max_alpha num mode rounds v =
         merge_loop (sbq_disk (sbq_model q)) p ls added max_alpha num mode (Suc (length (w_others v))) v" if "length (w_others v) < rounds"
      using that by (auto intro!: sbq sbq_search.merge_loop_more_fuel simp del: merge_loop.simps)
  qed
qed

theorem merge_terminates_witness:
  "merge_neighbors_on_disk (plain_disk sample_plain) ip2 None [nwd_of_lsn pair_lsn] 0x3FF3333333333333 2 (MergeBuilder True) pair_world \<noteq> Inl OutOfFuel"
proof -
  have "valid_ptrs [nwd_of_lsn pair_lsn]" by (simp add: valid_ptrs_def pair_lsn_def InvalidBlockNumber_def)
  then show ?thesis using merge_terminates [OF sample_f64(12) _ pair_world_ok sample_sbq_ok] by blast
qed

section \<open>The build cache\<close>

text \<open>
  C24. With no other backend at work, a flush publishes every adjacency of the build cache: the
  adjacency on disk becomes all of its neighbours and the cached ones, without the node itself, when
  they fit, and otherwise what pruning keeps of candidates for all of them. No other node changes, the
  cache is empty afterwards, and the flush returns.
\<close>

theorem flush_publishes:
  assumes "builder_ok b" "plain_world s w" "w_others w = []"
  shows "flush_neighbor_cache lru_list (plain_disk s) b w \<noteq> Inl OutOfFuel \<and>
    (\<forall>b' w'. flush_neighbor_cache lru_list (plain_disk s) b w = Inr (b', w') \<longrightarrow>
       plain_world s w' \<and> entries (neighbor_map b') = [] \<and>
       (\<forall>q. case lru_lookup (neighbor_map b) q of
          None \<Rightarrow> adj_at plain_iter_neighbors (w_rel w') q = adj_at plain_iter_neighbors (w_rel w) q
        | Some e \<Rightarrow> \<exists>(ns :: neighbor_with_distance list) old. adj_at plain_iter_neighbors (w_rel w) q = Some old \<and>
            adj_at plain_iter_neighbors (w_rel w') q = Some (map n_index_pointer ns) \<and>
            distinct (map n_index_pointer ns) \<and> length ns \<le> b_num_neighbors b \<and>
            (let all = (set old \<union> n_index_pointer ` set (e_neighbors e)) - {q} in
             if b_num_neighbors b < card all then
               \<exists>labels cands. (e_labels e \<noteq> None \<longrightarrow> labels = e_labels e) \<and> n_index_pointer ` set cands = all \<and>
                 distinct (map n_index_pointer cands) \<and>
                 (\<forall>c \<in> set cands. c \<in> set (e_neighbors e) \<or> n_index_pointer c \<in> set old) \<and>
                 pruned_to (plain_dist_at s (w_rel w')) labels (b_max_alpha b) (b_num_neighbors b) cands ns
             else n_index_pointer ` set ns = all)))"
proof -
  have "length (entries (neighbor_map b)) < Suc (lru_len (neighbor_map b))" by (simp add: lru_len_def)
  then have 1: "flush_neighbor_cache lru_list (plain_disk s) b w \<noteq> Inl OutOfFuel"
    unfolding flush_neighbor_cache_def by (rule plain_cached.flush_fuel [OF assms(1,2)])
  note f = plain_cached.flush_facts [OF _ assms, of "Suc (lru_len (neighbor_map b))", folded flush_neighbor_cache_def]
  show ?thesis
  proof (intro conjI 1 allI impI)
    fix b' w' q assume run: "flush_neighbor_cache lru_list (plain_disk s) b w = Inr (b', w')"
    note r = f [OF run]
    show "plain_world s w'" "entries (neighbor_map b') = []" using r by blast+
    note q = r [THEN conjunct2, THEN conjunct2, THEN conjunct2, THEN conjunct2, THEN spec, of q]
    show "case lru_lookup (neighbor_map b) q of
          None \<Rightarrow> adj_at plain_iter_neighbors (w_rel w') q = adj_at plain_iter_neighbors (w_rel w) q
        | Some e \<Rightarrow> \<exists>(ns :: neighbor_with_distance list) old. adj_at plain_iter_neighbors (w_rel w) q = Some old \<and>
            adj_at plain_iter_neighbors (w_rel w') q = Some (map n_index_pointer ns) \<and>
            distinct (map n_index_pointer ns) \<and> length ns \<le> b_num_neighbors b \<and>
            (let all = (set old \<union> n_index_pointer ` set (e_neighbors e)) - {q} in
             if b_num_neighbors b < card all then
               \<exists>labels cands. (e_labels e \<noteq> None \<longrightarrow> labels = e_labels e) \<and> n_index_pointer ` set cands = all \<and>
                 distinct (map n_index_pointer cands) \<and>
                 (\<forall>c \<in> set cands. c \<in> set (e_neighbors e) \<or> n_index_pointer c \<in> set old) \<and>
                 pruned_to (plain_dist_at s (w_rel w')) labels (b_max_alpha b) (b_num_neighbors b) cands ns
             else n_index_pointer ` set ns = all)"
    proof (cases "lru_lookup (neighbor_map b) q")
      case (Some e)
      from q [unfolded Some option.case] obtain pr ns old where
        "adj_at plain_iter_neighbors (w_rel w) q = Some old" "adj_at plain_iter_neighbors (w_rel w') q = Some (map n_index_pointer ns)"
        and m: "merged (plain_dist_at s (w_rel w')) (MergeBuilder False) (e_labels e) (b_max_alpha b) q (e_neighbors e) (b_num_neighbors b) pr old ns"
        by blast
      with merged_adopts [OF m, unfolded adopts_def] show ?thesis
        unfolding Some option.case by (intro exI [of _ ns] exI [of _ old]) simp
    qed (use q in simp)
  qed
qed

theorem flush_publishes_witness:
  "\<exists>b w. flush_neighbor_cache lru_list (plain_disk sample_plain) pair_cache pair_world = Inr (b, w) \<and>
     entries (neighbor_map b) = [] \<and> adj_at plain_iter_neighbors (w_rel w) ip2 = Some [ip1]"
proof -
  obtain b w where run: "flush_neighbor_cache lru_list (plain_disk sample_plain) pair_cache pair_world = Inr (b, w)"
    using pair_flush by blast
  have "w_others pair_world = []" by (simp add: pair_world_def)
  note f = flush_publishes [OF pair_cache_ok pair_world_ok this, THEN conjunct2, rule_format, OF run]
  have l: "lru_lookup (neighbor_map pair_cache) ip2 = Some \<lparr>e_labels = None, e_neighbors = [nwd_of_lsn pair_lsn]\<rparr>"
    by (simp add: pair_cache_def lru_lookup_def lru_new_def)
  have old: "adj_at plain_iter_neighbors (w_rel pair_world) ip2 = Some []"
    by (simp add: pair_world_def adj_at_def item_at_def pair_rel_def get_item_unchecked_def items_of_def sample_plain_node_def
        plain_iter_neighbors_def plain_num_neighbors_def slots_num_neighbors_def empty_slot_def InvalidBlockNumber_def)
  have p: "n_index_pointer ` set (e_neighbors \<lparr>e_labels = None, e_neighbors = [nwd_of_lsn pair_lsn]\<rparr>) = {ip1}"
    by (simp add: pair_lsn_def)
  have n: "b_num_neighbors pair_cache = 2" by (simp add: pair_cache_def)
  note q = f [THEN conjunct2, THEN conjunct2, THEN spec, of ip2, unfolded l option.case Let_def p old n]
  from q obtain ns :: "neighbor_with_distance list" where ns: "adj_at plain_iter_neighbors (w_rel w) ip2 = Some (map n_index_pointer ns)"
    "distinct (map n_index_pointer ns)" "set (map n_index_pointer ns) = {ip1}"
    by (auto split: if_splits)
  then have "length (map n_index_pointer ns) = 1" using distinct_card by fastforce
  then have "map n_index_pointer ns = [ip1]" using ns(3) by (auto simp: length_Suc_conv)
  then show ?thesis using run f ns(1) by (intro exI [of _ b] exI [of _ w] conjI) simp_all
qed

section \<open>Searching\<close>

text \<open>
  C28. A search returns on either storage, with and without label filters, from any entry points and
  through the build cache as well as on disk; if it does not fail, the state is well formed, its nodes
  are kept in order, and the frontier is done: no candidate is left, or the \<open>n\<close> closest visited nodes
  are at most as far away as every candidate.
\<close>

theorem search_returns:
  assumes "gns_ok g" "\<forall>ip \<in> set start. block_number ip \<noteq> InvalidBlockNumber"
    and "plain_world p u" "lsr_new (plain_storage_ops p) lru_list start pq tie g u = Inr (k, g0, u1)"
    and "sbq_world (sbq_model s) w" "lsr_new (sbq_storage_ops (sbq_model s)) lru_list start q tie g w = Inr (l, g1, w1)"
  shows "(\<exists>r. greedy_search_loop (plain_storage_ops p) lru_list n no_filter k (Some []) g0 u1 = Some r \<and> r \<noteq> Inl OutOfFuel \<and>
      (\<forall>k' vis g' u'. r = Inr (k', vis, g', u') \<longrightarrow> plain_world p u' \<and> gns_ok g' \<and> lsr_inv k' \<and> frontier_done n k')) \<and>
    (\<exists>r. greedy_search_loop (sbq_storage_ops (sbq_model s)) lru_list n no_filter l (Some []) g1 w1 = Some r \<and> r \<noteq> Inl OutOfFuel \<and>
      (\<forall>l' vis g' w'. r = Inr (l', vis, g', w') \<longrightarrow> sbq_world (sbq_model s) w' \<and> gns_ok g' \<and> lsr_inv l' \<and> frontier_done n l'))"
proof
  note st = plain_search.lsr_new_facts [OF assms(4,3,1,2), THEN conjunct1]
  show "\<exists>r. greedy_search_loop (plain_storage_ops p) lru_list n no_filter k (Some []) g0 u1 = Some r \<and> r \<noteq> Inl OutOfFuel \<and>
      (\<forall>k' vis g' u'. r = Inr (k', vis, g', u') \<longrightarrow> plain_world p u' \<and> gns_ok g' \<and> lsr_inv k' \<and> frontier_done n k')"
    using plain_search.greedy_search_loop_facts [OF st, of n no_filter]
    unfolding plain_search.search_state_def by blast
next
  note st = sbq_search.search.lsr_new_facts [OF assms(6,5,1,2), THEN conjunct1]
  show "\<exists>r. greedy_search_loop (sbq_storage_ops (sbq_model s)) lru_list n no_filter l (Some []) g1 w1 = Some r \<and> r \<noteq> Inl OutOfFuel \<and>
      (\<forall>l' vis g' w'. r = Inr (l', vis, g', w') \<longrightarrow> sbq_world (sbq_model s) w' \<and> gns_ok g' \<and> lsr_inv l' \<and> frontier_done n l')"
    using sbq_search.search.greedy_search_loop_facts [OF st, of n no_filter]
    unfolding sbq_search.search.search_state_def by blast
qed

theorem search_returns_witness:
  "\<exists>u1 r l w1 r'. lsr_new (plain_storage_ops sample_plain) lru_list [ip1] sample_query None DiskStore sample_plain_world =
      Inr (sample_state [lsn1] [] {ip1}, DiskStore, u1) \<and>
     greedy_search_loop (plain_storage_ops sample_plain) lru_list 100 False (sample_state [lsn1] [] {ip1}) (Some []) DiskStore u1 = Some r \<and>
     r \<noteq> Inl OutOfFuel \<and>
     lsr_new (sbq_storage_ops (sbq_model sample_sbq)) lru_list [ip1] sample_sbq_query None DiskStore sample_sbq_world = Inr (l, DiskStore, w1) \<and>
     greedy_search_loop (sbq_storage_ops (sbq_model sample_sbq)) lru_list 100 False l (Some []) DiskStore w1 = Some r' \<and> r' \<noteq> Inl OutOfFuel"
proof -
  obtain u1 where new: "lsr_new (plain_storage_ops sample_plain) lru_list [ip1] sample_query None DiskStore sample_plain_world =
     Inr (sample_state [lsn1] [] {ip1}, DiskStore, u1)" using sample_start by blast
  obtain l w1 where run: "lsr_new (sbq_storage_ops (sbq_model sample_sbq)) lru_list [ip1] sample_sbq_query None DiskStore sample_sbq_world = Inr (l, DiskStore, w1)"
    using sample_sbq_start by blast
  have "\<forall>ip \<in> set [ip1]. block_number ip \<noteq> InvalidBlockNumber" "gns_ok DiskStore"
    by (simp_all add: InvalidBlockNumber_def gns_ok_def)
  from search_returns [OF this(2,1) sample_plain_ok new sample_sbq_ok run, of 100 False] new run show ?thesis by blast
qed

text \<open>
  C5. A search that returns has explored its frontier: every neighbour of every visited node has been
  met, the visited nodes are sorted by distance, and either no candidate is left or more than \<open>n\<close>
  nodes have been visited and no candidate is closer than the \<open>n\<close>-th of them. The record of
  visited nodes is complete and without repetition, and nothing has changed on disk.
\<close>

theorem search_explores:
  assumes "plain_world s w" "\<forall>ip \<in> set start. block_number ip \<noteq> InvalidBlockNumber"
    and "lsr_new (plain_storage_ops s) lru_list start q tie DiskStore w = Inr (l, g1, w1)"
    and "greedy_search_loop (plain_storage_ops s) lru_list n no_filter l (Some []) g1 w1 = Some (Inr (l', vis, g', w'))"
  shows "same_disk w w' \<and> sorted (map lsn_key (visited l')) \<and> distinct (map lsn_index_pointer (visited l')) \<and>
    (candidates l' = [] \<or> n < length (visited l') \<and> (\<forall>c \<in> set (candidates l'). lsn_key (visited l' ! (n - 1)) \<le> lsn_key c)) \<and>
    (\<forall>x \<in> set (visited l'). \<exists>ns. adj_at plain_iter_neighbors (w_rel w) (lsn_index_pointer x) = Some ns \<and> set ns \<subseteq> inserted l') \<and>
    (\<exists>vs. vis = Some vs \<and> mset vs = mset (map nwd_of_lsn (visited l')))"
proof -
  have g: "gns_ok DiskStore" by (simp add: gns_ok_def)
  note f = plain_search.lsr_new_facts [OF assms(3,1) g assms(2)]
  note r = plain_search.greedy_search_loop_facts [OF conjunct1 [OF f], of n no_filter, unfolded assms(4)]
  have "same_disk w w1" "g1 = DiskStore" using f by (auto simp: store_kept_def)
  then have "same_disk w w'" "g' = DiskStore" "w_rel w' = w_rel w"
    using r same_disk_trans by (auto simp: store_kept_def same_disk_def)
  then show ?thesis
    using r unfolding plain_search.search_state_def lsr_inv_def frontier_done_def plain_search.closed_def vis_ok_def
    by auto
qed

theorem search_explores_witness:
  "\<exists>w1 w' vs. lsr_new (plain_storage_ops sample_plain) lru_list [ip1] sample_query None DiskStore sample_plain_world =
      Inr (sample_state [lsn1] [] {ip1}, DiskStore, w1) \<and>
    greedy_search_loop (plain_storage_ops sample_plain) lru_list 100 True (sample_state [lsn1] [] {ip1}) (Some []) DiskStore w1 =
      Some (Inr (sample_state [] [lsn3, lsn2, lsn1] {ip1, ip2, ip3}, Some vs, DiskStore, w')) \<and>
    mset vs = mset (map nwd_of_lsn [lsn3, lsn2, lsn1]) \<and> w_rel w' = sample_plain_rel"
proof -
  obtain w1 where new: "lsr_new (plain_storage_ops sample_plain) lru_list [ip1] sample_query None DiskStore sample_plain_world =
     Inr (sample_state [lsn1] [] {ip1}, DiskStore, w1)" and w1: "w_rel w1 = sample_plain_rel" "w_others w1 = []"
    using sample_start by blast
  obtain vis w' where run: "greedy_search_loop (plain_storage_ops sample_plain) lru_list 100 True (sample_state [lsn1] [] {ip1}) (Some []) DiskStore w1 =
    Some (Inr (sample_state [] [lsn3, lsn2, lsn1] {ip1, ip2, ip3}, vis, DiskStore, w'))"
    using sample_search [OF w1] by blast
  have ip: "\<forall>ip \<in> set [ip1]. block_number ip \<noteq> InvalidBlockNumber" by (simp add: InvalidBlockNumber_def)
  from search_explores [OF sample_plain_ok ip new run] obtain vs where
    "vis = Some vs" "mset vs = mset (map nwd_of_lsn [lsn3, lsn2, lsn1])" "same_disk sample_plain_world w'" by auto
  then show ?thesis using new run by (auto simp: same_disk_def sample_plain_world_def)
qed

text \<open>
  C21. A search with labels only ever meets nodes whose labels overlap those of the query, provided its
  entry points do; on disk and through the build cache.
\<close>

theorem search_filters_labels:
  assumes "sbq_world (sbq_model s) w" "gns_ok g" "\<forall>ip \<in> set start. block_number ip \<noteq> InvalidBlockNumber"
    and "lv_labels (qdm_query q) = Some ls"
    and "\<forall>ip \<in> set start. \<forall>n. item_at (w_rel w) ip = Some n \<longrightarrow> (\<exists>nl. sbq_labels n = Some nl \<and> overlaps ls nl)"
    and "lsr_new (sbq_storage_ops (sbq_model s)) lru_list start q tie g w = Inr (l, g1, w1)"
    and "greedy_search_loop (sbq_storage_ops (sbq_model s)) lru_list n False l (Some []) g1 w1 = Some (Inr (l', vis, g', w'))"
  shows "\<forall>x \<in> set (visited l') \<union> set (candidates l'). \<exists>nl. lsn_labels x = Some nl \<and> overlaps ls nl"
proof -
  note f = sbq_search.search.lsr_new_facts [OF assms(6,1,2,3)]
  have sd: "sdm l = Some q" using f by blast
  have "lsr_all (passes ls) l'"
  proof (rule sbq_search.search.greedy_search_loop_keeps [OF _ assms(7) conjunct1 [OF f] sd])
    show "lsr_all (passes ls) l" by (rule sbq_search.sbq_new_passes [OF assms(6,1,5)])
    show "lsr_all (passes ls) l2" if "s_visit_lsn (sbq_storage_ops (sbq_model s)) lru_list l1 i g2 False w2 = Inr (l2, g3, w3)"
      "sdm l1 = Some q" "lsr_all (passes ls) l1" for l1 i g2 w2 l2 g3 w3
      using sbq_visit_passes [OF _ that(2) assms(4) that(3)] that(1) by (simp add: sbq_storage_ops_def)
  qed
  then show ?thesis by (auto simp: lsr_all_def passes_def)
qed

theorem search_filters_labels_witness:
  "\<exists>w1 l' vis g' w'. greedy_search_loop (sbq_storage_ops (sbq_model sample_sbq)) lru_list 100 False
      (sample_sbq_state [sample_sbq_lsn] [] {ip1}) (Some []) DiskStore w1 = Some (Inr (l', vis, g', w')) \<and>
    inserted l' = {ip1, ip2} \<and> visited l' = [sample_sbq_lsn] \<and>
    (\<exists>nl. lsn_labels sample_sbq_lsn = Some nl \<and> overlaps (LabelSet [1]) nl)"
proof -
  obtain w1 where new: "lsr_new (sbq_storage_ops (sbq_model sample_sbq)) lru_list [ip1] sample_sbq_query None DiskStore sample_sbq_world =
     Inr (sample_sbq_state [sample_sbq_lsn] [] {ip1}, DiskStore, w1)" and w1: "w_rel w1 = w_rel sample_sbq_world"
    using sample_sbq_start by blast
  obtain vis w' where run: "greedy_search_loop (sbq_storage_ops (sbq_model sample_sbq)) lru_list 100 False
      (sample_sbq_state [sample_sbq_lsn] [] {ip1}) (Some []) DiskStore w1 =
    Some (Inr (sample_sbq_state [] [sample_sbq_lsn] {ip1, ip2}, vis, DiskStore, w'))"
    using sample_sbq_search [OF w1] by blast
  have h: "gns_ok DiskStore" "\<forall>ip \<in> set [ip1]. block_number ip \<noteq> InvalidBlockNumber"
    "lv_labels (qdm_query sample_sbq_query) = Some (LabelSet [1])"
    by (simp_all add: InvalidBlockNumber_def gns_ok_def sample_sbq_query_def)
  have "item_at (w_rel sample_sbq_world) ip1 = Some (sample_sbq_node 0 1 [ip2, empty_slot])"
    by (simp add: item_at_def sample_sbq_world_def get_item_unchecked_def items_of_def)
  then have "\<forall>ip \<in> set [ip1]. \<forall>n. item_at (w_rel sample_sbq_world) ip = Some n \<longrightarrow>
      (\<exists>nl. sbq_labels n = Some nl \<and> overlaps (LabelSet [1]) nl)"
    by (simp add: sample_sbq_node_def overlaps_def cmp_of_def)
  from search_filters_labels [OF sample_sbq_ok h this new run]
  obtain nl where "lsn_labels sample_sbq_lsn = Some nl" "overlaps (LabelSet [1]) nl" by auto
  then show ?thesis using run by (intro exI conjI) (assumption, simp_all)
qed

section \<open>Insertion\<close>

text \<open>
  C8. With no other backend at work, an insertion links the new node to the nodes that the search for
  its vector visited: its adjacency becomes all of its neighbours and the visited nodes, without
  itself, when they fit, and otherwise what pruning keeps of candidates for all of them. Each node in
  it gets a pointer back to the new one, at the distance and with the labels the new node has it with,
  by the same rule on its own adjacency. No other adjacency changes.
\<close>

theorem insert_links:
  assumes "plain_world s w" "w_others w = []" "graph_ok gr" "g_store gr = DiskStore"
    and "block_number ip \<noteq> InvalidBlockNumber" "\<And>v. mset (ord v) = mset v"
    and "insert_internal (plain_storage_ops s) lru_list ord gr ip vec no_filter w = Inr (orphan, gr', w')"
  shows "let num = unat (m_num_neighbors (g_meta gr)); alpha = m_max_alpha (g_meta gr);
      adj = (\<lambda>v. adj_at plain_iter_neighbors (w_rel v)); D = plain_dist_at s (w_rel w')
    in gr' = gr \<and> plain_world s w' \<and>
      (\<exists>vs v old ns. greedy_search_for_build (plain_storage_ops s) lru_list gr ip vec no_filter w = Inr (vs, gr, v) \<and>
         adj w ip = Some old \<and> adj w' ip = Some (map n_index_pointer ns) \<and>
         adopts D (lv_labels vec) alpha ip (ord vs) num old ns \<and>
         (\<forall>q. q \<noteq> ip \<longrightarrow>
            (if q \<in> n_index_pointer ` set ns then
               \<exists>n \<in> set ns. n_index_pointer n = q \<and>
                 (\<exists>old ms. adj w q = Some old \<and> adj w' q = Some (map n_index_pointer ms) \<and>
                    adopts D (n_labels n) alpha q [nwd_new ip (n_distance n) (lv_labels vec)] num old ms)
             else adj w' q = adj w q)))"
proof -
  let ?m = "g_meta gr" and ?adj = "\<lambda>v. adj_at plain_iter_neighbors (w_rel v)" and ?D = "plain_dist_at s (w_rel w')"
  from plain_search.insert_internal_disk [OF assms(7,1,2,3,4,5,6)] obtain vs v pr old ns where
    d: "gr' = gr" "greedy_search_for_build (plain_storage_ops s) lru_list gr ip vec no_filter w = Inr (vs, gr, v)"
    "?adj w ip = Some old" "?adj w' ip = Some (map n_index_pointer ns)"
    and m: "merged ?D MergeDisk (lv_labels vec) (m_max_alpha ?m) ip (ord vs) (unat (m_num_neighbors ?m)) pr old ns"
    and q: "\<And>q. q \<noteq> ip \<Longrightarrow> if q \<in> n_index_pointer ` set ns then plain_search.linked s ip (lv_labels vec) ?m ns w w' q
            else ?adj w' q = ?adj w q"
    by blast
  have world: "plain_world s w'"
    using plain_search.insert_internal_facts [OF assms(7,1,3,5,6)] unfolding plain_search.graph_kept_def by blast
  have ad: "adopts ?D (lv_labels vec) (m_max_alpha ?m) ip (ord vs) (unat (m_num_neighbors ?m)) old ns"
    using merged_adopts [OF m] by simp
  have ptr: "if q \<in> n_index_pointer ` set ns then
       \<exists>n \<in> set ns. n_index_pointer n = q \<and>
         (\<exists>old ms. ?adj w q = Some old \<and> ?adj w' q = Some (map n_index_pointer ms) \<and>
            adopts ?D (n_labels n) (m_max_alpha ?m) q [nwd_new ip (n_distance n) (lv_labels vec)] (unat (m_num_neighbors ?m)) old ms)
     else ?adj w' q = ?adj w q" if "q \<noteq> ip" for q
    using q [OF that] merged_adopts [of ?D MergeDisk] unfolding plain_search.linked_def by (auto split: if_splits) blast
  show ?thesis
    unfolding Let_def
    by (rule conjI [OF d(1)], rule conjI [OF world], rule exI [of _ vs], rule exI [of _ v], rule exI [of _ old], rule exI [of _ ns],
        intro conjI allI impI; (rule d ad | erule ptr))
qed

theorem insert_links_witness:
  "\<exists>w. insert_internal (plain_storage_ops sample_plain) lru_list id pair_graph ip2 pair_query True pair_world = Inr (False, pair_graph, w) \<and>
     plain_world sample_plain w \<and> adj_at plain_iter_neighbors (w_rel w) ip2 = Some [ip1] \<and>
     (\<exists>vs v old (ns :: neighbor_with_distance list). greedy_search_for_build (plain_storage_ops sample_plain) lru_list pair_graph ip2 pair_query True pair_world =
        Inr (vs, pair_graph, v) \<and> adj_at plain_iter_neighbors (w_rel w) ip2 = Some (map n_index_pointer ns) \<and>
        adopts (plain_dist_at sample_plain (w_rel w)) (lv_labels pair_query) (m_max_alpha pair_meta) ip2 vs
          (unat (m_num_neighbors pair_meta)) old ns)"
proof -
  obtain w where run: "insert_internal (plain_storage_ops sample_plain) lru_list id pair_graph ip2 pair_query True pair_world =
      Inr (False, pair_graph, w)" and w: "w_rel w = pair_rel [ip2, empty_slot] [ip1, empty_slot]"
    using pair_insert [of pair_world] by (auto simp: pair_world_def)
  have g: "graph_ok pair_graph"
    by (simp add: graph_ok_def gns_ok_def entry_points_ok_def pair_meta_def new_meta_page_def get_all_nodes_def
        start_nodes_new_def InvalidBlockNumber_def options_default_def sample_f64)
  have o: "w_others pair_world = []" "g_store pair_graph = DiskStore" "block_number ip2 \<noteq> InvalidBlockNumber"
    by (simp_all add: pair_world_def InvalidBlockNumber_def)
  note i = insert_links [OF pair_world_ok o(1) g o(2,3) _ run, unfolded Let_def]
  have "plain_world sample_plain w" using i by simp
  moreover have "adj_at plain_iter_neighbors (w_rel w) ip2 = Some [ip1]"
    by (simp add: w adj_at_def item_at_def pair_rel_def get_item_unchecked_def items_of_def)
  moreover have "\<exists>vs v old (ns :: neighbor_with_distance list). greedy_search_for_build (plain_storage_ops sample_plain) lru_list pair_graph ip2 pair_query True pair_world =
        Inr (vs, pair_graph, v) \<and> adj_at plain_iter_neighbors (w_rel w) ip2 = Some (map n_index_pointer ns) \<and>
        adopts (plain_dist_at sample_plain (w_rel w)) (lv_labels pair_query) (m_max_alpha pair_meta) ip2 vs
          (unat (m_num_neighbors pair_meta)) old ns"
    using i by (simp only: id_apply graph.simps) blast
  ultimately show ?thesis using run by blast
qed

section \<open>Entry points\<close>

text \<open>
  C7. No entry point that any backend has published is lost, however old the meta page in memory is:
  after an update of the entry points, the page on disk has the default entry point and every
  labelled one it had before and is otherwise unchanged, and the page in memory has entry points
  for every label of the new node; unless the page in memory had them already, so has the one on
  disk, and both are the same.
\<close>

theorem entry_points_survive:
  assumes "meta_codec_laws c" "meta_fetch c header_le rel = Inr m" "meta_valid m"
    and "\<And>s. m_start_nodes m = Some s \<Longrightarrow> start_nodes_inv s" "rel_inv rel"
    and "length rel + length (ser_meta c (with_entry m ip ls)) + 21 < 2 ^ 32 - 1"
    and "update_start_nodes c header_le pg_page_8k S lops gr ip ls w rel = Inr (gr', w', rel')"
  shows "\<exists>m'. meta_fetch c header_le rel' = Inr m' \<and> m'\<lparr>m_start_nodes := m_start_nodes m\<rparr> = m \<and> has_entry (g_meta gr') ls \<and>
    (has_entry (g_meta gr) ls \<or> has_entry m' ls \<and> g_meta gr' = m') \<and>
    (\<forall>s. m_start_nodes m = Some s \<longrightarrow> (\<exists>s'. m_start_nodes m' = Some s' \<and> default_node s' = default_node s \<and>
       (\<forall>l n. bt_get l (labeled_nodes s) = Some n \<longrightarrow> bt_get l (labeled_nodes s') = Some n)))"
proof -
  have p: "meta_codec_laws.publishable c rel m ip ls"
    using assms(2-6) by (simp add: meta_codec_laws.publishable_def [OF assms(1)] start_ok_def)
  note f = meta_codec_laws.update_start_nodes_published [OF assms(1,7) p]
  note e = meta_codec_laws.update_start_nodes_facts [OF assms(1,7) p, THEN conjunct1]
  from f obtain m' where "meta_fetch c header_le rel' = Inr m'" "entry_extends (m_start_nodes m) (m_start_nodes m')"
    "m'\<lparr>m_start_nodes := m_start_nodes m\<rparr> = m" "has_entry (g_meta gr) ls \<or> has_entry m' ls \<and> g_meta gr' = m'" by blast
  then show ?thesis using e by (intro exI [of _ m']) (auto simp: entry_extends_def)
qed

text \<open>A meta page of version 2, with the entry point 1 and no labels; the update migrates it.\<close>

definition sample_v2_rel :: chain_rel where
  "sample_v2_rel = [InitPage (tsv_opaque_new MetaV2) [[0], [0]]]"

definition sample_v2_meta :: meta_page where
  "sample_v2_meta = meta_page_from_v2 (arch_v2 sample_codec [])"

lemma sample_v2:
  "meta_fetch sample_codec header_le sample_v2_rel = Inr sample_v2_meta" "meta_valid sample_v2_meta" "rel_inv sample_v2_rel"
  "m_start_nodes sample_v2_meta = Some (start_nodes_new ip1)"
proof -
  have d: "ensure_valid_dimensions 3 3 = Inr ()" by (simp add: ensure_valid_dimensions_def MAX_DIMENSION_def)
  show "meta_fetch sample_codec header_le sample_v2_rel = Inr sample_v2_meta"
    by (simp add: meta_fetch_def sample_v2_rel_def sample_v2_meta_def read_buffer_def META_BLOCK_NUMBER_def readable_type_def
        meta_v2_from_page_def get_item_unchecked_def items_of_def META_HEADER_OFFSET_def META_OFFSET_def
        sample_codec_def Let_def meta_page_from_v2_def d)
  show "meta_valid sample_v2_meta"
    by (simp add: meta_valid_def sample_v2_meta_def sample_codec_def meta_page_from_v2_def d is_ok_def)
  show "rel_inv sample_v2_rel" by (auto simp: sample_v2_rel_def rel_inv_def page_inv_def MaxOffsetNumber_def)
  show s: "m_start_nodes sample_v2_meta = Some (start_nodes_new ip1)"
    by (simp add: sample_v2_meta_def sample_codec_def meta_page_from_v2_def)
qed

lemma sample_v2_small:
  "length sample_v2_rel + length (ser_meta sample_codec (with_entry sample_v2_meta ip2 (Some (LabelSet [3])))) + 21 < 2 ^ 32 - 1"
proof -
  have "length (m_extension_version_when_built sample_v2_meta) < 1000"
    by (simp add: sample_v2_meta_def sample_codec_def meta_page_from_v2_def)
  then have "length (ser_meta sample_codec (with_entry sample_v2_meta ip2 (Some (LabelSet [3])))) < 2 ^ 31"
    by (intro sample_codec_length) (auto simp: sample_v2(4) set_start_nodes_def merge_start_nodes_def start_nodes_new_def enc_start_def
        start_nodes_contains_def start_nodes_upsert_def bt_get_def enc_label_def)
  then show ?thesis by (simp add: sample_v2_rel_def)
qed

theorem entry_points_survive_witness:
  "\<exists>gr rel m'. update_start_nodes sample_codec header_le pg_page_8k (plain_storage_ops sample_plain) lru_list pair_graph ip2
      (Some (LabelSet [3])) pair_world sample_v2_rel = Inr (gr, pair_world, rel) \<and>
    meta_fetch sample_codec header_le rel = Inr m' \<and> has_entry m' (Some (LabelSet [3])) \<and>
    (\<exists>s. m_start_nodes m' = Some s \<and> default_node s = ip1)"
proof -
  let ?ls = "Some (LabelSet [3])"
  have p: "sample_codec.publishable sample_v2_rel sample_v2_meta ip2 ?ls"
    using sample_v2 sample_v2_small by (simp add: sample_codec.publishable_def start_ok_def)
  obtain rel where st: "meta_store sample_codec header_le pg_page_8k (with_entry sample_v2_meta ip2 ?ls) sample_v2_rel False = Inr rel"
    using sample_codec.publish_entry [OF p] by blast
  have no: "\<not> has_entry pair_meta ?ls" "\<not> has_entry sample_v2_meta ?ls"
    using sample_v2(4) by (simp_all add: has_entry_def pair_meta_def contains_all_def start_nodes_new_def bt_get_def)
  let ?gr = "\<lparr>g_store = DiskStore, g_meta = with_entry sample_v2_meta ip2 ?ls\<rparr>"
  have run: "update_start_nodes sample_codec header_le pg_page_8k (plain_storage_ops sample_plain) lru_list pair_graph ip2
      ?ls pair_world sample_v2_rel = Inr (?gr, pair_world, rel)"
    using no st sample_v2(1,4) by (simp add: update_start_nodes_def has_entry_def Let_def)
  have inv: "\<And>s. m_start_nodes sample_v2_meta = Some s \<Longrightarrow> start_nodes_inv s" using sample_v2(4) by simp
  from entry_points_survive [OF sample_codec.meta_codec_laws_axioms sample_v2(1,2) inv sample_v2(3) sample_v2_small run] no
  obtain m' s' where "meta_fetch sample_codec header_le rel = Inr m'" "has_entry m' ?ls" "m_start_nodes m' = Some s'" "default_node s' = ip1"
    using sample_v2(4) by (auto simp: start_nodes_new_def)
  then show ?thesis using run by blast
qed

text \<open>
  C22. An insertion returns, on either kind of neighbour store and among other backends that keep the
  nodes well formed, and leaves the graph well formed with an entry point for every label of the
  inserted vector.
\<close>

theorem insert_returns:
  assumes "meta_codec_laws c" "meta_fetch c header_le rel = Inr m" "meta_valid m"
    and "\<And>s. m_start_nodes m = Some s \<Longrightarrow> start_nodes_inv s" "rel_inv rel"
    and "length rel + length (ser_meta c (with_entry m ip (lv_labels vec))) + 21 < 2 ^ 32 - 1"
    and "entry_points_ok m" "f64_le (m_max_alpha m) 0x4014000000000000"
    and "sbq_world (sbq_model s) w" "graph_ok gr" "block_number ip \<noteq> InvalidBlockNumber" "\<And>v. mset (ord v) = mset v"
  shows "graph_insert c header_le pg_page_8k (sbq_storage_ops (sbq_model s)) lru_list ord gr ip vec w rel \<noteq> Inl OutOfFuel \<and>
    (\<forall>gr' w' rel'. graph_insert c header_le pg_page_8k (sbq_storage_ops (sbq_model s)) lru_list ord gr ip vec w rel =
        Inr (gr', w', rel') \<longrightarrow>
      sbq_world (sbq_model s) w' \<and> graph_ok gr' \<and> has_entry (g_meta gr') (lv_labels vec))"
proof -
  have p: "meta_codec_laws.publishable c rel m ip (lv_labels vec)"
    using assms(2-6) by (simp add: meta_codec_laws.publishable_def [OF assms(1)] start_ok_def)
  show ?thesis
    using sbq_search.search.graph_insert_facts [OF assms(1) p assms(7-11,12)] by blast
qed

theorem insert_returns_witness:
  "graph_insert sample_codec header_le pg_page_8k (sbq_storage_ops (sbq_model sample_sbq)) lru_list id pair_graph ip2
     \<lparr>lv_vec = \<lparr>index_distance = Some [0], full_distance = None\<rparr>, lv_labels = Some (LabelSet [3])\<rparr>
     sample_sbq_world sample_v2_rel \<noteq> Inl OutOfFuel"
proof -
  let ?vec = "\<lparr>lv_vec = \<lparr>index_distance = Some [0], full_distance = None\<rparr>, lv_labels = Some (LabelSet [3])\<rparr>"
  have inv: "\<And>s. m_start_nodes sample_v2_meta = Some s \<Longrightarrow> start_nodes_inv s" using sample_v2(4) by simp
  have len: "length sample_v2_rel + length (ser_meta sample_codec (with_entry sample_v2_meta ip2 (lv_labels ?vec))) + 21 < 2 ^ 32 - 1"
    using sample_v2_small by simp
  have m: "entry_points_ok sample_v2_meta" "f64_le (m_max_alpha sample_v2_meta) 0x4014000000000000"
    "block_number ip2 \<noteq> InvalidBlockNumber"
    using sample_v2(4)
    by (simp_all add: entry_points_ok_def get_all_nodes_def start_nodes_new_def InvalidBlockNumber_def sample_v2_meta_def
        meta_page_from_v2_def sample_codec_def sample_f64)
  have g: "graph_ok pair_graph"
    by (simp add: graph_ok_def gns_ok_def entry_points_ok_def pair_meta_def new_meta_page_def get_all_nodes_def
        start_nodes_new_def InvalidBlockNumber_def options_default_def sample_f64)
  show ?thesis
    using insert_returns [OF sample_codec.meta_codec_laws_axioms sample_v2(1,2) inv sample_v2(3) len m(1,2)
        sample_sbq_ok g m(3), of id] by simp
qed

end
