(* ===== verification/Scan.thy ===== *)
theory Scan
  imports Graph_Facts Binary_Heap
begin

text \<open>
  \<open>scan.rs\<close>: the iterator that streams the rows of a search in the order of their distance in the
  index, and the buffer that reorders a window of them by their exact distance.

  Both loops run until the search is exhausted: they are partial functions, whose value \<open>None\<close> is a
  scan that does not return, and \<open>Scan_Facts\<close> proves that there is none. The counters of an iterator
  are \<open>i32\<close> and wrap; pins on pages are PostgreSQL's.
\<close>

section \<open>The state of a scan\<close>

record resort_data =
  rd_heap_pointer :: heap_pointer
  rd_index_pointer :: item_pointer
  rd_distance :: f32

text \<open>\<open>ResortData::cmp\<close> reverses the total order of the distances, which makes the heap a min heap.\<close>

definition resort_cmp :: "resort_data \<Rightarrow> resort_data \<Rightarrow> ordering" where
  "resort_cmp a b = cmp_of (f32_total_key (rd_distance b)) (f32_total_key (rd_distance a))"

definition resort_le :: "resort_data \<Rightarrow> resort_data \<Rightarrow> bool" where
  "resort_le a b = (resort_cmp a b \<noteq> Greater)"

record streaming_stats =
  ss_count :: "32 word"
  ss_mean :: f32
  ss_m2 :: f32
  ss_max_distance :: f32

definition streaming_stats_new :: streaming_stats where
  "streaming_stats_new = \<lparr>ss_count = 0, ss_mean = f32_zero, ss_m2 = f32_zero, ss_max_distance = f32_zero\<rparr>"

definition i32_as_f32 :: "32 word \<Rightarrow> f32" where
  "i32_as_f32 n = (if sint n < 0 then f32_neg (f32_of_nat (nat (- sint n))) else f32_of_nat (nat (sint n)))"

definition update_base_stats :: "f32 \<Rightarrow> streaming_stats \<Rightarrow> streaming_stats" where
  "update_base_stats d s =
     (if f32_eq d f32_zero then s
      else
        let count = ss_count s + 1;
            delta = f32_sub d (ss_mean s);
            mean = f32_add (ss_mean s) (f32_div delta (i32_as_f32 count));
            delta2 = f32_sub d mean
        in s\<lparr>ss_count := count, ss_mean := mean, ss_m2 := f32_add (ss_m2 s) (f32_mul delta delta2)\<rparr>)"

definition ss_variance :: "streaming_stats \<Rightarrow> f32" where
  "ss_variance s = (if sint (ss_count s) < 2 then f32_zero else f32_div (ss_m2 s) (i32_as_f32 (ss_count s - 1)))"

definition ss_update :: "f32 \<Rightarrow> f32 \<Rightarrow> streaming_stats \<Rightarrow> streaming_stats" where
  "ss_update d diff s =
     (let s = update_base_stats diff s in s\<lparr>ss_max_distance := f32_max (ss_max_distance s) d\<rparr>)"

record ('q, 'pd) tsv_response_iterator =
  it_lsr :: "('q, 'pd) lsr"
  it_search_list_size :: nat
  it_meta_page :: meta_page
  it_resort_size :: nat
  it_resort_buffer :: "resort_data list"
  it_streaming_stats :: streaming_stats
  it_next_calls :: "32 word"
  it_next_calls_with_resort :: "32 word"
  it_full_distance_comparisons :: "32 word"
  it_has_label_filter :: bool

text \<open>\<open>resort_size\<close> is the setting \<open>diskann.query_rescore\<close>; the meta page is read again by the caller.\<close>

definition tsv_response_iterator_new ::
  "('n, 'd, 'q, 'pd) storage \<Rightarrow> builder_ops \<Rightarrow> meta_page \<Rightarrow> nat \<Rightarrow> labeled_vector \<Rightarrow> nat \<Rightarrow> 'n world
     \<Rightarrow> (('q, 'pd) tsv_response_iterator \<times> 'n world) res" where
  "tsv_response_iterator_new S lops meta_page resort_size query search_list_size w =
     (let graph = \<lparr>g_store = DiskStore, g_meta = meta_page\<rparr>;
          has_label_filter = (case lv_labels query of None \<Rightarrow> False | Some ls \<Rightarrow> \<not> label_set_is_empty ls)
      in rbind (greedy_search_streaming_init S lops graph query w) (\<lambda>(lsr, graph, w).
         Inr (\<lparr>it_lsr = lsr, it_search_list_size = search_list_size, it_meta_page = g_meta graph,
               it_resort_size = resort_size, it_resort_buffer = [], it_streaming_stats = streaming_stats_new,
               it_next_calls = 0, it_next_calls_with_resort = 0, it_full_distance_comparisons = 0,
               it_has_label_filter = has_label_filter\<rparr>, w)))"

section \<open>The next row\<close>

text \<open>The loop of \<open>next\<close>: search on, return the closest node visited, skip it if it is deleted.\<close>

partial_function (option) next_loop ::
  "('n, 'd, 'q, 'pd) storage \<Rightarrow> builder_ops \<Rightarrow> nat \<Rightarrow> bool \<Rightarrow> ('q, 'pd) lsr \<Rightarrow> 'n world
     \<Rightarrow> ((heap_pointer \<times> item_pointer) option \<times> ('q, 'pd) lsr \<times> 'n world) res option" where
  "next_loop S lops search_list_size no_filter l w =
     (case rbind (greedy_search_iterate S lops search_list_size no_filter l None DiskStore w) (\<lambda>(l, _, _, w). lsr_consume S l w) of
        Inl e \<Rightarrow> Some (Inl e)
      | Inr (None, l, w) \<Rightarrow> Some (Inr (None, l, w))
      | Inr (Some (heap_pointer, index_pointer), l, w) \<Rightarrow>
          if offset heap_pointer = InvalidOffsetNumber then next_loop S lops search_list_size no_filter l w
          else Some (Inr (Some (heap_pointer, index_pointer), l, w)))"

definition it_next ::
  "('n, 'd, 'q, 'pd) storage \<Rightarrow> builder_ops \<Rightarrow> ('q, 'pd) tsv_response_iterator \<Rightarrow> 'n world
     \<Rightarrow> ((heap_pointer \<times> item_pointer) option \<times> ('q, 'pd) tsv_response_iterator \<times> 'n world) res" where
  "it_next S lops it w =
     rbind (returned (next_loop S lops (it_search_list_size it) (\<not> it_has_label_filter it) (it_lsr it) w)) (\<lambda>(row, l, w).
     Inr (row, it\<lparr>it_next_calls := it_next_calls it + 1, it_lsr := l\<rparr>, w))"

section \<open>Rescoring\<close>

text \<open>A row of the window: its exact distance, unless the table has no visible tuple for it.\<close>

definition resort_row ::
  "('n, 'd, 'q, 'pd) storage \<Rightarrow> heap_pointer \<Rightarrow> item_pointer \<Rightarrow> ('q, 'pd) tsv_response_iterator \<Rightarrow> 'n world
     \<Rightarrow> (('q, 'pd) tsv_response_iterator \<times> 'n world) res" where
  "resort_row S heap_pointer index_pointer it w =
     (let it = it\<lparr>it_full_distance_comparisons := it_full_distance_comparisons it + 1\<rparr> in
      rbind (runwrap (sdm (it_lsr it)) ''unwrap'') (\<lambda>q.
      rbind (s_resort_distance S q heap_pointer w) (\<lambda>(dist, w).
      case dist of
        None \<Rightarrow> Inr (it, w)
      | Some dist \<Rightarrow>
          let it = (if length (it_resort_buffer it) > 1
                    then it\<lparr>it_streaming_stats := ss_update dist
                             (f32_sub dist (ss_max_distance (it_streaming_stats it))) (it_streaming_stats it)\<rparr>
                    else it)
          in Inr (it\<lparr>it_resort_buffer := bh_push resort_le
                       \<lparr>rd_heap_pointer = heap_pointer, rd_index_pointer = index_pointer, rd_distance = dist\<rparr>
                       (it_resort_buffer it)\<rparr>, w))))"

partial_function (option) resort_fill ::
  "('n, 'd, 'q, 'pd) storage \<Rightarrow> builder_ops \<Rightarrow> ('q, 'pd) tsv_response_iterator \<Rightarrow> 'n world
     \<Rightarrow> (('q, 'pd) tsv_response_iterator \<times> 'n world) res option" where
  "resort_fill S lops it w =
     (if length (it_resort_buffer it) < it_resort_size it then
        (case it_next S lops it w of
           Inl e \<Rightarrow> Some (Inl e)
         | Inr (None, it, w) \<Rightarrow> Some (Inr (it, w))
         | Inr (Some (heap_pointer, index_pointer), it, w) \<Rightarrow>
             (case resort_row S heap_pointer index_pointer it w of
                Inl e \<Rightarrow> Some (Inl e)
              | Inr (it, w) \<Rightarrow> resort_fill S lops it w))
      else Some (Inr (it, w)))"

text \<open>
  The capacity of the buffer is zero exactly when it was created for zero elements: nothing is
  pushed then.
\<close>

definition it_next_with_resort ::
  "('n, 'd, 'q, 'pd) storage \<Rightarrow> builder_ops \<Rightarrow> ('q, 'pd) tsv_response_iterator \<Rightarrow> 'n world
     \<Rightarrow> ((heap_pointer \<times> item_pointer) option \<times> ('q, 'pd) tsv_response_iterator \<times> 'n world) res" where
  "it_next_with_resort S lops it w =
     (let it = it\<lparr>it_next_calls_with_resort := it_next_calls_with_resort it + 1\<rparr> in
      if it_resort_size it = 0 then it_next S lops it w
      else
        rbind (returned (resort_fill S lops it w)) (\<lambda>(it, w).
        case bh_pop resort_le (it_resort_buffer it) of
          None \<Rightarrow> Inr (None, it, w)
        | Some (rd, buffer) \<Rightarrow>
            Inr (Some (rd_heap_pointer rd, rd_index_pointer rd), it\<lparr>it_resort_buffer := buffer\<rparr>, w)))"

end
