(* ===== verification/Scan_Facts.thy ===== *)
theory Scan_Facts
  imports Scan
begin

text \<open>
  What a scan promises over any storage that satisfies \<open>scan_storage\<close>: it streams the live rows of
  the nodes that can be reached from the entry points, each once, the closest node met first; and it
  ends, having streamed them all. Rescoring streams those that are visible in the table, each being the
  closest of its window.
\<close>

section \<open>Reachability\<close>

text \<open>The nodes a search can meet: over adjacencies \<open>A\<close>, through nodes that the filter lets pass.\<close>

inductive_set reachable ::
  "(item_pointer \<Rightarrow> item_pointer list option) \<Rightarrow> (item_pointer \<Rightarrow> bool) \<Rightarrow> item_pointer set \<Rightarrow> item_pointer set"
  for A M S0 where
  start: "p \<in> S0 \<Longrightarrow> p \<in> reachable A M S0"
| step: "p \<in> reachable A M S0 \<Longrightarrow> A p = Some ns \<Longrightarrow> q \<in> set ns \<Longrightarrow> M q \<Longrightarrow> q \<in> reachable A M S0"

lemma reachable_closed:
  assumes "S0 \<subseteq> R" and "\<And>p ns q. p \<in> R \<Longrightarrow> A p = Some ns \<Longrightarrow> q \<in> set ns \<Longrightarrow> M q \<Longrightarrow> q \<in> R"
  shows "reachable A M S0 \<subseteq> R"
proof
  fix p assume "p \<in> reachable A M S0"
  then show "p \<in> R" by induction (use assms in auto)
qed

section \<open>The contract of a scan\<close>

text \<open>
  \<open>node_heap\<close> is the row of a node, \<open>meets\<close> the label filter, and \<open>exact\<close> the distance of the query to
  the vector of a row in the table, if it is visible.
\<close>

locale scan_storage = search_storage S winv dist_at adj k lops lsn_ok
  for S :: "('n, 'd, 'q, 'pd) storage" and winv dist_at adj k lops lsn_ok +
  fixes node_heap :: "'n \<Rightarrow> heap_pointer" and meets :: "'q \<Rightarrow> bool \<Rightarrow> 'n \<Rightarrow> bool"
    and exact :: "'q \<Rightarrow> heap_pointer \<Rightarrow> f32 option res"
  assumes visit_meets: "winv w \<Longrightarrow> lsr_all (lsn_ok DiskStore (w_rel w)) l \<Longrightarrow> sdm l = Some q \<Longrightarrow> i < length (visited l) \<Longrightarrow>
      s_visit_lsn S lops l i DiskStore nf w = Inr (l', g', w') \<Longrightarrow>
      \<exists>ns. adj (w_rel w) (lsn_index_pointer (visited l ! i)) = Some ns \<and> inserted l' = inserted l \<union> set ns \<and>
        set (ptrs (candidates l')) = set (ptrs (candidates l)) \<union>
          {p \<in> set ns - inserted l. \<exists>n. item_at (w_rel w) p = Some n \<and> meets q nf n}"
    and return_heap: "lsn_ok DiskStore (w_rel w) x \<Longrightarrow> s_return_lsn S x w = Inr (hp, w') \<Longrightarrow>
      \<exists>n. item_at (w_rel w) (lsn_index_pointer x) = Some n \<and> hp = node_heap n"
    and return_fuel: "s_return_lsn S x w \<noteq> Inl OutOfFuel"
    and resort_facts: "winv w \<Longrightarrow> s_resort_distance S q hp w = Inr (d, w') \<Longrightarrow>
      winv w' \<and> same_disk w w' \<and> exact q hp = Inr d"
    and resort_fuel: "s_resort_distance S q hp w \<noteq> Inl OutOfFuel"
begin

definition meets_at :: "'n relation \<Rightarrow> 'q \<Rightarrow> bool \<Rightarrow> item_pointer \<Rightarrow> bool" where
  "meets_at rel q nf p \<longleftrightarrow> (\<exists>n. item_at rel p = Some n \<and> meets q nf n)"

definition live :: "'n relation \<Rightarrow> item_pointer \<Rightarrow> heap_pointer \<Rightarrow> bool" where
  "live rel p hp \<longleftrightarrow> (\<exists>n. item_at rel p = Some n \<and> hp = node_heap n \<and> offset hp \<noteq> InvalidOffsetNumber)"

text \<open>
  The state of a scan: \<open>R\<close> are the nodes taken off the visited ones so far, and what is met is what has
  been taken, visited, or waits. Whatever is known but not met did not pass the filter.
\<close>

definition scan_state :: "item_pointer set \<Rightarrow> 'q \<Rightarrow> bool \<Rightarrow> item_pointer set \<Rightarrow> 'n world \<Rightarrow> ('q, 'pd) lsr \<Rightarrow> bool" where
  "scan_state R q nf S0 w l \<longleftrightarrow>
     search_state DiskStore w l None \<and> sdm l = Some q \<and>
     (let M = meets_at (w_rel w) q nf; A = adj (w_rel w);
          met = R \<union> set (ptrs (visited l)) \<union> set (ptrs (candidates l))
      in S0 \<subseteq> met \<and> met \<subseteq> reachable A M S0 \<and> met \<subseteq> inserted l \<and> inserted l \<subseteq> met \<union> {p. \<not> M p} \<and>
         R \<inter> (set (ptrs (visited l)) \<union> set (ptrs (candidates l))) = {} \<and>
         (\<forall>p \<in> R. \<exists>ns. A p = Some ns \<and> set ns \<subseteq> inserted l))"

lemma scan_state_search: "scan_state R q nf S0 w l \<Longrightarrow> search_state DiskStore w l None"
  by (simp add: scan_state_def)

lemma scan_state_same: "same_disk w w' \<Longrightarrow> winv w' \<Longrightarrow> scan_state R q nf S0 w l \<Longrightarrow> scan_state R q nf S0 w' l"
  by (auto simp: scan_state_def search_state_def same_disk_def)

lemma search_state_count [simp]: "search_state g (w\<lparr>w_stats := s\<rparr>) l vis = search_state g w l vis"
  by (simp add: search_state_def winv_count)

lemma scan_state_count [simp]: "scan_state R q nf S0 (w\<lparr>w_stats := s\<rparr>) l = scan_state R q nf S0 w l"
  by (simp add: scan_state_def)

abbreviation met :: "item_pointer set \<Rightarrow> ('q, 'pd) lsr \<Rightarrow> item_pointer set" where
  "met R l \<equiv> R \<union> set (ptrs (visited l)) \<union> set (ptrs (candidates l))"

lemma scan_stateD:
  assumes "scan_state R q nf S0 w l"
  shows "search_state DiskStore w l None" "sdm l = Some q" "S0 \<subseteq> met R l"
    "met R l \<subseteq> reachable (adj (w_rel w)) (meets_at (w_rel w) q nf) S0" "met R l \<subseteq> inserted l"
    "inserted l \<subseteq> met R l \<union> {p. \<not> meets_at (w_rel w) q nf p}"
    "R \<inter> (set (ptrs (visited l)) \<union> set (ptrs (candidates l))) = {}"
    "\<forall>p \<in> R. \<exists>ns. adj (w_rel w) p = Some ns \<and> set ns \<subseteq> inserted l"
  using assms unfolding scan_state_def Let_def by blast+

text \<open>When nothing is left, everything that can be reached has been taken.\<close>

lemma scan_state_done:
  assumes st: "scan_state R q nf S0 w l" and "visited l = []" "candidates l = []"
  shows "R = reachable (adj (w_rel w)) (meets_at (w_rel w) q nf) S0"
proof
  have met: "met R l = R" using assms(2,3) by simp
  note s = scan_stateD [OF st, unfolded met]
  show "R \<subseteq> reachable (adj (w_rel w)) (meets_at (w_rel w) q nf) S0" by (rule s(4))
  show "reachable (adj (w_rel w)) (meets_at (w_rel w) q nf) S0 \<subseteq> R"
  proof (rule reachable_closed [OF s(3)])
    fix p ns p' assume p: "p \<in> R" "adj (w_rel w) p = Some ns" "p' \<in> set ns" "meets_at (w_rel w) q nf p'"
    have "set ns \<subseteq> inserted l" using s(8) p(1,2) by fastforce
    then show "p' \<in> R" using s(6) p(3,4) by blast
  qed
qed

section \<open>Searching on\<close>

lemma scan_round:
  assumes st: "scan_state R q nf S0 w l" and vc: "visit_closest n l = Inr (Some i, l1)"
    and vl: "s_visit_lsn S lops l1 i DiskStore nf (count record_visit w) = Inr (l2, g2, w2)"
  shows "g2 = DiskStore \<and> scan_state R q nf S0 w2 l2"
proof -
  have pre: "search_state DiskStore w l None" "sdm l = Some q" "lsr_inv l" "winv (count record_visit w)" "gns_ok DiskStore"
    "lsr_all (lsn_ok DiskStore (w_rel w)) l"
    using st by (auto simp: scan_state_def search_state_def winv_count)
  from visit_closest_sets [OF vc pre(3)] obtain h where
    h: "set (visited l1) = insert h (set (visited l))" "set (candidates l) = insert h (set (candidates l1))"
      "i < length (visited l1)" "visited l1 ! i = h" "inserted l1 = inserted l" "sdm l1 = sdm l" "lsr_inv l1" by blast
  have "record_visited l1 i None = Inr None" by (simp add: record_visited_def)
  note r = visit_round [OF pre(1) vc this vl]
  have g2: "g2 = DiskStore" "same_disk w w2" using r by (auto simp: store_kept_def)
  have "lsr_all (lsn_ok DiskStore (w_rel (count record_visit w))) l1" using pre(6) h(1,2) by (auto simp: lsr_all_def)
  from visit_meets [OF pre(4) this _ h(3) vl, of q] pre(2) h(4,6) obtain ns where
    ns: "adj (w_rel w) (lsn_index_pointer h) = Some ns" "inserted l2 = inserted l1 \<union> set ns"
      "set (ptrs (candidates l2)) = set (ptrs (candidates l1)) \<union> {p \<in> set ns - inserted l1. meets_at (w_rel w) q nf p}"
    by (auto simp: meets_at_def)
  have l2: "visited l2 = visited l1" "sdm l2 = Some q"
    using visit_lsn [OF pre(4,5) vl] h(6) pre(2) by (auto simp: lsr_step_def)
  let ?A = "adj (w_rel w)" and ?M = "meets_at (w_rel w) q nf"
  note s = scan_stateD [OF st]
  define new where "new = {p \<in> set ns - inserted l. ?M p}"
  have v2: "set (ptrs (visited l2)) = insert (lsn_index_pointer h) (set (ptrs (visited l)))"
    unfolding l2(1) set_map h(1) by simp
  have c2: "set (ptrs (candidates l2)) \<union> {lsn_index_pointer h} = set (ptrs (candidates l)) \<union> new"
  proof -
    have "set (ptrs (candidates l)) = insert (lsn_index_pointer h) (set (ptrs (candidates l1)))" unfolding set_map h(2) by simp
    then show ?thesis using ns(3) unfolding h(5) new_def [symmetric] by blast
  qed
  have hc: "lsn_index_pointer h \<in> set (ptrs (candidates l))" unfolding set_map h(2) by simp
  have met2: "met R l2 = met R l \<union> new" using v2 c2 hc by blast
  have "new \<subseteq> reachable ?A ?M S0"
  proof
    fix p assume p: "p \<in> new"
    have "lsn_index_pointer h \<in> reachable ?A ?M S0" using hc s(4) by blast
    from reachable.step [OF this, where ns = ns and q = p] show "p \<in> reachable ?A ?M S0"
      using ns(1) p by (simp add: new_def)
  qed
  then have 1: "met R l2 \<subseteq> reachable ?A ?M S0" unfolding met2 using s(4) by blast
  have 2: "inserted l2 = inserted l \<union> set ns" using ns(2) h(5) by simp
  have "set ns \<subseteq> inserted l \<union> new \<union> {p. \<not> ?M p}" by (auto simp: new_def)
  then have 3: "inserted l2 \<subseteq> met R l2 \<union> {p. \<not> ?M p}" unfolding met2 2 using s(6) by blast
  have "R \<inter> new = {}" using s(5) by (auto simp: new_def)
  moreover have "set (ptrs (visited l2)) \<union> set (ptrs (candidates l2)) \<subseteq> set (ptrs (visited l)) \<union> set (ptrs (candidates l)) \<union> new"
    using v2 c2 hc by blast
  ultimately have 4: "R \<inter> (set (ptrs (visited l2)) \<union> set (ptrs (candidates l2))) = {}" using s(7) by blast
  have "new \<subseteq> inserted l2" unfolding 2 new_def by blast
  then have 5: "met R l2 \<subseteq> inserted l2" unfolding met2 using s(5) 2 by blast
  have 6: "\<forall>p \<in> R. \<exists>ns. ?A p = Some ns \<and> set ns \<subseteq> inserted l2" using s(8) unfolding 2 by (meson le_supI1)
  have 7: "S0 \<subseteq> met R l2" unfolding met2 using s(3) by blast
  have rel: "w_rel w2 = w_rel w" using g2(2) by (simp add: same_disk_def)
  have "search_state DiskStore w2 l2 None" using r g2(1) by simp
  then show ?thesis
    using g2(1) l2(2) 1 3 4 5 6 7 unfolding scan_state_def Let_def rel by blast
qed

lemma scan_search:
  assumes run: "greedy_search_iterate S lops n nf l None DiskStore w = Inr (l', vis, g', w')"
    and st: "scan_state R q nf S0 w l"
  shows "scan_state R q nf S0 w' l' \<and> same_disk w w' \<and> frontier_done n l'"
proof -
  have loop: "greedy_search_loop S lops n nf l None DiskStore w = Some (Inr (l', vis, g', w'))"
    using run by (auto simp: greedy_search_iterate_def returned_def split: option.splits)
  have "g' = DiskStore \<and> scan_state R q nf S0 w' l'"
  proof (rule greedy_search_loop_invariant [OF _ loop, where P = "\<lambda>g w l. g = DiskStore \<and> scan_state R q nf S0 w l"])
    show "g2 = DiskStore \<and> scan_state R q nf S0 w2 l2"
      if "g = DiskStore \<and> scan_state R q nf S0 w l" "visit_closest n l = Inr (Some i, l1)"
        "s_visit_lsn S lops l1 i g nf (count record_visit w) = Inr (l2, g2, w2)" for g w l i l1 l2 g2 w2
      using that scan_round [of R q nf S0 w l n i l1 l2 g2 w2] by blast
  qed (use st in \<open>auto dest: scan_stateD\<close>)
  moreover have "same_disk w w' \<and> frontier_done n l'"
    using greedy_search_iterate_facts [OF run scan_stateD(1) [OF st]] by (auto simp: store_kept_def)
  ultimately show ?thesis by blast
qed

text \<open>The closest visited node is taken.\<close>

lemma scan_consume:
  assumes run: "lsr_consume S l w = Inr (r, l', w')" and st: "scan_state R q nf S0 w l"
  shows "same_disk w w' \<and>
    (case r of
       None \<Rightarrow> visited l = [] \<and> l' = l \<and> scan_state R q nf S0 w' l'
     | Some (hp, ip) \<Rightarrow> ip \<notin> R \<and> scan_state (insert ip R) q nf S0 w' l' \<and>
         (\<exists>n. item_at (w_rel w) ip = Some n \<and> hp = node_heap n) \<and>
         (\<exists>x rest. visited l = x # rest \<and> lsn_index_pointer x = ip))"
proof (cases "visited l")
  case Nil
  then have "r = None" "l' = l" "w' = w" using run by (simp_all add: lsr_consume_def)
  then show ?thesis using Nil st by simp
next
  case (Cons x rest)
  then obtain hp where ret: "s_return_lsn S x w = Inr (hp, w')" and r: "r = Some (hp, lsn_index_pointer x)"
    and l': "l' = l\<lparr>visited := rest\<rparr>"
    using run by (auto simp: lsr_consume_def)
  note s = scan_stateD [OF st]
  have ss: "winv w" "lsr_inv l" "lsr_all (lsn_ok DiskStore (w_rel w)) l" "closed (w_rel w) l"
    using s(1) by (auto simp: search_state_def)
  have sd: "winv w'" "same_disk w w'" using return_lsn [OF ss(1) ret] by blast+
  have rel: "w_rel w' = w_rel w" using sd(2) by (simp add: same_disk_def)
  let ?x = "lsn_index_pointer x"
  have xv: "x \<in> set (visited l)" using Cons by simp
  have "lsn_ok DiskStore (w_rel w) x" using ss(3) xv by (simp add: lsr_all_def)
  note rh = return_heap [OF this ret]
  have vs: "set (ptrs (visited l)) = insert ?x (set (ptrs (visited l')))" using Cons l' by simp
  have cs: "candidates l' = candidates l" "inserted l' = inserted l" "sdm l' = sdm l" by (simp_all add: l')
  have d: "distinct (ptrs (candidates l) @ ptrs (visited l))" using ss(2) by (simp add: lsr_inv_def)
  have fresh: "?x \<notin> set (ptrs (visited l'))" "?x \<notin> set (ptrs (candidates l))"
    using d unfolding Cons l' by auto
  have met: "met (insert ?x R) l' = met R l" using vs cs(1) by auto
  obtain ns where ns: "adj (w_rel w) ?x = Some ns" "set ns \<subseteq> inserted l" using ss(4) xv by (auto simp: closed_def)
  have "lsr_inv l'" using ss(2) Cons by (auto simp: lsr_inv_def l')
  moreover have "lsr_all (lsn_ok DiskStore (w_rel w')) l'" using ss(3) Cons by (auto simp: lsr_all_def l' rel)
  moreover have "closed (w_rel w') l'" using ss(4) Cons by (simp add: closed_def l' rel)
  ultimately have "search_state DiskStore w' l' None"
    using sd(1) by (simp add: search_state_def gns_ok_def vis_ok_def)
  moreover have "insert ?x R \<inter> (set (ptrs (visited l')) \<union> set (ptrs (candidates l'))) = {}"
    using s(7) vs fresh cs(1) by auto
  moreover have "\<forall>p \<in> insert ?x R. \<exists>ns. adj (w_rel w) p = Some ns \<and> set ns \<subseteq> inserted l'"
    using s(8) ns cs(2) by auto
  moreover note s(2-6) [folded met cs(2)]
  ultimately have "scan_state (insert ?x R) q nf S0 w' l'"
    unfolding scan_state_def Let_def rel cs(3) by (intro conjI) assumption+
  moreover have "?x \<notin> R" using s(7) xv by auto
  ultimately show ?thesis using rh sd(2) r Cons by auto
qed

lemma lsr_consume_fuel: "lsr_consume S l w \<noteq> Inl OutOfFuel"
  unfolding lsr_consume_def using return_fuel by (auto simp: rbind_def split: list.splits sum.splits)

section \<open>The next row\<close>

text \<open>
  What a call of \<open>next\<close> does: it takes deleted nodes until it finds a live one, which is the closest of
  the nodes met and not taken; or it has taken everything that can be reached.
\<close>

definition next_result ::
  "item_pointer set \<Rightarrow> 'q \<Rightarrow> bool \<Rightarrow> item_pointer set \<Rightarrow> 'n world \<Rightarrow> (heap_pointer \<times> item_pointer) option \<Rightarrow> ('q, 'pd) lsr
     \<Rightarrow> 'n world \<Rightarrow> bool" where
  "next_result R q nf S0 w row l' w' \<longleftrightarrow>
     same_disk w w' \<and>
     (\<exists>R'. R \<subseteq> R' \<and> (\<forall>p \<in> R' - R. \<nexists>hp. live (w_rel w) p hp) \<and>
       (case row of
          None \<Rightarrow> scan_state R' q nf S0 w' l' \<and> R' = reachable (adj (w_rel w)) (meets_at (w_rel w) q nf) S0
        | Some (hp, ip) \<Rightarrow> ip \<notin> R' \<and> live (w_rel w) ip hp \<and> scan_state (insert ip R') q nf S0 w' l'))"

lemma next_result_skip:
  assumes "same_disk w w1" "ip \<notin> R" "\<nexists>hp. live (w_rel w) ip hp" "next_result (insert ip R) q nf S0 w1 row l' w'"
  shows "next_result R q nf S0 w row l' w'"
proof -
  have rel: "w_rel w1 = w_rel w" using assms(1) by (simp add: same_disk_def)
  obtain R' where R': "insert ip R \<subseteq> R'" "\<forall>p \<in> R' - insert ip R. \<nexists>hp. live (w_rel w) p hp"
    "case row of
          None \<Rightarrow> scan_state R' q nf S0 w' l' \<and> R' = reachable (adj (w_rel w)) (meets_at (w_rel w) q nf) S0
        | Some (hp, ip) \<Rightarrow> ip \<notin> R' \<and> live (w_rel w) ip hp \<and> scan_state (insert ip R') q nf S0 w' l'"
    using assms(4) unfolding next_result_def rel by blast
  have "\<forall>p \<in> R' - R. \<nexists>hp. live (w_rel w) p hp" using R'(2) assms(3) by blast
  moreover have "same_disk w w'" using same_disk_trans assms(1,4) unfolding next_result_def by blast
  ultimately show ?thesis using R'(1,3) unfolding next_result_def by (intro conjI exI [of _ R']) auto
qed

lemma next_loop_facts:
  assumes "scan_state R q nf S0 w l"
  shows "\<exists>r. next_loop S lops n nf l w = Some r \<and> r \<noteq> Inl OutOfFuel \<and>
    (\<forall>row l' w'. r = Inr (row, l', w') \<longrightarrow> next_result R q nf S0 w row l' w')"
  using assms
proof (induction "card (UNIV - R)" arbitrary: R l w rule: less_induct)
  case less
  let ?step = "rbind (greedy_search_iterate S lops n nf l None DiskStore w) (\<lambda>(l, _, _, w). lsr_consume S l w)"
  note unfold = next_loop.simps [of S lops n nf l w]
  have nof: "?step \<noteq> Inl OutOfFuel"
    by (intro no_fuel greedy_search_iterate_fuel lsr_consume_fuel) (rule scan_stateD(1) [OF less.prems])
  show ?case
  proof (cases ?step)
    case (Inl e)
    then show ?thesis using unfold nof by auto
  next
    case (Inr t)
    obtain row l2 w2 where t: "t = (row, l2, w2)" by (cases t)
    obtain l1 vis g1 w1 where it: "greedy_search_iterate S lops n nf l None DiskStore w = Inr (l1, vis, g1, w1)"
      and co: "lsr_consume S l1 w1 = Inr (row, l2, w2)"
      using Inr t by auto
    note ss = scan_search [OF it less.prems]
    have rel: "w_rel w1 = w_rel w" using ss by (simp add: same_disk_def)
    note cf = scan_consume [OF co conjunct1 [OF ss]]
    have sd: "same_disk w w2" using ss cf same_disk_trans by blast
    have rel2: "w_rel w2 = w_rel w" using sd by (simp add: same_disk_def)
    show ?thesis
    proof (cases row)
      case None
      then have "visited l1 = []" "l2 = l1" "scan_state R q nf S0 w2 l2" using cf by auto
      moreover have "candidates l1 = []" using ss \<open>visited l1 = []\<close> by (simp add: frontier_done_def)
      ultimately have "next_result R q nf S0 w None l2 w2"
        using sd scan_state_done [of R q nf S0 w2 l2] unfolding next_result_def rel2 by auto
      then show ?thesis using unfold Inr t None by auto
    next
      case (Some x)
      obtain hp ip where x: "x = (hp, ip)" by (cases x)
      have f: "ip \<notin> R" "scan_state (insert ip R) q nf S0 w2 l2" "\<exists>n. item_at (w_rel w) ip = Some n \<and> hp = node_heap n"
        using cf Some x by (auto simp: rel)
      show ?thesis
      proof (cases "offset hp = InvalidOffsetNumber")
        case False
        then have "live (w_rel w) ip hp" using f(3) by (auto simp: live_def)
        then have "next_result R q nf S0 w row l2 w2"
          using f sd Some x unfolding next_result_def by (intro conjI exI [of _ R]) auto
        then show ?thesis using unfold Inr t Some x False by auto
      next
        case True
        have "UNIV - insert ip R \<subset> UNIV - R" using f(1) by auto
        then have "card (UNIV - insert ip R) < card (UNIV - R)"
          by (intro psubset_card_mono finite_subset [OF subset_UNIV finite_item_pointer])
        from less.hyps [OF this f(2)] obtain r where
          ih: "next_loop S lops n nf l2 w2 = Some r" "r \<noteq> Inl OutOfFuel"
            "\<forall>row l' w'. r = Inr (row, l', w') \<longrightarrow> next_result (insert ip R) q nf S0 w2 row l' w'" by blast
        have dead: "\<nexists>hp. live (w_rel w) ip hp" using f(3) True by (auto simp: live_def)
        have "next_loop S lops n nf l w = Some r" using unfold Inr t Some x True ih(1) by simp
        then show ?thesis using ih(2,3) next_result_skip [OF sd f(1) dead] by blast
      qed
    qed
  qed
qed

section \<open>The start of a scan\<close>

lemma lsr_new_meets:
  assumes run: "lsr_new S lops sn q tie DiskStore w = Inr (l, g', w')" and w: "winv w"
    and sn: "\<forall>ip \<in> set sn. block_number ip \<noteq> InvalidBlockNumber"
  shows "g' = DiskStore \<and> same_disk w w' \<and> scan_state {} q nf (set sn) w' l"
proof -
  let ?f = "\<lambda>ip (l, gns, w). rbind (s_create_lsn S lops l ip gns w) (\<lambda>(n, l, gns, w).
        case n of None \<Rightarrow> Inr (l, gns, w)
        | Some n \<Rightarrow> (case insert_neighbor n l w of (l, w) \<Rightarrow> Inr (l, gns, w)))"
  have "inserted l' = inserted l \<union> set ips \<and> set (ptrs (candidates l')) = inserted l'"
    if "rfold ?f ips (l, g, w) = Inr (l', g', w')"
      "winv w" "gns_ok g" "set (ptrs (candidates l)) = inserted l" for ips l g w l' g' w'
    using that
  proof (induction ips arbitrary: l g w)
    case (Cons ip ips)
    from Cons.prems(1) obtain x where x: "?f ip (l, g, w) = Inr x" "rfold ?f ips x = Inr (l', g', w')"
      unfolding rfold.simps rbind_eq_Inr by blast
    obtain l2 g1 w2 where e: "x = (l2, g1, w2)" by (cases x)
    note st = x(1) [unfolded e case_prod_conv] and rest = x(2) [unfolded e]
    from create_split [OF st] obtain n l1 w1 where c: "s_create_lsn S lops l ip g w = Inr (n, l1, g1, w1)"
      and i: "(case n of None \<Rightarrow> (l1, w1) | Some m \<Rightarrow> insert_neighbor m l1 w1) = (l2, w2)" by blast
    note cf = create_lsn [OF Cons.prems(2,3) c]
    have ps: "inserted l1 = insert ip (inserted l)" "candidates l1 = candidates l" "n = None \<longleftrightarrow> ip \<in> inserted l"
      using cf by (auto simp: prepare_insert_def)
    have w2: "winv w2" "gns_ok g1"
      using cf i store_kept_gns_ok by (auto simp: insert_neighbor_def winv_count split: option.splits)
    have "inserted l2 = insert ip (inserted l) \<and> set (ptrs (candidates l2)) = inserted l2"
    proof (cases n)
      case None
      then show ?thesis using ps Cons.prems(4) i by auto
    next
      case (Some m)
      then have ins: "insert_neighbor m l1 w1 = (l2, w2)" "lsn_index_pointer m = ip" using i cf by auto
      then have "mset (candidates l2) = add_mset m (mset (candidates l))" by (auto simp: insert_neighbor_def ps(2))
      then have "set (candidates l2) = insert m (set (candidates l))" by (metis set_mset_add_mset_insert set_mset_mset)
      then show ?thesis using ps(1) inserted_insert [OF ins(1)] Cons.prems(4) ins(2) by auto
    qed
    then show ?case using Cons.IH [OF rest w2] by auto
  qed simp
  from this [OF run [unfolded lsr_new_def]] have eq: "inserted l = set sn" "set (ptrs (candidates l)) = set sn"
    using w by (auto simp: winv_count gns_ok_def lsr_empty_def)
  note f = lsr_new_facts [OF run w _ sn]
  have g: "g' = DiskStore" "same_disk w w'" using f by (auto simp: gns_ok_def store_kept_def)
  moreover have "set sn \<subseteq> reachable A M (set sn)" for A M by (auto intro: reachable.start)
  ultimately show ?thesis
    using f eq unfolding scan_state_def Let_def by (simp add: gns_ok_def)
qed

section \<open>Streaming\<close>

definition it_state :: "item_pointer set \<Rightarrow> 'q \<Rightarrow> item_pointer set \<Rightarrow> 'n world \<Rightarrow> ('q, 'pd) tsv_response_iterator \<Rightarrow> bool" where
  "it_state R q S0 w it = scan_state R q (\<not> it_has_label_filter it) S0 w (it_lsr it)"

lemma iterator_new_state:
  assumes run: "tsv_response_iterator_new S lops m rs query n w = Inr (it, w')" and w: "winv w"
    and m: "m_start_nodes m = Some s" "\<forall>ip \<in> set (get_for_node s (lv_labels query)). block_number ip \<noteq> InvalidBlockNumber"
  shows "\<exists>q. s_query_dm S query = Inr q \<and> same_disk w w' \<and> it_state {} q (set (get_for_node s (lv_labels query))) w' it \<and>
    it_resort_buffer it = [] \<and> it_resort_size it = rs \<and> it_search_list_size it = n \<and>
    it_has_label_filter it = (\<exists>ls. lv_labels query = Some ls \<and> labels ls \<noteq> [])"
proof -
  obtain q l g w1 where q: "s_query_dm S query = Inr q"
    and l: "lsr_new S lops (get_for_node s (lv_labels query)) q None DiskStore w = Inr (l, g, w')"
    and it: "it_lsr it = l" "it_resort_buffer it = []" "it_resort_size it = rs" "it_search_list_size it = n"
      "it_has_label_filter it = (case lv_labels query of None \<Rightarrow> False | Some ls \<Rightarrow> \<not> label_set_is_empty ls)"
    using run m(1) by (auto simp: tsv_response_iterator_new_def greedy_search_streaming_init_def Let_def)
  show ?thesis
    using q it lsr_new_meets [OF l w m(2)] by (auto simp: it_state_def label_set_is_empty_def split: option.splits)
qed

lemma it_next_facts:
  assumes "it_state R q S0 w it"
  shows "it_next S lops it w \<noteq> Inl OutOfFuel"
    "it_next S lops it w = Inr (row, it', w') \<Longrightarrow>
       next_result R q (\<not> it_has_label_filter it) S0 w row (it_lsr it') w' \<and>
       it_has_label_filter it' = it_has_label_filter it \<and> it_resort_size it' = it_resort_size it \<and>
       it_resort_buffer it' = it_resort_buffer it"
proof -
  obtain r where r: "next_loop S lops (it_search_list_size it) (\<not> it_has_label_filter it) (it_lsr it) w = Some r" "r \<noteq> Inl OutOfFuel"
    "\<forall>row l' w'. r = Inr (row, l', w') \<longrightarrow> next_result R q (\<not> it_has_label_filter it) S0 w row l' w'"
    using next_loop_facts [OF assms [unfolded it_state_def]] by blast
  show "it_next S lops it w \<noteq> Inl OutOfFuel"
    unfolding it_next_def r(1) returned_def option.case by (intro no_fuel r(2))
  show "next_result R q (\<not> it_has_label_filter it) S0 w row (it_lsr it') w' \<and>
       it_has_label_filter it' = it_has_label_filter it \<and> it_resort_size it' = it_resort_size it \<and>
       it_resort_buffer it' = it_resort_buffer it" if "it_next S lops it w = Inr (row, it', w')"
    using that r by (auto simp: it_next_def returned_def)
qed

end

text \<open>
  Repeated calls by the executor: the rows of the first \<open>k\<close> calls, up to the end of the scan.
\<close>

primrec pull ::
  "('s \<Rightarrow> 'w \<Rightarrow> ('r option \<times> 's \<times> 'w) res) \<Rightarrow> nat \<Rightarrow> 's \<Rightarrow> 'w \<Rightarrow> ('r list \<times> 's \<times> 'w) res" where
  "pull f 0 it w = Inr ([], it, w)"
| "pull f (Suc k) it w =
     rbind (f it w) (\<lambda>(row, it, w).
     case row of
       None \<Rightarrow> Inr ([], it, w)
     | Some r \<Rightarrow> rbind (pull f k it w) (\<lambda>(rs, it, w). Inr (r # rs, it, w)))"

text \<open>
  A source of rows: \<open>I T\<close> holds when the rows in \<open>T\<close> have been taken, and \<open>P\<close> are the rows there are.
\<close>

lemma pull_facts:
  fixes f :: "'s \<Rightarrow> 'w \<Rightarrow> (('h \<times> 'p) option \<times> 's \<times> 'w) res"
  assumes nxt: "\<And>T s w row s' w'. I T s w \<Longrightarrow> f s w = Inr (row, s', w') \<Longrightarrow>
      (case row of None \<Rightarrow> I T s' w' \<and> (\<forall>h p. P h p \<longrightarrow> p \<in> T)
       | Some (h, p) \<Rightarrow> P h p \<and> p \<notin> T \<and> I (insert p T) s' w')"
    and fuel: "\<And>T s w. I T s w \<Longrightarrow> f s w \<noteq> Inl OutOfFuel"
    and I: "I T s w"
  shows "pull f k s w \<noteq> Inl OutOfFuel"
    and "pull f k s w = Inr (rows, s', w') \<Longrightarrow>
      distinct (map snd rows) \<and> snd ` set rows \<inter> T = {} \<and> (\<forall>(h, p) \<in> set rows. P h p) \<and> length rows \<le> k \<and>
      (length rows < k \<longrightarrow> (\<forall>h p. P h p \<longrightarrow> p \<in> T \<union> snd ` set rows)) \<and> I (T \<union> snd ` set rows) s' w'"
proof -
  show "pull f k s w \<noteq> Inl OutOfFuel"
    using I
  proof (induction k arbitrary: T s w)
    case (Suc k)
    show ?case
    proof (cases "f s w")
      case (Inl e)
      then show ?thesis using fuel [OF Suc.prems] by auto
    next
      case (Inr x)
      obtain row s1 w1 where x: "x = (row, s1, w1)" by (cases x)
      show ?thesis
      proof (cases row)
        case (Some r)
        then obtain h p where "r = (h, p)" "I (insert p T) s1 w1"
          using nxt [OF Suc.prems Inr [unfolded x]] by (cases r) auto
        then have "pull f k s1 w1 \<noteq> Inl OutOfFuel" using Suc.IH by blast
        then show ?thesis using Inr x Some by (auto simp: rbind_def split: sum.splits)
      qed (simp add: Inr x)
    qed
  qed simp
  show "distinct (map snd rows) \<and> snd ` set rows \<inter> T = {} \<and> (\<forall>(h, p) \<in> set rows. P h p) \<and> length rows \<le> k \<and>
      (length rows < k \<longrightarrow> (\<forall>h p. P h p \<longrightarrow> p \<in> T \<union> snd ` set rows)) \<and> I (T \<union> snd ` set rows) s' w'" if "pull f k s w = Inr (rows, s', w')"
    using I that
  proof (induction k arbitrary: T s w rows)
    case (Suc k)
    from Suc.prems(2) obtain row s1 w1 where f: "f s w = Inr (row, s1, w1)" by auto
    note n = nxt [OF Suc.prems(1) f]
    show ?case
    proof (cases row)
      case None
      then show ?thesis using Suc.prems(2) f n by auto
    next
      case (Some r)
      obtain h p where r: "r = (h, p)" by (cases r)
      have n': "P h p" "p \<notin> T" "I (insert p T) s1 w1" using n Some r by auto
      obtain rs where rs: "pull f k s1 w1 = Inr (rs, s', w')" "rows = (h, p) # rs"
        using Suc.prems(2) f Some r by auto
      show ?thesis using Suc.IH [OF n'(3) rs(1)] n' rs(2) by auto
    qed
  qed simp
qed

context scan_storage
begin

text \<open>The rows there are: those of the live nodes that can be reached.\<close>

definition rows_of :: "'n relation \<Rightarrow> 'q \<Rightarrow> bool \<Rightarrow> item_pointer set \<Rightarrow> heap_pointer \<Rightarrow> item_pointer \<Rightarrow> bool" where
  "rows_of rel q nf S0 hp p \<longleftrightarrow> p \<in> reachable (adj rel) (meets_at rel q nf) S0 \<and> live rel p hp"

text \<open>What has been taken are the rows streamed so far and deleted nodes.\<close>

definition stream_state :: "'n relation \<Rightarrow> 'q \<Rightarrow> bool \<Rightarrow> item_pointer set \<Rightarrow> item_pointer set \<Rightarrow> ('q, 'pd) tsv_response_iterator \<Rightarrow> 'n world \<Rightarrow> bool" where
  "stream_state rel q nf S0 T it w \<longleftrightarrow>
     w_rel w = rel \<and> it_has_label_filter it = (\<not> nf) \<and>
     (\<exists>R. T \<subseteq> R \<and> (\<forall>p \<in> R - T. \<nexists>hp. live rel p hp) \<and> it_state R q S0 w it)"

lemma stream_state_next:
  assumes st: "stream_state rel q nf S0 T it w" and run: "it_next S lops it w = Inr (row, it', w')"
  shows "case row of None \<Rightarrow> stream_state rel q nf S0 T it' w' \<and> (\<forall>h p. rows_of rel q nf S0 h p \<longrightarrow> p \<in> T)
       | Some (h, p) \<Rightarrow> rows_of rel q nf S0 h p \<and> p \<notin> T \<and> stream_state rel q nf S0 (insert p T) it' w'"
proof -
  obtain R where R: "T \<subseteq> R" "\<forall>p \<in> R - T. \<nexists>hp. live rel p hp" "it_state R q S0 w it" and rel: "w_rel w = rel"
    and nf: "it_has_label_filter it = (\<not> nf)" using st by (auto simp: stream_state_def)
  have nf2: "(\<not> it_has_label_filter it) = nf" using nf by simp
  note f = it_next_facts(2) [OF R(3) run, unfolded nf2]
  have sd: "w_rel w' = rel" using f rel by (simp add: next_result_def same_disk_def)
  obtain R' where R': "R \<subseteq> R'" "\<forall>p \<in> R' - R. \<nexists>hp. live rel p hp"
    "case row of None \<Rightarrow> scan_state R' q nf S0 w' (it_lsr it') \<and> R' = reachable (adj rel) (meets_at rel q nf) S0
     | Some (hp, ip) \<Rightarrow> ip \<notin> R' \<and> live rel ip hp \<and> scan_state (insert ip R') q nf S0 w' (it_lsr it')"
    using f unfolding next_result_def rel by blast
  have dead: "\<forall>p \<in> R' - T. \<nexists>hp. live rel p hp" using R(2) R'(2) by blast
  have nf': "it_has_label_filter it' = (\<not> nf)" using f nf by simp
  show ?thesis
  proof (cases row)
    case None
    then show ?thesis
      using R(1) R' dead sd nf' by (auto simp: stream_state_def it_state_def rows_of_def)
  next
    case (Some x)
    obtain hp ip where x: "x = (hp, ip)" by (cases x)
    have ip: "ip \<notin> R'" "live rel ip hp" "scan_state (insert ip R') q nf S0 w' (it_lsr it')" using R'(3) Some x by auto
    have "ip \<in> reachable (adj rel) (meets_at rel q nf) S0" using scan_stateD(4) [OF ip(3)] sd by blast
    then have "rows_of rel q nf S0 hp ip" using ip(2) by (simp add: rows_of_def)
    moreover have "ip \<notin> T" using ip(1) R(1) R'(1) by blast
    moreover have "\<forall>p \<in> insert ip R' - insert ip T. \<nexists>hp. live rel p hp" using dead by blast
    then have "stream_state rel q nf S0 (insert ip T) it' w'"
      using ip(3) R(1) R'(1) sd nf' unfolding stream_state_def it_state_def
      by (intro conjI exI [of _ "insert ip R'"]) auto
    ultimately show ?thesis using Some x by simp
  qed
qed

lemma stream_start:
  assumes "tsv_response_iterator_new S lops m rs query n w = Inr (it, w')" "winv w" "m_start_nodes m = Some s"
    and "\<forall>ip \<in> set (get_for_node s (lv_labels query)). block_number ip \<noteq> InvalidBlockNumber"
  obtains q where "s_query_dm S query = Inr q" "it_resort_buffer it = []" "it_resort_size it = rs"
    and "stream_state (w_rel w) q (\<nexists>ls. lv_labels query = Some ls \<and> labels ls \<noteq> []) (set (get_for_node s (lv_labels query))) {} it w'"
proof -
  obtain q where q: "s_query_dm S query = Inr q" "same_disk w w'" "it_state {} q (set (get_for_node s (lv_labels query))) w' it"
    "it_resort_buffer it = []" "it_resort_size it = rs"
    "it_has_label_filter it = (\<exists>ls. lv_labels query = Some ls \<and> labels ls \<noteq> [])"
    using iterator_new_state [OF assms] by blast
  have "stream_state (w_rel w) q (\<nexists>ls. lv_labels query = Some ls \<and> labels ls \<noteq> []) (set (get_for_node s (lv_labels query))) {} it w'"
    unfolding stream_state_def using q(2,3,6) by (intro conjI exI [of _ "{}"]) (simp_all add: same_disk_def)
  then show ?thesis using that q(1,4,5) by blast
qed

lemma stream_state_fuel: "stream_state rel q nf S0 T it w \<Longrightarrow> it_next S lops it w \<noteq> Inl OutOfFuel"
  using it_next_facts(1) by (auto simp: stream_state_def)

lemma pull_next:
  assumes "stream_state rel q nf S0 T it w"
  shows "pull (it_next S lops) c it w \<noteq> Inl OutOfFuel"
    and "pull (it_next S lops) c it w = Inr (rows, it', w') \<Longrightarrow>
      distinct (map snd rows) \<and> snd ` set rows \<inter> T = {} \<and> (\<forall>(h, p) \<in> set rows. rows_of rel q nf S0 h p) \<and>
      length rows \<le> c \<and> (length rows < c \<longrightarrow> (\<forall>h p. rows_of rel q nf S0 h p \<longrightarrow> p \<in> T \<union> snd ` set rows)) \<and>
      stream_state rel q nf S0 (T \<union> snd ` set rows) it' w'"
  by (rule pull_facts [where I = "stream_state rel q nf S0" and P = "rows_of rel q nf S0",
        OF stream_state_next stream_state_fuel assms]; assumption)+

end

end
