(* ===== verification/Scan_Resort.thy ===== *)
theory Scan_Resort
  imports Scan_Facts
begin

text \<open>
  Rescoring: the window of rows that wait in the min heap of their exact distances. A row that leaves it
  is the closest of a full window, or of all rows that are left; every visible row leaves it once.
\<close>

lemma resort_le_key: "resort_le a b \<longleftrightarrow> f32_total_key (rd_distance b) \<le> f32_total_key (rd_distance a)"
  by (simp add: resort_le_def resort_cmp_def not_less)

interpretation resort: total_preorder resort_le
  by unfold_locales (auto simp: resort_le_key)

abbreviation window :: "('q, 'pd) tsv_response_iterator \<Rightarrow> item_pointer set" where
  "window it \<equiv> set (map rd_index_pointer (it_resort_buffer it))"

context scan_storage
begin

text \<open>The rows that can be rescored: those of live nodes whose row is visible in the table.\<close>

definition visible :: "'n relation \<Rightarrow> 'q \<Rightarrow> bool \<Rightarrow> item_pointer set \<Rightarrow> heap_pointer \<Rightarrow> item_pointer \<Rightarrow> bool" where
  "visible rel q nf S0 hp p \<longleftrightarrow> rows_of rel q nf S0 hp p \<and> exact q hp \<noteq> Inr None"

text \<open>
  \<open>T\<close> are the rows that have left the window. What has been streamed beyond \<open>T\<close> waits in it, with its
  exact distance, or is not visible.
\<close>

definition buffer_ok :: "'n relation \<Rightarrow> 'q \<Rightarrow> bool \<Rightarrow> item_pointer set \<Rightarrow> item_pointer set \<Rightarrow> ('q, 'pd) tsv_response_iterator \<Rightarrow> bool" where
  "buffer_ok rel q nf S0 T it \<longleftrightarrow>
     heap_inv resort_le (it_resort_buffer it) \<and> distinct (map rd_index_pointer (it_resort_buffer it)) \<and>
     T \<inter> window it = {} \<and>
     (\<forall>rd \<in> set (it_resort_buffer it). visible rel q nf S0 (rd_heap_pointer rd) (rd_index_pointer rd) \<and>
        exact q (rd_heap_pointer rd) = Inr (Some (rd_distance rd)))"

definition resort_state :: "'n relation \<Rightarrow> 'q \<Rightarrow> bool \<Rightarrow> item_pointer set \<Rightarrow> item_pointer set \<Rightarrow> ('q, 'pd) tsv_response_iterator \<Rightarrow> 'n world \<Rightarrow> bool" where
  "resort_state rel q nf S0 T it w \<longleftrightarrow>
     (\<exists>U. stream_state rel q nf S0 U it w \<and> T \<union> window it \<subseteq> U \<and>
        (\<forall>p \<in> U - T - window it. \<forall>hp. \<not> visible rel q nf S0 hp p)) \<and>
     buffer_ok rel q nf S0 T it"

lemma stream_state_winv: "stream_state rel q nf S0 T it w \<Longrightarrow> winv w \<and> sdm (it_lsr it) = Some q"
  by (auto simp: stream_state_def it_state_def scan_state_def search_state_def)

lemma stream_state_cong:
  assumes "stream_state rel q nf S0 T it w" "same_disk w w'" "winv w'"
    and it': "it_lsr it' = it_lsr it" "it_has_label_filter it' = it_has_label_filter it"
  shows "stream_state rel q nf S0 T it' w'"
proof -
  obtain R where R: "T \<subseteq> R" "\<forall>p \<in> R - T. \<nexists>hp. live rel p hp"
    "scan_state R q (\<not> it_has_label_filter it) S0 w (it_lsr it)" and rel: "w_rel w = rel" "it_has_label_filter it = (\<not> nf)"
    using assms(1) by (auto simp: stream_state_def it_state_def)
  note R(1,2) scan_state_same [OF assms(2,3) R(3)]
  moreover have "w_rel w' = rel" using assms(2) rel(1) by (simp add: same_disk_def)
  ultimately show ?thesis unfolding stream_state_def it_state_def it' rel(2) by blast
qed

lemma iterator_counts [simp]:
  "stream_state rel q nf S0 U (it\<lparr>it_next_calls_with_resort := n\<rparr>) w = stream_state rel q nf S0 U it w"
  "stream_state rel q nf S0 U (it\<lparr>it_resort_buffer := b\<rparr>) w = stream_state rel q nf S0 U it w"
  "buffer_ok rel q nf S0 T (it\<lparr>it_next_calls_with_resort := n\<rparr>) = buffer_ok rel q nf S0 T it"
  by (simp_all add: stream_state_def it_state_def buffer_ok_def)

lemma window_push [simp]: "set (bh_push resort_le x xs) = insert x (set xs)"
  by (metis bh_push_mset set_mset_add_mset_insert set_mset_mset)

text \<open>One more row enters the window.\<close>

lemma resort_row_facts:
  assumes run: "resort_row S hp p it w = Inr (it', w')" and st: "stream_state rel q nf S0 (insert p U) it w"
    and row: "rows_of rel q nf S0 hp p" "p \<notin> U" and U: "T \<union> window it \<subseteq> U"
    "\<forall>p \<in> U - T - window it. \<forall>hp. \<not> visible rel q nf S0 hp p" and buf: "buffer_ok rel q nf S0 T it"
  shows "stream_state rel q nf S0 (insert p U) it' w' \<and> T \<union> window it' \<subseteq> insert p U \<and>
    (\<forall>p \<in> insert p U - T - window it'. \<forall>hp. \<not> visible rel q nf S0 hp p) \<and> buffer_ok rel q nf S0 T it' \<and>
    it_resort_size it' = it_resort_size it \<and> it_has_label_filter it' = it_has_label_filter it \<and>
    length (it_resort_buffer it') \<le> Suc (length (it_resort_buffer it))"
proof -
  note q = stream_state_winv [OF st]
  obtain d where d: "s_resort_distance S q hp w = Inr (d, w')"
    using run q by (auto simp: resort_row_def Let_def split: option.splits)
  then have it': "it_lsr it' = it_lsr it" "it_has_label_filter it' = it_has_label_filter it" "it_resort_size it' = it_resort_size it"
      "it_resort_buffer it' = (case d of None \<Rightarrow> it_resort_buffer it
        | Some x \<Rightarrow> bh_push resort_le \<lparr>rd_heap_pointer = hp, rd_index_pointer = p, rd_distance = x\<rparr> (it_resort_buffer it))"
    using run q by (cases "Suc 0 < length (it_resort_buffer it)"; auto simp: resort_row_def Let_def split: option.splits)+
  note rf = resort_facts [OF conjunct1 [OF q] d]
  have st': "stream_state rel q nf S0 (insert p U) it' w'"
    using stream_state_cong [OF st] rf it'(1,2) by blast
  note b = buf [unfolded buffer_ok_def]
  have live: "live rel p hp" using row(1) by (simp add: rows_of_def)
  show ?thesis
  proof (cases d)
    case None
    have "\<not> visible rel q nf S0 hp' p" for hp'
      using rf None live by (auto simp: visible_def rows_of_def live_def)
    then have "\<forall>p \<in> insert p U - T - window it'. \<forall>hp. \<not> visible rel q nf S0 hp p" using U(2) it'(4) None by auto
    then show ?thesis
      using st' it' None U(1) b unfolding buffer_ok_def by auto
  next
    case (Some x)
    let ?r = "\<lparr>rd_heap_pointer = hp, rd_index_pointer = p, rd_distance = x\<rparr>"
    have e: "it_resort_buffer it' = bh_push resort_le ?r (it_resort_buffer it)" using it'(4) Some by simp
    have win: "window it' = insert p (window it)" by (simp add: e)
    have "mset (map rd_index_pointer (it_resort_buffer it')) = mset (p # map rd_index_pointer (it_resort_buffer it))"
      by (simp add: e)
    moreover have "distinct (p # map rd_index_pointer (it_resort_buffer it))" using b row(2) U(1) by auto
    ultimately have "distinct (map rd_index_pointer (it_resort_buffer it'))" by (metis mset_eq_imp_distinct_iff)
    moreover have "visible rel q nf S0 hp p" using row(1) rf Some by (simp add: visible_def)
    moreover have "p \<notin> T" using row(2) U(1) by blast
    ultimately have "buffer_ok rel q nf S0 T it'"
      using b rf Some resort.bh_push_heap [of "it_resort_buffer it" ?r] unfolding buffer_ok_def win by (auto simp: e)
    moreover have "\<forall>p \<in> insert p U - T - window it'. \<forall>hp. \<not> visible rel q nf S0 hp p" using U(2) win by auto
    moreover have "T \<union> window it' \<subseteq> insert p U" using U(1) win by auto
    moreover have "length (it_resort_buffer it') = Suc (length (it_resort_buffer it))"
      unfolding e by (metis bh_push_mset size_add_mset size_mset)
    ultimately show ?thesis using st' it' by simp
  qed
qed

lemma resort_row_fuel: "resort_row S hp p it w \<noteq> Inl OutOfFuel"
  unfolding resort_row_def Let_def by (intro no_fuel resort_fuel)

text \<open>The window fills up, or takes all that is left.\<close>

definition all_taken :: "'n relation \<Rightarrow> 'q \<Rightarrow> bool \<Rightarrow> item_pointer set \<Rightarrow> item_pointer set \<Rightarrow> ('q, 'pd) tsv_response_iterator \<Rightarrow> bool" where
  "all_taken rel q nf S0 T it \<longleftrightarrow> (\<forall>hp p. visible rel q nf S0 hp p \<longrightarrow> p \<in> T \<union> window it)"

lemma resort_fill_facts:
  assumes "stream_state rel q nf S0 U it w" "T \<union> window it \<subseteq> U" "\<forall>p \<in> U - T - window it. \<forall>hp. \<not> visible rel q nf S0 hp p"
    "buffer_ok rel q nf S0 T it" "length (it_resort_buffer it) \<le> it_resort_size it"
  shows "\<exists>r. resort_fill S lops it w = Some r \<and> r \<noteq> Inl OutOfFuel \<and>
    (\<forall>it' w'. r = Inr (it', w') \<longrightarrow> resort_state rel q nf S0 T it' w' \<and> it_resort_size it' = it_resort_size it \<and>
       length (it_resort_buffer it') \<le> it_resort_size it' \<and>
       (length (it_resort_buffer it') = it_resort_size it' \<or> all_taken rel q nf S0 T it'))"
  using assms
proof (induction "card (UNIV - U)" arbitrary: U it w rule: less_induct)
  case less
  note unfold = resort_fill.simps [of S lops it w]
  note st = less.prems(1)
  have rs: "resort_state rel q nf S0 T it w" using less.prems unfolding resort_state_def by blast
  show ?case
  proof (cases "length (it_resort_buffer it) < it_resort_size it")
    case False
    then show ?thesis using unfold rs less.prems(5) by auto
  next
    case full: True
    show ?thesis
    proof (cases "it_next S lops it w")
      case (Inl e)
      then show ?thesis using unfold full stream_state_fuel [OF st] by auto
    next
      case (Inr t)
      obtain row it1 w1 where t: "t = (row, it1, w1)" by (cases t)
      note nx = Inr [unfolded t]
      note n = stream_state_next [OF st nx]
      obtain R where "it_state R q S0 w it" using st by (auto simp: stream_state_def)
      note same = it_next_facts(2) [OF this nx]
      have buf1: "buffer_ok rel q nf S0 T it1" using less.prems(4) same by (simp add: buffer_ok_def)
      have win1: "window it1 = window it" using same by simp
      show ?thesis
      proof (cases row)
        case None
        then have n': "stream_state rel q nf S0 U it1 w1" "\<forall>h p. rows_of rel q nf S0 h p \<longrightarrow> p \<in> U" using n by auto
        have "all_taken rel q nf S0 T it1"
          using n'(2) less.prems(3) unfolding all_taken_def win1 visible_def by blast
        moreover have "resort_state rel q nf S0 T it1 w1"
          using n'(1) less.prems(2,3) buf1 unfolding resort_state_def win1 by blast
        ultimately show ?thesis using unfold full Inr t None same less.prems(5) by auto
      next
        case (Some x)
        obtain hp p where x: "x = (hp, p)" by (cases x)
        have n': "rows_of rel q nf S0 hp p" "p \<notin> U" "stream_state rel q nf S0 (insert p U) it1 w1"
          using n Some x by auto
        show ?thesis
        proof (cases "resort_row S hp p it1 w1")
          case (Inl e)
          then show ?thesis using unfold full nx Some x resort_row_fuel by auto
        next
          case row: (Inr u)
          obtain it2 w2 where u: "u = (it2, w2)" by (cases u)
          note rf = resort_row_facts [OF row [unfolded u] n'(3,1,2) less.prems(2,3) [folded win1] buf1]
          have "UNIV - insert p U \<subset> UNIV - U" using n'(2) by auto
          then have "card (UNIV - insert p U) < card (UNIV - U)"
            by (intro psubset_card_mono finite_subset [OF subset_UNIV finite_item_pointer])
          moreover have "length (it_resort_buffer it2) \<le> it_resort_size it2" using rf full same by simp
          ultimately obtain r where "resort_fill S lops it2 w2 = Some r" "r \<noteq> Inl OutOfFuel"
            "\<forall>it' w'. r = Inr (it', w') \<longrightarrow> resort_state rel q nf S0 T it' w' \<and> it_resort_size it' = it_resort_size it2 \<and>
               length (it_resort_buffer it') \<le> it_resort_size it' \<and>
               (length (it_resort_buffer it') = it_resort_size it' \<or> all_taken rel q nf S0 T it')"
            using less.hyps [of "insert p U" it2 w2] rf by blast
          then show ?thesis using unfold full nx Some x row u rf same by auto
        qed
      qed
    qed
  qed
qed

lemma resort_state_next:
  assumes st: "resort_state rel q nf S0 T it w" and size: "0 < it_resort_size it" "length (it_resort_buffer it) \<le> it_resort_size it"
    and run: "it_next_with_resort S lops it w = Inr (row, it', w')"
  shows "it_resort_size it' = it_resort_size it \<and> length (it_resort_buffer it') \<le> it_resort_size it' \<and>
    (case row of
       None \<Rightarrow> resort_state rel q nf S0 T it' w' \<and> (\<forall>h p. visible rel q nf S0 h p \<longrightarrow> p \<in> T)
     | Some (h, p) \<Rightarrow> visible rel q nf S0 h p \<and> p \<notin> T \<and> resort_state rel q nf S0 (insert p T) it' w' \<and>
         (Suc (length (it_resort_buffer it')) = it_resort_size it' \<or> all_taken rel q nf S0 (insert p T) it') \<and>
         (\<exists>d. exact q h = Inr (Some d) \<and>
            (\<forall>rd \<in> set (it_resort_buffer it'). f32_total_key d \<le> f32_total_key (rd_distance rd))))"
proof -
  let ?it = "it\<lparr>it_next_calls_with_resort := it_next_calls_with_resort it + 1\<rparr>"
  obtain U where U: "stream_state rel q nf S0 U it w" "T \<union> window it \<subseteq> U"
    "\<forall>p \<in> U - T - window it. \<forall>hp. \<not> visible rel q nf S0 hp p" and b: "buffer_ok rel q nf S0 T it"
    using st by (auto simp: resort_state_def)
  have "stream_state rel q nf S0 U ?it w" "T \<union> window ?it \<subseteq> U"
    "\<forall>p \<in> U - T - window ?it. \<forall>hp. \<not> visible rel q nf S0 hp p" "buffer_ok rel q nf S0 T ?it"
    "length (it_resort_buffer ?it) \<le> it_resort_size ?it"
    using U b size by simp_all
  from resort_fill_facts [OF this] obtain r where r: "resort_fill S lops ?it w = Some r"
    and rf: "\<forall>it' w'. r = Inr (it', w') \<longrightarrow> resort_state rel q nf S0 T it' w' \<and> it_resort_size it' = it_resort_size it \<and>
       length (it_resort_buffer it') \<le> it_resort_size it' \<and>
       (length (it_resort_buffer it') = it_resort_size it' \<or> all_taken rel q nf S0 T it')"
    by auto
  from run size(1) r obtain it1 w1 where r1: "r = Inr (it1, w1)"
    and pop: "(case bh_pop resort_le (it_resort_buffer it1) of None \<Rightarrow> Inr (None, it1, w1)
        | Some (rd, buffer) \<Rightarrow> Inr (Some (rd_heap_pointer rd, rd_index_pointer rd), it1\<lparr>it_resort_buffer := buffer\<rparr>, w1))
      = (Inr (row, it', w') :: _ res)"
    by (auto simp: it_next_with_resort_def Let_def returned_def)
  note f = rf [rule_format, OF r1]
  have b1: "buffer_ok rel q nf S0 T it1" using f by (simp add: resort_state_def)
  show ?thesis
  proof (cases "bh_pop resort_le (it_resort_buffer it1)")
    case None
    then have "it_resort_buffer it1 = []" by simp
    then have "\<forall>h p. visible rel q nf S0 h p \<longrightarrow> p \<in> T" using f size(1) by (auto simp: all_taken_def)
    then show ?thesis using pop None f by auto
  next
    case (Some x)
    obtain rd buffer where x: "x = (rd, buffer)" by (cases x)
    have res: "row = Some (rd_heap_pointer rd, rd_index_pointer rd)" "it' = it1\<lparr>it_resort_buffer := buffer\<rparr>" "w' = w1"
      using pop Some x by auto
    have hp: "heap_inv resort_le (it_resort_buffer it1)" using b1 by (simp add: buffer_ok_def)
    note pf = resort.bh_pop_heap [OF hp Some [unfolded x]]
    have m: "set (it_resort_buffer it1) = insert rd (set buffer)" using pf(2) by (metis set_mset_add_mset_insert set_mset_mset)
    have "mset (map rd_index_pointer (it_resort_buffer it1)) = mset (rd_index_pointer rd # map rd_index_pointer buffer)"
      using pf(2) by simp
    then have d: "distinct (rd_index_pointer rd # map rd_index_pointer buffer)"
      using b1 unfolding buffer_ok_def by (metis mset_eq_imp_distinct_iff)
    have win: "window it1 = insert (rd_index_pointer rd) (window it')" by (simp add: res(2) m)
    have len: "length (it_resort_buffer it1) = Suc (length buffer)" using arg_cong [OF pf(2), of size] by simp
    let ?p = "rd_index_pointer rd"
    have pT: "?p \<notin> T" using b1 win unfolding buffer_ok_def by blast
    have "buffer_ok rel q nf S0 (insert ?p T) it'"
      using b1 pf(1) d m unfolding buffer_ok_def win by (auto simp: res(2))
    moreover obtain U1 where U1: "stream_state rel q nf S0 U1 it1 w1" "T \<union> window it1 \<subseteq> U1"
      "\<forall>p \<in> U1 - T - window it1. \<forall>hp. \<not> visible rel q nf S0 hp p"
      using f by (auto simp: resort_state_def)
    have "stream_state rel q nf S0 U1 it' w1" using U1(1) by (simp add: res(2))
    moreover have "insert ?p T \<union> window it' \<subseteq> U1" using U1(2) unfolding win by blast
    moreover have "\<forall>p \<in> U1 - insert ?p T - window it'. \<forall>hp. \<not> visible rel q nf S0 hp p" using U1(3) unfolding win by blast
    ultimately have "resort_state rel q nf S0 (insert ?p T) it' w'" unfolding resort_state_def res(3) by blast
    moreover have "Suc (length (it_resort_buffer it')) = it_resort_size it' \<or> all_taken rel q nf S0 (insert ?p T) it'"
      using f len unfolding all_taken_def win by (auto simp: res(2))
    moreover have "visible rel q nf S0 (rd_heap_pointer rd) ?p" "exact q (rd_heap_pointer rd) = Inr (Some (rd_distance rd))"
      using b1 m by (auto simp: buffer_ok_def)
    moreover have "\<forall>rd' \<in> set (it_resort_buffer it'). f32_total_key (rd_distance rd) \<le> f32_total_key (rd_distance rd')"
      using pf(3) m by (auto simp: res(2) resort_le_key)
    ultimately show ?thesis using pT f len by (simp add: res(1)) (simp add: res(2))
  qed
qed

lemma resort_state_fuel:
  assumes st: "resort_state rel q nf S0 T it w" and size: "length (it_resort_buffer it) \<le> it_resort_size it"
  shows "it_next_with_resort S lops it w \<noteq> Inl OutOfFuel"
proof -
  let ?it = "it\<lparr>it_next_calls_with_resort := it_next_calls_with_resort it + 1\<rparr>"
  obtain U where U: "stream_state rel q nf S0 U it w" "T \<union> window it \<subseteq> U"
    "\<forall>p \<in> U - T - window it. \<forall>hp. \<not> visible rel q nf S0 hp p" and b: "buffer_ok rel q nf S0 T it"
    using st by (auto simp: resort_state_def)
  have U': "stream_state rel q nf S0 U ?it w" "T \<union> window ?it \<subseteq> U"
    "\<forall>p \<in> U - T - window ?it. \<forall>hp. \<not> visible rel q nf S0 hp p" "buffer_ok rel q nf S0 T ?it"
    "length (it_resort_buffer ?it) \<le> it_resort_size ?it"
    using U b size by simp_all
  from resort_fill_facts [OF this] obtain r where r: "resort_fill S lops ?it w = Some r" "r \<noteq> Inl OutOfFuel" by auto
  show ?thesis
    unfolding it_next_with_resort_def Let_def r(1) returned_def option.case
    by (intro no_fuel r(2) stream_state_fuel [OF U'(1)])
qed

text \<open>Without a window the scan streams; with one it streams the visible rows.\<close>

definition rescored :: "nat \<Rightarrow> 'n relation \<Rightarrow> 'q \<Rightarrow> bool \<Rightarrow> item_pointer set \<Rightarrow> item_pointer set \<Rightarrow> ('q, 'pd) tsv_response_iterator \<Rightarrow> 'n world \<Rightarrow> bool" where
  "rescored rs rel q nf S0 T it w \<longleftrightarrow>
     resort_state rel q nf S0 T it w \<and> it_resort_size it = rs \<and> 0 < rs \<and> length (it_resort_buffer it) \<le> rs"

lemma rescored_next:
  "rescored rs rel q nf S0 T it w \<Longrightarrow> it_next_with_resort S lops it w = Inr (row, it', w') \<Longrightarrow>
    (case row of None \<Rightarrow> rescored rs rel q nf S0 T it' w' \<and> (\<forall>h p. visible rel q nf S0 h p \<longrightarrow> p \<in> T)
     | Some (h, p) \<Rightarrow> visible rel q nf S0 h p \<and> p \<notin> T \<and> rescored rs rel q nf S0 (insert p T) it' w')"
  using resort_state_next [of rel q nf S0 T it w row it' w'] unfolding rescored_def by (auto split: option.splits)

lemma rescored_fuel: "rescored rs rel q nf S0 T it w \<Longrightarrow> it_next_with_resort S lops it w \<noteq> Inl OutOfFuel"
  using resort_state_fuel by (auto simp: rescored_def)

lemma pull_rescored:
  assumes "rescored rs rel q nf S0 T it w"
  shows "pull (it_next_with_resort S lops) c it w \<noteq> Inl OutOfFuel"
    and "pull (it_next_with_resort S lops) c it w = Inr (rows, it', w') \<Longrightarrow>
      distinct (map snd rows) \<and> snd ` set rows \<inter> T = {} \<and> (\<forall>(h, p) \<in> set rows. visible rel q nf S0 h p) \<and>
      length rows \<le> c \<and> (length rows < c \<longrightarrow> (\<forall>h p. visible rel q nf S0 h p \<longrightarrow> p \<in> T \<union> snd ` set rows)) \<and>
      rescored rs rel q nf S0 (T \<union> snd ` set rows) it' w'"
  by (rule pull_facts [where I = "rescored rs rel q nf S0" and P = "visible rel q nf S0",
        OF rescored_next rescored_fuel assms]; assumption)+

lemma rescored_new:
  assumes "stream_state rel q nf S0 {} it w" "it_resort_buffer it = []" "it_resort_size it = rs" "0 < rs"
  shows "rescored rs rel q nf S0 {} it w"
  using assms by (auto simp: rescored_def resort_state_def buffer_ok_def)

lemma it_next_size: "it_next S lops it w = Inr (row, it', w') \<Longrightarrow> it_resort_size it' = it_resort_size it"
  by (auto simp: it_next_def)

text \<open>A fresh iterator serves any number of calls, with or without a window.\<close>

lemma pull_returns:
  assumes st: "stream_state rel q nf S0 {} it w" and b: "it_resort_buffer it = []"
  shows "pull (it_next S lops) c it w \<noteq> Inl OutOfFuel" "pull (it_next_with_resort S lops) c it w \<noteq> Inl OutOfFuel"
proof -
  show "pull (it_next S lops) c it w \<noteq> Inl OutOfFuel" by (rule pull_next(1) [OF st])
  show "pull (it_next_with_resort S lops) c it w \<noteq> Inl OutOfFuel"
  proof (cases "it_resort_size it = 0")
    case True
    let ?I = "\<lambda>T it w. stream_state rel q nf S0 T it w \<and> it_resort_size it = 0"
    have "case row of None \<Rightarrow> ?I T it2 w2 \<and> (\<forall>h p. rows_of rel q nf S0 h p \<longrightarrow> p \<in> T)
        | Some (h, p) \<Rightarrow> rows_of rel q nf S0 h p \<and> p \<notin> T \<and> ?I (insert p T) it2 w2"
      if "?I T it1 w1" "it_next_with_resort S lops it1 w1 = Inr (row, it2, w2)" for T it1 w1 row it2 w2
    proof -
      let ?it = "it1\<lparr>it_next_calls_with_resort := it_next_calls_with_resort it1 + 1\<rparr>"
      have run: "it_next S lops ?it w1 = Inr (row, it2, w2)" using that by (simp add: it_next_with_resort_def Let_def)
      have "stream_state rel q nf S0 T ?it w1" using that(1) by simp
      from stream_state_next [OF this run] show ?thesis using it_next_size [OF run] that(1) by (auto split: option.splits)
    qed
    moreover have "it_next_with_resort S lops it1 w1 \<noteq> Inl OutOfFuel" if "?I T it1 w1" for T it1 w1
    proof -
      have "stream_state rel q nf S0 T (it1\<lparr>it_next_calls_with_resort := it_next_calls_with_resort it1 + 1\<rparr>) w1" using that by simp
      from stream_state_fuel [OF this] show ?thesis using that by (simp add: it_next_with_resort_def Let_def)
    qed
    moreover have "?I {} it w" using st True by simp
    ultimately show ?thesis by (rule pull_facts(1) [where I = ?I and P = "rows_of rel q nf S0"])
  next
    case False
    then show ?thesis using pull_rescored(1) [OF rescored_new [OF st b refl]] by simp
  qed
qed

end

end
