(* ===== verification/Scan_Storages.thy ===== *)
theory Scan_Storages
  imports Scan_Resort
begin

text \<open>
  Both storages satisfy the contract of a scan: a visit meets exactly the neighbours of the node that
  are new and pass the filter. On a plain index all do; on an SBQ index with a label filter, those
  whose labels overlap the labels asked for.
\<close>

text \<open>What the visit of one neighbour does, and of all of them in turn.\<close>

definition visit_effect :: "(item_pointer \<Rightarrow> bool) \<Rightarrow> item_pointer \<Rightarrow> ('q, 'pd) lsr \<Rightarrow> ('q, 'pd) lsr \<Rightarrow> bool" where
  "visit_effect M ip l l' \<longleftrightarrow>
     inserted l' = insert ip (inserted l) \<and> sdm l' = sdm l \<and>
     set (ptrs (candidates l')) = set (ptrs (candidates l)) \<union> (if ip \<notin> inserted l \<and> M ip then {ip} else {})"

lemma visit_effects:
  assumes "rfold f ips s = Inr s'" "Q s"
    and "\<And>ip s s'. Q s \<Longrightarrow> f ip s = Inr s' \<Longrightarrow> Q s' \<and> visit_effect M ip (proj s) (proj s')"
  shows "Q s' \<and> inserted (proj s') = inserted (proj s) \<union> set ips \<and>
    set (ptrs (candidates (proj s'))) = set (ptrs (candidates (proj s))) \<union> {p \<in> set ips - inserted (proj s). M p}"
  using assms(1,2)
proof (induction ips arbitrary: s)
  case (Cons ip ips)
  from Cons.prems(1) obtain t where t: "f ip s = Inr t" "rfold f ips t = Inr s'" by auto
  note e = assms(3) [OF Cons.prems(2) t(1), unfolded visit_effect_def]
  note ih = Cons.IH [OF t(2) conjunct1 [OF e]]
  show ?case
  proof (intro conjI)
    show "Q s'" using ih by blast
    show "inserted (proj s') = inserted (proj s) \<union> set (ip # ips)" using ih e by auto
    show "set (ptrs (candidates (proj s'))) =
        set (ptrs (candidates (proj s))) \<union> {p \<in> set (ip # ips) - inserted (proj s). M p}"
      using ih e by (auto simp del: set_map)
  qed
qed simp

lemma visit_effect_skip:
  "prepare_insert l ip = (b, l') \<Longrightarrow> b \<longrightarrow> \<not> M ip \<Longrightarrow> visit_effect M ip l l'"
  by (auto simp: prepare_insert_def visit_effect_def)

lemma visit_effect_insert:
  assumes "prepare_insert l ip = (True, l1)" "lsn_index_pointer n = ip" "insert_neighbor n l1 w = (l', w')" "M ip"
  shows "visit_effect M ip l l'"
proof -
  have "mset (candidates l') = add_mset n (mset (candidates l))" "inserted l' = insert ip (inserted l)" "ip \<notin> inserted l"
    "sdm l' = sdm l"
    using assms(1,3) by (auto simp: prepare_insert_def insert_neighbor_def)
  moreover from this(1) have "set (candidates l') = insert n (set (candidates l))"
    by (metis set_mset_add_mset_insert set_mset_mset)
  ultimately show ?thesis using assms(2,4) by (auto simp: visit_effect_def)
qed

section \<open>Plain indexes\<close>

definition plain_exact :: "plain_storage \<Rightarrow> plain_qdm \<Rightarrow> heap_pointer \<Rightarrow> f32 option res" where
  "plain_exact s q hp =
     (case ps_heap_fetch s hp of
        None \<Rightarrow> Inr None
      | Some v \<Rightarrow> rbind (to_full_slice v) (\<lambda>full. rbind (to_full_slice (lv_vec q)) (\<lambda>query.
          rbind (ps_distance_fn s full query) (\<lambda>d. Inr (Some d)))))"

lemma plain_visit_effect:
  assumes run: "plain_visit_neighbor s lru_list ip (l, DiskStore, w) = Inr (l', g', w')" and w: "plain_world s w"
  shows "plain_world s w' \<and> g' = DiskStore \<and> same_disk w w' \<and>
    visit_effect (\<lambda>p. \<exists>n. item_at (w_rel w) p = Some n) ip l l'"
proof -
  note f = plain_visit_neighbor_facts [OF run w]
  have g: "plain_world s w'" "g' = DiskStore" "same_disk w w'" using f by (auto simp: gns_ok_def store_kept_def)
  obtain new l1 where p: "prepare_insert l ip = (new, l1)" by force
  have "visit_effect (\<lambda>p. \<exists>n. item_at (w_rel w) p = Some n) ip l l'"
  proof (cases new)
    case False
    then show ?thesis using run p visit_effect_skip [OF p] by (auto simp: plain_visit_neighbor_def)
  next
    case True
    with p run obtain n w1 where n: "plain_lsn s lru_list l1 ip DiskStore w = Inr (n, g', w1)"
      and i: "insert_neighbor n l1 w1 = (l', w')"
      by (auto simp: plain_visit_neighbor_def Let_def case_prod_beta prod_eq_iff)
    from n have "lsn_index_pointer n = ip" "\<exists>n. item_at (w_rel w) ip = Some n"
      by (auto simp: plain_lsn_def node_read_Inr Let_def)
    then show ?thesis using visit_effect_insert [OF _ _ i] p True by simp
  qed
  then show ?thesis using g by blast
qed

interpretation plain_scan: scan_storage "plain_storage_ops s" "plain_world s" "plain_dist_at s" "adj_at plain_iter_neighbors"
  "ps_num_neighbors s" lru_list plain_lsn_ok p_heap "\<lambda>q nf n. True" "plain_exact s" for s
proof
  fix w w' :: "plain_node world" and l l' :: "(plain_qdm, plain_private) lsr" and q i nf g' hp d x
  show "s_return_lsn (plain_storage_ops s) x w \<noteq> Inl OutOfFuel" by (simp add: plain_storage_ops_def plain_return_lsn_def)
  show "s_resort_distance (plain_storage_ops s) q hp w \<noteq> Inl OutOfFuel"
    unfolding plain_storage_ops_def storage.simps plain_full_distance_for_resort_def to_full_slice_def by (intro no_fuel)
  show "\<exists>n. item_at (w_rel w) (lsn_index_pointer x) = Some n \<and> hp = p_heap n"
    if "plain_lsn_ok DiskStore (w_rel w) x" "s_return_lsn (plain_storage_ops s) x w = Inr (hp, w')"
    using that by (auto simp: plain_lsn_ok_def plain_storage_ops_def plain_return_lsn_def plain_private_new_def)
  assume w: "plain_world s w"
  show "plain_world s w' \<and> same_disk w w' \<and> plain_exact s q hp = Inr d"
    if "s_resort_distance (plain_storage_ops s) q hp w = Inr (d, w')"
    using that w by (auto simp: plain_storage_ops_def plain_full_distance_for_resort_def plain_exact_def Let_def same_disk_def
        split: option.splits)
  assume ok: "lsr_all (plain_lsn_ok DiskStore (w_rel w)) l" and i: "i < length (visited l)"
    and run: "s_visit_lsn (plain_storage_ops s) lru_list l i DiskStore nf w = Inr (l', g', w')"
  let ?x = "visited l ! i"
  from run i have loop: "rfold (plain_visit_neighbor s lru_list) (pp_neighbors (lsn_private_data ?x)) (l, DiskStore, w) = Inr (l', g', w')"
    by (auto simp: plain_storage_ops_def plain_visit_lsn_def get_lsn_by_idx_def)
  have "plain_lsn_ok DiskStore (w_rel w) ?x" using ok i by (auto simp: lsr_all_def)
  then have ns: "adj_at plain_iter_neighbors (w_rel w) (lsn_index_pointer ?x) = Some (pp_neighbors (lsn_private_data ?x))"
    by (auto simp: plain_lsn_ok_def plain_private_new_def adj_at_def)
  let ?Q = "\<lambda>t. plain_world s (snd (snd t)) \<and> fst (snd t) = DiskStore \<and> w_rel (snd (snd t)) = w_rel w"
    and ?M = "\<lambda>p. \<exists>n. item_at (w_rel w) p = Some n"
  have step: "?Q t' \<and> visit_effect ?M ip (fst t) (fst t')"
    if "?Q t" "plain_visit_neighbor s lru_list ip t = Inr t'" for ip t t'
  proof -
    obtain m h v m' h' v' where t: "t = (m, h, v)" "t' = (m', h', v')" by (metis prod_cases3)
    then have v: "h = DiskStore" "plain_world s v" "w_rel v = w_rel w" using that(1) by simp_all
    then show ?thesis
      using plain_visit_effect [of s ip m v m' h' v'] that(2) t by (simp add: same_disk_def)
  qed
  have "?Q (l, DiskStore, w)" using w by simp
  from visit_effects [where Q = ?Q and proj = fst and M = ?M, OF loop this step, unfolded fst_conv]
  have "inserted l' = inserted l \<union> set (pp_neighbors (lsn_private_data ?x))"
    "set (ptrs (candidates l')) = set (ptrs (candidates l)) \<union>
      {p \<in> set (pp_neighbors (lsn_private_data ?x)) - inserted l. \<exists>n. item_at (w_rel w) p = Some n}"
    by blast+
  then show "\<exists>ns. adj_at plain_iter_neighbors (w_rel w) (lsn_index_pointer ?x) = Some ns \<and> inserted l' = inserted l \<union> set ns \<and>
        set (ptrs (candidates l')) = set (ptrs (candidates l)) \<union>
          {p \<in> set ns - inserted l. \<exists>n. item_at (w_rel w) p = Some n \<and> True}"
    using ns by auto
qed

section \<open>SBQ indexes\<close>

definition sbq_meets :: "sbq_qdm \<Rightarrow> bool \<Rightarrow> sbq_node \<Rightarrow> bool" where
  "sbq_meets q nf n \<longleftrightarrow>
     nf \<or> (case lv_labels (qdm_query q) of
             None \<Rightarrow> True
           | Some ls \<Rightarrow> (case sbq_labels n of None \<Rightarrow> False | Some nl \<Rightarrow> overlaps ls nl))"

definition sbq_exact :: "sbq_storage \<Rightarrow> sbq_qdm \<Rightarrow> heap_pointer \<Rightarrow> f32 option res" where
  "sbq_exact s q hp =
     (case sq_heap_fetch s hp of
        None \<Rightarrow> Inr None
      | Some v \<Rightarrow> rbind (to_full_slice v) (\<lambda>full. rbind (to_full_slice (lv_vec (qdm_query q))) (\<lambda>query.
          rbind (get_distance_function (sq_simd s) (sq_distance_type s) full query) (\<lambda>d. Inr (Some d)))))"

lemma sbq_skip_meets: "sbq_skip q nf (sbq_labels n) = Inr skip \<Longrightarrow> sbq_meets q nf n \<longleftrightarrow> \<not> skip"
  by (auto simp: sbq_skip_def sbq_meets_def split: option.splits if_splits)

context sbq_env
begin

lemma sbq_visit_effect:
  assumes run: "sbq_visit_disk s nf ip (l, w) = Inr (l', w')" and q: "sdm l = Some q"
  shows "visit_effect (\<lambda>p. \<exists>n. item_at (w_rel w) p = Some n \<and> sbq_meets q nf n) ip l l'"
proof -
  let ?M = "\<lambda>p. \<exists>n. item_at (w_rel w) p = Some n \<and> sbq_meets q nf n"
  obtain new l1 where p: "prepare_insert l ip = (new, l1)" by force
  show ?thesis
  proof (cases new)
    case False
    then show ?thesis using run p visit_effect_skip [OF p] by (auto simp: sbq_visit_disk_def)
  next
    case True
    have sd: "sdm l1 = Some q" using p q by (auto simp: prepare_insert_def)
    obtain node w1 skip where r: "sbq_read s ip w = Inr (node, w1)" and sk: "sbq_skip q nf (sbq_labels node) = Inr skip"
      and rest: "(if skip then Inr (l1, w1)
          else
            rbind (calculate_bq_distance q (sbq_bq_vector node) w1) (\<lambda>(distance, w).
            let w = qv_remember s ip (sbq_bq_vector node) w in
            rbind (create_distance_with_tie_break l1 distance ip) (\<lambda>d.
            Inr (insert_neighbor \<lparr>lsn_index_pointer = ip, lsn_distance = d, lsn_private_data = (),
                   lsn_labels = sbq_labels node\<rparr> l1 w)))) = Inr (l', w')"
      using run p True sd by (auto simp: sbq_visit_disk_def)
    have item: "item_at (w_rel w) ip = Some node" using sbq_read_same [OF r] by simp
    then have M: "?M ip \<longleftrightarrow> \<not> skip" using sbq_skip_meets [OF sk] by simp
    show ?thesis
    proof (cases skip)
      case True
      then show ?thesis using rest visit_effect_skip [OF p, of ?M] M by simp
    next
      case False
      with rest obtain w2 d where
        i: "insert_neighbor \<lparr>lsn_index_pointer = ip, lsn_distance = d, lsn_private_data = (),
                   lsn_labels = sbq_labels node\<rparr> l1 w2 = (l', w')"
        by (auto simp: Let_def)
      have "prepare_insert l ip = (True, l1)" using p \<open>new\<close> by simp
      moreover have "lsn_index_pointer \<lparr>lsn_index_pointer = ip, lsn_distance = d, lsn_private_data = (),
                   lsn_labels = sbq_labels node\<rparr> = ip" by simp
      ultimately show ?thesis using visit_effect_insert [OF _ _ i, of l ip ?M] M False by blast
    qed
  qed
qed

end

interpretation sbq_scan: scan_storage "sbq_storage_ops (sbq_model s)" "sbq_world (sbq_model s)" sbq_dist_at "adj_at sbq_iter_neighbors"
  "sq_num_neighbors (sbq_model s)" lru_list sbq_lsn_ok sbq_heap_item_pointer sbq_meets "sbq_exact (sbq_model s)" for s
proof
  let ?s = "sbq_model s"
  fix w w' :: "sbq_node world" and l l' :: sbq_lsr and q i nf g' hp d x
  show "s_return_lsn (sbq_storage_ops ?s) x w \<noteq> Inl OutOfFuel"
    unfolding sbq_storage_ops_def storage.simps sbq_return_lsn_def by (intro no_fuel)
  show "s_resort_distance (sbq_storage_ops ?s) q hp w \<noteq> Inl OutOfFuel"
    unfolding sbq_storage_ops_def storage.simps sbq_full_distance_for_resort_def to_full_slice_def by (intro no_fuel)
  show "\<exists>n. item_at (w_rel w) (lsn_index_pointer x) = Some n \<and> hp = sbq_heap_item_pointer n"
    if "s_return_lsn (sbq_storage_ops ?s) x w = Inr (hp, w')"
    using that by (auto simp: sbq_storage_ops_def sbq_return_lsn_def dest!: sbq_read_same)
  assume w: "sbq_world ?s w"
  show "sbq_world ?s w' \<and> same_disk w w' \<and> sbq_exact ?s q hp = Inr d"
    if "s_resort_distance (sbq_storage_ops ?s) q hp w = Inr (d, w')"
    using that w by (auto simp: sbq_storage_ops_def sbq_full_distance_for_resort_def sbq_exact_def Let_def same_disk_def
        split: option.splits)
  assume q: "sdm l = Some q" and i: "i < length (visited l)"
    and run: "s_visit_lsn (sbq_storage_ops ?s) lru_list l i DiskStore nf w = Inr (l', g', w')"
  let ?x = "visited l ! i"
  from run i obtain rn w1 where r: "sbq_read ?s (lsn_index_pointer ?x) w = Inr (rn, w1)"
    and loop: "rfold (sbq_visit_disk ?s nf) (sbq_iter_neighbors rn) (l, w1) = Inr (l', w')"
    by (auto simp: sbq_storage_ops_def sbq_visit_lsn_def sbq_visit_lsn_internal_def get_lsn_by_idx_def)
  note rf = sbq_search.sbq_read_facts [OF w r]
  have ns: "adj_at sbq_iter_neighbors (w_rel w) (lsn_index_pointer ?x) = Some (sbq_iter_neighbors rn)"
    using sbq_read_same [OF r] by (simp add: adj_at_def)
  let ?Q = "\<lambda>t. sbq_world ?s (snd t) \<and> w_rel (snd t) = w_rel w \<and> sdm (fst t) = Some q"
    and ?M = "\<lambda>p. \<exists>n. item_at (w_rel w) p = Some n \<and> sbq_meets q nf n"
  have step: "?Q t' \<and> visit_effect ?M ip (fst t) (fst t')" if "?Q t" "sbq_visit_disk ?s nf ip t = Inr t'" for ip t t'
  proof -
    obtain m v m' v' where t: "t = (m, v)" "t' = (m', v')" by fastforce
    then have v: "sbq_world ?s v" "w_rel v = w_rel w" "sdm m = Some q" using that(1) by simp_all
    note run = that(2) [unfolded t]
    show ?thesis
      using sbq_search.sbq_visit_disk_facts [OF run v(1)] sbq_search.sbq_visit_effect [OF run v(3)] v t
      by (simp add: same_disk_def visit_effect_def)
  qed
  have "?Q (l, w1)" using rf q by (simp add: same_disk_def)
  from visit_effects [where Q = ?Q and proj = fst and M = ?M, OF loop this step, unfolded fst_conv]
  show "\<exists>ns. adj_at sbq_iter_neighbors (w_rel w) (lsn_index_pointer ?x) = Some ns \<and> inserted l' = inserted l \<union> set ns \<and>
        set (ptrs (candidates l')) = set (ptrs (candidates l)) \<union>
          {p \<in> set ns - inserted l. \<exists>n. item_at (w_rel w) p = Some n \<and> sbq_meets q nf n}"
    using ns by blast
qed

end
