(* ===== verification/Scan_Properties.thy ===== *)
theory Scan_Properties
  imports Scan_Storages Sample_Runs
begin

text \<open>
  What an index scan promises over the two storages of the program: the plain one streams the rows of
  its nodes, the SBQ one filters by labels and reorders a window of rows by their exact distance.
\<close>

section \<open>Scans of the small indexes\<close>

text \<open>The three rows of the plain index, the closest first.\<close>

lemma greedy_search_exhausted [simp]:
  "candidates l = [] \<Longrightarrow> greedy_search_loop S lops n nf l vis g w = Some (Inr (l, vis, g, w))"
  by (subst greedy_search_loop.simps) (simp add: visit_closest_def bh_peek_def)

abbreviation sample_it :: "(labeled_vector, plain_private) lsr \<Rightarrow> 32 word \<Rightarrow> (labeled_vector, plain_private) tsv_response_iterator" where
  "sample_it l c \<equiv> \<lparr>it_lsr = l, it_search_list_size = 100, it_meta_page = pair_meta, it_resort_size = 0, it_resort_buffer = [],
     it_streaming_stats = streaming_stats_new, it_next_calls = c, it_next_calls_with_resort = 0,
     it_full_distance_comparisons = 0, it_has_label_filter = False\<rparr>"

lemma sample_it_new:
  "\<exists>w. tsv_response_iterator_new (plain_storage_ops sample_plain) lru_list pair_meta 0 sample_query 100 sample_plain_world =
     Inr (sample_it (sample_state [lsn1] [] {ip1}) 0, w) \<and> w_rel w = sample_plain_rel \<and> w_others w = []"
proof -
  have m: "m_start_nodes pair_meta = Some (start_nodes_new ip1)" by (simp add: pair_meta_def)
  have "get_for_node (start_nodes_new ip1) None = [ip1]" by (simp add: get_for_node_def start_nodes_new_def)
  then show ?thesis
    using sample_start by (auto simp: tsv_response_iterator_new_def greedy_search_streaming_init_def m sample_query_def Let_def
        plain_storage_ops_def [of sample_plain])
qed

lemma sample_return [simp]:
  "s_return_lsn (plain_storage_ops sample_plain) (sample_lsn ip d hp ns) w = Inr (hp, w)"
  by (simp add: plain_storage_ops_def plain_return_lsn_def sample_lsn_def)

lemma sample_it_rest:
  assumes "offset hp \<noteq> InvalidOffsetNumber"
  shows "it_next (plain_storage_ops sample_plain) lru_list (sample_it (sample_state [] (sample_lsn ip d hp ns # vs) i) c) w =
      Inr (Some (hp, ip), sample_it (sample_state [] vs i) (c + 1), w)"
  using assms by (simp add: it_next_def next_loop.simps greedy_search_iterate_def returned_def lsr_consume_def)

lemma sample_it_end:
  "it_next (plain_storage_ops sample_plain) lru_list (sample_it (sample_state [] [] i) c) w =
      Inr (None, sample_it (sample_state [] [] i) (c + 1), w)"
  by (simp add: it_next_def next_loop.simps greedy_search_iterate_def returned_def lsr_consume_def)

lemma sample_it_first:
  assumes "w_rel w = sample_plain_rel" "w_others w = []"
  shows "\<exists>w'. it_next (plain_storage_ops sample_plain) lru_list (sample_it (sample_state [lsn1] [] {ip1}) c) w =
      Inr (Some (ItemPointer 7 3, ip3), sample_it (sample_state [] [lsn2, lsn1] {ip1, ip2, ip3}) (c + 1), w')"
proof -
  obtain vis' w' where "greedy_search_loop (plain_storage_ops sample_plain) lru_list 100 True (sample_state [lsn1] [] {ip1}) None DiskStore w =
    Some (Inr (sample_state [] [lsn3, lsn2, lsn1] {ip1, ip2, ip3}, vis', DiskStore, w'))"
    using sample_search [OF assms] by blast
  then show ?thesis
    by (simp add: it_next_def next_loop.simps greedy_search_iterate_def returned_def lsr_consume_def InvalidOffsetNumber_def)
qed

lemma sample_scan:
  "\<exists>it w it' w'. tsv_response_iterator_new (plain_storage_ops sample_plain) lru_list pair_meta 0 sample_query 100 sample_plain_world = Inr (it, w) \<and>
     pull (it_next (plain_storage_ops sample_plain) lru_list) 5 it w =
       Inr ([(ItemPointer 7 3, ip3), (ItemPointer 7 2, ip2), (ItemPointer 7 1, ip1)], it', w')"
proof -
  obtain w where w: "tsv_response_iterator_new (plain_storage_ops sample_plain) lru_list pair_meta 0 sample_query 100 sample_plain_world =
     Inr (sample_it (sample_state [lsn1] [] {ip1}) 0, w)" "w_rel w = sample_plain_rel" "w_others w = []"
    using sample_it_new by blast
  obtain w1 where w1: "it_next (plain_storage_ops sample_plain) lru_list (sample_it (sample_state [lsn1] [] {ip1}) 0) w =
      Inr (Some (ItemPointer 7 3, ip3), sample_it (sample_state [] [lsn2, lsn1] {ip1, ip2, ip3}) 1, w1)"
    using sample_it_first [OF w(2,3), of 0] by auto
  have five: "5 = Suc (Suc (Suc (Suc (Suc 0))))" by simp
  have "\<exists>it' w'. pull (it_next (plain_storage_ops sample_plain) lru_list) 5 (sample_it (sample_state [lsn1] [] {ip1}) 0) w =
       Inr ([(ItemPointer 7 3, ip3), (ItemPointer 7 2, ip2), (ItemPointer 7 1, ip1)], it', w')"
    unfolding five by (simp add: w1 sample_it_rest sample_it_end InvalidOffsetNumber_def)
  then show ?thesis using w(1) by blast
qed

text \<open>The one row of the SBQ index with label 1, rescored in a window of two.\<close>

definition sample_sbq_meta :: meta_page where
  "sample_sbq_meta = pair_meta\<lparr>m_start_nodes := Some \<lparr>default_node = ip1, labeled_nodes = [(1, ip1)]\<rparr>\<rparr>"

abbreviation sample_sbq_ops :: "(sbq_node, 64 word list, sbq_qdm, unit) storage" where
  "sample_sbq_ops \<equiv> sbq_storage_ops (sbq_model sample_sbq)"

lemma sample_sbq_entry:
  "m_start_nodes sample_sbq_meta = Some \<lparr>default_node = ip1, labeled_nodes = [(1, ip1)]\<rparr>"
  "get_for_node \<lparr>default_node = ip1, labeled_nodes = [(1, ip1)]\<rparr> (lv_labels (qdm_query sample_sbq_query)) = [ip1]"
  by (simp_all add: sample_sbq_meta_def get_for_node_def sample_sbq_query_def bt_get_def List.map_filter_def)

lemma sample_sbq_query_dm: "sbq_query_dm (sbq_model sample_sbq) (qdm_query sample_sbq_query) = Inr sample_sbq_query"
proof -
  have "quantize (sbq_load 1 [0] [0] (sbq_quantizer_new 1)) [0] = Inr [0]" by code_simp
  then show ?thesis
    by (simp add: sbq_query_dm_def sample_sbq_query_def sbq_model_def sample_sbq_def to_index_slice_def)
qed

definition sample_sbq_it :: "(sbq_qdm, unit) tsv_response_iterator" where
  "sample_sbq_it =
    \<lparr>it_lsr = sample_sbq_state [sample_sbq_lsn] [] {ip1}, it_search_list_size = 100, it_meta_page = sample_sbq_meta,
     it_resort_size = 2, it_resort_buffer = [], it_streaming_stats = streaming_stats_new, it_next_calls = 0,
     it_next_calls_with_resort = 0, it_full_distance_comparisons = 0, it_has_label_filter = True\<rparr>"

lemma sample_sbq_it_new:
  "\<exists>w. tsv_response_iterator_new sample_sbq_ops lru_list sample_sbq_meta 2 (qdm_query sample_sbq_query) 100 sample_sbq_world =
     Inr (sample_sbq_it, w) \<and> w_rel w = w_rel sample_sbq_world"
proof -
  have "s_query_dm sample_sbq_ops = sbq_query_dm (sbq_model sample_sbq)" by (simp add: sbq_storage_ops_def)
  moreover have "(case lv_labels (qdm_query sample_sbq_query) of None \<Rightarrow> False | Some ls \<Rightarrow> \<not> label_set_is_empty ls)"
    by (simp add: sample_sbq_query_def label_set_is_empty_def)
  ultimately show ?thesis
    using sample_sbq_start
    by (auto simp: tsv_response_iterator_new_def greedy_search_streaming_init_def sample_sbq_entry Let_def sample_sbq_query_dm
        sample_sbq_it_def)
qed

lemma sample_sbq_next:
  assumes "w_rel w = w_rel sample_sbq_world"
  shows "\<exists>w'. it_next sample_sbq_ops lru_list (sample_sbq_it\<lparr>it_next_calls_with_resort := c\<rparr>) w =
      Inr (Some (ItemPointer 7 1, ip1),
        sample_sbq_it\<lparr>it_next_calls := 1, it_next_calls_with_resort := c, it_lsr := sample_sbq_state [] [] {ip1, ip2}\<rparr>, w')"
proof -
  obtain w1 where s: "greedy_search_loop sample_sbq_ops lru_list 100 False (sample_sbq_state [sample_sbq_lsn] [] {ip1}) None DiskStore w =
      Some (Inr (sample_sbq_state [] [sample_sbq_lsn] {ip1, ip2}, None, DiskStore, w1))" "w_rel w1 = w_rel sample_sbq_world"
    using sample_sbq_search [OF assms, of None] by auto
  have "s_return_lsn sample_sbq_ops sample_sbq_lsn w1 = Inr (ItemPointer 7 1, count record_read w1)"
    using s(2) by (simp add: sbq_storage_ops_def sbq_return_lsn_def sample_sbq_lsn_def sample_sbq_reads)
      (simp add: sample_sbq_node_def)
  then show ?thesis
    by (simp add: it_next_def next_loop.simps sample_sbq_it_def greedy_search_iterate_def s(1) returned_def lsr_consume_def
        InvalidOffsetNumber_def) (simp add: sample_sbq_lsn_def)
qed

lemma sample_sbq_next_end:
  assumes "it_lsr it = sample_sbq_state [] [] i"
  shows "it_next sample_sbq_ops lru_list it w = Inr (None, it\<lparr>it_next_calls := it_next_calls it + 1\<rparr>, w)"
  using assms by (simp add: it_next_def next_loop.simps greedy_search_iterate_def returned_def lsr_consume_def)

lemma sample_sbq_rescore:
  "s_resort_distance sample_sbq_ops sample_sbq_query hp w = Inr (Some 0, count record_heap_read w)"
proof -
  have a: "f32_sub 0 0 = 0" "f32_mul 0 0 = 0" "f32_add 0 0 = 0" "f32_le 0 0" by code_simp+
  have "get_distance_function sample_simd L2 [0] [0] = Inr 0"
    by (simp add: get_distance_function_def distance_l2_def distance_l2_simd_body_def simd_body_def simd_loop.simps simd_tail_def
        setzero_ps_def sample_simd_def f32_zero_def a Let_def rassert_def)
  then show ?thesis
    by (simp add: sbq_storage_ops_def sbq_full_distance_for_resort_def Let_def sbq_model_def sample_sbq_def sample_sbq_query_def
        to_full_slice_def)
qed

lemma sample_sbq_scan:
  assumes "w_rel w = w_rel sample_sbq_world"
  shows "\<exists>it w'. it_next_with_resort sample_sbq_ops lru_list sample_sbq_it w = Inr (Some (ItemPointer 7 1, ip1), it, w') \<and>
    (\<exists>it2. it_next_with_resort sample_sbq_ops lru_list it w' = Inr (None, it2, w'))"
proof -
  obtain w1 where n: "it_next sample_sbq_ops lru_list (sample_sbq_it\<lparr>it_next_calls_with_resort := 1\<rparr>) w =
      Inr (Some (ItemPointer 7 1, ip1),
        sample_sbq_it\<lparr>it_next_calls := 1, it_next_calls_with_resort := 1, it_lsr := sample_sbq_state [] [] {ip1, ip2}\<rparr>, w1)"
    using sample_sbq_next [OF assms] by blast
  let ?row = "\<lparr>rd_heap_pointer = ItemPointer 7 1, rd_index_pointer = ip1, rd_distance = 0\<rparr>"
  let ?it = "sample_sbq_it\<lparr>it_next_calls := 1, it_next_calls_with_resort := 1, it_full_distance_comparisons := 1,
      it_lsr := sample_sbq_state [] [] {ip1, ip2}, it_resort_buffer := [?row]\<rparr>"
  have row: "resort_row sample_sbq_ops (ItemPointer 7 1) ip1
      (sample_sbq_it\<lparr>it_next_calls := 1, it_next_calls_with_resort := 1, it_lsr := sample_sbq_state [] [] {ip1, ip2}\<rparr>) w1 =
      Inr (?it, count record_heap_read w1)"
    by (simp add: resort_row_def Let_def sample_sbq_rescore) (simp add: sample_sbq_it_def)
  have size: "it_resort_buffer sample_sbq_it = []" "it_resort_size sample_sbq_it = 2" "it_next_calls_with_resort sample_sbq_it = 0"
    by (simp_all add: sample_sbq_it_def)
  have fill: "resort_fill sample_sbq_ops lru_list it v = Some (Inr (it\<lparr>it_next_calls := it_next_calls it + 1\<rparr>, v))"
    if "it_lsr it = sample_sbq_state [] [] i" "length (it_resort_buffer it) < it_resort_size it" for it v i
    using that by (subst resort_fill.simps) (simp add: sample_sbq_next_end)
  have f1: "resort_fill sample_sbq_ops lru_list (sample_sbq_it\<lparr>it_next_calls_with_resort := 1\<rparr>) w =
      Some (Inr (?it\<lparr>it_next_calls := 2\<rparr>, count record_heap_read w1))"
    by (subst resort_fill.simps) (simp add: n row size fill)
  have "it_next_with_resort sample_sbq_ops lru_list sample_sbq_it w =
      Inr (Some (ItemPointer 7 1, ip1), ?it\<lparr>it_next_calls := 2, it_resort_buffer := []\<rparr>, count record_heap_read w1)"
    by (simp add: it_next_with_resort_def Let_def size f1 returned_def)
  moreover have "\<exists>it2. it_next_with_resort sample_sbq_ops lru_list (?it\<lparr>it_next_calls := 2, it_resort_buffer := []\<rparr>) v = Inr (None, it2, v)" for v
    by (simp add: it_next_with_resort_def Let_def size fill returned_def bh_pop_def)
  ultimately show ?thesis by blast
qed

section \<open>Streaming\<close>

lemma plain_scan_rows:
  assumes "plain_world s w" "m_start_nodes m = Some st"
    and "\<forall>ip \<in> set (get_for_node st (lv_labels query)). block_number ip \<noteq> InvalidBlockNumber"
    and "tsv_response_iterator_new (plain_storage_ops s) lru_list m resort_size query n w = Inr (it, w1)"
    and "pull (it_next (plain_storage_ops s) lru_list) k it w1 = Inr (rows, it', w')"
  shows "let rel = w_rel w;
             met = reachable (adj_at plain_iter_neighbors rel) (\<lambda>p. item_at rel p \<noteq> None) (set (get_for_node st (lv_labels query)))
         in distinct (map snd rows) \<and> length rows \<le> k \<and>
            (\<forall>(hp, p) \<in> set rows. p \<in> met \<and> (\<exists>x. item_at rel p = Some x \<and> hp = p_heap x \<and> \<not> plain_is_deleted x)) \<and>
            (length rows < k \<longrightarrow>
               (\<forall>p \<in> met. \<forall>x. item_at rel p = Some x \<longrightarrow> \<not> plain_is_deleted x \<longrightarrow> (p_heap x, p) \<in> set rows))"
proof -
  let ?S0 = "set (get_for_node st (lv_labels query))" and ?rel = "w_rel w"
  obtain q nf where st0: "plain_scan.stream_state s ?rel q nf ?S0 {} it w1"
    using plain_scan.stream_start [OF assms(4,1,2,3)] by blast
  note f = plain_scan.pull_next(2) [OF st0 assms(5)]
  let ?rows = "plain_scan.rows_of ?rel q nf ?S0"
  let ?met = "reachable (adj_at plain_iter_neighbors ?rel) (\<lambda>p. item_at ?rel p \<noteq> None) ?S0"
  have rows: "?rows hp p \<longleftrightarrow> p \<in> ?met \<and> (\<exists>x. item_at ?rel p = Some x \<and> hp = p_heap x \<and> \<not> plain_is_deleted x)" for hp p
    unfolding plain_scan.rows_of_def plain_scan.live_def plain_is_deleted_def plain_scan.meets_at_def not_None_eq simp_thms by blast
  have all: "\<forall>(hp, p) \<in> set rows. ?rows hp p"
    and rest: "length rows < k \<longrightarrow> (\<forall>hp p. ?rows hp p \<longrightarrow> p \<in> {} \<union> snd ` set rows)"
    and d: "distinct (map snd rows)" "length rows \<le> k"
    using f by simp_all
  have complete: "(p_heap x, p) \<in> set rows"
    if k: "length rows < k" and p: "p \<in> ?met" "item_at ?rel p = Some x" "\<not> plain_is_deleted x" for p x
  proof -
    have "?rows (p_heap x) p" unfolding rows using p by blast
    then have "p \<in> snd ` set rows" using rest k by simp
    then obtain h where h: "(h, p) \<in> set rows" by auto
    then have "?rows h p" using all by auto
    then have "h = p_heap x" using p(2) unfolding rows by auto
    then show ?thesis using h by simp
  qed
  show ?thesis
    unfolding Let_def by (intro conjI d all [unfolded rows] impI ballI allI complete)
qed

text \<open>
  C6. A scan of a plain index returns the rows of the nodes that can be reached from the entry points,
  except deleted ones, each node once; when it ends, it has returned them all.
\<close>

theorem scan_streams_rows:
  assumes "plain_world s w" "m_start_nodes m = Some st"
    and "\<forall>ip \<in> set (get_for_node st (lv_labels query)). block_number ip \<noteq> InvalidBlockNumber"
    and "tsv_response_iterator_new (plain_storage_ops s) lru_list m resort_size query n w = Inr (it, w1)"
    and "pull (it_next (plain_storage_ops s) lru_list) k it w1 = Inr (rows, it', w')"
  shows "let rel = w_rel w;
             met = reachable (adj_at plain_iter_neighbors rel) (\<lambda>p. item_at rel p \<noteq> None) (set (get_for_node st (lv_labels query)))
         in distinct (map snd rows) \<and> length rows \<le> k \<and>
            (\<forall>(hp, p) \<in> set rows. p \<in> met \<and> (\<exists>x. item_at rel p = Some x \<and> hp = p_heap x \<and> \<not> plain_is_deleted x)) \<and>
            (length rows < k \<longrightarrow>
               (\<forall>p \<in> met. \<forall>x. item_at rel p = Some x \<longrightarrow> \<not> plain_is_deleted x \<longrightarrow> (p_heap x, p) \<in> set rows))"
  using assms by (rule plain_scan_rows)

theorem scan_streams_rows_witness:
  "\<exists>it w it' w' rows. tsv_response_iterator_new (plain_storage_ops sample_plain) lru_list pair_meta 0 sample_query 100 sample_plain_world = Inr (it, w) \<and>
     pull (it_next (plain_storage_ops sample_plain) lru_list) 5 it w = Inr (rows, it', w') \<and> rows \<noteq> [] \<and> distinct (map snd rows) \<and>
     (\<forall>p \<in> reachable (adj_at plain_iter_neighbors sample_plain_rel) (\<lambda>p. item_at sample_plain_rel p \<noteq> None) {ip1}.
        \<forall>x. item_at sample_plain_rel p = Some x \<longrightarrow> \<not> plain_is_deleted x \<longrightarrow> (p_heap x, p) \<in> set rows)"
proof -
  obtain it w it' w' where new: "tsv_response_iterator_new (plain_storage_ops sample_plain) lru_list pair_meta 0 sample_query 100 sample_plain_world = Inr (it, w)"
    and run: "pull (it_next (plain_storage_ops sample_plain) lru_list) 5 it w =
       Inr ([(ItemPointer 7 3, ip3), (ItemPointer 7 2, ip2), (ItemPointer 7 1, ip1)], it', w')"
    using sample_scan by blast
  have m: "m_start_nodes pair_meta = Some (start_nodes_new ip1)" by (simp add: pair_meta_def)
  have g: "get_for_node (start_nodes_new ip1) (lv_labels sample_query) = [ip1]"
    by (simp add: get_for_node_def start_nodes_new_def sample_query_def)
  have "\<forall>ip \<in> set (get_for_node (start_nodes_new ip1) (lv_labels sample_query)). block_number ip \<noteq> InvalidBlockNumber"
    by (simp add: g InvalidBlockNumber_def)
  note f = scan_streams_rows [OF sample_plain_ok m this new run, unfolded Let_def g]
  have "w_rel sample_plain_world = sample_plain_rel" by (simp add: sample_plain_world_def)
  then show ?thesis using new run f by (intro exI conjI) auto
qed

section \<open>Filtering and rescoring\<close>

lemma sbq_exact_None: "sbq_exact s q hp \<noteq> Inr None \<longleftrightarrow> sq_heap_fetch s hp \<noteq> None"
  by (auto simp: sbq_exact_def split: option.splits)

text \<open>
  C9. A scan of an SBQ index with a label filter and a rescoring window returns the rows that are
  visible in the table, of the nodes that can be reached through nodes whose labels overlap those of
  the query, except deleted ones, each node once; when it ends, it has returned them all.
\<close>

theorem filtered_scan_rows:
  assumes "sbq_world (sbq_model s) w" "m_start_nodes m = Some st" "0 < rescore"
    and "lv_labels query = Some ls" "labels ls \<noteq> []"
    and "\<forall>ip \<in> set (get_for_node st (Some ls)). block_number ip \<noteq> InvalidBlockNumber"
    and "tsv_response_iterator_new (sbq_storage_ops (sbq_model s)) lru_list m rescore query n w = Inr (it, w1)"
    and "pull (it_next_with_resort (sbq_storage_ops (sbq_model s)) lru_list) k it w1 = Inr (rows, it', w')"
  shows "let rel = w_rel w;
             passes = (\<lambda>p. \<exists>x nl. item_at rel p = Some x \<and> sbq_labels x = Some nl \<and> overlaps ls nl);
             met = reachable (adj_at sbq_iter_neighbors rel) passes (set (get_for_node st (Some ls)));
             row = (\<lambda>p hp. \<exists>x. item_at rel p = Some x \<and> hp = sbq_heap_item_pointer x \<and> \<not> sbq_is_deleted x \<and> sq_heap_fetch s hp \<noteq> None)
         in distinct (map snd rows) \<and> length rows \<le> k \<and> (\<forall>(hp, p) \<in> set rows. p \<in> met \<and> row p hp) \<and>
            (length rows < k \<longrightarrow> (\<forall>p \<in> met. \<forall>hp. row p hp \<longrightarrow> (hp, p) \<in> set rows))"
proof -
  let ?s = "sbq_model s" and ?rel = "w_rel w" and ?S0 = "set (get_for_node st (Some ls))"
  have "\<forall>ip \<in> set (get_for_node st (lv_labels query)). block_number ip \<noteq> InvalidBlockNumber"
    using assms(4,6) by simp
  from sbq_scan.stream_start [OF assms(7,1,2) this, unfolded assms(4)]
  obtain q nf where q: "s_query_dm (sbq_storage_ops ?s) query = Inr q" and nf: "nf = (\<nexists>l. Some ls = Some l \<and> labels l \<noteq> [])"
    and st0: "sbq_scan.stream_state s ?rel q nf ?S0 {} it w1" and b: "it_resort_buffer it = []" "it_resort_size it = rescore"
    by blast
  have q: "qdm_query q = query" using q by (auto simp: sbq_storage_ops_def sbq_query_dm_def)
  have nf: "\<not> nf" using nf assms(5) by blast
  note f = sbq_scan.pull_rescored(2) [OF sbq_scan.rescored_new [OF st0 b assms(3)] assms(8)]
  let ?rows = "sbq_scan.visible s ?rel q nf ?S0"
  let ?met = "reachable (adj_at sbq_iter_neighbors ?rel) (\<lambda>p. \<exists>x nl. item_at ?rel p = Some x \<and> sbq_labels x = Some nl \<and> overlaps ls nl) ?S0"
  let ?row = "\<lambda>p hp. \<exists>x. item_at ?rel p = Some x \<and> hp = sbq_heap_item_pointer x \<and> \<not> sbq_is_deleted x \<and> sq_heap_fetch s hp \<noteq> None"
  have m: "sbq_scan.meets_at ?rel q nf = (\<lambda>p. \<exists>x nl. item_at ?rel p = Some x \<and> sbq_labels x = Some nl \<and> overlaps ls nl)"
    using nf assms(4) q by (auto simp: sbq_scan.meets_at_def sbq_meets_def fun_eq_iff split: option.splits)
  have h: "sq_heap_fetch ?s = sq_heap_fetch s" by (simp add: sbq_model_def)
  have rows: "?rows hp p \<longleftrightarrow> p \<in> ?met \<and> ?row p hp" for hp p
    unfolding sbq_scan.visible_def sbq_scan.rows_of_def sbq_scan.live_def sbq_is_deleted_def sbq_exact_None m h by blast
  have all: "\<forall>(hp, p) \<in> set rows. ?rows hp p"
    and rest: "length rows < k \<longrightarrow> (\<forall>hp p. ?rows hp p \<longrightarrow> p \<in> {} \<union> snd ` set rows)"
    and d: "distinct (map snd rows)" "length rows \<le> k"
    using f by simp_all
  have complete: "(hp, p) \<in> set rows" if k: "length rows < k" and p: "p \<in> ?met" "?row p hp" for p hp
  proof -
    have "?rows hp p" unfolding rows using p by blast
    then have "p \<in> snd ` set rows" using rest k by simp
    then obtain h where h: "(h, p) \<in> set rows" by auto
    then have "?rows h p" using all by auto
    then have "h = hp" using p(2) unfolding rows by auto
    then show ?thesis using h by simp
  qed
  show ?thesis
    unfolding Let_def by (intro conjI d all [unfolded rows] impI ballI allI complete)
qed

theorem filtered_scan_rows_witness:
  "\<exists>it w it' w' rows. tsv_response_iterator_new sample_sbq_ops lru_list sample_sbq_meta 2 (qdm_query sample_sbq_query) 100 sample_sbq_world = Inr (it, w) \<and>
     pull (it_next_with_resort sample_sbq_ops lru_list) 2 it w = Inr (rows, it', w') \<and> (ItemPointer 7 1, ip1) \<in> set rows \<and> ip2 \<notin> snd ` set rows"
proof -
  obtain w where new: "tsv_response_iterator_new sample_sbq_ops lru_list sample_sbq_meta 2 (qdm_query sample_sbq_query) 100 sample_sbq_world =
     Inr (sample_sbq_it, w)" and w: "w_rel w = w_rel sample_sbq_world"
    using sample_sbq_it_new by blast
  have two: "2 = Suc (Suc 0)" by simp
  obtain it' w' where run: "pull (it_next_with_resort sample_sbq_ops lru_list) 2 sample_sbq_it w = Inr ([(ItemPointer 7 1, ip1)], it', w')"
    using sample_sbq_scan [OF w] unfolding two by auto
  have ls: "lv_labels (qdm_query sample_sbq_query) = Some (LabelSet [1])" by (simp add: sample_sbq_query_def)
  have "\<forall>ip \<in> set (get_for_node \<lparr>default_node = ip1, labeled_nodes = [(1, ip1)]\<rparr> (Some (LabelSet [1]))). block_number ip \<noteq> InvalidBlockNumber"
    by (simp add: sample_sbq_entry(2) [unfolded ls] InvalidBlockNumber_def)
  note f = filtered_scan_rows [OF sample_sbq_ok sample_sbq_entry(1) _ ls _ this new run]
  have i: "item_at (w_rel sample_sbq_world) ip1 = Some (sample_sbq_node 0 1 [ip2, empty_slot])"
    by (simp add: item_at_def sample_sbq_world_def get_item_unchecked_def items_of_def)
  have "snd (ItemPointer 7 1, ip1) \<in> reachable (adj_at sbq_iter_neighbors (w_rel sample_sbq_world))
      (\<lambda>p. \<exists>x nl. item_at (w_rel sample_sbq_world) p = Some x \<and> sbq_labels x = Some nl \<and> overlaps (LabelSet [1]) nl) {ip1}"
    by (simp add: reachable.start)
  then show ?thesis using new run f i by (intro exI conjI) (auto simp: Let_def)
qed

text \<open>
  C17. A row that a rescoring scan returns is the closest of its window: its exact distance is at most
  that of every row waiting, the window was full or holds all the rows that are left, and the rows
  waiting are kept with their exact distances.
\<close>

theorem rescore_window:
  assumes "sbq_world (sbq_model s) w" "m_start_nodes m = Some st" "0 < rescore"
    and "\<forall>ip \<in> set (get_for_node st (lv_labels query)). block_number ip \<noteq> InvalidBlockNumber"
    and "sbq_query_dm (sbq_model s) query = Inr q"
    and "tsv_response_iterator_new (sbq_storage_ops (sbq_model s)) lru_list m rescore query n w = Inr (it, w1)"
    and "pull (it_next_with_resort (sbq_storage_ops (sbq_model s)) lru_list) k it w1 = Inr (rows, it', w')"
    and "it_next_with_resort (sbq_storage_ops (sbq_model s)) lru_list it' w' = Inr (Some (hp, p), it2, w2)"
  shows "\<exists>d. sbq_exact (sbq_model s) q hp = Inr (Some d) \<and>
    (\<forall>rd \<in> set (it_resort_buffer it2). f32_total_key d \<le> f32_total_key (rd_distance rd) \<and>
       sbq_exact (sbq_model s) q (rd_heap_pointer rd) = Inr (Some (rd_distance rd))) \<and>
    (Suc (length (it_resort_buffer it2)) = rescore \<or>
      (let rel = w_rel w;
           passes = (\<lambda>r. \<exists>x. item_at rel r = Some x \<and> sbq_meets q (\<forall>ls. lv_labels query = Some ls \<longrightarrow> labels ls = []) x);
           left = reachable (adj_at sbq_iter_neighbors rel) passes (set (get_for_node st (lv_labels query))) - snd ` set rows - {p}
       in \<forall>r \<in> left. \<forall>x. item_at rel r = Some x \<longrightarrow> \<not> sbq_is_deleted x \<longrightarrow> sq_heap_fetch s (sbq_heap_item_pointer x) \<noteq> None \<longrightarrow>
            r \<in> rd_index_pointer ` set (it_resort_buffer it2)))"
proof -
  let ?s = "sbq_model s" and ?rel = "w_rel w" and ?S0 = "set (get_for_node st (lv_labels query))"
  obtain q' nf where q: "s_query_dm (sbq_storage_ops ?s) query = Inr q'" and nf: "nf = (\<nexists>l. lv_labels query = Some l \<and> labels l \<noteq> [])"
    and st0: "sbq_scan.stream_state s ?rel q' nf ?S0 {} it w1" and b: "it_resort_buffer it = []" "it_resort_size it = rescore"
    using sbq_scan.stream_start [OF assms(6,1,2,4)] by blast
  have qq: "q' = q" using q assms(5) by (simp add: sbq_storage_ops_def)
  have nf: "nf = (\<forall>ls. lv_labels query = Some ls \<longrightarrow> labels ls = [])" using nf by blast
  have r0: "sbq_scan.rescored s rescore ?rel q nf ?S0 {} it w1" using sbq_scan.rescored_new [OF st0 b assms(3)] qq by simp
  let ?T = "{} \<union> snd ` set rows"
  have r1: "sbq_scan.rescored s rescore ?rel q nf ?S0 ?T it' w'" using sbq_scan.pull_rescored(2) [OF r0 assms(7)] by blast
  then have st1: "sbq_scan.resort_state s ?rel q nf ?S0 ?T it' w'" "0 < it_resort_size it'"
      "length (it_resort_buffer it') \<le> it_resort_size it'" and size: "it_resort_size it' = rescore"
    by (simp_all add: sbq_scan.rescored_def)
  note f = sbq_scan.resort_state_next [OF st1 assms(8), unfolded option.case prod.case]
  have size2: "it_resort_size it2 = rescore" using f size by simp
  have "sbq_scan.resort_state s ?rel q nf ?S0 (insert p ?T) it2 w2" using f by blast
  then have buf: "\<forall>rd \<in> set (it_resort_buffer it2). sbq_exact ?s q (rd_heap_pointer rd) = Inr (Some (rd_distance rd))"
    unfolding sbq_scan.resort_state_def sbq_scan.buffer_ok_def by blast
  obtain d where d: "sbq_exact ?s q hp = Inr (Some d)"
    "\<forall>rd \<in> set (it_resort_buffer it2). f32_total_key d \<le> f32_total_key (rd_distance rd)" using f by blast
  have full: "Suc (length (it_resort_buffer it2)) = rescore \<or> sbq_scan.all_taken s ?rel q nf ?S0 (insert p ?T) it2"
    using f unfolding size2 by blast
  have h: "sq_heap_fetch ?s = sq_heap_fetch s" by (simp add: sbq_model_def)
  have left: "r \<in> rd_index_pointer ` set (it_resort_buffer it2)"
    if all: "sbq_scan.all_taken s ?rel q nf ?S0 (insert p ?T) it2"
      and r: "r \<in> reachable (adj_at sbq_iter_neighbors ?rel) (\<lambda>r. \<exists>x. item_at ?rel r = Some x \<and> sbq_meets q nf x) ?S0 - snd ` set rows - {p}"
      and x: "item_at ?rel r = Some x" "\<not> sbq_is_deleted x" "sq_heap_fetch s (sbq_heap_item_pointer x) \<noteq> None" for r x
  proof -
    have "sbq_scan.visible s ?rel q nf ?S0 (sbq_heap_item_pointer x) r"
      using r x unfolding sbq_scan.visible_def sbq_scan.rows_of_def sbq_scan.live_def sbq_is_deleted_def sbq_exact_None
        sbq_scan.meets_at_def h by blast
    then show ?thesis using all r unfolding sbq_scan.all_taken_def by auto
  qed
  show ?thesis unfolding Let_def nf [symmetric] using d buf full left by blast
qed

theorem rescore_window_witness:
  "\<exists>it it' w w'. tsv_response_iterator_new sample_sbq_ops lru_list sample_sbq_meta 2 (qdm_query sample_sbq_query) 100 sample_sbq_world = Inr (it, w) \<and>
     it_next_with_resort sample_sbq_ops lru_list it w = Inr (Some (ItemPointer 7 1, ip1), it', w') \<and>
     (\<exists>d. sbq_exact (sbq_model sample_sbq) sample_sbq_query (ItemPointer 7 1) = Inr (Some d))"
proof -
  obtain w where new: "tsv_response_iterator_new sample_sbq_ops lru_list sample_sbq_meta 2 (qdm_query sample_sbq_query) 100 sample_sbq_world =
     Inr (sample_sbq_it, w)" and w: "w_rel w = w_rel sample_sbq_world"
    using sample_sbq_it_new by blast
  obtain it' w' where run: "it_next_with_resort sample_sbq_ops lru_list sample_sbq_it w = Inr (Some (ItemPointer 7 1, ip1), it', w')"
    using sample_sbq_scan [OF w] by blast
  have "pull (it_next_with_resort sample_sbq_ops lru_list) 0 sample_sbq_it w = Inr ([], sample_sbq_it, w)" by simp
  moreover have "\<forall>ip \<in> set (get_for_node \<lparr>default_node = ip1, labeled_nodes = [(1, ip1)]\<rparr> (lv_labels (qdm_query sample_sbq_query))).
      block_number ip \<noteq> InvalidBlockNumber"
    by (simp add: sample_sbq_entry InvalidBlockNumber_def)
  moreover have "(0 :: nat) < 2" by simp
  ultimately show ?thesis
    using rescore_window [OF sample_sbq_ok sample_sbq_entry(1) _ _ sample_sbq_query_dm new _ run] new run by blast
qed

section \<open>Scans return\<close>

text \<open>
  C29. Every call of a scan returns, with and without rescoring, on either storage: a scan takes every
  node off the frontier at most once, so that skipping deleted or invisible rows comes to an end.
\<close>

theorem scan_returns:
  assumes "plain_world s w" "sbq_world (sbq_model t) v" "m_start_nodes m = Some st" "m_start_nodes m' = Some st'"
    and "\<forall>ip \<in> set (get_for_node st (lv_labels query)). block_number ip \<noteq> InvalidBlockNumber"
    and "\<forall>ip \<in> set (get_for_node st' (lv_labels query')). block_number ip \<noteq> InvalidBlockNumber"
    and "tsv_response_iterator_new (plain_storage_ops s) lru_list m rescore query n w = Inr (it, w1)"
    and "tsv_response_iterator_new (sbq_storage_ops (sbq_model t)) lru_list m' rescore query' n v = Inr (jt, v1)"
  shows "pull (it_next (plain_storage_ops s) lru_list) k it w1 \<noteq> Inl OutOfFuel \<and>
    pull (it_next_with_resort (plain_storage_ops s) lru_list) k it w1 \<noteq> Inl OutOfFuel \<and>
    pull (it_next_with_resort (sbq_storage_ops (sbq_model t)) lru_list) k jt v1 \<noteq> Inl OutOfFuel"
proof -
  obtain q nf where p: "plain_scan.stream_state s (w_rel w) q nf (set (get_for_node st (lv_labels query))) {} it w1" "it_resort_buffer it = []"
    using plain_scan.stream_start [OF assms(7,1,3,5)] by blast
  obtain q' nf' where q: "sbq_scan.stream_state t (w_rel v) q' nf' (set (get_for_node st' (lv_labels query'))) {} jt v1" "it_resort_buffer jt = []"
    using sbq_scan.stream_start [OF assms(8,2,4,6)] by blast
  show ?thesis
    by (intro conjI plain_scan.pull_returns [OF p] sbq_scan.pull_returns(2) [OF q])
qed

theorem scan_returns_witness:
  "\<exists>it w jt v. tsv_response_iterator_new (plain_storage_ops sample_plain) lru_list pair_meta 2 sample_query 100 sample_plain_world = Inr (it, w) \<and>
     tsv_response_iterator_new sample_sbq_ops lru_list sample_sbq_meta 2 (qdm_query sample_sbq_query) 100 sample_sbq_world = Inr (jt, v) \<and>
     pull (it_next (plain_storage_ops sample_plain) lru_list) 1000 it w \<noteq> Inl OutOfFuel \<and>
     pull (it_next_with_resort (plain_storage_ops sample_plain) lru_list) 1000 it w \<noteq> Inl OutOfFuel \<and>
     pull (it_next_with_resort sample_sbq_ops lru_list) 1000 jt v \<noteq> Inl OutOfFuel"
proof -
  obtain w where w: "tsv_response_iterator_new (plain_storage_ops sample_plain) lru_list pair_meta 2 sample_query 100 sample_plain_world =
     Inr ((sample_it (sample_state [lsn1] [] {ip1}) 0)\<lparr>it_resort_size := 2\<rparr>, w)"
    using sample_it_new by (auto simp: tsv_response_iterator_new_def Let_def)
  obtain v where v: "tsv_response_iterator_new sample_sbq_ops lru_list sample_sbq_meta 2 (qdm_query sample_sbq_query) 100 sample_sbq_world =
     Inr (sample_sbq_it, v)"
    using sample_sbq_it_new by blast
  have m: "m_start_nodes pair_meta = Some (start_nodes_new ip1)" by (simp add: pair_meta_def)
  have "\<forall>ip \<in> set (get_for_node (start_nodes_new ip1) (lv_labels sample_query)). block_number ip \<noteq> InvalidBlockNumber"
    "\<forall>ip \<in> set (get_for_node \<lparr>default_node = ip1, labeled_nodes = [(1, ip1)]\<rparr> (lv_labels (qdm_query sample_sbq_query))).
      block_number ip \<noteq> InvalidBlockNumber"
    by (simp_all add: sample_sbq_entry get_for_node_def [of _ None] start_nodes_new_def sample_query_def
        InvalidBlockNumber_def)
  from scan_returns [OF sample_plain_ok sample_sbq_ok m sample_sbq_entry(1) this w v] w v show ?thesis by blast
qed

end
