(* ===== verification/Vacuum.thy ===== *)
theory Vacuum
  imports Search_Storage
begin

text \<open>
  \<open>vacuum.rs\<close>: bulk deletion marks the nodes of dead rows, page by page, under the cleanup lock of the
  page; the graph is left as it is. The callback of PostgreSQL that knows the dead rows is the
  parameter \<open>dead\<close>. While vacuum waits for the cleanup lock another backend may act (\<open>interfere\<close>).
  The counters are floats in the code, which count exactly up to \<open>2 ^ 53\<close>, more than an index has
  items; they are naturals here.
\<close>

section \<open>Operations\<close>

record bulk_delete_result =
  num_pages :: nat
  num_index_tuples :: nat
  tuples_removed :: nat

text \<open>\<open>NodeVacuum\<close> and the page type of its storage; \<open>with_data\<close> reads a node of one kind only.\<close>

record 'n node_vacuum =
  nv_page_type :: page_type
  nv_kind :: "'n \<Rightarrow> bool"
  nv_is_deleted :: "'n \<Rightarrow> bool"
  nv_heap_item_pointer :: "'n \<Rightarrow> heap_pointer"
  nv_delete :: "'n \<Rightarrow> 'n"

fun vacuum_items ::
  "'n node_vacuum \<Rightarrow> (heap_pointer \<Rightarrow> bool) \<Rightarrow> 'n list \<Rightarrow> bool \<Rightarrow> bulk_delete_result
     \<Rightarrow> ('n list \<times> bool \<times> bulk_delete_result) res" where
  "vacuum_items nv dead [] modified results = Inr ([], modified, results)"
| "vacuum_items nv dead (node # nodes) modified results =
     rbind (rassert (nv_kind nv node) ''undefined: node of the other kind'') (\<lambda>_.
     if nv_is_deleted nv node then
       rbind (vacuum_items nv dead nodes modified results) (\<lambda>(nodes, modified, results).
       Inr (node # nodes, modified, results))
     else if dead (nv_heap_item_pointer nv node) then
       rbind (vacuum_items nv dead nodes True (results\<lparr>tuples_removed := tuples_removed results + 1\<rparr>)) (\<lambda>(nodes, modified, results).
       Inr (nv_delete nv node # nodes, modified, results))
     else
       rbind (vacuum_items nv dead nodes modified (results\<lparr>num_index_tuples := num_index_tuples results + 1\<rparr>))
         (\<lambda>(nodes, modified, results).
       Inr (node # nodes, modified, results)))"

definition set_items :: "'n list \<Rightarrow> 'n page \<Rightarrow> 'n page" where
  "set_items ns p = (case p of NewPage \<Rightarrow> NewPage | InitPage q _ \<Rightarrow> InitPage q ns)"

definition vacuum_page ::
  "'n node_vacuum \<Rightarrow> (heap_pointer \<Rightarrow> bool) \<Rightarrow> block_number \<Rightarrow> bulk_delete_result \<times> 'n world
     \<Rightarrow> (bulk_delete_result \<times> 'n world) res" where
  "vacuum_page nv dead b = (\<lambda>(results, w).
     rbind (read_buffer (w_rel w) b) (\<lambda>page.
     if is_new page then Inr (results, w)
     else
       rbind (readable_type page) (\<lambda>t.
       if t \<noteq> nv_page_type nv then Inr (results, w)
       else
         let w = interfere w in
         rbind (writable_modify (w_rel w) b) (\<lambda>wp.
         rbind (read_from_page (wp_page wp)) (\<lambda>t.
         if t \<noteq> nv_page_type nv then Inr (results, w)
         else
           rbind (vacuum_items nv dead (items_of (wp_page wp)) False results) (\<lambda>(nodes, modified, results).
           Inr (results,
             if modified then w\<lparr>w_rel := commit (w_rel w) (wp\<lparr>wp_page := set_items nodes (wp_page wp)\<rparr>)\<rparr> else w)))))))"

definition bulk_delete_for_storage ::
  "'n node_vacuum \<Rightarrow> (heap_pointer \<Rightarrow> bool) \<Rightarrow> nat \<Rightarrow> bulk_delete_result \<Rightarrow> 'n world \<Rightarrow> (bulk_delete_result \<times> 'n world) res" where
  "bulk_delete_for_storage nv dead nblocks results w = rfold (vacuum_page nv dead) (map of_nat [0..<nblocks]) (results, w)"

definition plain_vacuum :: "plain_node node_vacuum" where
  "plain_vacuum =
     \<lparr>nv_page_type = Node, nv_kind = (\<lambda>_. True), nv_is_deleted = plain_is_deleted, nv_heap_item_pointer = p_heap,
      nv_delete = plain_delete\<rparr>"

definition sbq_vacuum :: "bool \<Rightarrow> sbq_node node_vacuum" where
  "sbq_vacuum has_labels =
     \<lparr>nv_page_type = SbqNode, nv_kind = (\<lambda>n. sbq_has_labels n = has_labels), nv_is_deleted = sbq_is_deleted,
      nv_heap_item_pointer = sbq_heap_item_pointer, nv_delete = sbq_delete\<rparr>"

text \<open>
  \<open>ambulkdelete\<close> chooses the storage by the meta page: \<open>plain_vacuum\<close>, or \<open>sbq_vacuum\<close> with the
  meta page's \<open>has_labels\<close>.
\<close>

definition ambulkdelete ::
  "'n node_vacuum \<Rightarrow> bulk_delete_result option \<Rightarrow> (heap_pointer \<Rightarrow> bool) \<Rightarrow> 'n world \<Rightarrow> (bulk_delete_result \<times> 'n world) res" where
  "ambulkdelete nv stats dead w =
     (let results = (case stats of None \<Rightarrow> \<lparr>num_pages = 0, num_index_tuples = 0, tuples_removed = 0\<rparr> | Some s \<Rightarrow> s);
          nblocks = length (w_rel w)
      in bulk_delete_for_storage nv dead nblocks results w)"

definition amvacuumcleanup :: "bulk_delete_result option \<Rightarrow> bool \<Rightarrow> 'n relation \<Rightarrow> bulk_delete_result option" where
  "amvacuumcleanup stats analyze_only rel =
     (case stats of
        None \<Rightarrow> None
      | Some s \<Rightarrow> if analyze_only then Some s else Some (s\<lparr>num_pages := length rel\<rparr>))"

section \<open>What other backends are relied on to do\<close>

text \<open>An initialised page stays one of its type, and its nodes keep what \<open>core\<close> shows of them.\<close>

definition page_keeps :: "('n \<Rightarrow> 'c) \<Rightarrow> 'n page \<Rightarrow> 'n page \<Rightarrow> bool" where
  "page_keeps core p p' = (case p of
     NewPage \<Rightarrow> True
   | InitPage q is \<Rightarrow> (case p' of NewPage \<Rightarrow> False
       | InitPage q' is' \<Rightarrow> q' = q \<and> length is \<le> length is' \<and> (\<forall>i < length is. core (is' ! i) = core (is ! i))))"

definition rel_keeps :: "('n \<Rightarrow> 'c) \<Rightarrow> 'n relation \<Rightarrow> 'n relation \<Rightarrow> bool" where
  "rel_keeps core rel rel' \<longleftrightarrow> length rel \<le> length rel' \<and> (\<forall>b < length rel. page_keeps core (rel ! b) (rel' ! b))"

lemma page_keeps_refl [simp]: "page_keeps core p p"
  by (cases p) (simp_all add: page_keeps_def)

lemma page_keeps_trans: "page_keeps core p q \<Longrightarrow> page_keeps core q r \<Longrightarrow> page_keeps core p r"
  by (auto simp: page_keeps_def split: page.splits)

lemma rel_keeps_refl [simp]: "rel_keeps core r r"
  by (simp add: rel_keeps_def)

lemma rel_keeps_trans: "rel_keeps core r s \<Longrightarrow> rel_keeps core s t \<Longrightarrow> rel_keeps core r t"
  by (auto simp: rel_keeps_def intro: page_keeps_trans)

lemma page_keeps_weaken:
  assumes "page_keeps core p p'" "\<And>x y. core x = core y \<Longrightarrow> core' x = core' y"
  shows "page_keeps core' p p'"
proof (cases p)
  case (InitPage q "is")
  with assms(1) obtain is' where p': "p' = InitPage q is'"
    unfolding page_keeps_def by (cases p') auto
  have "length is \<le> length is'" "\<forall>i < length is. core (is' ! i) = core (is ! i)"
    using assms(1) InitPage p' by (simp_all add: page_keeps_def)
  then have "\<forall>i < length is. core' (is' ! i) = core' (is ! i)" using assms(2) by blast
  then show ?thesis using InitPage p' \<open>length is \<le> length is'\<close> by (simp add: page_keeps_def)
qed (simp add: page_keeps_def)

lemma rel_keeps_weaken:
  assumes "rel_keeps core r s" "\<And>x y. core x = core y \<Longrightarrow> core' x = core' y"
  shows "rel_keeps core' r s"
  unfolding rel_keeps_def
proof (intro conjI allI impI)
  show "length r \<le> length s" using assms(1) by (simp add: rel_keeps_def)
  fix b assume "b < length r"
  then have "page_keeps core (r ! b) (s ! b)" using assms(1) by (simp add: rel_keeps_def)
  then show "page_keeps core' (r ! b) (s ! b)" by (rule page_keeps_weaken) (rule assms(2))
qed

lemma page_keeps_items:
  "page_keeps core p p' \<Longrightarrow> i < length (items_of p) \<Longrightarrow>
     i < length (items_of p') \<and> core (items_of p' ! i) = core (items_of p ! i)"
  by (auto simp: page_keeps_def items_of_def split: page.splits)

lemma rel_keeps_nodes:
  assumes "rel_keeps core r s"
  shows "keeps_nodes core r s"
proof -
  have "page_keeps core (r ! b) (s ! b)" if "b < length r" for b using assms that by (simp add: rel_keeps_def)
  then show ?thesis using assms page_keeps_items [of core] unfolding keeps_nodes_def rel_keeps_def by blast
qed

section \<open>Marking\<close>

text \<open>The contract of a node that vacuum can mark.\<close>

locale vacuum_node = graph_node slots iter set_nbrs heap core deleted del
  for slots :: "'n \<Rightarrow> item_pointer list" and iter set_nbrs and heap and core :: "'n \<Rightarrow> 'c" and deleted and del +
  fixes nv :: "'n node_vacuum"
  assumes nv_ops: "nv_is_deleted nv = deleted" "nv_heap_item_pointer nv = heap" "nv_delete nv = del"
    and del_heap: "heap (del n) = ItemPointer InvalidBlockNumber InvalidOffsetNumber"
    and del_kind: "nv_kind nv (del n) = nv_kind nv n"
begin

definition hit :: "(heap_pointer \<Rightarrow> bool) \<Rightarrow> heap_pointer \<Rightarrow> bool" where
  "hit dead hp \<longleftrightarrow> offset hp \<noteq> InvalidOffsetNumber \<and> dead hp"

definition mark :: "(heap_pointer \<Rightarrow> bool) \<Rightarrow> 'n \<Rightarrow> 'n" where
  "mark dead n = (if hit dead (heap n) then del n else n)"

definition target :: "'n page \<Rightarrow> bool" where
  "target p \<longleftrightarrow> (\<exists>is. p = InitPage (tsv_opaque_new (nv_page_type nv)) is)"

lemma mark_frame [simp]:
  "slots (mark dead n) = slots n" "core (mark dead n) = core n" "nv_kind nv (mark dead n) = nv_kind nv n"
  "iter (mark dead n) = iter n"
  "heap (mark dead n) = (if hit dead (heap n) then ItemPointer InvalidBlockNumber InvalidOffsetNumber else heap n)"
  by (simp_all add: mark_def del_frame del_kind del_heap del_iter)

definition counted :: "(heap_pointer \<Rightarrow> bool) \<Rightarrow> 'n list \<Rightarrow> bulk_delete_result \<Rightarrow> bulk_delete_result" where
  "counted dead ns st =
     st\<lparr>tuples_removed := tuples_removed st + length (filter (\<lambda>n. hit dead (heap n)) ns),
        num_index_tuples := num_index_tuples st + length (filter (\<lambda>n. \<not> deleted n \<and> \<not> hit dead (heap n)) ns)\<rparr>"

lemma vacuum_items_run:
  assumes "\<forall>n \<in> set ns. nv_kind nv n"
  shows "vacuum_items nv dead ns modified st =
    Inr (List.map (mark dead) ns, modified \<or> (\<exists>n \<in> set ns. hit dead (heap n)), counted dead ns st)"
  using assms
proof (induction ns arbitrary: modified st)
  case (Cons n ns)
  then show ?case
    by (cases "deleted n"; cases "dead (heap n)")
      (simp_all add: nv_ops mark_def hit_def counted_def deleted_heap [symmetric])
qed (simp add: counted_def)

lemma mark_none: "\<not> (\<exists>n \<in> set ns. hit dead (heap n)) \<Longrightarrow> List.map (mark dead) ns = ns"
  by (simp add: mark_def map_idI)

text \<open>A page of the storage's type is locked, marked and committed; any other page is passed over.\<close>

lemma target_type: "page_inv p \<Longrightarrow> target p \<longleftrightarrow> p \<noteq> NewPage \<and> read_from_page p = Inr (nv_page_type nv)"
  by (auto simp: target_def page_inv_def read_from_page_def split: page.splits)

lemma vacuum_page_skip:
  assumes "unat b < length (w_rel w)" "page_inv (w_rel w ! unat b)" "\<not> target (w_rel w ! unat b)"
  shows "vacuum_page nv dead b (st, w) = Inr (st, w)"
proof (cases "w_rel w ! unat b")
  case NewPage
  then show ?thesis using assms(1) by (simp add: vacuum_page_def read_buffer_def is_new_def)
next
  case (InitPage q ns)
  then obtain t where q: "q = tsv_opaque_new t" using assms(2) by (auto simp: page_inv_def)
  then have "t \<noteq> nv_page_type nv" using assms(3) InitPage by (auto simp: target_def)
  then show ?thesis
    using assms(1) InitPage q by (simp add: vacuum_page_def read_buffer_def is_new_def readable_type_def read_from_page_def)
qed

lemma vacuum_page_run:
  assumes "unat b < length (w_rel w)" "target (w_rel w ! unat b)"
    and "unat b < length (w_rel (interfere w))" "target (w_rel (interfere w) ! unat b)"
    and "\<forall>n \<in> set (items_of (w_rel (interfere w) ! unat b)). nv_kind nv n"
  shows "vacuum_page nv dead b (st, w) = Inr (counted dead (items_of (w_rel (interfere w) ! unat b)) st, (interfere w)\<lparr>w_rel := (w_rel (interfere w))
    [unat b := InitPage (tsv_opaque_new (nv_page_type nv)) (List.map (mark dead) (items_of (w_rel (interfere w) ! unat b)))]\<rparr>)"
proof -
  let ?w = "interfere w" and ?q = "tsv_opaque_new (nv_page_type nv)"
  obtain ns0 where p0: "w_rel w ! unat b = InitPage ?q ns0" using assms(2) by (auto simp: target_def)
  obtain ns where p: "w_rel ?w ! unat b = InitPage ?q ns" using assms(4) by (auto simp: target_def)
  have kind: "\<forall>n \<in> set ns. nv_kind nv n" using assms(5) p by (simp add: items_of_def)
  have same: "?w\<lparr>w_rel := (w_rel ?w)[unat b := InitPage ?q ns]\<rparr> = ?w"
    using p by (metis list_update_id world.surjective world.update_convs(1))
  have none: "List.map (mark dead) ns = ns" if "\<not> (\<exists>n \<in> set ns. hit dead (heap n))" using mark_none [OF that] .
  have items: "items_of (w_rel ?w ! unat b) = ns" using p by (simp add: items_of_def)
  show ?thesis
    unfolding items using assms(1,3) p0 p same none
    by (cases "\<exists>n \<in> set ns. hit dead (heap n)")
      (simp_all add: vacuum_page_def read_buffer_def is_new_def readable_type_def read_from_page_def writable_modify_def
        Let_def items_of_def set_items_def commit_def vacuum_items_run [OF kind])
qed

section \<open>Bulk deletion among other backends\<close>

text \<open>
  Nodes are read by the operations of their kind; other backends keep the row, the vector and the
  labels of a node (vacuum excludes another vacuum), and may do anything else to its adjacency.
\<close>

definition vac_ok :: "nat \<Rightarrow> 'n relation \<Rightarrow> bool" where
  "vac_ok k r \<longleftrightarrow> rel_inv r \<and> nodes_ok slots k r \<and> (\<forall>p \<in> set r. target p \<longrightarrow> (\<forall>n \<in> set (items_of p). nv_kind nv n))"

definition vac_world :: "nat \<Rightarrow> 'n world \<Rightarrow> bool" where
  "vac_world k = others_ok (vac_ok k) (rel_keeps (\<lambda>n. (heap n, core n)))"

definition mark_page :: "(heap_pointer \<Rightarrow> bool) \<Rightarrow> 'n page \<Rightarrow> 'n page" where
  "mark_page dead p = (if target p then InitPage (tsv_opaque_new (nv_page_type nv)) (List.map (mark dead) (items_of p)) else p)"

lemma target_mark_page [simp]: "target (mark_page dead p) = target p"
  by (simp add: mark_page_def target_def)

lemma items_mark_page: "target p \<Longrightarrow> items_of (mark_page dead p) = List.map (mark dead) (items_of p)"
  by (simp add: mark_page_def items_of_def)

lemma page_keeps_mark: "page_keeps core p (mark_page dead p)"
proof (cases "target p")
  case True
  then obtain ns where "p = InitPage (tsv_opaque_new (nv_page_type nv)) ns" by (auto simp: target_def)
  then show ?thesis using True by (simp add: mark_page_def page_keeps_def items_of_def)
qed (simp add: mark_page_def)

lemma vac_ok_mark:
  assumes "vac_ok k r" "b < length r"
  shows "vac_ok k (r[b := mark_page dead (r ! b)])"
proof -
  have p: "r ! b \<in> set r" using assms(2) by simp
  have "page_inv (mark_page dead (r ! b))"
    using assms(1) p by (auto simp: vac_ok_def rel_inv_def mark_page_def target_def page_inv_def items_of_def)
  moreover have "\<forall>n \<in> set (items_of (mark_page dead (r ! b))). length (slots n) = k"
  proof (cases "target (r ! b)")
    case True
    then show ?thesis using assms(1) p by (auto simp: vac_ok_def nodes_ok_def items_mark_page)
  next
    case False
    then have "mark_page dead (r ! b) = r ! b" by (simp add: mark_page_def)
    then show ?thesis using assms(1) p by (simp add: vac_ok_def nodes_ok_def)
  qed
  moreover have "target (mark_page dead (r ! b)) \<longrightarrow> (\<forall>n \<in> set (items_of (mark_page dead (r ! b))). nv_kind nv n)"
    using assms(1) p by (auto simp: vac_ok_def items_mark_page)
  moreover have "set (r[b := mark_page dead (r ! b)]) \<subseteq> insert (mark_page dead (r ! b)) (set r)" by (rule set_update_subset_insert)
  ultimately show ?thesis using assms(1) unfolding vac_ok_def rel_inv_def nodes_ok_def by (auto simp: subset_iff)
qed

text \<open>One page, in terms of \<open>mark_page\<close>.\<close>

lemma vacuum_page_facts:
  assumes w: "vac_world k w" and b: "unat b < length (w_rel w)"
  shows "vacuum_page nv dead b (st, w) =
    (if target (w_rel w ! unat b) then
       Inr (counted dead (items_of (w_rel (interfere w) ! unat b)) st,
         (interfere w)\<lparr>w_rel := (w_rel (interfere w))[unat b := mark_page dead (w_rel (interfere w) ! unat b)]\<rparr>)
     else Inr (st, w)) \<and>
    (target (w_rel w ! unat b) \<longrightarrow> unat b < length (w_rel (interfere w)) \<and> target (w_rel (interfere w) ! unat b))"
proof -
  have ok: "vac_ok k (w_rel w)" using w by (simp add: vac_world_def others_ok_def)
  then have pinv: "page_inv (w_rel w ! unat b)" using b by (simp add: vac_ok_def rel_inv_nth)
  let ?w = "interfere w"
  have iw: "vac_world k ?w" using w others_ok_interfere by (simp add: vac_world_def)
  have keeps: "rel_keeps (\<lambda>n. (heap n, core n)) (w_rel w) (w_rel ?w)"
    using w by (auto simp: vac_world_def others_ok_def interfere_def split: list.splits)
  have t: "unat b < length (w_rel ?w)" "target (w_rel ?w ! unat b)" if "target (w_rel w ! unat b)"
  proof -
    show "unat b < length (w_rel ?w)" using keeps b by (simp add: rel_keeps_def)
    have "page_keeps (\<lambda>n. (heap n, core n)) (w_rel w ! unat b) (w_rel ?w ! unat b)" using keeps b by (simp add: rel_keeps_def)
    then show "target (w_rel ?w ! unat b)" using that by (auto simp: target_def page_keeps_def split: page.splits)
  qed
  show ?thesis
  proof (cases "target (w_rel w ! unat b)")
    case True
    have "\<forall>n \<in> set (items_of (w_rel ?w ! unat b)). nv_kind nv n"
      using iw t [OF True] nth_mem by (fastforce simp: vac_world_def others_ok_def vac_ok_def)
    from vacuum_page_run [OF b True t [OF True] this] show ?thesis using True t by (simp add: mark_page_def)
  qed (use vacuum_page_skip [OF b pinv] in simp)
qed

text \<open>What has become of the nodes of \<open>r0\<close> when the pages before \<open>c\<close> are done.\<close>

definition vacuumed :: "(heap_pointer \<Rightarrow> bool) \<Rightarrow> 'n relation \<Rightarrow> nat \<Rightarrow> 'n relation \<Rightarrow> bool" where
  "vacuumed dead r0 c r \<longleftrightarrow>
     rel_keeps core r0 r \<and>
     (\<forall>b < length r0. \<forall>i < length (items_of (r0 ! b)).
        heap (items_of (r ! b) ! i) =
          (if b < c \<and> target (r0 ! b) \<and> hit dead (heap (items_of (r0 ! b) ! i)) then empty_slot
           else heap (items_of (r0 ! b) ! i)))"

lemma vacuumed_start: "vacuumed dead r0 0 r0"
  by (simp add: vacuumed_def)

lemma vacuumed_keeps:
  assumes v: "vacuumed dead r0 c r" and k: "rel_keeps (\<lambda>n. (heap n, core n)) r r'"
  shows "vacuumed dead r0 c r'"
proof -
  have "rel_keeps core r r'" using k by (rule rel_keeps_weaken) simp
  then have "rel_keeps core r0 r'" using v rel_keeps_trans unfolding vacuumed_def by blast
  moreover have "heap (items_of (r' ! b) ! i) = heap (items_of (r ! b) ! i)"
    if b: "b < length r0" "i < length (items_of (r0 ! b))" for b i
  proof -
    have "page_keeps core (r0 ! b) (r ! b)" "b < length r" using v b(1) by (auto simp: vacuumed_def rel_keeps_def)
    then have "i < length (items_of (r ! b))" using page_keeps_items b(2) by blast
    moreover have "page_keeps (\<lambda>n. (heap n, core n)) (r ! b) (r' ! b)" using k \<open>b < length r\<close> by (simp add: rel_keeps_def)
    ultimately show ?thesis using page_keeps_items [of "\<lambda>n. (heap n, core n)"] by blast
  qed
  ultimately show ?thesis using v unfolding vacuumed_def by simp
qed

lemma page_keeps_target: "page_keeps core p p' \<Longrightarrow> p \<noteq> NewPage \<Longrightarrow> target p' = target p"
  by (auto simp: page_keeps_def target_def split: page.splits)

lemma vacuumed_step:
  assumes v: "vacuumed dead r0 c r" and c: "c < length r0"
  shows "target (r ! c) \<Longrightarrow> vacuumed dead r0 (Suc c) (r[c := mark_page dead (r ! c)])"
    and "\<not> target (r ! c) \<Longrightarrow> vacuumed dead r0 (Suc c) r"
proof -
  have len: "c < length r" and pk: "page_keeps core (r0 ! c) (r ! c)" using v c by (auto simp: vacuumed_def rel_keeps_def)
  have t: "target (r ! c) = target (r0 ! c)" if "i < length (items_of (r0 ! c))" for i
    using page_keeps_target [OF pk] that by (auto simp: items_of_def split: page.splits)
  show "vacuumed dead r0 (Suc c) r" if "\<not> target (r ! c)"
    using v t that unfolding vacuumed_def by (auto simp: less_Suc_eq)
  show "vacuumed dead r0 (Suc c) (r[c := mark_page dead (r ! c)])" if tg: "target (r ! c)"
    unfolding vacuumed_def
  proof (intro conjI allI impI)
    have "rel_keeps core r (r[c := mark_page dead (r ! c)])"
      using len by (simp add: rel_keeps_def nth_list_update page_keeps_mark)
    then show "rel_keeps core r0 (r[c := mark_page dead (r ! c)])" using v rel_keeps_trans unfolding vacuumed_def by blast
    fix b i assume b: "b < length r0" and i: "i < length (items_of (r0 ! b))"
    have h: "heap (items_of (r ! b) ! i) = (if b < c \<and> target (r0 ! b) \<and> hit dead (heap (items_of (r0 ! b) ! i)) then empty_slot
           else heap (items_of (r0 ! b) ! i))" using v b i unfolding vacuumed_def by blast
    show "heap (items_of (r[c := mark_page dead (r ! c)] ! b) ! i) =
        (if b < Suc c \<and> target (r0 ! b) \<and> hit dead (heap (items_of (r0 ! b) ! i)) then empty_slot
         else heap (items_of (r0 ! b) ! i))"
    proof (cases "b = c")
      case True
      then have "i < length (items_of (r ! c))" using page_keeps_items [OF pk] i by blast
      then show ?thesis using True h t i tg len by (simp add: items_mark_page empty_slot_def)
    qed (use h in simp)
  qed
qed

lemma bulk_delete_facts:
  assumes w: "vac_world k w" and n: "n \<le> length (w_rel w)" "length (w_rel w) < 2 ^ 32"
  shows "\<exists>st' w'. bulk_delete_for_storage nv dead n st w = Inr (st', w') \<and> vac_world k w' \<and> vacuumed dead (w_rel w) n (w_rel w')"
  using n(1)
proof (induction n)
  case 0
  then show ?case using w vacuumed_start by (simp add: bulk_delete_for_storage_def)
next
  case (Suc n)
  then obtain st1 w1 where 1: "bulk_delete_for_storage nv dead n st w = Inr (st1, w1)" "vac_world k w1"
    "vacuumed dead (w_rel w) n (w_rel w1)" by auto
  have b: "unat (of_nat n :: block_number) = n" using Suc.prems n(2) by (simp add: unat_of_nat)
  have len: "n < length (w_rel w1)" using 1(3) Suc.prems by (simp add: vacuumed_def rel_keeps_def)
  note f = vacuum_page_facts [OF 1(2), of "of_nat n" dead st1, unfolded b, OF len]
  have run: "bulk_delete_for_storage nv dead (Suc n) st w = vacuum_page nv dead (of_nat n) (st1, w1)"
    using 1(1) by (cases "vacuum_page nv dead (of_nat n) (st1, w1)") (simp_all add: bulk_delete_for_storage_def rfold_append)
  show ?case
  proof (cases "target (w_rel w1 ! n)")
    case True
    let ?i = "interfere w1"
    have iw: "vac_world k ?i" using 1(2) others_ok_interfere by (simp add: vac_world_def)
    have "rel_keeps (\<lambda>n. (heap n, core n)) (w_rel w1) (w_rel ?i)"
      using 1(2) by (auto simp: vac_world_def others_ok_def interfere_def split: list.splits)
    then have v: "vacuumed dead (w_rel w) n (w_rel ?i)" using 1(3) by (rule vacuumed_keeps [rotated])
    have t: "n < length (w_rel ?i)" "target (w_rel ?i ! n)" using f True by simp_all
    have "vac_ok k ((w_rel ?i)[n := mark_page dead (w_rel ?i ! n)])"
      by (rule vac_ok_mark) (use iw t in \<open>simp_all add: vac_world_def others_ok_def\<close>)
    then have "vac_world k (?i\<lparr>w_rel := (w_rel ?i)[n := mark_page dead (w_rel ?i ! n)]\<rparr>)"
      using iw by (simp add: vac_world_def others_ok_def)
    then show ?thesis using run f True vacuumed_step(1) [OF v] t Suc.prems by simp
  next
    case False
    then show ?thesis using run f 1 vacuumed_step(2) [OF 1(3)] Suc.prems by simp
  qed
qed

lemma vacuumed_item:
  assumes v: "vacuumed dead r0 (length r0) r" and n: "item_at r0 p = Some n" and t: "target (r0 ! unat (block_number p))"
  shows "\<exists>n'. item_at r p = Some n' \<and> core n' = core n \<and> heap n' = (if hit dead (heap n) then empty_slot else heap n)"
proof -
  let ?b = "unat (block_number p)" and ?i = "unat (offset p) - 1"
  have b: "?b < length r0" "1 \<le> unat (offset p)" "?i < length (items_of (r0 ! ?b))" "n = items_of (r0 ! ?b) ! ?i"
    using n by (auto simp: item_at_def get_item_unchecked_def split: if_splits)
  have keeps: "rel_keeps core r0 r" using v by (simp add: vacuumed_def)
  let ?n' = "items_of (r ! ?b) ! ?i"
  have "?b < length r" using keeps b(1) by (simp add: rel_keeps_def)
  moreover have f: "?i < length (items_of (r ! ?b)) \<and> core ?n' = core n"
    using page_keeps_items [OF _ b(3)] keeps b(1,4) unfolding rel_keeps_def by blast
  ultimately have "item_at r p = Some ?n'" using b(2) by (auto simp: item_at_def get_item_unchecked_def)
  moreover have "heap ?n' = (if hit dead (heap n) then empty_slot else heap n)"
    using v b t unfolding vacuumed_def by simp
  ultimately show ?thesis using f by blast
qed

text \<open>Alone, vacuum marks every page, and counts what it marked and what it left.\<close>

lemma counted_append: "counted dead ys (counted dead xs st) = counted dead (xs @ ys) st"
  by (simp add: counted_def)

lemma bulk_delete_alone:
  assumes w: "vac_world k w" "w_others w = []" and n: "n \<le> length (w_rel w)" "length (w_rel w) < 2 ^ 32"
  shows "bulk_delete_for_storage nv dead n st w =
    Inr (counted dead (concat (List.map items_of (filter target (take n (w_rel w))))) st,
      w\<lparr>w_rel := List.map (mark_page dead) (take n (w_rel w)) @ drop n (w_rel w)\<rparr>)"
  using n(1)
proof (induction n)
  case 0
  then show ?case by (simp add: bulk_delete_for_storage_def counted_def)
next
  case (Suc n)
  let ?r = "\<lambda>n. List.map (mark_page dead) (take n (w_rel w)) @ drop n (w_rel w)"
  let ?st = "\<lambda>n. counted dead (concat (List.map items_of (filter target (take n (w_rel w))))) st"
  have b: "unat (of_nat n :: block_number) = n" using Suc.prems n(2) by (simp add: unat_of_nat)
  have at: "?r n ! n = w_rel w ! n" "n < length (?r n)" using Suc.prems by (simp_all add: nth_append)
  have tk: "take (Suc n) (w_rel w) = take n (w_rel w) @ [w_rel w ! n]" using Suc.prems by (simp add: take_Suc_conv_app_nth)
  have d: "drop n (w_rel w) = w_rel w ! n # drop (Suc n) (w_rel w)" using Suc.prems by (simp add: Cons_nth_drop_Suc)
  have upd: "(?r n)[n := mark_page dead (w_rel w ! n)] = ?r (Suc n)"
    unfolding tk d using Suc.prems by (simp add: list_update_append)
  have IH: "bulk_delete_for_storage nv dead n st w = Inr (?st n, w\<lparr>w_rel := ?r n\<rparr>)" using Suc by simp
  have "vac_world k (w\<lparr>w_rel := ?r n\<rparr>)"
    using bulk_delete_facts [OF w(1) _ n(2), of n dead st] Suc.prems IH by auto
  note f = vacuum_page_facts [OF this, of "of_nat n" dead "?st n", unfolded b]
  have run: "bulk_delete_for_storage nv dead (Suc n) st w = vacuum_page nv dead (of_nat n) (?st n, w\<lparr>w_rel := ?r n\<rparr>)"
    using IH by (cases "vacuum_page nv dead (of_nat n) (?st n, w\<lparr>w_rel := ?r n\<rparr>)")
      (simp_all add: bulk_delete_for_storage_def rfold_append)
  have i: "interfere (w\<lparr>w_rel := ?r n\<rparr>) = w\<lparr>w_rel := ?r n\<rparr>" using w(2) by (simp add: interfere_def)
  show ?case
  proof (cases "target (w_rel w ! n)")
    case True
    then show ?thesis unfolding run using f at upd by (simp add: i counted_append tk)
  next
    case False
    then have "?r (Suc n) = ?r n" unfolding tk by (simp add: mark_page_def) (simp add: d)
    then show ?thesis unfolding run using f at False by (simp add: tk)
  qed
qed

lemma mark_mark [simp]: "mark dead (mark dead n) = mark dead n"
  by (simp add: mark_def hit_def del_heap)

lemma mark_page_twice [simp]: "mark_page dead (mark_page dead p) = mark_page dead p"
proof (cases "target p")
  case True
  then have "target (mark_page dead p)" by simp
  then have "mark_page dead (mark_page dead p) =
      InitPage (tsv_opaque_new (nv_page_type nv)) (List.map (mark dead) (items_of (mark_page dead p)))"
    by (simp add: mark_page_def)
  then show ?thesis using True by (simp add: items_mark_page) (simp add: mark_page_def)
qed (simp add: mark_page_def)

lemma hit_marked [simp]: "\<not> hit dead (heap (mark dead n))"
  by (simp add: hit_def)

lemma item_at_marked:
  "item_at (List.map (mark_page dead) r) p =
    map_option (\<lambda>n. if target (r ! unat (block_number p)) then mark dead n else n) (item_at r p)"
proof (cases "unat (block_number p) < length r")
  case True
  have "items_of (mark_page dead (r ! b)) = (if target (r ! b) then List.map (mark dead) (items_of (r ! b)) else items_of (r ! b))" for b
    by (cases "target (r ! b)") (simp_all add: items_mark_page, simp add: mark_page_def)
  then show ?thesis using True by (auto simp: item_at_def get_item_unchecked_def)
qed (simp add: item_at_def)

lemma adj_at_marked: "adj_at iter (List.map (mark_page dead) r) p = adj_at iter r p"
  by (cases "item_at r p") (simp_all add: adj_at_def item_at_marked)

lemma marked_removes_none:
  "filter (\<lambda>n. hit dead (heap n)) (concat (List.map items_of (filter target (List.map (mark_page dead) r)))) = []"
proof -
  have "filter (\<lambda>n. hit dead (heap n)) (items_of (mark_page dead p)) = []" if "target p" for p
    by (auto simp: items_mark_page [OF that] filter_empty_conv simp del: mark_frame(5))
  then show ?thesis by (induction r) simp_all
qed

end

section \<open>The nodes of the program\<close>

interpretation plain_vac: vacuum_node p_neighbors plain_iter_neighbors plain_set_neighbors p_heap p_vector
  plain_is_deleted plain_delete plain_vacuum
  by unfold_locales (simp_all add: plain_vacuum_def plain_delete_def)

interpretation sbq_vac: vacuum_node sbq_slots sbq_iter_neighbors sbq_set_neighbors sbq_heap_item_pointer
  "\<lambda>n. (sbq_bq_vector n, sbq_labels n)" sbq_is_deleted sbq_delete "sbq_vacuum has_labels" for has_labels
proof
  show "sbq_heap_item_pointer (sbq_delete n) = ItemPointer InvalidBlockNumber InvalidOffsetNumber" for n by (cases n) simp_all
  show "nv_kind (sbq_vacuum has_labels) (sbq_delete n) = nv_kind (sbq_vacuum has_labels) n" for n
    by (cases n) (simp_all add: sbq_vacuum_def)
qed (simp_all add: sbq_vacuum_def)

end
