(* ===== verification/Vacuum_Properties.thy ===== *)
theory Vacuum_Properties
  imports Vacuum Scan_Properties
begin

text \<open>What vacuum does to an index, alone and among other backends, and what a scan sees after it.\<close>

section \<open>Vacuum among other backends\<close>

lemma sbq_target: "sbq_vac.target has_labels p \<longleftrightarrow> (\<exists>ns. p = InitPage (tsv_opaque_new SbqNode) ns)"
  unfolding sbq_vac.target_def by (simp add: sbq_vacuum_def)

lemma sbq_vac_ok: "sbq_vac.vac_ok has_labels k = (\<lambda>r. rel_inv r \<and> nodes_ok sbq_slots k r \<and>
    (\<forall>p \<in> set r. \<forall>ns. p = InitPage (tsv_opaque_new SbqNode) ns \<longrightarrow> (\<forall>n \<in> set ns. sbq_has_labels n = has_labels)))"
proof
  fix r
  have "(sbq_vac.target has_labels p \<longrightarrow> (\<forall>n \<in> set (items_of p). nv_kind (sbq_vacuum has_labels) n)) \<longleftrightarrow>
      (\<forall>ns. p = InitPage (tsv_opaque_new SbqNode) ns \<longrightarrow> (\<forall>n \<in> set ns. sbq_has_labels n = has_labels))" for p
    unfolding sbq_target by (auto simp: items_of_def sbq_vacuum_def)
  then show "sbq_vac.vac_ok has_labels k r = (rel_inv r \<and> nodes_ok sbq_slots k r \<and>
    (\<forall>p \<in> set r. \<forall>ns. p = InitPage (tsv_opaque_new SbqNode) ns \<longrightarrow> (\<forall>n \<in> set ns. sbq_has_labels n = has_labels)))"
    by (simp add: sbq_vac.vac_ok_def)
qed

lemma plain_target: "plain_vac.target p \<longleftrightarrow> (\<exists>ns. p = InitPage (tsv_opaque_new Node) ns)"
  unfolding plain_vac.target_def by (simp add: plain_vacuum_def)

text \<open>
  C10. Vacuum returns and marks every node that was in the index when it began and whose row is dead;
  every other node keeps its row, and all keep their vectors and labels. Other backends may insert
  nodes and change adjacencies meanwhile.
\<close>

theorem vacuum_marks_dead:
  assumes "others_ok
      (\<lambda>r. rel_inv r \<and> nodes_ok sbq_slots k r \<and>
        (\<forall>p \<in> set r. \<forall>ns. p = InitPage (tsv_opaque_new SbqNode) ns \<longrightarrow> (\<forall>n \<in> set ns. sbq_has_labels n = has_labels)))
      (rel_keeps (\<lambda>n. (sbq_heap_item_pointer n, sbq_bq_vector n, sbq_labels n))) w"
  shows "\<exists>st w'. ambulkdelete (sbq_vacuum has_labels) stats dead w = Inr (st, w') \<and>
    (\<forall>p n. item_at (w_rel w) p = Some n \<longrightarrow> readable_type (w_rel w ! unat (block_number p)) = Inr SbqNode \<longrightarrow>
      (\<exists>n'. item_at (w_rel w') p = Some n' \<and> sbq_bq_vector n' = sbq_bq_vector n \<and> sbq_labels n' = sbq_labels n \<and>
        sbq_heap_item_pointer n' =
          (if \<not> sbq_is_deleted n \<and> dead (sbq_heap_item_pointer n) then ItemPointer InvalidBlockNumber InvalidOffsetNumber
           else sbq_heap_item_pointer n)))"
proof -
  let ?nv = "sbq_vacuum has_labels"
  have w: "sbq_vac.vac_world has_labels k w"
    using assms unfolding sbq_vac.vac_world_def sbq_vac_ok .
  then have inv: "rel_inv (w_rel w)" by (simp add: sbq_vac.vac_world_def others_ok_def sbq_vac.vac_ok_def)
  then have len: "length (w_rel w) < 2 ^ 32" by (simp add: rel_inv_def)
  let ?st = "case stats of None \<Rightarrow> \<lparr>num_pages = 0, num_index_tuples = 0, tuples_removed = 0\<rparr> | Some s \<Rightarrow> s"
  obtain st w' where run: "bulk_delete_for_storage ?nv dead (length (w_rel w)) ?st w = Inr (st, w')"
    and v: "sbq_vac.vacuumed has_labels dead (w_rel w) (length (w_rel w)) (w_rel w')"
    using sbq_vac.bulk_delete_facts [OF w order_refl len] by blast
  show ?thesis
  proof (intro exI [of _ st] exI [of _ w'] conjI, goal_cases)
    case 1
    show "ambulkdelete ?nv stats dead w = Inr (st, w')" using run by (simp add: ambulkdelete_def Let_def)
  next
    case 2
    show ?case
    proof (intro allI impI)
      fix p n assume n: "item_at (w_rel w) p = Some n" and t: "readable_type (w_rel w ! unat (block_number p)) = Inr SbqNode"
      have "unat (block_number p) < length (w_rel w)" using n by (auto simp: item_at_def split: if_splits)
      then have "page_inv (w_rel w ! unat (block_number p))" using inv by (rule rel_inv_nth [rotated])
      then have "sbq_vac.target has_labels (w_rel w ! unat (block_number p))"
        using t by (auto simp: sbq_target readable_type_def read_from_page_def page_inv_def split: page.splits)
      from sbq_vac.vacuumed_item [OF v n this]
      show "\<exists>n'. item_at (w_rel w') p = Some n' \<and> sbq_bq_vector n' = sbq_bq_vector n \<and> sbq_labels n' = sbq_labels n \<and>
          sbq_heap_item_pointer n' =
            (if \<not> sbq_is_deleted n \<and> dead (sbq_heap_item_pointer n) then ItemPointer InvalidBlockNumber InvalidOffsetNumber
             else sbq_heap_item_pointer n)"
        by (simp only: sbq_vac.hit_def sbq_is_deleted_def empty_slot_def prod.inject conj_assoc)
    qed
  qed
qed

theorem vacuum_marks_dead_witness:
  "\<exists>st w' n'. ambulkdelete (sbq_vacuum True) None (\<lambda>_. True) sample_sbq_world = Inr (st, w') \<and>
     item_at (w_rel w') ip2 = Some n' \<and> sbq_is_deleted n'"
proof -
  let ?n = "sample_sbq_node 1 2 [ip1, empty_slot]"
  have w: "others_ok
      (\<lambda>r. rel_inv r \<and> nodes_ok sbq_slots 2 r \<and>
        (\<forall>p \<in> set r. \<forall>ns. p = InitPage (tsv_opaque_new SbqNode) ns \<longrightarrow> (\<forall>n \<in> set ns. sbq_has_labels n = True)))
      (rel_keeps (\<lambda>n. (sbq_heap_item_pointer n, sbq_bq_vector n, sbq_labels n))) sample_sbq_world"
    by (auto simp: others_ok_def sample_sbq_world_def rel_inv_def page_inv_def MaxOffsetNumber_def nodes_ok_def items_of_def
        sample_sbq_node_def exI [of _ SbqNode])
  have i: "item_at (w_rel sample_sbq_world) ip2 = Some ?n" "readable_type (w_rel sample_sbq_world ! unat (block_number ip2)) = Inr SbqNode"
    by (simp_all add: item_at_def sample_sbq_world_def get_item_unchecked_def items_of_def readable_type_def read_from_page_def)
  have "\<not> sbq_is_deleted ?n" by (simp add: sbq_is_deleted_def sample_sbq_node_def InvalidOffsetNumber_def)
  then show ?thesis
    using vacuum_marks_dead [OF w, of None "\<lambda>_. True"] i
    by (fastforce simp: sbq_is_deleted_def [of "_ :: sbq_node"])
qed

section \<open>Vacuum alone\<close>

lemma plain_vac_world:
  assumes "plain_world s w" "w_others w = []"
  shows "plain_vac.vac_world (ps_num_neighbors s) w" "length (w_rel w) < 2 ^ 32"
proof -
  have "nv_kind plain_vacuum n" for n by (simp add: plain_vacuum_def)
  then show "plain_vac.vac_world (ps_num_neighbors s) w" "length (w_rel w) < 2 ^ 32"
    using assms by (simp_all add: plain_vac.vac_world_def node_world_def others_ok_def plain_vac.vac_ok_def rel_inv_def)
qed

lemma plain_target_type: "page_inv p \<Longrightarrow> plain_vac.target p \<longleftrightarrow> read_from_page p = Inr Node"
  by (auto simp: plain_target page_inv_def read_from_page_def split: page.splits)

lemma plain_bulk_delete:
  fixes stats :: "bulk_delete_result option"
  assumes w: "plain_world s w" "w_others w = []"
  defines "ns \<equiv> concat (map items_of (filter (\<lambda>p. read_from_page p = Inr Node) (w_rel w)))"
    and "st0 \<equiv> (case stats of None \<Rightarrow> \<lparr>num_pages = 0, num_index_tuples = 0, tuples_removed = 0\<rparr> | Some s \<Rightarrow> s)"
  shows "ambulkdelete plain_vacuum stats dead w =
    Inr (plain_vac.counted dead ns st0, w\<lparr>w_rel := map (plain_vac.mark_page dead) (w_rel w)\<rparr>)"
proof -
  have "rel_inv (w_rel w)" using w(1) by (simp add: node_world_def others_ok_def)
  then have "filter plain_vac.target (w_rel w) = filter (\<lambda>p. read_from_page p = Inr Node) (w_rel w)"
    by (intro filter_cong) (simp_all add: plain_target_type rel_inv_def)
  then show ?thesis
    using plain_vac.bulk_delete_alone [OF plain_vac_world(1) [OF w] w(2) order_refl plain_vac_world(2) [OF w], of dead st0]
    by (simp add: ambulkdelete_def Let_def ns_def st0_def)
qed

lemma plain_world_marked:
  assumes w: "plain_world s w" "w_others w = []"
  shows "plain_world s (w\<lparr>w_rel := map (plain_vac.mark_page dead) (w_rel w)\<rparr>)"
proof -
  let ?w = "w\<lparr>w_rel := map (plain_vac.mark_page dead) (w_rel w)\<rparr>"
  have "plain_vac.vac_world (ps_num_neighbors s) ?w"
    using plain_vac.bulk_delete_facts [OF plain_vac_world(1) [OF w] order_refl plain_vac_world(2) [OF w], of dead undefined]
      plain_vac.bulk_delete_alone [OF plain_vac_world(1) [OF w] w(2) order_refl plain_vac_world(2) [OF w], of dead undefined]
    by auto
  then show ?thesis
    using w(2) by (simp add: plain_vac.vac_world_def node_world_def others_ok_def plain_vac.vac_ok_def)
qed

text \<open>
  C31. With no other backend at work, vacuum of a plain index returns, counts the nodes it marked and the
  live ones it left on top of the counts it was given, and changes no adjacency; a second pass with
  the same dead rows changes nothing and removes nothing.
\<close>

theorem vacuum_alone:
  assumes "plain_world s w" "w_others w = []"
  shows "\<exists>st w'. ambulkdelete plain_vacuum stats dead w = Inr (st, w') \<and> plain_world s w' \<and>
    (let ns = concat (map items_of (filter (\<lambda>p. read_from_page p = Inr Node) (w_rel w)));
         st0 = (case stats of None \<Rightarrow> \<lparr>num_pages = 0, num_index_tuples = 0, tuples_removed = 0\<rparr> | Some s \<Rightarrow> s)
     in tuples_removed st = tuples_removed st0 + length (filter (\<lambda>n. \<not> plain_is_deleted n \<and> dead (p_heap n)) ns) \<and>
        num_index_tuples st = num_index_tuples st0 + length (filter (\<lambda>n. \<not> plain_is_deleted n \<and> \<not> dead (p_heap n)) ns)) \<and>
    (\<forall>p. adj_at plain_iter_neighbors (w_rel w') p = adj_at plain_iter_neighbors (w_rel w) p) \<and>
    (\<exists>st2. ambulkdelete plain_vacuum (Some st) dead w' = Inr (st2, w') \<and> tuples_removed st2 = tuples_removed st)"
proof -
  let ?w = "w\<lparr>w_rel := map (plain_vac.mark_page dead) (w_rel w)\<rparr>"
  note run = plain_bulk_delete [OF assms, of stats dead]
  have w': "plain_world s ?w" "w_others ?w = []" using plain_world_marked [OF assms] assms(2) by simp_all
  have "rel_inv (w_rel ?w)" using w'(1) by (simp add: node_world_def others_ok_def)
  then have "filter plain_vac.target (w_rel ?w) = filter (\<lambda>p. read_from_page p = Inr Node) (w_rel ?w)"
    by (intro filter_cong) (simp_all only: plain_target_type rel_inv_def refl)
  then have "filter (\<lambda>n. plain_vac.hit dead (p_heap n)) (concat (map items_of (filter (\<lambda>p. read_from_page p = Inr Node) (w_rel ?w)))) = []"
    using plain_vac.marked_removes_none [of dead "w_rel w"] by simp
  then have again: "\<exists>st2. ambulkdelete plain_vacuum (Some st) dead ?w = Inr (st2, ?w) \<and> tuples_removed st2 = tuples_removed st" for st
    unfolding plain_bulk_delete [OF w'] by (simp add: plain_vac.counted_def o_def)
  let ?st = "plain_vac.counted dead (concat (map items_of (filter (\<lambda>p. read_from_page p = Inr Node) (w_rel w))))
      (case stats of None \<Rightarrow> \<lparr>num_pages = 0, num_index_tuples = 0, tuples_removed = 0\<rparr> | Some s \<Rightarrow> s)"
  have counts: "tuples_removed (plain_vac.counted dead ns st0) = tuples_removed st0 + length (filter (\<lambda>n. \<not> plain_is_deleted n \<and> dead (p_heap n)) ns)"
    "num_index_tuples (plain_vac.counted dead ns st0) = num_index_tuples st0 + length (filter (\<lambda>n. \<not> plain_is_deleted n \<and> \<not> dead (p_heap n)) ns)"
    for ns and st0 :: bulk_delete_result
    by (simp_all add: plain_vac.counted_def plain_vac.hit_def plain_is_deleted_def cong: conj_cong)
  have adj: "\<forall>p. adj_at plain_iter_neighbors (w_rel ?w) p = adj_at plain_iter_neighbors (w_rel w) p"
    by (simp add: plain_vac.adj_at_marked)
  show ?thesis
    unfolding Let_def
    by (rule exI [of _ ?st], rule exI [of _ ?w]) (intro conjI run w'(1) counts adj again)
qed

theorem vacuum_alone_witness:
  "\<exists>st w'. ambulkdelete plain_vacuum None (\<lambda>hp. hp = ItemPointer 7 2) sample_plain_world = Inr (st, w') \<and>
     tuples_removed st = 1 \<and> num_index_tuples st = 2"
proof -
  have w: "w_others sample_plain_world = []" by (simp add: sample_plain_world_def)
  have "concat (map items_of (filter (\<lambda>p. read_from_page p = Inr Node) (w_rel sample_plain_world))) =
      [sample_plain_node 0 (ItemPointer 7 1) [ip2, empty_slot],
       sample_plain_node 0x3F800000 (ItemPointer 7 2) [ip1, ip3],
       sample_plain_node 0x40000000 (ItemPointer 7 3) [ip2, empty_slot]]"
    by (simp add: sample_plain_world_def sample_plain_rel_def read_from_page_def items_of_def)
  from vacuum_alone [OF sample_plain_ok w, of None "\<lambda>hp. hp = ItemPointer 7 2", unfolded Let_def this]
  show ?thesis by (auto simp: sample_plain_node_def plain_is_deleted_def InvalidOffsetNumber_def)
qed

section \<open>Scanning after vacuum\<close>

text \<open>
  C11. After a vacuum of a plain index whose nodes lie on node pages, a scan returns no row that vacuum
  was told is dead; when it ends it has returned every other row that could be reached before.
\<close>

theorem scan_after_vacuum:
  assumes "plain_world s w" "w_others w = []"
    and "\<forall>pg \<in> set (w_rel w). items_of pg \<noteq> [] \<longrightarrow> read_from_page pg = Inr Node"
    and "ambulkdelete plain_vacuum stats dead w = Inr (results, v)"
    and "m_start_nodes m = Some st" "\<forall>ip \<in> set (get_for_node st (lv_labels query)). block_number ip \<noteq> InvalidBlockNumber"
    and "tsv_response_iterator_new (plain_storage_ops s) lru_list m resort_size query n v = Inr (it, w1)"
    and "pull (it_next (plain_storage_ops s) lru_list) k it w1 = Inr (rows, it', w')"
  shows "(\<forall>(hp, p) \<in> set rows. \<not> dead hp) \<and>
    (length rows < k \<longrightarrow>
      (\<forall>p \<in> reachable (adj_at plain_iter_neighbors (w_rel w)) (\<lambda>p. item_at (w_rel w) p \<noteq> None) (set (get_for_node st (lv_labels query))).
        \<forall>x. item_at (w_rel w) p = Some x \<longrightarrow> \<not> plain_is_deleted x \<longrightarrow> \<not> dead (p_heap x) \<longrightarrow> (p_heap x, p) \<in> set rows))"
proof -
  let ?r = "w_rel w" and ?r' = "map (plain_vac.mark_page dead) (w_rel w)"
  have v: "v = w\<lparr>w_rel := ?r'\<rparr>" using plain_bulk_delete [OF assms(1,2), of stats dead] assms(4) by simp
  have item: "item_at ?r' p = map_option (plain_vac.mark dead) (item_at ?r p)" for p
  proof (cases "item_at ?r p")
    case (Some n)
    then have b: "unat (block_number p) < length ?r" "items_of (?r ! unat (block_number p)) \<noteq> []"
      by (auto simp: item_at_def get_item_unchecked_def split: if_splits)
    have "rel_inv ?r" using assms(1) by (simp add: node_world_def others_ok_def)
    then have "plain_vac.target (?r ! unat (block_number p))"
      using assms(3) b by (simp add: plain_target_type rel_inv_nth)
    then show ?thesis using Some by (simp add: plain_vac.item_at_marked)
  qed (simp add: plain_vac.item_at_marked)
  have same: "adj_at plain_iter_neighbors ?r' = adj_at plain_iter_neighbors ?r" "(\<lambda>p. item_at ?r' p \<noteq> None) = (\<lambda>p. item_at ?r p \<noteq> None)"
    by (auto simp: plain_vac.adj_at_marked item)
  have "plain_world s v" using plain_world_marked [OF assms(1,2)] v by simp
  have vr: "w_rel v = ?r'" using v by simp
  note f = plain_scan_rows [OF \<open>plain_world s v\<close> assms(5-8), unfolded Let_def vr same]
  note sound = f [THEN conjunct2, THEN conjunct2, THEN conjunct1] and all = f [THEN conjunct2, THEN conjunct2, THEN conjunct2]
  have "\<not> dead hp" if row: "(hp, p) \<in> set rows" for hp p
  proof -
    obtain x where x: "item_at ?r' p = Some x" "hp = p_heap x" "\<not> plain_is_deleted x" using bspec [OF sound row] by auto
    then obtain n where "x = plain_vac.mark dead n" using item by auto
    then have "\<not> plain_vac.hit dead hp" using x(2) plain_vac.hit_marked by simp
    then show ?thesis using x(2,3) by (simp add: plain_vac.hit_def plain_is_deleted_def)
  qed
  moreover have "(p_heap x, p) \<in> set rows"
    if "length rows < k" "p \<in> reachable (adj_at plain_iter_neighbors ?r) (\<lambda>p. item_at ?r p \<noteq> None) (set (get_for_node st (lv_labels query)))"
      "item_at ?r p = Some x" "\<not> plain_is_deleted x" "\<not> dead (p_heap x)" for p x
  proof -
    have "plain_vac.mark dead x = x" using that(5) by (simp add: plain_vac.mark_def plain_vac.hit_def)
    then have "item_at ?r' p = Some x" using item that(3) by simp
    then show ?thesis using all [rule_format, OF that(1,2)] that(4) by simp
  qed
  ultimately show ?thesis by blast
qed

text \<open>The entry point of the pair is dead: the scan visits it and skips it.\<close>

definition pair_lsn_dead :: "plain_private lsn" where
  "pair_lsn_dead = pair_lsn\<lparr>lsn_distance := dwt_with_query 0x3F800000 ip1,
     lsn_private_data := \<lparr>pp_heap_pointer = empty_slot, pp_neighbors = []\<rparr>\<rparr>"

lemma pair_vacuum:
  "\<exists>results v. ambulkdelete plain_vacuum None (\<lambda>hp. hp = ItemPointer 7 1) pair_world = Inr (results, v) \<and> w_others v = [] \<and>
     w_rel v = [NewPage, InitPage (tsv_opaque_new Node)
       [sample_plain_node 0 empty_slot no_slots, sample_plain_node 0x3F800000 (ItemPointer 7 2) no_slots]]"
proof -
  have w: "w_others pair_world = []" by (simp add: pair_world_def)
  have t: "\<not> plain_vac.target NewPage" "plain_vac.target (InitPage (tsv_opaque_new Node) ns)" for ns
    by (simp_all add: plain_target)
  have m: "map (plain_vac.mark_page (\<lambda>hp. hp = ItemPointer 7 1)) (w_rel pair_world) =
    [NewPage, InitPage (tsv_opaque_new Node)
       [sample_plain_node 0 empty_slot no_slots, sample_plain_node 0x3F800000 (ItemPointer 7 2) no_slots]]"
    by (simp add: pair_world_def pair_rel_def plain_vac.mark_page_def t items_of_def plain_vac.mark_def plain_vac.hit_def
        sample_plain_node_def plain_delete_def empty_slot_def InvalidOffsetNumber_def)
      (simp add: plain_vacuum_def)
  show ?thesis unfolding plain_bulk_delete [OF pair_world_ok w] using m w by simp
qed

lemma pair_scan_dead:
  assumes rel: "w_rel v = [NewPage, InitPage (tsv_opaque_new Node)
       [sample_plain_node 0 empty_slot no_slots, sample_plain_node 0x3F800000 (ItemPointer 7 2) no_slots]]"
  shows "\<exists>it w1 it' w'. tsv_response_iterator_new (plain_storage_ops sample_plain) lru_list pair_meta 0 pair_query 100 v = Inr (it, w1) \<and>
     pull (it_next (plain_storage_ops sample_plain) lru_list) 5 it w1 = Inr ([], it', w')"
proof -
  let ?S = "plain_storage_ops sample_plain"
  let ?st = "\<lambda>cs vs. \<lparr>candidates = cs, visited = vs, inserted = {ip1}, sdm = Some pair_query, tie_break_item_pointer = None\<rparr>"
  have read: "node_read ip1 u = Inr (sample_plain_node 0 empty_slot no_slots, count record_read u)" if "w_rel u = w_rel v" for u
    using rel that by (simp add: node_read_Inr item_at_def get_item_unchecked_def items_of_def)
  have lsn: "plain_lsn sample_plain lru_list l ip1 DiskStore u = Inr (pair_lsn_dead, DiskStore, count record_full_distance_comparison (count record_read u))"
    if "sdm l = Some pair_query" "tie_break_item_pointer l = None" "w_rel u = w_rel v" for l u
    using that by (simp add: plain_lsn_def read Let_def plain_calculate_distance_def plain_private_new_def
      create_distance_with_tie_break_def pair_query_def to_index_slice_def pair_lsn_dead_def pair_lsn_def)
      (simp add: sample_plain_node_def sample_l2)
  have new: "\<exists>w. lsr_new ?S lru_list [ip1] pair_query None DiskStore v = Inr (?st [pair_lsn_dead] [], DiskStore, w)"
    by (simp add: lsr_new_def plain_storage_ops_def plain_create_lsn_for_start_node_def prepare_insert_def lsr_empty_def
      lsn insert_neighbor_def)
  have m: "m_start_nodes pair_meta = Some (start_nodes_new ip1)" "lv_labels pair_query = None"
    "get_for_node (start_nodes_new ip1) None = [ip1]" "s_query_dm ?S = Inr"
    by (simp_all add: pair_meta_def pair_query_def get_for_node_def start_nodes_new_def plain_storage_ops_def)
  have it: "\<exists>w. tsv_response_iterator_new ?S lru_list pair_meta 0 pair_query 100 v = Inr (sample_it (?st [pair_lsn_dead] []) 0, w)"
    using new by (auto simp: tsv_response_iterator_new_def greedy_search_streaming_init_def m Let_def)
  have loop: "\<exists>w'. greedy_search_loop ?S lru_list n True (?st [pair_lsn_dead] []) None DiskStore w =
      Some (Inr (?st [] [pair_lsn_dead], None, DiskStore, w'))" for n w
    by (subst greedy_search_loop.simps) (simp add: visit_closest_def Let_def partition_point_def insert_at_def
        record_visited_def get_lsn_by_idx_def plain_storage_ops_def plain_visit_lsn_def pair_lsn_dead_def)
  have ret: "s_return_lsn ?S pair_lsn_dead w = Inr (empty_slot, w)" for w
    by (simp add: plain_storage_ops_def plain_return_lsn_def pair_lsn_dead_def)
  have nxt: "\<exists>it' w'. it_next ?S lru_list (sample_it (?st [pair_lsn_dead] []) 0) w = Inr (None, it', w')" for w
  proof -
    obtain w1 where "greedy_search_loop ?S lru_list 100 True (?st [pair_lsn_dead] []) None DiskStore w =
      Some (Inr (?st [] [pair_lsn_dead], None, DiskStore, w1))" using loop by blast
    moreover have "next_loop ?S lru_list 100 True (?st [] []) w1 = Some (Inr (None, ?st [] [], w1))"
      by (simp add: next_loop.simps greedy_search_iterate_def returned_def lsr_consume_def)
    ultimately have "next_loop ?S lru_list 100 True (?st [pair_lsn_dead] []) w = Some (Inr (None, ?st [] [], w1))"
      by (subst next_loop.simps) (simp add: greedy_search_iterate_def returned_def lsr_consume_def ret empty_slot_def)
    then show ?thesis by (simp add: it_next_def returned_def)
  qed
  obtain w where w: "tsv_response_iterator_new ?S lru_list pair_meta 0 pair_query 100 v = Inr (sample_it (?st [pair_lsn_dead] []) 0, w)"
    using it by blast
  obtain it' w' where n: "it_next ?S lru_list (sample_it (?st [pair_lsn_dead] []) 0) w = Inr (None, it', w')" using nxt by blast
  have five: "5 = Suc 4" by simp
  have "pull (it_next ?S lru_list) 5 (sample_it (?st [pair_lsn_dead] []) 0) w = Inr ([], it', w')" unfolding five pull.simps(2) n by simp
  then show ?thesis using w by blast
qed

theorem scan_after_vacuum_witness:
  "\<exists>results v it w1 it' w' rows. ambulkdelete plain_vacuum None (\<lambda>hp. hp = ItemPointer 7 1) pair_world = Inr (results, v) \<and>
     tsv_response_iterator_new (plain_storage_ops sample_plain) lru_list pair_meta 0 pair_query 100 v = Inr (it, w1) \<and>
     pull (it_next (plain_storage_ops sample_plain) lru_list) 5 it w1 = Inr (rows, it', w') \<and>
     (\<forall>(hp, p) \<in> set rows. hp \<noteq> ItemPointer 7 1)"
proof -
  obtain results v where v: "ambulkdelete plain_vacuum None (\<lambda>hp. hp = ItemPointer 7 1) pair_world = Inr (results, v)"
    "w_rel v = [NewPage, InitPage (tsv_opaque_new Node)
       [sample_plain_node 0 empty_slot no_slots, sample_plain_node 0x3F800000 (ItemPointer 7 2) no_slots]]"
    using pair_vacuum by blast
  obtain it w1 it' w' where it: "tsv_response_iterator_new (plain_storage_ops sample_plain) lru_list pair_meta 0 pair_query 100 v = Inr (it, w1)"
    "pull (it_next (plain_storage_ops sample_plain) lru_list) 5 it w1 = Inr ([], it', w')"
    using pair_scan_dead [OF v(2)] by blast
  have p: "w_others pair_world = []" "\<forall>pg \<in> set (w_rel pair_world). items_of pg \<noteq> [] \<longrightarrow> read_from_page pg = Inr Node"
    "m_start_nodes pair_meta = Some (start_nodes_new ip1)"
    "\<forall>ip \<in> set (get_for_node (start_nodes_new ip1) (lv_labels pair_query)). block_number ip \<noteq> InvalidBlockNumber"
    by (simp_all add: pair_world_def pair_rel_def items_of_def read_from_page_def pair_meta_def pair_query_def get_for_node_def
        start_nodes_new_def InvalidBlockNumber_def)
  from scan_after_vacuum [OF pair_world_ok p(1,2) v(1) p(3,4) it] v(1) it show ?thesis by blast
qed

end
