(* ===== verification/Parallel_Build.thy ===== *)
theory Parallel_Build
  imports Ieee_Float
begin

text \<open>
  The coordination of a parallel build, \<open>build.rs\<close> and \<open>build/parallel.rs\<close>: the first worker to claim it
  inserts the seeds of the graph, the others wait until these are published, on a condition variable
  in shared memory; all count their tuples there.

  Every access to an atomic, every broadcast and every call of the condition variable is a step of its
  own; what a worker does between two of them is local. An insertion is abstracted to its count and to
  how many of the worker's nodes are known to have their edges on disk (\<open>w_published\<close>, a ghost): those
  of the others may be in the build cache until it is flushed. When a worker's share of the table ends
  is up to PostgreSQL's parallel scan; PostgreSQL's condition variable is a parameter.
\<close>

section \<open>Settings\<close>

definition flush_rate :: "f64 \<Rightarrow> nat \<Rightarrow> nat" where
  "flush_rate rate total_vectors = max (f64_to_usize (f64_mul (f64_of_nat total_vectors) rate)) 1"

text \<open>The number of workers \<open>ambuild\<close> asks for, with \<open>build_parallel\<close> compiled in.\<close>

definition parallel_workers :: "bool \<Rightarrow> bool \<Rightarrow> int \<Rightarrow> nat \<Rightarrow> nat \<Rightarrow> nat \<Rightarrow> nat" where
  "parallel_workers has_labels is_sbq forced_workers heap_tuples min_vectors ii_ParallelWorkers =
     (if \<not> has_labels \<and> is_sbq then
        if forced_workers \<ge> 0 then nat forced_workers
        else if heap_tuples \<ge> min_vectors then ii_ParallelWorkers else 0
      else 0)"

section \<open>PostgreSQL's condition variable\<close>

text \<open>
  A worker that sleeps enters the wait list, and its call blocks (\<open>None\<close>) while it is on it. A
  broadcast empties the list. Which of the calls block, and what a cancelled sleep leaves, is open.
\<close>

record 'cv condition_variable =
  cv_init :: 'cv
  cv_sleep :: "nat \<Rightarrow> 'cv \<Rightarrow> 'cv option"
  cv_cancel_sleep :: "nat \<Rightarrow> 'cv \<Rightarrow> 'cv"
  cv_broadcast :: "'cv \<Rightarrow> 'cv"
  cv_waits :: "'cv \<Rightarrow> nat \<Rightarrow> bool"

definition cv_ok :: "'cv condition_variable \<Rightarrow> bool" where
  "cv_ok cv \<longleftrightarrow>
     (\<forall>x i. cv_sleep cv i x = None \<longrightarrow> cv_waits cv x i) \<and>
     (\<forall>x i y k. cv_sleep cv i x = Some y \<longrightarrow> cv_waits cv y k \<longrightarrow> k = i \<or> cv_waits cv x k) \<and>
     (\<forall>x i k. cv_waits cv (cv_cancel_sleep cv i x) k \<longrightarrow> cv_waits cv x k) \<and>
     (\<forall>x k. \<not> cv_waits cv (cv_broadcast cv x) k)"

lemma cv_okD:
  assumes "cv_ok cv"
  shows "cv_sleep cv i x = None \<Longrightarrow> cv_waits cv x i"
    and "cv_sleep cv i x = Some y \<Longrightarrow> cv_waits cv y k \<Longrightarrow> k \<noteq> i \<Longrightarrow> cv_waits cv x k"
    and "cv_waits cv (cv_cancel_sleep cv i x) k \<Longrightarrow> cv_waits cv x k"
    and "\<not> cv_waits cv (cv_broadcast cv x) k"
  using assms unfolding cv_ok_def by blast+

section \<open>State\<close>

text \<open>
  A worker first tries to become the initialising one. The others check the two atomics, and sleep.
  A worker that builds inserts; the initialising one counts and signals up to the threshold. At the end
  a worker adds what it has not counted yet and drains its cache.
\<close>

datatype phase =
    Start | Checking | Loaded nat | MustSleep
  | Building | Counting | Signalling | Storing | Broadcasting | Adding | Draining | Finished

record worker =
  w_phase :: phase
  is_initializing_worker :: bool
  local_ntuples :: nat
  w_published :: nat

record 'cv parallel_build_state =
  ntuples :: nat
  start_nodes_initialized :: bool
  initializing_worker_done :: bool
  initialization_cv :: 'cv
  workers :: "nat \<Rightarrow> worker"

definition worker_new :: worker where
  "worker_new = \<lparr>w_phase = Start, is_initializing_worker = False, local_ntuples = 0, w_published = 0\<rparr>"

definition parallel_build_state_new :: "'cv condition_variable \<Rightarrow> 'cv parallel_build_state" where
  "parallel_build_state_new cv =
     \<lparr>ntuples = 0, start_nodes_initialized = False, initializing_worker_done = False, initialization_cv = cv_init cv,
      workers = (\<lambda>_. worker_new)\<rparr>"

definition set_worker :: "nat \<Rightarrow> worker \<Rightarrow> 'cv parallel_build_state \<Rightarrow> 'cv parallel_build_state" where
  "set_worker i w s = s\<lparr>workers := (workers s)(i := w)\<rparr>"

abbreviation goto :: "nat \<Rightarrow> phase \<Rightarrow> 'cv parallel_build_state \<Rightarrow> 'cv parallel_build_state" where
  "goto i p s \<equiv> set_worker i ((workers s i)\<lparr>w_phase := p\<rparr>) s"

section \<open>Claiming and waiting\<close>

definition claim_initialization :: "nat \<Rightarrow> 'cv parallel_build_state \<Rightarrow> 'cv parallel_build_state" where
  "claim_initialization i s =
     (if start_nodes_initialized s then goto i Checking s
      else set_worker i ((workers s i)\<lparr>w_phase := Building, is_initializing_worker := True\<rparr>) (s\<lparr>start_nodes_initialized := True\<rparr>))"

definition load_ntuples :: "nat \<Rightarrow> 'cv parallel_build_state \<Rightarrow> 'cv parallel_build_state" where
  "load_ntuples i s = goto i (Loaded (ntuples s)) s"

definition load_done :: "'cv condition_variable \<Rightarrow> nat \<Rightarrow> nat \<Rightarrow> nat \<Rightarrow> 'cv parallel_build_state \<Rightarrow> 'cv parallel_build_state" where
  "load_done cv initial_start_nodes_count seen i s =
     (if seen \<ge> initial_start_nodes_count \<or> initializing_worker_done s
      then goto i Building (s\<lparr>initialization_cv := cv_cancel_sleep cv i (initialization_cv s)\<rparr>)
      else goto i MustSleep s)"

definition signal_waiting :: "'cv condition_variable \<Rightarrow> 'cv parallel_build_state \<Rightarrow> 'cv parallel_build_state" where
  "signal_waiting cv s = s\<lparr>initialization_cv := cv_broadcast cv (initialization_cv s)\<rparr>"

section \<open>Building\<close>

text \<open>
  \<open>build_callback_parallel_internal\<close> up to the shared counter: insert, flush when due, count locally.
  \<open>is_multiple_of\<close> is divisibility; the flush interval is at least one.
\<close>

definition parallel_insert :: "nat \<Rightarrow> nat \<Rightarrow> nat \<Rightarrow> 'cv parallel_build_state \<Rightarrow> 'cv parallel_build_state" where
  "parallel_insert initial_start_nodes_count flush_interval i s =
     (let w = workers s i;
          completed = local_ntuples w + 1;
          w = (if flush_interval dvd completed \<or> is_initializing_worker w \<and> completed = initial_start_nodes_count
               then w\<lparr>w_published := completed\<rparr> else w)
      in set_worker i (w\<lparr>local_ntuples := completed,
           w_phase := (if is_initializing_worker w \<and> completed \<le> initial_start_nodes_count then Counting else Building)\<rparr>) s)"

definition increment_ntuples :: "nat \<Rightarrow> nat \<Rightarrow> 'cv parallel_build_state \<Rightarrow> 'cv parallel_build_state" where
  "increment_ntuples initial_start_nodes_count i s =
     (let new_count = ntuples s + 1
      in goto i (if new_count \<ge> initial_start_nodes_count then Signalling else Building) (s\<lparr>ntuples := new_count\<rparr>))"

section \<open>Finishing\<close>

text \<open>\<open>finalize_remaining_parallel_nodes\<close>: the initialising worker publishes before it wakes the others.\<close>

definition finish_scan :: "nat \<Rightarrow> 'cv parallel_build_state \<Rightarrow> 'cv parallel_build_state" where
  "finish_scan i s =
     (let w = workers s i
      in if is_initializing_worker w then set_worker i (w\<lparr>w_published := local_ntuples w, w_phase := Storing\<rparr>) s
         else goto i Adding s)"

definition store_done :: "nat \<Rightarrow> 'cv parallel_build_state \<Rightarrow> 'cv parallel_build_state" where
  "store_done i s = goto i Broadcasting (s\<lparr>initializing_worker_done := True\<rparr>)"

definition update_shared_ntuples :: "nat \<Rightarrow> nat \<Rightarrow> 'cv parallel_build_state \<Rightarrow> 'cv parallel_build_state" where
  "update_shared_ntuples initial_start_nodes_count i s =
     (let w = workers s i;
          added = (if is_initializing_worker w then local_ntuples w - initial_start_nodes_count else local_ntuples w)
      in goto i Draining (s\<lparr>ntuples := ntuples s + added\<rparr>))"

text \<open>\<open>finalize_index_build\<close> merges what is left in the cache.\<close>

definition drain_cache :: "nat \<Rightarrow> 'cv parallel_build_state \<Rightarrow> 'cv parallel_build_state" where
  "drain_cache i s = (let w = workers s i in set_worker i (w\<lparr>w_published := local_ntuples w, w_phase := Finished\<rparr>) s)"

section \<open>Steps\<close>

text \<open>\<open>n\<close> workers, the threshold \<open>c\<close> and the flush interval \<open>r\<close>; in a step the worker \<open>i\<close> moves.\<close>

inductive build_step ::
    "'cv condition_variable \<Rightarrow> nat \<Rightarrow> nat \<Rightarrow> nat \<Rightarrow> nat \<Rightarrow> 'cv parallel_build_state \<Rightarrow> 'cv parallel_build_state \<Rightarrow> bool"
  for cv n c r i s where
  claim: "i < n \<Longrightarrow> w_phase (workers s i) = Start \<Longrightarrow> build_step cv n c r i s (claim_initialization i s)"
| load: "i < n \<Longrightarrow> w_phase (workers s i) = Checking \<Longrightarrow> build_step cv n c r i s (load_ntuples i s)"
| decide: "i < n \<Longrightarrow> w_phase (workers s i) = Loaded seen \<Longrightarrow> build_step cv n c r i s (load_done cv c seen i s)"
| sleep: "i < n \<Longrightarrow> w_phase (workers s i) = MustSleep \<Longrightarrow> cv_sleep cv i (initialization_cv s) = Some y \<Longrightarrow>
    build_step cv n c r i s (goto i Checking (s\<lparr>initialization_cv := y\<rparr>))"
| insert: "i < n \<Longrightarrow> w_phase (workers s i) = Building \<Longrightarrow> build_step cv n c r i s (parallel_insert c r i s)"
| count: "i < n \<Longrightarrow> w_phase (workers s i) = Counting \<Longrightarrow> build_step cv n c r i s (increment_ntuples c i s)"
| signal: "i < n \<Longrightarrow> w_phase (workers s i) = Signalling \<Longrightarrow> build_step cv n c r i s (goto i Building (signal_waiting cv s))"
| finish: "i < n \<Longrightarrow> w_phase (workers s i) = Building \<Longrightarrow> build_step cv n c r i s (finish_scan i s)"
| store: "i < n \<Longrightarrow> w_phase (workers s i) = Storing \<Longrightarrow> build_step cv n c r i s (store_done i s)"
| broadcast: "i < n \<Longrightarrow> w_phase (workers s i) = Broadcasting \<Longrightarrow> build_step cv n c r i s (goto i Adding (signal_waiting cv s))"
| add: "i < n \<Longrightarrow> w_phase (workers s i) = Adding \<Longrightarrow> build_step cv n c r i s (update_shared_ntuples c i s)"
| drain: "i < n \<Longrightarrow> w_phase (workers s i) = Draining \<Longrightarrow> build_step cv n c r i s (drain_cache i s)"

inductive build_run :: "'cv condition_variable \<Rightarrow> nat \<Rightarrow> nat \<Rightarrow> nat \<Rightarrow> 'cv parallel_build_state \<Rightarrow> bool" for cv n c r where
  start: "build_run cv n c r (parallel_build_state_new cv)"
| step: "build_run cv n c r s \<Longrightarrow> build_step cv n c r i s s' \<Longrightarrow> build_run cv n c r s'"

section \<open>The effect of a step on the worker that moves\<close>

lemmas action_defs = claim_initialization_def load_ntuples_def load_done_def signal_waiting_def
  parallel_insert_def increment_ntuples_def finish_scan_def store_done_def update_shared_ntuples_def drain_cache_def
  set_worker_def Let_def

definition woken :: "phase \<Rightarrow> bool" where
  "woken p \<longleftrightarrow> p = Adding \<or> p = Draining \<or> p = Finished"

definition waiting :: "phase \<Rightarrow> bool" where
  "waiting p \<longleftrightarrow> (case p of Loaded k \<Rightarrow> True | _ \<Rightarrow> p = Start \<or> p = Checking \<or> p = MustSleep)"

lemma phase_simps [simp]:
  "woken Adding" "woken Draining" "woken Finished" "\<not> woken Start" "\<not> woken Checking" "\<not> woken (Loaded k)" "\<not> woken MustSleep"
  "\<not> woken Building" "\<not> woken Counting" "\<not> woken Signalling" "\<not> woken Storing" "\<not> woken Broadcasting"
  "waiting Start" "waiting Checking" "waiting (Loaded k)" "waiting MustSleep" "\<not> waiting Building"
  "\<not> waiting Counting" "\<not> waiting Signalling" "\<not> waiting Storing" "\<not> waiting Broadcasting" "\<not> waiting Adding"
  "\<not> waiting Draining" "\<not> waiting Finished"
  by (auto simp: woken_def waiting_def)

text \<open>The initialising worker has set the flag; its share of the shared counter, and that of the others.\<close>

definition after_store :: "worker \<Rightarrow> bool" where
  "after_store w \<longleftrightarrow> is_initializing_worker w \<and> (w_phase w = Broadcasting \<or> woken (w_phase w))"

definition contribution :: "nat \<Rightarrow> worker \<Rightarrow> nat" where
  "contribution c w =
     (if w_phase w = Draining \<or> w_phase w = Finished then local_ntuples w
      else if \<not> is_initializing_worker w then 0
      else if w_phase w = Counting then local_ntuples w - 1
      else min (local_ntuples w) c)"

definition worker_ok :: "nat \<Rightarrow> worker \<Rightarrow> bool" where
  "worker_ok c w \<longleftrightarrow>
     (waiting (w_phase w) \<longrightarrow> \<not> is_initializing_worker w \<and> local_ntuples w = 0) \<and>
     (w_phase w = Counting \<or> w_phase w = Signalling \<or> w_phase w = Storing \<or> w_phase w = Broadcasting \<longrightarrow> is_initializing_worker w) \<and>
     (w_phase w = Counting \<longrightarrow> 0 < local_ntuples w \<and> local_ntuples w \<le> c) \<and>
     w_published w \<le> local_ntuples w \<and>
     (is_initializing_worker w \<longrightarrow> c \<le> local_ntuples w \<longrightarrow> c \<le> w_published w) \<and>
     (w_phase w = Storing \<or> after_store w \<longrightarrow> w_published w = local_ntuples w) \<and>
     (w_phase w = Finished \<longrightarrow> w_published w = local_ntuples w)"

lemma step_frame:
  assumes "build_step cv n c r i s s'"
  shows "i < n \<and> workers s' = (workers s)(i := workers s' i) \<and> w_phase (workers s' i) \<noteq> Start \<and>
    (start_nodes_initialized s' \<longleftrightarrow> start_nodes_initialized s \<or> w_phase (workers s i) = Start) \<and>
    (is_initializing_worker (workers s' i) \<longleftrightarrow>
       is_initializing_worker (workers s i) \<or> w_phase (workers s i) = Start \<and> \<not> start_nodes_initialized s)"
  using assms by (cases rule: build_step.cases) (auto simp: action_defs)

lemma step_worker_ok:
  assumes "build_step cv n c r i s s'" "worker_ok c (workers s i)"
  shows "worker_ok c (workers s' i)"
  using assms by (cases rule: build_step.cases) (auto simp: action_defs worker_ok_def after_store_def)

lemma step_contribution:
  assumes "build_step cv n c r i s s'" "worker_ok c (workers s i)"
  shows "ntuples s' + contribution c (workers s i) = ntuples s + contribution c (workers s' i)"
  using assms by (cases rule: build_step.cases) (auto simp: action_defs worker_ok_def contribution_def)

lemma step_done:
  assumes "build_step cv n c r i s s'" "worker_ok c (workers s i)"
  shows "(initializing_worker_done s' \<longleftrightarrow> initializing_worker_done s \<or> w_phase (workers s i) = Storing) \<and>
    (after_store (workers s' i) \<longleftrightarrow> after_store (workers s i) \<or> w_phase (workers s i) = Storing)"
  using assms by (cases rule: build_step.cases) (auto simp: action_defs worker_ok_def after_store_def)

text \<open>Only the initialising worker, or a worker let through, builds.\<close>

lemma step_building:
  assumes "build_step cv n c r i s s'" "worker_ok c (workers s i)"
    and "\<not> is_initializing_worker (workers s' i)" "\<not> waiting (w_phase (workers s' i))"
  shows "\<not> is_initializing_worker (workers s i) \<and> \<not> waiting (w_phase (workers s i)) \<or>
    (\<exists>k. w_phase (workers s i) = Loaded k \<and> (c \<le> k \<or> initializing_worker_done s))"
  using assms by (cases rule: build_step.cases) (auto simp: action_defs worker_ok_def split: if_splits)

lemma step_loaded:
  assumes "build_step cv n c r i s s'" "w_phase (workers s' i) = Loaded k"
  shows "w_phase (workers s i) = Checking \<and> k = ntuples s"
  using assms by (cases rule: build_step.cases) (auto simp: action_defs split: if_splits)

lemma step_published:
  assumes "build_step cv n c r i s s'" "worker_ok c (workers s i)" "is_initializing_worker (workers s i)"
  shows "is_initializing_worker (workers s' i) \<and> w_published (workers s i) \<le> w_published (workers s' i)"
  using assms by (cases rule: build_step.cases) (auto simp: action_defs worker_ok_def)

text \<open>A worker goes to sleep only before the flag is set; the last broadcast empties the wait list.\<close>

lemma step_sleep:
  assumes "build_step cv n c r i s s'" "w_phase (workers s' i) = MustSleep" "cv_waits cv (initialization_cv s') i"
  shows "w_phase (workers s i) = MustSleep \<and> cv_waits cv (initialization_cv s) i \<or> \<not> initializing_worker_done s"
  using assms by (cases rule: build_step.cases) (auto simp: action_defs split: if_splits)

lemma step_waiters:
  assumes "build_step cv n c r i s s'" "worker_ok c (workers s i)" "cv_ok cv"
  shows "(cv_waits cv (initialization_cv s') k \<longrightarrow> k = i \<or> cv_waits cv (initialization_cv s) k) \<and>
    (is_initializing_worker (workers s' i) \<longrightarrow> woken (w_phase (workers s' i)) \<longrightarrow> cv_waits cv (initialization_cv s') k \<longrightarrow>
       is_initializing_worker (workers s i) \<and> woken (w_phase (workers s i)) \<and> cv_waits cv (initialization_cv s) k)"
  using assms(1, 2)
  by (cases rule: build_step.cases)
    (auto simp: action_defs worker_ok_def cv_okD(4) [OF assms(3)] dest: cv_okD(2, 3) [OF assms(3)] split: if_splits)

section \<open>The invariant of a parallel build\<close>

text \<open>The seeds are published: as many as the threshold asks for, or all the initialising worker has.\<close>

definition seeds_ready :: "nat \<Rightarrow> nat \<Rightarrow> 'cv parallel_build_state \<Rightarrow> bool" where
  "seeds_ready n c s \<longleftrightarrow>
     (\<exists>j < n. is_initializing_worker (workers s j) \<and> (c \<le> w_published (workers s j) \<or> after_store (workers s j)))"

definition build_inv :: "'cv condition_variable \<Rightarrow> nat \<Rightarrow> nat \<Rightarrow> 'cv parallel_build_state \<Rightarrow> bool" where
  "build_inv cv n c s \<longleftrightarrow>
     (\<forall>i < n. worker_ok c (workers s i)) \<and>
     (\<forall>i < n. \<forall>j < n. is_initializing_worker (workers s i) \<longrightarrow> is_initializing_worker (workers s j) \<longrightarrow> i = j) \<and>
     (start_nodes_initialized s \<longleftrightarrow> (\<exists>j < n. is_initializing_worker (workers s j))) \<and>
     (\<forall>i < n. w_phase (workers s i) \<noteq> Start \<longrightarrow> start_nodes_initialized s) \<and>
     ntuples s = (\<Sum>i<n. contribution c (workers s i)) \<and>
     (initializing_worker_done s \<longleftrightarrow> (\<exists>j < n. after_store (workers s j))) \<and>
     (\<forall>i < n. \<not> is_initializing_worker (workers s i) \<and> \<not> waiting (w_phase (workers s i)) \<longrightarrow> seeds_ready n c s) \<and>
     (\<forall>i < n. \<forall>k. w_phase (workers s i) = Loaded k \<and> c \<le> k \<longrightarrow> seeds_ready n c s) \<and>
     (\<forall>i < n. w_phase (workers s i) = MustSleep \<and> cv_waits cv (initialization_cv s) i \<longrightarrow>
        \<not> (\<exists>j < n. is_initializing_worker (workers s j) \<and> woken (w_phase (workers s j))))"

lemma build_invD:
  assumes inv: "build_inv cv n c s"
  shows "k < n \<Longrightarrow> worker_ok c (workers s k)"
    and "k < n \<Longrightarrow> j < n \<Longrightarrow> is_initializing_worker (workers s k) \<Longrightarrow> is_initializing_worker (workers s j) \<Longrightarrow> k = j"
    and "start_nodes_initialized s \<longleftrightarrow> (\<exists>j < n. is_initializing_worker (workers s j))"
    and "k < n \<Longrightarrow> w_phase (workers s k) \<noteq> Start \<Longrightarrow> start_nodes_initialized s"
    and "ntuples s = (\<Sum>i<n. contribution c (workers s i))"
    and "initializing_worker_done s \<longleftrightarrow> (\<exists>j < n. after_store (workers s j))"
    and "k < n \<Longrightarrow> \<not> is_initializing_worker (workers s k) \<Longrightarrow> \<not> waiting (w_phase (workers s k)) \<Longrightarrow> seeds_ready n c s"
    and "k < n \<Longrightarrow> w_phase (workers s k) = Loaded m \<Longrightarrow> c \<le> m \<Longrightarrow> seeds_ready n c s"
    and "k < n \<Longrightarrow> w_phase (workers s k) = MustSleep \<Longrightarrow> cv_waits cv (initialization_cv s) k \<Longrightarrow>
      j < n \<Longrightarrow> is_initializing_worker (workers s j) \<Longrightarrow> \<not> woken (w_phase (workers s j))"
proof -
  note I1 = inv [unfolded build_inv_def, THEN conjunct1]
  note I2 = inv [unfolded build_inv_def, THEN conjunct2, THEN conjunct1]
  note I3 = inv [unfolded build_inv_def, THEN conjunct2, THEN conjunct2, THEN conjunct1]
  note I4 = inv [unfolded build_inv_def, THEN conjunct2, THEN conjunct2, THEN conjunct2, THEN conjunct1]
  note I5 = inv [unfolded build_inv_def, THEN conjunct2, THEN conjunct2, THEN conjunct2, THEN conjunct2, THEN conjunct1]
  note I6 = inv [unfolded build_inv_def, THEN conjunct2, THEN conjunct2, THEN conjunct2, THEN conjunct2, THEN conjunct2, THEN conjunct1]
  note I7 = inv [unfolded build_inv_def, THEN conjunct2, THEN conjunct2, THEN conjunct2, THEN conjunct2, THEN conjunct2, THEN conjunct2, THEN conjunct1]
  note I8 = inv [unfolded build_inv_def, THEN conjunct2, THEN conjunct2, THEN conjunct2, THEN conjunct2, THEN conjunct2, THEN conjunct2, THEN conjunct2, THEN conjunct1]
  note I9 = inv [unfolded build_inv_def, THEN conjunct2, THEN conjunct2, THEN conjunct2, THEN conjunct2, THEN conjunct2, THEN conjunct2, THEN conjunct2, THEN conjunct2]
  show "k < n \<Longrightarrow> worker_ok c (workers s k)" using I1 by blast
  show "k < n \<Longrightarrow> j < n \<Longrightarrow> is_initializing_worker (workers s k) \<Longrightarrow> is_initializing_worker (workers s j) \<Longrightarrow> k = j"
    using I2 by blast
  show "start_nodes_initialized s \<longleftrightarrow> (\<exists>j < n. is_initializing_worker (workers s j))" by (rule I3)
  show "k < n \<Longrightarrow> w_phase (workers s k) \<noteq> Start \<Longrightarrow> start_nodes_initialized s" using I4 by blast
  show "ntuples s = (\<Sum>i<n. contribution c (workers s i))" by (rule I5)
  show "initializing_worker_done s \<longleftrightarrow> (\<exists>j < n. after_store (workers s j))" by (rule I6)
  show "k < n \<Longrightarrow> \<not> is_initializing_worker (workers s k) \<Longrightarrow> \<not> waiting (w_phase (workers s k)) \<Longrightarrow> seeds_ready n c s"
    using I7 by blast
  show "k < n \<Longrightarrow> w_phase (workers s k) = Loaded m \<Longrightarrow> c \<le> m \<Longrightarrow> seeds_ready n c s" using I8 by blast
  show "k < n \<Longrightarrow> w_phase (workers s k) = MustSleep \<Longrightarrow> cv_waits cv (initialization_cv s) k \<Longrightarrow>
      j < n \<Longrightarrow> is_initializing_worker (workers s j) \<Longrightarrow> \<not> woken (w_phase (workers s j))"
    using I9 by blast
qed

lemma build_inv_start: "build_inv cv n c (parallel_build_state_new cv)"
  by (simp add: build_inv_def parallel_build_state_new_def worker_new_def worker_ok_def after_store_def contribution_def)

lemma sum_moved:
  fixes f :: "'a \<Rightarrow> nat" and g :: "nat \<Rightarrow> 'a"
  assumes "i < n"
  shows "(\<Sum>k<n. f ((g(i := x)) k)) + f (g i) = (\<Sum>k<n. f (g k)) + f x"
proof -
  have "(\<Sum>k<n. f ((g(i := x)) k)) = f x + (\<Sum>k \<in> {..<n} - {i}. f (g k))"
    using assms by (subst sum.remove [of "{..<n}" i]) (auto intro: sum.cong)
  moreover have "(\<Sum>k<n. f (g k)) = f (g i) + (\<Sum>k \<in> {..<n} - {i}. f (g k))"
    using assms by (subst sum.remove [of "{..<n}" i]) auto
  ultimately show ?thesis by simp
qed

text \<open>A count that has reached the threshold shows that the seeds are published.\<close>

lemma count_ready:
  assumes inv: "build_inv cv n c s" and "start_nodes_initialized s" and c: "c \<le> ntuples s"
  shows "seeds_ready n c s"
proof (rule ccontr)
  assume no: "\<not> seeds_ready n c s"
  note I = build_invD [OF inv]
  obtain j where j: "j < n" "is_initializing_worker (workers s j)" using I(3) assms(2) by blast
  have "contribution c (workers s k) = 0" if "k < n" "k \<noteq> j" for k
  proof -
    have k: "\<not> is_initializing_worker (workers s k)" using I(2) [OF that(1) j(1)] j(2) that(2) by blast
    then have "waiting (w_phase (workers s k))" using I(7) [OF that(1)] no by blast
    then show ?thesis using k by (auto simp: contribution_def)
  qed
  then have "(\<Sum>k<n. contribution c (workers s k)) = contribution c (workers s j)"
    using j(1) by (subst sum.remove [of "{..<n}" j]) auto
  then have cj: "c \<le> contribution c (workers s j)" using I(5) c by simp
  have ok: "worker_ok c (workers s j)" using I(1) j(1) .
  have "\<not> after_store (workers s j)" using no j by (auto simp: seeds_ready_def)
  then have "contribution c (workers s j) \<le> local_ntuples (workers s j)"
    using j(2) by (auto simp: contribution_def)
  then have "c \<le> w_published (workers s j)" using cj ok j(2) by (simp add: worker_ok_def)
  then show False using no j by (auto simp: seeds_ready_def)
qed

lemma build_inv_step:
  assumes inv: "build_inv cv n c s" and st: "build_step cv n c r i s s'" and cv: "cv_ok cv"
  shows "build_inv cv n c s'"
proof -
  note I = build_invD [OF inv]
  note fr = step_frame [OF st]
  have i: "i < n" using fr by blast
  have ok: "worker_ok c (workers s i)" using I(1) i .
  have same: "workers s' k = workers s k" if "k \<noteq> i" for k using fr that by (metis fun_upd_other)
  have init: "is_initializing_worker (workers s' k) \<longleftrightarrow> is_initializing_worker (workers s k) \<or>
      k = i \<and> w_phase (workers s i) = Start \<and> \<not> start_nodes_initialized s" for k
    using fr same [of k] by (cases "k = i") auto
  have ok': "worker_ok c (workers s' k)" if "k < n" for k
    using I(1) that same [of k] step_worker_ok [OF st ok] by (cases "k = i") auto
  have one: "k = j" if "k < n" "j < n" "is_initializing_worker (workers s' k)" "is_initializing_worker (workers s' j)" for k j
    using that I(2-4) unfolding init by metis
  have started: "start_nodes_initialized s' \<longleftrightarrow> (\<exists>j < n. is_initializing_worker (workers s' j))"
    using I(3) fr unfolding init by blast
  have begun: "start_nodes_initialized s'" if "k < n" "w_phase (workers s' k) \<noteq> Start" for k
    using I(4) [OF that(1)] I(4) [OF i] fr that same [of k] by (cases "k = i") auto
  have "ntuples s' + contribution c (workers s i) = (\<Sum>k<n. contribution c (workers s k)) + contribution c (workers s' i)"
    using step_contribution [OF st ok] I(5) by simp
  also have "\<dots> = (\<Sum>k<n. contribution c (workers s' k)) + contribution c (workers s i)"
    using sum_moved [OF i, of "contribution c" "workers s" "workers s' i"] fr by metis
  finally have sum: "ntuples s' = (\<Sum>k<n. contribution c (workers s' k))" by simp
  have stored: "after_store (workers s' k) \<longleftrightarrow> after_store (workers s k) \<or> k = i \<and> w_phase (workers s i) = Storing" for k
    using step_done [OF st ok] same [of k] by (cases "k = i") auto
  have flag: "initializing_worker_done s' \<longleftrightarrow> (\<exists>j < n. after_store (workers s' j))"
    using step_done [OF st ok] I(6) i unfolding stored by blast
  have mono: "seeds_ready n c s'" if ready: "seeds_ready n c s"
  proof -
    obtain j where j: "j < n" "is_initializing_worker (workers s j)" "c \<le> w_published (workers s j) \<or> after_store (workers s j)"
      using ready unfolding seeds_ready_def by blast
    have "w_published (workers s j) \<le> w_published (workers s' j)"
      using step_published [OF st ok] j(2) same [of j] by (cases "j = i") auto
    then show ?thesis using j init stored unfolding seeds_ready_def by (meson order_trans)
  qed
  have loaded: "seeds_ready n c s'" if k: "k < n" "w_phase (workers s' k) = Loaded m" "c \<le> m" for k m
  proof (cases "k = i")
    case True
    then have "w_phase (workers s i) = Checking" "m = ntuples s" using step_loaded [OF st] k(2) by auto
    then have "start_nodes_initialized s" "c \<le> ntuples s" using I(4) [OF i] k(3) by auto
    then show ?thesis using count_ready [OF inv] mono by blast
  next
    case False
    then show ?thesis using I(8) [OF k(1)] k same mono by auto
  qed
  have ready_done: "seeds_ready n c s" if "initializing_worker_done s"
    using I(6) that unfolding seeds_ready_def after_store_def by blast
  have building: "seeds_ready n c s'"
    if k: "k < n" "\<not> is_initializing_worker (workers s' k)" "\<not> waiting (w_phase (workers s' k))" for k
  proof (cases "k = i")
    case True
    then have "\<not> is_initializing_worker (workers s i) \<and> \<not> waiting (w_phase (workers s i)) \<or>
        (\<exists>m. w_phase (workers s i) = Loaded m \<and> (c \<le> m \<or> initializing_worker_done s))"
      using step_building [OF st ok] k by blast
    then show ?thesis using I(7) [OF i] I(8) [OF i] ready_done mono by blast
  next
    case False
    then show ?thesis using I(7) [OF k(1)] k same mono by auto
  qed
  have sleepers: "\<not> (\<exists>j < n. is_initializing_worker (workers s' j) \<and> woken (w_phase (workers s' j)))"
    if k: "k < n" "w_phase (workers s' k) = MustSleep" "cv_waits cv (initialization_cv s') k" for k
  proof
    assume "\<exists>j < n. is_initializing_worker (workers s' j) \<and> woken (w_phase (workers s' j))"
    then obtain j where j: "j < n" "is_initializing_worker (workers s' j)" "woken (w_phase (workers s' j))" by blast
    note w = step_waiters [OF st ok cv, of k]
    have old: "is_initializing_worker (workers s j) \<and> woken (w_phase (workers s j))"
      using w j k(3) same [of j] by (cases "j = i") auto
    have "w_phase (workers s k) = MustSleep \<and> cv_waits cv (initialization_cv s) k \<or> \<not> initializing_worker_done s"
      using step_sleep [OF st] k w same [of k] by (cases "k = i") auto
    moreover have "initializing_worker_done s" using I(6) old j(1) unfolding after_store_def by blast
    ultimately show False using I(9) [OF k(1) _ _ j(1)] old by blast
  qed
  show ?thesis unfolding build_inv_def
  proof (intro conjI)
    show "\<forall>i < n. worker_ok c (workers s' i)" using ok' by blast
    show "\<forall>i < n. \<forall>j < n. is_initializing_worker (workers s' i) \<longrightarrow> is_initializing_worker (workers s' j) \<longrightarrow> i = j"
      using one by blast
    show "\<forall>i < n. w_phase (workers s' i) \<noteq> Start \<longrightarrow> start_nodes_initialized s'" using begun by blast
    show "\<forall>i < n. \<not> is_initializing_worker (workers s' i) \<and> \<not> waiting (w_phase (workers s' i)) \<longrightarrow> seeds_ready n c s'"
      using building by blast
    show "\<forall>i < n. \<forall>k. w_phase (workers s' i) = Loaded k \<and> c \<le> k \<longrightarrow> seeds_ready n c s'" using loaded by blast
    show "\<forall>i < n. w_phase (workers s' i) = MustSleep \<and> cv_waits cv (initialization_cv s') i \<longrightarrow>
        \<not> (\<exists>j < n. is_initializing_worker (workers s' j) \<and> woken (w_phase (workers s' j)))"
      using sleepers by blast
  qed (rule started sum flag)+
qed

lemma build_run_inv: "build_run cv n c r s \<Longrightarrow> cv_ok cv \<Longrightarrow> build_inv cv n c s"
  by (induction rule: build_run.induct) (auto intro: build_inv_start build_inv_step)

section \<open>A schedule\<close>

text \<open>Worker \<open>i\<close>'s next step, with a tuple of its share at hand or without; \<open>None\<close> when it is blocked.\<close>

definition next_move :: "'cv condition_variable \<Rightarrow> nat \<Rightarrow> nat \<Rightarrow> nat \<times> bool \<Rightarrow> 'cv parallel_build_state \<Rightarrow> 'cv parallel_build_state option" where
  "next_move cv c r m s =
     (let i = fst m
      in case w_phase (workers s i) of
        Start \<Rightarrow> Some (claim_initialization i s)
      | Checking \<Rightarrow> Some (load_ntuples i s)
      | Loaded seen \<Rightarrow> Some (load_done cv c seen i s)
      | MustSleep \<Rightarrow> map_option (\<lambda>y. goto i Checking (s\<lparr>initialization_cv := y\<rparr>)) (cv_sleep cv i (initialization_cv s))
      | Building \<Rightarrow> Some (if snd m then parallel_insert c r i s else finish_scan i s)
      | Counting \<Rightarrow> Some (increment_ntuples c i s)
      | Signalling \<Rightarrow> Some (goto i Building (signal_waiting cv s))
      | Storing \<Rightarrow> Some (store_done i s)
      | Broadcasting \<Rightarrow> Some (goto i Adding (signal_waiting cv s))
      | Adding \<Rightarrow> Some (update_shared_ntuples c i s)
      | Draining \<Rightarrow> Some (drain_cache i s)
      | Finished \<Rightarrow> None)"

primrec schedule :: "'cv condition_variable \<Rightarrow> nat \<Rightarrow> nat \<Rightarrow> (nat \<times> bool) list \<Rightarrow> 'cv parallel_build_state \<Rightarrow> 'cv parallel_build_state option" where
  "schedule cv c r [] s = Some s"
| "schedule cv c r (m # ms) s = (case next_move cv c r m s of None \<Rightarrow> None | Some s' \<Rightarrow> schedule cv c r ms s')"

lemma sleep_step:
  "i < n \<Longrightarrow> w_phase (workers s i) = MustSleep \<Longrightarrow> cv_sleep cv i (initialization_cv s) = Some y \<Longrightarrow>
     build_step cv n c r i s (set_worker i ((workers s i)\<lparr>w_phase := Checking\<rparr>) (s\<lparr>initialization_cv := y\<rparr>))"
  using build_step.sleep [of i n s cv y c r] by simp

lemma next_move_step:
  "next_move cv c r m s = Some s' \<Longrightarrow> fst m < n \<Longrightarrow> build_step cv n c r (fst m) s s'"
  by (auto simp: next_move_def Let_def split: phase.splits if_splits intro: build_step.intros sleep_step)

lemma next_move_None:
  "next_move cv c r m s = None \<Longrightarrow>
     w_phase (workers s (fst m)) = Finished \<or>
     w_phase (workers s (fst m)) = MustSleep \<and> cv_sleep cv (fst m) (initialization_cv s) = None"
  by (auto simp: next_move_def Let_def split: phase.splits)

lemma next_move_quiet:
  "next_move cv c r m s = Some s' \<Longrightarrow> \<not> snd m \<Longrightarrow> local_ntuples (workers s' (fst m)) = local_ntuples (workers s (fst m))"
  by (auto simp: next_move_def action_defs split: phase.splits if_splits)

lemma schedule_run:
  "schedule cv c r ms s = Some s' \<Longrightarrow> (\<forall>m \<in> set ms. fst m < n) \<Longrightarrow> build_run cv n c r s \<Longrightarrow> build_run cv n c r s'"
  by (induction ms arbitrary: s) (auto split: option.splits intro: build_run.step [OF _ next_move_step])

definition sample_cv :: "nat list condition_variable" where
  "sample_cv =
     \<lparr>cv_init = [], cv_sleep = (\<lambda>i x. if i \<in> set x then None else Some (i # x)), cv_cancel_sleep = removeAll,
      cv_broadcast = (\<lambda>_. []), cv_waits = (\<lambda>x i. i \<in> set x)\<rparr>"

lemma sample_cv_ok: "cv_ok sample_cv"
  by (auto simp: cv_ok_def sample_cv_def split: if_splits)

text \<open>Two workers: the second goes to sleep, the first seeds the graph and wakes it, both insert.\<close>

definition sample_moves :: "(nat \<times> bool) list" where
  "sample_moves =
     [(0, True), (1, True), (1, True), (1, True), (1, True), (1, True), (1, True), (0, True), (0, True), (0, True), (1, True),
      (1, True), (1, True), (1, True), (0, True), (1, True), (1, False), (1, True), (1, True)]"

definition sample_build :: "(nat \<times> bool) list \<Rightarrow> nat list parallel_build_state" where
  "sample_build ms = the (schedule sample_cv 1 2 ms (parallel_build_state_new sample_cv))"

definition last_moves :: "(nat \<times> bool) list" where
  "last_moves = sample_moves @ [(0, False), (0, True), (0, True), (0, True), (0, True)]"

lemma sample_schedules:
  "schedule sample_cv 1 2 (take 7 sample_moves) (parallel_build_state_new sample_cv) \<noteq> None"
  "schedule sample_cv 1 2 sample_moves (parallel_build_state_new sample_cv) \<noteq> None"
  "schedule sample_cv 1 2 last_moves (parallel_build_state_new sample_cv) \<noteq> None"
  by code_simp+

lemma sample_run:
  assumes "schedule sample_cv 1 2 ms (parallel_build_state_new sample_cv) \<noteq> None" "\<forall>m \<in> set ms. fst m < 2"
  shows "build_run sample_cv 2 1 2 (sample_build ms)"
  using assms by (auto simp: sample_build_def intro: schedule_run [OF _ _ build_run.start])

lemma sample_build_run:
  "build_run sample_cv 2 1 2 (sample_build (take 7 sample_moves))"
  "build_run sample_cv 2 1 2 (sample_build sample_moves)"
  "build_run sample_cv 2 1 2 (sample_build last_moves)"
  by (rule sample_run [OF sample_schedules(1)], code_simp) (rule sample_run [OF sample_schedules(2)], code_simp,
      rule sample_run [OF sample_schedules(3)], code_simp)

section \<open>What a parallel build guarantees\<close>

text \<open>
  C12. There is one initialising worker, and no other builds before its seeds have their edges on disk:
  as many as the threshold asks for, or all it had when it was through with its share of the table.
\<close>

theorem seeds_before_workers:
  assumes "build_run cv n c r s" "cv_ok cv" "i < n" "\<not> waiting (w_phase (workers s i))"
  shows "\<exists>j < n. (\<forall>k < n. is_initializing_worker (workers s k) \<longleftrightarrow> k = j) \<and>
    (i = j \<or> c \<le> w_published (workers s j) \<or>
     initializing_worker_done s \<and> w_published (workers s j) = local_ntuples (workers s j))"
proof -
  note I = build_invD [OF build_run_inv [OF assms(1, 2)]]
  have "start_nodes_initialized s" using I(4) [OF assms(3)] assms(4) by force
  then obtain j where j: "j < n" "is_initializing_worker (workers s j)" using I(3) by blast
  have one: "\<forall>k < n. is_initializing_worker (workers s k) \<longleftrightarrow> k = j" using I(2) j by blast
  have "c \<le> w_published (workers s j) \<or> initializing_worker_done s \<and> w_published (workers s j) = local_ntuples (workers s j)"
    if "i \<noteq> j"
  proof -
    have "seeds_ready n c s" using I(7) [OF assms(3) _ assms(4)] one assms(3) that by blast
    then have "c \<le> w_published (workers s j) \<or> after_store (workers s j)" using one unfolding seeds_ready_def by blast
    moreover have "worker_ok c (workers s j)" using I(1) j(1) .
    ultimately show ?thesis using I(6) j(1) unfolding worker_ok_def by blast
  qed
  then show ?thesis using j(1) one by blast
qed

theorem seeds_before_workers_witness:
  "\<exists>j < 2. (\<forall>k < 2. is_initializing_worker (workers (sample_build sample_moves) k) \<longleftrightarrow> k = j) \<and>
    (1 = j \<or> 1 \<le> w_published (workers (sample_build sample_moves) j) \<or>
     initializing_worker_done (sample_build sample_moves) \<and>
     w_published (workers (sample_build sample_moves) j) = local_ntuples (workers (sample_build sample_moves) j))"
proof -
  have "\<not> waiting (w_phase (workers (sample_build sample_moves) 1))" by code_simp
  then show ?thesis by (intro seeds_before_workers [OF sample_build_run(2) sample_cv_ok]) simp_all
qed

text \<open>
  C30. When all workers are through, the shared counter is the sum of what they have inserted, and every
  node has its edges on disk.
\<close>

theorem all_tuples_counted:
  assumes "build_run cv n c r s" "cv_ok cv" "\<forall>i < n. w_phase (workers s i) = Finished"
  shows "ntuples s = (\<Sum>i<n. local_ntuples (workers s i)) \<and> (\<forall>i < n. w_published (workers s i) = local_ntuples (workers s i))"
proof -
  note I = build_invD [OF build_run_inv [OF assms(1, 2)]]
  have "(\<Sum>i<n. contribution c (workers s i)) = (\<Sum>i<n. local_ntuples (workers s i))"
    using assms(3) by (intro sum.cong) (auto simp: contribution_def)
  moreover have "w_published (workers s i) = local_ntuples (workers s i)" if "i < n" for i
    using I(1) [OF that] assms(3) that by (simp add: worker_ok_def)
  ultimately show ?thesis using I(5) by simp
qed

theorem all_tuples_counted_witness:
  "ntuples (sample_build last_moves) = 4 \<and>
   ntuples (sample_build last_moves) = (\<Sum>i<2. local_ntuples (workers (sample_build last_moves) i))"
proof -
  have "\<forall>i < 2. w_phase (workers (sample_build last_moves) i) = Finished" by code_simp
  note all = all_tuples_counted [OF sample_build_run(3) sample_cv_ok this]
  have "ntuples (sample_build last_moves) = 4" by code_simp
  with all show ?thesis by blast
qed

text \<open>
  C13. No wake-up is lost: until all workers are through, one of them can take a step other than the
  insertion of another tuple, so the build comes to its end whatever share of the table each gets.
\<close>

theorem no_lost_wakeup:
  assumes run: "build_run cv n c r s" "cv_ok cv" and "\<not> (\<forall>i < n. w_phase (workers s i) = Finished)"
  shows "\<exists>i s'. build_step cv n c r i s s' \<and> local_ntuples (workers s' i) = local_ntuples (workers s i)"
proof -
  note I = build_invD [OF build_run_inv [OF run]]
  obtain i where i: "i < n" "w_phase (workers s i) \<noteq> Finished" using assms(3) by blast
  show ?thesis
  proof (cases "next_move cv c r (i, False) s")
    case (Some s')
    then show ?thesis using next_move_step [OF Some] next_move_quiet [OF Some] i(1) by auto
  next
    case None
    then have asleep: "w_phase (workers s i) = MustSleep" "cv_waits cv (initialization_cv s) i"
      using next_move_None [OF None] i(2) cv_okD(1) [OF run(2)] by auto
    obtain j where j: "j < n" "is_initializing_worker (workers s j)" using I(3) I(4) [OF i(1)] asleep(1) by auto
    have "\<not> woken (w_phase (workers s j))" by (rule I(9) [OF i(1) asleep j])
    moreover have "\<not> waiting (w_phase (workers s j))" using I(1) [OF j(1)] j(2) by (auto simp: worker_ok_def)
    ultimately obtain s' where s': "next_move cv c r (j, False) s = Some s'"
      using next_move_None [of cv c r "(j, False)" s] by (cases "next_move cv c r (j, False) s") auto
    show ?thesis using next_move_step [OF s'] next_move_quiet [OF s'] j(1) by auto
  qed
qed

theorem no_lost_wakeup_witness:
  "w_phase (workers (sample_build (take 7 sample_moves)) 1) = MustSleep \<and>
   (\<exists>i s'. build_step sample_cv 2 1 2 i (sample_build (take 7 sample_moves)) s' \<and>
      local_ntuples (workers s' i) = local_ntuples (workers (sample_build (take 7 sample_moves)) i))"
proof -
  have "w_phase (workers (sample_build (take 7 sample_moves)) 1) = MustSleep" by code_simp
  then show ?thesis by (intro conjI no_lost_wakeup [OF sample_build_run(1) sample_cv_ok]) (auto intro!: exI [of _ 1])
qed

end
