(* ===== verification/Row_Keeping.thy ===== *)
theory Row_Keeping
  imports Graph_Entry
begin

text \<open>
  The rows of an index: what a node says of its table row and never changes when only adjacencies do.
  \<open>moved\<close> is what every operation of the graph promises on rows: alone it keeps them all, and among
  other backends that lose no row it loses none either. The proofs follow the operations over the
  contract \<open>row_disk\<close>, and over \<open>row_storage\<close> for the search that precedes an insertion.
\<close>

section \<open>Rows\<close>

definition rows_at :: "('n \<Rightarrow> 'r) \<Rightarrow> 'n relation \<Rightarrow> item_pointer \<Rightarrow> 'r option" where
  "rows_at row rel p = map_option row (item_at rel p)"

definition others_keep :: "('n \<Rightarrow> 'r) \<Rightarrow> 'n world \<Rightarrow> bool" where
  "others_keep row w \<longleftrightarrow> (\<forall>f \<in> set (w_others w). \<forall>r. rows_at row r \<subseteq>\<^sub>m rows_at row (f r))"

text \<open>The same rows on the same pages.\<close>

definition page_kind :: "'n page \<Rightarrow> tsv_opaque option" where
  "page_kind p = (case p of NewPage \<Rightarrow> None | InitPage q _ \<Rightarrow> Some q)"

definition same_rows :: "('n \<Rightarrow> 'r) \<Rightarrow> 'n relation \<Rightarrow> 'n relation \<Rightarrow> bool" where
  "same_rows row rel rel' \<longleftrightarrow> rows_at row rel' = rows_at row rel \<and> map page_kind rel' = map page_kind rel"

lemma same_rows_refl [simp]: "same_rows row rel rel"
  by (simp add: same_rows_def)

lemma same_rows_trans: "same_rows row r s \<Longrightarrow> same_rows row s t \<Longrightarrow> same_rows row r t"
  by (simp add: same_rows_def)

lemma same_rows_tape:
  assumes "same_rows row rel rel'" "tape_inv rel t"
  shows "tape_inv rel' t"
proof -
  have k: "map page_kind rel' = map page_kind rel" using assms(1) by (simp add: same_rows_def)
  then have len: "length rel' = length rel" using map_eq_imp_length_eq by blast
  obtain "is" where t: "unat (t_current t) < length rel" "rel ! unat (t_current t) = InitPage (tsv_opaque_new (t_page_type t)) is"
    using assms(2) by (auto simp: tape_inv_def)
  have "page_kind (rel' ! unat (t_current t)) = page_kind (rel ! unat (t_current t))"
    using arg_cong [OF k, of "\<lambda>ks. ks ! unat (t_current t)"] t(1) len by simp
  then have "\<exists>is. rel' ! unat (t_current t) = InitPage (tsv_opaque_new (t_page_type t)) is"
    using t(2) by (auto simp: page_kind_def split: page.splits)
  then show ?thesis using assms(2) len by (simp add: tape_inv_def)
qed

definition moved :: "('n \<Rightarrow> 'r) \<Rightarrow> 'n world \<Rightarrow> 'n world \<Rightarrow> bool" where
  "moved row w w' \<longleftrightarrow>
     (others_keep row w \<longrightarrow> others_keep row w' \<and> rows_at row (w_rel w) \<subseteq>\<^sub>m rows_at row (w_rel w')) \<and>
     (w_others w = [] \<longrightarrow> w_others w' = [] \<and> same_rows row (w_rel w) (w_rel w'))"

lemma moved_trans: "moved row u v \<Longrightarrow> moved row v w \<Longrightarrow> moved row u w"
  unfolding moved_def using map_le_trans same_rows_trans by metis

lemma moved_same: "same_disk w w' \<Longrightarrow> moved row w w'"
  by (simp add: moved_def same_disk_def others_keep_def)

lemma moved_refl [simp]: "moved row w w"
  by (simp add: moved_same)

lemma moved_count [simp]:
  "moved row w (w'\<lparr>w_stats := s\<rparr>) = moved row w w'" "moved row (w\<lparr>w_stats := s\<rparr>) w' = moved row w w'"
  by (simp_all add: moved_def others_keep_def)

lemma moved_interfere: "moved row w (interfere w)"
  by (cases "w_others w") (auto simp: moved_def interfere_def others_keep_def)

text \<open>A step after the others' that changes no row.\<close>

lemma moved_step:
  assumes "w_others w' = w_others (interfere w)" "same_rows row (w_rel (interfere w)) (w_rel w')"
  shows "moved row w w'"
proof -
  have "moved row (interfere w) w'" using assms by (simp add: moved_def others_keep_def same_rows_def)
  with moved_interfere show ?thesis by (rule moved_trans)
qed

lemma moved_alone: "moved row w w' \<Longrightarrow> w_others w = [] \<Longrightarrow> w_others w' = [] \<and> same_rows row (w_rel w) (w_rel w')"
  by (simp add: moved_def)

lemma moved_among: "moved row w w' \<Longrightarrow> others_keep row w \<Longrightarrow> others_keep row w' \<and> rows_at row (w_rel w) \<subseteq>\<^sub>m rows_at row (w_rel w')"
  by (simp add: moved_def)

text \<open>The compare-and-set of an adjacency keeps every row.\<close>

context graph_node
begin

lemma try_set_rows:
  assumes run: "try_set_neighbors_with iter set_nbrs k p expected ns w = Inr (ok, w')"
  shows "same_rows (\<lambda>n. (heap n, core n)) (w_rel (interfere w)) (w_rel w')"
proof -
  let ?i = "interfere w"
  obtain wp n v where m: "node_modify p w = Inr (wp, n, v)"
    and rest: "(if iter n \<noteq> expected then Inr (False, v)
     else if iter n = map n_index_pointer ns then Inr (True, count record_unchanged v)
     else rbind (set_nbrs ns k n) (\<lambda>node.
       Inr (True, v\<lparr>w_rel := commit (w_rel v) (wp\<lparr>wp_page := put_item (offset p) node (wp_page wp)\<rparr>)\<rparr>))) = Inr (ok, w')"
    using run by (auto simp: try_set_neighbors_with_def)
  have it: "item_at (w_rel ?i) p = Some n" and v: "w_rel v = w_rel ?i"
    and wp: "wp = \<lparr>wp_block = block_number p, wp_page = w_rel ?i ! unat (block_number p)\<rparr>"
    using m by (auto simp: node_modify_Inr)
  show ?thesis
  proof (cases "iter n \<noteq> expected \<or> iter n = map n_index_pointer ns")
    case True
    then show ?thesis using rest v by (auto split: if_splits)
  next
    case False
    then obtain n' where n': "set_nbrs ns k n = Inr n'"
      and w': "w' = v\<lparr>w_rel := commit (w_rel v) (wp\<lparr>wp_page := put_item (offset p) n' (wp_page wp)\<rparr>)\<rparr>"
      using rest by auto
    have e: "w_rel w' = commit (w_rel ?i) \<lparr>wp_block = block_number p, wp_page = put_item (offset p) n' (w_rel ?i ! unat (block_number p))\<rparr>"
      using w' v wp by simp
    have "item_at (w_rel w') q = (if q = p then Some n' else item_at (w_rel ?i) q)" for q
      unfolding e by (rule put_node(1) [OF it refl])
    then have "rows_at (\<lambda>n. (heap n, core n)) (w_rel w') = rows_at (\<lambda>n. (heap n, core n)) (w_rel ?i)"
      using it set_frame [OF n'] by (auto simp: rows_at_def fun_eq_iff)
    moreover have "page_kind (put_item off n' pg) = page_kind pg" for off pg
      by (simp add: page_kind_def put_item_def split: page.splits)
    then have "map page_kind (w_rel w') = map page_kind (w_rel ?i)"
      unfolding e commit_def by (simp add: map_update) (metis list_update_id map_update)
    ultimately show ?thesis by (simp add: same_rows_def)
  qed
qed

end

section \<open>Merging and the build cache\<close>

locale row_disk = cached_storage st winv dist_at adj k lops
  for st :: "('n, 'd) disk_ops" and winv dist_at adj k and lops :: builder_ops +
  fixes row :: "'n \<Rightarrow> 'r"
  assumes try_set_row: "winv w \<Longrightarrow> valid_ptrs ns \<Longrightarrow> st_try_set st p expected ns w = Inr (ok, w') \<Longrightarrow>
    same_rows row (w_rel (interfere w)) (w_rel w')"
begin

lemma try_set_moved:
  "winv w \<Longrightarrow> valid_ptrs ns \<Longrightarrow> st_try_set st p expected ns w = Inr (ok, w') \<Longrightarrow> moved row w w'"
  using moved_step try_set_row try_set by metis

lemma labels_moved:
  assumes "(case ls of Some l \<Rightarrow> Inr (Some l, w) | None \<Rightarrow> st_get_labels st p w) = Inr (ls', v)" "winv w"
  shows "winv v \<and> moved row w v"
  using assms get_labels [OF assms(2)] moved_same [of w v] by (cases ls) auto

lemma merge_loop_moved:
  assumes "merge_loop st p ls added max_alpha num mode fuel w = Inr (r, w')"
    and "winv w" "valid_ptrs added" "f64_lt max_alpha f64_max_value"
  shows "moved row w w'"
  using assms
proof (induction fuel arbitrary: w)
  case (Suc fuel)
  obtain disk w1 where d: "st_neighbors_from_disk st p w = Inr (disk, w1)"
    using Suc.prems(1) by (cases "st_neighbors_from_disk st p w") auto
  note nb = neighbors [OF Suc.prems(2) d]
  obtain cands always where mc: "merge_candidates mode p disk added = (cands, always)" by force
  let ?pr = "always \<or> num < length cands"
  note step = merge_loop_step [OF mc d, where num = num and ls = ls and max_alpha = max_alpha and fuel = fuel]
  obtain ns1 w2 where p2: "merge_choice ls max_alpha num ?pr cands w1 = Inr (ns1, w2)"
    using Suc.prems(1) unfolding step by (cases "merge_choice ls max_alpha num ?pr cands w1") auto
  let ?w2 = "count (\<lambda>s. s\<lparr>adjacency_attempts := adjacency_attempts s + 1\<rparr>) w2"
  note run = Suc.prems(1) [unfolded step p2 rbind_simps case_prod_conv]
  note ch = merge_choice_facts [OF p2 mc refl _ Suc.prems(4) _ Suc.prems(3)]
  have w2: "winv ?w2" "same_disk w ?w2" and ns1: "valid_ptrs ns1"
    using ch nb by (auto simp: winv_count same_disk_def)
  obtain ok w3 where t: "st_try_set st p (map n_index_pointer disk) ns1 ?w2 = Inr (ok, w3)"
    using run by (cases "st_try_set st p (map n_index_pointer disk) ns1 ?w2") auto
  have m: "moved row w w3" using moved_trans [OF moved_same [OF w2(2)] try_set_moved [OF w2(1) ns1 t]] .
  show ?case
  proof (cases ok)
    case True
    then show ?thesis using run t m by auto
  next
    case False
    let ?w3 = "count (\<lambda>s. s\<lparr>adjacency_retries := adjacency_retries s + 1\<rparr>) w3"
    have "merge_loop st p ls added max_alpha num mode fuel ?w3 = Inr (r, w')" using run t False by (auto split: if_splits)
    moreover have "winv ?w3" using try_set [OF w2(1) ns1 t] by (simp add: winv_count)
    ultimately have "moved row ?w3 w'" using Suc.IH Suc.prems(3,4) by blast
    then show ?thesis using m moved_trans by simp
  qed
qed simp

lemma merge_moved:
  assumes run: "merge_neighbors_on_disk st p ls added max_alpha num mode w = Inr (r, w')"
    and w: "winv w" "valid_ptrs added" "f64_lt max_alpha f64_max_value"
  shows "moved row w w'"
proof -
  obtain ls' v where l: "(case ls of Some l \<Rightarrow> Inr (Some l, w) | None \<Rightarrow> st_get_labels st p w) = Inr (ls', v)"
    and m: "merge_loop st p ls' added max_alpha num mode (Suc (length (w_others v))) v = Inr (r, w')"
    using run by (auto simp: merge_neighbors_on_disk_def simp del: merge_loop.simps)
  show ?thesis using labels_moved [OF l w(1)] merge_loop_moved [OF m _ w(2,3)] moved_trans by blast
qed

lemma builder_set_moved:
  assumes run: "builder_set_neighbors lops st b p ls ns w = Inr (b', w')" and ok: "builder_ok b" and w: "winv w"
  shows "moved row w w'"
proof -
  obtain ls' w1 where l: "(case ls of Some l \<Rightarrow> Inr (Some l, w) | None \<Rightarrow> st_get_labels st p w) = Inr (ls', w1)"
    using run by (auto simp: builder_set_neighbors_def)
  obtain ev m where push: "lru_push lops p \<lparr>e_labels = ls', e_neighbors = ns\<rparr> (neighbor_map b) = (ev, m)" by force
  note lm = labels_moved [OF l w]
  have inv: "lru_inv (neighbor_map b)" and al: "f64_lt (b_max_alpha b) f64_max_value"
    using ok max_alpha_finite by (auto simp: builder_ok_def)
  show ?thesis
  proof (cases ev)
    case None
    then show ?thesis using run l push lm by (simp add: builder_set_neighbors_def Let_def)
  next
    case (Some kv)
    obtain key val where kv: "kv = (key, val)" by (cases kv)
    obtain r where mg: "merge_neighbors_on_disk st key (e_labels val) (e_neighbors val) (b_max_alpha b)
                     (b_num_neighbors b) (MergeBuilder True) w1 = Inr (r, w')"
      using run l push Some kv by (auto simp: builder_set_neighbors_def Let_def)
    have "valid_ptrs (e_neighbors val)" using lru_push_facts [OF inv push] ok Some kv by (auto simp: builder_ok_def)
    from merge_moved [OF mg conjunct1 [OF lm] this al] show ?thesis using lm moved_trans by blast
  qed
qed

lemma builder_get_moved:
  assumes run: "builder_get_neighbors_with_distances lops st b p w = Inr (ns, b', w')" and ok: "builder_ok b" and w: "winv w"
  shows "moved row w w'"
proof -
  obtain entry m where g: "lru_get lops p (neighbor_map b) = (entry, m)" by force
  have inv: "lru_inv (neighbor_map b)" using ok by (simp add: builder_ok_def)
  have okb: "builder_ok (b\<lparr>neighbor_map := m\<rparr>)" using ok lru_get_facts [OF inv g] by (auto simp: builder_ok_def)
  show ?thesis
  proof (cases entry)
    case None
    with run g obtain w1 where d: "st_neighbors_from_disk st p w = Inr (ns, w1)"
      and s: "builder_set_neighbors lops st (b\<lparr>neighbor_map := m\<rparr>) p None ns w1 = Inr (b', w')"
      by (auto simp: builder_get_neighbors_with_distances_def)
    note n = neighbors [OF w d]
    have "moved row w w1" using n moved_same by blast
    with builder_set_moved [OF s okb] n show ?thesis using moved_trans by blast
  qed (use run g in \<open>auto simp: builder_get_neighbors_with_distances_def\<close>)
qed

end

section \<open>Searching and inserting\<close>

locale row_storage = search_storage S winv dist_at adj k lops lsn_ok + row_disk "s_disk S" winv dist_at adj k lops row
  for S :: "('n, 'd, 'q, 'pd) storage" and winv dist_at adj k and lops :: builder_ops and lsn_ok and row :: "'n \<Rightarrow> 'r" +
  assumes create_lsn_moved: "winv w \<Longrightarrow> gns_ok g \<Longrightarrow> s_create_lsn S lops l ip g w = Inr (n, l', g', w') \<Longrightarrow> moved row w w'"
    and visit_lsn_moved: "winv w \<Longrightarrow> gns_ok g \<Longrightarrow> s_visit_lsn S lops l i g nf w = Inr (l', g', w') \<Longrightarrow> moved row w w'"
begin

lemma lsr_new_moved:
  assumes run: "lsr_new S lops sn q tie g w = Inr (l, g', w')" and w: "winv w" "gns_ok g"
  shows "moved row w w'"
proof -
  let ?I = "\<lambda>(l :: ('q, 'pd) lsr, g', w'). winv w' \<and> gns_ok g' \<and> moved row w w'"
  have "?I (l, g', w')"
  proof (rule rfold_invariant [OF run [unfolded lsr_new_def]])
    fix ip s s'
    assume I: "?I s" and step: "(\<lambda>(l, gns, w).
        rbind (s_create_lsn S lops l ip gns w) (\<lambda>(n, l, gns, w).
        case n of None \<Rightarrow> Inr (l, gns, w)
        | Some n \<Rightarrow> (case insert_neighbor n l w of (l, w) \<Rightarrow> Inr (l, gns, w)))) s = Inr s'"
    obtain l0 g0 w0 where s: "s = (l0, g0, w0)" by (cases s)
    obtain l2 g2 w2 where s2: "s' = (l2, g2, w2)" by (cases s')
    obtain n l1 w1 where c: "s_create_lsn S lops l0 ip g0 w0 = Inr (n, l1, g2, w1)"
      and i: "(case n of None \<Rightarrow> (l1, w1) | Some m \<Rightarrow> insert_neighbor m l1 w1) = (l2, w2)"
      using create_split [OF step [unfolded s s2 case_prod_conv]] by blast
    have pre: "winv w0" "gns_ok g0" "moved row w w0" using I s by auto
    have "winv w1" "gns_ok g2" "moved row w w1"
      using create_lsn [OF pre(1, 2) c] create_lsn_moved [OF pre(1, 2) c] pre(3) moved_trans store_kept_gns_ok by blast+
    then show "?I s'" using i unfolding s2 by (auto simp: insert_neighbor_def winv_count split: option.splits)
  qed (use w in \<open>simp add: winv_count\<close>)
  then show ?thesis by simp
qed

lemma build_search_moved:
  assumes run: "greedy_search_for_build S lops gr ip query nf w = Inr (vs, gr', w')" and w: "winv w" and gr: "graph_ok gr"
  shows "moved row w w'"
proof (cases "m_start_nodes (g_meta gr)")
  case None
  then show ?thesis using run by (simp add: greedy_search_for_build_def)
next
  case (Some s)
  let ?sn = "if nf then get_for_node s None else get_for_node s (lv_labels query)"
  let ?n = "unat (m_search_list_size (g_meta gr))"
  obtain dm l g1 w1 l' vis g2 where
    new: "lsr_new S lops ?sn dm (Some ip) (g_store gr) w = Inr (l, g1, w1)"
    and it: "greedy_search_iterate S lops ?n nf l (Some []) g1 w1 = Inr (l', vis, g2, w')"
    using run Some by (auto simp: greedy_search_for_build_def Let_def)
  have g: "gns_ok (g_store gr)" and e: "entry_points_ok (g_meta gr)" using gr by (auto simp: graph_ok_def)
  have "\<forall>p \<in> set ?sn. block_number p \<noteq> InvalidBlockNumber" using entry_points_valid [OF e Some] by simp
  then have st: "search_state g1 w1 l (Some [])" using lsr_new_facts [OF new w g] by blast
  have "greedy_search_loop S lops ?n nf l (Some []) g1 w1 = Some (Inr (l', vis, g2, w'))"
    using it by (auto simp: greedy_search_iterate_def returned_def split: option.splits)
  then have "moved row w w'"
  proof (rule greedy_search_loop_invariant [where P = "\<lambda>_ v _. moved row w v", rotated, OF _ st])
    show "moved row w w1" by (rule lsr_new_moved [OF new w g])
    fix la i l1 visa vis2 ga wa l2 g2 w2
    assume a: "search_state ga wa la visa" "s_visit_lsn S lops l1 i ga nf (count record_visit wa) = Inr (l2, g2, w2)" "moved row w wa"
    have "winv (count record_visit wa)" "gns_ok ga" using a(1) by (auto simp: search_state_def winv_count)
    from visit_lsn_moved [OF this a(2)] have "moved row wa w2" by simp
    with a(3) show "moved row w w2" by (rule moved_trans)
  qed
  then show ?thesis .
qed

lemma add_neighbors_moved:
  assumes run: "add_neighbors S lops gr p ls added w = Inr ((pr, ns), gr', w')"
    and w: "winv w" and gr: "graph_ok gr" and v: "valid_ptrs added"
  shows "moved row w w'"
proof (cases "g_store gr")
  case DiskStore
  have al: "f64_lt (m_max_alpha (g_meta gr)) f64_max_value" using gr max_alpha_finite by (simp add: graph_ok_def)
  from run DiskStore have "merge_neighbors_on_disk (s_disk S) p ls added (m_max_alpha (g_meta gr))
      (unat (m_num_neighbors (g_meta gr))) MergeDisk w = Inr ((pr, ns), w')"
    by (auto simp: add_neighbors_def Let_def)
  from merge_moved [OF this w v al] show ?thesis .
next
  case (BuilderStore b)
  have b: "builder_ok b" and al: "f64_lt (m_max_alpha (g_meta gr)) f64_max_value"
    using gr BuilderStore max_alpha_finite by (auto simp: graph_ok_def gns_ok_def)
  let ?num = "unat (m_num_neighbors (g_meta gr))"
  obtain ls' w1 cands b1 w2 w3 b2 where
    l: "(case ls of Some l \<Rightarrow> Inr (Some l, w) | None \<Rightarrow> st_get_labels (s_disk S) p w) = Inr (ls', w1)"
    and c: "builder_get_neighbors_with_distances lops (s_disk S) b p w1 = Inr (cands, b1, w2)"
    and ch: "(let cs = retain_unseen n_index_pointer {p} (cands @ added) in
        if length cs > gns_max_neighbors (g_store gr) (get_max_neighbors_during_build (g_meta gr)) ?num then
          rbind (prune_neighbors (s_disk S) (m_max_alpha (g_meta gr)) ?num ls' cs w2) (\<lambda>(n, w). Inr (True, n, w))
        else Inr (False, cs, w2)) = Inr (pr, ns, w3)"
    and s: "builder_set_neighbors lops (s_disk S) b1 p ls' ns w3 = Inr (b2, w')"
    using run BuilderStore by (auto simp: add_neighbors_def Let_def)
  note lm = labels_moved [OF l w]
  note gf = builder_get_facts [OF c b conjunct1 [OF lm]]
  have "winv w3 \<and> moved row w2 w3"
  proof (cases "length (retain_unseen n_index_pointer {p} (cands @ added)) >
      gns_max_neighbors (g_store gr) (get_max_neighbors_during_build (g_meta gr)) ?num")
    case True
    then have "prune_neighbors (s_disk S) (m_max_alpha (g_meta gr)) ?num ls' (retain_unseen n_index_pointer {p} (cands @ added)) w2 = Inr (ns, w3)"
      using ch by (simp add: Let_def del: split_paired_All)
    from prune_neighbors_facts(1,2) [OF this _ al] gf show ?thesis using moved_same by blast
  next
    case False
    then show ?thesis using ch gf by (simp add: Let_def)
  qed
  moreover have "moved row w w2" using lm builder_get_moved [OF c b conjunct1 [OF lm]] moved_trans by blast
  ultimately show ?thesis using builder_set_moved [OF s] gf moved_trans by blast
qed

lemma back_pointers_moved:
  assumes "rfold (update_back_pointer S lops ip ls) ns (c, gr, w) = Inr (c', gr', w')"
    and "winv w" "graph_ok gr" "block_number ip \<noteq> InvalidBlockNumber"
  shows "moved row w w'"
  using assms
proof (induction ns arbitrary: c gr w)
  case (Cons n ns)
  then obtain c1 gr1 w1 where st: "update_back_pointer S lops ip ls n (c, gr, w) = Inr (c1, gr1, w1)"
    and rest: "rfold (update_back_pointer S lops ip ls) ns (c1, gr1, w1) = Inr (c', gr', w')" by auto
  have "valid_ptrs [nwd_new ip (n_distance n) ls]" using Cons.prems(4) by (simp add: valid_ptrs_def)
  then have m: "moved row w w1"
    using st add_neighbors_moved [OF _ Cons.prems(2,3)] by (auto simp: update_back_pointer_def Let_def)
  have "winv w1" "graph_ok gr1" using back_pointer_facts [OF st Cons.prems(2-4)] by (auto simp: graph_kept_def)
  then show ?case using m Cons.IH [OF rest _ _ Cons.prems(4)] moved_trans by blast
qed simp

lemma insert_internal_moved:
  assumes run: "insert_internal S lops ord gr ip vec nf w = Inr (orphan, gr', w')"
    and w: "winv w" and gr: "graph_ok gr" and ip: "block_number ip \<noteq> InvalidBlockNumber"
    and ord: "\<And>v. mset (ord v) = mset v"
  shows "moved row w w'"
proof -
  from insert_internal_steps [OF run] obtain v gr1 w1 pr ns gr2 w2 cnt where s:
    "greedy_search_for_build S lops gr ip vec nf w = Inr (v, gr1, w1)"
    "add_neighbors S lops gr1 ip (lv_labels vec) (ord v) w1 = Inr ((pr, ns), gr2, w2)"
    "rfold (update_back_pointer S lops ip (lv_labels vec)) ns (0, gr2, w2) = Inr (cnt, gr', w')" by blast
  have 1: "winv w1" "graph_ok gr1" "valid_ptrs (ord v)"
    using build_search_facts [OF s(1) w gr] valid_ptrs_perm [OF ord] by (auto simp: graph_kept_def)
  have "winv w2" "graph_ok gr2" using add_neighbors_facts [OF s(2) 1] by (auto simp: graph_kept_def)
  from back_pointers_moved [OF s(3) this ip] show ?thesis
    using build_search_moved [OF s(1) w gr] add_neighbors_moved [OF s(2) 1] moved_trans by blast
qed

text \<open>An insertion publishes entry points and adjacencies, and no row but the one that has been written already.\<close>

lemma graph_insert_moved:
  assumes laws: "meta_codec_laws c" and p: "meta_codec_laws.publishable c rel m ip (lv_labels vec)"
    and m: "entry_points_ok m" "f64_le (m_max_alpha m) 0x4014000000000000"
    and w: "winv w" and gr: "graph_ok gr" and ip: "block_number ip \<noteq> InvalidBlockNumber"
    and ord: "\<And>v. mset (ord v) = mset v"
    and run: "graph_insert c header_le pg_page_8k S lops ord gr ip vec w rel = Inr (gr', w', rel')"
  shows "moved row w w'"
proof -
  let ?one = "\<lambda>gr w. if lv_labels vec \<noteq> None
            then rbind (insert_internal S lops ord gr ip vec False w) (\<lambda>(_, gr, w). Inr (gr, w))
            else Inr (gr, w)"
  obtain gr1 w1 rel1 gr2 w2 o' where
    up: "update_start_nodes c header_le pg_page_8k S lops gr ip (lv_labels vec) w rel = Inr (gr1, w1, rel1)"
    and one: "?one gr1 w1 = Inr (gr2, w2)" and two: "insert_internal S lops ord gr2 ip vec True w2 = Inr (o', gr', w')"
    using run unfolding graph_insert_def by (auto simp del: not_None_eq)
  have g1: "winv w1" "graph_ok gr1" using update_kept [OF laws up p m w gr ip] by auto
  have m1: "moved row w w1"
  proof -
    have st: "moved row w w1"
      if "(case m_start_nodes m of Some _ \<Rightarrow> Inr (g_store gr, w)
        | None \<Rightarrow> gns_initialize_neighbors lops (s_disk S) (g_store gr) ip (lv_labels vec) w) = Inr (g_store gr1, w1)"
    proof (cases "m_start_nodes m")
      case None
      then have i: "gns_initialize_neighbors lops (s_disk S) (g_store gr) ip (lv_labels vec) w = Inr (g_store gr1, w1)" using that by simp
      show ?thesis
      proof (cases "g_store gr")
        case (BuilderStore b)
        then obtain b' where s: "builder_set_neighbors lops (s_disk S) b ip (lv_labels vec) [] w = Inr (b', w1)"
          using i by (auto simp: gns_initialize_neighbors_def)
        have "builder_ok b" using gr BuilderStore by (simp add: graph_ok_def gns_ok_def)
        from builder_set_moved [OF s this w] show ?thesis .
      qed (use i in \<open>simp add: gns_initialize_neighbors_def\<close>)
    qed (use that in simp)
    show ?thesis using meta_codec_laws.update_start_nodes_facts [OF laws up p] st by auto
  qed
  have "moved row w1 w2 \<and> winv w2 \<and> graph_ok gr2"
    using one g1 insert_internal_moved [OF _ g1 ip ord] insert_internal_facts [OF _ g1 ip ord]
    by (auto simp: graph_kept_def split: if_splits)
  then show ?thesis using m1 insert_internal_moved [OF two _ _ ip ord] moved_trans by blast
qed

text \<open>The flush of the build cache.\<close>

lemma flush_loop_moved:
  assumes "flush_loop lops (s_disk S) fuel b w = Inr (b', w')" "builder_ok b" "winv w"
  shows "winv w' \<and> builder_ok b' \<and> moved row w w'"
  using assms
proof (induction fuel arbitrary: b w)
  case (Suc fuel)
  have inv: "lru_inv (neighbor_map b)" and al: "f64_lt (b_max_alpha b) f64_max_value"
    using Suc.prems(2) max_alpha_finite by (auto simp: builder_ok_def)
  note pf = lru_pop_facts [OF inv]
  show ?case
  proof (cases "lru_pop_lru lops (neighbor_map b)")
    case None
    then show ?thesis using Suc.prems by auto
  next
    case (Some x)
    obtain p e m where x: "x = ((p, e), m)" by (metis surj_pair)
    have p: "lru_inv m" "lru_lookup (neighbor_map b) p = Some e" "lru_lookup m = (lru_lookup (neighbor_map b))(p := None)"
      using pf Some x by auto
    have ok: "builder_ok (b\<lparr>neighbor_map := m\<rparr>)" "valid_ptrs (e_neighbors e)" using Suc.prems(2) p by (auto simp: builder_ok_def)
    obtain pr ns w1 where mg: "merge_neighbors_on_disk (s_disk S) p (e_labels e) (e_neighbors e) (b_max_alpha b)
        (b_num_neighbors b) (MergeBuilder False) w = Inr ((pr, ns), w1)"
      and rest: "flush_loop lops (s_disk S) fuel (b\<lparr>neighbor_map := m\<rparr>) w1 = Inr (b', w')"
      using Suc.prems(1) Some x by auto
    note mm = merge_facts(1) [OF mg Suc.prems(3) ok(2) al] merge_moved [OF mg Suc.prems(3) ok(2) al]
    show ?thesis using Suc.IH [OF rest ok(1) mm(1)] mm(2) moved_trans by blast
  qed
qed simp

end

end
