(* ===== verification/Row_Storages.thy ===== *)
theory Row_Storages
  imports Row_Keeping
begin

text \<open>
  Where rows come from: a tape stores a node at a fresh pointer and changes no other item, and the
  nodes that the plain and the SBQ storage create hold the row they are given. Both storages are
  instances of the contract \<open>node_storage\<close> here.
\<close>

section \<open>Items of a tape\<close>

lemma item_at_push:
  assumes b: "unat b < length rel" "items_of (rel ! unat b) = is" and len: "length is < MaxOffsetNumber"
  shows "item_at (rel[unat b := InitPage k (is @ [x])]) q =
    (if q = ItemPointer b (of_nat (length is + 1)) then Some x else item_at rel q)"
proof -
  have u: "unat (of_nat (Suc (length is)) :: offset_number) = Suc (length is)"
    using len by (simp add: unat_of_nat MaxOffsetNumber_def del: of_nat_Suc)
  show ?thesis
  proof (cases "block_number q = b")
    case True
    have "q = ItemPointer b (of_nat (length is + 1)) \<longleftrightarrow> unat (offset q) = Suc (length is)"
      using True u by (cases q) (auto simp: word_unat_eq_iff simp del: of_nat_Suc)
    then show ?thesis
      using True b u by (auto simp: item_at_def get_item_unchecked_def items_of_def nth_append)
  next
    case False
    then have "unat (block_number q) \<noteq> unat b" by (simp add: word_unat_eq_iff)
    then show ?thesis using False by (cases q) (auto simp: item_at_def)
  qed
qed

lemma items_of_NewPage [simp]: "items_of NewPage = []"
  by (simp add: items_of_def)

lemma item_at_new_page: "items_of pg = [] \<Longrightarrow> item_at (rel @ [pg]) q = item_at rel q"
  by (auto simp: item_at_def get_item_unchecked_def nth_append not_less less_Suc_eq)

context pg_page
begin

lemma tape_write_shape:
  assumes run: "tape_write ops sz rel self x = Inr (p, self', rel')"
  obtains rel0 k "is" where "rel0 = rel \<or> rel0 = rel @ [NewPage] \<and> blocks_left rel" "unat (block_number p) < length rel0"
    "items_of (rel0 ! unat (block_number p)) = is" "length is < MaxOffsetNumber"
    "rel' = rel0[unat (block_number p) := InitPage k (is @ [x])]" "offset p = of_nat (length is + 1)"
    "self' = self \<and> rel0 = rel \<and> block_number p = t_current self \<and> rel ! unat (t_current self) = InitPage k is \<or>
     self' = self\<lparr>t_current := block_number p\<rparr> \<and> k = tsv_opaque_new (t_page_type self)"
    "\<not> is_chained (t_page_type self)"
proof -
  obtain wp0 wp rel0 off wp' where w0: "writable_modify rel (t_current self) = Inr wp0"
    and choose: "(if get_aligned_free_space ops sz wp0 < sz x then
               rbind (writable_new rel (t_page_type self)) (\<lambda>(page, rel).
               if get_aligned_free_space ops sz page < sz x then Inl (Panic ''Not enough free space on new page'')
               else Inr (page, self\<lparr>t_current := wp_block page\<rparr>, rel))
             else Inr (wp0, self, rel)) = Inr (wp, self', rel0)"
    and add: "add_item_unchecked ops sz x wp = Inr (off, wp')"
    and out: "p = ItemPointer (wp_block wp') off" "rel' = commit rel0 wp'" "\<not> is_chained (t_page_type self)"
    using run by (auto simp: tape_write_def Let_def simp del: if_split)
  have wp: "(rel0 = rel \<or> rel0 = rel @ [NewPage] \<and> blocks_left rel) \<and> unat (wp_block wp) < length rel0 \<and>
      items_of (wp_page wp) = items_of (rel0 ! unat (wp_block wp)) \<and> wp_page wp \<noteq> NewPage \<and>
      (self' = self \<and> rel0 = rel \<and> wp_block wp = t_current self \<and> rel ! unat (t_current self) = wp_page wp \<or>
       self' = self\<lparr>t_current := wp_block wp\<rparr> \<and> wp_page wp = InitPage (tsv_opaque_new (t_page_type self)) [])"
  proof (cases "get_aligned_free_space ops sz wp0 < sz x")
    case True
    then have "writable_new rel (t_page_type self) = Inr (wp, rel0)" "self' = self\<lparr>t_current := wp_block wp\<rparr>"
      using choose by (auto split: if_splits)
    then show ?thesis by (auto simp: writable_new_Inr unat_length_rel items_of_def)
  next
    case False
    then have "wp = wp0" "rel0 = rel" "self' = self" using choose by simp_all
    then show ?thesis using w0 by (auto simp: writable_modify_Inr read_from_page_def)
  qed
  obtain k "is" where k: "wp_page wp = InitPage k is" using wp by (cases "wp_page wp") auto
  have a: "pg_add_ok ops (map sz is) (sz x)" "off = of_nat (length is + 1)" "wp' = wp\<lparr>wp_page := push_item x (wp_page wp)\<rparr>"
    using add k by (auto simp: add_item_unchecked_Inr items_of_def)
  have "length is < MaxOffsetNumber" using add_count [OF a(1)] by simp
  then show ?thesis
    by (rule that [of rel0 "is" k, rotated 3]) (use wp k a out in \<open>auto simp: commit_def push_item_def items_of_def\<close>)
qed

lemma tape_write_rows:
  assumes run: "tape_write ops sz rel self x = Inr (p, self', rel')" and short: "blocks_left rel"
  shows "item_at rel' q = (if q = p then Some x else item_at rel q)"
    and "length rel' \<le> Suc (length rel)" and "block_number p \<noteq> InvalidBlockNumber"
    and "rel_inv rel \<Longrightarrow> rel_inv rel'" and "tape_inv rel self \<Longrightarrow> tape_inv rel' self' \<and> t_page_type self' = t_page_type self"
    and "pg \<in> set rel' \<Longrightarrow> n \<in> set (items_of pg) \<Longrightarrow> n = x \<or> (\<exists>pg \<in> set rel. n \<in> set (items_of pg))"
proof -
  obtain rel0 k "is" where s: "rel0 = rel \<or> rel0 = rel @ [NewPage] \<and> blocks_left rel" "unat (block_number p) < length rel0"
    "items_of (rel0 ! unat (block_number p)) = is" "length is < MaxOffsetNumber"
    "rel' = rel0[unat (block_number p) := InitPage k (is @ [x])]" "offset p = of_nat (length is + 1)"
    "self' = self \<and> rel0 = rel \<and> block_number p = t_current self \<and> rel ! unat (t_current self) = InitPage k is \<or>
     self' = self\<lparr>t_current := block_number p\<rparr> \<and> k = tsv_opaque_new (t_page_type self)"
    "\<not> is_chained (t_page_type self)"
    by (rule tape_write_shape [OF run])
  have old: "item_at rel0 q = item_at rel q" for q using s(1) item_at_new_page [of NewPage rel] by (auto simp: items_of_def)
  have "p = ItemPointer (block_number p) (of_nat (length is + 1))" using s(6) by (cases p) simp
  then show "item_at rel' q = (if q = p then Some x else item_at rel q)"
    using item_at_push [OF s(2-4), of k x q] old s(5) by simp
  show l: "length rel' \<le> Suc (length rel)" using s(1, 5) by auto
  have "unat (block_number p) < 2 ^ 32 - 1" using s(1, 2) short by (auto simp: blocks_left_def)
  then show "block_number p \<noteq> InvalidBlockNumber" by (auto simp: InvalidBlockNumber_def)
  show "rel_inv rel'" if "rel_inv rel"
  proof -
    have "rel_inv rel0" using that s(1) rel_inv_append_new [of rel] by auto
    moreover have "\<exists>t. k = tsv_opaque_new t"
      using s(2, 7) rel_inv_nth [OF that, of "unat (t_current self)"] by (auto simp: page_inv_def)
    then have "page_inv (InitPage k (is @ [x]))" using s(4) by (auto simp: page_inv_def)
    ultimately show ?thesis
      unfolding s(5) rel_inv_def by (auto dest!: set_update_subset_insert [THEN subsetD])
  qed
  show "tape_inv rel' self' \<and> t_page_type self' = t_page_type self" if "tape_inv rel self"
    using s(2, 5, 7, 8) that by (auto simp: tape_inv_def)
  have sub: "\<exists>pg \<in> set rel. n \<in> set (items_of pg)" if "pg \<in> set rel0" "n \<in> set (items_of pg)" for pg n
    using that s(1) by auto
  assume pg: "pg \<in> set rel'" "n \<in> set (items_of pg)"
  then consider "pg \<in> set rel0" | "pg = InitPage k (is @ [x])"
    using set_update_subset_insert [of rel0] s(5) by blast
  then show "n = x \<or> (\<exists>pg \<in> set rel. n \<in> set (items_of pg))"
  proof cases
    case 1
    then show ?thesis using pg(2) sub by blast
  next
    case 2
    then have "n = x \<or> n \<in> set (items_of (rel0 ! unat (block_number p)))" using pg(2) s(3) by (auto simp: items_of_def)
    then show ?thesis using sub nth_mem [OF s(2)] by blast
  qed
qed

lemma tape_write_fresh:
  assumes run: "tape_write ops sz rel self x = Inr (p, self', rel')" and short: "blocks_left rel"
  shows "item_at rel p = None"
proof -
  obtain rel0 k "is" where s: "rel0 = rel \<or> rel0 = rel @ [NewPage] \<and> blocks_left rel"
    "items_of (rel0 ! unat (block_number p)) = is" "length is < MaxOffsetNumber" "offset p = of_nat (length is + 1)"
    by (rule tape_write_shape [OF run])
  have "unat (offset p) = Suc (length is)" using s(3, 4) by (simp add: unat_of_nat MaxOffsetNumber_def del: of_nat_Suc)
  then have "item_at rel0 p = None" using s(2) by (simp add: item_at_def get_item_unchecked_def)
  then show ?thesis using s(1) item_at_new_page [of NewPage rel p] by auto
qed

end

text \<open>A tape that is opened or resumed finds or adds an empty page.\<close>

lemma tape_new_rows:
  assumes "tape_new rel t = Inr (tp, rel')" "rel_inv rel"
  shows "tape_inv rel' tp \<and> t_page_type tp = t \<and> rel' = rel @ [InitPage (tsv_opaque_new t) []]"
proof -
  have "blocks_left rel" "rel' = (rel @ [NewPage])[unat (of_nat (length rel) :: block_number) := InitPage (tsv_opaque_new t) []]"
    using assms(1) by (auto simp: tape_new_def writable_new_Inr commit_def)
  then show ?thesis using tape_new_facts [OF assms] unat_length_rel [of rel] by simp
qed

lemma tape_resume_rows:
  assumes "tape_resume rel t = Inr (tp, rel')" "rel_inv rel"
  shows "tape_inv rel' tp \<and> t_page_type tp = t \<and> (rel' = rel \<or> rel' = rel @ [InitPage (tsv_opaque_new t) []])"
proof -
  from assms(1) obtain r where nc: "\<not> is_chained t" and r: "find_newest rel t (length rel) = Inr r"
    and k: "(case r of Some c \<Rightarrow> Inr (\<lparr>t_page_type = t, t_current = c\<rparr>, rel) | None \<Rightarrow> tape_new rel t) = Inr (tp, rel')"
    by (auto simp: tape_resume_def)
  note f = find_newest_facts [OF r order_refl assms(2)]
  show ?thesis
  proof (cases r)
    case None
    then show ?thesis using k tape_new_rows [OF _ assms(2)] by simp
  next
    case (Some c)
    then show ?thesis using k f nc by (auto simp: tape_inv_def)
  qed
qed

section \<open>The contract of creation\<close>

text \<open>
  A storage that creates nodes: \<open>pt\<close> is the type of its pages and \<open>new_node\<close> the node it makes of a
  vector, labels and the pointer of the table row. Adding an empty page, and a node that did not
  exist, keeps the storage well formed.
\<close>

locale node_storage = row_storage S winv dist_at adj k lops lsn_ok row
  for S :: "('n, 'd, 'q, 'pd) storage" and winv dist_at adj k and lops :: builder_ops and lsn_ok and row :: "'n \<Rightarrow> 'r" +
  fixes pt :: page_type and new_node :: "f32 list \<Rightarrow> label_set option \<Rightarrow> heap_pointer \<Rightarrow> 'n res"
  assumes winv_rel: "winv w \<Longrightarrow> rel_inv (w_rel w)"
    and new_page: "winv w \<Longrightarrow> blocks_left (w_rel w) \<Longrightarrow> winv (w\<lparr>w_rel := w_rel w @ [InitPage (tsv_opaque_new pt) []]\<rparr>)"
    and create_node_fuel: "s_create_node S pg_page_8k v ls hp tp w \<noteq> Inl OutOfFuel"
    and create_node: "winv w \<Longrightarrow> tape_inv (w_rel w) tp \<Longrightarrow> t_page_type tp = pt \<Longrightarrow> blocks_left (w_rel w) \<Longrightarrow>
      s_create_node S pg_page_8k v ls hp tp w = Inr (ip, tp', w') \<Longrightarrow>
      winv w' \<and> tape_inv (w_rel w') tp' \<and> t_page_type tp' = pt \<and> w_others w' = w_others w \<and>
      block_number ip \<noteq> InvalidBlockNumber \<and> length (w_rel w') \<le> Suc (length (w_rel w)) \<and>
      (\<exists>n. new_node v ls hp = Inr n \<and> rows_at row (w_rel w) ip = None \<and>
        rows_at row (w_rel w') = (rows_at row (w_rel w))(ip \<mapsto> row n))"

text \<open>The part that is the same for both storages.\<close>

lemma tape_write_fuel [no_fuel]: "tape_write ops sz rel self x \<noteq> Inl OutOfFuel"
proof -
  have "writable_new rel t \<noteq> Inl OutOfFuel" for rel :: "'a relation" and t
    unfolding writable_new_def by (intro no_fuel)
  moreover have "add_item_unchecked ops sz x wp \<noteq> Inl OutOfFuel" for wp
    unfolding add_item_unchecked_def Let_def by (intro no_fuel)
  ultimately show ?thesis unfolding tape_write_def Let_def by (intro no_fuel)
qed

lemma node_write_fuel [no_fuel]: "node_write ops sz n tp w \<noteq> Inl OutOfFuel"
  unfolding node_write_def by (intro no_fuel)

lemma node_write_rows:
  assumes run: "node_write pg_page_8k sz n tp w = Inr (ip, tp', w')"
    and w: "node_world slots k core w" and t: "tape_inv (w_rel w) tp" and short: "blocks_left (w_rel w)"
    and n: "length (slots n) = k"
  shows "node_world slots k core w' \<and> tape_inv (w_rel w') tp' \<and> t_page_type tp' = t_page_type tp \<and> w_others w' = w_others w \<and>
    w_cache w' = w_cache w \<and> block_number ip \<noteq> InvalidBlockNumber \<and> length (w_rel w') \<le> Suc (length (w_rel w)) \<and>
    item_at (w_rel w) ip = None \<and> (\<forall>q. item_at (w_rel w') q = (if q = ip then Some n else item_at (w_rel w) q))"
proof -
  obtain rel where tw: "tape_write pg_page_8k sz (w_rel w) tp n = Inr (ip, tp', rel)" and w': "w' = count record_write (w\<lparr>w_rel := rel\<rparr>)"
    using run by (auto simp: node_write_def)
  note f = pg8k.tape_write_rows [OF tw short]
  have ok: "rel_inv (w_rel w)" "nodes_ok slots k (w_rel w)" using w by (simp_all add: node_world_def others_ok_def)
  have "nodes_ok slots k rel"
    unfolding nodes_ok_def
  proof (intro ballI)
    fix pg m assume "pg \<in> set rel" "m \<in> set (items_of pg)"
    from f(6) [OF this] show "length (slots m) = k" using n ok(2) by (auto simp: nodes_ok_def)
  qed
  then have "node_world slots k core w'"
    using w f(4) [OF ok(1)] by (simp add: w' node_world_def others_ok_def)
  moreover have "item_at (w_rel w) ip = None" using pg8k.tape_write_fresh [OF tw short] .
  ultimately show ?thesis using f(1-3) f(5) [OF t] by (simp add: w')
qed

lemma node_world_new_page:
  assumes "node_world slots k core w" "blocks_left (w_rel w)"
  shows "node_world slots k core (w\<lparr>w_rel := w_rel w @ [InitPage (tsv_opaque_new pt) []]\<rparr>)"
  using assms by (auto simp: node_world_def others_ok_def nodes_ok_def rel_inv_def page_inv_def blocks_left_def items_of_def)

lemma rows_at_insert:
  assumes "item_at rel ip = None" "\<forall>q. item_at rel' q = (if q = ip then Some n else item_at rel q)"
  shows "rows_at row rel ip = None" "rows_at row rel' = (rows_at row rel)(ip \<mapsto> row n)"
  using assms by (auto simp: rows_at_def fun_eq_iff)

section \<open>The plain storage\<close>

abbreviation plain_row :: "plain_node \<Rightarrow> heap_pointer \<times> f32 list" where
  "plain_row n \<equiv> (p_heap n, p_vector n)"

interpretation plain_row_disk: row_disk "plain_disk s" "plain_world s" "plain_dist_at s" "adj_at plain_iter_neighbors" "ps_num_neighbors s"
  lru_list plain_row for s
proof
  fix w w' :: "plain_node world" and ns p expected ok
  assume "st_try_set (plain_disk s) p expected ns w = Inr (ok, w')"
  then have "try_set_neighbors_with plain_iter_neighbors plain_set_neighbors (ps_num_neighbors s) p expected ns w = Inr (ok, w')"
    by (simp add: plain_disk_def)
  from plain.try_set_rows [OF this] show "same_rows plain_row (w_rel (interfere w)) (w_rel w')" .
qed

lemma plain_lsn_moved:
  assumes run: "plain_lsn s lru_list l ip g w = Inr (n, g', w')" and w: "plain_world s w" "gns_ok g"
  shows "moved plain_row w w'"
proof -
  obtain node w1 query q dist where r: "node_read ip w = Inr (node, w1)"
    and c: "plain_calculate_distance s q (p_vector node) w1 = Inr (dist, count record_full_distance_comparison w1)"
    using run by (auto simp: plain_lsn_def plain_calculate_distance_def)
  let ?w1 = "count record_full_distance_comparison w1"
  have s1: "same_disk w ?w1" using node_read_same [OF r] by (simp add: same_disk_def)
  then have w1: "plain_world s ?w1" using node_world_same w(1) by blast
  show ?thesis
  proof (cases g)
    case DiskStore
    then have "w' = ?w1" using run r by (auto simp: plain_lsn_def plain_calculate_distance_def Let_def)
    then show ?thesis using moved_same [OF s1] by simp
  next
    case (BuilderStore b)
    then obtain ns b' where g: "builder_get_neighbors_with_distances lru_list (plain_disk s) b ip ?w1 = Inr (ns, b', w')"
      using run r by (auto simp: plain_lsn_def plain_calculate_distance_def builder_get_neighbors_def Let_def)
    have "builder_ok b" using w(2) BuilderStore by (simp add: gns_ok_def)
    from plain_row_disk.builder_get_moved [OF g this w1] show ?thesis using moved_trans [OF moved_same [OF s1]] by blast
  qed
qed

lemma plain_visit_loop_moved:
  assumes "rfold (plain_visit_neighbor s lru_list) ips (l, g, w) = Inr (l', g', w')" "plain_world s w" "gns_ok g"
  shows "moved plain_row w w'"
  using assms
proof (induction ips arbitrary: l g w)
  case (Cons ip ips)
  then obtain l1 g1 w1 where st: "plain_visit_neighbor s lru_list ip (l, g, w) = Inr (l1, g1, w1)"
    and rest: "rfold (plain_visit_neighbor s lru_list) ips (l1, g1, w1) = Inr (l', g', w')" by auto
  obtain new l0 where p: "prepare_insert l ip = (new, l0)" by force
  have "moved plain_row w w1"
  proof (cases new)
    case False
    then show ?thesis using st p by (simp add: plain_visit_neighbor_def)
  next
    case True
    with p st obtain n w0 where n: "plain_lsn s lru_list l0 ip g w = Inr (n, g1, w0)" and i: "insert_neighbor n l0 w0 = (l1, w1)"
      by (auto simp: plain_visit_neighbor_def Let_def case_prod_beta prod_eq_iff)
    show ?thesis using plain_lsn_moved [OF n Cons.prems(2,3)] i by (auto simp: insert_neighbor_def)
  qed
  moreover have "plain_world s w1" "gns_ok g1"
    using plain_visit_neighbor_facts [OF st Cons.prems(2,3)] store_kept_gns_ok by blast+
  ultimately show ?case using Cons.IH [OF rest] moved_trans by blast
qed simp

interpretation plain_nodes: node_storage "plain_storage_ops s" "plain_world s" "plain_dist_at s" "adj_at plain_iter_neighbors" "ps_num_neighbors s"
  lru_list plain_lsn_ok plain_row Node "\<lambda>v ls hp. Inr (plain_node_new_for_full_vector v hp (ps_num_neighbors s))" for s
proof -
  have d: "s_disk (plain_storage_ops s) = plain_disk s" by (simp add: plain_storage_ops_def)
  show "node_storage (plain_storage_ops s) (plain_world s) (plain_dist_at s) (adj_at plain_iter_neighbors) (ps_num_neighbors s) lru_list plain_lsn_ok
    plain_row Node (\<lambda>v ls hp. Inr (plain_node_new_for_full_vector v hp (ps_num_neighbors s)))"
  proof (intro node_storage.intro node_storage_axioms.intro row_storage.intro row_storage_axioms.intro)
    show "search_storage (plain_storage_ops s) (plain_world s) (plain_dist_at s) (adj_at plain_iter_neighbors) (ps_num_neighbors s) lru_list plain_lsn_ok"
      by unfold_locales
    show "row_disk (s_disk (plain_storage_ops s)) (plain_world s) (plain_dist_at s) (adj_at plain_iter_neighbors) (ps_num_neighbors s) lru_list plain_row"
      unfolding d by unfold_locales
    fix w w' :: "plain_node world" and g g' l l' ip n i nf v ls hp tp tp'
    show "s_create_node (plain_storage_ops s) pg_page_8k v ls hp tp w \<noteq> Inl OutOfFuel"
      unfolding plain_storage_ops_def storage.simps plain_create_node_def by (intro no_fuel)
    assume w: "plain_world s w"
    show "rel_inv (w_rel w)" using w by (simp add: node_world_def others_ok_def)
    show "plain_world s (w\<lparr>w_rel := w_rel w @ [InitPage (tsv_opaque_new Node) []]\<rparr>)" if "blocks_left (w_rel w)"
      using node_world_new_page [OF w that] .
    show "plain_world s w' \<and> tape_inv (w_rel w') tp' \<and> t_page_type tp' = Node \<and> w_others w' = w_others w \<and>
      block_number ip \<noteq> InvalidBlockNumber \<and> length (w_rel w') \<le> Suc (length (w_rel w)) \<and>
      (\<exists>n. Inr (plain_node_new_for_full_vector v hp (ps_num_neighbors s)) = (Inr n :: _ res) \<and> rows_at plain_row (w_rel w) ip = None \<and>
        rows_at plain_row (w_rel w') = (rows_at plain_row (w_rel w))(ip \<mapsto> plain_row n))"
      if t: "tape_inv (w_rel w) tp" "t_page_type tp = Node" "blocks_left (w_rel w)"
        and run: "s_create_node (plain_storage_ops s) pg_page_8k v ls hp tp w = Inr (ip, tp', w')"
    proof -
      let ?n = "plain_node_new_for_full_vector v hp (ps_num_neighbors s)"
      have nw: "node_write pg_page_8k (ps_node_size s) ?n tp w = Inr (ip, tp', w')"
        using run by (simp add: plain_storage_ops_def plain_create_node_def)
      have "length (p_neighbors ?n) = ps_num_neighbors s" by (simp add: plain_node_new_for_full_vector_def)
      note f = node_write_rows [OF nw w t(1, 3) this]
      then have "item_at (w_rel w) ip = None" "\<forall>q. item_at (w_rel w') q = (if q = ip then Some ?n else item_at (w_rel w) q)" by blast+
      from rows_at_insert [OF this, where row = plain_row] f t(2) show ?thesis by auto
    qed
    assume g: "gns_ok g"
    show "moved plain_row w w'" if "s_create_lsn (plain_storage_ops s) lru_list l ip g w = Inr (n, l', g', w')"
      using that plain_lsn_moved [OF _ w g]
      by (auto simp: plain_storage_ops_def plain_create_lsn_for_start_node_def split: prod.splits bool.splits)
    show "moved plain_row w w'" if "s_visit_lsn (plain_storage_ops s) lru_list l i g nf w = Inr (l', g', w')"
      using that plain_visit_loop_moved [OF _ w g]
      by (auto simp: plain_storage_ops_def plain_visit_lsn_def)
  qed
qed

section \<open>The SBQ storage\<close>

abbreviation sbq_row :: "sbq_node \<Rightarrow> heap_pointer \<times> 64 word list \<times> label_set option" where
  "sbq_row n \<equiv> (sbq_heap_item_pointer n, sbq_core n)"

text \<open>The node that the storage makes.\<close>

definition sbq_new_node :: "sbq_storage \<Rightarrow> f32 list \<Rightarrow> label_set option \<Rightarrow> heap_pointer \<Rightarrow> sbq_node res" where
  "sbq_new_node s v ls hp =
     rbind (vector_for_new_node (sq_quantizer s) v) (\<lambda>bq. Inr (sbq_node_new hp (sq_num_neighbors s) (sq_has_labels s) bq ls))"

sublocale sbq_env \<subseteq> row_disk "sbq_disk s" "sbq_world s" sbq_dist_at "adj_at sbq_iter_neighbors" "sq_num_neighbors s" lops sbq_row
proof
  fix w w' :: "sbq_node world" and ns p expected ok
  assume "st_try_set (sbq_disk s) p expected ns w = Inr (ok, w')"
  then have "try_set_neighbors_with sbq_iter_neighbors sbq_set_neighbors (sq_num_neighbors s) p expected ns w = Inr (ok, w')"
    by (simp add: sbq_disk_def)
  from graph_node.try_set_rows [OF sbq_graph_node this] show "same_rows sbq_row (w_rel (interfere w)) (w_rel w')" .
qed

context sbq_env
begin

lemma sbq_visit_moved:
  assumes run: "sbq_visit_lsn_internal s lops l ip g nf w = Inr (l', g', w')" and w: "sbq_world s w" "gns_ok g"
  shows "moved sbq_row w w'"
proof (cases g)
  case DiskStore
  then have "same_disk w w'" using sbq_visit_facts [OF run w] by (simp add: store_kept_def)
  then show ?thesis by (rule moved_same)
next
  case (BuilderStore b)
  with run obtain ns b' w1 where r: "builder_get_neighbors_with_distances lops (sbq_disk s) b ip w = Inr (ns, b', w1)"
    and f: "rfold (sbq_visit_builder s nf) ns (l, w1) = Inr (l', w')"
    by (auto simp: sbq_visit_lsn_internal_def)
  have b: "builder_ok b" using w(2) BuilderStore by (simp add: gns_ok_def)
  have w1: "sbq_world s w1" using builder_get_facts [OF r b w(1)] by blast
  have "\<forall>x l w l' w'. sbq_visit_builder s nf x (l, w) = Inr (l', w') \<longrightarrow> sbq_world s w \<longrightarrow>
      sbq_world s w' \<and> same_disk w w' \<and> sbq_visited (n_index_pointer x) l l'"
    using sbq_visit_builder_facts by blast
  from visit_loop(1) [OF f w1 this] have "same_disk w1 w'" by blast
  from moved_trans [OF builder_get_moved [OF r b w(1)] moved_same [OF this]] show ?thesis .
qed

lemma sbq_create_moved:
  assumes run: "sbq_create_lsn_for_start_node s lops l ip g w = Inr (n, l', g', w')"
  shows "moved sbq_row w w'"
proof -
  have "calculate_bq_distance q v u = Inr (d, u') \<Longrightarrow> same_disk u u'" for q v u d u'
    by (auto simp: calculate_bq_distance_def Let_def)
  moreover have "sbq_read s ip u = Inr (m, u') \<Longrightarrow> same_disk u u'" for u m u'
    by (drule sbq_read_same) simp
  ultimately have "same_disk w w'"
    using run unfolding sbq_create_lsn_for_start_node_def
    by (auto split: prod.splits bool.splits) (blast intro: same_disk_trans)
  then show ?thesis by (rule moved_same)
qed

end

lemma vector_for_new_node_fuel [no_fuel]: "vector_for_new_node q v \<noteq> Inl OutOfFuel"
  unfolding vector_for_new_node_def quantize_def set_bit_at_def index_f32_def Let_def by (intro no_fuel)

sublocale sbq_env \<subseteq> nodes: node_storage "sbq_storage_ops s" "sbq_world s" sbq_dist_at "adj_at sbq_iter_neighbors" "sq_num_neighbors s"
  lops sbq_lsn_ok sbq_row SbqNode "sbq_new_node s"
proof -
  have d: "s_disk (sbq_storage_ops s) = sbq_disk s" by (simp add: sbq_storage_ops_def)
  show "node_storage (sbq_storage_ops s) (sbq_world s) sbq_dist_at (adj_at sbq_iter_neighbors) (sq_num_neighbors s) lops sbq_lsn_ok
    sbq_row SbqNode (sbq_new_node s)"
  proof (intro node_storage.intro node_storage_axioms.intro row_storage.intro row_storage_axioms.intro)
    show "search_storage (sbq_storage_ops s) (sbq_world s) sbq_dist_at (adj_at sbq_iter_neighbors) (sq_num_neighbors s) lops sbq_lsn_ok"
      by (rule search.search_storage_axioms)
    show "row_disk (s_disk (sbq_storage_ops s)) (sbq_world s) sbq_dist_at (adj_at sbq_iter_neighbors) (sq_num_neighbors s) lops sbq_row"
      unfolding d by (rule row_disk_axioms)
    fix w w' :: "sbq_node world" and g g' l l' ip n i nf v ls hp tp tp'
    show "s_create_node (sbq_storage_ops s) pg_page_8k v ls hp tp w \<noteq> Inl OutOfFuel"
      unfolding sbq_storage_ops_def storage.simps sbq_create_node_def by (intro no_fuel)
    assume w: "sbq_world s w"
    then have nw: "node_world sbq_slots (sq_num_neighbors s) sbq_core w" and co: "qv_coherent w" by (simp_all add: sbq_world_def)
    show "rel_inv (w_rel w)" using nw by (simp add: node_world_def others_ok_def)
    show "sbq_world s (w\<lparr>w_rel := w_rel w @ [InitPage (tsv_opaque_new SbqNode) []]\<rparr>)" if "blocks_left (w_rel w)"
      using node_world_new_page [OF nw that] co by (simp add: sbq_world_def qv_coherent_def item_at_new_page items_of_def)
    show "sbq_world s w' \<and> tape_inv (w_rel w') tp' \<and> t_page_type tp' = SbqNode \<and> w_others w' = w_others w \<and>
      block_number ip \<noteq> InvalidBlockNumber \<and> length (w_rel w') \<le> Suc (length (w_rel w)) \<and>
      (\<exists>n. sbq_new_node s v ls hp = Inr n \<and> rows_at sbq_row (w_rel w) ip = None \<and>
        rows_at sbq_row (w_rel w') = (rows_at sbq_row (w_rel w))(ip \<mapsto> sbq_row n))"
      if t: "tape_inv (w_rel w) tp" "t_page_type tp = SbqNode" "blocks_left (w_rel w)"
        and run: "s_create_node (sbq_storage_ops s) pg_page_8k v ls hp tp w = Inr (ip, tp', w')"
    proof -
      obtain bq w1 where bq: "vector_for_new_node (sq_quantizer s) v = Inr bq"
        and wr: "node_write pg_page_8k (sq_node_size s) (sbq_node_new hp (sq_num_neighbors s) (sq_has_labels s) bq ls) tp w = Inr (ip, tp', w1)"
        and w': "w' = qv_remember s ip bq w1"
        using run by (auto simp: sbq_storage_ops_def sbq_create_node_def)
      let ?n = "sbq_node_new hp (sq_num_neighbors s) (sq_has_labels s) bq ls"
      have n: "length (sbq_slots ?n) = sq_num_neighbors s" "sbq_bq_vector ?n = bq" by (simp_all add: sbq_node_new_def Let_def)
      note f = node_write_rows [OF wr nw t(1, 3) n(1)]
      then have it: "item_at (w_rel w) ip = None" "\<forall>q. item_at (w_rel w1) q = (if q = ip then Some ?n else item_at (w_rel w) q)" by blast+
      have "qv_coherent w1" unfolding qv_coherent_def
      proof (intro allI impI conjI)
        fix c assume c: "w_cache w1 = Some c"
        then have cw: "w_cache w = Some c" using f by simp
        show "lru_inv c" using co cw by (simp add: qv_coherent_def)
        fix p x assume "lru_lookup c p = Some x"
        then obtain m where m: "item_at (w_rel w) p = Some m" "sbq_bq_vector m = x" using co cw by (auto simp: qv_coherent_def)
        then have "p \<noteq> ip" using it(1) by auto
        then show "\<exists>m. item_at (w_rel w1) p = Some m \<and> sbq_bq_vector m = x" using it(2) m by simp
      qed
      then have "sbq_world s w1" using f by (simp add: sbq_world_def)
      from qv_remember_facts [OF this _ n(2), of ip] it(2) have "sbq_world s w' \<and> same_disk w1 w'" by (simp add: w')
      moreover have "sbq_new_node s v ls hp = Inr ?n" by (simp add: sbq_new_node_def bq)
      ultimately show ?thesis
        using rows_at_insert [OF it, where row = sbq_row] f t(2) by (auto simp: same_disk_def)
    qed
    assume g: "gns_ok g"
    show "moved sbq_row w w'" if "s_create_lsn (sbq_storage_ops s) lops l ip g w = Inr (n, l', g', w')"
      using that sbq_create_moved by (auto simp: sbq_storage_ops_def)
    show "moved sbq_row w w'" if "s_visit_lsn (sbq_storage_ops s) lops l i g nf w = Inr (l', g', w')"
      using that sbq_visit_moved [OF _ w g] by (auto simp: sbq_storage_ops_def sbq_visit_lsn_def)
  qed
qed

end
