(* ===== verification/Vector_Datum.thy ===== *)
theory Vector_Datum
  imports Search_Storage Meta_Page
begin

text \<open>
  \<open>pg_vector.rs\<close> and \<open>LabeledVector\<close> of \<open>labels/mod.rs\<close>: vectors as the index gets them from
  PostgreSQL, in memory that it frees itself.

  The two pointers of a \<open>PgVector\<close> may be the same; two flags say which of them \<open>drop\<close> frees. The
  memory is an explicit store, from addresses to the vectors allocated there. \<open>palloc\<close> is a parameter,
  which returns an address that no live allocation has. A datum is given by what it detoasts to;
  \<open>pg_detoast_datum_copy\<close> always copies, which is what the code asserts. A freed or unknown address,
  and a slice that exceeds its allocation, is an error of the model.
\<close>

section \<open>Memory\<close>

text \<open>\<open>PgVectorInternal\<close>; \<open>vi_x\<close> are the floats for which there is room.\<close>

record vector_internal =
  vi_vl_len :: "32 word"
  vi_dim :: "16 word"
  vi_unused :: "16 word"
  vi_x :: "f32 list"

type_synonym memory = "(nat \<times> vector_internal) list"
type_synonym allocator = "memory \<Rightarrow> nat"

definition alloc_ok :: "allocator \<Rightarrow> bool" where
  "alloc_ok alloc \<longleftrightarrow> (\<forall>m. alloc m \<notin> fst ` set m)"

definition palloc :: "allocator \<Rightarrow> vector_internal \<Rightarrow> memory \<Rightarrow> nat \<times> memory" where
  "palloc alloc b m = (alloc m, (alloc m, b) # m)"

definition deref :: "nat \<Rightarrow> memory \<Rightarrow> vector_internal res" where
  "deref p m = runwrap (map_of m p) ''dangling pointer''"

definition assign :: "nat \<Rightarrow> vector_internal \<Rightarrow> memory \<Rightarrow> memory" where
  "assign p b m = map (\<lambda>(q, c). if q = p then (q, b) else (q, c)) m"

definition pfree :: "nat \<Rightarrow> memory \<Rightarrow> memory res" where
  "pfree p m = (if p \<in> fst ` set m then Inr (filter (\<lambda>(q, _). q \<noteq> p) m) else Inl (Panic ''pfree of unallocated memory''))"

text \<open>An \<open>i16\<close> as \<open>usize\<close> is extended with its sign.\<close>

definition i16_as_usize :: "16 word \<Rightarrow> nat" where
  "i16_as_usize d = unat (scast d :: 64 word)"

definition as_slice :: "nat \<Rightarrow> f32 list \<Rightarrow> f32 list res" where
  "as_slice n x = (if n \<le> length x then Inr (take n x) else Inl (Panic ''slice exceeds the allocation''))"

definition vi_to_slice :: "vector_internal \<Rightarrow> f32 list res" where
  "vi_to_slice b = as_slice (i16_as_usize (vi_dim b)) (vi_x b)"

section \<open>Vectors\<close>

record pgv =
  pgv_index_distance :: "nat option"
  pgv_index_distance_needs_pfree :: bool
  pgv_full_distance :: "nat option"
  pgv_full_distance_needs_pfree :: bool

definition pfree_if :: "bool \<Rightarrow> nat option \<Rightarrow> memory \<Rightarrow> memory res" where
  "pfree_if needs_pfree p m = (case p of Some q \<Rightarrow> if needs_pfree then pfree q m else Inr m | None \<Rightarrow> Inr m)"

definition pgv_drop :: "pgv \<Rightarrow> memory \<Rightarrow> memory res" where
  "pgv_drop v m =
     rbind (pfree_if (pgv_index_distance_needs_pfree v) (pgv_index_distance v) m)
       (pfree_if (pgv_full_distance_needs_pfree v) (pgv_full_distance v))"

definition pgv_to_index_slice :: "pgv \<Rightarrow> memory \<Rightarrow> f32 list res" where
  "pgv_to_index_slice v m = rbind (runwrap (pgv_index_distance v) ''unwrap'') (\<lambda>p. rbind (deref p m) vi_to_slice)"

definition pgv_to_full_slice :: "pgv \<Rightarrow> memory \<Rightarrow> f32 list res" where
  "pgv_to_full_slice v m = rbind (runwrap (pgv_full_distance v) ''unwrap'') (\<lambda>p. rbind (deref p m) vi_to_slice)"

text \<open>\<open>palloc0\<close> leaves zeroes, so all that remains is the header.\<close>

definition create_zeros_inner :: "allocator \<Rightarrow> 16 word \<Rightarrow> memory \<Rightarrow> nat \<times> memory" where
  "create_zeros_inner alloc dimensions m =
     (let total_size = 8 + i16_as_usize dimensions * 4
      in palloc alloc \<lparr>vi_vl_len = of_nat total_size, vi_dim = dimensions, vi_unused = 0,
           vi_x = replicate (i16_as_usize dimensions) f32_zero\<rparr> m)"

definition zeros :: "allocator \<Rightarrow> meta_page \<Rightarrow> memory \<Rightarrow> pgv \<times> memory" where
  "zeros alloc meta m =
     (if m_num_dimensions meta = m_num_dimensions_to_index meta then
        let (inner, m) = create_zeros_inner alloc (ucast (m_num_dimensions meta)) m
        in (\<lparr>pgv_index_distance = Some inner, pgv_index_distance_needs_pfree = True,
             pgv_full_distance = Some inner, pgv_full_distance_needs_pfree = False\<rparr>, m)
      else
        let (index_inner, m) = create_zeros_inner alloc (ucast (m_num_dimensions_to_index meta)) m;
            (full_inner, m) = create_zeros_inner alloc (ucast (m_num_dimensions meta)) m
        in (\<lparr>pgv_index_distance = Some index_inner, pgv_index_distance_needs_pfree = True,
             pgv_full_distance = Some full_inner, pgv_full_distance_needs_pfree = True\<rparr>, m))"

section \<open>Datums\<close>

text \<open>A detoasted datum: its size, and the fields that lie where those of a vector would.\<close>

record vector_datum =
  vd_size :: nat
  vd_dim :: "16 word"
  vd_reserved :: "16 word"
  vd_x :: "f32 list"

text \<open>The size says how many floats follow the header.\<close>

definition varlena_ok :: "vector_datum \<Rightarrow> bool" where
  "varlena_ok d \<longleftrightarrow> length (vd_x d) = (vd_size d - 8) div 4"

definition checked_vector_dim :: "vector_datum \<Rightarrow> nat res" where
  "checked_vector_dim d = validate_vector_layout (vd_size d) (sint (vd_dim d)) (sint (vd_reserved d))"

definition create_inner :: "allocator \<Rightarrow> vector_datum \<Rightarrow> meta_page \<Rightarrow> bool \<Rightarrow> memory \<Rightarrow> (nat \<times> memory) res" where
  "create_inner alloc d meta is_index_distance m =
     (let (casted, m) = palloc alloc \<lparr>vi_vl_len = of_nat (vd_size d), vi_dim = vd_dim d, vi_unused = vd_reserved d, vi_x = vd_x d\<rparr> m
      in rbind (checked_vector_dim d) (\<lambda>dim.
         rbind (ensure_datum_dimension dim (unat (m_num_dimensions meta))) (\<lambda>_.
         rbind (deref casted m) (\<lambda>b.
         rbind (if is_index_distance \<and> m_num_dimensions meta \<noteq> m_num_dimensions_to_index meta then
                  rbind (rassert (sint (ucast (m_num_dimensions_to_index meta) :: 16 word) < sint (vi_dim b)) ''assertion failed'') (\<lambda>_.
                  Inr (b\<lparr>vi_dim := ucast (m_num_dimensions_to_index meta)\<rparr>))
                else Inr b) (\<lambda>b.
         rbind (vi_to_slice b) (\<lambda>raw_slice.
         rbind (meta_distance_type meta) (\<lambda>distance.
         let b = (if distance = Cosine then b\<lparr>vi_x := preprocess_cosine raw_slice @ drop (length raw_slice) (vi_x b)\<rparr> else b)
         in Inr (casted, assign casted b m))))))))"

text \<open>The pointer of a part that may be left out.\<close>

definition create_if :: "allocator \<Rightarrow> vector_datum \<Rightarrow> meta_page \<Rightarrow> bool \<Rightarrow> bool \<Rightarrow> memory \<Rightarrow> (nat option \<times> memory) res" where
  "create_if alloc d meta is_index_distance wanted m =
     (if wanted then rbind (create_inner alloc d meta is_index_distance m) (\<lambda>(p, m). Inr (Some p, m)) else Inr (None, m))"

definition from_datum :: "allocator \<Rightarrow> vector_datum option \<Rightarrow> meta_page \<Rightarrow> bool \<Rightarrow> bool \<Rightarrow> memory \<Rightarrow> (pgv \<times> memory) res" where
  "from_datum alloc datum meta want_index want_full m =
     rbind (runwrap datum ''Datum should not be NULL'') (\<lambda>d.
     if m_num_dimensions meta = m_num_dimensions_to_index meta then
       rbind (create_inner alloc d meta True m) (\<lambda>(inner, m).
       Inr (\<lparr>pgv_index_distance = Some inner, pgv_index_distance_needs_pfree = True,
             pgv_full_distance = Some inner, pgv_full_distance_needs_pfree = False\<rparr>, m))
     else
       rbind (create_if alloc d meta True want_index m) (\<lambda>(idx, m).
       rbind (create_if alloc d meta False want_full m) (\<lambda>(full, m).
       Inr (\<lparr>pgv_index_distance = idx, pgv_index_distance_needs_pfree = True,
             pgv_full_distance = full, pgv_full_distance_needs_pfree = True\<rparr>, m))))"

definition from_pg_parts ::
  "allocator \<Rightarrow> vector_datum option list \<Rightarrow> bool list \<Rightarrow> nat \<Rightarrow> meta_page \<Rightarrow> bool \<Rightarrow> bool \<Rightarrow> memory \<Rightarrow> (pgv option \<times> memory) res" where
  "from_pg_parts alloc datums isnulls index meta want_index want_full m =
     (if isnulls ! index then Inr (None, m)
      else rbind (from_datum alloc (datums ! index) meta want_index want_full m) (\<lambda>(v, m). Inr (Some v, m)))"

section \<open>Cloning\<close>

definition clone_inner :: "allocator \<Rightarrow> nat \<Rightarrow> memory \<Rightarrow> (nat \<times> memory) res" where
  "clone_inner alloc original m =
     rbind (deref original m) (\<lambda>b.
     rbind (vi_to_slice b) (\<lambda>slice.
     Inr (palloc alloc \<lparr>vi_vl_len = vi_vl_len b, vi_dim = vi_dim b, vi_unused = vi_unused b, vi_x = slice\<rparr> m)))"

definition pgv_clone :: "allocator \<Rightarrow> pgv \<Rightarrow> memory \<Rightarrow> (pgv \<times> memory) res" where
  "pgv_clone alloc v m =
     rbind (case pgv_index_distance v of
              None \<Rightarrow> Inr (None, m)
            | Some original \<Rightarrow> rbind (clone_inner alloc original m) (\<lambda>(p, m). Inr (Some p, m))) (\<lambda>(index_distance, m).
     rbind (case pgv_full_distance v of
              None \<Rightarrow> Inr (None, m)
            | Some original \<Rightarrow>
                if pgv_index_distance v = Some original then Inr (index_distance, m)
                else rbind (clone_inner alloc original m) (\<lambda>(p, m). Inr (Some p, m))) (\<lambda>(full_distance, m).
     Inr (\<lparr>pgv_index_distance = index_distance, pgv_index_distance_needs_pfree = index_distance \<noteq> None,
           pgv_full_distance = full_distance,
           pgv_full_distance_needs_pfree = full_distance \<noteq> None \<and> full_distance \<noteq> index_distance\<rparr>, m)))"

section \<open>Labeled vectors\<close>

text \<open>\<open>LabeledVector::from_datums\<close>: the attributes of a row, the vector and the array of labels, if the index has one.\<close>

definition lv_from_datums ::
  "allocator \<Rightarrow> vector_datum option list \<Rightarrow> bool list \<Rightarrow> label option list option \<Rightarrow> meta_page \<Rightarrow> memory
     \<Rightarrow> ((pgv \<times> label_set option) option \<times> memory) res" where
  "lv_from_datums alloc datums isnulls arr meta m =
     rbind (from_pg_parts alloc datums isnulls 0 meta True False m) (\<lambda>(v, m).
     Inr (map_option (\<lambda>v. (v, labels_from_datum (m_has_labels meta) arr)) v, m))"

text \<open>\<open>LabeledVector::from_scan_key_data\<close>: the argument of the first \<open>ORDER BY\<close>, and of the first key, if any.\<close>

definition lv_from_scan_key_data ::
  "allocator \<Rightarrow> label option list option list \<Rightarrow> vector_datum option list \<Rightarrow> meta_page \<Rightarrow> memory
     \<Rightarrow> ((pgv \<times> label_set option) \<times> memory) res" where
  "lv_from_scan_key_data alloc keys orderbys meta m =
     (case orderbys of
        [] \<Rightarrow> Inl (Panic ''index out of bounds'')
      | None # _ \<Rightarrow> let (v, m) = zeros alloc meta m in Inr ((v, None), m)
      | Some datum # _ \<Rightarrow>
          rbind (from_datum alloc (Some datum) meta True True m) (\<lambda>(query, m).
          rbind (case keys of [] \<Rightarrow> Inr None
                 | key # _ \<Rightarrow> rbind (runwrap key ''unwrap'') (\<lambda>arr. Inr (labels_from_scan_keys [arr]))) (\<lambda>labels.
          Inr ((query, labels), m))))"

section \<open>Memory lemmas\<close>

lemma map_of_append: "p \<notin> fst ` set bs \<Longrightarrow> map_of (bs @ m) p = map_of m p"
  by (induction bs) auto

lemma map_of_append_in: "p \<in> fst ` set bs \<Longrightarrow> map_of (bs @ m) p = map_of bs p"
  by (induction bs) auto

lemma deref_append: "p \<notin> fst ` set bs \<Longrightarrow> deref p (bs @ m) = deref p m"
  by (drule map_of_append [where m = m]) (simp only: deref_def)

lemma deref_filter: "p \<notin> S \<Longrightarrow> deref p (filter (\<lambda>(q, _). q \<notin> S) m) = deref p m"
  unfolding deref_def by (induction m) (auto split: if_splits)

lemma assign_fresh: "p \<notin> fst ` set m \<Longrightarrow> assign p b ((p, c) # m) = (p, b) # m"
  by (force simp: assign_def intro: map_idI)

lemma filter_other: "S \<inter> fst ` set m = {} \<Longrightarrow> filter (\<lambda>(q, _). q \<notin> S) m = m"
  by (rule filter_True) force

lemma filter_blocks: "fst ` set bs \<inter> fst ` set m = {} \<Longrightarrow> filter (\<lambda>(q, _). q \<notin> fst ` set bs) (bs @ m) = m"
proof -
  assume disj: "fst ` set bs \<inter> fst ` set m = {}"
  have "filter (\<lambda>(q, _). q \<notin> fst ` set bs) bs = []" by (auto simp: filter_empty_conv intro: rev_image_eqI)
  moreover have "filter (\<lambda>(q, _). q \<notin> fst ` set bs) m = m"
    using disj by (rule filter_other)
  ultimately show ?thesis by (simp only: filter_append append_Nil)
qed

text \<open>Freeing several allocations, each once.\<close>

lemma pfree_all:
  assumes "distinct ps" "set ps \<subseteq> fst ` set m"
  shows "rfold pfree ps m = Inr (filter (\<lambda>(q, _). q \<notin> set ps) m)"
  using assms
proof (induction ps arbitrary: m)
  case (Cons p ps)
  let ?m = "filter (\<lambda>(q, _). q \<noteq> p) m"
  have "set ps \<subseteq> fst ` set ?m" using Cons.prems by force
  then have "rfold pfree ps ?m = Inr (filter (\<lambda>(q, _). q \<notin> set ps) ?m)" using Cons.IH Cons.prems(1) by simp
  moreover have "filter (\<lambda>(q, _). q \<notin> set ps) ?m = filter (\<lambda>(q, _). q \<notin> set (p # ps)) m"
    by (auto simp: split_def intro: filter_cong)
  moreover have "pfree p m = Inr ?m" using Cons.prems by (simp add: pfree_def)
  ultimately show ?case by simp
next
  case Nil
  then show ?case by (simp add: split_def)
qed

section \<open>Ownership\<close>

definition pgv_freed :: "pgv \<Rightarrow> nat list" where
  "pgv_freed v =
     (case pgv_index_distance v of Some p \<Rightarrow> if pgv_index_distance_needs_pfree v then [p] else [] | None \<Rightarrow> []) @
     (case pgv_full_distance v of Some p \<Rightarrow> if pgv_full_distance_needs_pfree v then [p] else [] | None \<Rightarrow> [])"

lemma pgv_drop_eq: "pgv_drop v m = rfold pfree (pgv_freed v) m"
  by (auto simp: pgv_drop_def pgv_freed_def pfree_if_def rfold_append rbind_def split: option.splits sum.splits)

definition vi_ok :: "vector_internal \<Rightarrow> bool" where
  "vi_ok b \<longleftrightarrow> i16_as_usize (vi_dim b) \<le> length (vi_x b)"

text \<open>The vector owns the allocations \<open>bs\<close>: it points to them only, and frees each of them once.\<close>

definition pgv_owns :: "pgv \<Rightarrow> memory \<Rightarrow> memory \<Rightarrow> bool" where
  "pgv_owns v bs m \<longleftrightarrow>
     distinct (pgv_freed v) \<and> set (pgv_freed v) = fst ` set bs \<and> fst ` set bs \<inter> fst ` set m = {} \<and>
     set_option (pgv_index_distance v) \<subseteq> fst ` set bs \<and> set_option (pgv_full_distance v) \<subseteq> fst ` set bs \<and>
     (\<forall>b \<in> snd ` set bs. vi_ok b)"

lemma pgv_owns_drop:
  assumes "pgv_owns v bs m"
  shows "pgv_drop v (bs @ m) = Inr m"
proof -
  have own: "distinct (pgv_freed v)" "set (pgv_freed v) = fst ` set bs" "fst ` set bs \<inter> fst ` set m = {}"
    using assms by (simp_all add: pgv_owns_def)
  have "rfold pfree (pgv_freed v) (bs @ m) = Inr (filter (\<lambda>(q, _). q \<notin> set (pgv_freed v)) (bs @ m))"
    using own by (intro pfree_all) auto
  then show ?thesis using filter_blocks [OF own(3)] by (simp only: pgv_drop_eq own(2))
qed

text \<open>Freeing an older vector does not touch a newer one.\<close>

lemma pgv_owns_drop_older:
  assumes v: "pgv_owns v bs m" and cs: "fst ` set cs \<inter> fst ` set (bs @ m) = {}"
  shows "pgv_drop v (cs @ bs @ m) = Inr (cs @ m)"
proof -
  have own: "distinct (pgv_freed v)" "set (pgv_freed v) = fst ` set bs" "fst ` set bs \<inter> fst ` set m = {}"
    using v by (simp_all add: pgv_owns_def)
  have "rfold pfree (pgv_freed v) (cs @ bs @ m) = Inr (filter (\<lambda>(q, _). q \<notin> set (pgv_freed v)) (cs @ bs @ m))"
    using own by (intro pfree_all) auto
  moreover have "filter (\<lambda>(q, _). q \<notin> fst ` set bs) cs = cs"
    using cs by (intro filter_other) auto
  ultimately show ?thesis
    using filter_blocks [OF own(3)] by (simp only: pgv_drop_eq own(2) filter_append [of _ cs])
qed

lemma pgv_slices_append:
  assumes "set_option (pgv_index_distance v) \<inter> fst ` set cs = {}" "set_option (pgv_full_distance v) \<inter> fst ` set cs = {}"
  shows "pgv_to_index_slice v (cs @ m) = pgv_to_index_slice v m"
    and "pgv_to_full_slice v (cs @ m) = pgv_to_full_slice v m"
proof -
  show "pgv_to_index_slice v (cs @ m) = pgv_to_index_slice v m"
    using assms(1) by (cases "pgv_index_distance v") (auto simp: pgv_to_index_slice_def deref_append)
  show "pgv_to_full_slice v (cs @ m) = pgv_to_full_slice v m"
    using assms(2) by (cases "pgv_full_distance v") (auto simp: pgv_to_full_slice_def deref_append)
qed

section \<open>What the constructors make\<close>

lemma i16_sint:
  assumes "0 \<le> sint d"
  shows "i16_as_usize d = nat (sint d)"
proof -
  have "sint d < 2 ^ 15" using sint_lt [of d] by simp
  then have "sint d mod 2 ^ 64 = sint d" using assms by (intro mod_pos_pos_trivial) auto
  then have "uint (word_of_int (sint d) :: 64 word) = sint d" unfolding uint_word_of_int by simp
  then show ?thesis unfolding i16_as_usize_def scast_eq unat_eq_nat_uint by simp
qed

lemma i16_of_nat:
  assumes "n < 2 ^ 15"
  shows "sint (of_nat n :: 16 word) = int n" "i16_as_usize (of_nat n) = n"
proof -
  show n: "sint (of_nat n :: 16 word) = int n"
    using assms by (simp add: signed_of_nat signed_take_bit_int_eq_self)
  show "i16_as_usize (of_nat n) = n" using i16_sint [of "of_nat n"] by (simp add: n)
qed

lemma preprocess_cosine_length [simp]: "length (preprocess_cosine x) = length x"
  by (simp add: preprocess_cosine_def split: option.splits)

lemma ucast_i16:
  assumes "unat d < 2 ^ 15"
  shows "sint (ucast d :: 16 word) = int (unat d)" "i16_as_usize (ucast d) = unat d"
  using i16_of_nat [OF assms] by simp_all

text \<open>The datum is a vector of the dimension of the index.\<close>

definition datum_fits :: "meta_page \<Rightarrow> vector_datum \<Rightarrow> bool" where
  "datum_fits meta d \<longleftrightarrow>
     sint (vd_dim d) = int (unat (m_num_dimensions meta)) \<and> vd_reserved d = 0 \<and>
     vd_size d = 8 + 4 * unat (m_num_dimensions meta)"

text \<open>What the index makes of a vector, or of the part of it that it uses.\<close>

definition prepared :: "meta_page \<Rightarrow> f32 list \<Rightarrow> f32 list" where
  "prepared meta x = (if meta_distance_type meta = Inr Cosine then preprocess_cosine x else x)"

definition dims_ok :: "meta_page \<Rightarrow> bool" where
  "dims_ok meta \<longleftrightarrow>
     is_ok (ensure_valid_dimensions (unat (m_num_dimensions meta)) (unat (m_num_dimensions_to_index meta))) \<and>
     is_ok (meta_distance_type meta)"

lemma dims_okD:
  assumes "dims_ok meta"
  shows "1 \<le> unat (m_num_dimensions meta)" "unat (m_num_dimensions meta) \<le> 16000"
    "1 \<le> unat (m_num_dimensions_to_index meta)" "unat (m_num_dimensions_to_index meta) \<le> unat (m_num_dimensions meta)"
    "\<exists>t. meta_distance_type meta = Inr t"
  using assms by (auto simp: dims_ok_def ensure_valid_dimensions_def MAX_DIMENSION_def is_ok_iff split: if_splits)

lemma checked_fits:
  assumes "dims_ok meta"
  shows "datum_fits meta d \<Longrightarrow> checked_vector_dim d = Inr (unat (m_num_dimensions meta))"
    and "\<not> datum_fits meta d \<Longrightarrow> \<exists>msg. rbind (checked_vector_dim d) (\<lambda>dim. ensure_datum_dimension dim (unat (m_num_dimensions meta))) = Inl (PgError msg)"
proof -
  define n where "n = unat (m_num_dimensions meta)"
  have n: "1 \<le> n" "n \<le> 16000" using dims_okD [OF assms] by (simp_all add: n_def)
  have fits: "datum_fits meta d \<longleftrightarrow> sint (vd_dim d) = int n \<and> vd_reserved d = 0 \<and> vd_size d = 8 + 4 * n"
    unfolding datum_fits_def n_def ..
  show "datum_fits meta d \<Longrightarrow> checked_vector_dim d = Inr (unat (m_num_dimensions meta))"
    using n unfolding fits n_def [symmetric] by (simp add: checked_vector_dim_def validate_vector_layout_def MAX_DIMENSION_def)
  show "\<not> datum_fits meta d \<Longrightarrow>
      \<exists>msg. rbind (checked_vector_dim d) (\<lambda>dim. ensure_datum_dimension dim (unat (m_num_dimensions meta))) = Inl (PgError msg)"
    using n unfolding fits n_def [symmetric]
    by (auto simp: checked_vector_dim_def validate_vector_layout_def ensure_datum_dimension_def MAX_DIMENSION_def signed_eq_0_iff)
qed

definition dims_of :: "meta_page \<Rightarrow> bool \<Rightarrow> nat" where
  "dims_of meta is_index = (if is_index then unat (m_num_dimensions_to_index meta) else unat (m_num_dimensions meta))"

lemma create_inner_fits:
  assumes meta: "dims_ok meta" and alloc: "alloc_ok alloc" and d: "varlena_ok d" "datum_fits meta d"
  shows "\<exists>b. create_inner alloc d meta is_index m = Inr (alloc m, (alloc m, b) # m) \<and> vi_ok b \<and>
    vi_to_slice b = Inr (prepared meta (take (dims_of meta is_index) (vd_x d)))"
proof -
  note md = dims_okD [OF meta]
  obtain t where t: "meta_distance_type meta = Inr t" using md(5) by blast
  have len: "length (vd_x d) = unat (m_num_dimensions meta)" using d by (simp add: varlena_ok_def datum_fits_def)
  have dim: "sint (vd_dim d) = int (unat (m_num_dimensions meta))" using d(2) by (simp add: datum_fits_def)
  then have dim': "i16_as_usize (vd_dim d) = unat (m_num_dimensions meta)" by (simp add: i16_sint)
  have idx: "sint (ucast (m_num_dimensions_to_index meta) :: 16 word) = int (unat (m_num_dimensions_to_index meta))"
    "i16_as_usize (ucast (m_num_dimensions_to_index meta)) = unat (m_num_dimensions_to_index meta)"
    by (rule ucast_i16, use md(2, 4) in simp)+
  have less: "unat (m_num_dimensions_to_index meta) < unat (m_num_dimensions meta)"
    if "m_num_dimensions meta \<noteq> m_num_dimensions_to_index meta"
    using md(4) that unfolding word_unat_eq_iff by simp
  have less': "uint (m_num_dimensions_to_index meta) < uint (m_num_dimensions meta)"
    if "m_num_dimensions meta \<noteq> m_num_dimensions_to_index meta"
    using less [OF that] unfolding word_less_nat_alt [symmetric] word_less_def .
  have fresh: "alloc m \<notin> fst ` set m" using alloc by (simp add: alloc_ok_def)
  show ?thesis
  proof (cases "is_index \<and> m_num_dimensions meta \<noteq> m_num_dimensions_to_index meta")
    case True
    then show ?thesis
      using less less' len
      by (simp add: create_inner_def palloc_def deref_def checked_fits(1) [OF meta d(2)] ensure_datum_dimension_def dim dim' idx t
        vi_to_slice_def as_slice_def assign_fresh [OF fresh] vi_ok_def prepared_def dims_of_def)
  next
    case False
    then have "dims_of meta is_index = length (vd_x d)" by (auto simp: dims_of_def len)
    then show ?thesis
      using len False
      by (auto simp: create_inner_def palloc_def deref_def checked_fits(1) [OF meta d(2)] ensure_datum_dimension_def dim' t
        vi_to_slice_def as_slice_def assign_fresh [OF fresh] vi_ok_def prepared_def)
  qed
qed

lemma create_inner_unfit:
  assumes "dims_ok meta" "\<not> datum_fits meta d"
  shows "\<exists>msg. create_inner alloc d meta is_index m = Inl (PgError msg)"
  using checked_fits(2) [OF assms]
  by (cases "checked_vector_dim d") (auto simp: create_inner_def palloc_def rbind_def split: sum.splits)

section \<open>Vectors and what they own\<close>

lemma own_shared:
  assumes "p \<notin> fst ` set m" "vi_ok b"
  shows "pgv_owns \<lparr>pgv_index_distance = Some p, pgv_index_distance_needs_pfree = True,
    pgv_full_distance = Some p, pgv_full_distance_needs_pfree = False\<rparr> [(p, b)] m"
  using assms by (simp add: pgv_owns_def pgv_freed_def)

lemma own_separate:
  assumes "set_option idx = fst ` set ibs" "set_option full = fst ` set fbs" "fst ` set ibs \<inter> fst ` set m = {}"
    "fst ` set fbs \<inter> fst ` set (ibs @ m) = {}" "\<forall>b \<in> snd ` set (fbs @ ibs). vi_ok b"
    "idx = None \<or> ineed" "full = None \<or> fneed"
  shows "pgv_owns \<lparr>pgv_index_distance = idx, pgv_index_distance_needs_pfree = ineed,
    pgv_full_distance = full, pgv_full_distance_needs_pfree = fneed\<rparr> (fbs @ ibs) m"
  using assms by (cases idx; cases full) (auto simp: pgv_owns_def pgv_freed_def)

text \<open>The slices of a vector as the record that searches and builds use.\<close>

definition slice_at :: "nat \<Rightarrow> memory \<Rightarrow> f32 list" where
  "slice_at p m = (case map_of m p of None \<Rightarrow> [] | Some b \<Rightarrow> take (i16_as_usize (vi_dim b)) (vi_x b))"

definition pgv_view :: "pgv \<Rightarrow> memory \<Rightarrow> pg_vector" where
  "pgv_view v m =
     \<lparr>index_distance = map_option (\<lambda>p. slice_at p m) (pgv_index_distance v),
      full_distance = map_option (\<lambda>p. slice_at p m) (pgv_full_distance v)\<rparr>"

lemma slice_at_append: "p \<notin> fst ` set bs \<Longrightarrow> slice_at p (bs @ m) = slice_at p m"
  by (drule map_of_append [where m = m]) (simp only: slice_at_def)

lemma slice_at_here [simp]: "slice_at p ((p, b) # m) = take (i16_as_usize (vi_dim b)) (vi_x b)"
  by (simp add: slice_at_def)

lemma slice_at_there: "p \<noteq> q \<Longrightarrow> slice_at p ((q, b) # m) = slice_at p m"
  by (simp add: slice_at_def)

lemma pgv_view_append:
  assumes "set_option (pgv_index_distance v) \<inter> fst ` set cs = {}" "set_option (pgv_full_distance v) \<inter> fst ` set cs = {}"
  shows "pgv_view v (cs @ m) = pgv_view v m"
  using assms
  by (cases "pgv_index_distance v"; cases "pgv_full_distance v") (auto simp: pgv_view_def slice_at_append)

lemma pgv_owns_view: "pgv_owns v bs m \<Longrightarrow> pgv_view v (bs @ n) = pgv_view v (bs @ m)"
proof -
  assume v: "pgv_owns v bs m"
  have "slice_at p (bs @ n) = slice_at p (bs @ m)" if "p \<in> fst ` set bs" for p
    using map_of_append_in [OF that] by (simp only: slice_at_def)
  then show ?thesis using v by (cases "pgv_index_distance v"; cases "pgv_full_distance v") (auto simp: pgv_view_def pgv_owns_def)
qed

text \<open>The accessors of an owner never fail but for a part it does not have, and agree with its view.\<close>

lemma vi_ok_slice: "vi_ok b \<Longrightarrow> vi_to_slice b = Inr (take (i16_as_usize (vi_dim b)) (vi_x b))"
  by (simp add: vi_ok_def vi_to_slice_def as_slice_def)

lemma owned_block:
  assumes "p \<in> fst ` set bs" "\<forall>b \<in> snd ` set bs. vi_ok b"
  obtains b where "map_of (bs @ m) p = Some b" "vi_ok b"
proof -
  from assms(1) obtain b where b: "map_of bs p = Some b" by (metis map_of_eq_None_iff not_None_eq)
  then have "vi_ok b" using assms(2) by (auto dest!: map_of_SomeD intro: rev_image_eqI)
  then show ?thesis using b by (intro that [of b]) (auto simp: map_add_def)
qed

lemma deref_slice: "map_of m p = Some b \<Longrightarrow> vi_ok b \<Longrightarrow> rbind (deref p m) vi_to_slice = Inr (slice_at p m)"
  by (simp add: deref_def slice_at_def vi_ok_slice)

lemma pgv_slices_view:
  assumes "pgv_owns v bs m"
  shows "pgv_to_index_slice v (bs @ m) = to_index_slice (pgv_view v (bs @ m))"
    and "pgv_to_full_slice v (bs @ m) = to_full_slice (pgv_view v (bs @ m))"
proof -
  have ok: "\<forall>b \<in> snd ` set bs. vi_ok b" and sub: "set_option (pgv_index_distance v) \<subseteq> fst ` set bs"
    "set_option (pgv_full_distance v) \<subseteq> fst ` set bs"
    using assms by (simp_all add: pgv_owns_def)
  show "pgv_to_index_slice v (bs @ m) = to_index_slice (pgv_view v (bs @ m))"
  proof (cases "pgv_index_distance v")
    case (Some p)
    have "p \<in> fst ` set bs" using sub(1) Some by simp
    from owned_block [OF this ok] obtain b where "map_of (bs @ m) p = Some b" "vi_ok b" .
    then show ?thesis using Some by (simp add: pgv_to_index_slice_def to_index_slice_def pgv_view_def deref_slice)
  qed (simp add: pgv_to_index_slice_def to_index_slice_def pgv_view_def)
  show "pgv_to_full_slice v (bs @ m) = to_full_slice (pgv_view v (bs @ m))"
  proof (cases "pgv_full_distance v")
    case (Some p)
    have "p \<in> fst ` set bs" using sub(2) Some by simp
    from owned_block [OF this ok] obtain b where "map_of (bs @ m) p = Some b" "vi_ok b" .
    then show ?thesis using Some by (simp add: pgv_to_full_slice_def to_full_slice_def pgv_view_def deref_slice)
  qed (simp add: pgv_to_full_slice_def to_full_slice_def pgv_view_def)
qed

lemma alloc_okD: "alloc_ok alloc \<Longrightarrow> alloc m \<notin> fst ` set m"
  by (simp add: alloc_ok_def)

lemma from_datum_fits:
  assumes meta: "dims_ok meta" and alloc: "alloc_ok alloc" and d: "varlena_ok d" "datum_fits meta d"
  shows "\<exists>v bs. from_datum alloc (Some d) meta i f m = Inr (v, bs @ m) \<and> pgv_owns v bs m \<and>
    pgv_view v (bs @ m) =
      \<lparr>index_distance = (if i \<or> m_num_dimensions meta = m_num_dimensions_to_index meta
         then Some (prepared meta (take (unat (m_num_dimensions_to_index meta)) (vd_x d))) else None),
       full_distance = (if f \<or> m_num_dimensions meta = m_num_dimensions_to_index meta
         then Some (prepared meta (vd_x d)) else None)\<rparr>"
proof -
  have len: "length (vd_x d) = unat (m_num_dimensions meta)" using d by (simp add: varlena_ok_def datum_fits_def)
  have inner: "\<exists>b. create_inner alloc d meta is_index m = Inr (alloc m, (alloc m, b) # m) \<and> vi_ok b \<and>
      take (i16_as_usize (vi_dim b)) (vi_x b) = prepared meta (take (dims_of meta is_index) (vd_x d))" for is_index m
    using create_inner_fits [OF meta alloc d, of is_index m] by (auto simp: vi_ok_slice)
  show ?thesis
  proof (cases "m_num_dimensions meta = m_num_dimensions_to_index meta")
    case True
    obtain b where b: "create_inner alloc d meta True m = Inr (alloc m, (alloc m, b) # m)" "vi_ok b"
      "take (i16_as_usize (vi_dim b)) (vi_x b) = prepared meta (take (dims_of meta True) (vd_x d))"
      using inner by blast
    show ?thesis
      using b len True own_shared [OF alloc_okD [OF alloc] b(2)]
      by (intro exI [of _ "[(alloc m, b)]"] exI) (auto simp: from_datum_def pgv_view_def dims_of_def)
  next
    case False
    have part: "\<exists>bs. create_if alloc d meta k wanted m = Inr (if wanted then Some (alloc m) else None, bs @ m) \<and>
        (\<forall>b \<in> snd ` set bs. vi_ok b) \<and> fst ` set bs = set_option (if wanted then Some (alloc m) else None) \<and>
        (wanted \<longrightarrow> slice_at (alloc m) (bs @ m) = prepared meta (take (dims_of meta k) (vd_x d)))" for k wanted m
    proof (cases wanted)
      case True
      obtain b where b: "create_inner alloc d meta k m = Inr (alloc m, (alloc m, b) # m)" "vi_ok b"
        "take (i16_as_usize (vi_dim b)) (vi_x b) = prepared meta (take (dims_of meta k) (vd_x d))"
        using inner by blast
      then show ?thesis using True by (intro exI [of _ "[(alloc m, b)]"]) (simp add: create_if_def)
    qed (simp add: create_if_def)
    obtain ibs where ibs: "create_if alloc d meta True i m = Inr (if i then Some (alloc m) else None, ibs @ m)"
      "\<forall>b \<in> snd ` set ibs. vi_ok b" "fst ` set ibs = set_option (if i then Some (alloc m) else None)"
      "i \<longrightarrow> slice_at (alloc m) (ibs @ m) = prepared meta (take (dims_of meta True) (vd_x d))"
      using part by blast
    obtain fbs where fbs: "create_if alloc d meta False f (ibs @ m) = Inr (if f then Some (alloc (ibs @ m)) else None, fbs @ ibs @ m)"
      "\<forall>b \<in> snd ` set fbs. vi_ok b" "fst ` set fbs = set_option (if f then Some (alloc (ibs @ m)) else None)"
      "f \<longrightarrow> slice_at (alloc (ibs @ m)) (fbs @ ibs @ m) = prepared meta (take (dims_of meta False) (vd_x d))"
      using part by blast
    have fresh: "alloc m \<notin> fst ` set m" "alloc (ibs @ m) \<notin> fst ` set (ibs @ m)" by (rule alloc_okD [OF alloc])+
    let ?v = "\<lparr>pgv_index_distance = (if i then Some (alloc m) else None), pgv_index_distance_needs_pfree = True,
      pgv_full_distance = (if f then Some (alloc (ibs @ m)) else None), pgv_full_distance_needs_pfree = True\<rparr>"
    have own: "pgv_owns ?v (fbs @ ibs) m"
      using ibs(2, 3) fbs(2, 3) fresh by (intro own_separate) auto
    have "slice_at (alloc m) (fbs @ ibs @ m) = slice_at (alloc m) (ibs @ m)" if i
      using that fbs(3) ibs(3) fresh(2) by (intro slice_at_append) auto
    then have "pgv_view ?v ((fbs @ ibs) @ m) =
        \<lparr>index_distance = (if i then Some (prepared meta (take (dims_of meta True) (vd_x d))) else None),
         full_distance = (if f then Some (prepared meta (take (dims_of meta False) (vd_x d))) else None)\<rparr>"
      using ibs(4) fbs(4) by (simp add: pgv_view_def)
    then show ?thesis
      using own False ibs(1) fbs(1) len
      by (intro exI [of _ "fbs @ ibs"] exI [of _ ?v]) (simp add: from_datum_def dims_of_def)
  qed
qed

lemma zeros_inner:
  assumes "n = ucast d" "unat d < 2 ^ 15"
  shows "\<exists>b. create_zeros_inner alloc n m = (alloc m, (alloc m, b) # m) \<and> vi_ok b \<and>
    take (i16_as_usize (vi_dim b)) (vi_x b) = replicate (unat (d :: 32 word)) f32_zero"
  using ucast_i16 [OF assms(2)] by (simp add: create_zeros_inner_def palloc_def Let_def vi_ok_def assms(1))

lemma zeros_owns:
  assumes meta: "dims_ok meta" and alloc: "alloc_ok alloc"
  shows "\<exists>v bs. zeros alloc meta m = (v, bs @ m) \<and> pgv_owns v bs m \<and>
    pgv_view v (bs @ m) =
      \<lparr>index_distance = Some (replicate (unat (m_num_dimensions_to_index meta)) f32_zero),
       full_distance = Some (replicate (unat (m_num_dimensions meta)) f32_zero)\<rparr>"
proof -
  have small: "unat (m_num_dimensions meta) < 2 ^ 15" "unat (m_num_dimensions_to_index meta) < 2 ^ 15"
    using dims_okD [OF meta] by simp_all
  show ?thesis
  proof (cases "m_num_dimensions meta = m_num_dimensions_to_index meta")
    case True
    obtain b where b: "create_zeros_inner alloc (ucast (m_num_dimensions meta)) m = (alloc m, (alloc m, b) # m)" "vi_ok b"
      "take (i16_as_usize (vi_dim b)) (vi_x b) = replicate (unat (m_num_dimensions meta)) f32_zero"
      using zeros_inner [OF refl small(1)] by blast
    show ?thesis
      using b True own_shared [OF alloc_okD [OF alloc] b(2)]
      by (intro exI [of _ "[(alloc m, b)]"] exI) (auto simp: zeros_def pgv_view_def)
  next
    case False
    obtain b where b: "create_zeros_inner alloc (ucast (m_num_dimensions_to_index meta)) m = (alloc m, (alloc m, b) # m)" "vi_ok b"
      "take (i16_as_usize (vi_dim b)) (vi_x b) = replicate (unat (m_num_dimensions_to_index meta)) f32_zero"
      using zeros_inner [OF refl small(2)] by blast
    let ?m = "(alloc m, b) # m"
    obtain c where c: "create_zeros_inner alloc (ucast (m_num_dimensions meta)) ?m = (alloc ?m, (alloc ?m, c) # ?m)" "vi_ok c"
      "take (i16_as_usize (vi_dim c)) (vi_x c) = replicate (unat (m_num_dimensions meta)) f32_zero"
      using zeros_inner [OF refl small(1)] by blast
    have fresh: "alloc m \<notin> fst ` set m" "alloc ?m \<notin> fst ` set ?m" by (rule alloc_okD [OF alloc])+
    let ?v = "\<lparr>pgv_index_distance = Some (alloc m), pgv_index_distance_needs_pfree = True,
      pgv_full_distance = Some (alloc ?m), pgv_full_distance_needs_pfree = True\<rparr>"
    have "pgv_owns ?v ([(alloc ?m, c)] @ [(alloc m, b)]) m"
      using fresh b(2) c(2) by (intro own_separate) auto
    moreover have "zeros alloc meta m = (?v, ([(alloc ?m, c)] @ [(alloc m, b)]) @ m)"
      using False by (simp add: zeros_def b(1) c(1))
    moreover have "alloc m \<noteq> alloc ?m" using fresh(2) by auto
    ultimately show ?thesis
      by (intro exI [of _ "[(alloc ?m, c)] @ [(alloc m, b)]"] exI [of _ ?v]) (simp add: pgv_view_def slice_at_there b(3) c(3))
  qed
qed

lemma clone_inner_ok:
  assumes "p \<in> fst ` set bs" "\<forall>b \<in> snd ` set bs. vi_ok b"
  shows "\<exists>b. clone_inner alloc p (bs @ m) = Inr (alloc (bs @ m), (alloc (bs @ m), b) # bs @ m) \<and> vi_ok b \<and>
    take (i16_as_usize (vi_dim b)) (vi_x b) = slice_at p (bs @ m)"
proof -
  obtain b where "map_of (bs @ m) p = Some b" "vi_ok b" using owned_block [OF assms] .
  then show ?thesis
    by (simp add: clone_inner_def deref_def vi_ok_slice palloc_def slice_at_def) (simp add: vi_ok_def)
qed

lemma pgv_owns_clone:
  assumes v: "pgv_owns v bs m" and alloc: "alloc_ok alloc"
  shows "\<exists>c cs. pgv_clone alloc v (bs @ m) = Inr (c, cs @ bs @ m) \<and> pgv_owns c cs (bs @ m) \<and>
    pgv_view c (cs @ bs @ m) = pgv_view v (bs @ m)"
proof -
  have ok: "\<forall>b \<in> snd ` set bs. vi_ok b" and sub: "set_option (pgv_index_distance v) \<subseteq> fst ` set bs"
    "set_option (pgv_full_distance v) \<subseteq> fst ` set bs"
    using v by (simp_all add: pgv_owns_def)
  have old: "slice_at p (cs @ bs @ m) = slice_at p (bs @ m)" if "p \<in> fst ` set bs" "fst ` set cs \<inter> fst ` set (bs @ m) = {}" for p cs
    using that by (intro slice_at_append) auto
  have part: "\<exists>ds. (case part of None \<Rightarrow> Inr (None, cs @ bs @ m)
        | Some original \<Rightarrow> rbind (clone_inner alloc original (cs @ bs @ m)) (\<lambda>(p, m). Inr (Some p, m))) =
        Inr (map_option (\<lambda>_. alloc (cs @ bs @ m)) part, ds @ cs @ bs @ m) \<and>
      fst ` set ds = set_option (map_option (\<lambda>_. alloc (cs @ bs @ m)) part) \<and> (\<forall>b \<in> snd ` set ds. vi_ok b) \<and>
      (\<forall>p \<in> set_option part. slice_at (alloc (cs @ bs @ m)) (ds @ cs @ bs @ m) = slice_at p (bs @ m))"
    if "set_option part \<subseteq> fst ` set bs" "fst ` set cs \<inter> fst ` set (bs @ m) = {}" "\<forall>b \<in> snd ` set cs. vi_ok b" for part cs
  proof (cases part)
    case (Some p)
    then have p: "p \<in> fst ` set bs" using that(1) by simp
    then have "p \<in> fst ` set (cs @ bs)" "\<forall>b \<in> snd ` set (cs @ bs). vi_ok b" using ok that(3) by auto
    from clone_inner_ok [OF this, of alloc m] obtain b where
      "clone_inner alloc p (cs @ bs @ m) = Inr (alloc (cs @ bs @ m), (alloc (cs @ bs @ m), b) # cs @ bs @ m)" "vi_ok b"
      "take (i16_as_usize (vi_dim b)) (vi_x b) = slice_at p (cs @ bs @ m)" by auto
    then show ?thesis using Some old [OF p that(2)] by (intro exI [of _ "[(alloc (cs @ bs @ m), b)]"]) simp
  qed simp
  define idx where "idx = map_option (\<lambda>_. alloc (bs @ m)) (pgv_index_distance v)"
  obtain cs where cs: "(case pgv_index_distance v of None \<Rightarrow> Inr (None, bs @ m)
        | Some original \<Rightarrow> rbind (clone_inner alloc original (bs @ m)) (\<lambda>(p, m). Inr (Some p, m))) = Inr (idx, cs @ bs @ m)"
      "fst ` set cs = set_option idx" "\<forall>b \<in> snd ` set cs. vi_ok b"
      "\<forall>p \<in> set_option (pgv_index_distance v). slice_at (alloc (bs @ m)) (cs @ bs @ m) = slice_at p (bs @ m)"
    using part [OF sub(1), of "[]", unfolded append_Nil] unfolding idx_def by auto
  have fresh: "fst ` set cs \<inter> fst ` set (bs @ m) = {}"
    using alloc_okD [OF alloc, of "bs @ m"] cs(2) by (auto simp: idx_def split: option.splits)
  show ?thesis
  proof (cases "pgv_full_distance v \<noteq> None \<and> pgv_full_distance v = pgv_index_distance v")
    case True
    then obtain p where full: "pgv_full_distance v = Some p" by blast
    then have idx: "pgv_index_distance v = Some p" using True by simp
    note p = full idx
    let ?c = "\<lparr>pgv_index_distance = idx, pgv_index_distance_needs_pfree = True, pgv_full_distance = idx, pgv_full_distance_needs_pfree = False\<rparr>"
    have "pgv_owns ?c cs (bs @ m)"
      using cs(2, 3) fresh p(2) by (auto simp: pgv_owns_def pgv_freed_def idx_def)
    moreover have "pgv_clone alloc v (bs @ m) = Inr (?c, cs @ bs @ m)"
      using cs(1) p by (simp add: pgv_clone_def idx_def)
    moreover have "pgv_view ?c (cs @ bs @ m) = pgv_view v (bs @ m)" using cs(4) p by (simp add: pgv_view_def idx_def)
    ultimately show ?thesis by blast
  next
    case False
    define full where "full = map_option (\<lambda>_. alloc (cs @ bs @ m)) (pgv_full_distance v)"
    obtain ds where ds: "(case pgv_full_distance v of None \<Rightarrow> Inr (None, cs @ bs @ m)
        | Some original \<Rightarrow> rbind (clone_inner alloc original (cs @ bs @ m)) (\<lambda>(p, m). Inr (Some p, m))) = Inr (full, ds @ cs @ bs @ m)"
      "fst ` set ds = set_option full" "\<forall>b \<in> snd ` set ds. vi_ok b"
      "\<forall>p \<in> set_option (pgv_full_distance v). slice_at (alloc (cs @ bs @ m)) (ds @ cs @ bs @ m) = slice_at p (bs @ m)"
      using part [OF sub(2) fresh cs(3)] by (auto simp: full_def)
    have fresh': "fst ` set ds \<inter> fst ` set (cs @ bs @ m) = {}"
      using alloc_okD [OF alloc, of "cs @ bs @ m"] ds(2) by (auto simp: full_def split: option.splits)
    have ne: "full \<noteq> idx" if some: "full \<noteq> None"
    proof -
      obtain y where y: "full = Some y" using some by blast
      then have "y \<in> fst ` set ds" using ds(2) by simp
      then have "y \<notin> fst ` set cs" using fresh' by auto
      then show ?thesis using cs(2) y by auto
    qed
    let ?c = "\<lparr>pgv_index_distance = idx, pgv_index_distance_needs_pfree = idx \<noteq> None, pgv_full_distance = full,
      pgv_full_distance_needs_pfree = full \<noteq> None\<rparr>"
    have "pgv_owns ?c (ds @ cs) (bs @ m)"
      using cs(2, 3) ds(2, 3) fresh fresh' by (intro own_separate) auto
    moreover have "pgv_clone alloc v (bs @ m) = Inr (?c, (ds @ cs) @ bs @ m)"
      using cs(1) ds(1) ne False
      by (cases "pgv_full_distance v") (auto simp: pgv_clone_def full_def)
    moreover have "slice_at (alloc (bs @ m)) (ds @ cs @ bs @ m) = slice_at (alloc (bs @ m)) (cs @ bs @ m)" if some: "idx \<noteq> None"
    proof (rule slice_at_append)
      have "alloc (bs @ m) \<in> fst ` set cs" using cs(2) some by (auto simp: idx_def)
      moreover have "fst ` set ds \<inter> fst ` set cs = {}" using fresh' by auto
      ultimately show "alloc (bs @ m) \<notin> fst ` set ds" by blast
    qed
    then have "pgv_view ?c ((ds @ cs) @ bs @ m) = pgv_view v (bs @ m)"
      using cs(4) ds(4)
      by (cases "pgv_index_distance v"; cases "pgv_full_distance v") (auto simp: pgv_view_def idx_def full_def)
    ultimately show ?thesis by blast
  qed
qed

section \<open>What holds of the vectors of rows and queries\<close>

lemma from_datum_unfit:
  assumes "dims_ok meta" "\<not> datum_fits meta d" "i \<or> f"
  shows "\<exists>msg. from_datum alloc (Some d) meta i f m = Inl (PgError msg)"
proof -
  obtain a b where "create_inner alloc d meta True m = Inl (PgError a)" "create_inner alloc d meta False m = Inl (PgError b)"
    using create_inner_unfit [OF assms(1, 2)] by blast
  then show ?thesis using assms(3) by (cases i) (simp_all add: from_datum_def create_if_def)
qed

lemma prepared_length [simp]: "length (prepared meta x) = length x"
  by (simp add: prepared_def)

text \<open>A NULL filter, whose flag is not looked at, ends in \<open>unwrap\<close>.\<close>

lemma null_filter_panics:
  assumes "dims_ok meta" "alloc_ok alloc" "varlena_ok d" "datum_fits meta d"
  shows "lv_from_scan_key_data alloc (None # keys) (Some d # rest) meta m = Inl (Panic ''unwrap'')"
  using from_datum_fits [OF assms, of True True m] by (auto simp: lv_from_scan_key_data_def)

definition sample_alloc :: allocator where
  "sample_alloc m = fold (\<lambda>(p, _) n. max (Suc p) n) m 0"

lemma sample_alloc_ok: "alloc_ok sample_alloc"
proof -
  have "n \<le> fold (\<lambda>(p, _) n. max (Suc p) n) m n \<and> (\<forall>p \<in> fst ` set m. p < fold (\<lambda>(p, _) n. max (Suc p) n) m n)"
    for n and m :: memory
  proof (induction m arbitrary: n)
    case (Cons a m)
    obtain p b where a: "a = (p, b)" by fastforce
    from Cons.IH [of "max (Suc p) n"] show ?case by (auto simp: a)
  qed simp
  then have "\<forall>p \<in> fst ` set m. p < sample_alloc m" for m unfolding sample_alloc_def by blast
  then show ?thesis unfolding alloc_ok_def by (meson less_irrefl)
qed

definition sample_datum_meta :: meta_page where
  "sample_datum_meta =
     \<lparr>m_magic_number = TSV_MAGIC_NUMBER, m_version = TSV_VERSION, m_extension_version_when_built = ''0.9.0'',
      m_distance_type = 1, m_num_dimensions = 3, m_num_dimensions_to_index = 2, m_bq_num_bits_per_dimension = 1,
      m_storage_type = 2, m_num_neighbors = 50, m_search_list_size = 100, m_max_alpha = f64_one, m_start_nodes = None,
      m_quantizer_metadata = new_invalid, m_has_labels = True\<rparr>"

definition sample_datum :: vector_datum where
  "sample_datum = \<lparr>vd_size = 20, vd_dim = 3, vd_reserved = 0, vd_x = [0x3F800000, 0x40000000, 0x40400000]\<rparr>"

lemma sample_datum_ok: "dims_ok sample_datum_meta" "varlena_ok sample_datum" "datum_fits sample_datum_meta sample_datum"
  by (simp_all add: dims_ok_def sample_datum_meta_def ensure_valid_dimensions_def MAX_DIMENSION_def meta_distance_type_def
      distance_type_from_u16_def varlena_ok_def sample_datum_def datum_fits_def)

text \<open>
  C27. The vector of a datum is made exactly when the datum is a well-formed vector of the dimension of
  the index, and otherwise the error is PostgreSQL's, not a panic. It has the part that the index uses
  (the first dimensions, normalised after they are cut off, for the cosine distance) and the full vector
  where they are wanted, or both when they are the same; dropping it leaves the memory as it was.
\<close>

theorem datum_accepted:
  assumes "dims_ok meta" "alloc_ok alloc" "varlena_ok d" "i \<or> f"
  shows "case from_datum alloc (Some d) meta i f m of
      Inl e \<Rightarrow> \<not> datum_fits meta d \<and> (\<exists>msg. e = PgError msg)
    | Inr (v, m') \<Rightarrow> datum_fits meta d \<and> pgv_drop v m' = Inr m \<and>
        pgv_view v m' =
          \<lparr>index_distance = (if i \<or> m_num_dimensions meta = m_num_dimensions_to_index meta
             then Some (prepared meta (take (unat (m_num_dimensions_to_index meta)) (vd_x d))) else None),
           full_distance = (if f \<or> m_num_dimensions meta = m_num_dimensions_to_index meta
             then Some (prepared meta (vd_x d)) else None)\<rparr>"
proof (cases "datum_fits meta d")
  case True
  obtain v bs where "from_datum alloc (Some d) meta i f m = Inr (v, bs @ m)" "pgv_owns v bs m"
    and "pgv_view v (bs @ m) =
      \<lparr>index_distance = (if i \<or> m_num_dimensions meta = m_num_dimensions_to_index meta
         then Some (prepared meta (take (unat (m_num_dimensions_to_index meta)) (vd_x d))) else None),
       full_distance = (if f \<or> m_num_dimensions meta = m_num_dimensions_to_index meta
         then Some (prepared meta (vd_x d)) else None)\<rparr>"
    using from_datum_fits [OF assms(1-3) True] by blast
  then show ?thesis using True by (simp add: pgv_owns_drop)
next
  case False
  then obtain msg where "from_datum alloc (Some d) meta i f m = Inl (PgError msg)"
    using from_datum_unfit [OF assms(1) False assms(4)] by blast
  then show ?thesis using False by simp
qed

theorem datum_accepted_witness:
  "is_ok (from_datum sample_alloc (Some sample_datum) sample_datum_meta True True []) \<and>
   (case from_datum sample_alloc (Some sample_datum) sample_datum_meta True True [] of
      Inl e \<Rightarrow> \<not> datum_fits sample_datum_meta sample_datum \<and> (\<exists>msg. e = PgError msg)
    | Inr (v, m') \<Rightarrow> datum_fits sample_datum_meta sample_datum \<and> pgv_drop v m' = Inr [] \<and>
        pgv_view v m' =
          \<lparr>index_distance = (if True \<or> m_num_dimensions sample_datum_meta = m_num_dimensions_to_index sample_datum_meta
             then Some (prepared sample_datum_meta (take (unat (m_num_dimensions_to_index sample_datum_meta)) (vd_x sample_datum))) else None),
           full_distance = (if True \<or> m_num_dimensions sample_datum_meta = m_num_dimensions_to_index sample_datum_meta
             then Some (prepared sample_datum_meta (vd_x sample_datum)) else None)\<rparr>)"
proof -
  have "True \<or> True" by simp
  note all = datum_accepted [OF sample_datum_ok(1) sample_alloc_ok sample_datum_ok(2) this, of "[]"]
  have "is_ok (from_datum sample_alloc (Some sample_datum) sample_datum_meta True True [])"
    using from_datum_fits [OF sample_datum_ok(1) sample_alloc_ok sample_datum_ok(2, 3), of True True "[]"] by (auto simp: is_ok_iff)
  from conjI [OF this all] show ?thesis .
qed

text \<open>
  C15. A clone has allocations of its own: cloning succeeds, changes neither the original nor its
  memory, and whichever of the two is dropped first, the other keeps its slices and the memory is in
  the end what it was before; nothing is freed twice or left behind.
\<close>

theorem clone_independent:
  assumes "dims_ok meta" "alloc_ok alloc"
    and "zeros alloc meta m = (v, m1) \<or> from_datum alloc (Some d) meta i f m = Inr (v, m1) \<and> varlena_ok d \<and> datum_fits meta d"
  shows "\<exists>c m2 m3. pgv_clone alloc v m1 = Inr (c, m2) \<and>
    pgv_view c m2 = pgv_view v m1 \<and> pgv_view v m2 = pgv_view v m1 \<and>
    pgv_drop c m2 = Inr m1 \<and> pgv_drop v m1 = Inr m \<and>
    pgv_drop v m2 = Inr m3 \<and> pgv_view c m3 = pgv_view v m1 \<and> pgv_drop c m3 = Inr m"
proof -
  obtain bs where m1: "m1 = bs @ m" and v: "pgv_owns v bs m"
    using assms(3) zeros_owns [OF assms(1, 2), of m] from_datum_fits [OF assms(1, 2), of d i f m] by fastforce
  obtain c cs where c: "pgv_clone alloc v (bs @ m) = Inr (c, cs @ bs @ m)" "pgv_owns c cs (bs @ m)"
    "pgv_view c (cs @ bs @ m) = pgv_view v (bs @ m)"
    using pgv_owns_clone [OF v assms(2)] by blast
  have fresh: "fst ` set cs \<inter> fst ` set (bs @ m) = {}" using c(2) by (simp add: pgv_owns_def)
  have own: "pgv_owns c cs m" using c(2) by (auto simp: pgv_owns_def)
  have ptrs: "set_option (pgv_index_distance v) \<inter> fst ` set cs = {}" "set_option (pgv_full_distance v) \<inter> fst ` set cs = {}"
  proof -
    have "fst ` set bs \<inter> fst ` set cs = {}" using fresh by auto
    moreover have "set_option (pgv_index_distance v) \<subseteq> fst ` set bs" "set_option (pgv_full_distance v) \<subseteq> fst ` set bs"
      using v by (simp_all add: pgv_owns_def)
    ultimately show "set_option (pgv_index_distance v) \<inter> fst ` set cs = {}" "set_option (pgv_full_distance v) \<inter> fst ` set cs = {}"
      by blast+
  qed
  have "pgv_view c (cs @ m) = pgv_view c (cs @ bs @ m)" by (rule pgv_owns_view [OF c(2)])
  then show ?thesis
    using c(1, 3) pgv_owns_drop [OF c(2)] pgv_owns_drop [OF v] pgv_owns_drop_older [OF v fresh] pgv_owns_drop [OF own]
      pgv_view_append [OF ptrs, of "bs @ m"]
    unfolding m1 by (intro exI [of _ c] exI [of _ "cs @ bs @ m"] exI [of _ "cs @ m"]) simp
qed

theorem clone_independent_witness:
  "\<exists>v c m2 m3. zeros sample_alloc sample_datum_meta [] = (v, snd (zeros sample_alloc sample_datum_meta [])) \<and>
    pgv_clone sample_alloc v (snd (zeros sample_alloc sample_datum_meta [])) = Inr (c, m2) \<and> length m2 = 4 \<and>
    pgv_drop v m2 = Inr m3 \<and> pgv_drop c m3 = Inr []"
proof -
  let ?v = "fst (zeros sample_alloc sample_datum_meta [])" and ?m = "snd (zeros sample_alloc sample_datum_meta [])"
  have made: "zeros sample_alloc sample_datum_meta [] = (?v, ?m)" by simp
  have len: "map_sum id (length \<circ> snd) (pgv_clone sample_alloc ?v ?m) = Inr 4" by code_simp
  obtain c m2 m3 where "pgv_clone sample_alloc ?v ?m = Inr (c, m2)" "pgv_drop ?v m2 = Inr m3" "pgv_drop c m3 = Inr []"
    using clone_independent [OF sample_datum_ok(1) sample_alloc_ok disjI1 [OF made]] by blast
  then show ?thesis using made len by (intro exI [of _ ?v] exI [of _ c] exI [of _ m2] exI [of _ m3]) auto
qed

text \<open>The labels of an array and of the filter of a scan, as sets.\<close>

lemma labels_from_datum_is:
  "if has_labels then \<exists>s. labels_from_datum has_labels arr = Some s \<and> label_set_inv s \<and>
       set (labels s) = {l. \<exists>a. arr = Some a \<and> Some l \<in> set a}
   else labels_from_datum has_labels arr = None"
proof (cases has_labels)
  case True
  then obtain s where s: "labels_from_datum True arr = Some s"
    by (cases "labels_from_datum True arr") (auto simp: labels_from_datum_def split: option.splits if_splits)
  have "set (labels s) = {l. \<exists>a. arr = Some a \<and> Some l \<in> set a}"
  proof (cases arr)
    case None
    then show ?thesis using s by (auto simp: labels_from_datum_def label_set_default_def)
  next
    case (Some a)
    then show ?thesis using labels_from_datum_set [of a s] s by simp
  qed
  then show ?thesis using True s labels_from_datum_inv [OF s] by auto
qed (simp add: labels_from_datum_def)

lemma labels_from_scan_keys_is:
  "case keys of [] \<Rightarrow> labels_from_scan_keys keys = None
   | arr # _ \<Rightarrow> \<exists>s. labels_from_scan_keys keys = Some s \<and> label_set_inv s \<and> set (labels s) = {l. Some l \<in> set arr}"
proof (cases keys)
  case (Cons arr ks)
  then obtain s where "labels_from_scan_keys (arr # ks) = Some s" by (simp add: labels_from_scan_keys_def)
  then show ?thesis using Cons labels_from_scan_keys_set labels_from_scan_keys_inv by auto
qed (simp add: labels_from_scan_keys_def)

text \<open>
  C14. The query of a scan always has both parts: the zero vectors in the two dimensions for
  \<open>ORDER BY NULL\<close>, and then no labels whatever the filter; otherwise the given vector and its leading
  part, normalised for the cosine distance, with exactly the labels of the filter if there is one. A
  row with a vector has the leading part and exactly the labels of its array, none where the index has
  none; a row without a vector is left out. Both free what they allocated.
\<close>

theorem query_and_row:
  assumes "dims_ok meta" "alloc_ok alloc" "\<forall>d \<in> set_option vec. varlena_ok d \<and> datum_fits meta d"
  shows "let index = unat (m_num_dimensions_to_index meta); full = unat (m_num_dimensions meta);
      part = (\<lambda>n. case vec of None \<Rightarrow> replicate n f32_zero | Some d \<Rightarrow> prepared meta (take n (vd_x d)))
    in (\<exists>q ls m'. lv_from_scan_key_data alloc (map Some keys) (vec # rest) meta m = Inr ((q, ls), m') \<and>
        pgv_to_index_slice q m' = Inr (part index) \<and> pgv_to_full_slice q m' = Inr (part full) \<and> pgv_drop q m' = Inr m \<and>
        (if vec = None then ls = None
         else case keys of [] \<Rightarrow> ls = None
           | arr # _ \<Rightarrow> \<exists>s. ls = Some s \<and> label_set_inv s \<and> set (labels s) = {l. Some l \<in> set arr})) \<and>
      (if vec = None then lv_from_datums alloc [vec] [True] arr meta m = Inr (None, m)
       else \<exists>v ls m'. lv_from_datums alloc [vec] [False] arr meta m = Inr (Some (v, ls), m') \<and>
         pgv_to_index_slice v m' = Inr (part index) \<and> pgv_drop v m' = Inr m \<and>
         (if m_has_labels meta then
            \<exists>s. ls = Some s \<and> label_set_inv s \<and> set (labels s) = {l. \<exists>a. arr = Some a \<and> Some l \<in> set a}
          else ls = None))"
proof (cases vec)
  case None
  obtain q bs where q: "zeros alloc meta m = (q, bs @ m)" "pgv_owns q bs m"
    "pgv_view q (bs @ m) =
      \<lparr>index_distance = Some (replicate (unat (m_num_dimensions_to_index meta)) f32_zero),
       full_distance = Some (replicate (unat (m_num_dimensions meta)) f32_zero)\<rparr>"
    using zeros_owns [OF assms(1, 2)] by blast
  show ?thesis
    using q pgv_owns_drop [OF q(2)] pgv_slices_view [OF q(2)]
    unfolding None by (simp add: lv_from_scan_key_data_def lv_from_datums_def from_pg_parts_def to_index_slice_def to_full_slice_def)
next
  case (Some d)
  let ?index = "unat (m_num_dimensions_to_index meta)" and ?full = "unat (m_num_dimensions meta)"
  have d: "varlena_ok d" "datum_fits meta d" using assms(3) Some by simp_all
  have len: "take ?full (vd_x d) = vd_x d" using d by (simp add: varlena_ok_def datum_fits_def)
  note made = from_datum_fits [OF assms(1, 2) d, of True _ m]
  obtain q bs where q: "from_datum alloc (Some d) meta True True m = Inr (q, bs @ m)" "pgv_owns q bs m"
    "index_distance (pgv_view q (bs @ m)) = Some (prepared meta (take ?index (vd_x d)))"
    "full_distance (pgv_view q (bs @ m)) = Some (prepared meta (vd_x d))"
    using made [of True] by auto
  obtain v cs where v: "from_datum alloc (Some d) meta True False m = Inr (v, cs @ m)" "pgv_owns v cs m"
    "index_distance (pgv_view v (cs @ m)) = Some (prepared meta (take ?index (vd_x d)))"
    using made [of False] by auto
  have keys: "(case map Some keys of [] \<Rightarrow> Inr None
      | key # _ \<Rightarrow> rbind (runwrap key ''unwrap'') (\<lambda>arr. Inr (labels_from_scan_keys [arr]))) = Inr (labels_from_scan_keys keys)"
    by (cases keys) (simp_all add: labels_from_scan_keys_def)
  have scan: "lv_from_scan_key_data alloc (map Some keys) (Some d # rest) meta m = Inr ((q, labels_from_scan_keys keys), bs @ m)"
    by (simp add: lv_from_scan_key_data_def q(1) keys)
  have row: "lv_from_datums alloc [Some d] [False] arr meta m =
      Inr (Some (v, labels_from_datum (m_has_labels meta) arr), cs @ m)"
    by (simp add: lv_from_datums_def from_pg_parts_def v(1))
  have slices: "pgv_to_index_slice q (bs @ m) = Inr (prepared meta (take ?index (vd_x d)))"
    "pgv_to_full_slice q (bs @ m) = Inr (prepared meta (vd_x d))"
    "pgv_to_index_slice v (cs @ m) = Inr (prepared meta (take ?index (vd_x d)))"
    using pgv_slices_view [OF q(2)] pgv_slices_view(1) [OF v(2)] q(3,4) v(3) by (simp_all add: to_index_slice_def to_full_slice_def)
  show ?thesis
    using labels_from_scan_keys_is [of keys] labels_from_datum_is [of "m_has_labels meta" arr]
    unfolding Some scan row Let_def option.case len
    by (simp add: slices pgv_owns_drop [OF q(2)] pgv_owns_drop [OF v(2)] split: list.splits)
qed

theorem query_and_row_witness:
  "\<exists>q m' r n'. lv_from_scan_key_data sample_alloc (map Some [[Some 3, None, Some 1]]) [Some sample_datum] sample_datum_meta [] =
     Inr ((q, Some (LabelSet [1, 3])), m') \<and> pgv_drop q m' = Inr [] \<and>
     pgv_to_index_slice q m' = Inr (prepared sample_datum_meta (take (unat (m_num_dimensions_to_index sample_datum_meta)) (vd_x sample_datum))) \<and>
     lv_from_scan_key_data sample_alloc (map Some [[Some 3]]) [None] sample_datum_meta [] = Inr ((r, None), n') \<and>
     pgv_to_full_slice r n' = Inr (replicate (unat (m_num_dimensions sample_datum_meta)) f32_zero)"
proof -
  have ks: "labels_from_scan_keys [[Some 3, None, Some 1]] = Some (LabelSet [1, 3])" by code_simp
  have f: "lv_from_scan_key_data sample_alloc (map Some [[Some 3, None, Some 1]]) [Some sample_datum] sample_datum_meta [] = Inr ((q, ls), m')
      \<Longrightarrow> ls = Some (LabelSet [1, 3])" for q ls m'
    by (auto simp: lv_from_scan_key_data_def ks)
  have h: "\<forall>d \<in> set_option (Some sample_datum). varlena_ok d \<and> datum_fits sample_datum_meta d"
    "\<forall>d \<in> set_option (None :: vector_datum option). varlena_ok d \<and> datum_fits sample_datum_meta d"
    using sample_datum_ok by simp_all
  note q = query_and_row [OF sample_datum_ok(1) sample_alloc_ok h(1), of "[[Some 3, None, Some 1]]" "[]" "[]" None,
      unfolded Let_def, THEN conjunct1]
  note r = query_and_row [OF sample_datum_ok(1) sample_alloc_ok h(2), of "[[Some 3]]" "[]" "[]" None,
      unfolded Let_def, THEN conjunct1]
  obtain v ls m' where v: "lv_from_scan_key_data sample_alloc (map Some [[Some 3, None, Some 1]]) [Some sample_datum] sample_datum_meta [] = Inr ((v, ls), m')"
    "pgv_drop v m' = Inr []"
    "pgv_to_index_slice v m' = Inr (prepared sample_datum_meta (take (unat (m_num_dimensions_to_index sample_datum_meta)) (vd_x sample_datum)))"
    using q by auto
  obtain z zs n' where z: "lv_from_scan_key_data sample_alloc (map Some [[Some 3]]) [None] sample_datum_meta [] = Inr ((z, zs), n')"
    "pgv_to_full_slice z n' = Inr (replicate (unat (m_num_dimensions sample_datum_meta)) f32_zero)" "zs = None"
    using r by auto
  show ?thesis using v z f [OF v(1)] by blast
qed

end
