(* ===== verification/Sbq_Means.thy ===== *)
theory Sbq_Means
  imports Publication Sample_Codec Sbq_Quantizer Vector_Datum
begin

text \<open>
  \<open>SbqMeans\<close> of \<open>sbq/mod.rs\<close> and the training of \<open>build.rs\<close>: the state of the quantiser that a build
  trains on the rows of the table, stores in a chain of items, and names in the meta page, so that
  every insertion and scan loads it. The serialiser is a parameter; \<open>sm_archived\<close> is what the first
  version of the format, one item, is read as.
\<close>

section \<open>Storing and loading\<close>

record sbq_means =
  means_count :: nat
  means_means :: "f32 list"
  means_m2 :: "f32 list"

record means_codec =
  sm_to_bytes :: "sbq_means \<Rightarrow> bytes"
  sm_from_bytes :: "bytes \<Rightarrow> sbq_means option"
  sm_archived :: "bytes \<Rightarrow> sbq_means"

text \<open>The count is a \<open>u64\<close>.\<close>

definition means_codec_ok :: "means_codec \<Rightarrow> bool" where
  "means_codec_ok mc \<longleftrightarrow> (\<forall>s. means_count s < 2 ^ 64 \<longrightarrow> sm_to_bytes mc s \<noteq> [] \<and> sm_from_bytes mc (sm_to_bytes mc s) = Some s)"

definition means_v1_load ::
  "means_codec \<Rightarrow> chain_rel \<Rightarrow> sbq_quantizer \<Rightarrow> item_pointer \<Rightarrow> sbq_quantizer res" where
  "means_v1_load mc rel quantizer qip =
     rbind (rassert (use_mean quantizer) ''quantizer.use_mean'') (\<lambda>_.
     rbind (read_buffer rel (block_number qip)) (\<lambda>page.
     rbind (get_item_unchecked page (offset qip)) (\<lambda>item.
     let archived = sm_archived mc item
     in Inr (sbq_load (means_count archived) (means_means archived) (means_m2 archived) quantizer))))"

definition means_load :: "rkyv_header \<Rightarrow> means_codec \<Rightarrow> meta_page \<Rightarrow> chain_rel \<Rightarrow> sbq_quantizer res" where
  "means_load h mc meta_page rel =
     (let quantizer = sbq_quantizer_new (unat (m_bq_num_bits_per_dimension meta_page)) in
      if \<not> use_mean quantizer then Inr quantizer
      else
        rbind (get_quantizer_metadata_pointer meta_page) (\<lambda>p.
        case p of
          None \<Rightarrow> Inl (PgError ''No SBQ pointer found in meta page'')
        | Some qip \<Rightarrow>
            rbind (read_buffer rel (block_number qip)) (\<lambda>page.
            rbind (readable_type page) (\<lambda>page_type.
            case page_type of
              SbqMeansV1 \<Rightarrow> means_v1_load mc rel quantizer qip
            | SbqMeans \<Rightarrow>
                rbind (chain_collect h SbqMeans rel (chain_fuel rel) qip) (\<lambda>segs.
                rbind (runwrap (sm_from_bytes mc (concat segs)) ''unwrap'') (\<lambda>means.
                Inr (sbq_load (means_count means) (means_means means) (means_m2 means) quantizer)))
            | _ \<Rightarrow> Inl (PgError ''Invalid page type for SbqMeans'')))))"

definition means_store ::
  "rkyv_header \<Rightarrow> pg_page_ops \<Rightarrow> means_codec \<Rightarrow> sbq_quantizer \<Rightarrow> chain_rel \<Rightarrow> (item_pointer \<times> chain_rel) res" where
  "means_store h ops mc quantizer rel =
     (let bq = \<lparr>means_count = q_count quantizer, means_means = q_mean quantizer, means_m2 = q_m2 quantizer\<rparr> in
      rbind (chain_writer_new rel SbqMeans) (\<lambda>(tape, rel).
      rbind (chain_write h ops tape (sm_to_bytes mc bq) rel 0) (\<lambda>(ip, _, rel, _).
      Inr (ip, rel))))"

text \<open>
  \<open>SbqMeansV1::store\<close> opens a tape with the page type of the chained format, which \<open>Tape::new\<close> refuses.
  Nothing calls it. \<open>sz\<close> is the size of an archived item.
\<close>

definition means_v1_store ::
  "pg_page_ops \<Rightarrow> (sbq_means \<Rightarrow> nat) \<Rightarrow> sbq_quantizer \<Rightarrow> sbq_means relation \<Rightarrow> (item_pointer \<times> sbq_means relation) res" where
  "means_v1_store ops sz quantizer rel =
     rbind (tape_new rel SbqMeans) (\<lambda>(tape, rel).
     let node = \<lparr>means_count = q_count quantizer, means_means = q_mean quantizer, means_m2 = q_m2 quantizer\<rparr> in
     rbind (tape_write ops sz rel tape node) (\<lambda>(ptr, _, rel). Inr (ptr, rel)))"

lemma means_v1_store_panics: "means_v1_store ops sz q rel = Inl (Panic ''!page_type.is_chained()'')"
  by (simp add: means_v1_store_def tape_new_def is_chained_def rassert_def)

section \<open>Training\<close>

text \<open>\<open>build_callback_bq_train\<close>: a row without a vector is not a sample.\<close>

definition build_callback_bq_train ::
  "allocator \<Rightarrow> meta_page \<Rightarrow> vector_datum option \<Rightarrow> sbq_quantizer \<times> memory \<Rightarrow> (sbq_quantizer \<times> memory) res" where
  "build_callback_bq_train alloc meta vec = (\<lambda>(q, m).
     rbind (from_pg_parts alloc [vec] [vec = None] 0 meta True False m) (\<lambda>(v, m).
     case v of
       None \<Rightarrow> Inr (q, m)
     | Some v \<Rightarrow>
         rbind (pgv_to_index_slice v m) (\<lambda>sample.
         rbind (add_sample sample q) (\<lambda>q.
         rbind (pgv_drop v m) (\<lambda>m. Inr (q, m))))))"

text \<open>\<open>rows\<close> are the vectors that PostgreSQL's scan of the table finds.\<close>

definition maybe_train_quantizer ::
  "rkyv_header \<Rightarrow> pg_page_ops \<Rightarrow> means_codec \<Rightarrow> allocator \<Rightarrow> vector_datum option list \<Rightarrow> meta_page \<Rightarrow> chain_rel \<Rightarrow> memory
     \<Rightarrow> (meta_page \<times> chain_rel \<times> memory) res" where
  "maybe_train_quantizer h ops mc alloc rows meta rel m =
     rbind (meta_storage_type meta) (\<lambda>storage.
     case storage of
       Plain \<Rightarrow> Inr (meta, rel, m)
     | SbqCompression \<Rightarrow>
         let quantizer = sbq_quantizer_new (unat (m_bq_num_bits_per_dimension meta));
             quantizer = start_training (unat (m_num_dimensions_to_index meta)) quantizer
         in rbind (rfold (build_callback_bq_train alloc meta) rows (quantizer, m)) (\<lambda>(quantizer, m).
            let quantizer = finish_training quantizer in
            if use_mean quantizer then
              rbind (means_store h ops mc quantizer rel) (\<lambda>(index_pointer, rel).
              Inr (set_quantizer_metadata_pointer index_pointer meta, rel, m))
            else Inr (meta, rel, m)))"

section \<open>What is stored is loaded\<close>

lemma means_store_load:
  assumes mc: "means_codec_ok mc" and inv: "rel_inv rel" and count: "q_count q < 2 ^ 64"
    and room: "length rel + length (sm_to_bytes mc \<lparr>means_count = q_count q, means_means = q_mean q, means_m2 = q_m2 q\<rparr>) + 2 < 2 ^ 32 - 1"
  shows "\<exists>ip rel1. means_store header_le pg_page_8k mc q rel = Inr (ip, rel1) \<and> is_valid ip \<and> rel_inv rel1 \<and>
    length rel \<le> length rel1 \<and>
    length rel1 \<le> length rel + length (sm_to_bytes mc \<lparr>means_count = q_count q, means_means = q_mean q, means_m2 = q_m2 q\<rparr>) + 1 \<and>
    (\<forall>b < length rel. rel1 ! b = rel ! b) \<and>
    (\<forall>rel2 meta. length rel1 \<le> length rel2 \<and> (\<forall>b. length rel \<le> b \<and> b < length rel1 \<longrightarrow> rel2 ! b = rel1 ! b) \<longrightarrow>
       get_quantizer_metadata_pointer meta = Inr (Some ip) \<longrightarrow>
       means_load header_le mc meta rel2 =
         Inr (sbq_load (q_count q) (q_mean q) (q_m2 q) (sbq_quantizer_new (unat (m_bq_num_bits_per_dimension meta)))))"
proof -
  let ?s = "\<lparr>means_count = q_count q, means_means = q_mean q, means_m2 = q_m2 q\<rparr>"
  let ?data = "sm_to_bytes mc ?s"
  have ne: "?data \<noteq> []" and dec: "sm_from_bytes mc ?data = Some ?s" using mc count by (simp_all add: means_codec_ok_def)
  have chained: "is_chained SbqMeans" by (simp add: is_chained_def)
  from chain8k.suffix_ok [OF chained inv ne room, of 0] obtain ip self rel1 segs where
    w: "rbind (chain_writer_new rel SbqMeans) (\<lambda>(suffix, rel). chain_write header_le pg_page_8k suffix ?data rel 0) =
        Inr (ip, self, rel1, 0 + length segs)"
      "concat segs = ?data" "chain_segs header_le SbqMeans {length rel..} rel1 ip segs"
      "length rel \<le> length rel1" "length rel1 \<le> length rel + length ?data + 1" "\<forall>b < length rel. rel1 ! b = rel ! b" "rel_inv rel1"
    by blast
  have store: "means_store header_le pg_page_8k mc q rel = Inr (ip, rel1)"
    using w(1) by (auto simp: means_store_def)
  obtain s segs' where segs: "segs = s # segs'" using w(2) ne by (cases segs) auto
  have at: "block_number ip \<noteq> InvalidBlockNumber" "unat (block_number ip) < length rel1" "length rel \<le> unat (block_number ip)"
    "\<exists>is. rel1 ! unat (block_number ip) = InitPage (tsv_opaque_new SbqMeans) is" "\<exists>x. item_at rel1 ip = Some x"
    using w(3) by (auto simp: segs)
  have valid: "is_valid ip"
    using at(1,5) by (auto simp: is_valid_def item_at_def get_item_unchecked_def InvalidOffsetNumber_def split: if_splits)
  have load: "means_load header_le mc meta rel2 =
      Inr (sbq_load (q_count q) (q_mean q) (q_m2 q) (sbq_quantizer_new (unat (m_bq_num_bits_per_dimension meta))))"
    if rel2: "length rel1 \<le> length rel2" "\<forall>b. length rel \<le> b \<and> b < length rel1 \<longrightarrow> rel2 ! b = rel1 ! b"
      and p: "get_quantizer_metadata_pointer meta = Inr (Some ip)" for rel2 meta
  proof -
    have "chain_segs header_le SbqMeans {length rel..} rel2 ip segs"
      by (rule chain_segs_frame [OF rel2(1) _ order_refl w(3)]) (use rel2(2) in simp)
    from header_le.chain_collect_segs [OF this, of "Suc (length segs)"]
    have "chain_collect header_le SbqMeans rel2 (Suc (length segs)) ip = Inr segs" by simp
    note c = chain_fuel_enough [OF this]
    obtain "is" where "rel2 ! unat (block_number ip) = InitPage (tsv_opaque_new SbqMeans) is"
      using at rel2(2) by auto
    then show ?thesis
      using at(2) rel2(1) p c w(2) dec
      by (simp add: means_load_def sbq_quantizer_new_def read_buffer_def readable_type_def)
  qed
  show ?thesis using store valid w(4-7) load by (intro exI [of _ ip] exI [of _ rel1]) blast
qed

section \<open>What a build trains on\<close>

definition train_samples :: "meta_page \<Rightarrow> vector_datum option list \<Rightarrow> f32 list list" where
  "train_samples meta rows =
     map (\<lambda>d. prepared meta (take (unat (m_num_dimensions_to_index meta)) (vd_x d))) (List.map_filter id rows)"

lemma train_row:
  assumes "dims_ok meta" "alloc_ok alloc" "\<forall>d \<in> set_option vec. varlena_ok d \<and> datum_fits meta d"
  shows "build_callback_bq_train alloc meta vec (q, m) =
    rbind (rfold add_sample (train_samples meta [vec]) q) (\<lambda>q. Inr (q, m))"
proof (cases vec)
  case None
  then show ?thesis by (simp add: build_callback_bq_train_def from_pg_parts_def train_samples_def List.map_filter_def)
next
  case (Some d)
  then have d: "varlena_ok d" "datum_fits meta d" using assms(3) by simp_all
  obtain v bs where v: "from_datum alloc (Some d) meta True False m = Inr (v, bs @ m)" "pgv_owns v bs m"
    "index_distance (pgv_view v (bs @ m)) = Some (prepared meta (take (unat (m_num_dimensions_to_index meta)) (vd_x d)))"
    using from_datum_fits [OF assms(1, 2) d, of True False m] by auto
  show ?thesis
    using v pgv_slices_view(1) [OF v(2)] pgv_owns_drop [OF v(2)]
    by (simp add: build_callback_bq_train_def from_pg_parts_def train_samples_def List.map_filter_def Some to_index_slice_def
        rbind_def split: sum.splits)
qed

lemma train_rows:
  assumes "dims_ok meta" "alloc_ok alloc" "\<forall>vec \<in> set rows. \<forall>d \<in> set_option vec. varlena_ok d \<and> datum_fits meta d"
  shows "rfold (build_callback_bq_train alloc meta) rows (q, m) =
    rbind (rfold add_sample (train_samples meta rows) q) (\<lambda>q. Inr (q, m))"
  using assms(3)
proof (induction rows arbitrary: q)
  case (Cons vec rows)
  have "train_samples meta (vec # rows) = train_samples meta [vec] @ train_samples meta rows"
    by (simp add: train_samples_def List.map_filter_def)
  then show ?case
    using Cons train_row [OF assms(1, 2), of vec q m]
    by (cases "rfold add_sample (train_samples meta [vec]) q") (simp_all add: rfold_append)
qed (simp add: train_samples_def List.map_filter_def)

lemma train_samples_length:
  assumes "dims_ok meta" "\<forall>vec \<in> set rows. \<forall>d \<in> set_option vec. varlena_ok d \<and> datum_fits meta d"
    and "x \<in> set (train_samples meta rows)"
  shows "length x = unat (m_num_dimensions_to_index meta)"
proof -
  obtain d where d: "Some d \<in> set rows" "x = prepared meta (take (unat (m_num_dimensions_to_index meta)) (vd_x d))"
    using assms(3) by (auto simp: train_samples_def List.map_filter_def)
  then have "length (vd_x d) = unat (m_num_dimensions meta)"
    using assms(2) by (auto simp: varlena_ok_def datum_fits_def)
  then show ?thesis using d(2) dims_okD(4) [OF assms(1)] by simp
qed

text \<open>Training changes the counts and sums only.\<close>

lemma add_sample_kept:
  "add_sample x q = Inr q' \<Longrightarrow> use_mean q \<and> num_bits_per_dimension q = bits \<and> length (q_m2 q) \<le> n \<Longrightarrow>
     use_mean q' \<and> num_bits_per_dimension q' = bits \<and> length (q_m2 q') \<le> n"
  by (auto simp: add_sample_def Let_def split: if_splits)

section \<open>A sample serialiser\<close>

definition sample_means_codec :: means_codec where
  "sample_means_codec =
     \<lparr>sm_to_bytes = (\<lambda>s. enc_all (means_count s # length (means_means s) # map unat (means_means s) @ map unat (means_m2 s))),
      sm_from_bytes = (\<lambda>bs. case dec_all bs of
          Some (n # k # rest) \<Rightarrow> Some \<lparr>means_count = n, means_means = map of_nat (take k rest), means_m2 = map of_nat (drop k rest)\<rparr>
        | _ \<Rightarrow> None),
      sm_archived = (\<lambda>_. \<lparr>means_count = 0, means_means = [], means_m2 = []\<rparr>)\<rparr>"

lemma enc_all_ne: "enc_all xs \<noteq> []"
proof -
  have "enc_nat n \<noteq> []" for n by (subst enc_nat.simps) simp
  then show ?thesis by (simp add: enc_all_def)
qed

lemma sample_means_codec_ok: "means_codec_ok sample_means_codec"
  by (simp add: means_codec_ok_def sample_means_codec_def enc_all_ne dec_enc_all comp_def)

lemma sample_means_codec_length:
  assumes "means_count s < 2 ^ 64" "length (means_means s) \<le> MAX_DIMENSION" "length (means_m2 s) \<le> MAX_DIMENSION"
  shows "length (sm_to_bytes sample_means_codec s) \<le> 400000"
proof -
  let ?xs = "means_count s # length (means_means s) # map unat (means_means s) @ map unat (means_m2 s)"
  have "\<forall>n \<in> set ?xs. n < 2 ^ 64"
    using assms by (auto simp: MAX_DIMENSION_def intro!: unat_64 [simplified])
  moreover have "length ?xs \<le> 32002" using assms by (simp add: MAX_DIMENSION_def)
  ultimately have "length (enc_all ?xs) \<le> 10 * (length ?xs + 1)" by (intro enc_all_length) auto
  then show ?thesis using \<open>length ?xs \<le> 32002\<close> by (simp add: sample_means_codec_def)
qed

lemma sample_meta_length: "length (ser_meta sample_codec (set_quantizer_metadata_pointer p sample_datum_meta)) \<le> 400000"
proof -
  let ?m = "set_quantizer_metadata_pointer p sample_datum_meta"
  have "of_char c < (2 ^ 64 :: nat)" for c by (rule less_le_trans [OF nat_of_char_less_256]) simp
  then have "\<forall>n \<in> set (meta_nats ?m). n < 2 ^ 64"
    by (auto simp: meta_nats_def sample_datum_meta_def set_quantizer_metadata_pointer_def enc_start_def intro!: unat_64 [simplified])
  moreover have "length (meta_nats ?m) = 19"
    by (simp add: meta_nats_def sample_datum_meta_def set_quantizer_metadata_pointer_def enc_start_def)
  ultimately show ?thesis using enc_all_length [of "meta_nats ?m"] by (simp add: sample_codec_def)
qed

section \<open>The quantiser of an index\<close>

lemma trained_persists:
  assumes mc: "means_codec_ok mc" and c: "meta_codec_laws c" and al: "alloc_ok alloc"
    and meta: "dims_ok meta" "meta_valid meta" "meta_storage_type meta = Inr SbqCompression" "0 < unat (m_bq_num_bits_per_dimension meta)"
    and few: "length rows < 2 ^ 64"
    and rows: "\<forall>vec \<in> set rows. \<forall>d \<in> set_option vec. varlena_ok d \<and> datum_fits meta d"
    and rel: "rel_inv rel" "rel \<noteq> []" "is_ok (read_from_page (rel ! 0))"
    and sizes: "\<And>s. means_count s < 2 ^ 64 \<Longrightarrow> length (means_means s) \<le> MAX_DIMENSION \<Longrightarrow> length (means_m2 s) \<le> MAX_DIMENSION \<Longrightarrow>
        length (sm_to_bytes mc s) \<le> K"
      "\<And>p. length (ser_meta c (set_quantizer_metadata_pointer p meta)) \<le> K"
    and room: "length rel + 2 * K + 30 < 2 ^ 32 - 1"
  shows "\<exists>q ip rel1 rel2. let meta' = set_quantizer_metadata_pointer ip meta; n = unat (m_num_dimensions_to_index meta) in
    rfold add_sample (train_samples meta rows) (start_training n (sbq_quantizer_new (unat (m_bq_num_bits_per_dimension meta)))) = Inr q \<and>
    in_training n q \<and> q_count q = length (train_samples meta rows) \<and>
    maybe_train_quantizer header_le pg_page_8k mc alloc rows meta rel m = Inr (meta', rel1, m) \<and> is_valid ip \<and>
    meta_store c header_le pg_page_8k meta' rel1 False = Inr rel2 \<and> meta_fetch c header_le rel2 = Inr meta' \<and>
    means_load header_le mc meta' rel2 = Inr (finish_training q) \<and> rel_inv rel1 \<and> rel1 \<noteq> [] \<and> rel_inv rel2 \<and>
    length rel1 \<le> length rel + K + 1"
proof -
  let ?n = "unat (m_num_dimensions_to_index meta)" and ?bits = "unat (m_bq_num_bits_per_dimension meta)"
  let ?q0 = "start_training ?n (sbq_quantizer_new ?bits)"
  have dims: "?n \<le> MAX_DIMENSION" using dims_okD [OF meta(1)] by (simp add: MAX_DIMENSION_def)
  have q0: "in_training ?n ?q0" "q_count ?q0 = 0"
    using start_training_facts [of "sbq_quantizer_new ?bits" ?n] meta(4) by (simp_all add: sbq_quantizer_new_def)
  obtain q where q: "rfold add_sample (train_samples meta rows) ?q0 = Inr q" "in_training ?n q"
    "q_count q = length (train_samples meta rows)"
    using training_loop [OF q0(1), of "train_samples meta rows"] train_samples_length [OF meta(1) rows] q0(2) by auto
  have "use_mean ?q0 \<and> num_bits_per_dimension ?q0 = ?bits \<and> length (q_m2 ?q0) \<le> ?n"
    by (simp add: start_training_def sbq_quantizer_new_def Let_def)
  from rfold_invariant [where I = "\<lambda>q. use_mean q \<and> num_bits_per_dimension q = ?bits \<and> length (q_m2 q) \<le> ?n", OF q(1) this]
  have kept: "use_mean q \<and> num_bits_per_dimension q = ?bits \<and> length (q_m2 q) \<le> ?n"
    using add_sample_kept by blast
  let ?f = "finish_training q"
  let ?s = "\<lparr>means_count = q_count ?f, means_means = q_mean ?f, means_m2 = q_m2 ?f\<rparr>"
  have count: "q_count ?f < 2 ^ 64"
  proof -
    have "length (train_samples meta rows) \<le> length rows" by (simp add: train_samples_def List.map_filter_def)
    then show ?thesis using few q(3) by (simp add: finish_training_def)
  qed
  have K: "length (sm_to_bytes mc ?s) \<le> K"
    using q(2) kept dims count by (intro sizes(1)) (auto simp: in_training_def finish_training_def)
  have "length rel + length (sm_to_bytes mc ?s) + 2 < 2 ^ 32 - 1" using K room by simp
  from means_store_load [OF mc rel(1) count this] obtain ip rel1 where st:
    "means_store header_le pg_page_8k mc ?f rel = Inr (ip, rel1)" "is_valid ip" "rel_inv rel1" "length rel \<le> length rel1"
    "length rel1 \<le> length rel + length (sm_to_bytes mc ?s) + 1" "\<forall>b < length rel. rel1 ! b = rel ! b"
    and ld: "\<And>rel2 meta. length rel1 \<le> length rel2 \<and> (\<forall>b. length rel \<le> b \<and> b < length rel1 \<longrightarrow> rel2 ! b = rel1 ! b) \<Longrightarrow>
       get_quantizer_metadata_pointer meta = Inr (Some ip) \<Longrightarrow>
       means_load header_le mc meta rel2 =
         Inr (sbq_load (q_count ?f) (q_mean ?f) (q_m2 ?f) (sbq_quantizer_new (unat (m_bq_num_bits_per_dimension meta))))"
    by blast
  let ?meta = "set_quantizer_metadata_pointer ip meta"
  have train: "maybe_train_quantizer header_le pg_page_8k mc alloc rows meta rel m = Inr (?meta, rel1, m)"
    using kept st(1) by (simp add: maybe_train_quantizer_def meta(3) Let_def train_rows [OF meta(1) al rows] q(1) finish_training_def)
  have v: "meta_valid ?meta" using meta(2) by (simp add: meta_valid_def set_quantizer_metadata_pointer_def)
  have first: "if False then rel1 = [] else rel1 \<noteq> [] \<and> is_ok (read_from_page (rel1 ! 0))"
    using rel(2, 3) st(4, 6) by (cases rel1) auto
  have len: "length rel1 + length (ser_meta c ?meta) + 21 < 2 ^ 32 - 1" using st(5) K sizes(2) [of ip] room by simp
  from meta_codec_laws.meta_store_fetch [OF c v st(3) len first] obtain rel2 where r:
    "meta_store c header_le pg_page_8k ?meta rel1 False = Inr rel2" "length rel1 \<le> length rel2"
    "\<forall>b. 0 < b \<and> b < length rel1 \<longrightarrow> rel2 ! b = rel1 ! b" "meta_fetch c header_le rel2 = Inr ?meta" "rel_inv rel2" by blast
  have more: "rel_inv rel1 \<and> rel1 \<noteq> [] \<and> rel_inv rel2 \<and> length rel1 \<le> length rel + K + 1" using r(5) st(3, 5) K first by auto
  have "get_quantizer_metadata_pointer ?meta = Inr (Some ip)"
    using meta(3) st(2) by (simp add: get_quantizer_metadata_pointer_def set_quantizer_metadata_pointer_def meta_storage_type_def)
  moreover have "length rel1 \<le> length rel2 \<and> (\<forall>b. length rel \<le> b \<and> b < length rel1 \<longrightarrow> rel2 ! b = rel1 ! b)"
    using r(2, 3) rel(2) by (cases rel) auto
  ultimately have "means_load header_le mc ?meta rel2 =
      Inr (sbq_load (q_count ?f) (q_mean ?f) (q_m2 ?f) (sbq_quantizer_new ?bits))"
    using ld by (simp add: set_quantizer_metadata_pointer_def)
  moreover have "sbq_load (q_count ?f) (q_mean ?f) (q_m2 ?f) (sbq_quantizer_new ?bits) = ?f"
    using kept by (simp add: sbq_load_def sbq_quantizer_new_def finish_training_def)
  ultimately show ?thesis
    unfolding Let_def using q train st(2) r(1, 4) more by (intro exI [of _ q] exI [of _ ip] exI [of _ rel1] exI [of _ rel2]) simp
qed

text \<open>
  C16. The quantiser that a build trains is the one that every later insertion and scan loads: the build
  samples the part of each row's vector that the index uses, rows without a vector are no samples,
  and after the meta page has been published, fetching it and loading the quantiser it points to
  yields exactly what was trained, with the training over; all vectors of the training are freed.
\<close>

theorem training_persists:
  assumes "means_codec_ok mc" "meta_codec_laws c" "alloc_ok alloc"
    and "dims_ok meta" "meta_valid meta" "meta_storage_type meta = Inr SbqCompression" "0 < unat (m_bq_num_bits_per_dimension meta)"
    and "length rows < 2 ^ 64" "\<forall>vec \<in> set rows. \<forall>d \<in> set_option vec. varlena_ok d \<and> datum_fits meta d"
    and "rel_inv rel" "rel \<noteq> []" "is_ok (read_from_page (rel ! 0))"
    and "\<And>s. means_count s < 2 ^ 64 \<Longrightarrow> length (means_means s) \<le> MAX_DIMENSION \<Longrightarrow> length (means_m2 s) \<le> MAX_DIMENSION \<Longrightarrow>
        length (sm_to_bytes mc s) \<le> K"
    and "\<And>p. length (ser_meta c (set_quantizer_metadata_pointer p meta)) \<le> K" "length rel + 2 * K + 30 < 2 ^ 32 - 1"
  shows "\<exists>q meta' rel1 rel2.
    rfold add_sample (train_samples meta rows)
      (start_training (unat (m_num_dimensions_to_index meta)) (sbq_quantizer_new (unat (m_bq_num_bits_per_dimension meta)))) = Inr q \<and>
    q_count q = length (train_samples meta rows) \<and>
    maybe_train_quantizer header_le pg_page_8k mc alloc rows meta rel m = Inr (meta', rel1, m) \<and>
    meta_store c header_le pg_page_8k meta' rel1 False = Inr rel2 \<and> meta_fetch c header_le rel2 = Inr meta' \<and>
    means_load header_le mc meta' rel2 = Inr (finish_training q)"
  using trained_persists [OF assms, of m] unfolding Let_def by blast

theorem training_persists_witness:
  "\<exists>q meta' rel1 rel2.
    rfold add_sample (train_samples sample_datum_meta [Some sample_datum, None])
      (start_training (unat (m_num_dimensions_to_index sample_datum_meta))
         (sbq_quantizer_new (unat (m_bq_num_bits_per_dimension sample_datum_meta)))) = Inr q \<and>
    q_count q = length (train_samples sample_datum_meta [Some sample_datum, None]) \<and>
    maybe_train_quantizer header_le pg_page_8k sample_means_codec sample_alloc [Some sample_datum, None] sample_datum_meta
      [InitPage (tsv_opaque_new Meta) []] [] = Inr (meta', rel1, []) \<and>
    meta_store sample_codec header_le pg_page_8k meta' rel1 False = Inr rel2 \<and> meta_fetch sample_codec header_le rel2 = Inr meta' \<and>
    means_load header_le sample_means_codec meta' rel2 = Inr (finish_training q)"
proof -
  let ?rel = "[InitPage (tsv_opaque_new Meta) []] :: chain_rel"
  have meta: "meta_valid sample_datum_meta" "meta_storage_type sample_datum_meta = Inr SbqCompression"
    "0 < unat (m_bq_num_bits_per_dimension sample_datum_meta)"
    by (simp_all add: meta_valid_def sample_datum_meta_def ensure_valid_dimensions_def MAX_DIMENSION_def meta_storage_type_def
        storage_type_from_u8_def)
  have rows: "\<forall>vec \<in> set [Some sample_datum, None]. \<forall>d \<in> set_option vec. varlena_ok d \<and> datum_fits sample_datum_meta d"
    using sample_datum_ok by simp
  have rel: "rel_inv ?rel" "?rel \<noteq> []" "is_ok (read_from_page (?rel ! 0))"
    by (auto simp: rel_inv_def page_inv_def)
  show ?thesis
    by (rule training_persists [OF sample_means_codec_ok sample_codec.meta_codec_laws_axioms sample_alloc_ok sample_datum_ok(1) meta
          _ rows rel sample_means_codec_length sample_meta_length]) simp_all
qed

end
