(* ===== verification/Index_Access.thy ===== *)
theory Index_Access
  imports Row_Storages Sbq_Means
begin

text \<open>
  The access method's entry points of \<open>build.rs\<close> that put rows into an index: \<open>aminsert\<close>, and the serial
  build, over the two storages with their constructors (\<open>plain/storage.rs\<close>, \<open>sbq/storage.rs\<close>). The scan
  of the table is the list of rows that it delivers. The pages of the index relation are kept apart by
  what their items are: chained pages, nodes of the plain storage, nodes of the SBQ storage.
\<close>

section \<open>Environment and state\<close>

text \<open>
  What PostgreSQL, the compiler and the libraries provide: \<open>env_work_mem\<close> is \<open>maintenance_work_mem\<close> in
  kilobytes, the sizes are those of the Rust types, \<open>env_order\<close> the order in which a hash set is iterated.
\<close>

record pg_env =
  env_codec :: meta_codec
  env_means :: means_codec
  env_simd :: simd
  env_alloc :: allocator
  env_order :: "neighbor_with_distance list \<Rightarrow> neighbor_with_distance list"
  env_heap_fetch :: "heap_pointer \<Rightarrow> pg_vector option"
  env_plain_size :: "plain_node \<Rightarrow> nat"
  env_sbq_size :: "sbq_node \<Rightarrow> nat"
  env_work_mem :: nat
  env_size_ip :: nat
  env_size_vec :: nat
  env_size_entry :: nat
  env_size_neighbor :: nat

record index_state =
  ix_chain :: chain_rel
  ix_plain :: "plain_node world"
  ix_sbq :: "sbq_node world"
  ix_memory :: memory

text \<open>A row of the table, or to be inserted.\<close>

record heap_row =
  row_ctid :: heap_pointer
  row_vector :: "vector_datum option"
  row_labels :: "label option list option"

definition BUILDER_NEIGHBOR_CACHE_SIZE :: f64 where "BUILDER_NEIGHBOR_CACHE_SIZE = 0x3FE999999999999A"
definition QUANTIZED_VECTOR_CACHE_SIZE :: f64 where "QUANTIZED_VECTOR_CACHE_SIZE = 0x3FC999999999999A"

definition maintenance_work_mem_bytes :: "pg_env \<Rightarrow> nat" where
  "maintenance_work_mem_bytes env = env_work_mem env * 1024"

section \<open>Storages\<close>

text \<open>The three constructors of \<open>PlainStorage\<close> are the same.\<close>

definition plain_storage_new :: "pg_env \<Rightarrow> meta_page \<Rightarrow> plain_storage res" where
  "plain_storage_new env meta =
     rbind (meta_distance_type meta) (\<lambda>t.
     Inr \<lparr>ps_simd = env_simd env, ps_distance_type = t, ps_num_neighbors = unat (m_num_neighbors meta),
          ps_num_dimensions = unat (m_num_dimensions meta), ps_num_dimensions_to_index = unat (m_num_dimensions_to_index meta),
          ps_node_size = env_plain_size env, ps_heap_fetch = env_heap_fetch env\<rparr>)"

definition sbq_vec_len :: "meta_page \<Rightarrow> nat" where
  "sbq_vec_len meta = quantized_size_internal (unat (m_num_dimensions_to_index meta)) (unat (m_bq_num_bits_per_dimension meta))"

definition sbq_cache_new :: "pg_env \<Rightarrow> meta_page \<Rightarrow> qv_cache res" where
  "sbq_cache_new env meta =
     qv_cache_new (maintenance_work_mem_bytes env) (env_size_ip env) (env_size_vec env) QUANTIZED_VECTOR_CACHE_SIZE
       (sbq_vec_len meta) (unat (m_num_neighbors meta))"

text \<open>\<open>load_for_search\<close> gets the quantiser from the scan; a storage for a search has no cache.\<close>

definition sbq_load_for_search ::
  "pg_env \<Rightarrow> sbq_quantizer \<Rightarrow> meta_page \<Rightarrow> sbq_node world \<Rightarrow> (sbq_storage \<times> sbq_node world) res" where
  "sbq_load_for_search env quantizer meta w =
     rbind (meta_distance_type meta) (\<lambda>t.
     Inr (\<lparr>sq_quantizer = quantizer, sq_has_labels = m_has_labels meta, sq_num_neighbors = unat (m_num_neighbors meta),
           sq_simd = env_simd env, sq_distance_type = t, sq_node_size = env_sbq_size env,
           sq_heap_fetch = env_heap_fetch env, sq_lru = lru_list\<rparr>, w\<lparr>w_cache := None\<rparr>))"

text \<open>The distance type is read before the quantiser by an insertion, after it by a build.\<close>

definition sbq_load_for_insert ::
  "pg_env \<Rightarrow> meta_page \<Rightarrow> chain_rel \<Rightarrow> sbq_node world \<Rightarrow> (sbq_storage \<times> sbq_node world) res" where
  "sbq_load_for_insert env meta rel w =
     rbind (meta_distance_type meta) (\<lambda>_.
     rbind (means_load header_le (env_means env) meta rel) (\<lambda>quantizer.
     rbind (sbq_cache_new env meta) (\<lambda>cache.
     rbind (sbq_load_for_search env quantizer meta w) (\<lambda>(s, w).
     Inr (s, w\<lparr>w_cache := Some cache\<rparr>)))))"

definition sbq_new_for_build ::
  "pg_env \<Rightarrow> meta_page \<Rightarrow> chain_rel \<Rightarrow> sbq_node world \<Rightarrow> (sbq_storage \<times> sbq_node world) res" where
  "sbq_new_for_build env meta rel w =
     rbind (means_load header_le (env_means env) meta rel) (\<lambda>quantizer.
     rbind (meta_distance_type meta) (\<lambda>_.
     rbind (sbq_cache_new env meta) (\<lambda>cache.
     rbind (sbq_load_for_search env quantizer meta w) (\<lambda>(s, w).
     Inr (s, w\<lparr>w_cache := Some cache\<rparr>)))))"

section \<open>Insertion\<close>

definition insert_storage ::
  "pg_env \<Rightarrow> ('n, 'd, 'q, 'pd) storage \<Rightarrow> page_type \<Rightarrow> labeled_vector \<Rightarrow> heap_pointer \<Rightarrow> meta_page \<Rightarrow> 'n world \<Rightarrow> chain_rel
     \<Rightarrow> ('n world \<times> chain_rel) res" where
  "insert_storage env S pt vector hp meta w rel =
     rbind (tape_resume (w_rel w) pt) (\<lambda>(tape, r).
     rbind (to_index_slice (lv_vec vector)) (\<lambda>slice.
     rbind (s_create_node S pg_page_8k slice (lv_labels vector) hp tape (w\<lparr>w_rel := r\<rparr>)) (\<lambda>(index_pointer, _, w).
     rbind (graph_insert (env_codec env) header_le pg_page_8k S lru_list (env_order env) \<lparr>g_store = DiskStore, g_meta = meta\<rparr>
              index_pointer vector w rel) (\<lambda>(_, w, rel).
     Inr (w, rel)))))"

text \<open>The arms of the two storages.\<close>

definition insert_arm :: "pg_env \<Rightarrow> storage_type \<Rightarrow> meta_page \<Rightarrow> labeled_vector \<Rightarrow> heap_pointer \<Rightarrow> index_state \<Rightarrow> index_state res" where
  "insert_arm env storage meta vector hp ix =
     (case storage of
        Plain \<Rightarrow>
          rbind (plain_storage_new env meta) (\<lambda>s.
          rbind (rassert (lv_labels vector = None) ''vec.labels().is_none()'') (\<lambda>_.
          rbind (insert_storage env (plain_storage_ops s) Node vector hp meta (ix_plain ix) (ix_chain ix)) (\<lambda>(w, rel).
          Inr (ix\<lparr>ix_plain := w, ix_chain := rel\<rparr>))))
      | SbqCompression \<Rightarrow>
          rbind (sbq_load_for_insert env meta (ix_chain ix) (ix_sbq ix)) (\<lambda>(s, w).
          rbind (insert_storage env (sbq_storage_ops s) SbqNode vector hp meta w (ix_chain ix)) (\<lambda>(w, rel).
          Inr (ix\<lparr>ix_sbq := w\<lparr>w_cache := None\<rparr>, ix_chain := rel\<rparr>))))"

text \<open>The vector is consumed by the insertion into the graph, which frees it. The answer is always \<open>False\<close>.\<close>

definition aminsert_internal :: "pg_env \<Rightarrow> heap_row \<Rightarrow> index_state \<Rightarrow> (bool \<times> index_state) res" where
  "aminsert_internal env row ix =
     rbind (meta_fetch (env_codec env) header_le (ix_chain ix)) (\<lambda>meta.
     rbind (lv_from_datums (env_alloc env) [row_vector row] [row_vector row = None] (row_labels row) meta (ix_memory ix)) (\<lambda>(vec, m).
     case vec of
       None \<Rightarrow> Inr (False, ix\<lparr>ix_memory := m\<rparr>)
     | Some (v, ls) \<Rightarrow>
         rbind (meta_storage_type meta) (\<lambda>storage.
         rbind (insert_arm env storage meta \<lparr>lv_vec = pgv_view v m, lv_labels = ls\<rparr> (row_ctid row) ix) (\<lambda>ix.
         rbind (pgv_drop v m) (\<lambda>m.
         Inr (False, ix\<lparr>ix_memory := m\<rparr>))))))"

section \<open>Serial builds\<close>

record build_state =
  bs_ntuples :: nat
  bs_tape :: tape
  bs_graph :: graph

definition build_state_new :: "'n world \<Rightarrow> graph \<Rightarrow> page_type \<Rightarrow> (build_state \<times> 'n world) res" where
  "build_state_new w gr pt =
     rbind (tape_new (w_rel w) pt) (\<lambda>(tape, r).
     Inr (\<lparr>bs_ntuples = 0, bs_tape = tape, bs_graph = gr\<rparr>, w\<lparr>w_rel := r\<rparr>))"

definition build_callback_internal ::
  "pg_env \<Rightarrow> ('n, 'd, 'q, 'pd) storage \<Rightarrow> heap_pointer \<Rightarrow> labeled_vector \<Rightarrow> build_state \<times> 'n world \<times> chain_rel
     \<Rightarrow> (build_state \<times> 'n world \<times> chain_rel) res" where
  "build_callback_internal env S hp vector = (\<lambda>(bs, w, rel).
     let bs = bs\<lparr>bs_ntuples := bs_ntuples bs + 1\<rparr> in
     rbind (to_index_slice (lv_vec vector)) (\<lambda>slice.
     rbind (s_create_node S pg_page_8k slice (lv_labels vector) hp (bs_tape bs) w) (\<lambda>(index_pointer, tape, w).
     rbind (graph_insert (env_codec env) header_le pg_page_8k S lru_list (env_order env) (bs_graph bs) index_pointer vector w rel)
       (\<lambda>(gr, w, rel).
     Inr (bs\<lparr>bs_tape := tape, bs_graph := gr\<rparr>, w, rel)))))"

text \<open>The two arms of \<open>build_callback\<close> are the same for both storages.\<close>

definition build_callback ::
  "pg_env \<Rightarrow> ('n, 'd, 'q, 'pd) storage \<Rightarrow> heap_row \<Rightarrow> build_state \<times> 'n world \<times> chain_rel \<times> memory
     \<Rightarrow> (build_state \<times> 'n world \<times> chain_rel \<times> memory) res" where
  "build_callback env S row = (\<lambda>(bs, w, rel, m).
     rbind (lv_from_datums (env_alloc env) [row_vector row] [row_vector row = None] (row_labels row) (g_meta (bs_graph bs)) m) (\<lambda>(vec, m).
     case vec of
       None \<Rightarrow> Inr (bs, w, rel, m)
     | Some (v, ls) \<Rightarrow>
         rbind (build_callback_internal env S (row_ctid row) \<lparr>lv_vec = pgv_view v m, lv_labels = ls\<rparr> (bs, w, rel)) (\<lambda>(bs, w, rel).
         rbind (pgv_drop v m) (\<lambda>m. Inr (bs, w, rel, m)))))"

definition finalize_index_build ::
  "('n, 'd, 'q, 'pd) storage \<Rightarrow> build_state \<Rightarrow> 'n world \<Rightarrow> (nat \<times> 'n world) res" where
  "finalize_index_build S bs w =
     (let meta = g_meta (bs_graph bs) in
      rbind (gns_into_sorted (g_store (bs_graph bs))) (\<lambda>cache_entries.
      rbind (rfold (\<lambda>(index_pointer, entry) w.
               rbind (merge_neighbors_on_disk (s_disk S) index_pointer (e_labels entry) (e_neighbors entry) (m_max_alpha meta)
                        (unat (m_num_neighbors meta)) (MergeBuilder False) w) (\<lambda>(_, w). Inr w)) cache_entries w) (\<lambda>w.
      Inr (bs_ntuples bs, w))))"

definition build_graph :: "pg_env \<Rightarrow> meta_page \<Rightarrow> nat \<Rightarrow> graph" where
  "build_graph env meta worker_count =
     \<lparr>g_store = BuilderStore (builder_cache_new (maintenance_work_mem_bytes env) (env_size_entry env) (env_size_neighbor env)
        BUILDER_NEIGHBOR_CACHE_SIZE (unat (m_num_neighbors meta)) (m_has_labels meta) (m_max_alpha meta) worker_count),
      g_meta = meta\<rparr>"

text \<open>The part of \<open>do_heap_scan\<close> that is the same for both storages, once the storage has been made.\<close>

definition scan_rows ::
  "pg_env \<Rightarrow> ('n, 'd, 'q, 'pd) storage \<Rightarrow> page_type \<Rightarrow> graph \<Rightarrow> heap_row list \<Rightarrow> 'n world \<Rightarrow> chain_rel \<Rightarrow> memory
     \<Rightarrow> (nat \<times> 'n world \<times> chain_rel \<times> memory) res" where
  "scan_rows env S pt gr rows w rel m =
     rbind (build_state_new w gr pt) (\<lambda>(bs, w).
     rbind (rfold (build_callback env S) rows (bs, w, rel, m)) (\<lambda>(bs, w, rel, m).
     rbind (finalize_index_build S bs w) (\<lambda>(ntuples, w).
     Inr (ntuples, w, rel, m))))"

definition do_heap_scan :: "pg_env \<Rightarrow> heap_row list \<Rightarrow> meta_page \<Rightarrow> nat \<Rightarrow> index_state \<Rightarrow> (nat \<times> index_state) res" where
  "do_heap_scan env rows meta worker_count ix =
     rbind (meta_storage_type meta) (\<lambda>storage.
     let graph = build_graph env meta worker_count in
     case storage of
       Plain \<Rightarrow>
         rbind (plain_storage_new env meta) (\<lambda>s.
         rbind (scan_rows env (plain_storage_ops s) Node graph rows (ix_plain ix) (ix_chain ix) (ix_memory ix)) (\<lambda>(n, w, rel, m).
         Inr (n, ix\<lparr>ix_plain := w, ix_chain := rel, ix_memory := m\<rparr>)))
     | SbqCompression \<Rightarrow>
         rbind (sbq_new_for_build env meta (ix_chain ix) (ix_sbq ix)) (\<lambda>(s, w).
         rbind (scan_rows env (sbq_storage_ops s) SbqNode graph rows w (ix_chain ix) (ix_memory ix)) (\<lambda>(n, w, rel, m).
         Inr (n, ix\<lparr>ix_sbq := w\<lparr>w_cache := None\<rparr>, ix_chain := rel, ix_memory := m\<rparr>))))"

end
