(* ===== verification/Index_Rows.thy ===== *)
theory Index_Rows
  imports Index_Access
begin

text \<open>
  What \<open>aminsert\<close> and the serial build do to the rows of an index, over the contract \<open>node_storage\<close>: an
  insertion adds exactly its row, at a pointer that held nothing, and a build adds those of the table.
\<close>

section \<open>The meta page of an insertion\<close>

text \<open>A meta page that is on disk and can be published again, whatever entry point is added.\<close>

definition meta_ready :: "meta_codec \<Rightarrow> chain_rel \<Rightarrow> meta_page \<Rightarrow> label_set option \<Rightarrow> bool" where
  "meta_ready c rel meta ls \<longleftrightarrow>
     meta_codec_laws c \<and> meta_fetch c header_le rel = Inr meta \<and> meta_valid meta \<and> start_ok (m_start_nodes meta) \<and> rel_inv rel \<and>
     entry_points_ok meta \<and> f64_le (m_max_alpha meta) 0x4014000000000000 \<and>
     (\<forall>ip. length rel + length (ser_meta c (with_entry meta ip ls)) + 21 < 2 ^ 32 - 1)"

lemma meta_readyD:
  assumes "meta_ready c rel meta ls"
  shows "meta_codec_laws c" "meta_codec_laws.publishable c rel meta ip ls" "entry_points_ok meta"
    "f64_le (m_max_alpha meta) 0x4014000000000000" "meta_fetch c header_le rel = Inr meta"
  using assms by (simp_all add: meta_ready_def meta_codec_laws.publishable_def)

text \<open>What an insertion publishes: the meta page, with the new node as an entry point where one was missing.\<close>

definition published :: "meta_codec \<Rightarrow> chain_rel \<Rightarrow> meta_page \<Rightarrow> label_set option \<Rightarrow> bool" where
  "published c rel' meta ls \<longleftrightarrow>
     (\<exists>meta'. meta_fetch c header_le rel' = Inr meta' \<and> has_entry meta' ls \<and>
        entry_extends (m_start_nodes meta) (m_start_nodes meta') \<and> meta'\<lparr>m_start_nodes := m_start_nodes meta\<rparr> = meta)"

lemma graph_insert_published:
  assumes ready: "meta_ready c rel (g_meta gr) (lv_labels vec)"
    and run: "graph_insert c header_le pg_page_8k S lops ord gr ip vec w rel = Inr (gr', w', rel')"
  shows "published c rel' (g_meta gr) (lv_labels vec)"
    and "has_entry (g_meta gr) (lv_labels vec) \<Longrightarrow> rel' = rel"
proof -
  note r = meta_readyD [OF ready]
  obtain gr1 w1 where up: "update_start_nodes c header_le pg_page_8k S lops gr ip (lv_labels vec) w rel = Inr (gr1, w1, rel')"
    using run unfolding graph_insert_def by (auto split: if_splits simp del: not_None_eq)
  have s: "start_ok (m_start_nodes (g_meta gr))" using ready by (simp add: meta_ready_def)
  have refl: "g_meta gr\<lparr>m_start_nodes := m_start_nodes (g_meta gr)\<rparr> = g_meta gr" by simp
  note e = merge_extends(1) [OF s, of ip "lv_labels vec"]
  have keep: "with_entry (g_meta gr) ip (lv_labels vec)\<lparr>m_start_nodes := m_start_nodes (g_meta gr)\<rparr> = g_meta gr"
    "m_start_nodes (with_entry (g_meta gr) ip (lv_labels vec)) = Some (merge_start_nodes (m_start_nodes (g_meta gr)) ip (lv_labels vec))"
    by (simp_all add: set_start_nodes_def)
  have "\<exists>meta'. meta_fetch c header_le rel' = Inr meta' \<and> has_entry meta' (lv_labels vec) \<and>
      entry_extends (m_start_nodes (g_meta gr)) (m_start_nodes meta') \<and> meta'\<lparr>m_start_nodes := m_start_nodes (g_meta gr)\<rparr> = g_meta gr"
    using meta_codec_laws.update_start_nodes_facts [OF r(1) up r(2)]
  proof (elim conjE disjE, goal_cases)
    case 1
    then show ?case using r(5) refl by (intro exI [of _ "g_meta gr"]) simp
  next
    case 2
    then show ?case using r(5) refl by (intro exI [of _ "g_meta gr"]) simp
  next
    case 3
    then show ?case using e keep by (intro exI [of _ "g_meta gr1"]) simp
  qed
  then show "published c rel' (g_meta gr) (lv_labels vec)" by (simp add: published_def)
  show "rel' = rel" if "has_entry (g_meta gr) (lv_labels vec)"
    using up that by (simp add: update_start_nodes_def has_entry_def)
qed

section \<open>One insertion\<close>

lemma item_at_empty_page [simp]: "item_at (rel @ [InitPage k []]) q = item_at rel q"
  by (rule item_at_new_page) (simp add: items_of_def)

lemma tape_new_fuel [no_fuel]: "tape_new rel t \<noteq> Inl OutOfFuel"
  unfolding tape_new_def writable_new_def Let_def by (intro no_fuel)

lemma find_newest_fuel [no_fuel]: "find_newest rel t n \<noteq> Inl OutOfFuel"
proof (induction n)
  case (Suc n)
  have "readable_type pg \<noteq> Inl OutOfFuel" for pg :: "'a page"
    unfolding readable_type_def by (intro no_fuel)
  with Suc show ?case unfolding find_newest.simps by (intro no_fuel)
qed simp

lemma tape_resume_fuel: "tape_resume rel t \<noteq> Inl OutOfFuel"
  unfolding tape_resume_def by (intro no_fuel)

text \<open>A row has been added at a fresh pointer; other backends, if there are any, may have added more.\<close>

definition row_added :: "('n \<Rightarrow> 'r) \<Rightarrow> 'n \<Rightarrow> 'n world \<Rightarrow> 'n world \<Rightarrow> bool" where
  "row_added row n w w' \<longleftrightarrow>
     (\<exists>ip. rows_at row (w_rel w) ip = None \<and>
        (w_others w = [] \<longrightarrow> w_others w' = [] \<and> rows_at row (w_rel w') = (rows_at row (w_rel w))(ip \<mapsto> row n)) \<and>
        (others_keep row w \<longrightarrow> others_keep row w' \<and> (rows_at row (w_rel w))(ip \<mapsto> row n) \<subseteq>\<^sub>m rows_at row (w_rel w')))"

lemma row_added_step:
  assumes "rows_at row (w_rel w) ip = None" "rows_at row (w_rel w1) = (rows_at row (w_rel w))(ip \<mapsto> row n)"
    and "w_others w1 = w_others w" "moved row w1 w'"
  shows "row_added row n w w'"
  using assms moved_alone [OF assms(4)] moved_among [OF assms(4)]
  by (auto simp: row_added_def others_keep_def same_rows_def intro!: exI [of _ ip])

context node_storage
begin

lemma resume_facts:
  assumes "tape_resume (w_rel w) pt = Inr (tp, r)" "winv w" "length (w_rel w) + 2 < 2 ^ 32 - 1"
  shows "winv (w\<lparr>w_rel := r\<rparr>) \<and> tape_inv r tp \<and> t_page_type tp = pt \<and> blocks_left r \<and> rows_at row r = rows_at row (w_rel w)"
proof -
  have b: "blocks_left (w_rel w)" using assms(3) by (simp add: blocks_left_def)
  show ?thesis
    using tape_resume_rows [OF assms(1) winv_rel [OF assms(2)]] assms(2, 3) new_page [OF assms(2) b]
    by (auto simp: blocks_left_def rows_at_def fun_eq_iff)
qed

lemma insert_storage_fuel:
  assumes ready: "meta_ready (env_codec env) rel meta (lv_labels vec)" and ord: "\<And>v. mset (env_order env v) = mset v"
    and lops: "lops = lru_list" and w: "winv w" "length (w_rel w) + 2 < 2 ^ 32 - 1"
  shows "insert_storage env S pt vec hp meta w rel \<noteq> Inl OutOfFuel"
proof -
  note r = meta_readyD [OF ready]
  have g: "graph_ok \<lparr>g_store = DiskStore, g_meta = meta\<rparr>" using r(3, 4) by (simp add: graph_ok_def gns_ok_def)
  have tr: "tape_resume (w_rel w) pt \<noteq> Inl OutOfFuel" using tape_resume_fuel .
  have sl: "to_index_slice (lv_vec vec) \<noteq> Inl OutOfFuel" unfolding to_index_slice_def by (intro no_fuel)
  show ?thesis
    unfolding insert_storage_def
  proof (rule rbind_fuel [OF tr], rule prod_fuel, rule rbind_fuel [OF sl], rule rbind_fuel [OF create_node_fuel], goal_cases)
    case (1 x tp r slice y)
    obtain ip tp' w1 where y: "y = (ip, tp', w1)" by (cases y)
    have tr: "tape_resume (w_rel w) pt = Inr (tp, r)" using 1 by simp
    note rf = resume_facts [OF tr w]
    have "winv w1" "block_number ip \<noteq> InvalidBlockNumber" using create_node [of "w\<lparr>w_rel := r\<rparr>" tp slice] rf 1 y by auto
    from graph_insert_facts(1) [OF r(1) r(2) r(3, 4) this(1) g this(2) ord] show ?case
      unfolding y case_prod_conv lops by (intro no_fuel)
  qed
qed

lemma insert_storage_rows:
  assumes ready: "meta_ready (env_codec env) rel meta (lv_labels vec)" and ord: "\<And>v. mset (env_order env v) = mset v"
    and lops: "lops = lru_list" and w: "winv w" "length (w_rel w) + 2 < 2 ^ 32 - 1"
    and run: "insert_storage env S pt vec hp meta w rel = Inr (w', rel')"
  shows "winv w' \<and> published (env_codec env) rel' meta (lv_labels vec) \<and>
    (\<exists>slice n. to_index_slice (lv_vec vec) = Inr slice \<and> new_node slice (lv_labels vec) hp = Inr n \<and> row_added row n w w')"
proof -
  note r = meta_readyD [OF ready]
  let ?gr = "\<lparr>g_store = DiskStore, g_meta = meta\<rparr>"
  have g: "graph_ok ?gr" using r(3, 4) by (simp add: graph_ok_def gns_ok_def)
  obtain tp r' slice ip tp' w1 gr' where s: "tape_resume (w_rel w) pt = Inr (tp, r')" "to_index_slice (lv_vec vec) = Inr slice"
    "s_create_node S pg_page_8k slice (lv_labels vec) hp tp (w\<lparr>w_rel := r'\<rparr>) = Inr (ip, tp', w1)"
    "graph_insert (env_codec env) header_le pg_page_8k S lops (env_order env) ?gr ip vec w1 rel = Inr (gr', w', rel')"
    using run by (auto simp: insert_storage_def lops)
  note rf = resume_facts [OF s(1) w]
  have pre: "winv (w\<lparr>w_rel := r'\<rparr>)" "tape_inv (w_rel (w\<lparr>w_rel := r'\<rparr>)) tp" "t_page_type tp = pt" "blocks_left (w_rel (w\<lparr>w_rel := r'\<rparr>))"
    using rf by simp_all
  note c = create_node [OF pre s(3)]
  then obtain n where n: "new_node slice (lv_labels vec) hp = Inr n" "rows_at row (w_rel w) ip = None"
    "rows_at row (w_rel w1) = (rows_at row (w_rel w))(ip \<mapsto> row n)" using rf by auto
  have c1: "winv w1" "block_number ip \<noteq> InvalidBlockNumber" "w_others w1 = w_others w" using c by auto
  note gi = graph_insert_facts(2) [OF r(1) r(2) r(3, 4) c1(1) g c1(2) ord s(4)]
  have "moved row w1 w'" by (rule graph_insert_moved [OF r(1) r(2) r(3, 4) c1(1) g c1(2) ord s(4)])
  then have "row_added row n w w'" by (rule row_added_step [OF n(2, 3) c1(3)])
  then show ?thesis using gi n(1) s(2) graph_insert_published(1) [OF _ s(4)] ready by auto
qed

end

section \<open>The rows of an index\<close>

text \<open>
  The abstract index: a map from pointers to rows. \<open>expected_row\<close> is what a row of the table should be
  in the index: the part of its vector that is indexed, prepared for the distance and, in the SBQ
  storage, quantised, with its labels if the index has any.
\<close>

datatype index_row =
    PlainRow heap_pointer "f32 list"
  | SbqRow heap_pointer "64 word list" "label_set option"

definition index_rows :: "storage_type \<Rightarrow> index_state \<Rightarrow> item_pointer \<Rightarrow> index_row option" where
  "index_rows st ix p =
     (case st of
        Plain \<Rightarrow> map_option (\<lambda>n. PlainRow (p_heap n) (p_vector n)) (item_at (w_rel (ix_plain ix)) p)
      | SbqCompression \<Rightarrow>
          map_option (\<lambda>n. SbqRow (sbq_heap_item_pointer n) (sbq_bq_vector n) (sbq_labels n)) (item_at (w_rel (ix_sbq ix)) p))"

definition expected_row :: "pg_env \<Rightarrow> storage_type \<Rightarrow> meta_page \<Rightarrow> chain_rel \<Rightarrow> heap_row \<Rightarrow> vector_datum \<Rightarrow> index_row res" where
  "expected_row env st meta rel row d =
     (let x = prepared meta (take (unat (m_num_dimensions_to_index meta)) (vd_x d)) in
      case st of
        Plain \<Rightarrow> Inr (PlainRow (row_ctid row) x)
      | SbqCompression \<Rightarrow>
          rbind (means_load header_le (env_means env) meta rel) (\<lambda>q.
          rbind (vector_for_new_node q x) (\<lambda>code.
          Inr (SbqRow (row_ctid row) code
            (if m_has_labels meta then Some (case labels_from_datum True (row_labels row) of Some l \<Rightarrow> l | None \<Rightarrow> label_set_default)
             else None)))))"

text \<open>The nodes of the storage in use are well formed and other backends keep them so, and lose no row.\<close>

definition nodes_world :: "storage_type \<Rightarrow> meta_page \<Rightarrow> index_state \<Rightarrow> bool" where
  "nodes_world st meta ix =
     (case st of
        Plain \<Rightarrow> node_world p_neighbors (unat (m_num_neighbors meta)) p_vector (ix_plain ix)
      | SbqCompression \<Rightarrow> node_world sbq_slots (unat (m_num_neighbors meta)) sbq_core (ix_sbq ix))"

definition rows_kept :: "storage_type \<Rightarrow> index_state \<Rightarrow> bool" where
  "rows_kept st ix = (case st of Plain \<Rightarrow> others_keep plain_row (ix_plain ix) | SbqCompression \<Rightarrow> others_keep sbq_row (ix_sbq ix))"

definition alone :: "storage_type \<Rightarrow> index_state \<Rightarrow> bool" where
  "alone st ix = (case st of Plain \<Rightarrow> w_others (ix_plain ix) = [] | SbqCompression \<Rightarrow> w_others (ix_sbq ix) = [])"

definition node_blocks :: "storage_type \<Rightarrow> index_state \<Rightarrow> nat" where
  "node_blocks st ix = (case st of Plain \<Rightarrow> length (w_rel (ix_plain ix)) | SbqCompression \<Rightarrow> length (w_rel (ix_sbq ix)))"

abbreviation plain_index_row :: "heap_pointer \<times> f32 list \<Rightarrow> index_row" where
  "plain_index_row r \<equiv> PlainRow (fst r) (snd r)"

abbreviation sbq_index_row :: "heap_pointer \<times> 64 word list \<times> label_set option \<Rightarrow> index_row" where
  "sbq_index_row r \<equiv> SbqRow (fst r) (fst (snd r)) (snd (snd r))"

lemma index_rows_plain: "index_rows Plain ix = map_option plain_index_row \<circ> rows_at plain_row (w_rel (ix_plain ix))"
  by (auto simp: index_rows_def rows_at_def fun_eq_iff option.map_comp comp_def)

lemma index_rows_sbq: "index_rows SbqCompression ix = map_option sbq_index_row \<circ> rows_at sbq_row (w_rel (ix_sbq ix))"
  by (auto simp: index_rows_def rows_at_def fun_eq_iff option.map_comp comp_def sbq_core_def)

lemma map_option_upd: "map_option f \<circ> m(p \<mapsto> r) = (map_option f \<circ> m)(p \<mapsto> f r)"
  by (auto simp: fun_eq_iff)

lemma map_option_le: "m \<subseteq>\<^sub>m m' \<Longrightarrow> map_option f \<circ> m \<subseteq>\<^sub>m map_option f \<circ> m'"
  by (auto simp: map_le_def dom_def)

text \<open>A row has been added to the index.\<close>

definition index_row_added :: "storage_type \<Rightarrow> index_row \<Rightarrow> index_state \<Rightarrow> index_state \<Rightarrow> bool" where
  "index_row_added st r ix ix' \<longleftrightarrow>
     (\<exists>ip. index_rows st ix ip = None \<and>
        (alone st ix \<longrightarrow> alone st ix' \<and> index_rows st ix' = (index_rows st ix)(ip \<mapsto> r)) \<and>
        (rows_kept st ix \<longrightarrow> rows_kept st ix' \<and> (index_rows st ix)(ip \<mapsto> r) \<subseteq>\<^sub>m index_rows st ix'))"

lemma row_added_map:
  assumes "row_added row n w w'"
  obtains ip where "(map_option f \<circ> rows_at row (w_rel w)) ip = None"
    "w_others w = [] \<longrightarrow> w_others w' = [] \<and>
       map_option f \<circ> rows_at row (w_rel w') = (map_option f \<circ> rows_at row (w_rel w))(ip \<mapsto> f (row n))"
    "others_keep row w \<longrightarrow> others_keep row w' \<and>
       (map_option f \<circ> rows_at row (w_rel w))(ip \<mapsto> f (row n)) \<subseteq>\<^sub>m map_option f \<circ> rows_at row (w_rel w')"
proof -
  obtain ip where "rows_at row (w_rel w) ip = None"
    "w_others w = [] \<longrightarrow> w_others w' = [] \<and> rows_at row (w_rel w') = (rows_at row (w_rel w))(ip \<mapsto> row n)"
    "others_keep row w \<longrightarrow> others_keep row w' \<and> (rows_at row (w_rel w))(ip \<mapsto> row n) \<subseteq>\<^sub>m rows_at row (w_rel w')"
    using assms by (auto simp: row_added_def)
  then show ?thesis
    using map_option_le [of "(rows_at row (w_rel w))(ip \<mapsto> row n)" "rows_at row (w_rel w')" f]
    by (intro that [of ip]) (auto simp: map_option_upd)
qed

lemma row_added_plain:
  assumes "row_added plain_row n (ix_plain ix) (ix_plain ix')"
  shows "index_row_added Plain (PlainRow (p_heap n) (p_vector n)) ix ix'"
  by (rule row_added_map [OF assms, of plain_index_row])
    (auto simp: index_row_added_def alone_def rows_kept_def index_rows_plain simp del: map_option_o_map_upd comp_apply)

lemma row_added_sbq:
  assumes "row_added sbq_row n (ix_sbq ix) (ix_sbq ix')"
  shows "index_row_added SbqCompression (SbqRow (sbq_heap_item_pointer n) (sbq_bq_vector n) (sbq_labels n)) ix ix'"
  by (rule row_added_map [OF assms, of sbq_index_row])
    (auto simp: index_row_added_def alone_def rows_kept_def index_rows_sbq sbq_core_def simp del: map_option_o_map_upd comp_apply)

section \<open>The access method\<close>

lemma plain_storage_new_Inr:
  "plain_storage_new env meta = Inr s \<Longrightarrow> ps_num_neighbors s = unat (m_num_neighbors meta)"
  by (auto simp: plain_storage_new_def)

lemma sbq_cache_new_ok: "sbq_cache_new env meta = Inr c \<Longrightarrow> lru_inv c \<and> lru_lookup c = Map.empty"
  by (auto simp: sbq_cache_new_def qv_cache_new_def Let_def split: if_splits)

lemma sbq_load_Inr:
  assumes "sbq_load_for_insert env meta rel w = Inr (s, w') \<or> sbq_new_for_build env meta rel w = Inr (s, w')"
  shows "sbq_model s = s \<and> sq_num_neighbors s = unat (m_num_neighbors meta) \<and> sq_has_labels s = m_has_labels meta \<and>
    means_load header_le (env_means env) meta rel = Inr (sq_quantizer s) \<and> w_rel w' = w_rel w \<and> w_others w' = w_others w \<and>
    (node_world sbq_slots (unat (m_num_neighbors meta)) sbq_core w \<longrightarrow> sbq_world s w')"
proof -
  obtain q t c where q: "means_load header_le (env_means env) meta rel = Inr q" "meta_distance_type meta = Inr t"
    "sbq_cache_new env meta = Inr c"
    and s: "s = \<lparr>sq_quantizer = q, sq_has_labels = m_has_labels meta, sq_num_neighbors = unat (m_num_neighbors meta),
           sq_simd = env_simd env, sq_distance_type = t, sq_node_size = env_sbq_size env,
           sq_heap_fetch = env_heap_fetch env, sq_lru = lru_list\<rparr>" "w' = w\<lparr>w_cache := Some c\<rparr>"
    using assms by (auto simp: sbq_load_for_insert_def sbq_new_for_build_def sbq_load_for_search_def)
  have "node_world sbq_slots (unat (m_num_neighbors meta)) sbq_core w \<longrightarrow> sbq_world s w'"
    using sbq_cache_new_ok [OF q(3)] by (simp add: s sbq_world_def qv_coherent_def node_world_def others_ok_def)
  then show ?thesis using q(1) by (simp add: s sbq_model_def)
qed

lemma sbq_world_drop: "sbq_world s w \<Longrightarrow> node_world sbq_slots (sq_num_neighbors s) sbq_core (w\<lparr>w_cache := None\<rparr>)"
  by (simp add: sbq_world_def node_world_def others_ok_def)

lemma distance_type_fuel [no_fuel]: "meta_distance_type meta \<noteq> Inl OutOfFuel"
  unfolding meta_distance_type_def distance_type_from_u16_def by (intro no_fuel)

lemma qv_cache_fuel [no_fuel]: "sbq_cache_new env meta \<noteq> Inl OutOfFuel"
  by (simp add: sbq_cache_new_def qv_cache_new_def Let_def)

lemma plain_storage_new_fuel [no_fuel]: "plain_storage_new env meta \<noteq> Inl OutOfFuel"
  unfolding plain_storage_new_def by (intro no_fuel)

lemma sbq_load_fuel:
  assumes "means_load header_le (env_means env) meta rel \<noteq> Inl OutOfFuel"
  shows "sbq_load_for_insert env meta rel w \<noteq> Inl OutOfFuel" "sbq_new_for_build env meta rel w \<noteq> Inl OutOfFuel"
  unfolding sbq_load_for_insert_def sbq_new_for_build_def sbq_load_for_search_def using assms by (intro no_fuel; simp)+

lemma lv_from_datums_row:
  assumes "dims_ok meta" "alloc_ok alloc" "varlena_ok d" "datum_fits meta d"
  obtains v bs where "lv_from_datums alloc [Some d] [False] arr meta m = Inr (Some (v, labels_from_datum (m_has_labels meta) arr), bs @ m)"
    "pgv_drop v (bs @ m) = Inr m"
    "index_distance (pgv_view v (bs @ m)) = Some (prepared meta (take (unat (m_num_dimensions_to_index meta)) (vd_x d)))"
proof -
  obtain v bs where "from_datum alloc (Some d) meta True False m = Inr (v, bs @ m)" "pgv_owns v bs m"
    "index_distance (pgv_view v (bs @ m)) = Some (prepared meta (take (unat (m_num_dimensions_to_index meta)) (vd_x d)))"
    using from_datum_fits [OF assms, of True False m] by auto
  then show ?thesis
    using pgv_owns_drop by (intro that [of v bs]) (simp_all add: lv_from_datums_def from_pg_parts_def)
qed

text \<open>What an insertion needs: a row that fits, a published meta page, and room.\<close>

definition insertable :: "pg_env \<Rightarrow> storage_type \<Rightarrow> meta_page \<Rightarrow> heap_row \<Rightarrow> index_state \<Rightarrow> bool" where
  "insertable env st meta row ix \<longleftrightarrow>
     alloc_ok (env_alloc env) \<and> (\<forall>v. mset (env_order env v) = mset v) \<and>
     meta_ready (env_codec env) (ix_chain ix) meta (labels_from_datum (m_has_labels meta) (row_labels row)) \<and>
     dims_ok meta \<and> meta_storage_type meta = Inr st \<and> nodes_world st meta ix \<and> node_blocks st ix + 2 < 2 ^ 32 - 1 \<and>
     (\<forall>d. row_vector row = Some d \<longrightarrow> varlena_ok d \<and> datum_fits meta d \<and> is_ok (expected_row env st meta (ix_chain ix) row d))"

lemma insertableD:
  assumes "insertable env st meta row ix"
  shows "alloc_ok (env_alloc env)" "mset (env_order env v) = mset v"
    "meta_ready (env_codec env) (ix_chain ix) meta (labels_from_datum (m_has_labels meta) (row_labels row))"
    "dims_ok meta" "meta_storage_type meta = Inr st" "nodes_world st meta ix" "node_blocks st ix + 2 < 2 ^ 32 - 1"
    "row_vector row = Some d \<Longrightarrow> varlena_ok d \<and> datum_fits meta d \<and> is_ok (expected_row env st meta (ix_chain ix) row d)"
  using assms by (simp_all add: insertable_def)

lemma plain_arm_facts:
  assumes ins: "insertable env Plain meta row ix" and d: "row_vector row = Some d"
    and ls: "lv_labels vec = labels_from_datum (m_has_labels meta) (row_labels row)"
    and v: "index_distance (lv_vec vec) = Some (prepared meta (take (unat (m_num_dimensions_to_index meta)) (vd_x d)))"
  shows "insert_arm env Plain meta vec (row_ctid row) ix \<noteq> Inl OutOfFuel"
    and "insert_arm env Plain meta vec (row_ctid row) ix = Inr ix' \<Longrightarrow>
      ix_memory ix' = ix_memory ix \<and> nodes_world Plain meta ix' \<and> published (env_codec env) (ix_chain ix') meta (lv_labels vec) \<and>
      (\<exists>r. expected_row env Plain meta (ix_chain ix) row d = Inr r \<and> index_row_added Plain r ix ix')"
proof -
  note i = insertableD [OF ins]
  have ready: "meta_ready (env_codec env) (ix_chain ix) meta (lv_labels vec)" using i(3) ls by simp
  have w: "plain_world s (ix_plain ix)" "length (w_rel (ix_plain ix)) + 2 < 2 ^ 32 - 1" if "plain_storage_new env meta = Inr s" for s
    using i(6, 7) plain_storage_new_Inr [OF that] by (simp_all add: nodes_world_def node_blocks_def)
  note fuel = plain_nodes.insert_storage_fuel [OF ready i(2) refl w(1) w(2)]
  show "insert_arm env Plain meta vec (row_ctid row) ix \<noteq> Inl OutOfFuel"
    unfolding insert_arm_def storage_type.case using fuel by (intro no_fuel)
  assume "insert_arm env Plain meta vec (row_ctid row) ix = Inr ix'"
  then obtain s w' rel where s: "plain_storage_new env meta = Inr s" "ix' = ix\<lparr>ix_plain := w', ix_chain := rel\<rparr>"
    "insert_storage env (plain_storage_ops s) Node vec (row_ctid row) meta (ix_plain ix) (ix_chain ix) = Inr (w', rel)"
    by (auto simp: insert_arm_def)
  note f = plain_nodes.insert_storage_rows [OF ready i(2) refl w(1) w(2) s(3), OF s(1) s(1)]
  then obtain n where n: "n = plain_node_new_for_full_vector (prepared meta (take (unat (m_num_dimensions_to_index meta)) (vd_x d)))
      (row_ctid row) (ps_num_neighbors s)" "row_added plain_row n (ix_plain ix) w'"
    using v by (auto simp: to_index_slice_def)
  have "index_row_added Plain (PlainRow (p_heap n) (p_vector n)) ix ix'"
    by (rule row_added_plain) (use n(2) s(2) in simp)
  then show "ix_memory ix' = ix_memory ix \<and> nodes_world Plain meta ix' \<and> published (env_codec env) (ix_chain ix') meta (lv_labels vec) \<and>
      (\<exists>r. expected_row env Plain meta (ix_chain ix) row d = Inr r \<and> index_row_added Plain r ix ix')"
    using f s(2) plain_storage_new_Inr [OF s(1)] n(1)
    by (simp add: nodes_world_def expected_row_def plain_node_new_for_full_vector_def)
qed

lemma sbq_arm_facts:
  assumes ins: "insertable env SbqCompression meta row ix" and d: "row_vector row = Some d"
    and ls: "lv_labels vec = labels_from_datum (m_has_labels meta) (row_labels row)"
    and v: "index_distance (lv_vec vec) = Some (prepared meta (take (unat (m_num_dimensions_to_index meta)) (vd_x d)))"
  shows "insert_arm env SbqCompression meta vec (row_ctid row) ix \<noteq> Inl OutOfFuel"
    and "insert_arm env SbqCompression meta vec (row_ctid row) ix = Inr ix' \<Longrightarrow>
      ix_memory ix' = ix_memory ix \<and> nodes_world SbqCompression meta ix' \<and>
      published (env_codec env) (ix_chain ix') meta (lv_labels vec) \<and>
      (\<exists>r. expected_row env SbqCompression meta (ix_chain ix) row d = Inr r \<and> index_row_added SbqCompression r ix ix')"
proof -
  note i = insertableD [OF ins]
  have ready: "meta_ready (env_codec env) (ix_chain ix) meta (lv_labels vec)" using i(3) ls by simp
  have nw: "node_world sbq_slots (unat (m_num_neighbors meta)) sbq_core (ix_sbq ix)" "length (w_rel (ix_sbq ix)) + 2 < 2 ^ 32 - 1"
    using i(6, 7) by (simp_all add: nodes_world_def node_blocks_def)
  have w: "sbq_model s = s" "sbq_world s w" "length (w_rel w) + 2 < 2 ^ 32 - 1"
    if "sbq_load_for_insert env meta (ix_chain ix) (ix_sbq ix) = Inr (s, w)" for s w
    using sbq_load_Inr [OF disjI1 [OF that]] nw by simp_all
  have fuel: "insert_storage env (sbq_storage_ops s) SbqNode vec hp meta w (ix_chain ix) \<noteq> Inl OutOfFuel"
    if "sbq_load_for_insert env meta (ix_chain ix) (ix_sbq ix) = Inr (s, w)" for s w hp
    using sbq_search.nodes.insert_storage_fuel [OF ready i(2) refl, of s w hp] w [OF that] by simp
  obtain q where q: "means_load header_le (env_means env) meta (ix_chain ix) = Inr q"
    using i(8) [OF d] by (auto simp: expected_row_def Let_def is_ok_iff)
  have load: "sbq_load_for_insert env meta (ix_chain ix) (ix_sbq ix) \<noteq> Inl OutOfFuel" by (rule sbq_load_fuel) (simp add: q)
  show "insert_arm env SbqCompression meta vec (row_ctid row) ix \<noteq> Inl OutOfFuel"
    unfolding insert_arm_def storage_type.case by (intro no_fuel load) (simp add: fuel)
  assume "insert_arm env SbqCompression meta vec (row_ctid row) ix = Inr ix'"
  then obtain s w w' rel where s: "sbq_load_for_insert env meta (ix_chain ix) (ix_sbq ix) = Inr (s, w)"
    "ix' = ix\<lparr>ix_sbq := w'\<lparr>w_cache := None\<rparr>, ix_chain := rel\<rparr>"
    "insert_storage env (sbq_storage_ops s) SbqNode vec (row_ctid row) meta w (ix_chain ix) = Inr (w', rel)"
    by (auto simp: insert_arm_def)
  note l = sbq_load_Inr [OF disjI1 [OF s(1)]]
  have run: "insert_storage env (sbq_storage_ops (sbq_model s)) SbqNode vec (row_ctid row) meta w (ix_chain ix) = Inr (w', rel)"
    using s(3) w(1) [OF s(1)] by simp
  have ww: "sbq_world (sbq_model s) w" using w [OF s(1)] by simp
  note f = sbq_search.nodes.insert_storage_rows [OF ready i(2) refl ww w(3) [OF s(1)] run, unfolded w(1) [OF s(1)]]
  then obtain n where n: "sbq_new_node s (prepared meta (take (unat (m_num_dimensions_to_index meta)) (vd_x d))) (lv_labels vec)
      (row_ctid row) = Inr n" "row_added sbq_row n w w'"
    using v by (auto simp: to_index_slice_def)
  have "row_added sbq_row n (ix_sbq ix) (ix_sbq ix')"
    using n(2) l by (simp add: row_added_def s(2) others_keep_def)
  from row_added_sbq [OF this] have added: "index_row_added SbqCompression (SbqRow (sbq_heap_item_pointer n) (sbq_bq_vector n) (sbq_labels n)) ix ix'" .
  have "expected_row env SbqCompression meta (ix_chain ix) row d =
      Inr (SbqRow (sbq_heap_item_pointer n) (sbq_bq_vector n) (sbq_labels n))"
    using n(1) l ls by (auto simp: sbq_new_node_def expected_row_def Let_def sbq_node_new_def)
  moreover have "nodes_world SbqCompression meta ix'"
    using sbq_world_drop [OF conjunct1 [OF f]] l by (simp add: nodes_world_def s(2))
  ultimately show "ix_memory ix' = ix_memory ix \<and> nodes_world SbqCompression meta ix' \<and>
      published (env_codec env) (ix_chain ix') meta (lv_labels vec) \<and>
      (\<exists>r. expected_row env SbqCompression meta (ix_chain ix) row d = Inr r \<and> index_row_added SbqCompression r ix ix')"
    using f added by (simp add: s(2))
qed

lemma aminsert_facts:
  assumes ins: "insertable env st meta row ix"
  shows "aminsert_internal env row ix \<noteq> Inl OutOfFuel"
    and "aminsert_internal env row ix = Inr (b, ix') \<Longrightarrow> \<not> b \<and> ix_memory ix' = ix_memory ix \<and> nodes_world st meta ix' \<and>
      (case row_vector row of
         None \<Rightarrow> ix' = ix
       | Some d \<Rightarrow> published (env_codec env) (ix_chain ix') meta (labels_from_datum (m_has_labels meta) (row_labels row)) \<and>
           (\<exists>r. expected_row env st meta (ix_chain ix) row d = Inr r \<and> index_row_added st r ix ix'))"
proof -
  note i = insertableD [OF ins]
  have fetch: "meta_fetch (env_codec env) header_le (ix_chain ix) = Inr meta" using meta_readyD [OF i(3)] by simp
  have main: "aminsert_internal env row ix \<noteq> Inl OutOfFuel \<and> (aminsert_internal env row ix = Inr (b, ix') \<longrightarrow>
      \<not> b \<and> ix_memory ix' = ix_memory ix \<and> nodes_world st meta ix' \<and>
      (case row_vector row of
         None \<Rightarrow> ix' = ix
       | Some d \<Rightarrow> published (env_codec env) (ix_chain ix') meta (labels_from_datum (m_has_labels meta) (row_labels row)) \<and>
           (\<exists>r. expected_row env st meta (ix_chain ix) row d = Inr r \<and> index_row_added st r ix ix')))"
  proof (cases "row_vector row")
    case None
    then show ?thesis using i(6) by (auto simp: aminsert_internal_def fetch lv_from_datums_def from_pg_parts_def)
  next
    case (Some d)
    let ?ls = "labels_from_datum (m_has_labels meta) (row_labels row)"
    note fit = i(8) [OF Some]
    obtain v bs where v: "lv_from_datums (env_alloc env) [Some d] [False] (row_labels row) meta (ix_memory ix) = Inr (Some (v, ?ls), bs @ ix_memory ix)"
      "pgv_drop v (bs @ ix_memory ix) = Inr (ix_memory ix)"
      "index_distance (pgv_view v (bs @ ix_memory ix)) = Some (prepared meta (take (unat (m_num_dimensions_to_index meta)) (vd_x d)))"
      using lv_from_datums_row [OF i(4, 1)] fit by metis
    let ?vec = "\<lparr>lv_vec = pgv_view v (bs @ ix_memory ix), lv_labels = ?ls\<rparr>"
    have eq: "aminsert_internal env row ix =
        rbind (insert_arm env st meta ?vec (row_ctid row) ix) (\<lambda>ix1. Inr (False, ix1\<lparr>ix_memory := ix_memory ix\<rparr>))"
      using v(1, 2) Some i(5) by (simp add: aminsert_internal_def fetch)
    have arm: "insert_arm env st meta ?vec (row_ctid row) ix \<noteq> Inl OutOfFuel \<and>
        (\<forall>ix1. insert_arm env st meta ?vec (row_ctid row) ix = Inr ix1 \<longrightarrow>
          ix_memory ix1 = ix_memory ix \<and> nodes_world st meta ix1 \<and> published (env_codec env) (ix_chain ix1) meta ?ls \<and>
          (\<exists>r. expected_row env st meta (ix_chain ix) row d = Inr r \<and> index_row_added st r ix ix1))"
    proof (cases st)
      case Plain
      note f = plain_arm_facts [OF ins [unfolded Plain] Some, of ?vec, unfolded labeled_vector.simps, OF refl v(3)]
      show ?thesis unfolding Plain using f by blast
    next
      case SbqCompression
      note f = sbq_arm_facts [OF ins [unfolded SbqCompression] Some, of ?vec, unfolded labeled_vector.simps, OF refl v(3)]
      show ?thesis unfolding SbqCompression using f by blast
    qed
    have same: "ix1\<lparr>ix_memory := ix_memory ix\<rparr> = ix1" if "ix_memory ix1 = ix_memory ix" for ix1 :: index_state
      using that by simp
    show ?thesis
    proof (cases "insert_arm env st meta ?vec (row_ctid row) ix")
      case (Inl e)
      then show ?thesis using eq arm by auto
    next
      case (Inr ix1)
      have "ix_memory ix1 = ix_memory ix" using arm Inr by blast
      then have "aminsert_internal env row ix = Inr (False, ix1)" using eq Inr same [of ix1] by simp
      then show ?thesis using arm Inr Some by auto
    qed
  qed
  then show "aminsert_internal env row ix \<noteq> Inl OutOfFuel" by blast
  show "aminsert_internal env row ix = Inr (b, ix') \<Longrightarrow> \<not> b \<and> ix_memory ix' = ix_memory ix \<and> nodes_world st meta ix' \<and>
      (case row_vector row of
         None \<Rightarrow> ix' = ix
       | Some d \<Rightarrow> published (env_codec env) (ix_chain ix') meta (labels_from_datum (m_has_labels meta) (row_labels row)) \<and>
           (\<exists>r. expected_row env st meta (ix_chain ix) row d = Inr r \<and> index_row_added st r ix ix'))"
    using main by blast
qed

end
