(* ===== verification/Build_Rows.thy ===== *)
theory Build_Rows
  imports Index_Rows
begin

text \<open>
  The serial build of an index without labels: every row of the table that has a vector becomes a row
  of the index, at a pointer of its own, and nothing else does. The first insertion publishes the
  entry point; the meta page in memory and the one on disk stay the same.
\<close>

section \<open>Metas that differ in their entry points\<close>

abbreviation with_start :: "meta_page \<Rightarrow> start_nodes option \<Rightarrow> meta_page" where
  "with_start meta so \<equiv> meta\<lparr>m_start_nodes := so\<rparr>"

lemma with_start_simps [simp]:
  "dims_ok (with_start meta so) = dims_ok meta" "datum_fits (with_start meta so) d = datum_fits meta d"
  "prepared (with_start meta so) x = prepared meta x"
  by (simp_all add: dims_ok_def datum_fits_def prepared_def meta_distance_type_def fun_eq_iff)

text \<open>The meta page in memory is the published one, and it has an entry point or can get one.\<close>

definition meta_current :: "meta_codec \<Rightarrow> chain_rel \<Rightarrow> meta_page \<Rightarrow> bool" where
  "meta_current c rel meta \<longleftrightarrow> meta_fetch c header_le rel = Inr meta \<and> (has_entry meta None \<or> meta_ready c rel meta None)"

section \<open>Rows that a build adds\<close>

definition indexed_part :: "meta_page \<Rightarrow> vector_datum \<Rightarrow> f32 list" where
  "indexed_part meta d = prepared meta (take (unat (m_num_dimensions_to_index meta)) (vd_x d))"

definition row_fits :: "meta_page \<Rightarrow> heap_row \<Rightarrow> bool" where
  "row_fits meta hr \<longleftrightarrow> (\<forall>d. row_vector hr = Some d \<longrightarrow> varlena_ok d \<and> datum_fits meta d)"

text \<open>The rows that have a vector.\<close>

definition row_datums :: "heap_row list \<Rightarrow> (heap_pointer \<times> vector_datum) list" where
  "row_datums hrs = List.map_filter (\<lambda>hr. map_option (\<lambda>d. (row_ctid hr, d)) (row_vector hr)) hrs"

text \<open>The given rows, each at a pointer of its own that held nothing before.\<close>

definition rows_added :: "('n \<Rightarrow> 'r) \<Rightarrow> 'r list \<Rightarrow> 'n relation \<Rightarrow> 'n relation \<Rightarrow> bool" where
  "rows_added row rs rel rel' \<longleftrightarrow>
     (\<exists>ptrs. distinct ptrs \<and> length ptrs = length rs \<and> (\<forall>p \<in> set ptrs. rows_at row rel p = None) \<and>
        rows_at row rel' = rows_at row rel ++ map_of (zip ptrs rs))"

lemma rows_added_Cons:
  assumes "rows_at row rel ip = None" "rows_at row rel1 = (rows_at row rel)(ip \<mapsto> r)" "rows_added row rs rel1 rel'"
  shows "rows_added row (r # rs) rel rel'"
proof -
  obtain ptrs where p: "distinct ptrs" "length ptrs = length rs" "\<forall>p \<in> set ptrs. rows_at row rel1 p = None"
    "rows_at row rel' = rows_at row rel1 ++ map_of (zip ptrs rs)"
    using assms(3) by (auto simp: rows_added_def)
  have new: "ip \<notin> set ptrs" using p(3) assms(2) by auto
  then have "ip \<notin> dom (map_of (zip ptrs rs))" using p(2) by simp
  then have "rows_at row rel' = rows_at row rel ++ map_of (zip (ip # ptrs) (r # rs))"
    using p(4) assms(2) by (simp add: map_add_upd_left)
  moreover have "\<forall>p \<in> set ptrs. rows_at row rel p = None" using p(3) assms(2) by (metis fun_upd_apply not_None_eq)
  ultimately show ?thesis
    unfolding rows_added_def using p(1, 2) new assms(1) by (intro exI [of _ "ip # ptrs"]) simp
qed

lemma rows_added_cong:
  "rows_at row rel = rows_at row rel1 \<Longrightarrow> rows_added row rs rel rel' = rows_added row rs rel1 rel'"
  by (simp add: rows_added_def)

context node_storage
begin

section \<open>Insertions of a build\<close>

text \<open>Where the entry points are known, the meta page is not touched.\<close>

lemma graph_insert_known:
  assumes e: "has_entry (g_meta gr) (lv_labels vec)"
    and w: "winv w" and gr: "graph_ok gr" and ip: "block_number ip \<noteq> InvalidBlockNumber"
    and ord: "\<And>v. mset (ord v) = mset v"
  shows "graph_insert c h ops S lops ord gr ip vec w rel \<noteq> Inl OutOfFuel"
    and "graph_insert c h ops S lops ord gr ip vec w rel = Inr (gr', w', rel') \<Longrightarrow>
      graph_kept gr gr' w' \<and> moved row w w' \<and> rel' = rel"
proof -
  let ?one = "if lv_labels vec \<noteq> None
            then rbind (insert_internal S lops ord gr ip vec False w) (\<lambda>(_, gr, w). Inr (gr, w))
            else Inr (gr, w)"
  have eq: "graph_insert c h ops S lops ord gr ip vec w rel =
      rbind ?one (\<lambda>(gr, w). rbind (insert_internal S lops ord gr ip vec True w) (\<lambda>(_, gr, w). Inr (gr, w, rel)))"
    using e by (simp add: graph_insert_def update_start_nodes_def has_entry_def)
  have one: "graph_kept gr gr2 w2 \<and> moved row w w2" if "?one = Inr (gr2, w2)" for gr2 w2
    using that insert_internal_facts [OF _ w gr ip ord] insert_internal_moved [OF _ w gr ip ord] w gr
    by (auto simp: graph_kept_def split: if_splits)
  have one_fuel: "?one \<noteq> Inl OutOfFuel" using insert_internal_fuel [OF w gr ip ord] by (intro no_fuel)
  show "graph_insert c h ops S lops ord gr ip vec w rel \<noteq> Inl OutOfFuel"
    unfolding eq
  proof (rule rbind_fuel [OF one_fuel], goal_cases)
    case (1 x)
    obtain gr2 w2 where x: "x = (gr2, w2)" by (cases x)
    have "winv w2" "graph_ok gr2" using one [OF 1 [unfolded x]] by (auto simp: graph_kept_def)
    then show ?case unfolding x case_prod_conv using insert_internal_fuel [OF _ _ ip ord] by (intro no_fuel)
  qed
  assume "graph_insert c h ops S lops ord gr ip vec w rel = Inr (gr', w', rel')"
  then obtain gr2 w2 o' where s: "?one = Inr (gr2, w2)" "insert_internal S lops ord gr2 ip vec True w2 = Inr (o', gr', w')" "rel' = rel"
    unfolding eq by (auto simp del: not_None_eq)
  note k = one [OF s(1)]
  then have "winv w2" "graph_ok gr2" by (auto simp: graph_kept_def)
  note k2 = insert_internal_facts [OF s(2) this ip ord] insert_internal_moved [OF s(2) this ip ord]
  show "graph_kept gr gr' w' \<and> moved row w w' \<and> rel' = rel"
    using graph_kept_trans [OF conjunct1 [OF k] k2(1)] moved_trans [OF conjunct2 [OF k] k2(2)] s(3) by blast
qed

lemma graph_insert_current:
  assumes cur: "meta_current c rel (g_meta gr)" and ls: "lv_labels vec = None"
    and w: "winv w" and gr: "graph_ok gr" and ip: "block_number ip \<noteq> InvalidBlockNumber"
    and ord: "\<And>v. mset (ord v) = mset v"
  shows "graph_insert c header_le pg_page_8k S lops ord gr ip vec w rel \<noteq> Inl OutOfFuel"
    and "graph_insert c header_le pg_page_8k S lops ord gr ip vec w rel = Inr (gr', w', rel') \<Longrightarrow>
      winv w' \<and> graph_ok gr' \<and> moved row w w' \<and> meta_current c rel' (g_meta gr') \<and> (\<exists>so. g_meta gr' = with_start (g_meta gr) so)"
proof -
  let ?ins = "graph_insert c header_le pg_page_8k S lops ord gr ip vec w rel"
  have "?ins \<noteq> Inl OutOfFuel \<and> (?ins = Inr (gr', w', rel') \<longrightarrow>
      winv w' \<and> graph_ok gr' \<and> moved row w w' \<and> meta_current c rel' (g_meta gr') \<and> (\<exists>so. g_meta gr' = with_start (g_meta gr) so))"
  proof (cases "has_entry (g_meta gr) None")
    case True
    then have e: "has_entry (g_meta gr) (lv_labels vec)" using ls by simp
    note k = graph_insert_known [OF e w gr ip ord]
    have so: "\<exists>so. g_meta gr = with_start (g_meta gr) so" by (rule exI [of _ "m_start_nodes (g_meta gr)"]) simp
    have "winv w' \<and> graph_ok gr' \<and> moved row w w' \<and> meta_current c rel' (g_meta gr') \<and> (\<exists>so. g_meta gr' = with_start (g_meta gr) so)"
      if "?ins = Inr (gr', w', rel')"
    proof -
      have kept: "graph_kept gr gr' w'" and m: "moved row w w'" and r: "rel' = rel" using k(2) [OF that] by auto
      have "g_meta gr' = g_meta gr" "winv w'" "graph_ok gr'" using kept by (simp_all add: graph_kept_def)
      then show ?thesis using m cur so r by metis
    qed
    then show ?thesis using k(1) by blast
  next
    case False
    then have ready: "meta_ready c rel (g_meta gr) (lv_labels vec)" using cur ls by (simp add: meta_current_def)
    note r = meta_readyD [OF ready]
    note f = graph_insert_facts [OF r(1) r(2) r(3, 4) w gr ip ord]
    have m: "meta_current c rel' (g_meta gr') \<and> (\<exists>so. g_meta gr' = with_start (g_meta gr) so)" if run: "?ins = Inr (gr', w', rel')"
    proof -
      obtain gr1 w1 o' where up: "update_start_nodes c header_le pg_page_8k S lops gr ip (lv_labels vec) w rel = Inr (gr1, w1, rel')"
        and rest: "insert_internal S lops ord gr1 ip vec True w1 = Inr (o', gr', w')"
        using run ls unfolding graph_insert_def by auto
      have g1: "winv w1 \<and> graph_ok gr1" using update_kept [OF r(1) up r(2) r(3, 4) w gr ip] by blast
      have same: "g_meta gr' = g_meta gr1"
        using insert_internal_facts [OF rest conjunct1 [OF g1] conjunct2 [OF g1] ip ord] by (simp add: graph_kept_def)
      have "meta_fetch c header_le rel' = Inr (g_meta gr1) \<and> (\<exists>so. g_meta gr1 = with_start (g_meta gr) so)"
        using meta_codec_laws.update_start_nodes_facts [OF r(1) up r(2)] r(5)
      proof (elim conjE disjE, goal_cases)
        case 1
        then show ?case by (intro conjI exI [of _ "m_start_nodes (g_meta gr)"]) simp_all
      next
        case 2
        then show ?case by (intro conjI exI [of _ "m_start_nodes (g_meta gr)"]) simp_all
      next
        case 3
        then show ?case by (auto simp: set_start_nodes_def)
      qed
      then show ?thesis using f(2) [OF run] same ls by (auto simp: meta_current_def)
    qed
    have mv: "moved row w w'" if "?ins = Inr (gr', w', rel')"
      by (rule graph_insert_moved [OF r(1) r(2) r(3, 4) w gr ip ord that])
    show ?thesis using f m mv by blast
  qed
  then show "?ins \<noteq> Inl OutOfFuel" "?ins = Inr (gr', w', rel') \<Longrightarrow>
      winv w' \<and> graph_ok gr' \<and> moved row w w' \<and> meta_current c rel' (g_meta gr') \<and> (\<exists>so. g_meta gr' = with_start (g_meta gr) so)"
    by blast+
qed

section \<open>The rows of a build\<close>

text \<open>The state between two rows; \<open>left\<close> more rows fit.\<close>

definition building :: "pg_env \<Rightarrow> meta_page \<Rightarrow> nat \<Rightarrow> build_state \<Rightarrow> 'n world \<Rightarrow> chain_rel \<Rightarrow> bool" where
  "building env meta left bs w rel \<longleftrightarrow>
     winv w \<and> w_others w = [] \<and> graph_ok (bs_graph bs) \<and> tape_inv (w_rel w) (bs_tape bs) \<and> t_page_type (bs_tape bs) = pt \<and>
     length (w_rel w) + left < 2 ^ 32 - 1 \<and> meta_current (env_codec env) rel (g_meta (bs_graph bs)) \<and>
     (\<exists>so. g_meta (bs_graph bs) = with_start meta so)"

lemma building_fewer: "building env meta left bs w rel \<Longrightarrow> j \<le> left \<Longrightarrow> building env meta j bs w rel"
  by (auto simp: building_def)

lemma internal_facts:
  assumes b: "building env meta (Suc left) bs w rel" and ls: "lv_labels vec = None"
    and ord: "\<And>v. mset (env_order env v) = mset v" and lops: "lops = lru_list"
  shows "build_callback_internal env S hp vec (bs, w, rel) \<noteq> Inl OutOfFuel"
    and "build_callback_internal env S hp vec (bs, w, rel) = Inr (bs', w', rel') \<Longrightarrow>
      building env meta left bs' w' rel' \<and> bs_ntuples bs' = bs_ntuples bs + 1 \<and>
      (\<exists>slice ip n. to_index_slice (lv_vec vec) = Inr slice \<and> new_node slice None hp = Inr n \<and>
        rows_at row (w_rel w) ip = None \<and> rows_at row (w_rel w') = (rows_at row (w_rel w))(ip \<mapsto> row n))"
proof -
  have pre: "winv w" "tape_inv (w_rel w) (bs_tape bs)" "t_page_type (bs_tape bs) = pt" "blocks_left (w_rel w)"
    and gr: "graph_ok (bs_graph bs)" and cur: "meta_current (env_codec env) rel (g_meta (bs_graph bs))" and alone: "w_others w = []"
    using b by (auto simp: building_def blocks_left_def)
  have c1: "winv w1 \<and> block_number ip \<noteq> InvalidBlockNumber"
    if "s_create_node S pg_page_8k slice (lv_labels vec) hp (bs_tape bs) w = Inr (ip, tp, w1)" for slice ip tp w1
    using create_node [OF pre that] by blast
  note gi = graph_insert_current [where gr = "bs_graph bs", OF cur ls _ gr _ ord, unfolded lops]
  have sl: "to_index_slice (lv_vec vec) \<noteq> Inl OutOfFuel" unfolding to_index_slice_def by (intro no_fuel)
  show "build_callback_internal env S hp vec (bs, w, rel) \<noteq> Inl OutOfFuel"
    unfolding build_callback_internal_def case_prod_conv Let_def
  proof (rule rbind_fuel [OF sl], rule rbind_fuel [OF create_node_fuel], goal_cases)
    case (1 slice y)
    obtain ip tp w1 where y: "y = (ip, tp, w1)" by (cases y)
    have "winv w1" "block_number ip \<noteq> InvalidBlockNumber" using c1 1 y by auto
    from gi(1) [OF this] show ?case unfolding y case_prod_conv by (intro no_fuel) simp
  qed
  assume "build_callback_internal env S hp vec (bs, w, rel) = Inr (bs', w', rel')"
  then obtain slice ip tp w1 gr' where s: "to_index_slice (lv_vec vec) = Inr slice"
    "s_create_node S pg_page_8k slice (lv_labels vec) hp (bs_tape bs) w = Inr (ip, tp, w1)"
    "graph_insert (env_codec env) header_le pg_page_8k S lru_list (env_order env) (bs_graph bs) ip vec w1 rel = Inr (gr', w', rel')"
    "bs' = bs\<lparr>bs_ntuples := bs_ntuples bs + 1, bs_tape := tp, bs_graph := gr'\<rparr>"
    by (auto simp: build_callback_internal_def Let_def)
  note c = create_node [OF pre s(2)]
  then obtain n where n: "new_node slice None hp = Inr n" "rows_at row (w_rel w) ip = None"
    "rows_at row (w_rel w1) = (rows_at row (w_rel w))(ip \<mapsto> row n)" using ls by auto
  have w1: "winv w1" "block_number ip \<noteq> InvalidBlockNumber" "w_others w1 = []" "tape_inv (w_rel w1) tp" "t_page_type tp = pt"
    "length (w_rel w1) \<le> Suc (length (w_rel w))" using c alone by auto
  note g = gi(2) [OF w1(1, 2) s(3)]
  have a: "w_others w' = []" and same: "same_rows row (w_rel w1) (w_rel w')"
    using moved_alone [OF _ w1(3)] g by auto
  have "length (w_rel w') = length (w_rel w1)"
    using same unfolding same_rows_def by (metis length_map)
  moreover obtain so so' where "g_meta gr' = with_start (g_meta (bs_graph bs)) so" "g_meta (bs_graph bs) = with_start meta so'"
    using g b by (auto simp: building_def)
  then have "g_meta gr' = with_start meta so" by simp
  then have "\<exists>so. g_meta gr' = with_start meta so" ..
  ultimately have "building env meta left bs' w' rel'"
    using g b a same_rows_tape [OF same w1(4)] w1(5, 6) by (simp add: building_def s(4))
  then show "building env meta left bs' w' rel' \<and> bs_ntuples bs' = bs_ntuples bs + 1 \<and>
      (\<exists>slice ip n. to_index_slice (lv_vec vec) = Inr slice \<and> new_node slice None hp = Inr n \<and>
        rows_at row (w_rel w) ip = None \<and> rows_at row (w_rel w') = (rows_at row (w_rel w))(ip \<mapsto> row n))"
    using s(1, 4) n same by (auto simp: same_rows_def)
qed

lemma callback_facts:
  assumes b: "building env meta (Suc left) bs w rel" and ord: "\<And>v. mset (env_order env v) = mset v" and lops: "lops = lru_list"
    and meta: "dims_ok meta" "\<not> m_has_labels meta" "alloc_ok (env_alloc env)" and fit: "row_fits meta hr"
  shows "build_callback env S hr (bs, w, rel, m) \<noteq> Inl OutOfFuel"
    and "build_callback env S hr (bs, w, rel, m) = Inr (bs', w', rel', m') \<Longrightarrow> m' = m \<and> building env meta left bs' w' rel' \<and>
      (case row_vector hr of
         None \<Rightarrow> bs_ntuples bs' = bs_ntuples bs \<and> rows_at row (w_rel w') = rows_at row (w_rel w)
       | Some d \<Rightarrow> bs_ntuples bs' = bs_ntuples bs + 1 \<and>
           (\<exists>ip n. new_node (indexed_part meta d) None (row_ctid hr) = Inr n \<and> rows_at row (w_rel w) ip = None \<and>
              rows_at row (w_rel w') = (rows_at row (w_rel w))(ip \<mapsto> row n)))"
proof -
  obtain so where gm: "g_meta (bs_graph bs) = with_start meta so" using b by (auto simp: building_def)
  have main: "build_callback env S hr (bs, w, rel, m) \<noteq> Inl OutOfFuel \<and>
      (build_callback env S hr (bs, w, rel, m) = Inr (bs', w', rel', m') \<longrightarrow> m' = m \<and> building env meta left bs' w' rel' \<and>
      (case row_vector hr of
         None \<Rightarrow> bs_ntuples bs' = bs_ntuples bs \<and> rows_at row (w_rel w') = rows_at row (w_rel w)
       | Some d \<Rightarrow> bs_ntuples bs' = bs_ntuples bs + 1 \<and>
           (\<exists>ip n. new_node (indexed_part meta d) None (row_ctid hr) = Inr n \<and> rows_at row (w_rel w) ip = None \<and>
              rows_at row (w_rel w') = (rows_at row (w_rel w))(ip \<mapsto> row n))))"
  proof (cases "row_vector hr")
    case None
    then show ?thesis
      using building_fewer [OF b, of left] by (auto simp: build_callback_def lv_from_datums_def from_pg_parts_def)
  next
    case (Some d)
    have d: "dims_ok (with_start meta so)" "varlena_ok d" "datum_fits (with_start meta so) d"
      using meta(1) fit Some by (simp_all add: row_fits_def)
    obtain v ms where v: "lv_from_datums (env_alloc env) [Some d] [False] (row_labels hr) (with_start meta so) m =
        Inr (Some (v, labels_from_datum (m_has_labels (with_start meta so)) (row_labels hr)), ms @ m)"
      "pgv_drop v (ms @ m) = Inr m"
      "index_distance (pgv_view v (ms @ m)) =
        Some (prepared (with_start meta so) (take (unat (m_num_dimensions_to_index (with_start meta so))) (vd_x d)))"
      using lv_from_datums_row [OF d(1) meta(3) d(2, 3)] by metis
    have ls: "labels_from_datum (m_has_labels (with_start meta so)) (row_labels hr) = None"
      using meta(2) by (simp add: labels_from_datum_def)
    let ?vec = "\<lparr>lv_vec = pgv_view v (ms @ m), lv_labels = None\<rparr>"
    have eq: "build_callback env S hr (bs, w, rel, m) =
        rbind (build_callback_internal env S (row_ctid hr) ?vec (bs, w, rel)) (\<lambda>(bs, w, rel). Inr (bs, w, rel, m))"
      using v(1, 2) Some ls by (simp add: build_callback_def gm)
    have sl: "to_index_slice (lv_vec ?vec) = Inr (indexed_part meta d)"
      using v(3) by (simp add: to_index_slice_def indexed_part_def)
    note f = internal_facts [OF b _ ord lops, of ?vec "row_ctid hr", simplified labeled_vector.simps, OF refl]
    show ?thesis
    proof (cases "build_callback_internal env S (row_ctid hr) ?vec (bs, w, rel)")
      case (Inl e)
      then show ?thesis using eq f(1) by auto
    next
      case (Inr x)
      obtain bs1 w1 rel1 where x: "x = (bs1, w1, rel1)" by (cases x)
      show ?thesis using f(2) [OF Inr [unfolded x]] sl eq Inr x Some by auto
    qed
  qed
  then show "build_callback env S hr (bs, w, rel, m) \<noteq> Inl OutOfFuel" by blast
  show "build_callback env S hr (bs, w, rel, m) = Inr (bs', w', rel', m') \<Longrightarrow> m' = m \<and> building env meta left bs' w' rel' \<and>
      (case row_vector hr of
         None \<Rightarrow> bs_ntuples bs' = bs_ntuples bs \<and> rows_at row (w_rel w') = rows_at row (w_rel w)
       | Some d \<Rightarrow> bs_ntuples bs' = bs_ntuples bs + 1 \<and>
           (\<exists>ip n. new_node (indexed_part meta d) None (row_ctid hr) = Inr n \<and> rows_at row (w_rel w) ip = None \<and>
              rows_at row (w_rel w') = (rows_at row (w_rel w))(ip \<mapsto> row n)))"
    using main by blast
qed

lemma callbacks_facts:
  assumes "building env meta (length hrs) bs w rel" and ord: "\<And>v. mset (env_order env v) = mset v" and lops: "lops = lru_list"
    and meta: "dims_ok meta" "\<not> m_has_labels meta" "alloc_ok (env_alloc env)" and "\<forall>hr \<in> set hrs. row_fits meta hr"
  shows "rfold (build_callback env S) hrs (bs, w, rel, m) \<noteq> Inl OutOfFuel \<and>
    (\<forall>bs' w' rel' m'. rfold (build_callback env S) hrs (bs, w, rel, m) = Inr (bs', w', rel', m') \<longrightarrow>
      m' = m \<and> building env meta 0 bs' w' rel' \<and> bs_ntuples bs' = bs_ntuples bs + length (row_datums hrs) \<and>
      (\<exists>ns. list_all2 (\<lambda>(t, d) n. new_node (indexed_part meta d) None t = Inr n) (row_datums hrs) ns \<and>
        rows_added row (map row ns) (w_rel w) (w_rel w')))"
  using assms(1, 7)
proof (induction hrs arbitrary: bs w rel)
  case Nil
  then show ?case by (simp add: row_datums_def rows_added_def List.map_filter_def)
next
  case (Cons hr hrs)
  note f = callback_facts [OF Cons.prems(1) [simplified] ord lops meta, of hr m]
  have hr: "row_fits meta hr" and rest: "\<forall>hr \<in> set hrs. row_fits meta hr" using Cons.prems(2) by auto
  show ?case
  proof (cases "build_callback env S hr (bs, w, rel, m)")
    case (Inl e)
    then show ?thesis using f(1) [OF hr] by auto
  next
    case (Inr x)
    obtain bs1 w1 rel1 m1 where x: "x = (bs1, w1, rel1, m1)" by (cases x)
    note st = f(2) [OF hr Inr [unfolded x]]
    have b1: "building env meta (length hrs) bs1 w1 rel1" and m1: "m1 = m" using st by auto
    note ih = Cons.IH [OF b1 rest]
    have eq: "rfold (build_callback env S) (hr # hrs) (bs, w, rel, m) = rfold (build_callback env S) hrs (bs1, w1, rel1, m)"
      using Inr x m1 by simp
    show ?thesis
    proof (cases "row_vector hr")
      case None
      have "row_datums (hr # hrs) = row_datums hrs" "bs_ntuples bs1 = bs_ntuples bs" "rows_at row (w_rel w1) = rows_at row (w_rel w)"
        using None st by (simp_all add: row_datums_def List.map_filter_def)
      note same = this(1, 2) rows_added_cong [OF this(3), symmetric]
      show ?thesis using ih unfolding eq same .
    next
      case (Some d)
      then obtain ip n where n: "new_node (indexed_part meta d) None (row_ctid hr) = Inr n" "rows_at row (w_rel w) ip = None"
        "rows_at row (w_rel w1) = (rows_at row (w_rel w))(ip \<mapsto> row n)" "bs_ntuples bs1 = bs_ntuples bs + 1" using st by auto
      have ds: "row_datums (hr # hrs) = (row_ctid hr, d) # row_datums hrs" using Some by (simp add: row_datums_def List.map_filter_def)
      have one: "list_all2 (\<lambda>(t, d) n. new_node (indexed_part meta d) None t = Inr n) (row_datums (hr # hrs)) (n # ns) \<and>
          rows_added row (map row (n # ns)) (w_rel w) v"
        if "list_all2 (\<lambda>(t, d) n. new_node (indexed_part meta d) None t = Inr n) (row_datums hrs) ns"
          "rows_added row (map row ns) (w_rel w1) v" for ns v
        unfolding ds list.map using rows_added_Cons [OF n(2, 3) that(2)] that(1) n(1) by simp
      have more: "\<exists>ns. list_all2 (\<lambda>(t, d) n. new_node (indexed_part meta d) None t = Inr n) (row_datums (hr # hrs)) ns \<and>
          rows_added row (map row ns) (w_rel w) v"
        if "\<exists>ns. list_all2 (\<lambda>(t, d) n. new_node (indexed_part meta d) None t = Inr n) (row_datums hrs) ns \<and>
          rows_added row (map row ns) (w_rel w1) v" for v
        using that one by blast
      have len: "bs_ntuples bs1 + length (row_datums hrs) = bs_ntuples bs + length (row_datums (hr # hrs))" using n(4) ds by simp
      show ?thesis
        unfolding eq
      proof (intro conjI allI impI, goal_cases)
        case 1
        show ?case using ih by blast
      next
        case (2 bs' w' rel' m')
        from conjunct2 [OF ih, rule_format, OF this] show ?case by blast
      next
        case (3 bs' w' rel' m')
        from conjunct2 [OF ih, rule_format, OF this] show ?case by blast
      next
        case (4 bs' w' rel' m')
        from conjunct2 [OF ih, rule_format, OF this] show ?case unfolding len by blast
      next
        case (5 bs' w' rel' m')
        from conjunct2 [OF ih, rule_format, OF this] show ?case using more by blast
      qed
    qed
  qed
qed

section \<open>The end of a build\<close>

lemma merges_facts:
  assumes "\<forall>e \<in> set es. valid_ptrs (e_neighbors (snd e))" "f64_le max_alpha 0x4014000000000000" "winv w"
  shows "rfold (\<lambda>(p, e) w. rbind (merge_neighbors_on_disk (s_disk S) p (e_labels e) (e_neighbors e) max_alpha num (MergeBuilder False) w)
      (\<lambda>(_, w). Inr w)) es w \<noteq> Inl OutOfFuel"
    and "rfold (\<lambda>(p, e) w. rbind (merge_neighbors_on_disk (s_disk S) p (e_labels e) (e_neighbors e) max_alpha num (MergeBuilder False) w)
      (\<lambda>(_, w). Inr w)) es w = Inr w' \<Longrightarrow> winv w' \<and> moved row w w'"
proof -
  let ?f = "\<lambda>(p, e) w. rbind (merge_neighbors_on_disk (s_disk S) p (e_labels e) (e_neighbors e) max_alpha num (MergeBuilder False) w)
      (\<lambda>(_, w). Inr w)"
  have "rfold ?f es w \<noteq> Inl OutOfFuel \<and> (rfold ?f es w = Inr w' \<longrightarrow> winv w' \<and> moved row w w')"
    using assms
  proof (induction es arbitrary: w)
    case (Cons e es)
    obtain p x where e: "e = (p, x)" by (cases e)
    have v: "valid_ptrs (e_neighbors x)" and rest: "\<forall>e \<in> set es. valid_ptrs (e_neighbors (snd e))" using Cons.prems(1) e by auto
    let ?m = "merge_neighbors_on_disk (s_disk S) p (e_labels x) (e_neighbors x) max_alpha num (MergeBuilder False) w"
    have fuel: "?m \<noteq> Inl OutOfFuel" by (rule merge_fuel [OF Cons.prems(2) max_alpha_finite [OF Cons.prems(2)] v Cons.prems(3)])
    show ?case
    proof (cases ?m)
      case (Inl err)
      then show ?thesis using fuel e by simp
    next
      case (Inr r)
      obtain pr ns v1 where r: "r = ((pr, ns), v1)" by (metis surj_pair)
      note mm = merge_facts(1) [OF Inr [unfolded r] Cons.prems(3) v max_alpha_finite [OF Cons.prems(2)]]
        merge_moved [OF Inr [unfolded r] Cons.prems(3) v max_alpha_finite [OF Cons.prems(2)]]
      have eq: "rfold ?f (e # es) w = rfold ?f es v1" using Inr r e by simp
      note ih = Cons.IH [OF rest Cons.prems(2) mm(1)]
      show ?thesis unfolding eq using ih moved_trans [OF mm(2)] by blast
    qed
  qed auto
  then show "rfold ?f es w \<noteq> Inl OutOfFuel" "rfold ?f es w = Inr w' \<Longrightarrow> winv w' \<and> moved row w w'" by blast+
qed

lemma finalize_facts:
  assumes "graph_ok (bs_graph bs)" "winv w"
  shows "finalize_index_build S bs w \<noteq> Inl OutOfFuel"
    and "finalize_index_build S bs w = Inr (left, w') \<Longrightarrow> left = bs_ntuples bs \<and> winv w' \<and> moved row w w'"
proof -
  have al: "f64_le (m_max_alpha (g_meta (bs_graph bs))) 0x4014000000000000" using assms(1) by (simp add: graph_ok_def)
  have v: "\<forall>e \<in> set es. valid_ptrs (e_neighbors (snd e))" if run: "gns_into_sorted (g_store (bs_graph bs)) = Inr es" for es
  proof -
    obtain b where b: "g_store (bs_graph bs) = BuilderStore b" "es = builder_into_sorted b"
      using run by (cases "g_store (bs_graph bs)") (simp_all add: gns_into_sorted_def)
    then have "builder_ok b" using assms(1) by (simp add: graph_ok_def gns_ok_def)
    then have d: "distinct (map fst (entries (neighbor_map b)))"
      and all: "lru_lookup (neighbor_map b) p = Some e \<Longrightarrow> valid_ptrs (e_neighbors e)" for p e
      by (auto simp: builder_ok_def lru_inv_def lru_ok_def)
    show ?thesis
    proof
      fix x assume "x \<in> set es"
      then have "(fst x, snd x) \<in> set (entries (neighbor_map b))" by (simp add: b(2) builder_into_sorted_def)
      from map_of_is_SomeI [OF d this] show "valid_ptrs (e_neighbors (snd x))" using all by (simp add: lru_lookup_def)
    qed
  qed
  have g: "gns_into_sorted (g_store (bs_graph bs)) \<noteq> Inl OutOfFuel"
    by (simp add: gns_into_sorted_def split: neighbor_store.splits)
  show "finalize_index_build S bs w \<noteq> Inl OutOfFuel"
    unfolding finalize_index_build_def Let_def
    by (rule rbind_fuel [OF g], rule rbind_fuel [OF merges_facts(1) [OF v al assms(2)]]) simp_all
  assume "finalize_index_build S bs w = Inr (left, w')"
  then obtain es where es: "gns_into_sorted (g_store (bs_graph bs)) = Inr es" and left: "left = bs_ntuples bs"
    and run: "rfold (\<lambda>(p, e) w. rbind (merge_neighbors_on_disk (s_disk S) p (e_labels e) (e_neighbors e) (m_max_alpha (g_meta (bs_graph bs)))
      (unat (m_num_neighbors (g_meta (bs_graph bs)))) (MergeBuilder False) w) (\<lambda>(_, w). Inr w)) es w = Inr w'"
    by (auto simp: finalize_index_build_def Let_def)
  show "left = bs_ntuples bs \<and> winv w' \<and> moved row w w'"
    using merges_facts(2) [OF v [OF es] al assms(2) run] left by blast
qed

text \<open>The whole scan.\<close>

lemma scan_rows_facts:
  assumes w: "winv w" "w_others w = []" "length (w_rel w) + length hrs + 1 < 2 ^ 32 - 1" and gr: "graph_ok gr"
    and cur: "meta_current (env_codec env) rel (g_meta gr)"
    and ord: "\<And>v. mset (env_order env v) = mset v" and lops: "lops = lru_list"
    and meta: "dims_ok (g_meta gr)" "\<not> m_has_labels (g_meta gr)" "alloc_ok (env_alloc env)" and fit: "\<forall>hr \<in> set hrs. row_fits (g_meta gr) hr"
  shows "scan_rows env S pt gr hrs w rel m \<noteq> Inl OutOfFuel"
    and "scan_rows env S pt gr hrs w rel m = Inr (n, w', rel', m') \<Longrightarrow>
      n = length (row_datums hrs) \<and> m' = m \<and> winv w' \<and> w_others w' = [] \<and>
      (\<exists>meta'. meta_current (env_codec env) rel' meta' \<and> entry_points_ok meta' \<and> (\<exists>so. meta' = with_start (g_meta gr) so)) \<and>
      (\<exists>ns. list_all2 (\<lambda>(t, d) n. new_node (indexed_part (g_meta gr) d) None t = Inr n) (row_datums hrs) ns \<and>
        rows_added row (map row ns) (w_rel w) (w_rel w'))"
proof -
  have b: "blocks_left (w_rel w)" using w(3) by (simp add: blocks_left_def)
  have start: "building env (g_meta gr) (length hrs) bs w1 rel \<and> bs_ntuples bs = 0 \<and> rows_at row (w_rel w1) = rows_at row (w_rel w)"
    if run: "build_state_new w gr pt = Inr (bs, w1)" for bs w1
  proof -
    obtain tp r where t: "tape_new (w_rel w) pt = Inr (tp, r)" "bs = \<lparr>bs_ntuples = 0, bs_tape = tp, bs_graph = gr\<rparr>" "w1 = w\<lparr>w_rel := r\<rparr>"
      using run by (auto simp: build_state_new_def)
    note n = tape_new_rows [OF t(1) winv_rel [OF w(1)]]
    have same: "\<exists>so. g_meta gr = with_start (g_meta gr) so" by (rule exI [of _ "m_start_nodes (g_meta gr)"]) simp
    have r: "r = w_rel w @ [InitPage (tsv_opaque_new pt) []]" using n by simp
    have "rows_at row (w_rel w @ [InitPage (tsv_opaque_new pt) []]) = rows_at row (w_rel w)" by (simp add: rows_at_def fun_eq_iff)
    then show ?thesis using n [unfolded r] t(2, 3) [unfolded r] new_page [OF w(1) b] w(2, 3) gr cur same by (simp add: building_def)
  qed
  note cb = callbacks_facts [OF _ ord lops meta fit]
  have bn: "build_state_new w gr pt \<noteq> Inl OutOfFuel"
    unfolding build_state_new_def by (intro no_fuel)
  have fin: "winv w2 \<and> graph_ok (bs_graph bs2) \<and> w_others w2 = []" if "building env (g_meta gr) 0 bs2 w2 rel2" for bs2 w2 rel2
    using that by (simp add: building_def)
  show "scan_rows env S pt gr hrs w rel m \<noteq> Inl OutOfFuel"
    unfolding scan_rows_def
  proof (rule rbind_fuel [OF bn], goal_cases)
    case (1 x)
    obtain bs w1 where x: "x = (bs, w1)" by (cases x)
    note c = cb [OF conjunct1 [OF start [OF 1 [unfolded x]]], of m]
    show ?case
      unfolding x case_prod_conv
    proof (rule rbind_fuel [OF conjunct1 [OF c]], goal_cases)
      case (1 y)
      obtain bs2 w2 rel2 m2 where y: "y = (bs2, w2, rel2, m2)" by (cases y)
      have "winv w2" "graph_ok (bs_graph bs2)" using fin conjunct2 [OF c, rule_format, OF 1 [unfolded y]] by blast+
      from finalize_facts(1) [OF this(2, 1)] show ?case unfolding y case_prod_conv by (intro no_fuel)
    qed
  qed
  assume "scan_rows env S pt gr hrs w rel m = Inr (n, w', rel', m')"
  then obtain bs w1 bs2 w2 where s: "build_state_new w gr pt = Inr (bs, w1)"
    "rfold (build_callback env S) hrs (bs, w1, rel, m) = Inr (bs2, w2, rel', m')" "finalize_index_build S bs2 w2 = Inr (n, w')"
    by (auto simp: scan_rows_def)
  note st = start [OF s(1)]
  note c = conjunct2 [OF cb [OF conjunct1 [OF st]], rule_format, OF s(2)]
  then have b2: "building env (g_meta gr) 0 bs2 w2 rel'" and nt: "bs_ntuples bs2 = length (row_datums hrs)" and m': "m' = m"
    using st by simp_all
  note f = finalize_facts(2) [OF _ _ s(3)] fin [OF b2]
  have fw: "n = bs_ntuples bs2" "winv w'" "moved row w2 w'" using f by blast+
  note al = moved_alone [OF fw(3)] f(2)
  then have a: "w_others w' = []" "rows_at row (w_rel w') = rows_at row (w_rel w2)" by (simp_all add: same_rows_def)
  have cur2: "\<exists>meta'. meta_current (env_codec env) rel' meta' \<and> entry_points_ok meta' \<and> (\<exists>so. meta' = with_start (g_meta gr) so)"
    using b2 by (auto simp: building_def graph_ok_def)
  have rows: "rows_added row rs (w_rel w1) (w_rel w2) = rows_added row rs (w_rel w) (w_rel w')" for rs
    using st a(2) by (simp add: rows_added_def)
  show "n = length (row_datums hrs) \<and> m' = m \<and> winv w' \<and> w_others w' = [] \<and>
      (\<exists>meta'. meta_current (env_codec env) rel' meta' \<and> entry_points_ok meta' \<and> (\<exists>so. meta' = with_start (g_meta gr) so)) \<and>
      (\<exists>ns. list_all2 (\<lambda>(t, d) n. new_node (indexed_part (g_meta gr) d) None t = Inr n) (row_datums hrs) ns \<and>
        rows_added row (map row ns) (w_rel w) (w_rel w'))"
    using c cur2 fw(1, 2) nt m' a(1) unfolding rows by blast
qed

end

section \<open>The access method's build\<close>

text \<open>The given rows have been added to the index, at pointers that held nothing, and nothing else.\<close>

definition index_rows_added :: "storage_type \<Rightarrow> index_row list \<Rightarrow> index_state \<Rightarrow> index_state \<Rightarrow> bool" where
  "index_rows_added st rs ix ix' \<longleftrightarrow>
     (\<exists>ptrs. distinct ptrs \<and> length ptrs = length rs \<and> (\<forall>p \<in> set ptrs. index_rows st ix p = None) \<and>
        index_rows st ix' = index_rows st ix ++ map_of (zip ptrs rs))"

definition rows_with_vector :: "heap_row list \<Rightarrow> heap_row list" where
  "rows_with_vector hrs = filter (\<lambda>hr. row_vector hr \<noteq> None) hrs"

text \<open>What the rows of the table should be in the index.\<close>

definition expected_rows :: "pg_env \<Rightarrow> storage_type \<Rightarrow> meta_page \<Rightarrow> chain_rel \<Rightarrow> heap_row list \<Rightarrow> index_row list \<Rightarrow> bool" where
  "expected_rows env st meta rel hrs rs \<longleftrightarrow>
     list_all2 (\<lambda>hr r. expected_row env st meta rel hr (the (row_vector hr)) = Inr r) (rows_with_vector hrs) rs"

lemma row_datums_eq: "row_datums hrs = map (\<lambda>hr. (row_ctid hr, the (row_vector hr))) (rows_with_vector hrs)"
  by (induction hrs) (auto simp: row_datums_def rows_with_vector_def List.map_filter_def)

lemma list_all2_expected:
  assumes "list_all2 (\<lambda>(t, d) n. new (indexed_part meta d) None t = Inr n) (row_datums hrs) ns"
    and "\<And>hr d n. row_vector hr = Some d \<Longrightarrow> new (indexed_part meta d) None (row_ctid hr) = Inr n \<Longrightarrow>
      expected_row env st meta rel hr d = Inr (f n)"
  shows "expected_rows env st meta rel hrs (map f ns)"
  unfolding expected_rows_def list_all2_map2
  using assms(1) unfolding row_datums_eq list_all2_map1
proof (rule list.rel_mono_strong, goal_cases)
  case (1 hr n)
  then obtain d where "row_vector hr = Some d" by (auto simp: rows_with_vector_def)
  then show ?case using 1 assms(2) by simp
qed

lemma map_option_add: "map_option f \<circ> (m ++ m') = (map_option f \<circ> m) ++ (map_option f \<circ> m')"
  by (auto simp: fun_eq_iff map_add_def split: option.splits)

lemma map_option_map_of: "length ps = length rs \<Longrightarrow> map_option f \<circ> map_of (zip ps rs) = map_of (zip ps (map f rs))"
proof
  fix p assume "length ps = length rs"
  then show "(map_option f \<circ> map_of (zip ps rs)) p = map_of (zip ps (map f rs)) p"
    by (induction ps rs rule: list_induct2) simp_all
qed

lemma rows_added_index:
  assumes "rows_added row rs (w_rel w) (w_rel w')"
    and "index_rows st ix = map_option f \<circ> rows_at row (w_rel w)" "index_rows st ix' = map_option f \<circ> rows_at row (w_rel w')"
  shows "index_rows_added st (map f rs) ix ix'"
proof -
  obtain ptrs where p: "distinct ptrs" "length ptrs = length rs" "\<forall>p \<in> set ptrs. rows_at row (w_rel w) p = None"
    "rows_at row (w_rel w') = rows_at row (w_rel w) ++ map_of (zip ptrs rs)"
    using assms(1) by (auto simp: rows_added_def)
  have "index_rows st ix' = index_rows st ix ++ map_of (zip ptrs (map f rs))"
    unfolding assms(2, 3) p(4) map_option_add map_option_map_of [OF p(2)] ..
  then show ?thesis unfolding index_rows_added_def using p(1-3) by (intro exI [of _ ptrs]) (simp add: assms(2))
qed

text \<open>What a build needs: an index without labels that no other backend uses, rows that fit, and room.\<close>

definition buildable :: "pg_env \<Rightarrow> storage_type \<Rightarrow> meta_page \<Rightarrow> heap_row list \<Rightarrow> index_state \<Rightarrow> bool" where
  "buildable env st meta hrs ix \<longleftrightarrow>
     alloc_ok (env_alloc env) \<and> (\<forall>v. mset (env_order env v) = mset v) \<and> meta_current (env_codec env) (ix_chain ix) meta \<and>
     dims_ok meta \<and> \<not> m_has_labels meta \<and> entry_points_ok meta \<and> f64_le (m_max_alpha meta) 0x4014000000000000 \<and>
     meta_storage_type meta = Inr st \<and> nodes_world st meta ix \<and> alone st ix \<and>
     node_blocks st ix + length hrs + 1 < 2 ^ 32 - 1 \<and> (\<forall>hr \<in> set hrs. row_fits meta hr) \<and>
     means_load header_le (env_means env) meta (ix_chain ix) \<noteq> Inl OutOfFuel"

lemma buildableD:
  assumes "buildable env st meta hrs ix"
  shows "alloc_ok (env_alloc env)" "mset (env_order env v) = mset v" "meta_current (env_codec env) (ix_chain ix) meta"
    "dims_ok meta" "\<not> m_has_labels meta" "entry_points_ok meta" "f64_le (m_max_alpha meta) 0x4014000000000000"
    "meta_storage_type meta = Inr st" "nodes_world st meta ix" "alone st ix" "node_blocks st ix + length hrs + 1 < 2 ^ 32 - 1"
    "\<forall>hr \<in> set hrs. row_fits meta hr" "means_load header_le (env_means env) meta (ix_chain ix) \<noteq> Inl OutOfFuel"
  using assms by (simp_all add: buildable_def)

lemma build_graph_ok:
  "entry_points_ok meta \<Longrightarrow> f64_le (m_max_alpha meta) 0x4014000000000000 \<Longrightarrow>
     graph_ok (build_graph env meta n) \<and> g_meta (build_graph env meta n) = meta"
  by (simp add: graph_ok_def build_graph_def gns_ok_def builder_ok_def builder_cache_new_def Let_def)

lemma do_heap_scan_facts:
  assumes ok: "buildable env st meta hrs ix"
  shows "do_heap_scan env hrs meta workers ix \<noteq> Inl OutOfFuel"
    and "do_heap_scan env hrs meta workers ix = Inr (n, ix') \<Longrightarrow>
      n = length (rows_with_vector hrs) \<and> ix_memory ix' = ix_memory ix \<and> nodes_world st meta ix' \<and> alone st ix' \<and>
      (\<exists>so. meta_current (env_codec env) (ix_chain ix') (with_start meta so) \<and> entry_points_ok (with_start meta so)) \<and>
      (\<exists>rs. expected_rows env st meta (ix_chain ix) hrs rs \<and> index_rows_added st rs ix ix')"
proof -
  note b = buildableD [OF ok]
  let ?gr = "build_graph env meta workers"
  have gm: "g_meta ?gr = meta" and gr: "graph_ok ?gr" using build_graph_ok [OF b(6, 7)] by blast+
  have cur: "meta_current (env_codec env) (ix_chain ix) (g_meta ?gr)" "dims_ok (g_meta ?gr)" "\<not> m_has_labels (g_meta ?gr)"
    "\<forall>hr \<in> set hrs. row_fits (g_meta ?gr) hr" using b(3, 4, 5, 12) gm by simp_all
  show "do_heap_scan env hrs meta workers ix \<noteq> Inl OutOfFuel"
  proof (cases st)
    case Plain
    have "scan_rows env (plain_storage_ops s) Node ?gr hrs (ix_plain ix) (ix_chain ix) (ix_memory ix) \<noteq> Inl OutOfFuel"
      if s: "plain_storage_new env meta = Inr s" for s
    proof -
      have nn: "ps_num_neighbors s = unat (m_num_neighbors meta)" by (rule plain_storage_new_Inr [OF s])
      have w: "plain_world s (ix_plain ix)" "w_others (ix_plain ix) = []" "length (w_rel (ix_plain ix)) + length hrs + 1 < 2 ^ 32 - 1"
        using b(9, 10, 11) Plain nn by (simp_all add: nodes_world_def alone_def node_blocks_def)
      show ?thesis by (rule plain_nodes.scan_rows_facts(1) [OF w gr cur(1) b(2) refl cur(2, 3) b(1) cur(4)])
    qed
    then show ?thesis using b(8) by (simp add: do_heap_scan_def Let_def Plain) (intro no_fuel)
  next
    case SbqCompression
    have "scan_rows env (sbq_storage_ops s) SbqNode ?gr hrs w (ix_chain ix) (ix_memory ix) \<noteq> Inl OutOfFuel"
      if s: "sbq_new_for_build env meta (ix_chain ix) (ix_sbq ix) = Inr (s, w)" for s w
    proof -
      note l = sbq_load_Inr [OF disjI2 [OF s]]
      have w: "sbq_world (sbq_model s) w" "w_others w = []" "length (w_rel w) + length hrs + 1 < 2 ^ 32 - 1"
        using b(9, 10, 11) l by (simp_all add: SbqCompression nodes_world_def alone_def node_blocks_def)
      note f = sbq_search.nodes.scan_rows_facts(1) [OF w gr cur(1) b(2) refl cur(2, 3) b(1) cur(4)]
      show ?thesis using f l by simp
    qed
    moreover note sbq_load_fuel(2) [OF b(13), of "ix_sbq ix"]
    ultimately show ?thesis using b(8) by (simp add: do_heap_scan_def Let_def SbqCompression) (intro no_fuel; simp)
  qed
  assume run: "do_heap_scan env hrs meta workers ix = Inr (n, ix')"
  show "n = length (rows_with_vector hrs) \<and> ix_memory ix' = ix_memory ix \<and> nodes_world st meta ix' \<and> alone st ix' \<and>
      (\<exists>so. meta_current (env_codec env) (ix_chain ix') (with_start meta so) \<and> entry_points_ok (with_start meta so)) \<and>
      (\<exists>rs. expected_rows env st meta (ix_chain ix) hrs rs \<and> index_rows_added st rs ix ix')"
  proof (cases st)
    case Plain
    obtain s w' rel m' where s: "plain_storage_new env meta = Inr s" "ix' = ix\<lparr>ix_plain := w', ix_chain := rel, ix_memory := m'\<rparr>"
      "scan_rows env (plain_storage_ops s) Node ?gr hrs (ix_plain ix) (ix_chain ix) (ix_memory ix) = Inr (n, w', rel, m')"
      using run b(8) Plain by (auto simp: do_heap_scan_def Let_def)
    have nn: "ps_num_neighbors s = unat (m_num_neighbors meta)" by (rule plain_storage_new_Inr [OF s(1)])
    have w: "plain_world s (ix_plain ix)" "w_others (ix_plain ix) = []" "length (w_rel (ix_plain ix)) + length hrs + 1 < 2 ^ 32 - 1"
      using b(9, 10, 11) Plain nn by (simp_all add: nodes_world_def alone_def node_blocks_def)
    note f = plain_nodes.scan_rows_facts(2) [OF w gr cur(1) b(2) refl cur(2, 3) b(1) cur(4) s(3)]
    obtain ns where ns: "list_all2 (\<lambda>(t, d) n. Inr (plain_node_new_for_full_vector (indexed_part meta d) t (ps_num_neighbors s)) = Inr n)
        (row_datums hrs) ns" "rows_added plain_row (map plain_row ns) (w_rel (ix_plain ix)) (w_rel w')"
      using f gm by auto
    let ?rs = "map (\<lambda>n. PlainRow (p_heap n) (p_vector n)) ns"
    have ex: "expected_rows env st meta (ix_chain ix) hrs ?rs"
      by (rule list_all2_expected [of "\<lambda>x ls t. Inr (plain_node_new_for_full_vector x t (ps_num_neighbors s))", OF ns(1)])
        (auto simp: Plain expected_row_def indexed_part_def plain_node_new_for_full_vector_def)
    have "index_rows_added st (map plain_index_row (map plain_row ns)) ix ix'"
      by (rule rows_added_index [OF ns(2)]) (simp_all add: Plain index_rows_plain s(2))
    then have "index_rows_added st ?rs ix ix'" by (simp add: comp_def)
    then show ?thesis
      using f ex s(2) gm nn row_datums_eq [of hrs] by (auto simp: Plain nodes_world_def alone_def)
  next
    case SbqCompression
    obtain s w w' rel m' where s: "sbq_new_for_build env meta (ix_chain ix) (ix_sbq ix) = Inr (s, w)"
      "ix' = ix\<lparr>ix_sbq := w'\<lparr>w_cache := None\<rparr>, ix_chain := rel, ix_memory := m'\<rparr>"
      "scan_rows env (sbq_storage_ops s) SbqNode ?gr hrs w (ix_chain ix) (ix_memory ix) = Inr (n, w', rel, m')"
      using run b(8) SbqCompression by (auto simp: do_heap_scan_def Let_def)
    note l = sbq_load_Inr [OF disjI2 [OF s(1)]]
    have sm: "sbq_model s = s" and nn: "sq_num_neighbors s = unat (m_num_neighbors meta)" and wr: "w_rel w = w_rel (ix_sbq ix)"
      and q: "means_load header_le (env_means env) meta (ix_chain ix) = Inr (sq_quantizer s)" and hl: "sq_has_labels s = m_has_labels meta"
      using l by simp_all
    have w: "sbq_world (sbq_model s) w" "w_others w = []" "length (w_rel w) + length hrs + 1 < 2 ^ 32 - 1"
      using b(9, 10, 11) l by (simp_all add: SbqCompression nodes_world_def alone_def node_blocks_def)
    have run': "scan_rows env (sbq_storage_ops (sbq_model s)) SbqNode ?gr hrs w (ix_chain ix) (ix_memory ix) = Inr (n, w', rel, m')"
      using s(3) sm by simp
    note f = sbq_search.nodes.scan_rows_facts(2) [OF w gr cur(1) b(2) refl cur(2, 3) b(1) cur(4) run', unfolded sm gm]
    obtain ns where ns: "list_all2 (\<lambda>(t, d) n. sbq_new_node s (indexed_part meta d) None t = Inr n) (row_datums hrs) ns"
      "rows_added sbq_row (map sbq_row ns) (w_rel w) (w_rel w')"
      using f by blast
    let ?rs = "map (\<lambda>n. SbqRow (sbq_heap_item_pointer n) (sbq_bq_vector n) (sbq_labels n)) ns"
    have ex: "expected_rows env st meta (ix_chain ix) hrs ?rs"
    proof (rule list_all2_expected [where new = "sbq_new_node s" and meta = meta, OF ns(1)])
      fix hr :: heap_row and d n assume "sbq_new_node s (indexed_part meta d) None (row_ctid hr) = Inr n"
      then show "expected_row env st meta (ix_chain ix) hr d = Inr (SbqRow (sbq_heap_item_pointer n) (sbq_bq_vector n) (sbq_labels n))"
        using q hl b(5) by (auto simp: SbqCompression sbq_new_node_def expected_row_def Let_def sbq_node_new_def indexed_part_def)
    qed
    have "index_rows_added st (map sbq_index_row (map sbq_row ns)) ix ix'"
      by (rule rows_added_index [OF ns(2)]) (simp_all add: SbqCompression index_rows_sbq s(2) wr)
    then have "index_rows_added st ?rs ix ix'" by (simp add: comp_def sbq_core_def)
    moreover have "nodes_world st meta ix'"
      using sbq_world_drop [of s w'] f nn by (simp add: SbqCompression nodes_world_def s(2))
    ultimately show ?thesis
      using f ex s(2) row_datums_eq [of hrs] by (auto simp: SbqCompression alone_def)
  qed
qed

end
