(* ===== verification/Index_Properties.thy ===== *)
theory Index_Properties
  imports Build_Rows Sample_Runs
begin

text \<open>
  The property of the access method's insertion: what it does to the rows of an index, at an index of
  two rows of one dimension.
\<close>

section \<open>A sample index\<close>

definition sample_env :: pg_env where
  "sample_env =
     \<lparr>env_codec = sample_codec, env_means = sample_means_codec, env_simd = sample_simd, env_alloc = sample_alloc,
      env_order = id, env_heap_fetch = (\<lambda>_. None), env_plain_size = (\<lambda>_. 64), env_sbq_size = (\<lambda>_. 64),
      env_work_mem = 65536, env_size_ip = 8, env_size_vec = 24, env_size_entry = 56, env_size_neighbor = 40\<rparr>"

text \<open>The relation of an index with the given meta page.\<close>

definition sample_chain :: "meta_page \<Rightarrow> chain_rel" where
  "sample_chain meta = [InitPage (tsv_opaque_new Meta) [[], header_bytes header_le new_invalid @ ser_meta sample_codec meta]]"

definition one_row :: index_state where
  "one_row =
     \<lparr>ix_chain = sample_chain pair_meta,
      ix_plain = pair_world\<lparr>w_rel := [NewPage, InitPage (tsv_opaque_new Node) [sample_plain_node 0 (ItemPointer 7 1) no_slots]]\<rparr>,
      ix_sbq = \<lparr>w_rel = [], w_cache = None, w_stats = stats_default, w_others = []\<rparr>, ix_memory = []\<rparr>"

definition row1 :: heap_row where
  "row1 = \<lparr>row_ctid = ItemPointer 7 1, row_vector = Some \<lparr>vd_size = 12, vd_dim = 1, vd_reserved = 0, vd_x = [0]\<rparr>, row_labels = None\<rparr>"

definition row2 :: heap_row where
  "row2 = \<lparr>row_ctid = ItemPointer 7 2, row_vector = Some \<lparr>vd_size = 12, vd_dim = 1, vd_reserved = 0, vd_x = [0x3F800000]\<rparr>,
     row_labels = None\<rparr>"

lemma pair_meta_ok: "meta_valid pair_meta" "dims_ok pair_meta" "meta_storage_type pair_meta = Inr Plain" "entry_points_ok pair_meta"
  "f64_le (m_max_alpha pair_meta) 0x4014000000000000" "\<not> m_has_labels pair_meta" "has_entry pair_meta None"
  "start_ok (m_start_nodes pair_meta)"
  by (simp_all add: pair_meta_def new_meta_page_def options_default_def meta_valid_def dims_ok_def ensure_valid_dimensions_def
      MAX_DIMENSION_def meta_distance_type_def distance_type_from_u16_def meta_storage_type_def storage_type_from_u8_def is_ok_def
      entry_points_ok_def get_all_nodes_def start_nodes_new_def InvalidBlockNumber_def sample_f64 has_entry_def contains_all_def
      start_ok_def start_nodes_inv_def bt_inv_def)

lemma row_fit: "row_fits pair_meta row1" "row_fits pair_meta row2"
  by (simp_all add: row_fits_def row1_def row2_def pair_meta_def new_meta_page_def options_default_def varlena_ok_def datum_fits_def
      ensure_valid_dimensions_def)


lemma sample_chain_fetch:
  assumes "meta_valid meta"
  shows "meta_fetch sample_codec header_le (sample_chain meta) = Inr meta" "rel_inv (sample_chain meta)"
proof -
  have d: "ensure_valid_dimensions (unat (m_num_dimensions meta)) (unat (m_num_dimensions_to_index meta)) = Inr ()"
    using assms by (auto simp: meta_valid_def is_ok_iff)
  have "chain_segs header_le Meta {0} (sample_chain meta) (ItemPointer 0 2) [ser_meta sample_codec meta]"
    using sample_codec.ser_meta_ne by (simp add: sample_chain_def item_at_def get_item_unchecked_def items_of_def InvalidBlockNumber_def
        new_invalid_def exI [of _ "ItemPointer InvalidBlockNumber InvalidOffsetNumber"])
  then have
    "chain_collect header_le Meta (sample_chain meta) (chain_fuel (sample_chain meta)) (ItemPointer 0 2) = Inr [ser_meta sample_codec meta]"
    by (rule header_le.chain_collect_segs) (simp add: chain_fuel_def sample_chain_def items_of_def)
  then have load: "meta_load sample_codec header_le (sample_chain meta) = Inr meta"
    using sample_codec.de_ser [of meta] by (simp add: meta_load_def META_BLOCK_NUMBER_def META_OFFSET_def runwrap_def)
  have page: "read_buffer (sample_chain meta) META_BLOCK_NUMBER =
      Inr (InitPage (tsv_opaque_new Meta) [[], header_bytes header_le new_invalid @ ser_meta sample_codec meta])"
    by (simp add: sample_chain_def read_buffer_def META_BLOCK_NUMBER_def)
  show "meta_fetch sample_codec header_le (sample_chain meta) = Inr meta"
    using d by (simp add: meta_fetch_def page readable_type_def load)
  show "rel_inv (sample_chain meta)" by (auto simp: sample_chain_def rel_inv_def page_inv_def MaxOffsetNumber_def)
qed

lemma pair_meta_ready: "meta_ready sample_codec (sample_chain pair_meta) pair_meta None"
proof -
  have "with_entry pair_meta ip None = pair_meta" for ip
    by (simp add: pair_meta_def set_start_nodes_def merge_start_nodes_def)
  moreover have "length (ser_meta sample_codec pair_meta) < 2 ^ 31"
    by (rule sample_codec_length) (auto simp: pair_meta_def new_meta_page_def start_nodes_new_def enc_start_def)
  ultimately show ?thesis
    using pair_meta_ok sample_chain_fetch [OF pair_meta_ok(1)] sample_codec.meta_codec_laws_axioms
    by (simp add: meta_ready_def) (simp add: sample_chain_def)
qed

section \<open>An insertion into the sample index\<close>

lemma sample_storage: "plain_storage_new sample_env pair_meta = Inr sample_plain"
  by (simp add: plain_storage_new_def sample_env_def sample_plain_def pair_meta_def new_meta_page_def options_default_def
      meta_distance_type_def distance_type_from_u16_def)

lemma one_row_insertable: "insertable sample_env Plain pair_meta row2 one_row"
proof -
  have "nodes_world Plain pair_meta one_row"
    by (simp add: nodes_world_def one_row_def pair_world_def node_world_def others_ok_def rel_inv_def page_inv_def MaxOffsetNumber_def
      nodes_ok_def sample_plain_node_def items_of_def exI [of _ Node] pair_meta_def new_meta_page_def)
  then show ?thesis
    using pair_meta_ok pair_meta_ready row_fit(2) sample_alloc_ok
    by (simp add: insertable_def sample_env_def node_blocks_def one_row_def pair_world_def labels_from_datum_def row_fits_def
        expected_row_def Let_def is_ok_def)
qed

lemma row2_vec:
  "\<exists>v bs. lv_from_datums sample_alloc [row_vector row2] [row_vector row2 = None] (row_labels row2) pair_meta m = Inr (Some (v, None), bs @ m) \<and>
     pgv_drop v (bs @ m) = Inr m \<and> \<lparr>lv_vec = pgv_view v (bs @ m), lv_labels = None\<rparr> = pair_query"
proof -
  obtain d where d: "row_vector row2 = Some d" "vd_x d = [0x3F800000]" by (simp add: row2_def)
  have fit: "varlena_ok d" "datum_fits pair_meta d" using row_fit(2) d(1) by (simp_all add: row_fits_def)
  have p: "prepared pair_meta x = x" for x
    by (simp add: prepared_def pair_meta_def new_meta_page_def meta_distance_type_def distance_type_from_u16_def)
  have dims: "m_num_dimensions pair_meta = m_num_dimensions_to_index pair_meta" "m_num_dimensions_to_index pair_meta = 1"
    by (simp_all add: pair_meta_def new_meta_page_def options_default_def)
  obtain v bs where v: "from_datum sample_alloc (Some d) pair_meta True False m = Inr (v, bs @ m)" "pgv_owns v bs m"
    "pgv_view v (bs @ m) = \<lparr>index_distance = Some [0x3F800000], full_distance = Some [0x3F800000]\<rparr>"
    using from_datum_fits [OF pair_meta_ok(2) sample_alloc_ok fit, of True False m] by (auto simp: p d(2) dims)
  have "labels_from_datum (m_has_labels pair_meta) (row_labels row2) = None"
    using pair_meta_ok(6) by (simp add: labels_from_datum_def)
  then show ?thesis
    using v pgv_owns_drop [OF v(2)] by (intro exI [of _ v] exI [of _ bs]) (simp add: d(1) lv_from_datums_def from_pg_parts_def pair_query_def)
qed

lemma one_row_write:
  "tape_resume (w_rel (ix_plain one_row)) Node = Inr (\<lparr>t_page_type = Node, t_current = 1\<rparr>, w_rel (ix_plain one_row))"
  "\<exists>w. s_create_node (plain_storage_ops sample_plain) pg_page_8k [0x3F800000] None (ItemPointer 7 2)
      \<lparr>t_page_type = Node, t_current = 1\<rparr> (ix_plain one_row) = Inr (ip2, \<lparr>t_page_type = Node, t_current = 1\<rparr>, w) \<and>
     w_rel w = pair_rel no_slots no_slots \<and> w_others w = []"
  by (simp_all add: one_row_def pair_world_def tape_resume_def is_chained_def rassert_def read_buffer_def readable_type_def is_new_def
      plain_storage_ops_def plain_create_node_def node_write_def tape_write_def writable_modify_def Let_def
      get_aligned_free_space_def get_free_space_def add_item_unchecked_def push_item_def commit_def pg_page_8k_def sample_plain_def
      BLCKSZ_def maxalign_def items_of_def pair_rel_def plain_node_new_for_full_vector_def sample_plain_node_def empty_slot_def
      numeral_2_eq_2)

lemma one_row_insert:
  "\<exists>ix'. aminsert_internal sample_env row2 one_row = Inr (False, ix')"
proof -
  obtain v bs where v: "lv_from_datums sample_alloc [row_vector row2] [row_vector row2 = None] (row_labels row2) pair_meta [] =
      Inr (Some (v, None), bs)" "pgv_drop v bs = Inr []" "\<lparr>lv_vec = pgv_view v bs, lv_labels = None\<rparr> = pair_query"
    using row2_vec [of "[]"] by auto
  obtain w where w: "s_create_node (plain_storage_ops sample_plain) pg_page_8k [0x3F800000] None (ItemPointer 7 2)
      \<lparr>t_page_type = Node, t_current = 1\<rparr> (ix_plain one_row) = Inr (ip2, \<lparr>t_page_type = Node, t_current = 1\<rparr>, w)"
    "w_rel w = pair_rel no_slots no_slots" "w_others w = []" using one_row_write(2) by blast
  obtain w' where w': "insert_internal (plain_storage_ops sample_plain) lru_list id pair_graph ip2 pair_query True w = Inr (False, pair_graph, w')"
    using pair_insert [OF w(2, 3)] by blast
  have q: "to_index_slice (lv_vec pair_query) = Inr [0x3F800000]" "lv_labels pair_query = None"
    by (simp_all add: pair_query_def to_index_slice_def)
  have gi: "graph_insert sample_codec header_le pg_page_8k (plain_storage_ops sample_plain) lru_list id pair_graph ip2 pair_query w rel =
      Inr (pair_graph, w', rel)" for rel
    using pair_meta_ok(7) by (simp add: graph_insert_def update_start_nodes_def has_entry_def q w')
  have st: "insert_storage sample_env (plain_storage_ops sample_plain) Node pair_query (ItemPointer 7 2) pair_meta (ix_plain one_row)
      (ix_chain one_row) = Inr (w', ix_chain one_row)"
    by (simp add: insert_storage_def one_row_write(1) q w(1) gi sample_env_def)
  have "insert_arm sample_env Plain pair_meta pair_query (ItemPointer 7 2) one_row = Inr (one_row\<lparr>ix_plain := w', ix_chain := ix_chain one_row\<rparr>)"
    by (simp add: insert_arm_def sample_storage q st rassert_def)
  moreover have "meta_fetch (env_codec sample_env) header_le (ix_chain one_row) = Inr pair_meta" "ix_memory one_row = []"
    "row_ctid row2 = ItemPointer 7 2" "env_alloc sample_env = sample_alloc"
    using sample_chain_fetch(1) [OF pair_meta_ok(1)] by (simp_all add: sample_env_def one_row_def row2_def)
  ultimately show ?thesis by (simp add: aminsert_internal_def v pair_meta_ok(3))
qed

text \<open>
  C1. An insertion adds exactly its row. Where the row is well formed and the published meta page is
  \<open>meta\<close>, \<open>aminsert\<close> never loops; if it succeeds it answers false, has freed its copy of the vector, and
  leaves the nodes of the index well formed. A row without a vector changes nothing. Any other row is
  afterwards in the index at a pointer that held nothing: the pointer of the table row, the part of
  its vector that is indexed, prepared for the distance and quantised by the quantiser of the index,
  and its labels. In an index that nobody else is using every other row is as before and there is no
  other one; among backends that lose no row, none is lost. The meta page has been published with an
  entry point for every label of the row and is otherwise unchanged, and no entry point is lost.
\<close>

theorem insert_adds_row:
  assumes "insertable env st meta row ix"
  shows "aminsert_internal env row ix \<noteq> Inl OutOfFuel \<and>
    (\<forall>b ix'. aminsert_internal env row ix = Inr (b, ix') \<longrightarrow>
       \<not> b \<and> ix_memory ix' = ix_memory ix \<and> nodes_world st meta ix' \<and>
       (case row_vector row of
          None \<Rightarrow> ix' = ix
        | Some d \<Rightarrow>
            (\<exists>r ip. expected_row env st meta (ix_chain ix) row d = Inr r \<and> index_rows st ix ip = None \<and>
               (alone st ix \<longrightarrow> alone st ix' \<and> index_rows st ix' = (index_rows st ix)(ip \<mapsto> r)) \<and>
               (rows_kept st ix \<longrightarrow> rows_kept st ix' \<and> (index_rows st ix)(ip \<mapsto> r) \<subseteq>\<^sub>m index_rows st ix')) \<and>
            (\<exists>meta'. meta_fetch (env_codec env) header_le (ix_chain ix') = Inr meta' \<and>
               has_entry meta' (labels_from_datum (m_has_labels meta) (row_labels row)) \<and>
               entry_extends (m_start_nodes meta) (m_start_nodes meta') \<and>
               meta'\<lparr>m_start_nodes := m_start_nodes meta\<rparr> = meta)))"
proof -
  note f = aminsert_facts(2) [OF assms, unfolded published_def index_row_added_def]
  show ?thesis
  proof (intro conjI allI impI, goal_cases)
    case 1
    show ?case by (rule aminsert_facts(1) [OF assms])
  next
    case (5 b ix')
    from f [OF this] show ?case by (cases "row_vector row") (simp_all only: option.case, blast+)
  qed (use f in blast)+
qed

theorem insert_adds_row_witness:
  "\<exists>ix' ip. aminsert_internal sample_env row2 one_row = Inr (False, ix') \<and> index_rows Plain one_row ip = None \<and>
     index_rows Plain ix' = (index_rows Plain one_row)(ip \<mapsto> PlainRow (ItemPointer 7 2) [0x3F800000]) \<and> nodes_world Plain pair_meta ix'"
proof -
  obtain ix' where run: "aminsert_internal sample_env row2 one_row = Inr (False, ix')" using one_row_insert by blast
  note all = insert_adds_row [OF one_row_insertable, THEN conjunct2, rule_format, OF run]
  have r: "expected_row sample_env Plain pair_meta (ix_chain one_row) row2 (the (row_vector row2)) = Inr (PlainRow (ItemPointer 7 2) [0x3F800000])"
    by (simp add: expected_row_def row2_def prepared_def pair_meta_def new_meta_page_def options_default_def meta_distance_type_def
        distance_type_from_u16_def)
  have "alone Plain one_row" by (simp add: alone_def one_row_def pair_world_def)
  moreover obtain d where "row_vector row2 = Some d" by (simp add: row2_def)
  ultimately show ?thesis using all r run by auto
qed

end
