(* ===== verification/Index_Create.thy ===== *)
theory Index_Create
  imports Build_Rows Parallel_Build
begin

text \<open>
  \<open>ambuild\<close> of \<open>build.rs\<close>: the meta page of a new index, the training of its quantiser, and the build.
  What a parallel build does is a parameter here; \<open>Parallel_Build\<close> models its workers.
\<close>

section \<open>The new index\<close>

definition MAX_DIMENSION_NO_SBQ :: nat where "MAX_DIMENSION_NO_SBQ = 2000"

text \<open>
  What PostgreSQL says of the index: the version of the extension, the number of its columns, the
  type modifier of the first, what the distance function of the operator class returns (\<open>None\<close> where
  there is none), the options, and what decides about workers.
\<close>

record index_request =
  rq_version :: string
  rq_natts :: nat
  rq_typmod :: int
  rq_distance_proc :: "16 word option"
  rq_options :: "tsv_index_options option"
  rq_forced_workers :: int
  rq_heap_tuples :: nat
  rq_min_vectors :: nat
  rq_parallel_workers :: nat
  rq_launched :: bool

definition get_meta_page :: "pg_env \<Rightarrow> index_request \<Rightarrow> tsv_index_options \<Rightarrow> chain_rel \<Rightarrow> (meta_page \<times> chain_rel) res" where
  "get_meta_page env rq opt rel =
     rbind (dimension_from_typmod (rq_typmod rq)) (\<lambda>dimensions.
     rbind (case rq_distance_proc rq of
              None \<Rightarrow> Inl (PgError ''No distance type function found for index'')
            | Some v \<Rightarrow> distance_type_from_u16 (unat v)) (\<lambda>distance_type.
     rbind (if distance_type = InnerProduct then get_storage_type opt else Inr SbqCompression) (\<lambda>t.
     if distance_type = InnerProduct \<and> t = Plain
     then Inl (PgError ''Inner product distance type is not supported with plain storage'')
     else
       rbind (meta_create (env_codec env) header_le pg_page_8k (rq_version rq) (rq_natts rq) rel (of_nat dimensions) distance_type opt)
         (\<lambda>(meta, rel).
       rbind (meta_storage_type meta) (\<lambda>storage.
       if unat (m_num_dimensions_to_index meta) > MAX_DIMENSION_NO_SBQ \<and> storage = Plain
       then Inl (PgError ''Too many dimensions to index with plain storage'')
       else if m_has_labels meta \<and> storage = Plain
       then Inl (PgError ''Labeled filtering is not supported with plain storage'')
       else Inr (meta, rel))))))"

text \<open>
  The table is scanned twice, for the training (\<open>sampled\<close>) and for the build (\<open>rows\<close>). The result is
  the number of tuples that PostgreSQL is told. \<open>run_workers\<close> is the parallel build by the given number
  of workers; without a segment of shared memory, or where no worker can be launched, the build is serial.
\<close>

definition ambuild ::
  "pg_env \<Rightarrow> index_request \<Rightarrow> (nat \<Rightarrow> index_state \<Rightarrow> (nat \<times> index_state) res) \<Rightarrow> heap_row list \<Rightarrow> heap_row list \<Rightarrow> index_state
     \<Rightarrow> (nat \<times> index_state) res" where
  "ambuild env rq run_workers sampled rows ix =
     (let opt = options_from_relation (rq_options rq) in
      rbind (get_meta_page env rq opt (ix_chain ix)) (\<lambda>(meta, rel).
      rbind (maybe_train_quantizer header_le pg_page_8k (env_means env) (env_alloc env) (map row_vector sampled) meta rel (ix_memory ix))
        (\<lambda>(meta, rel, m).
      rbind (meta_store (env_codec env) header_le pg_page_8k meta rel False) (\<lambda>rel.
      rbind (meta_storage_type meta) (\<lambda>storage.
      let ix = ix\<lparr>ix_chain := rel, ix_memory := m\<rparr>;
          workers = parallel_workers (m_has_labels meta) (storage = SbqCompression) (rq_forced_workers rq) (rq_heap_tuples rq)
            (rq_min_vectors rq) (rq_parallel_workers rq)
      in if workers > 0 \<and> rq_launched rq then run_workers workers ix
         else do_heap_scan env rows meta workers ix)))))"

section \<open>The meta page of a new index\<close>

definition request_ok :: "pg_env \<Rightarrow> index_request \<Rightarrow> storage_type \<Rightarrow> bool" where
  "request_ok env rq t \<longleftrightarrow>
     meta_codec_laws (env_codec env) \<and> reloptions_ok (options_from_relation (rq_options rq)) \<and>
     get_storage_type (options_from_relation (rq_options rq)) = Inr t \<and> rq_natts rq = 1"

lemma dimension_from_typmod_Inr: "dimension_from_typmod n = Inr d \<Longrightarrow> n = int d \<and> 1 \<le> d \<and> d \<le> 16000"
  by (auto simp: dimension_from_typmod_def MAX_DIMENSION_def split: if_splits)

lemma meta_create_facts:
  assumes rq: "request_ok env rq t" and small: "\<And>m. m_start_nodes m = None \<Longrightarrow> m_extension_version_when_built m = rq_version rq \<Longrightarrow>
      length (ser_meta (env_codec env) m) \<le> K" and K: "K < 2 ^ 31"
    and d: "1 \<le> d" "d \<le> 16000"
    and r_def: "r = meta_create (env_codec env) header_le pg_page_8k (rq_version rq) (rq_natts rq) [] (of_nat d) dt
      (options_from_relation (rq_options rq))"
  shows "r \<noteq> Inl OutOfFuel"
    and "r = Inr (meta, rel) \<Longrightarrow>
      dims_ok meta \<and> meta_valid meta \<and> unat (m_num_dimensions meta) = d \<and> 1 \<le> unat (m_bq_num_bits_per_dimension meta) \<and>
      f64_le (m_max_alpha meta) 0x4014000000000000 \<and> meta_storage_type meta = Inr t \<and> meta_distance_type meta = Inr dt \<and>
      m_start_nodes meta = None \<and> \<not> m_has_labels meta \<and> m_extension_version_when_built meta = rq_version rq \<and>
      m_quantizer_metadata meta = ItemPointer InvalidBlockNumber InvalidOffsetNumber \<and>
      rel_inv rel \<and> rel \<noteq> [] \<and> is_ok (read_from_page (rel ! 0)) \<and> length rel \<le> K + 11"
proof -
  let ?opt = "options_from_relation (rq_options rq)"
  have c: "meta_codec_laws (env_codec env)" and opt: "reloptions_ok ?opt" "get_storage_type ?opt = Inr t" and n1: "rq_natts rq = 1"
    using rq by (simp_all add: request_ok_def)
  have u: "unat (of_nat d :: 32 word) = d" using d by (simp add: unat_of_nat)
  have store: "\<exists>rel. meta_store (env_codec env) header_le pg_page_8k m [] True = Inr rel \<and> rel_inv rel \<and> rel \<noteq> [] \<and>
      is_ok (read_from_page (rel ! 0)) \<and> length rel \<le> K + 11"
    if m: "meta_valid m" "m_start_nodes m = None" "m_extension_version_when_built m = rq_version rq" for m
  proof -
    have s: "length (ser_meta (env_codec env) m) \<le> K" by (rule small [OF m(2, 3)])
    then have room: "length ([] :: chain_rel) + length (ser_meta (env_codec env) m) + 21 < 2 ^ 32 - 1" using K by simp
    have v: "m_magic_number m = TSV_MAGIC_NUMBER" "m_version m = TSV_VERSION" using m(1) by (simp_all add: meta_valid_def)
    have inv: "rel_inv ([] :: chain_rel)" by (simp add: rel_inv_def)
    obtain rel xs where rel: "meta_store (env_codec env) header_le pg_page_8k m [] True = Inr rel" "rel_inv rel" "rel \<noteq> []"
      "rel ! 0 = InitPage (tsv_opaque_new Meta) xs"
      using meta_codec_laws.meta_store_facts [OF c v inv room, of True] by auto
    then show ?thesis
      using meta_codec_laws.meta_store_length [OF c rel(1) inv room] s by (simp add: read_from_page_def)
  qed
  let ?idx = "unat (if o_num_dimensions ?opt = 0 then of_nat d else o_num_dimensions ?opt :: 32 word)"
  show "r \<noteq> Inl OutOfFuel"
  proof
    assume f: "r = Inl OutOfFuel"
    have a: "ensure_valid_dimensions x y \<noteq> Inl OutOfFuel" for x y by (simp add: ensure_valid_dimensions_def)
    have b: "choose_num_bits ?opt y \<noteq> Inl OutOfFuel" for y by (simp add: choose_num_bits_def opt(2))
    have e: "check_num_bits ?opt y z \<noteq> Inl OutOfFuel" for y z by (simp add: check_num_bits_def opt(2) Let_def)
    have g: "calculate_num_neighbors ?opt \<noteq> Inl OutOfFuel"
      by (simp add: calculate_num_neighbors_def get_num_neighbors_def opt(2) split: storage_type.splits)
    have st: "\<exists>rel. meta_store (env_codec env) header_le pg_page_8k (new_meta_page (rq_version rq) 1 (of_nat d) dt ?opt t bits k) [] True = Inr rel"
      if "ensure_valid_dimensions d ?idx = Inr ()" for bits k
    proof -
      have "meta_valid (new_meta_page (rq_version rq) 1 (of_nat d) dt ?opt t bits k)"
        using that u by (simp add: meta_valid_def new_meta_page_def is_ok_iff)
      from store [OF this] show ?thesis by (auto simp: new_meta_page_def)
    qed
    have "r \<noteq> Inl OutOfFuel"
      unfolding r_def meta_create_def Let_def n1
    proof (rule rbind_fuel [OF a], rule rbind_fuel [OF b], rule rbind_fuel [OF e], goal_cases)
      case (1 x bits y)
      then have v: "ensure_valid_dimensions d ?idx = Inr ()" using u by simp
      show ?case
      proof (cases "calculate_num_neighbors ?opt")
        case (Inl e)
        then show ?thesis using g by (simp add: get_num_index_attributes_def opt(2))
      next
        case (Inr k)
        obtain rel where "meta_store (env_codec env) header_le pg_page_8k (new_meta_page (rq_version rq) 1 (of_nat d) dt ?opt t bits k) [] True = Inr rel"
          using st [OF v] by blast
        then show ?thesis using Inr by (simp add: get_num_index_attributes_def opt(2) new_meta_page_def)
      qed
    qed
    then show False using f by simp
  qed
  assume "r = Inr (meta, rel)"
  then obtain bits k where m: "ensure_valid_dimensions d ?idx = Inr ()" "choose_num_bits ?opt ?idx = Inr bits"
    "calculate_num_neighbors ?opt = Inr k" "meta = new_meta_page (rq_version rq) 1 (of_nat d) dt ?opt t bits k"
    "meta_store (env_codec env) header_le pg_page_8k meta [] True = Inr rel"
    using u opt(2) n1 unfolding r_def meta_create_Inr Let_def by auto
  have "1 \<le> unat bits"
    using choose_num_bits_facts [OF _ opt(2), of ?idx] opt(1) m(2) by (auto simp: reloptions_ok_def)
  moreover have "meta_valid meta" using m(1) u by (simp add: m(4) meta_valid_def new_meta_page_def is_ok_iff)
  moreover from store [OF this] m(5) have "rel_inv rel \<and> rel \<noteq> [] \<and> is_ok (read_from_page (rel ! 0)) \<and> length rel \<le> K + 11"
    by (auto simp: m(4) new_meta_page_def)
  ultimately show "dims_ok meta \<and> meta_valid meta \<and> unat (m_num_dimensions meta) = d \<and> 1 \<le> unat (m_bq_num_bits_per_dimension meta) \<and>
      f64_le (m_max_alpha meta) 0x4014000000000000 \<and> meta_storage_type meta = Inr t \<and> meta_distance_type meta = Inr dt \<and>
      m_start_nodes meta = None \<and> \<not> m_has_labels meta \<and> m_extension_version_when_built meta = rq_version rq \<and>
      m_quantizer_metadata meta = ItemPointer InvalidBlockNumber InvalidOffsetNumber \<and>
      rel_inv rel \<and> rel \<noteq> [] \<and> is_ok (read_from_page (rel ! 0)) \<and> length rel \<le> K + 11"
    using m(1) u opt(1)
    by (simp add: m(4) new_meta_page_def dims_ok_def meta_distance_type_def meta_storage_type_def is_ok_iff reloptions_ok_def)
qed

text \<open>A meta page that has just been created, in a relation that holds it and its chain only.\<close>

definition just_created :: "pg_env \<Rightarrow> index_request \<Rightarrow> storage_type \<Rightarrow> nat \<Rightarrow> meta_page \<Rightarrow> chain_rel \<Rightarrow> bool" where
  "just_created env rq t K meta rel \<longleftrightarrow>
     dims_ok meta \<and> meta_valid meta \<and> int (unat (m_num_dimensions meta)) = rq_typmod rq \<and>
     1 \<le> unat (m_bq_num_bits_per_dimension meta) \<and>
     f64_le (m_max_alpha meta) 0x4014000000000000 \<and> meta_storage_type meta = Inr t \<and>
     m_start_nodes meta = None \<and> \<not> m_has_labels meta \<and> m_extension_version_when_built meta = rq_version rq \<and>
     rel_inv rel \<and> rel \<noteq> [] \<and> is_ok (read_from_page (rel ! 0)) \<and> length rel \<le> K + 11"

text \<open>The serialised sizes, and room for two copies of each in the relation.\<close>

definition sizes_ok :: "pg_env \<Rightarrow> index_request \<Rightarrow> nat \<Rightarrow> bool" where
  "sizes_ok env rq K \<longleftrightarrow>
     (\<forall>m. m_extension_version_when_built m = rq_version rq \<and> (\<forall>s. m_start_nodes m = Some s \<longrightarrow> labeled_nodes s = []) \<longrightarrow>
        length (ser_meta (env_codec env) m) \<le> K) \<and>
     (\<forall>s. means_count s < 2 ^ 64 \<longrightarrow> length (means_means s) \<le> MAX_DIMENSION \<longrightarrow> length (means_m2 s) \<le> MAX_DIMENSION \<longrightarrow>
        length (sm_to_bytes (env_means env) s) \<le> K) \<and> K < 2 ^ 29"

lemma get_meta_page_facts:
  assumes rq: "request_ok env rq t" and K: "sizes_ok env rq K"
  shows "get_meta_page env rq (options_from_relation (rq_options rq)) [] \<noteq> Inl OutOfFuel"
    and "get_meta_page env rq (options_from_relation (rq_options rq)) [] = Inr (meta, rel) \<Longrightarrow> just_created env rq t K meta rel"
proof -
  let ?opt = "options_from_relation (rq_options rq)"
  let ?create = "\<lambda>d dt. meta_create (env_codec env) header_le pg_page_8k (rq_version rq) (rq_natts rq) [] (of_nat d) dt ?opt"
  have small: "m_start_nodes m = None \<Longrightarrow> m_extension_version_when_built m = rq_version rq \<Longrightarrow> length (ser_meta (env_codec env) m) \<le> K"
    and K31: "K < 2 ^ 31" for m using K by (simp_all add: sizes_ok_def)
  have mc: "?create d dt \<noteq> Inl OutOfFuel" if "1 \<le> d" "d \<le> 16000" for d dt
    by (rule meta_create_facts(1) [OF rq _ K31 that refl]) (rule small)
  have made: "just_created env rq t K meta rel" if "rq_typmod rq = int d" "1 \<le> d" "d \<le> 16000" "?create d dt = Inr (meta, rel)" for d dt
    using meta_create_facts(2) [OF rq small K31 that(2, 3) refl that(4)] that(1) by (simp add: just_created_def)
  have t: "get_storage_type ?opt = Inr t" using rq by (simp add: request_ok_def)
  have f: "dimension_from_typmod n \<noteq> Inl OutOfFuel" "distance_type_from_u16 v \<noteq> Inl OutOfFuel" for n v
    by (simp_all add: dimension_from_typmod_def distance_type_from_u16_def)
  have mst: "meta_storage_type meta \<noteq> Inl OutOfFuel" for meta
    by (simp add: meta_storage_type_def storage_type_from_u8_def)
  have proc: "(case rq_distance_proc rq of None \<Rightarrow> Inl (PgError ''No distance type function found for index'')
      | Some v \<Rightarrow> distance_type_from_u16 (unat v)) \<noteq> Inl OutOfFuel" using f(2) by (simp split: option.splits)
  show "get_meta_page env rq ?opt [] \<noteq> Inl OutOfFuel"
    unfolding get_meta_page_def
  proof (rule rbind_fuel [OF f(1)], rule rbind_fuel [OF proc], goal_cases)
    case (1 d dt)
    have "1 \<le> d" "d \<le> 16000" using dimension_from_typmod_Inr [OF 1(1)] by blast+
    from mc [OF this] show ?case using mst t by (intro no_fuel) (auto simp: mst)
  qed
  assume "get_meta_page env rq ?opt [] = Inr (meta, rel)"
  then obtain d dt where d: "dimension_from_typmod (rq_typmod rq) = Inr d" and run: "?create d dt = Inr (meta, rel)"
    unfolding get_meta_page_def by (auto split: if_splits)
  then show "just_created env rq t K meta rel" using made dimension_from_typmod_Inr [OF d] by blast
qed

lemma train_and_store:
  assumes new: "just_created env rq t K meta rel" and K: "sizes_ok env rq K"
    and env: "meta_codec_laws (env_codec env)" "means_codec_ok (env_means env)" "alloc_ok (env_alloc env)"
    and few: "length sampled < 2 ^ 64" and fit: "\<forall>hr \<in> set sampled. row_fits meta hr"
  obtains meta' rel1 rel2 where
    "maybe_train_quantizer header_le pg_page_8k (env_means env) (env_alloc env) (map row_vector sampled) meta rel m = Inr (meta', rel1, m)"
    "meta_store (env_codec env) header_le pg_page_8k meta' rel1 False = Inr rel2" "meta_fetch (env_codec env) header_le rel2 = Inr meta'"
    "rel_inv rel2" "length rel2 \<le> 3 * K + 30" "\<exists>p. meta' = set_quantizer_metadata_pointer p meta"
    "means_load header_le (env_means env) meta' rel2 \<noteq> Inl OutOfFuel"
    "t = SbqCompression \<longrightarrow> (\<exists>q. rfold add_sample (train_samples meta (map row_vector sampled))
       (start_training (unat (m_num_dimensions_to_index meta)) (sbq_quantizer_new (unat (m_bq_num_bits_per_dimension meta)))) = Inr q \<and>
       means_load header_le (env_means env) meta' rel2 = Inr (finish_training q))"
proof (cases t)
  case SbqCompression
  note n = new [unfolded just_created_def SbqCompression]
  have rows: "\<forall>vec \<in> set (map row_vector sampled). \<forall>d \<in> set_option vec. varlena_ok d \<and> datum_fits meta d"
    using fit by (auto simp: row_fits_def)
  have sz: "means_count s < 2 ^ 64 \<Longrightarrow> length (means_means s) \<le> MAX_DIMENSION \<Longrightarrow> length (means_m2 s) \<le> MAX_DIMENSION \<Longrightarrow>
        length (sm_to_bytes (env_means env) s) \<le> K" "length (ser_meta (env_codec env) (set_quantizer_metadata_pointer p meta)) \<le> K" for s p
    using K n by (simp_all add: sizes_ok_def set_quantizer_metadata_pointer_def)
  have room: "length rel + 2 * K + 30 < 2 ^ 32 - 1" using K n by (simp add: sizes_ok_def)
  have few': "length (map row_vector sampled) < 2 ^ 64" using few by simp
  have bits: "0 < unat (m_bq_num_bits_per_dimension meta)" using n by linarith
  have pre: "dims_ok meta" "meta_valid meta" "meta_storage_type meta = Inr SbqCompression" "rel_inv rel" "rel \<noteq> []"
    "is_ok (read_from_page (rel ! 0))" "length rel \<le> K + 11" using n by simp_all
  obtain q ip rel1 rel2 where r: "rfold add_sample (train_samples meta (map row_vector sampled))
       (start_training (unat (m_num_dimensions_to_index meta)) (sbq_quantizer_new (unat (m_bq_num_bits_per_dimension meta)))) = Inr q"
    "maybe_train_quantizer header_le pg_page_8k (env_means env) (env_alloc env) (map row_vector sampled) meta rel m =
       Inr (set_quantizer_metadata_pointer ip meta, rel1, m)"
    "meta_store (env_codec env) header_le pg_page_8k (set_quantizer_metadata_pointer ip meta) rel1 False = Inr rel2"
    "meta_fetch (env_codec env) header_le rel2 = Inr (set_quantizer_metadata_pointer ip meta)"
    "means_load header_le (env_means env) (set_quantizer_metadata_pointer ip meta) rel2 = Inr (finish_training q)"
    "rel_inv rel1" "rel1 \<noteq> []" "rel_inv rel2" "length rel1 \<le> length rel + K + 1"
    using trained_persists [OF env(2, 1, 3) pre(1-3) bits few' rows pre(4-6) sz room, of m] unfolding Let_def by blast
  have "length rel1 + length (ser_meta (env_codec env) (set_quantizer_metadata_pointer ip meta)) + 21 < 2 ^ 32 - 1"
    using r(9) sz(2) [of ip] pre(7) K by (simp add: sizes_ok_def)
  from meta_codec_laws.meta_store_length [OF env(1) r(3) r(6) this] have "length rel2 \<le> 3 * K + 30"
    using r(7, 9) sz(2) [of ip] pre(7) by simp
  then show ?thesis
    using r by (intro that [of "set_quantizer_metadata_pointer ip meta" rel1 rel2]) (simp_all, blast)
next
  case Plain
  note n = new [unfolded just_created_def Plain]
  have sz: "length (ser_meta (env_codec env) meta) \<le> K" and K2: "K < 2 ^ 29" using K n by (simp_all add: sizes_ok_def)
  have pre: "meta_valid meta" "meta_storage_type meta = Inr Plain" "rel_inv rel" "rel \<noteq> []"
    "is_ok (read_from_page (rel ! 0))" "length rel \<le> K + 11" using n by simp_all
  have room: "length rel + length (ser_meta (env_codec env) meta) + 21 < 2 ^ 32 - 1" using sz pre(6) K2 by simp
  obtain rel2 where r: "meta_store (env_codec env) header_le pg_page_8k meta rel False = Inr rel2" "rel_inv rel2"
    "meta_fetch (env_codec env) header_le rel2 = Inr meta"
    using meta_codec_laws.meta_store_fetch [OF env(1) pre(1) pre(3) room, of False] pre(4, 5) by auto
  have len: "length rel2 \<le> 3 * K + 30"
    using meta_codec_laws.meta_store_length [OF env(1) r(1) pre(3) room] pre(4, 6) sz by simp
  have "means_load header_le (env_means env) meta rel2 \<noteq> Inl OutOfFuel"
    using pre(2) by (simp add: means_load_def Let_def get_quantizer_metadata_pointer_def)
  moreover have "\<exists>p. meta = set_quantizer_metadata_pointer p meta"
    by (rule exI [of _ "m_quantizer_metadata meta"]) (simp add: set_quantizer_metadata_pointer_def)
  ultimately show ?thesis
    using r len pre(2) Plain by (intro that [of meta rel rel2]) (simp_all add: maybe_train_quantizer_def)
qed

section \<open>Building a new index\<close>

text \<open>A relation without nodes that nobody else uses.\<close>

definition fresh_index :: "nat \<Rightarrow> index_state \<Rightarrow> bool" where
  "fresh_index n ix \<longleftrightarrow>
     ix_chain ix = [] \<and>
     set (w_rel (ix_plain ix)) \<subseteq> {NewPage} \<and> w_others (ix_plain ix) = [] \<and> length (w_rel (ix_plain ix)) + n + 1 < 2 ^ 32 - 1 \<and>
     set (w_rel (ix_sbq ix)) \<subseteq> {NewPage} \<and> w_others (ix_sbq ix) = [] \<and> length (w_rel (ix_sbq ix)) + n + 1 < 2 ^ 32 - 1 \<and>
     w_cache (ix_sbq ix) = None"

lemma unused_pages: "set r \<subseteq> {NewPage} \<Longrightarrow> length r < 2 ^ 32 - 1 \<Longrightarrow> rel_inv r \<and> nodes_ok f k r"
  by (auto simp: rel_inv_def page_inv_def nodes_ok_def items_of_def)

lemma unused_items: "set r \<subseteq> {NewPage} \<Longrightarrow> item_at r p = None"
proof -
  assume r: "set r \<subseteq> {NewPage}"
  have "r ! unat (block_number p) = NewPage" if "unat (block_number p) < length r" using nth_mem [OF that] r by blast
  then show ?thesis by (auto simp: item_at_def get_item_unchecked_def items_of_def)
qed

lemma fresh_nodes:
  assumes "fresh_index n ix"
  shows "nodes_world t meta (ix\<lparr>ix_chain := rel, ix_memory := m\<rparr>)" "alone t (ix\<lparr>ix_chain := rel, ix_memory := m\<rparr>)"
    "node_blocks t (ix\<lparr>ix_chain := rel, ix_memory := m\<rparr>) + n + 1 < 2 ^ 32 - 1"
    "index_rows t (ix\<lparr>ix_chain := rel, ix_memory := m\<rparr>) = Map.empty"
  using assms by (cases t; simp add: fresh_index_def nodes_world_def node_world_def others_ok_def unused_pages alone_def node_blocks_def
      index_rows_def unused_items fun_eq_iff)+

text \<open>What \<open>ambuild\<close> needs: a request for an index without labels, rows that fit, and room.\<close>

definition row_of_dimension :: "int \<Rightarrow> heap_row \<Rightarrow> bool" where
  "row_of_dimension n hr \<longleftrightarrow>
     (\<forall>d. row_vector hr = Some d \<longrightarrow> varlena_ok d \<and> sint (vd_dim d) = n \<and> vd_reserved d = 0 \<and> vd_size d = 8 + 4 * nat n)"

definition creatable :: "pg_env \<Rightarrow> index_request \<Rightarrow> storage_type \<Rightarrow> heap_row list \<Rightarrow> heap_row list \<Rightarrow> index_state \<Rightarrow> bool" where
  "creatable env rq t sampled rows ix \<longleftrightarrow>
     request_ok env rq t \<and> means_codec_ok (env_means env) \<and> alloc_ok (env_alloc env) \<and> (\<forall>v. mset (env_order env v) = mset v) \<and>
     (\<exists>K. sizes_ok env rq K) \<and> length sampled < 2 ^ 64 \<and>
     (\<forall>hr \<in> set (sampled @ rows). row_of_dimension (rq_typmod rq) hr) \<and> fresh_index (length rows) ix"

text \<open>No worker is used, or none can be started.\<close>

definition serial_build :: "index_request \<Rightarrow> storage_type \<Rightarrow> bool" where
  "serial_build rq t \<longleftrightarrow>
     parallel_workers False (t = SbqCompression) (rq_forced_workers rq) (rq_heap_tuples rq) (rq_min_vectors rq) (rq_parallel_workers rq) = 0 \<or>
     \<not> rq_launched rq"

text \<open>Once the meta page has been made, what is left is a serial build of an index that is ready for it.\<close>

lemma ambuild_ready:
  assumes ok: "creatable env rq t sampled rows ix" and serial: "serial_build rq t"
    and run: "get_meta_page env rq (options_from_relation (rq_options rq)) [] = Inr (meta, rel)"
  shows "\<exists>meta' rel2 ix2. buildable env t meta' rows ix2 \<and> ix_memory ix2 = ix_memory ix \<and> ix_chain ix2 = rel2 \<and>
      index_rows t ix2 = Map.empty \<and> meta_storage_type meta' = Inr t \<and> int (unat (m_num_dimensions meta')) = rq_typmod rq \<and>
      (t = SbqCompression \<longrightarrow> (\<exists>q. rfold add_sample (train_samples meta' (map row_vector sampled))
            (start_training (unat (m_num_dimensions_to_index meta')) (sbq_quantizer_new (unat (m_bq_num_bits_per_dimension meta')))) = Inr q \<and>
            means_load header_le (env_means env) meta' rel2 = Inr (finish_training q))) \<and>
      ambuild env rq run_workers sampled rows ix = do_heap_scan env rows meta' 
        (parallel_workers False (t = SbqCompression) (rq_forced_workers rq) (rq_heap_tuples rq) (rq_min_vectors rq) (rq_parallel_workers rq)) ix2"
proof -
  obtain K where rq: "request_ok env rq t" and mc: "means_codec_ok (env_means env)" and al: "alloc_ok (env_alloc env)"
    and ord: "\<And>v. mset (env_order env v) = mset v" and K: "sizes_ok env rq K" and few: "length sampled < 2 ^ 64"
    and dim: "\<forall>hr \<in> set (sampled @ rows). row_of_dimension (rq_typmod rq) hr" and fresh: "fresh_index (length rows) ix"
    using ok by (auto simp: creatable_def)
  have laws: "meta_codec_laws (env_codec env)" using rq by (simp add: request_ok_def)
  have chain: "ix_chain ix = []" using fresh by (simp add: fresh_index_def)
  let ?opt = "options_from_relation (rq_options rq)"
  note gm = get_meta_page_facts [OF rq K]
  have K29: "K < 2 ^ 29" using K by (simp add: sizes_ok_def)
  note new = gm(2) [OF run]
  note n = new [unfolded just_created_def]
  have fit: "row_fits meta hr" if "hr \<in> set (sampled @ rows)" for hr
    unfolding row_fits_def datum_fits_def
  proof (intro allI impI)
    fix d assume "row_vector hr = Some d"
    moreover have "row_of_dimension (rq_typmod rq) hr" using dim that by blast
    moreover have "nat (rq_typmod rq) = unat (m_num_dimensions meta)" using n by (metis nat_int)
    ultimately show "varlena_ok d \<and> sint (vd_dim d) = int (unat (m_num_dimensions meta)) \<and> vd_reserved d = 0 \<and>
        vd_size d = 8 + 4 * unat (m_num_dimensions meta)" using n by (simp add: row_of_dimension_def)
  qed
  then have sfit: "\<forall>hr \<in> set sampled. row_fits meta hr" by simp
  obtain meta' rel1 rel2 where r:
    "maybe_train_quantizer header_le pg_page_8k (env_means env) (env_alloc env) (map row_vector sampled) meta rel (ix_memory ix) =
       Inr (meta', rel1, ix_memory ix)"
    "meta_store (env_codec env) header_le pg_page_8k meta' rel1 False = Inr rel2" "meta_fetch (env_codec env) header_le rel2 = Inr meta'"
    "rel_inv rel2" "length rel2 \<le> 3 * K + 30" "\<exists>p. meta' = set_quantizer_metadata_pointer p meta"
    "means_load header_le (env_means env) meta' rel2 \<noteq> Inl OutOfFuel"
    "t = SbqCompression \<longrightarrow> (\<exists>q. rfold add_sample (train_samples meta (map row_vector sampled))
       (start_training (unat (m_num_dimensions_to_index meta)) (sbq_quantizer_new (unat (m_bq_num_bits_per_dimension meta)))) = Inr q \<and>
       means_load header_le (env_means env) meta' rel2 = Inr (finish_training q))"
    using train_and_store [OF new K laws mc al few sfit, of "ix_memory ix"] by blast
  obtain p where p: "meta' = meta\<lparr>m_quantizer_metadata := p\<rparr>" using r(6) by (auto simp: set_quantizer_metadata_pointer_def)
  let ?ix = "ix\<lparr>ix_chain := rel2, ix_memory := ix_memory ix\<rparr>"
  have "length (ser_meta (env_codec env) (with_entry meta' ip None)) \<le> K" for ip
    using K n by (simp add: sizes_ok_def p set_start_nodes_def merge_start_nodes_def start_nodes_new_def)
  then have "\<forall>ip. length rel2 + length (ser_meta (env_codec env) (with_entry meta' ip None)) + 21 < 2 ^ 32 - 1"
    using r(5) K29 by (fastforce intro: le_less_trans [OF add_mono [OF add_mono [OF r(5)] order_refl]])
  then have ready: "meta_ready (env_codec env) rel2 meta' None"
    using laws r(3, 4) n by (simp add: meta_ready_def p meta_valid_def start_ok_def entry_points_ok_def)
  then have cur: "meta_current (env_codec env) rel2 meta'" using r(3) by (simp add: meta_current_def)
  have build: "buildable env t meta' rows ?ix"
    unfolding buildable_def
  proof (intro conjI)
    show "\<forall>hr \<in> set rows. row_fits meta' hr" using fit by (auto simp: row_fits_def p datum_fits_def)
    show "nodes_world t meta' ?ix" "alone t ?ix" "node_blocks t ?ix + length rows + 1 < 2 ^ 32 - 1"
      by (rule fresh_nodes(1-3) [OF fresh])+
  qed (use al ord cur n r(7) in \<open>simp_all add: p dims_ok_def meta_distance_type_def meta_storage_type_def entry_points_ok_def\<close>)
  have same: "train_samples meta' v = train_samples meta v" for v
    by (simp add: p train_samples_def prepared_def meta_distance_type_def)
  have t: "meta_storage_type meta' = Inr t" and lab: "\<not> m_has_labels meta'"
    and d: "int (unat (m_num_dimensions meta')) = rq_typmod rq" using n by (simp_all add: p meta_storage_type_def)
  have "ambuild env rq run_workers sampled rows ix = do_heap_scan env rows meta'
      (parallel_workers False (t = SbqCompression) (rq_forced_workers rq) (rq_heap_tuples rq) (rq_min_vectors rq) (rq_parallel_workers rq)) ?ix"
    using serial by (auto simp: ambuild_def Let_def chain run r(1, 2) t lab serial_build_def)
  moreover have "ix_memory ?ix = ix_memory ix" "ix_chain ?ix = rel2" by simp_all
  moreover have "index_rows t ?ix = Map.empty" by (rule fresh_nodes(4) [OF fresh])
  moreover have "t = SbqCompression \<longrightarrow> (\<exists>q. rfold add_sample (train_samples meta' (map row_vector sampled))
          (start_training (unat (m_num_dimensions_to_index meta')) (sbq_quantizer_new (unat (m_bq_num_bits_per_dimension meta')))) = Inr q \<and>
          means_load header_le (env_means env) meta' rel2 = Inr (finish_training q))"
    using r(8) unfolding same by (simp add: p)
  ultimately show ?thesis using build t d by blast
qed

lemma ambuild_facts:
  assumes ok: "creatable env rq t sampled rows ix" and serial: "serial_build rq t"
  shows "ambuild env rq run_workers sampled rows ix \<noteq> Inl OutOfFuel"
    and "ambuild env rq run_workers sampled rows ix = Inr (n, ix') \<Longrightarrow>
      n = length (rows_with_vector rows) \<and> ix_memory ix' = ix_memory ix \<and>
      (\<exists>meta so rel rs ptrs. meta_storage_type meta = Inr t \<and> int (unat (m_num_dimensions meta)) = rq_typmod rq \<and>
         meta_fetch (env_codec env) header_le (ix_chain ix') = Inr (with_start meta so) \<and>
         entry_points_ok (with_start meta so) \<and> nodes_world t meta ix' \<and>
         (t = SbqCompression \<longrightarrow> (\<exists>q. rfold add_sample (train_samples meta (map row_vector sampled))
            (start_training (unat (m_num_dimensions_to_index meta)) (sbq_quantizer_new (unat (m_bq_num_bits_per_dimension meta)))) = Inr q \<and>
            means_load header_le (env_means env) meta rel = Inr (finish_training q))) \<and>
         expected_rows env t meta rel rows rs \<and> distinct ptrs \<and> length ptrs = length rs \<and> index_rows t ix' = map_of (zip ptrs rs))"
proof -
  have chain: "ix_chain ix = []" using ok by (auto simp: creatable_def fresh_index_def)
  obtain K where "request_ok env rq t" "sizes_ok env rq K" using ok by (auto simp: creatable_def)
  note gm = get_meta_page_facts [OF this]
  let ?opt = "options_from_relation (rq_options rq)"
  note main = ambuild_ready [OF ok serial]
  have split: "ambuild env rq run_workers sampled rows ix = Inl e" if "get_meta_page env rq ?opt [] = Inl e" for e
    using that by (simp add: ambuild_def Let_def chain)
  show "ambuild env rq run_workers sampled rows ix \<noteq> Inl OutOfFuel"
  proof (cases "get_meta_page env rq ?opt []")
    case (Inl e)
    then show ?thesis using split [OF Inl] gm(1) by auto
  next
    case (Inr x)
    obtain meta rel where x: "x = (meta, rel)" by (cases x)
    obtain meta' ix2 workers where b: "buildable env t meta' rows ix2"
      and eq: "ambuild env rq run_workers sampled rows ix = do_heap_scan env rows meta' workers ix2"
      using main [OF Inr [unfolded x]] by blast
    show ?thesis unfolding eq by (rule do_heap_scan_facts(1) [OF b])
  qed
  assume run: "ambuild env rq run_workers sampled rows ix = Inr (n, ix')"
  then obtain meta rel where "get_meta_page env rq ?opt [] = Inr (meta, rel)"
    using split by (cases "get_meta_page env rq ?opt []") auto
  from main [OF this] obtain meta' rel2 ix2 where b: "buildable env t meta' rows ix2" "ix_memory ix2 = ix_memory ix" "ix_chain ix2 = rel2"
    "index_rows t ix2 = Map.empty" "meta_storage_type meta' = Inr t" "int (unat (m_num_dimensions meta')) = rq_typmod rq"
    "t = SbqCompression \<longrightarrow> (\<exists>q. rfold add_sample (train_samples meta' (map row_vector sampled))
            (start_training (unat (m_num_dimensions_to_index meta')) (sbq_quantizer_new (unat (m_bq_num_bits_per_dimension meta')))) = Inr q \<and>
            means_load header_le (env_means env) meta' rel2 = Inr (finish_training q))"
    "ambuild env rq run_workers sampled rows ix = do_heap_scan env rows meta'
        (parallel_workers False (t = SbqCompression) (rq_forced_workers rq) (rq_heap_tuples rq) (rq_min_vectors rq) (rq_parallel_workers rq)) ix2"
    by blast
  note f = do_heap_scan_facts(2) [OF b(1) b(8) [symmetric, unfolded run]]
  obtain so where so: "meta_fetch (env_codec env) header_le (ix_chain ix') = Inr (with_start meta' so)"
    "entry_points_ok (with_start meta' so)"
    using f by (auto simp: meta_current_def)
  obtain rs where rs: "expected_rows env t meta' rel2 rows rs" "index_rows_added t rs ix2 ix'" using f b(3) by blast
  obtain ptrs where ptrs: "distinct ptrs" "length ptrs = length rs" "index_rows t ix' = map_of (zip ptrs rs)"
    using rs(2) b(4) by (auto simp: index_rows_added_def)
  have c: "n = length (rows_with_vector rows)" "ix_memory ix' = ix_memory ix" "nodes_world t meta' ix'" using f b(2) by auto
  show "n = length (rows_with_vector rows) \<and> ix_memory ix' = ix_memory ix \<and>
      (\<exists>meta so rel rs ptrs. meta_storage_type meta = Inr t \<and> int (unat (m_num_dimensions meta)) = rq_typmod rq \<and>
         meta_fetch (env_codec env) header_le (ix_chain ix') = Inr (with_start meta so) \<and>
         entry_points_ok (with_start meta so) \<and> nodes_world t meta ix' \<and>
         (t = SbqCompression \<longrightarrow> (\<exists>q. rfold add_sample (train_samples meta (map row_vector sampled))
            (start_training (unat (m_num_dimensions_to_index meta)) (sbq_quantizer_new (unat (m_bq_num_bits_per_dimension meta)))) = Inr q \<and>
            means_load header_le (env_means env) meta rel = Inr (finish_training q))) \<and>
         expected_rows env t meta rel rows rs \<and> distinct ptrs \<and> length ptrs = length rs \<and> index_rows t ix' = map_of (zip ptrs rs))"
    using c b(5-7) so(1, 2) rs(1) ptrs by blast
qed

end
