(* ===== verification/Create_Properties.thy ===== *)
theory Create_Properties
  imports Index_Properties Index_Create
begin

text \<open>
  The property of \<open>CREATE INDEX\<close> without workers, and its run at a table of two rows, one of which has no
  vector, for an index on the plain storage with the default number of neighbours.
\<close>

section \<open>The request and its meta page\<close>

definition plain_options :: tsv_index_options where
  "plain_options = options_default\<lparr>o_storage_layout := Some ''plain''\<rparr>"

definition sample_request :: index_request where
  "sample_request =
     \<lparr>rq_version = ''0.8.0'', rq_natts = 1, rq_typmod = 1, rq_distance_proc = Some 1, rq_options = Some plain_options,
      rq_forced_workers = -1, rq_heap_tuples = 2, rq_min_vectors = 65536, rq_parallel_workers = 2, rq_launched = True\<rparr>"

definition empty_meta :: meta_page where
  "empty_meta = new_meta_page ''0.8.0'' 1 1 L2 plain_options Plain 1 50"

definition first_meta :: meta_page where
  "first_meta = empty_meta\<lparr>m_start_nodes := Some (start_nodes_new ip1)\<rparr>"

lemma empty_meta_entry: "with_entry empty_meta ip1 None = first_meta"
  by (simp add: empty_meta_def first_meta_def new_meta_page_def set_start_nodes_def merge_start_nodes_def)

lemma empty_meta_ok: "meta_valid empty_meta" "meta_valid first_meta" "dims_ok empty_meta" "meta_storage_type empty_meta = Inr Plain"
  "\<not> m_has_labels empty_meta" "m_start_nodes empty_meta = None" "meta_distance_type empty_meta = Inr L2"
  "m_num_dimensions empty_meta = 1" "m_num_dimensions_to_index empty_meta = 1" "m_num_neighbors empty_meta = 50"
  by (simp_all add: empty_meta_def first_meta_def new_meta_page_def plain_options_def options_default_def meta_valid_def dims_ok_def
      ensure_valid_dimensions_def MAX_DIMENSION_def meta_distance_type_def distance_type_from_u16_def meta_storage_type_def
      storage_type_from_u8_def is_ok_def)

lemma sample_ser_meta:
  assumes "m_extension_version_when_built m = ''0.8.0''" "\<forall>s. m_start_nodes m = Some s \<longrightarrow> labeled_nodes s = []"
  shows "length (ser_meta sample_codec m) \<le> 400000"
proof -
  have s: "set (enc_start (m_start_nodes m)) \<subseteq> {n. n < 2 ^ 64} \<and> length (enc_start (m_start_nodes m)) \<le> 2"
    using assms(2) by (cases "m_start_nodes m") (auto simp: enc_start_def intro!: unat_64 [simplified])
  have "of_char c < (2 ^ 64 :: nat)" for c by (rule less_le_trans [OF nat_of_char_less_256]) simp
  then have "\<forall>n \<in> set (meta_nats m). n < 2 ^ 64"
    using s assms(1) by (auto simp: meta_nats_def intro!: unat_64 [simplified])
  moreover have "length (meta_nats m) \<le> 21" using s assms(1) by (simp add: meta_nats_def)
  ultimately show ?thesis using enc_all_length [of "meta_nats m"] by (simp add: sample_codec_def)
qed

lemma sample_options: "options_from_relation (rq_options sample_request) = plain_options" "reloptions_ok plain_options"
  "get_storage_type plain_options = Inr Plain"
proof -
  have str: "storage_type_from_str ''plain'' = Inr Plain" by code_simp
  have f: "f64_le f64_one 0x3FF3333333333333" "f64_le 0x3FF3333333333333 0x4014000000000000" unfolding f64_one_def by code_simp+
  show "options_from_relation (rq_options sample_request) = plain_options"
    by (simp add: sample_request_def options_from_relation_def)
  show "get_storage_type plain_options = Inr Plain" by (simp add: get_storage_type_def plain_options_def str)
  show "reloptions_ok plain_options"
    by (simp add: reloptions_ok_def plain_options_def options_default_def validate_storage_layout_def str f is_ok_def
        NUM_NEIGHBORS_DEFAULT_SENTINEL_def)
qed

definition empty_index :: index_state where
  "empty_index = one_row\<lparr>ix_chain := [], ix_plain := (ix_plain one_row)\<lparr>w_rel := [NewPage]\<rparr>\<rparr>"

definition null_row :: heap_row where
  "null_row = \<lparr>row_ctid = ItemPointer 7 9, row_vector = None, row_labels = None\<rparr>"

lemma sample_creatable: "creatable sample_env sample_request Plain [null_row, row1] [null_row, row1] empty_index"
proof -
  have "request_ok sample_env sample_request Plain"
    using sample_options sample_codec.meta_codec_laws_axioms by (simp add: request_ok_def sample_env_def) (simp add: sample_request_def)
  moreover have "sizes_ok sample_env sample_request 400000"
    using sample_ser_meta sample_means_codec_length by (simp add: sizes_ok_def sample_env_def sample_request_def)
  moreover have "fresh_index (length [null_row, row1]) empty_index"
    by (simp add: fresh_index_def empty_index_def one_row_def pair_world_def)
  ultimately show ?thesis
    using sample_means_codec_ok sample_alloc_ok
    by (auto simp: creatable_def sample_env_def row_of_dimension_def null_row_def row1_def varlena_ok_def sample_request_def)
qed

section \<open>A build of the sample index\<close>

text \<open>The build cache after the first insertion.\<close>

definition one_cached :: "builder_cache \<Rightarrow> bool" where
  "one_cached b \<longleftrightarrow> entries (neighbor_map b) = [(ip1, \<lparr>e_labels = None, e_neighbors = []\<rparr>)] \<and> 0 < lru_cap (neighbor_map b)"

lemma one_cached_get:
  "one_cached b \<Longrightarrow> \<exists>b'. builder_get_neighbors_with_distances lru_list st b ip1 w = Inr ([], b', w) \<and> one_cached b'"
  by (simp add: builder_get_neighbors_with_distances_def lru_get_def lru_list_def one_cached_def Let_def)

lemma one_cached_set:
  assumes "one_cached b \<or> entries (neighbor_map b) = [] \<and> 0 < lru_cap (neighbor_map b)"
  shows "\<exists>b'. builder_set_neighbors lru_list (plain_disk s) b ip1 None [] w = Inr (b', w) \<and> one_cached b'"
  using assms by (auto simp: builder_set_neighbors_def plain_disk_def lru_push_def lru_list_def one_cached_def Let_def)

definition first_plain :: plain_storage where
  "first_plain = sample_plain\<lparr>ps_num_neighbors := 50\<rparr>"

abbreviation first_node :: plain_node where
  "first_node \<equiv> sample_plain_node 0 (ItemPointer 7 1) (replicate 50 empty_slot)"

lemma first_neighbors [simp]: "plain_iter_neighbors first_node = []"
  by (simp add: plain_iter_neighbors_def plain_num_neighbors_def slots_num_neighbors_def sample_plain_node_def empty_slot_def
      takeWhile_replicate)

definition first_rel :: "plain_node relation" where
  "first_rel = [NewPage, InitPage (tsv_opaque_new Node) [first_node]]"

definition first_query :: labeled_vector where
  "first_query = \<lparr>lv_vec = \<lparr>index_distance = Some [0], full_distance = Some [0]\<rparr>, lv_labels = None\<rparr>"

definition self_lsn :: "plain_private lsn" where
  "self_lsn = \<lparr>lsn_index_pointer = ip1, lsn_distance = \<lparr>distance = 0, dfrom = ip1, dto = ip1, tie_cell = None\<rparr>,
     lsn_private_data = \<lparr>pp_heap_pointer = ItemPointer 7 1, pp_neighbors = []\<rparr>, lsn_labels = None\<rparr>"

lemma sample_l2_zero: "ps_distance_fn first_plain [0] [0] = Inr 0"
proof -
  have "f32_sub 0 0 = 0" by code_simp
  then show ?thesis
    by (simp add: ps_distance_fn_def first_plain_def sample_plain_def get_distance_function_def distance_l2_def
      distance_l2_simd_body_def simd_body_def simd_loop.simps simd_tail_def setzero_ps_def sample_simd_def
      f32_zero_def sample_arith Let_def rassert_def sample_f32)
qed

lemma first_read: "w_rel w = first_rel \<Longrightarrow> node_read ip1 w = Inr (first_node, count record_read w)"
  by (simp add: node_read_Inr item_at_def first_rel_def get_item_unchecked_def items_of_def)

lemma first_lsn:
  assumes "one_cached b" "w_rel w = first_rel" "sdm l = Some first_query" "tie_break_item_pointer l = Some ip1"
  shows "\<exists>b'. plain_lsn first_plain lru_list l ip1 (BuilderStore b) w =
      Inr (self_lsn, BuilderStore b', count record_full_distance_comparison (count record_read w)) \<and> one_cached b'"
proof -
  obtain b' where b: "builder_get_neighbors_with_distances lru_list (plain_disk first_plain) b ip1
      (count record_full_distance_comparison (count record_read w)) = Inr ([], b', count record_full_distance_comparison (count record_read w))"
    "one_cached b'" using one_cached_get [OF assms(1)] by blast
  have f: "\<not> f32_is_nan 0" "f32_le f32_zero 0" by code_simp+
  show ?thesis
    using assms(3, 4) b
    by (simp add: plain_lsn_def first_read [OF assms(2)] Let_def plain_calculate_distance_def plain_private_new_def
      create_distance_with_tie_break_def first_query_def to_index_slice_def self_lsn_def dwt_new_def f
      builder_get_neighbors_def sample_plain_node_def sample_l2_zero rassert_def)
qed

lemma first_search:
  assumes "one_cached b" "w_rel u = first_rel" "w_others u = []"
  shows "\<exists>b' w. greedy_search_for_build (plain_storage_ops first_plain) lru_list \<lparr>g_store = BuilderStore b, g_meta = first_meta\<rparr> ip1
      first_query True u = Inr ([nwd_of_lsn self_lsn], \<lparr>g_store = BuilderStore b', g_meta = first_meta\<rparr>, w) \<and>
      one_cached b' \<and> w_rel w = first_rel \<and> w_others w = []"
proof -
  let ?S = "plain_storage_ops first_plain"
  let ?st = "\<lambda>cs vs. \<lparr>candidates = cs, visited = vs, inserted = {ip1}, sdm = Some first_query, tie_break_item_pointer = Some ip1\<rparr>"
  have meta: "m_start_nodes first_meta = Some (start_nodes_new ip1)" by (simp add: first_meta_def)
  obtain b' where b': "plain_lsn first_plain lru_list (?st [] []) ip1 (BuilderStore b) (count record_call u) =
      Inr (self_lsn, BuilderStore b', count record_full_distance_comparison (count record_read (count record_call u)))" "one_cached b'"
    using first_lsn [OF assms(1), of "count record_call u" "?st [] []"] assms(2) by auto
  have new: "\<exists>w. lsr_new ?S lru_list [ip1] first_query (Some ip1) (BuilderStore b) u =
     Inr (?st [self_lsn] [], BuilderStore b', w) \<and> w_rel w = first_rel \<and> w_others w = []"
    using b'(1) assms(2, 3)
    by (simp add: lsr_new_def plain_storage_ops_def plain_create_lsn_for_start_node_def prepare_insert_def lsr_empty_def insert_neighbor_def)
  have loop: "greedy_search_loop ?S lru_list n True (?st [self_lsn] []) (Some []) (BuilderStore b') w =
      Some (Inr (?st [] [self_lsn], Some [nwd_of_lsn self_lsn], BuilderStore b', count record_visit w))" for n w
    by (subst greedy_search_loop.simps, simp add: visit_closest_def Let_def partition_point_def insert_at_def
        record_visited_def get_lsn_by_idx_def visited_insert_def plain_storage_ops_def plain_visit_lsn_def self_lsn_def nwd_of_lsn_def,
        subst greedy_search_loop.simps, simp add: visit_closest_def bh_peek_def)
  show ?thesis
    using new b'(2) by (auto simp: greedy_search_for_build_def meta get_for_node_def start_nodes_new_def plain_storage_ops_def [of first_plain]
        greedy_search_iterate_def returned_def loop [unfolded plain_storage_ops_def])
qed

text \<open>The first node finds itself and has no neighbours.\<close>

lemma first_insert:
  assumes "one_cached b" "w_rel u = first_rel" "w_others u = []"
  shows "\<exists>b' w. insert_internal (plain_storage_ops first_plain) lru_list id \<lparr>g_store = BuilderStore b, g_meta = first_meta\<rparr> ip1
      first_query True u = Inr (False, \<lparr>g_store = BuilderStore b', g_meta = first_meta\<rparr>, w) \<and>
      one_cached b' \<and> w_rel w = first_rel \<and> w_others w = []"
proof -
  obtain b1 w where s: "greedy_search_for_build (plain_storage_ops first_plain) lru_list \<lparr>g_store = BuilderStore b, g_meta = first_meta\<rparr> ip1
      first_query True u = Inr ([nwd_of_lsn self_lsn], \<lparr>g_store = BuilderStore b1, g_meta = first_meta\<rparr>, w)"
    and b1: "one_cached b1" and w: "w_rel w = first_rel" "w_others w = []" using first_search [OF assms] by blast
  obtain b2 where g: "builder_get_neighbors_with_distances lru_list (plain_disk first_plain) b1 ip1 w = Inr ([], b2, w)" "one_cached b2"
    using one_cached_get [OF b1] by blast
  obtain b3 where p: "builder_set_neighbors lru_list (plain_disk first_plain) b2 ip1 None [] w = Inr (b3, w)" "one_cached b3"
    using one_cached_set [OF disjI1 [OF g(2)]] by blast
  have d: "s_disk (plain_storage_ops first_plain) = plain_disk first_plain" "st_get_labels (plain_disk first_plain) ip1 w = Inr (None, w)"
    "lv_labels first_query = None" "lsn_index_pointer self_lsn = ip1"
    by (simp_all add: plain_storage_ops_def plain_disk_def first_query_def nwd_of_lsn_def self_lsn_def)
  show ?thesis
    using p(2) w by (simp add: insert_internal_def s add_neighbors_def d g(1) p(1) Let_def)
qed

lemma row1_vec:
  "\<exists>v bs. lv_from_datums sample_alloc [row_vector row1] [row_vector row1 = None] (row_labels row1) empty_meta [] = Inr (Some (v, None), bs) \<and>
     pgv_drop v bs = Inr [] \<and> \<lparr>lv_vec = pgv_view v bs, lv_labels = None\<rparr> = first_query"
proof -
  obtain d where d: "row_vector row1 = Some d" "vd_x d = [0]" by (simp add: row1_def)
  have fit: "varlena_ok d" "datum_fits empty_meta d"
    using d(1) by (auto simp: row1_def varlena_ok_def datum_fits_def empty_meta_ok)
  have p: "prepared empty_meta x = x" for x by (simp add: prepared_def empty_meta_ok)
  have dims: "m_num_dimensions empty_meta = m_num_dimensions_to_index empty_meta" "m_num_dimensions_to_index empty_meta = 1"
    by (simp_all add: empty_meta_ok)
  obtain v bs where v: "from_datum sample_alloc (Some d) empty_meta True False [] = Inr (v, bs)" "pgv_owns v bs []"
    "pgv_view v bs = \<lparr>index_distance = Some [0], full_distance = Some [0]\<rparr>"
    using from_datum_fits [OF empty_meta_ok(3) sample_alloc_ok fit, of True False "[]"] by (auto simp: p d(2) dims)
  have "labels_from_datum (m_has_labels empty_meta) (row_labels row1) = None"
    by (simp add: empty_meta_ok labels_from_datum_def)
  then show ?thesis
    using v pgv_owns_drop [OF v(2)]
    by (intro exI [of _ v] exI [of _ bs]) (simp add: d(1) lv_from_datums_def from_pg_parts_def first_query_def)
qed

text \<open>The node of the first row is written, published as the entry point and inserted.\<close>

lemma first_tape:
  "tape_new [NewPage] Node = Inr (\<lparr>t_page_type = Node, t_current = 1\<rparr>, [NewPage, InitPage (tsv_opaque_new Node) []])"
  by (simp add: tape_new_def writable_new_def reinit_def blocks_left_def rassert_def is_chained_def Let_def commit_def)

lemma first_written:
  assumes "w_rel u = [NewPage, InitPage (tsv_opaque_new Node) []]" "w_others u = []"
  shows "\<exists>w. s_create_node (plain_storage_ops first_plain) pg_page_8k [0] None (ItemPointer 7 1) \<lparr>t_page_type = Node, t_current = 1\<rparr> u =
      Inr (ip1, \<lparr>t_page_type = Node, t_current = 1\<rparr>, w) \<and> w_rel w = first_rel \<and> w_others w = []"
  by (simp add: assms rassert_def plain_storage_ops_def plain_create_node_def node_write_def
      tape_write_def writable_modify_def read_buffer_def is_chained_def Let_def get_aligned_free_space_def get_free_space_def
      add_item_unchecked_def push_item_def commit_def pg_page_8k_def first_plain_def sample_plain_def BLCKSZ_def maxalign_def items_of_def
      first_rel_def plain_node_new_for_full_vector_def sample_plain_node_def empty_slot_def)

lemma first_graph:
  assumes "entries (neighbor_map b) = [] \<and> 0 < lru_cap (neighbor_map b)" "w_rel u = first_rel" "w_others u = []"
    and fetch: "meta_fetch sample_codec header_le rel0 = Inr empty_meta"
    and st: "meta_store sample_codec header_le pg_page_8k first_meta rel0 False = Inr rel3"
  shows "\<exists>b' w. graph_insert sample_codec header_le pg_page_8k (plain_storage_ops first_plain) lru_list id
      \<lparr>g_store = BuilderStore b, g_meta = empty_meta\<rparr> ip1 first_query u rel0 =
      Inr (\<lparr>g_store = BuilderStore b', g_meta = first_meta\<rparr>, w, rel3) \<and> one_cached b' \<and> w_rel w = first_rel \<and> w_others w = []"
proof -
  let ?S = "plain_storage_ops first_plain"
  have d: "s_disk ?S = plain_disk first_plain" "lv_labels first_query = None" by (simp_all add: plain_storage_ops_def first_query_def)
  obtain b1 where b1: "builder_set_neighbors lru_list (plain_disk first_plain) b ip1 None [] u = Inr (b1, u)" "one_cached b1"
    using one_cached_set [OF disjI2 [OF assms(1)]] by blast
  obtain b2 w where ii: "insert_internal ?S lru_list id \<lparr>g_store = BuilderStore b1, g_meta = first_meta\<rparr> ip1 first_query True u =
      Inr (False, \<lparr>g_store = BuilderStore b2, g_meta = first_meta\<rparr>, w)" and w: "one_cached b2 \<and> w_rel w = first_rel \<and> w_others w = []"
    using first_insert [OF b1(2) assms(2, 3)] by blast
  have "update_start_nodes sample_codec header_le pg_page_8k ?S lru_list \<lparr>g_store = BuilderStore b, g_meta = empty_meta\<rparr> ip1 None u
      rel0 = Inr (\<lparr>g_store = BuilderStore b1, g_meta = first_meta\<rparr>, u, rel3)"
    using empty_meta_entry
    by (simp add: update_start_nodes_def empty_meta_ok fetch gns_initialize_neighbors_def d(1) b1(1) st Let_def)
  then show ?thesis using w by (simp add: graph_insert_def d(2) ii)
qed

lemma first_finalize:
  assumes "one_cached b" "w_rel u = first_rel" "w_others u = []"
  shows "\<exists>w. finalize_index_build (plain_storage_ops first_plain)
      \<lparr>bs_ntuples = n, bs_tape = t, bs_graph = \<lparr>g_store = BuilderStore b, g_meta = first_meta\<rparr>\<rparr> u = Inr (n, w) \<and> w_rel w = first_rel"
proof -
  have m: "node_modify ip1 v = Inr (\<lparr>wp_block = 1, wp_page = first_rel ! 1\<rparr>, first_node, count record_modify v)"
    if "w_rel v = first_rel" "w_others v = []" for v
    using that by (simp add: node_modify_Inr interfere_none item_at_def first_rel_def get_item_unchecked_def items_of_def is_ok_def)
  have d: "s_disk (plain_storage_ops first_plain) = plain_disk first_plain" by (simp add: plain_storage_ops_def)
  show ?thesis
    using assms(2, 3)
    by (simp add: finalize_index_build_def Let_def gns_into_sorted_def builder_into_sorted_def assms(1) [unfolded one_cached_def] d
      merge_neighbors_on_disk_def plain_disk_def plain_neighbors_from_disk_def first_read merge_candidates_def
      try_set_neighbors_with_def m)
qed

text \<open>The scan of the table, at an index whose relation holds the meta page only.\<close>

lemma first_build:
  assumes fetch: "meta_fetch sample_codec header_le rel0 = Inr empty_meta"
    and store: "meta_store sample_codec header_le pg_page_8k first_meta rel0 False = Inr rel3"
    and ix: "ix_plain ix = pair_world\<lparr>w_rel := [NewPage]\<rparr>" "ix_chain ix = rel0" "ix_memory ix = []"
  shows "\<exists>ix'. do_heap_scan sample_env [null_row, row1] empty_meta 0 ix = Inr (1, ix') \<and> ix_chain ix' = rel3 \<and>
    w_rel (ix_plain ix') = first_rel \<and> ix_memory ix' = []"
proof -
  let ?S = "plain_storage_ops first_plain"
  let ?u = "pair_world\<lparr>w_rel := [NewPage, InitPage (tsv_opaque_new Node) []]\<rparr>"
  obtain b where gr: "build_graph sample_env empty_meta 0 = \<lparr>g_store = BuilderStore b, g_meta = empty_meta\<rparr>"
    and b: "entries (neighbor_map b) = [] \<and> 0 < lru_cap (neighbor_map b)"
    by (simp add: build_graph_def builder_cache_new_def Let_def lru_new_def)
  obtain w1 where w1: "s_create_node ?S pg_page_8k [0] None (ItemPointer 7 1) \<lparr>t_page_type = Node, t_current = 1\<rparr> ?u =
      Inr (ip1, \<lparr>t_page_type = Node, t_current = 1\<rparr>, w1)" "w_rel w1 = first_rel" "w_others w1 = []"
    using first_written [of ?u] by (auto simp: pair_world_def)
  obtain b2 w2 where g: "graph_insert sample_codec header_le pg_page_8k ?S lru_list id
      \<lparr>g_store = BuilderStore b, g_meta = empty_meta\<rparr> ip1 first_query w1 rel0 =
      Inr (\<lparr>g_store = BuilderStore b2, g_meta = first_meta\<rparr>, w2, rel3)" "one_cached b2" "w_rel w2 = first_rel" "w_others w2 = []"
    using first_graph [OF b w1(2, 3) fetch store] by blast
  obtain w3 where f: "finalize_index_build ?S \<lparr>bs_ntuples = 1, bs_tape = \<lparr>t_page_type = Node, t_current = 1\<rparr>,
      bs_graph = \<lparr>g_store = BuilderStore b2, g_meta = first_meta\<rparr>\<rparr> w2 = Inr (1, w3)" "w_rel w3 = first_rel"
    using first_finalize [OF g(2-4)] by blast
  obtain v bs where v: "lv_from_datums sample_alloc [row_vector row1] [row_vector row1 = None] (row_labels row1) empty_meta [] =
      Inr (Some (v, None), bs)" "pgv_drop v bs = Inr []" "\<lparr>lv_vec = pgv_view v bs, lv_labels = None\<rparr> = first_query"
    using row1_vec by blast
  have q: "to_index_slice (lv_vec first_query) = Inr [0]" "lv_labels first_query = None" "row_ctid row1 = ItemPointer 7 1"
    by (simp_all add: first_query_def to_index_slice_def row1_def)
  have slice: "to_index_slice (pgv_view v bs) = Inr [0]" using q(1) arg_cong [OF v(3), of lv_vec] by simp
  let ?bs = "\<lparr>bs_ntuples = 0, bs_tape = \<lparr>t_page_type = Node, t_current = 1\<rparr>, bs_graph = \<lparr>g_store = BuilderStore b, g_meta = empty_meta\<rparr>\<rparr>"
  have null: "build_callback sample_env ?S null_row (?bs, ?u, rel0, []) = Inr (?bs, ?u, rel0, [])"
    by (simp add: build_callback_def null_row_def lv_from_datums_def from_pg_parts_def)
  have env: "env_codec sample_env = sample_codec" "env_alloc sample_env = sample_alloc" "env_order sample_env = id" by (simp_all add: sample_env_def)
  have one: "build_callback sample_env ?S row1 (?bs, ?u, rel0, []) =
      Inr (?bs\<lparr>bs_ntuples := 1, bs_graph := \<lparr>g_store = BuilderStore b2, g_meta = first_meta\<rparr>\<rparr>, w2, rel3, [])"
    by (simp add: build_callback_def build_callback_internal_def Let_def env v q slice w1(1) g(1))
  have start: "build_state_new (pair_world\<lparr>w_rel := [NewPage]\<rparr>) \<lparr>g_store = BuilderStore b, g_meta = empty_meta\<rparr> Node = Inr (?bs, ?u)"
    by (simp add: build_state_new_def first_tape)
  have st: "plain_storage_new sample_env empty_meta = Inr first_plain"
    by (simp add: plain_storage_new_def empty_meta_ok sample_env_def first_plain_def sample_plain_def)
  show ?thesis
    by (simp add: do_heap_scan_def Let_def empty_meta_ok gr st scan_rows_def ix start null one f(1) [simplified] f(2))
qed

section \<open>The sample index is created\<close>

lemma first_create:
  "\<exists>rel rel2 rel3. get_meta_page sample_env sample_request plain_options [] = Inr (empty_meta, rel) \<and>
     meta_store sample_codec header_le pg_page_8k empty_meta rel False = Inr rel2 \<and>
     meta_fetch sample_codec header_le rel2 = Inr empty_meta \<and>
     meta_store sample_codec header_le pg_page_8k first_meta rel2 False = Inr rel3 \<and>
     meta_fetch sample_codec header_le rel3 = Inr first_meta"
proof -
  have len: "length (ser_meta sample_codec empty_meta) \<le> 400000" "length (ser_meta sample_codec first_meta) \<le> 400000"
    by (rule sample_ser_meta; simp add: empty_meta_def first_meta_def new_meta_page_def start_nodes_new_def)+
  have room: "length r \<le> 2000000 \<Longrightarrow> length r + length (ser_meta sample_codec empty_meta) + 21 < 2 ^ 32 - 1"
    "length r \<le> 2000000 \<Longrightarrow> length r + length (ser_meta sample_codec first_meta) + 21 < 2 ^ 32 - 1" for r :: chain_rel
    using len by simp_all
  have inv: "rel_inv ([] :: chain_rel)" by (simp add: rel_inv_def)
  have v: "m_magic_number m = TSV_MAGIC_NUMBER" "m_version m = TSV_VERSION" if "meta_valid m" for m
    using that by (simp_all add: meta_valid_def)
  obtain rel xs where r1: "meta_store sample_codec header_le pg_page_8k empty_meta [] True = Inr rel" "rel_inv rel" "rel \<noteq> []"
    "rel ! 0 = InitPage (tsv_opaque_new Meta) xs"
    using sample_codec.meta_store_facts [OF v [OF empty_meta_ok(1)] inv room(1), of True] by auto
  have l1: "length rel \<le> 500000"
    using sample_codec.meta_store_length [OF r1(1) inv room(1)] len by simp
  obtain rel2 xs2 where r2: "meta_store sample_codec header_le pg_page_8k empty_meta rel False = Inr rel2" "rel_inv rel2" "rel2 \<noteq> []"
    "rel2 ! 0 = InitPage (tsv_opaque_new Meta) xs2"
    using sample_codec.meta_store_facts [OF v [OF empty_meta_ok(1)] r1(2) room(1), of False] r1(3, 4) l1 by (auto simp: read_from_page_def)
  have f2: "meta_fetch sample_codec header_le rel2 = Inr empty_meta"
    using sample_codec.meta_store_fetch [OF empty_meta_ok(1) r1(2) room(1), of False] r1(3, 4) l1 r2(1) by (auto simp: read_from_page_def)
  have l2: "length rel2 \<le> 1000000"
    using sample_codec.meta_store_length [OF r2(1) r1(2) room(1)] r1(3) l1 len by simp
  obtain rel3 where r3: "meta_store sample_codec header_le pg_page_8k first_meta rel2 False = Inr rel3"
    "meta_fetch sample_codec header_le rel3 = Inr first_meta"
    using sample_codec.meta_store_fetch [OF empty_meta_ok(2) r2(2) room(2), of False] r2(3, 4) l2 by (auto simp: read_from_page_def)
  have "meta_create sample_codec header_le pg_page_8k ''0.8.0'' 1 [] 1 L2 plain_options = Inr (empty_meta, rel)"
    unfolding meta_create_Inr Let_def
    using r1(1) sample_options(3)
    by (intro exI [of _ Plain] exI [of _ 1] exI [of _ 50])
      (simp add: empty_meta_def plain_options_def options_default_def ensure_valid_dimensions_def MAX_DIMENSION_def choose_num_bits_def
        check_num_bits_def calculate_num_neighbors_def get_num_neighbors_def NUM_NEIGHBORS_DEFAULT_SENTINEL_def)
  then have "get_meta_page sample_env sample_request plain_options [] = Inr (empty_meta, rel)"
    using sample_options(3)
    by (simp add: get_meta_page_def sample_request_def sample_env_def dimension_from_typmod_def MAX_DIMENSION_def
        distance_type_from_u16_def empty_meta_ok MAX_DIMENSION_NO_SBQ_def)
  then show ?thesis using r2(1) f2 r3 by blast
qed

lemma first_ambuild:
  "\<exists>ix'. ambuild sample_env sample_request run_workers [null_row, row1] [null_row, row1] empty_index = Inr (1, ix') \<and>
     meta_fetch sample_codec header_le (ix_chain ix') = Inr first_meta \<and> w_rel (ix_plain ix') = first_rel \<and> ix_memory ix' = []"
proof -
  obtain rel rel2 rel3 where r: "get_meta_page sample_env sample_request plain_options [] = Inr (empty_meta, rel)"
    "meta_store sample_codec header_le pg_page_8k empty_meta rel False = Inr rel2"
    "meta_fetch sample_codec header_le rel2 = Inr empty_meta"
    "meta_store sample_codec header_le pg_page_8k first_meta rel2 False = Inr rel3"
    "meta_fetch sample_codec header_le rel3 = Inr first_meta"
    using first_create by blast
  have env: "env_codec sample_env = sample_codec" by (simp add: sample_env_def)
  have ix: "ix_chain empty_index = []" "ix_memory empty_index = []"
    "ix_plain (empty_index\<lparr>ix_chain := rel2, ix_memory := []\<rparr>) = pair_world\<lparr>w_rel := [NewPage]\<rparr>"
    by (simp_all add: empty_index_def one_row_def)
  obtain ix' where b: "do_heap_scan sample_env [null_row, row1] empty_meta 0 (empty_index\<lparr>ix_chain := rel2, ix_memory := []\<rparr>) = Inr (1, ix')"
    "ix_chain ix' = rel3" "w_rel (ix_plain ix') = first_rel" "ix_memory ix' = []"
    using first_build [OF r(3, 4) ix(3)] by auto
  have "maybe_train_quantizer header_le pg_page_8k c a v empty_meta rel m = Inr (empty_meta, rel, m)" for c a v m
    by (simp add: maybe_train_quantizer_def empty_meta_ok)
  then show ?thesis
    using b r(5) by (simp add: ambuild_def Let_def sample_options(1) ix(1, 2) r env empty_meta_ok parallel_workers_def)
qed

definition no_workers :: "nat \<Rightarrow> index_state \<Rightarrow> (nat \<times> index_state) res" where
  "no_workers n ix = Inl (PgError ''No workers launched'')"

lemma sample_serial: "serial_build sample_request Plain"
  by (simp add: serial_build_def parallel_workers_def)

text \<open>
  C2. \<open>CREATE INDEX\<close> indexes its table. For a request without a label column, rows of the declared
  dimension and an empty index that nobody else uses, a build without workers never loops; if it
  succeeds it reports the number of rows that have a vector and has freed every copy of a vector. The
  index then has a meta page for the requested layout and dimensions which is, but for its entry
  points, the published one; its nodes are well formed; with the compressed layout the quantiser read
  back from disk is the one trained on the rows sampled. The index holds, for each row that has a
  vector, at a pointer of its own, the row's pointer with the part of its vector that is indexed,
  prepared for the distance and quantised, and no other row.
\<close>

theorem create_index_indexes_table:
  assumes "creatable env rq t sampled rows ix" "serial_build rq t"
  shows "ambuild env rq run_workers sampled rows ix \<noteq> Inl OutOfFuel \<and>
    (\<forall>n ix'. ambuild env rq run_workers sampled rows ix = Inr (n, ix') \<longrightarrow>
       n = length (rows_with_vector rows) \<and> ix_memory ix' = ix_memory ix \<and>
       (\<exists>meta so rel rs ptrs. meta_storage_type meta = Inr t \<and> int (unat (m_num_dimensions meta)) = rq_typmod rq \<and>
          meta_fetch (env_codec env) header_le (ix_chain ix') = Inr (meta\<lparr>m_start_nodes := so\<rparr>) \<and>
          entry_points_ok (meta\<lparr>m_start_nodes := so\<rparr>) \<and> nodes_world t meta ix' \<and>
          (t = SbqCompression \<longrightarrow> (\<exists>q. rfold add_sample (train_samples meta (map row_vector sampled))
             (start_training (unat (m_num_dimensions_to_index meta)) (sbq_quantizer_new (unat (m_bq_num_bits_per_dimension meta)))) = Inr q \<and>
             means_load header_le (env_means env) meta rel = Inr (finish_training q))) \<and>
          list_all2 (\<lambda>row r. expected_row env t meta rel row (the (row_vector row)) = Inr r) (rows_with_vector rows) rs \<and>
          distinct ptrs \<and> length ptrs = length rs \<and> index_rows t ix' = map_of (zip ptrs rs)))"
proof (intro conjI allI impI, goal_cases)
  case 1
  show ?case by (rule ambuild_facts(1) [OF assms])
next
  case (2 n ix')
  show ?case by (rule ambuild_facts(2) [OF assms 2, THEN conjunct1])
next
  case (3 n ix')
  show ?case by (rule ambuild_facts(2) [OF assms 3, THEN conjunct2, THEN conjunct1])
next
  case (4 n ix')
  show ?case by (rule ambuild_facts(2) [OF assms 4, unfolded expected_rows_def, THEN conjunct2, THEN conjunct2])
qed

theorem create_index_indexes_table_witness:
  "\<exists>ix' p. ambuild sample_env sample_request no_workers [null_row, row1] [null_row, row1] empty_index = Inr (1, ix') \<and>
     index_rows Plain ix' = [p \<mapsto> PlainRow (ItemPointer 7 1) [0]]"
proof -
  obtain ix' where run: "ambuild sample_env sample_request no_workers [null_row, row1] [null_row, row1] empty_index = Inr (1, ix')"
    and fetch: "meta_fetch sample_codec header_le (ix_chain ix') = Inr first_meta"
    using first_ambuild by blast
  note all = create_index_indexes_table [OF sample_creatable sample_serial, THEN conjunct2, rule_format, OF run]
  have rows: "rows_with_vector [null_row, row1] = [row1]" by (simp add: rows_with_vector_def null_row_def row1_def)
  have env: "env_codec sample_env = sample_codec" by (simp add: sample_env_def)
  obtain meta so rel rs ptrs where p: "meta_fetch sample_codec header_le (ix_chain ix') = Inr (meta\<lparr>m_start_nodes := so\<rparr>)"
    "list_all2 (\<lambda>row r. expected_row sample_env Plain meta rel row (the (row_vector row)) = Inr r) [row1] rs"
    "length ptrs = length rs" "index_rows Plain ix' = map_of (zip ptrs rs)"
    using all unfolding rows env by blast
  have "meta\<lparr>m_start_nodes := so\<rparr> = first_meta" using p(1) fetch by simp
  from arg_cong [OF this, of m_num_dimensions_to_index] arg_cong [OF this, of m_distance_type]
  have "m_num_dimensions_to_index meta = 1" "m_distance_type meta = m_distance_type first_meta"
    by (simp_all add: first_meta_def empty_meta_ok)
  then have "expected_row sample_env Plain meta rel row1 (the (row_vector row1)) = Inr (PlainRow (ItemPointer 7 1) [0])"
    using empty_meta_ok(7) by (simp add: expected_row_def row1_def prepared_def first_meta_def meta_distance_type_def)
  with p(2) have "rs = [PlainRow (ItemPointer 7 1) [0]]" by (auto simp: list_all2_Cons1)
  with p(3, 4) obtain q where "index_rows Plain ix' = [q \<mapsto> PlainRow (ItemPointer 7 1) [0]]" by (auto simp: length_Suc_conv)
  then show ?thesis using run by blast
qed

end
