(* ===== verification/Index_Scan.thy ===== *)
theory Index_Scan
  imports Index_Rows Scan_Storages
begin

text \<open>
  The entry points of a scan in \<open>scan.rs\<close>: \<open>ambeginscan\<close>, \<open>amrescan\<close> and \<open>amgettuple\<close> over the whole index,
  with the scan descriptor that PostgreSQL and the access method share. What a scan holds until its
  memory context is deleted (the query, earlier iterators) stays allocated. Pins are recorded by block.
\<close>

section \<open>The scan descriptor\<close>

datatype storage_state =
    SbqSpeedupState sbq_quantizer "(sbq_qdm, unit) tsv_response_iterator"
  | PlainState "(plain_qdm, plain_private) tsv_response_iterator"

record tsv_scan_state =
  sc_storage :: "storage_state option"
  sc_distance_fn :: "(f32 list \<Rightarrow> f32 list \<Rightarrow> f32 res) option"
  sc_meta_page :: meta_page
  sc_last_buffer :: "32 word option"

record index_scan_desc =
  xs_recheck :: bool
  xs_recheckorderby :: bool
  xs_heaptid :: heap_pointer
  xs_opaque :: "tsv_scan_state option"

text \<open>The settings \<open>diskann.query_search_list_size\<close> and \<open>diskann.query_rescore\<close>.\<close>

record scan_settings =
  query_search_list_size :: nat
  query_rescore :: nat

definition tsv_scan_state_new :: "meta_page \<Rightarrow> tsv_scan_state" where
  "tsv_scan_state_new meta = \<lparr>sc_storage = None, sc_distance_fn = None, sc_meta_page = meta, sc_last_buffer = None\<rparr>"

section \<open>The entry points\<close>

text \<open>The meta page is read again by the iterator.\<close>

definition scan_initialize ::
  "pg_env \<Rightarrow> scan_settings \<Rightarrow> labeled_vector \<Rightarrow> tsv_scan_state \<Rightarrow> index_state \<Rightarrow> (tsv_scan_state \<times> index_state) res" where
  "scan_initialize env gs query state ix =
     (let fetch = meta_fetch (env_codec env) header_le (ix_chain ix) in
      rbind fetch (\<lambda>meta.
      rbind (meta_storage_type meta) (\<lambda>storage.
      rbind (meta_distance_type meta) (\<lambda>t.
      rbind (case storage of
               Plain \<Rightarrow>
                 rbind (plain_storage_new env meta) (\<lambda>s.
                 rbind fetch (\<lambda>m.
                 rbind (tsv_response_iterator_new (plain_storage_ops s) lru_list m (query_rescore gs) query
                          (query_search_list_size gs) (ix_plain ix)) (\<lambda>(it, w).
                 Inr (PlainState it, ix\<lparr>ix_plain := w\<rparr>))))
             | SbqCompression \<Rightarrow>
                 rbind (means_load header_le (env_means env) meta (ix_chain ix)) (\<lambda>quantizer.
                 rbind (sbq_load_for_search env quantizer meta (ix_sbq ix)) (\<lambda>(s, w).
                 rbind fetch (\<lambda>m.
                 rbind (tsv_response_iterator_new (sbq_storage_ops s) lru_list m (query_rescore gs) query
                          (query_search_list_size gs) w) (\<lambda>(it, w).
                 Inr (SbqSpeedupState quantizer it, ix\<lparr>ix_sbq := w\<rparr>)))))) (\<lambda>(st, ix).
      Inr (state\<lparr>sc_storage := Some st, sc_distance_fn := Some (get_distance_function (env_simd env) t)\<rparr>, ix))))))"

text \<open>PostgreSQL makes the descriptor.\<close>

definition ambeginscan :: "pg_env \<Rightarrow> index_scan_desc \<Rightarrow> index_state \<Rightarrow> index_scan_desc res" where
  "ambeginscan env scan ix =
     rbind (meta_fetch (env_codec env) header_le (ix_chain ix)) (\<lambda>meta.
     Inr (scan\<lparr>xs_opaque := Some (tsv_scan_state_new meta)\<rparr>))"

definition amrescan ::
  "pg_env \<Rightarrow> scan_settings \<Rightarrow> label option list option list \<Rightarrow> vector_datum option list \<Rightarrow> index_scan_desc \<Rightarrow> index_state
     \<Rightarrow> (index_scan_desc \<times> index_state) res" where
  "amrescan env gs keys orderbys scan ix =
     rbind (rassert (length orderbys = 1) ''Expected a single order-by key'') (\<lambda>_.
     rbind (rassert (length keys = 0 \<or> length keys = 1) ''Expected 0 or 1 keys'') (\<lambda>_.
     let scan = (if length keys > 0 then scan\<lparr>xs_recheck := True\<rparr> else scan) in
     rbind (runwrap (xs_opaque scan) ''no scandesc state'') (\<lambda>state.
     rbind (lv_from_scan_key_data (env_alloc env) keys orderbys (sc_meta_page state) (ix_memory ix)) (\<lambda>((v, ls), m).
     rbind (scan_initialize env gs \<lparr>lv_vec = pgv_view v m, lv_labels = ls\<rparr> state (ix\<lparr>ix_memory := m\<rparr>)) (\<lambda>(state, ix).
     Inr (scan\<lparr>xs_opaque := Some state\<rparr>, ix))))))"

definition get_tuple ::
  "tsv_scan_state \<Rightarrow> (heap_pointer \<times> item_pointer) option \<Rightarrow> index_scan_desc \<Rightarrow> bool \<times> index_scan_desc" where
  "get_tuple state row scan =
     (let scan = scan\<lparr>xs_recheckorderby := False\<rparr> in
      case row of
        Some (heap_pointer, index_pointer) \<Rightarrow>
          (True, scan\<lparr>xs_heaptid := heap_pointer,
                      xs_opaque := Some (state\<lparr>sc_last_buffer := Some (block_number index_pointer)\<rparr>)\<rparr>)
      | None \<Rightarrow> (False, scan\<lparr>xs_opaque := Some (state\<lparr>sc_last_buffer := None\<rparr>)\<rparr>))"

definition amgettuple :: "pg_env \<Rightarrow> index_scan_desc \<Rightarrow> index_state \<Rightarrow> (bool \<times> index_scan_desc \<times> index_state) res" where
  "amgettuple env scan ix =
     rbind (runwrap (xs_opaque scan) ''no scandesc state'') (\<lambda>state.
     rbind (runwrap (sc_storage state) ''no storage in state'') (\<lambda>st.
     case st of
       SbqSpeedupState quantizer it \<Rightarrow>
         rbind (sbq_load_for_search env quantizer (sc_meta_page state) (ix_sbq ix)) (\<lambda>(s, w).
         rbind (it_next_with_resort (sbq_storage_ops s) lru_list it w) (\<lambda>(row, it, w).
         let (found, scan) = get_tuple (state\<lparr>sc_storage := Some (SbqSpeedupState quantizer it)\<rparr>) row scan
         in Inr (found, scan, ix\<lparr>ix_sbq := w\<rparr>)))
     | PlainState it \<Rightarrow>
         rbind (plain_storage_new env (sc_meta_page state)) (\<lambda>s.
         rbind (if m_num_dimensions (sc_meta_page state) = m_num_dimensions_to_index (sc_meta_page state)
                then it_next (plain_storage_ops s) lru_list it (ix_plain ix)
                else it_next_with_resort (plain_storage_ops s) lru_list it (ix_plain ix)) (\<lambda>(row, it, w).
         let (found, scan) = get_tuple (state\<lparr>sc_storage := Some (PlainState it)\<rparr>) row scan
         in Inr (found, scan, ix\<lparr>ix_plain := w\<rparr>)))))"

text \<open>The executor fetches the row that the descriptor names as long as it is told that there is one.\<close>

definition next_tid :: "pg_env \<Rightarrow> index_scan_desc \<Rightarrow> index_state \<Rightarrow> (heap_pointer option \<times> index_scan_desc \<times> index_state) res" where
  "next_tid env scan ix =
     rbind (amgettuple env scan ix) (\<lambda>(found, scan, ix). Inr (if found then Some (xs_heaptid scan) else None, scan, ix))"

section \<open>A scan over a contract\<close>

context scan_storage
begin

definition it_step where
  "it_step rescoring = (if rescoring then it_next_with_resort S lops else it_next S lops)"

text \<open>The state of a scan of which \<open>T\<close> has been returned, with or without a window.\<close>

definition serving where
  "serving rescoring rs rel q nf S0 T it w \<longleftrightarrow>
     (if rescoring \<and> 0 < rs then rescored rs rel q nf S0 T it w else stream_state rel q nf S0 T it w \<and> it_resort_size it = rs)"

definition serves where
  "serves rescoring rs rel q nf S0 hp p \<longleftrightarrow> rows_of rel q nf S0 hp p \<and> (rescoring \<and> 0 < rs \<longrightarrow> exact q hp \<noteq> Inr None)"

lemma serving_next:
  assumes st: "serving rescoring rs rel q nf S0 T it w" and run: "it_step rescoring it w = Inr (row, it', w')"
  shows "case row of None \<Rightarrow> serving rescoring rs rel q nf S0 T it' w' \<and> (\<forall>h p. serves rescoring rs rel q nf S0 h p \<longrightarrow> p \<in> T)
       | Some (h, p) \<Rightarrow> serves rescoring rs rel q nf S0 h p \<and> p \<notin> T \<and> serving rescoring rs rel q nf S0 (insert p T) it' w'"
proof (cases "rescoring \<and> 0 < rs")
  case True
  have v: "serves rescoring rs rel q nf S0 = visible rel q nf S0" using True by (auto simp: serves_def visible_def fun_eq_iff)
  have sv: "serving rescoring rs rel q nf S0 = rescored rs rel q nf S0" using True by (simp add: serving_def fun_eq_iff)
  have "it_next_with_resort S lops it w = Inr (row, it', w')" using run True by (simp add: it_step_def)
  from rescored_next [OF st [unfolded sv] this] show ?thesis unfolding v sv .
next
  case False
  have v: "serves rescoring rs rel q nf S0 = rows_of rel q nf S0" using False by (auto simp: serves_def fun_eq_iff)
  have s: "stream_state rel q nf S0 T it w" "it_resort_size it = rs" using st False by (simp_all add: serving_def)
  obtain jt where jt: "it_next S lops jt w = Inr (row, it', w')" "stream_state rel q nf S0 T jt w" "it_resort_size jt = rs"
  proof (cases rescoring)
    case True
    then have "rs = 0" using False by simp
    then have "it_next S lops (it\<lparr>it_next_calls_with_resort := it_next_calls_with_resort it + 1\<rparr>) w = Inr (row, it', w')"
      using run s(2) True by (simp add: it_step_def it_next_with_resort_def Let_def)
    from that [OF this] show ?thesis using s by simp
  next
    case nr: False
    then show ?thesis using run s by (intro that) (simp_all add: it_step_def)
  qed
  from stream_state_next [OF jt(2, 1)] it_next_size [OF jt(1)] jt(3) show ?thesis
    unfolding v serving_def using False by (auto split: option.splits)
qed

lemma serving_fuel: "serving rescoring rs rel q nf S0 T it w \<Longrightarrow> it_step rescoring it w \<noteq> Inl OutOfFuel"
proof -
  assume st: "serving rescoring rs rel q nf S0 T it w"
  show ?thesis
  proof (cases "rescoring \<and> 0 < rs")
    case True
    then show ?thesis using st rescored_fuel by (simp add: serving_def it_step_def)
  next
    case False
    then have s: "stream_state rel q nf S0 T it w" "it_resort_size it = rs" using st by (simp_all add: serving_def)
    then have "stream_state rel q nf S0 T (it\<lparr>it_next_calls_with_resort := it_next_calls_with_resort it + 1\<rparr>) w" by simp
    from stream_state_fuel [OF this] stream_state_fuel [OF s(1)] show ?thesis
      using s(2) False by (auto simp: it_step_def it_next_with_resort_def Let_def)
  qed
qed

lemma resort_state_same:
  "resort_state rel q nf S0 T it w \<Longrightarrow> same_disk w w' \<Longrightarrow> winv w' \<Longrightarrow> resort_state rel q nf S0 T it w'"
  unfolding resort_state_def using stream_state_cong [of rel q nf S0 _ it w w' it] by blast

lemma serving_same:
  assumes "serving rescoring rs rel q nf S0 T it w" "same_disk w w'" "winv w'"
  shows "serving rescoring rs rel q nf S0 T it w'"
  using assms(1) stream_state_cong [OF _ assms(2, 3) refl refl] resort_state_same [OF _ assms(2, 3)]
  unfolding serving_def rescored_def by presburger

lemma serving_winv:
  assumes "serving rescoring rs rel q nf S0 T it w"
  shows "winv w \<and> w_rel w = rel"
proof -
  obtain U where U: "stream_state rel q nf S0 U it w"
    using assms unfolding serving_def rescored_def resort_state_def by metis
  then show ?thesis using stream_state_winv [OF U] by (simp add: stream_state_def)
qed

text \<open>Before the first node is inserted there is no entry point, and nothing to return.\<close>

lemma empty_step:
  assumes "it_lsr it = lsr_empty" "it_resort_buffer it = []"
  shows "\<exists>it'. it_step rescoring it w = Inr (None, it', w)"
proof -
  have e: "\<exists>jt'. it_next S lops jt w = Inr (None, jt', w) \<and> it_resort_buffer jt' = []"
    if "it_lsr jt = lsr_empty" "it_resort_buffer jt = []" for jt
    using that by (simp add: it_next_def next_loop.simps greedy_search_iterate_def returned_def lsr_consume_def lsr_empty_def
        greedy_search_loop.simps visit_closest_def bh_peek_def)
  let ?it = "it\<lparr>it_next_calls_with_resort := it_next_calls_with_resort it + 1\<rparr>"
  obtain j1 where j1: "it_next S lops it w = Inr (None, j1, w)" using e [OF assms] by blast
  obtain j2 where j2: "it_next S lops ?it w = Inr (None, j2, w)" "it_resort_buffer j2 = []" using e [of ?it] assms by auto
  have "it_next_with_resort S lops it w = Inr (None, j2, w)"
    using j2 assms by (simp add: it_next_with_resort_def Let_def resort_fill.simps returned_def bh_pop_def)
  then show ?thesis using j1 by (cases rescoring) (simp_all add: it_step_def)
qed

lemma iterator_new_fuel: "winv w \<Longrightarrow> tsv_response_iterator_new S lops m rs query n w \<noteq> Inl OutOfFuel"
  unfolding tsv_response_iterator_new_def greedy_search_streaming_init_def Let_def
  by (intro no_fuel query_dm_fuel lsr_new_fuel) (simp_all add: gns_ok_def)

text \<open>A scan from its start; the world may be touched up between the calls.\<close>

lemma scan_pull:
  assumes new: "tsv_response_iterator_new S lops m rs query n w = Inr (it, w1)" and w: "winv w" and m: "entry_points_ok m"
    and pre: "\<And>v. winv v \<Longrightarrow> same_disk v (pre v) \<and> winv (pre v)"
  shows "pull (\<lambda>it v. it_step rescoring it (pre v)) c it w1 \<noteq> Inl OutOfFuel"
    and "pull (\<lambda>it v. it_step rescoring it (pre v)) c it w1 = Inr (rows, it', w') \<Longrightarrow>
      distinct (map snd rows) \<and> (\<forall>(h, p) \<in> set rows. \<exists>x. item_at (w_rel w) p = Some x \<and> h = node_heap x) \<and>
      w_rel w' = w_rel w"
proof -
  let ?f = "\<lambda>it v. it_step rescoring it (pre v)"
  have "pull ?f c it w1 \<noteq> Inl OutOfFuel \<and> (\<forall>rows it' w'. pull ?f c it w1 = Inr (rows, it', w') \<longrightarrow>
      distinct (map snd rows) \<and> (\<forall>(h, p) \<in> set rows. \<exists>x. item_at (w_rel w) p = Some x \<and> h = node_heap x) \<and> w_rel w' = w_rel w)"
  proof (cases "m_start_nodes m")
    case None
    then have it: "it_lsr it = lsr_empty" "it_resort_buffer it = []" "w1 = w"
      using new by (auto simp: tsv_response_iterator_new_def greedy_search_streaming_init_def Let_def)
    obtain it2 where "it_step rescoring it (pre w) = Inr (None, it2, pre w)" using empty_step [OF it(1, 2)] by blast
    then show ?thesis using pre [OF w] it(3) by (cases c) (simp_all add: same_disk_def)
  next
    case (Some s)
    obtain q nf S0 where st: "stream_state (w_rel w) q nf S0 {} it w1" and b: "it_resort_buffer it = []" "it_resort_size it = rs"
      using stream_start [OF new w Some entry_points_valid [OF m Some]] by blast
    have sv: "serving rescoring rs (w_rel w) q nf S0 {} it w1"
      using rescored_new [OF st b] st b(2) by (simp add: serving_def)
    have touch: "serving rescoring rs (w_rel w) q nf S0 T jt v \<Longrightarrow> serving rescoring rs (w_rel w) q nf S0 T jt (pre v)" for T jt v
      using serving_same pre serving_winv by blast
    let ?I = "serving rescoring rs (w_rel w) q nf S0" and ?P = "serves rescoring rs (w_rel w) q nf S0"
    have nxt: "case row of None \<Rightarrow> ?I T jt' v' \<and> (\<forall>h p. ?P h p \<longrightarrow> p \<in> T)
       | Some (h, p) \<Rightarrow> ?P h p \<and> p \<notin> T \<and> ?I (insert p T) jt' v'"
      if "?I T jt v" "?f jt v = Inr (row, jt', v')" for T jt v row jt' v'
      by (rule serving_next [OF touch [OF that(1)] that(2)])
    have fuel: "?f jt v \<noteq> Inl OutOfFuel" if "?I T jt v" for T jt v by (rule serving_fuel [OF touch [OF that]])
    have f1: "pull ?f c it w1 \<noteq> Inl OutOfFuel"
      by (rule pull_facts(1) [where f = ?f and I = ?I and P = ?P and T = "{}"]; (erule (1) nxt | erule fuel | rule sv))
    have f2: "distinct (map snd rows) \<and> (\<forall>(h, p) \<in> set rows. ?P h p) \<and> w_rel w' = w_rel w"
      if run: "pull ?f c it w1 = Inr (rows, it', w')" for rows it' w'
    proof -
      have all: "distinct (map snd rows) \<and> snd ` set rows \<inter> {} = {} \<and> (\<forall>(h, p) \<in> set rows. ?P h p) \<and> length rows \<le> c \<and>
          (length rows < c \<longrightarrow> (\<forall>h p. ?P h p \<longrightarrow> p \<in> {} \<union> snd ` set rows)) \<and> ?I ({} \<union> snd ` set rows) it' w'"
        by (rule pull_facts(2) [where f = ?f and I = ?I and P = ?P and T = "{}" and s = it and w = w1]; (erule (1) nxt | erule fuel | rule sv run))
      note rest = all [THEN conjunct2, THEN conjunct2]
      show ?thesis
        by (intro conjI all [THEN conjunct1] rest [THEN conjunct1]
            serving_winv [OF rest [THEN conjunct2, THEN conjunct2, THEN conjunct2], THEN conjunct2])
    qed
    have rows: "\<exists>x. item_at (w_rel w) p = Some x \<and> h = node_heap x" if "serves rescoring rs (w_rel w) q nf S0 h p" for h p
      using that by (auto simp: serves_def rows_of_def live_def)
    show ?thesis
    proof (intro conjI allI impI, goal_cases)
      case 1
      show ?case by (rule f1)
    next
      case (2 rows it' w')
      show ?case using f2 [OF 2] by blast
    next
      case (3 rows it' w')
      show ?case using f2 [OF 3] rows by blast
    next
      case (4 rows it' w')
      show ?case using f2 [OF 4] by blast
    qed
  qed
  then show "pull ?f c it w1 \<noteq> Inl OutOfFuel"
    and "pull ?f c it w1 = Inr (rows, it', w') \<Longrightarrow>
      distinct (map snd rows) \<and> (\<forall>(h, p) \<in> set rows. \<exists>x. item_at (w_rel w) p = Some x \<and> h = node_heap x) \<and>
      w_rel w' = w_rel w" by blast+
qed

end

section \<open>A scan of an index\<close>

text \<open>A source that is another one inside, seen without the index pointers.\<close>

lemma pull_inside:
  assumes step: "\<And>it w s v. R it w s v \<Longrightarrow>
      (case f it w of Inl e \<Rightarrow> g s v = Inl e | Inr (row, it', w') \<Rightarrow> \<exists>s' v'. g s v = Inr (map_option fst row, s', v') \<and> R it' w' s' v')"
    and start: "R it w s v"
  shows "case pull f k it w of
      Inl e \<Rightarrow> pull g k s v = Inl e
    | Inr (rows, it', w') \<Rightarrow> \<exists>s' v'. pull g k s v = Inr (map fst rows, s', v') \<and> R it' w' s' v'"
  using start
proof (induction k arbitrary: it w s v)
  case (Suc k)
  note st = step [OF Suc.prems]
  show ?case
  proof (cases "f it w")
    case (Inl e)
    then show ?thesis using st by simp
  next
    case (Inr x)
    obtain row it1 w1 where x: "x = (row, it1, w1)" by (cases x)
    obtain s1 v1 where g: "g s v = Inr (map_option fst row, s1, v1)" "R it1 w1 s1 v1" using st Inr x by auto
    show ?thesis
    proof (cases row)
      case None
      then show ?thesis using Inr x g by auto
    next
      case (Some r)
      show ?thesis using Suc.IH [OF g(2)] Inr x g(1) Some by (cases "pull f k it1 w1") auto
    qed
  qed
qed simp

primrec row_tid :: "index_row \<Rightarrow> heap_pointer" where
  "row_tid (PlainRow hp x) = hp"
| "row_tid (SbqRow hp x ls) = hp"

text \<open>The tuple identifiers are those of rows of the index, each row once.\<close>

definition tids_of_rows :: "(item_pointer \<Rightarrow> index_row option) \<Rightarrow> heap_pointer list \<Rightarrow> bool" where
  "tids_of_rows rows tids \<longleftrightarrow>
     (\<exists>ps. distinct ps \<and> list_all2 (\<lambda>p tid. map_option row_tid (rows p) = Some tid) ps tids)"

lemma tids_of_pulled:
  assumes "distinct (map snd rs)" "\<forall>(h, p) \<in> set rs. map_option row_tid (rows p) = Some h"
  shows "tids_of_rows rows (map fst rs)"
  unfolding tids_of_rows_def
  using assms by (intro exI [of _ "map snd rs"]) (simp add: list_all2_map1 list_all2_map2 list_all2_same case_prod_beta)

definition scannable :: "pg_env \<Rightarrow> storage_type \<Rightarrow> meta_page \<Rightarrow> index_state \<Rightarrow> bool" where
  "scannable env t meta ix \<longleftrightarrow>
     meta_fetch (env_codec env) header_le (ix_chain ix) = Inr meta \<and> meta_storage_type meta = Inr t \<and> entry_points_ok meta \<and>
     nodes_world t meta ix"

lemma sbq_load_search:
  assumes "sbq_load_for_search env q meta w = Inr (s, w')"
  shows "sbq_model s = s \<and> sq_num_neighbors s = unat (m_num_neighbors meta) \<and> w' = w\<lparr>w_cache := None\<rparr>"
  using assms by (auto simp: sbq_load_for_search_def sbq_model_def)

lemma sbq_world_search: "node_world sbq_slots (sq_num_neighbors s) sbq_core w \<Longrightarrow> sbq_world s (w\<lparr>w_cache := None\<rparr>)"
  by (simp add: sbq_world_def node_world_def others_ok_def qv_coherent_def)

lemma scan_initialize_Inr:
  assumes "scannable env t meta ix" "scan_initialize env gs query state ix = Inr (state', ix')"
  shows "sc_meta_page state' = sc_meta_page state \<and>
    (case t of
       Plain \<Rightarrow> \<exists>s it w. plain_storage_new env meta = Inr s \<and> sc_storage state' = Some (PlainState it) \<and> ix' = ix\<lparr>ix_plain := w\<rparr> \<and>
         tsv_response_iterator_new (plain_storage_ops s) lru_list meta (query_rescore gs) query (query_search_list_size gs) (ix_plain ix) =
           Inr (it, w)
     | SbqCompression \<Rightarrow> \<exists>q s it w. means_load header_le (env_means env) meta (ix_chain ix) = Inr q \<and>
         sbq_load_for_search env q meta (ix_sbq ix) = Inr (s, (ix_sbq ix)\<lparr>w_cache := None\<rparr>) \<and>
         sc_storage state' = Some (SbqSpeedupState q it) \<and> ix' = ix\<lparr>ix_sbq := w\<rparr> \<and>
         tsv_response_iterator_new (sbq_storage_ops s) lru_list meta (query_rescore gs) query (query_search_list_size gs)
           ((ix_sbq ix)\<lparr>w_cache := None\<rparr>) = Inr (it, w))"
proof -
  have m: "meta_fetch (env_codec env) header_le (ix_chain ix) = Inr meta" "meta_storage_type meta = Inr t"
    using assms(1) by (simp_all add: scannable_def)
  show ?thesis
    using assms(2) m sbq_load_search by (cases t) (auto simp: scan_initialize_def Let_def)
qed

lemma amrescan_Inr:
  assumes ok: "scannable env t meta ix" and runs: "ambeginscan env scan ix = Inr scan0" "amrescan env gs keys orderbys scan0 ix = Inr (scan1, ix1)"
  obtains query m state where "scan_initialize env gs query (tsv_scan_state_new meta) (ix\<lparr>ix_memory := m\<rparr>) = Inr (state, ix1)"
    "xs_opaque scan1 = Some state" "scannable env t meta (ix\<lparr>ix_memory := m\<rparr>)" "sc_meta_page state = meta"
proof -
  have m: "meta_fetch (env_codec env) header_le (ix_chain ix) = Inr meta" using ok by (simp add: scannable_def)
  then have s0: "xs_opaque scan0 = Some (tsv_scan_state_new meta)" using runs(1) by (auto simp: ambeginscan_def)
  have same: "xs_opaque (if keys \<noteq> [] then scan0\<lparr>xs_recheck := True\<rparr> else scan0) = xs_opaque scan0" by simp
  obtain v ls mem state where q: "scan_initialize env gs \<lparr>lv_vec = pgv_view v mem, lv_labels = ls\<rparr> (tsv_scan_state_new meta)
      (ix\<lparr>ix_memory := mem\<rparr>) = Inr (state, ix1)" "xs_opaque scan1 = Some state"
    using runs(2) s0 same by (auto simp: amrescan_def Let_def)
  have ok': "scannable env t meta (ix\<lparr>ix_memory := mem\<rparr>)"
    using ok by (cases t) (simp_all add: scannable_def nodes_world_def)
  have "sc_meta_page state = meta" using scan_initialize_Inr [OF ok' q(1)] by (simp add: tsv_scan_state_new_def)
  from that [OF q ok' this] show ?thesis .
qed

lemma from_datum_fuel: "from_datum alloc datum meta want_index want_full m \<noteq> Inl OutOfFuel"
  unfolding from_datum_def create_if_def create_inner_def Let_def checked_vector_dim_def validate_vector_layout_def
    ensure_datum_dimension_def deref_def vi_to_slice_def as_slice_def
  by (intro no_fuel)

lemma query_fuel: "lv_from_scan_key_data alloc keys orderbys meta m \<noteq> Inl OutOfFuel"
proof (cases "orderbys = [] \<or> List.hd orderbys = None")
  case True
  then show ?thesis
    by (cases orderbys) (auto simp: lv_from_scan_key_data_def Let_def case_prod_beta)
next
  case False
  then obtain d ds where o: "orderbys = Some d # ds" by (cases orderbys) auto
  have ks: "(case keys of [] \<Rightarrow> Inr None | key # _ \<Rightarrow> rbind (runwrap key ''unwrap'') (\<lambda>arr. Inr (labels_from_scan_keys [arr]))) \<noteq> Inl OutOfFuel"
    by (cases keys) (simp, simp, intro no_fuel)
  show ?thesis
    unfolding lv_from_scan_key_data_def o list.case option.case
    by (intro no_fuel from_datum_fuel ks)
qed

text \<open>The start of a scan returns where the quantiser can be read.\<close>

lemma amrescan_fuel:
  assumes ok: "scannable env t meta ix" and beg: "ambeginscan env scan ix = Inr scan0"
    and q: "means_load header_le (env_means env) meta (ix_chain ix) \<noteq> Inl OutOfFuel"
  shows "amrescan env gs keys orderbys scan0 ix \<noteq> Inl OutOfFuel"
proof -
  have m: "meta_fetch (env_codec env) header_le (ix_chain ix) = Inr meta" "meta_storage_type meta = Inr t" and nw: "nodes_world t meta ix"
    using ok by (simp_all add: scannable_def)
  have init: "scan_initialize env gs query state (ix\<lparr>ix_memory := mem\<rparr>) \<noteq> Inl OutOfFuel" for query state mem
  proof (cases t)
    case Plain
    have "tsv_response_iterator_new (plain_storage_ops s) lru_list meta (query_rescore gs) query (query_search_list_size gs) (ix_plain ix)
        \<noteq> Inl OutOfFuel" if "plain_storage_new env meta = Inr s" for s
      by (rule plain_scan.iterator_new_fuel) (use nw Plain plain_storage_new_Inr [OF that] in \<open>simp add: nodes_world_def\<close>)
    then show ?thesis using m by (simp add: scan_initialize_def Let_def Plain) (intro no_fuel; simp)
  next
    case SbqCompression
    have it: "tsv_response_iterator_new (sbq_storage_ops s) lru_list meta (query_rescore gs) query (query_search_list_size gs) w
        \<noteq> Inl OutOfFuel" if s: "sbq_load_for_search env q meta (ix_sbq ix) = Inr (s, w)" for q s w
    proof -
      note l = sbq_load_search [OF s]
      have "sbq_world s w" using sbq_world_search [of s "ix_sbq ix"] nw SbqCompression l by (simp add: nodes_world_def)
      then show ?thesis using sbq_scan.iterator_new_fuel [of s w] l by simp
    qed
    have "sbq_load_for_search env q meta (ix_sbq ix) \<noteq> Inl OutOfFuel" for q
      unfolding sbq_load_for_search_def by (intro no_fuel)
    then show ?thesis using m assms(3) it by (simp add: scan_initialize_def Let_def SbqCompression) (intro no_fuel; simp)
  qed
  note lv = query_fuel
  show ?thesis
    unfolding amrescan_def Let_def using init lv by (intro no_fuel)
qed

lemma get_tuple_state:
  obtains st' where "xs_opaque (snd (get_tuple st row scan)) = Some st'" "sc_storage st' = sc_storage st" "sc_meta_page st' = sc_meta_page st"
  by (cases row) (auto simp: get_tuple_def Let_def)

lemma get_tuple_tid:
  "fst (get_tuple st row scan) \<longleftrightarrow> row \<noteq> None" "xs_heaptid (snd (get_tuple st (Some r) scan)) = fst r"
  by (cases row, simp_all add: get_tuple_def Let_def split: prod.splits)

lemma next_tid_plain:
  assumes "xs_opaque scan = Some st" "sc_storage st = Some (PlainState it)" "plain_storage_new env (sc_meta_page st) = Inr s"
  shows "next_tid env scan x =
    rbind (plain_scan.it_step s (m_num_dimensions (sc_meta_page st) \<noteq> m_num_dimensions_to_index (sc_meta_page st)) it (ix_plain x))
      (\<lambda>(row, it, w). Inr (map_option fst row, snd (get_tuple (st\<lparr>sc_storage := Some (PlainState it)\<rparr>) row scan), x\<lparr>ix_plain := w\<rparr>))"
proof -
  let ?g = "plain_scan.it_step s (m_num_dimensions (sc_meta_page st) \<noteq> m_num_dimensions_to_index (sc_meta_page st)) it (ix_plain x)"
  have "(if m_num_dimensions (sc_meta_page st) = m_num_dimensions_to_index (sc_meta_page st)
      then it_next (plain_storage_ops s) lru_list it (ix_plain x) else it_next_with_resort (plain_storage_ops s) lru_list it (ix_plain x)) = ?g"
    by (simp add: plain_scan.it_step_def)
  then have "amgettuple env scan x = rbind ?g (\<lambda>(row, it, w). let (found, scan) = get_tuple (st\<lparr>sc_storage := Some (PlainState it)\<rparr>) row scan
      in Inr (found, scan, x\<lparr>ix_plain := w\<rparr>))"
    by (simp only: amgettuple_def assms runwrap_simps rbind_simps option.simps storage_state.simps)
  note eq = this
  show ?thesis
  proof (cases ?g)
    case (Inr y)
    obtain row it1 w1 where "y = (row, it1, w1)" by (cases y)
    then show ?thesis using Inr eq by (cases row) (simp_all add: next_tid_def Let_def case_prod_beta get_tuple_tid)
  qed (simp add: next_tid_def eq)
qed

lemma next_tid_sbq:
  assumes "xs_opaque scan = Some st" "sc_storage st = Some (SbqSpeedupState q it)"
    and "sbq_load_for_search env q (sc_meta_page st) (ix_sbq x) = Inr (s, w)" "sbq_model s = s"
  shows "next_tid env scan x =
    rbind (scan_storage.it_step (sbq_storage_ops s) lru_list True it w)
      (\<lambda>(row, it, w). Inr (map_option fst row, snd (get_tuple (st\<lparr>sc_storage := Some (SbqSpeedupState q it)\<rparr>) row scan), x\<lparr>ix_sbq := w\<rparr>))"
proof -
  let ?g = "scan_storage.it_step (sbq_storage_ops s) lru_list True it w"
  have "?g = it_next_with_resort (sbq_storage_ops s) lru_list it w" by (simp add: sbq_scan.it_step_def [of s, unfolded assms(4)])
  then have "amgettuple env scan x = rbind ?g (\<lambda>(row, it, w). let (found, scan) = get_tuple (st\<lparr>sc_storage := Some (SbqSpeedupState q it)\<rparr>) row scan
      in Inr (found, scan, x\<lparr>ix_sbq := w\<rparr>))"
    by (simp only: amgettuple_def assms runwrap_simps rbind_simps option.simps storage_state.simps prod.case)
  note eq = this
  show ?thesis
  proof (cases ?g)
    case (Inr y)
    obtain row it1 w1 where "y = (row, it1, w1)" by (cases y)
    then show ?thesis using Inr eq by (cases row) (simp_all add: next_tid_def Let_def case_prod_beta get_tuple_tid)
  qed (simp add: next_tid_def eq)
qed

text \<open>What the source inside delivers are rows of the index.\<close>

lemma tids_inside:
  assumes step: "\<And>it w s v. R it w s v \<Longrightarrow>
      (case f it w of Inl e \<Rightarrow> g s v = Inl e | Inr (row, it', w') \<Rightarrow> \<exists>s' v'. g s v = Inr (map_option fst row, s', v') \<and> R it' w' s' v')"
    and start: "R it w s v" and fuel: "pull f k it w \<noteq> Inl OutOfFuel"
    and inside: "\<forall>rs it' w'. pull f k it w = Inr (rs, it', w') \<longrightarrow>
      distinct (map snd rs) \<and> (\<forall>(h, p) \<in> set rs. map_option row_tid (rows p) = Some h) \<and> Q w'"
  shows "pull g k s v \<noteq> Inl OutOfFuel"
    and "pull g k s v = Inr (tids, s', v') \<Longrightarrow> tids_of_rows rows tids \<and> (\<exists>it' w'. R it' w' s' v' \<and> Q w')"
proof -
  note sim = pull_inside [where R = R and f = f and g = g and k = k, OF step start]
  have "pull g k s v \<noteq> Inl OutOfFuel \<and> (pull g k s v = Inr (tids, s', v') \<longrightarrow> tids_of_rows rows tids \<and> (\<exists>it' w'. R it' w' s' v' \<and> Q w'))"
  proof (cases "pull f k it w")
    case (Inl e)
    then show ?thesis using sim fuel by simp
  next
    case (Inr y)
    obtain rs it' w' where y: "y = (rs, it', w')" by (cases y)
    note i = inside [rule_format, OF Inr [unfolded y]]
    have "tids_of_rows rows (map fst rs)" using tids_of_pulled i by blast
    moreover obtain s1 v1 where "pull g k s v = Inr (map fst rs, s1, v1)" "R it' w' s1 v1" using sim Inr y by auto
    ultimately show ?thesis using i by auto
  qed
  then show "pull g k s v \<noteq> Inl OutOfFuel"
    and "pull g k s v = Inr (tids, s', v') \<Longrightarrow> tids_of_rows rows tids \<and> (\<exists>it' w'. R it' w' s' v' \<and> Q w')" by blast+
qed

text \<open>The descriptor holds the iterator of a scan, and the index differs in the state of its nodes only.\<close>

definition plain_held ::
  "meta_page \<Rightarrow> index_state \<Rightarrow> (plain_qdm, plain_private) tsv_response_iterator \<Rightarrow> plain_node world \<Rightarrow> index_scan_desc \<Rightarrow> index_state \<Rightarrow> bool" where
  "plain_held meta ix it v scan x \<longleftrightarrow>
     (\<exists>st. xs_opaque scan = Some st \<and> sc_storage st = Some (PlainState it) \<and> sc_meta_page st = meta) \<and> x = ix\<lparr>ix_plain := v\<rparr>"

definition sbq_held ::
  "meta_page \<Rightarrow> sbq_quantizer \<Rightarrow> index_state \<Rightarrow> (sbq_qdm, unit) tsv_response_iterator \<Rightarrow> sbq_node world \<Rightarrow> index_scan_desc \<Rightarrow> index_state
     \<Rightarrow> bool" where
  "sbq_held meta q ix it v scan x \<longleftrightarrow>
     (\<exists>st. xs_opaque scan = Some st \<and> sc_storage st = Some (SbqSpeedupState q it) \<and> sc_meta_page st = meta) \<and> x = ix\<lparr>ix_sbq := v\<rparr>"

lemma plain_held_step:
  assumes held: "plain_held meta ix it v scan x" and s: "plain_storage_new env meta = Inr s"
  shows "case plain_scan.it_step s (m_num_dimensions meta \<noteq> m_num_dimensions_to_index meta) it v of
      Inl e \<Rightarrow> next_tid env scan x = Inl e
    | Inr (row, it', v') \<Rightarrow> \<exists>scan' x'. next_tid env scan x = Inr (map_option fst row, scan', x') \<and> plain_held meta ix it' v' scan' x'"
proof -
  let ?f = "plain_scan.it_step s (m_num_dimensions meta \<noteq> m_num_dimensions_to_index meta)"
  obtain st where st: "xs_opaque scan = Some st" "sc_storage st = Some (PlainState it)" "sc_meta_page st = meta" "x = ix\<lparr>ix_plain := v\<rparr>"
    using held by (auto simp: plain_held_def)
  have eq: "next_tid env scan x = rbind (?f it v)
      (\<lambda>(row, it, w). Inr (map_option fst row, snd (get_tuple (st\<lparr>sc_storage := Some (PlainState it)\<rparr>) row scan), x\<lparr>ix_plain := w\<rparr>))"
    using next_tid_plain [OF st(1, 2), of env s x] s by (simp add: st(3, 4))
  have "plain_held meta ix it' w' (snd (get_tuple (st\<lparr>sc_storage := Some (PlainState it')\<rparr>) row scan)) (x\<lparr>ix_plain := w'\<rparr>)" for it' w' row
    by (rule get_tuple_state [of "st\<lparr>sc_storage := Some (PlainState it')\<rparr>" row scan]) (simp add: st(3, 4) plain_held_def)
  then show ?thesis unfolding eq by (cases "?f it v") (auto simp: case_prod_beta)
qed

lemma sbq_held_step:
  assumes held: "sbq_held meta q ix it v scan x" and load: "sbq_load_for_search env q meta v = Inr (s, v\<lparr>w_cache := None\<rparr>)"
  shows "case scan_storage.it_step (sbq_storage_ops s) lru_list True it (v\<lparr>w_cache := None\<rparr>) of
      Inl e \<Rightarrow> next_tid env scan x = Inl e
    | Inr (row, it', v') \<Rightarrow> \<exists>scan' x'. next_tid env scan x = Inr (map_option fst row, scan', x') \<and> sbq_held meta q ix it' v' scan' x'"
proof -
  let ?f = "scan_storage.it_step (sbq_storage_ops s) lru_list True"
  obtain st where st: "xs_opaque scan = Some st" "sc_storage st = Some (SbqSpeedupState q it)" "sc_meta_page st = meta"
    "x = ix\<lparr>ix_sbq := v\<rparr>"
    using held by (auto simp: sbq_held_def)
  have eq: "next_tid env scan x = rbind (?f it (v\<lparr>w_cache := None\<rparr>))
      (\<lambda>(row, it, w). Inr (map_option fst row, snd (get_tuple (st\<lparr>sc_storage := Some (SbqSpeedupState q it)\<rparr>) row scan), x\<lparr>ix_sbq := w\<rparr>))"
    using next_tid_sbq [OF st(1, 2), of env x s "v\<lparr>w_cache := None\<rparr>"] load sbq_load_search [OF load] by (simp add: st(3, 4))
  have "sbq_held meta q ix it' w' (snd (get_tuple (st\<lparr>sc_storage := Some (SbqSpeedupState q it')\<rparr>) row scan)) (x\<lparr>ix_sbq := w'\<rparr>)"
    for it' w' row
    by (rule get_tuple_state [of "st\<lparr>sc_storage := Some (SbqSpeedupState q it')\<rparr>" row scan]) (simp add: st(3, 4) sbq_held_def)
  then show ?thesis unfolding eq by (cases "?f it (v\<lparr>w_cache := None\<rparr>)") (auto simp: case_prod_beta)
qed

lemma scan_plain:
  assumes nw: "nodes_world Plain meta ix" "entry_points_ok meta" and s: "plain_storage_new env meta = Inr s"
    and new: "tsv_response_iterator_new (plain_storage_ops s) lru_list meta rs query n (ix_plain ix) = Inr (it, w)"
    and held: "plain_held meta ix it w scan x"
  shows "pull (next_tid env) k scan x \<noteq> Inl OutOfFuel"
    and "pull (next_tid env) k scan x = Inr (tids, scan', x') \<Longrightarrow>
      tids_of_rows (index_rows Plain ix) tids \<and> index_rows Plain x' = index_rows Plain ix"
proof -
  have pw: "plain_world s (ix_plain ix)" using nw(1) plain_storage_new_Inr [OF s] by (simp add: nodes_world_def)
  note f = plain_scan.scan_pull [where pre = "\<lambda>v. v" and c = k
      and rescoring = "m_num_dimensions meta \<noteq> m_num_dimensions_to_index meta", OF new pw nw(2), simplified]
  have inside: "\<forall>rs it' w'. pull (plain_scan.it_step s (m_num_dimensions meta \<noteq> m_num_dimensions_to_index meta)) k it w = Inr (rs, it', w') \<longrightarrow>
      distinct (map snd rs) \<and> (\<forall>(h, p) \<in> set rs. map_option row_tid (index_rows Plain ix p) = Some h) \<and> w_rel w' = w_rel (ix_plain ix)"
    by (intro allI impI) (drule f(2), auto simp: index_rows_def)
  note r = tids_inside [where R = "plain_held meta ix" and rows = "index_rows Plain ix" and Q = "\<lambda>v. w_rel v = w_rel (ix_plain ix)"
      and f = "plain_scan.it_step s (m_num_dimensions meta \<noteq> m_num_dimensions_to_index meta)", OF _ held f(1) inside]
  show "pull (next_tid env) k scan x \<noteq> Inl OutOfFuel"
    by (rule r(1)) (rule plain_held_step [OF _ s])
  assume run: "pull (next_tid env) k scan x = Inr (tids, scan', x')"
  have "tids_of_rows (index_rows Plain ix) tids \<and> (\<exists>it' w'. plain_held meta ix it' w' scan' x' \<and> w_rel w' = w_rel (ix_plain ix))"
    by (rule r(2) [OF _ run]) (rule plain_held_step [OF _ s])
  then show "tids_of_rows (index_rows Plain ix) tids \<and> index_rows Plain x' = index_rows Plain ix"
    by (auto simp: plain_held_def index_rows_def fun_eq_iff)
qed

lemma scan_sbq:
  assumes nw: "nodes_world SbqCompression meta ix" "entry_points_ok meta"
    and s: "sbq_load_for_search env q meta (ix_sbq ix) = Inr (s, (ix_sbq ix)\<lparr>w_cache := None\<rparr>)"
    and new: "tsv_response_iterator_new (sbq_storage_ops s) lru_list meta rs query n ((ix_sbq ix)\<lparr>w_cache := None\<rparr>) = Inr (it, w)"
    and held: "sbq_held meta q ix it w scan x"
  shows "pull (next_tid env) k scan x \<noteq> Inl OutOfFuel"
    and "pull (next_tid env) k scan x = Inr (tids, scan', x') \<Longrightarrow>
      tids_of_rows (index_rows SbqCompression ix) tids \<and> index_rows SbqCompression x' = index_rows SbqCompression ix"
proof -
  have sm: "sbq_model s = s" and nn: "sq_num_neighbors s = unat (m_num_neighbors meta)" using sbq_load_search [OF s] by simp_all
  have load: "sbq_load_for_search env q meta v = Inr (s, v\<lparr>w_cache := None\<rparr>)" for v
    using s by (auto simp: sbq_load_for_search_def)
  have pw: "sbq_world s ((ix_sbq ix)\<lparr>w_cache := None\<rparr>)"
    by (rule sbq_world_search) (use nw(1) nn in \<open>simp add: nodes_world_def\<close>)
  have pre: "same_disk v (v\<lparr>w_cache := None\<rparr>) \<and> sbq_world s (v\<lparr>w_cache := None\<rparr>)" if "sbq_world s v" for v
    using sbq_world_search [OF that [unfolded sbq_world_def, THEN conjunct1]] by (simp add: same_disk_def)
  let ?f = "\<lambda>it v. scan_storage.it_step (sbq_storage_ops s) lru_list True it (v\<lparr>w_cache := None\<rparr>)"
  note f0 = sbq_scan.scan_pull [where s = s and pre = "\<lambda>v. v\<lparr>w_cache := None\<rparr>" and rescoring = True and c = k, unfolded sm,
      OF new pw nw(2)]
  have f: "pull ?f k it w \<noteq> Inl OutOfFuel" by (rule f0(1)) (rule pre)
  have "distinct (map snd rs) \<and> (\<forall>(h, p) \<in> set rs. \<exists>x. item_at (w_rel (ix_sbq ix)) p = Some x \<and> h = sbq_heap_item_pointer x) \<and>
      w_rel w' = w_rel (ix_sbq ix)" if "pull ?f k it w = Inr (rs, it', w')" for rs it' w'
    using f0(2) [OF pre that] by simp
  then have inside: "\<forall>rs it' w'. pull ?f k it w = Inr (rs, it', w') \<longrightarrow> distinct (map snd rs) \<and>
      (\<forall>(h, p) \<in> set rs. map_option row_tid (index_rows SbqCompression ix p) = Some h) \<and> w_rel w' = w_rel (ix_sbq ix)"
    by (fastforce simp: index_rows_def)
  note r = tids_inside [where R = "sbq_held meta q ix" and rows = "index_rows SbqCompression ix" and Q = "\<lambda>v. w_rel v = w_rel (ix_sbq ix)"
      and f = ?f, OF _ held f inside]
  show "pull (next_tid env) k scan x \<noteq> Inl OutOfFuel"
    by (rule r(1)) (rule sbq_held_step [OF _ load])
  assume run: "pull (next_tid env) k scan x = Inr (tids, scan', x')"
  have "tids_of_rows (index_rows SbqCompression ix) tids \<and>
      (\<exists>it' w'. sbq_held meta q ix it' w' scan' x' \<and> w_rel w' = w_rel (ix_sbq ix))"
    by (rule r(2) [OF _ run]) (rule sbq_held_step [OF _ load])
  then show "tids_of_rows (index_rows SbqCompression ix) tids \<and> index_rows SbqCompression x' = index_rows SbqCompression ix"
    by (auto simp: sbq_held_def index_rows_def fun_eq_iff)
qed

text \<open>Every tuple that the executor is given is a row of the index, and it gets each row at most once.\<close>

lemma scan_index:
  assumes ok: "scannable env t meta ix" and runs: "ambeginscan env scan ix = Inr scan0" "amrescan env gs keys orderbys scan0 ix = Inr (scan1, ix1)"
  shows "pull (next_tid env) k scan1 ix1 \<noteq> Inl OutOfFuel"
    and "pull (next_tid env) k scan1 ix1 = Inr (tids, scan2, ix2) \<Longrightarrow>
      tids_of_rows (index_rows t ix) tids \<and> index_rows t ix2 = index_rows t ix"
proof -
  obtain query m state where init: "scan_initialize env gs query (tsv_scan_state_new meta) (ix\<lparr>ix_memory := m\<rparr>) = Inr (state, ix1)"
    "xs_opaque scan1 = Some state" "scannable env t meta (ix\<lparr>ix_memory := m\<rparr>)" "sc_meta_page state = meta"
    by (rule amrescan_Inr [OF ok runs])
  let ?ix = "ix\<lparr>ix_memory := m\<rparr>"
  note i = scan_initialize_Inr [OF init(3, 1)]
  have nw: "nodes_world t meta ?ix" "entry_points_ok meta" using init(3) by (simp_all add: scannable_def)
  have same: "index_rows t ?ix = index_rows t ix" by (cases t) (simp_all add: index_rows_def fun_eq_iff)
  have "pull (next_tid env) k scan1 ix1 \<noteq> Inl OutOfFuel \<and> (pull (next_tid env) k scan1 ix1 = Inr (tids, scan2, ix2) \<longrightarrow>
      tids_of_rows (index_rows t ?ix) tids \<and> index_rows t ix2 = index_rows t ?ix)"
  proof (cases t)
    case Plain
    obtain s it w where s: "plain_storage_new env meta = Inr s" "sc_storage state = Some (PlainState it)" "ix1 = ?ix\<lparr>ix_plain := w\<rparr>"
      "tsv_response_iterator_new (plain_storage_ops s) lru_list meta (query_rescore gs) query (query_search_list_size gs) (ix_plain ?ix) =
         Inr (it, w)"
      using i Plain by auto
    have "plain_held meta ?ix it w scan1 ix1" using init(2, 4) s(2, 3) by (simp add: plain_held_def)
    note r = scan_plain [OF nw [unfolded Plain] s(1, 4) this]
    show ?thesis unfolding Plain using r by blast
  next
    case SbqCompression
    obtain q s it w where s: "sbq_load_for_search env q meta (ix_sbq ?ix) = Inr (s, (ix_sbq ?ix)\<lparr>w_cache := None\<rparr>)"
      "sc_storage state = Some (SbqSpeedupState q it)" "ix1 = ?ix\<lparr>ix_sbq := w\<rparr>"
      "tsv_response_iterator_new (sbq_storage_ops s) lru_list meta (query_rescore gs) query (query_search_list_size gs)
         ((ix_sbq ?ix)\<lparr>w_cache := None\<rparr>) = Inr (it, w)"
      using i SbqCompression by auto
    have "sbq_held meta q ?ix it w scan1 ix1" using init(2, 4) s(2, 3) by (simp add: sbq_held_def)
    note r = scan_sbq [OF nw [unfolded SbqCompression] s(1, 4) this]
    show ?thesis unfolding SbqCompression using r by blast
  qed
  then show "pull (next_tid env) k scan1 ix1 \<noteq> Inl OutOfFuel"
    and "pull (next_tid env) k scan1 ix1 = Inr (tids, scan2, ix2) \<Longrightarrow>
      tids_of_rows (index_rows t ix) tids \<and> index_rows t ix2 = index_rows t ix" unfolding same by blast+
qed

end
