(* ===== verification/Create_Scan.thy ===== *)
theory Create_Scan
  imports Create_Properties Index_Scan
begin

text \<open>
  \<open>CREATE INDEX\<close> and an index scan together: what the executor is given are rows of the table. The run
  scans the sample index right after its creation.
\<close>

section \<open>From rows of the index to rows of the table\<close>

lemma expected_row_tid: "expected_row env t meta rel row d = Inr r \<Longrightarrow> row_tid r = row_ctid row"
  by (cases t) (auto simp: expected_row_def Let_def)

lemma expected_rows_tids:
  assumes "expected_rows env t meta rel rows rs"
  shows "map row_tid rs = map row_ctid (rows_with_vector rows)"
proof -
  have "list_all2 (\<lambda>row r. row_ctid row = row_tid r) (rows_with_vector rows) rs"
    using assms unfolding expected_rows_def
    by (rule list_all2_mono) (rule expected_row_tid [symmetric])
  then show ?thesis by (induction rule: list_all2_induct) simp_all
qed

text \<open>Tuple identifiers that come from different entries of a map are part of what the map holds.\<close>

lemma tids_of_rows_mset:
  assumes "tids_of_rows (map_of (zip places rs)) tids" "distinct places" "length places = length rs"
  shows "mset tids \<subseteq># mset (map row_tid rs)"
proof -
  let ?m = "map_of (zip places rs)" and ?t = "\<lambda>p. row_tid (the (map_of (zip places rs) p))"
  obtain ps where ps: "distinct ps" "list_all2 (\<lambda>p tid. map_option row_tid (?m p) = Some tid) ps tids"
    using assms(1) by (auto simp: tids_of_rows_def)
  have tids: "tids = map ?t ps"
    using ps(2) by (induction rule: list_all2_induct) auto
  have "set ps \<subseteq> set places"
  proof
    fix p assume "p \<in> set ps"
    then obtain tid where "map_option row_tid (?m p) = Some tid" using ps(2) by (auto simp: list_all2_conv_all_nth in_set_conv_nth)
    then show "p \<in> set places" by (auto dest!: map_of_SomeD set_zip_leftD)
  qed
  then have "mset ps \<subseteq># mset places"
    using ps(1) assms(2) by (metis List.finite_set mset_set_set subset_imp_msubset_mset_set)
  then have "mset (map ?t ps) \<subseteq># mset (map ?t places)" by (simp add: image_mset_subseteq_mono)
  moreover have "map ?t places = map row_tid rs"
    using assms(2, 3) by (intro nth_equalityI) (simp_all add: map_of_zip_nth)
  ultimately show ?thesis by (simp add: tids)
qed

lemma created_scannable:
  assumes "creatable env rq t sampled rows ix" "serial_build rq t" "ambuild env rq run_workers sampled rows ix = Inr (n, ix1)"
  obtains meta rs places where "scannable env t meta ix1" "map row_tid rs = map row_ctid (rows_with_vector rows)"
    "distinct places" "length places = length rs" "index_rows t ix1 = map_of (zip places rs)"
proof -
  obtain meta so rel rs places where f: "meta_storage_type meta = Inr t"
    "meta_fetch (env_codec env) header_le (ix_chain ix1) = Inr (with_start meta so)" "entry_points_ok (with_start meta so)"
    "nodes_world t meta ix1" "expected_rows env t meta rel rows rs" "distinct places" "length places = length rs"
    "index_rows t ix1 = map_of (zip places rs)"
    using ambuild_facts(2) [OF assms] by blast
  have "scannable env t (with_start meta so) ix1"
    using f(1-4) by (cases t) (simp_all add: scannable_def meta_storage_type_def nodes_world_def)
  from that [OF this expected_rows_tids [OF f(5)] f(6-8)] show ?thesis .
qed

section \<open>The scan of the sample index\<close>

definition sample_settings :: scan_settings where
  "sample_settings = \<lparr>query_search_list_size = 100, query_rescore = 50\<rparr>"

definition sample_desc :: index_scan_desc where
  "sample_desc = \<lparr>xs_recheck = False, xs_recheckorderby = False, xs_heaptid = ItemPointer 0 0, xs_opaque = None\<rparr>"

abbreviation first_lsn0 :: "plain_private lsn" where
  "first_lsn0 \<equiv> sample_lsn ip1 0 (ItemPointer 7 1) []"

abbreviation first_state :: "plain_private lsn list \<Rightarrow> plain_private lsn list \<Rightarrow> (labeled_vector, plain_private) lsr" where
  "first_state cs vs \<equiv> \<lparr>candidates = cs, visited = vs, inserted = {ip1}, sdm = Some first_query, tie_break_item_pointer = None\<rparr>"

abbreviation first_it :: "(labeled_vector, plain_private) lsr \<Rightarrow> 32 word \<Rightarrow> (labeled_vector, plain_private) tsv_response_iterator" where
  "first_it l c \<equiv> \<lparr>it_lsr = l, it_search_list_size = 100, it_meta_page = first_meta, it_resort_size = 50, it_resort_buffer = [],
     it_streaming_stats = streaming_stats_new, it_next_calls = c, it_next_calls_with_resort = 0,
     it_full_distance_comparisons = 0, it_has_label_filter = False\<rparr>"

lemma first_meta_start: "m_start_nodes first_meta = Some (start_nodes_new ip1)" by (simp add: first_meta_def)

lemma first_disk_lsn:
  assumes "w_rel w = first_rel" "sdm l = Some first_query" "tie_break_item_pointer l = None"
  shows "plain_lsn first_plain lru_list l ip1 DiskStore w =
      Inr (first_lsn0, DiskStore, count record_full_distance_comparison (count record_read w))"
proof -
  have f: "\<not> f32_is_nan 0" "f32_le f32_zero 0" by code_simp+
  show ?thesis
    using assms(2, 3)
    by (simp add: plain_lsn_def first_read [OF assms(1)] Let_def plain_calculate_distance_def plain_private_new_def
        create_distance_with_tie_break_def first_query_def to_index_slice_def sample_lsn_def)
      (simp add: sample_plain_node_def sample_l2_zero f rassert_def)
qed

lemma first_it_new:
  assumes "w_rel w = first_rel"
  shows "\<exists>w'. tsv_response_iterator_new (plain_storage_ops first_plain) lru_list first_meta 50 first_query 100 w =
      Inr (first_it (first_state [first_lsn0] []) 0, w') \<and> w_rel w' = first_rel"
proof -
  have "\<exists>w'. lsr_new (plain_storage_ops first_plain) lru_list [ip1] first_query None DiskStore w =
      Inr (first_state [first_lsn0] [], DiskStore, w') \<and> w_rel w' = first_rel"
    by (simp add: lsr_new_def plain_storage_ops_def plain_create_lsn_for_start_node_def prepare_insert_def lsr_empty_def
        insert_neighbor_def first_disk_lsn assms)
  moreover have "get_for_node (start_nodes_new ip1) (lv_labels first_query) = [ip1]" "lv_labels first_query = None"
    by (simp_all add: get_for_node_def start_nodes_new_def first_query_def)
  moreover have "s_query_dm (plain_storage_ops first_plain) = Inr" by (simp add: plain_storage_ops_def)
  ultimately show ?thesis
    by (auto simp: tsv_response_iterator_new_def greedy_search_streaming_init_def first_meta_start Let_def)
qed

lemma first_it_next:
  "\<exists>w'. it_next (plain_storage_ops first_plain) lru_list (first_it (first_state [first_lsn0] []) c) w =
     Inr (Some (ItemPointer 7 1, ip1), first_it (first_state [] []) (c + 1), w')"
  "it_next (plain_storage_ops first_plain) lru_list (first_it (first_state [] []) c) w = Inr (None, first_it (first_state [] []) (c + 1), w)"
proof -
  let ?S = "plain_storage_ops first_plain"
  have stop: "greedy_search_loop ?S lru_list 100 True (first_state [] vs) None DiskStore w = Some (Inr (first_state [] vs, None, DiskStore, w))"
    for vs w by (subst greedy_search_loop.simps) (simp add: visit_closest_def bh_peek_def)
  have visit: "s_visit_lsn ?S lru_list (first_state [] [first_lsn0]) 0 DiskStore True v = Inr (first_state [] [first_lsn0], DiskStore, v)" for v
    by (simp add: plain_storage_ops_def plain_visit_lsn_def get_lsn_by_idx_def Let_def)
  have loop: "greedy_search_loop ?S lru_list 100 True (first_state [first_lsn0] []) None DiskStore w =
      Some (Inr (first_state [] [first_lsn0], None, DiskStore, count record_visit w))"
    by (subst greedy_search_loop.simps) (simp add: visit_closest_def Let_def partition_point_def insert_at_def record_visited_def visit stop)
  have "s_return_lsn ?S first_lsn0 v = Inr (ItemPointer 7 1, v)" for v
    by (simp add: plain_storage_ops_def plain_return_lsn_def sample_lsn_def)
  then show "\<exists>w'. it_next ?S lru_list (first_it (first_state [first_lsn0] []) c) w =
     Inr (Some (ItemPointer 7 1, ip1), first_it (first_state [] []) (c + 1), w')"
    by (simp add: it_next_def next_loop.simps greedy_search_iterate_def returned_def lsr_consume_def loop InvalidOffsetNumber_def)
  show "it_next ?S lru_list (first_it (first_state [] []) c) w = Inr (None, first_it (first_state [] []) (c + 1), w)"
    by (simp add: it_next_def next_loop.simps greedy_search_iterate_def returned_def lsr_consume_def stop)
qed

lemma first_meta_ok: "dims_ok first_meta" "meta_storage_type first_meta = Inr Plain" "meta_distance_type first_meta = Inr L2"
  "m_num_dimensions first_meta = 1" "m_num_dimensions_to_index first_meta = 1" "m_num_neighbors first_meta = 50" "prepared first_meta x = x"
  using empty_meta_ok by (simp_all add: first_meta_def meta_storage_type_def meta_distance_type_def prepared_def)

lemma first_scan_query:
  "\<exists>v bs. lv_from_scan_key_data sample_alloc [] [row_vector row1] first_meta [] = Inr ((v, None), bs) \<and>
     \<lparr>lv_vec = pgv_view v bs, lv_labels = None\<rparr> = first_query"
proof -
  obtain d where d: "row_vector row1 = Some d" "vd_x d = [0]" by (simp add: row1_def)
  have fit: "varlena_ok d" "datum_fits first_meta d"
    using d(1) by (auto simp: row1_def varlena_ok_def datum_fits_def first_meta_ok)
  obtain v bs where "from_datum sample_alloc (Some d) first_meta True True [] = Inr (v, bs)"
    "pgv_view v bs = \<lparr>index_distance = Some [0], full_distance = Some [0]\<rparr>"
    using from_datum_fits [OF first_meta_ok(1) sample_alloc_ok fit, of True True "[]"] by (auto simp: first_meta_ok d(2))
  then show ?thesis by (simp add: d(1) lv_from_scan_key_data_def first_query_def)
qed

lemma first_scan:
  assumes fetch: "meta_fetch sample_codec header_le (ix_chain ix) = Inr first_meta"
    and ix: "w_rel (ix_plain ix) = first_rel" "ix_memory ix = []"
  shows "\<exists>scan0 scan1 ix1 scan2 ix2. ambeginscan sample_env sample_desc ix = Inr scan0 \<and>
     amrescan sample_env sample_settings [] [row_vector row1] scan0 ix = Inr (scan1, ix1) \<and>
     pull (next_tid sample_env) 2 scan1 ix1 = Inr ([ItemPointer 7 1], scan2, ix2)"
proof -
  have env: "env_codec sample_env = sample_codec" "env_alloc sample_env = sample_alloc" by (simp_all add: sample_env_def)
  obtain v bs where q: "lv_from_scan_key_data sample_alloc [] [row_vector row1] first_meta [] = Inr ((v, None), bs)"
    "\<lparr>lv_vec = pgv_view v bs, lv_labels = None\<rparr> = first_query" using first_scan_query by blast
  have s: "plain_storage_new sample_env first_meta = Inr first_plain"
    by (simp add: plain_storage_new_def first_meta_ok sample_env_def first_plain_def sample_plain_def)
  obtain w where it: "tsv_response_iterator_new (plain_storage_ops first_plain) lru_list first_meta 50 first_query 100 (ix_plain ix) =
      Inr (first_it (first_state [first_lsn0] []) 0, w)" using first_it_new [OF ix(1)] by blast
  let ?st = "\<lambda>it. \<lparr>sc_storage = Some (PlainState it), sc_distance_fn = Some (get_distance_function sample_simd L2),
     sc_meta_page = first_meta, sc_last_buffer = None\<rparr>"
  let ?ix = "ix\<lparr>ix_memory := bs, ix_plain := w\<rparr>"
  have beg: "ambeginscan sample_env sample_desc ix = Inr (sample_desc\<lparr>xs_opaque := Some (tsv_scan_state_new first_meta)\<rparr>)"
    by (simp add: ambeginscan_def env fetch)
  have init: "scan_initialize sample_env sample_settings first_query (tsv_scan_state_new first_meta) (ix\<lparr>ix_memory := bs\<rparr>) =
      Inr (?st (first_it (first_state [first_lsn0] []) 0), ?ix)"
    by (simp add: scan_initialize_def Let_def env fetch first_meta_ok s sample_settings_def it tsv_scan_state_new_def)
      (simp add: sample_env_def)
  let ?scan = "sample_desc\<lparr>xs_opaque := Some (?st (first_it (first_state [first_lsn0] []) 0))\<rparr>"
  have re: "amrescan sample_env sample_settings [] [row_vector row1]
      (sample_desc\<lparr>xs_opaque := Some (tsv_scan_state_new first_meta)\<rparr>) ix = Inr (?scan, ?ix)"
    using init by (simp add: amrescan_def Let_def env q ix(2) tsv_scan_state_new_def)
  have dims: "m_num_dimensions first_meta = m_num_dimensions_to_index first_meta" by (simp add: first_meta_ok)
  note nt = next_tid_plain [where env = sample_env and s = first_plain, unfolded plain_scan.it_step_def]
  obtain w1 where n1: "it_next (plain_storage_ops first_plain) lru_list (first_it (first_state [first_lsn0] []) 0) w =
     Inr (Some (ItemPointer 7 1, ip1), first_it (first_state [] []) 1, w1)" using first_it_next(1) [of 0 w] by auto
  have t1: "\<exists>scan. next_tid sample_env ?scan ?ix = Inr (Some (ItemPointer 7 1), scan, ?ix\<lparr>ix_plain := w1\<rparr>) \<and>
      (\<exists>st. xs_opaque scan = Some st \<and> sc_storage st = Some (PlainState (first_it (first_state [] []) 1)) \<and> sc_meta_page st = first_meta)"
    using nt [of ?scan "?st (first_it (first_state [first_lsn0] []) 0)" _ ?ix] s dims n1 by (simp add: get_tuple_def Let_def)
  then obtain scan st where t: "next_tid sample_env ?scan ?ix = Inr (Some (ItemPointer 7 1), scan, ?ix\<lparr>ix_plain := w1\<rparr>)"
    "xs_opaque scan = Some st" "sc_storage st = Some (PlainState (first_it (first_state [] []) 1))" "sc_meta_page st = first_meta" by blast
  have "\<exists>scan2 ix2. next_tid sample_env scan (?ix\<lparr>ix_plain := w1\<rparr>) = Inr (None, scan2, ix2)"
    using nt [OF t(2, 3)] s dims t(4) by (simp add: first_it_next(2))
  then obtain scan2 ix2 where "next_tid sample_env scan (?ix\<lparr>ix_plain := w1\<rparr>) = Inr (None, scan2, ix2)" by blast
  then have "pull (next_tid sample_env) 2 ?scan ?ix = Inr ([ItemPointer 7 1], scan2, ix2)"
    using t(1) by (simp add: numeral_2_eq_2)
  then show ?thesis using beg re by blast
qed

text \<open>
  C3. An index scan after \<open>CREATE INDEX\<close> gives the executor rows of the table only. For a table whose
  rows have the declared dimension and an index without labels that nobody else uses, once a build
  without workers has succeeded and a scan has been started with any query, the calls of \<open>amgettuple\<close>
  return; the tuple identifiers that they deliver are those of rows of the table that have a vector,
  and none comes more often than there are such rows: no row is returned twice, none is made up.
\<close>

theorem scan_after_create:
  assumes "creatable env rq t sampled rows ix" "serial_build rq t"
    and "ambuild env rq run_workers sampled rows ix = Inr (n, ix1)"
    and "ambeginscan env scan ix1 = Inr scan0" "amrescan env gs keys orderbys scan0 ix1 = Inr (scan1, ix2)"
  shows "pull (next_tid env) k scan1 ix2 \<noteq> Inl OutOfFuel \<and>
    (\<forall>tids scan3 ix3. pull (next_tid env) k scan1 ix2 = Inr (tids, scan3, ix3) \<longrightarrow>
       mset tids \<subseteq># mset (map row_ctid (rows_with_vector rows)) \<and> index_rows t ix3 = index_rows t ix1)"
proof -
  obtain meta rs places where c: "scannable env t meta ix1" "map row_tid rs = map row_ctid (rows_with_vector rows)"
    "distinct places" "length places = length rs" "index_rows t ix1 = map_of (zip places rs)"
    by (rule created_scannable [OF assms(1-3)])
  note f = scan_index [OF c(1) assms(4, 5)]
  show ?thesis
    using f(1) f(2) [unfolded c(5)] tids_of_rows_mset [OF _ c(3, 4)] c(2, 5) by fastforce
qed

theorem scan_after_create_witness:
  "\<exists>ix1 scan0 scan1 ix2 scan3 ix3.
     ambuild sample_env sample_request no_workers [null_row, row1] [null_row, row1] empty_index = Inr (1, ix1) \<and>
     ambeginscan sample_env sample_desc ix1 = Inr scan0 \<and>
     amrescan sample_env sample_settings [] [row_vector row1] scan0 ix1 = Inr (scan1, ix2) \<and>
     pull (next_tid sample_env) 2 scan1 ix2 = Inr ([ItemPointer 7 1], scan3, ix3) \<and>
     {#ItemPointer 7 1#} \<subseteq># mset (map row_ctid (rows_with_vector [null_row, row1])) \<and> index_rows Plain ix3 = index_rows Plain ix1"
proof -
  obtain ix1 where b: "ambuild sample_env sample_request no_workers [null_row, row1] [null_row, row1] empty_index = Inr (1, ix1)"
    "meta_fetch sample_codec header_le (ix_chain ix1) = Inr first_meta" "w_rel (ix_plain ix1) = first_rel" "ix_memory ix1 = []"
    using first_ambuild by blast
  obtain scan0 scan1 ix2 scan3 ix3 where r: "ambeginscan sample_env sample_desc ix1 = Inr scan0"
    "amrescan sample_env sample_settings [] [row_vector row1] scan0 ix1 = Inr (scan1, ix2)"
    "pull (next_tid sample_env) 2 scan1 ix2 = Inr ([ItemPointer 7 1], scan3, ix3)"
    using first_scan [OF b(2-4)] by blast
  from scan_after_create [OF sample_creatable sample_serial b(1) r(1, 2), THEN conjunct2, rule_format, OF r(3)]
  show ?thesis using b(1) r by auto
qed

end
