(* ===== verification/Spec2Isabelle.thy ===== *)
theory Spec2Isabelle
  imports Binary_Heap Sample_Index Publication Graph_Properties Scan_Properties Vacuum_Properties Parallel_Build Create_Scan
begin

text \<open>
  \<^bold>\<open>A verification of the vector index of pgvectorscale.\<close>

  The extension (\<open>src/pgvectorscale/src\<close>) adds the access method \<open>diskann\<close> to PostgreSQL: an
  approximate nearest neighbour index over vectors, optionally with labels. The index is a graph
  whose nodes are items of the pages of an index relation. A node holds the pointer of its table
  row, its vector (plain, or compressed by statistical binary quantisation, SBQ) and a fixed number
  of slots for its neighbours. A search walks the graph greedily from entry points that the meta
  page names; an insertion is a search, a pruning of what it visited, and an update of the
  neighbours found. Backends change the graph concurrently under page locks only.

  \<^bold>\<open>Conventions.\<close> Fallible functions return \<open>pg_error + 'a\<close> (\<open>Prelude\<close>): a Rust panic, a PostgreSQL
  error, or the loss of fuel, which no property leaves possible. Block numbers and offsets are words
  of their width, \<open>usize\<close> is \<open>nat\<close>, with the width written out where the code checks it, and floats
  are bit patterns with IEEE rounding (\<open>Ieee_Float\<close>). A relation is a list of pages, its state is
  passed explicitly; \<open>world\<close> (\<open>Storage\<close>) adds the counters, the cache of quantised vectors and the
  pending actions of other backends, one of which is taken whenever a node is locked for
  modification. What is not in the repository is a parameter with its documented laws as a locale:
  page layout (\<open>pg_page\<close>, of which \<open>pg_page_8k\<close> is the instance), the \<open>lru\<close> crate (\<open>lru_list\<close>),
  \<open>rkyv\<close> (\<open>chain_header\<close>, \<open>meta_codec_laws\<close>), SIMD instructions (\<open>simd\<close>), the table (a function from
  heap pointers to vectors) and the order in which a hash set is iterated.

  \<^bold>\<open>Data and disk.\<close>
  \<^item> \<open>Item_Pointer\<close>: \<open>util/mod.rs\<close>. \<open>Label_Sets\<close>: \<open>labels/mod.rs\<close>, the filter of the index agrees
    with the SQL operator of \<open>mod.rs\<close>. \<open>Neighbor_Distance\<close>: \<open>graph/neighbor_with_distance.rs\<close>, a total
    preorder with tie breaks. \<open>Start_Nodes\<close>: \<open>graph/start_nodes.rs\<close>.
  \<^item> \<open>Page_Store\<close>, \<open>Tape\<close>, \<open>Chain_Tape\<close>, \<open>Chain_Root\<close>: \<open>util/page.rs\<close>, \<open>tape.rs\<close>, \<open>chain.rs\<close>. Items
    are appended to pages, large ones as chains; a chained root is replaced by one commit.
  \<^item> \<open>Meta_Page\<close>: \<open>meta_page.rs\<close>, \<open>options.rs\<close>, the checks of \<open>vector_type.rs\<close>. \<open>Publication\<close>: what is
    published is what is fetched, and which options are accepted. \<open>Sample_Codec\<close> is a concrete
    serialiser that satisfies the laws.
  \<^item> \<open>Lru_Cache\<close>: \<open>util/lru.rs\<close>. \<open>Binary_Heap\<close>: the standard library's heap.

  \<^bold>\<open>Nodes and storages.\<close>
  \<^item> \<open>Graph_Nodes\<close>: \<open>plain/node.rs\<close>, \<open>sbq/node.rs\<close>. \<open>Vector_Distance\<close>: \<open>distance/\<close>. \<open>Sbq_Quantizer\<close>:
    \<open>sbq/quantize.rs\<close>, the Hamming distance of codes is the distance of quantisation levels.
  \<^item> \<open>Storage\<close>, \<open>Search_Storage\<close>: the trait of \<open>storage.rs\<close> as two records of operations, with the
    contracts \<open>disk_storage\<close> (nodes are read and compare-and-set atomically) and \<open>search_storage\<close>
    (visits meet every neighbour of a node and change nothing). \<open>Plain_Storage\<close> and \<open>Sbq_Storage\<close>
    model \<open>plain/\<close> and \<open>sbq/\<close> and are their instances; \<open>Sbq_Filter\<close> is the label filter of a visit.

  \<^bold>\<open>The graph\<close> (\<open>graph/mod.rs\<close>, \<open>graph/neighbor_store.rs\<close>).
  \<^item> \<open>Prune\<close>: \<open>prune_neighbors\<close>; \<open>prune_fuel\<close> is 10 rounds, since \<open>alpha\<close> grows by 1.2 from 1 and exceeds
    the largest admissible \<open>max_alpha\<close>, 5, after nine. Its specification \<open>pruned_to\<close> says which candidates
    are kept in terms of the distances between nodes (\<open>dist_at\<close> of the storage contract) and of
    \<open>occlusion_factor\<close>, independently of \<open>get_factor\<close>.
  \<^item> \<open>Neighbor_Merge\<close>: \<open>merge_neighbors_on_disk\<close> with retries; \<open>merged\<close> and \<open>adopts\<close> say what a merge
    publishes. Its fuel is one more than the pending actions of other backends, a finite list, since each
    retry uses one up; more fuel gives the same result. The loop of the source has no bound, and
    \<open>CONCURRENCY.md\<close> promises no progress under unlimited contention; no property here does either.
  \<^item> \<open>Neighbor_Store\<close>: the build cache; a flush has one more round of fuel than entries.
  \<^item> \<open>List_Search\<close>: the candidate list. \<open>Graph_Search\<close>: search and insertion; the search loop is a
    partial function, whose termination is a theorem. \<open>Graph_Facts\<close>, \<open>Graph_Insert\<close>, \<open>Graph_Entry\<close>:
    their lemmas over any storage that satisfies the contracts.
  \<^item> \<open>Graph_Properties\<close>: the properties of pruning, merging, flushing, search and insertion on the two
    storages. \<open>Sample_Index\<close> and \<open>Sample_Runs\<close>: small indexes at which they are instantiated.

  \<^bold>\<open>Scans and vacuum.\<close>
  \<^item> \<open>Scan\<close>: the iterator of \<open>scan.rs\<close> that streams the rows of a search, and the min heap that reorders a
    window of them by exact distance; both loops are partial functions that are proved to return.
    \<open>Scan_Facts\<close> and \<open>Scan_Resort\<close> prove what they promise over the contract \<open>scan_storage\<close>, which
    \<open>Scan_Storages\<close> discharges for both storages; \<open>Scan_Properties\<close> states it: a scan returns the rows
    of the live nodes that can be reached (through nodes that pass the label filter), each once.
  \<^item> \<open>Vacuum\<close>: \<open>vacuum.rs\<close>, among other backends, over the contract \<open>vacuum_node\<close> of a node that can be
    marked; \<open>Vacuum_Properties\<close> also composes it with a scan.

  \<^bold>\<open>Vectors and builds.\<close>
  \<^item> \<open>Vector_Datum\<close>: \<open>pg_vector.rs\<close> and \<open>LabeledVector\<close> of \<open>labels/mod.rs\<close> over an explicit store of
    allocations, of which \<open>palloc\<close> is a parameter: which datums are accepted, that a query and a row
    are prepared alike, that a clone shares nothing and that everything is freed once.
  \<^item> \<open>Sbq_Means\<close>: the training of the quantiser (\<open>build.rs\<close>) and its storage in a chain that the meta
    page names (\<open>sbq/mod.rs\<close>): what is loaded is what was trained.
  \<^item> \<open>Row_Keeping\<close>: what every operation of the graph promises on rows, over the contracts \<open>row_disk\<close> and
    \<open>row_storage\<close>: alone it keeps them all, among backends that lose none it loses none.
    \<open>Row_Storages\<close>: a tape write adds exactly one row, and the contract \<open>node_storage\<close> of a storage that
    makes nodes, of which both storages are instances.
  \<^item> \<open>Index_Access\<close>: \<open>aminsert\<close> and the serial build (\<open>build.rs\<close>) with the constructors of the storages.
    \<open>Index_Rows\<close> and \<open>Build_Rows\<close> prove over \<open>node_storage\<close> what they do to the abstract index, a map
    from pointers to rows (\<open>index_rows\<close>); \<open>Index_Properties\<close> states it of \<open>aminsert\<close>.
  \<^item> \<open>Index_Create\<close>: \<open>ambuild\<close>, the composition of the meta page, the training, its storage and the serial
    build, of which \<open>Create_Properties\<close> states what \<open>CREATE INDEX\<close> leaves. The chain of the meta page and
    the nodes live in relations of their own. What a parallel build does is a parameter of it.
  \<^item> \<open>Index_Scan\<close>: \<open>ambeginscan\<close>, \<open>amrescan\<close> and \<open>amgettuple\<close> of \<open>scan.rs\<close> with the scan descriptor. Whatever
    the storage and the window, the tuple identifiers given to the executor are those of different rows
    of the index. \<open>Create_Scan\<close> composes this with \<open>CREATE INDEX\<close>.
  \<^item> \<open>Parallel_Build\<close>: the workers of a parallel build (\<open>build.rs\<close>, \<open>build/parallel.rs\<close>) as a step relation
    over their shared counters. Nobody but the initialising worker inserts before the seeds are on
    disk, nobody waits forever, and every tuple is counted once. The condition variable is a parameter.

  \<^bold>\<open>Fuel of chained reads.\<close> \<open>chain_fuel\<close> is one more than the items of a relation; a chain visits each at most
  once. \<open>chain_write\<close> needs at most one round per byte and one more.

  \<^bold>\<open>Not modelled.\<close> Buffer pins, WAL and lock waits (PostgreSQL's: a commit is atomic, an uncommitted
  page is dropped); interrupts; logging and the merge of statistics; the layout of rkyv archives;
  the debug walks over the graph; table access and planner callbacks.
\<close>

end
